(* ===== verification/Prelude.thy ===== *)
theory Prelude
  imports Main "HOL-Library.Word" "HOL-Library.Sublist"
begin

text \<open>
  Shared vocabulary of the development: the Symbian error codes the sources test for, the
  descriptor operations the components call (\<open>Left\<close>, \<open>Mid\<close>, \<open>Find\<close>, \<open>Locate\<close>), the
  outcomes of heap allocations, and the generic lemmas on lists that several components use.
  A descriptor is the list of its code units; an operation that panics on an index out of range
  is \<open>None\<close> there.
\<close>

unbundle bit_operations_syntax

named_theorems des_simps "facts about descriptors and lists used as descriptors"
named_theorems inv_intros "preservation lemmas of the component invariants"

type_synonym byte = "8 word"
type_synonym tdes8 = "8 word list"
type_synonym tdes16 = "16 word list"

datatype symerr =
    KErrNone | KErrNotFound | KErrGeneral | KErrCancel | KErrNoMemory | KErrNotSupported
  | KErrArgument | KErrOverflow | KErrAlreadyExists | KErrCorrupt | KErrEof | KErrDiskFull
  | KErrOther int

text \<open>Literals \<open>_LIT8\<close> and \<open>_LIT\<close>.\<close>

definition lit8 :: "string \<Rightarrow> tdes8" where
  "lit8 s = map of_char s"

definition lit16 :: "string \<Rightarrow> tdes16" where
  "lit16 s = map of_char s"

text \<open>\<open>Copy\<close> of 16-bit text into an 8-bit descriptor: what does not fit becomes 1.\<close>

definition des_copy8 :: "tdes16 \<Rightarrow> tdes8" where
  "des_copy8 = map (\<lambda>c. if c < 256 then ucast c else 1)"

subsection \<open>Descriptor operations\<close>

definition des_left :: "'a list \<Rightarrow> nat \<Rightarrow> 'a list option" where
  "des_left d n = (if n \<le> length d then Some (take n d) else None)"

definition des_right :: "'a list \<Rightarrow> nat \<Rightarrow> 'a list option" where
  "des_right d n = (if n \<le> length d then Some (drop (length d - n) d) else None)"

definition des_mid :: "'a list \<Rightarrow> nat \<Rightarrow> nat \<Rightarrow> 'a list option" where
  "des_mid d pos n = (if pos + n \<le> length d then Some (take n (drop pos d)) else None)"

fun des_find :: "'a list \<Rightarrow> 'a list \<Rightarrow> nat option" where
  "des_find [] pat = (if pat = [] then Some 0 else None)"
| "des_find (x # xs) pat =
     (if prefix pat (x # xs) then Some 0 else map_option Suc (des_find xs pat))"

text \<open>The folded variants compare the code units after the platform's folding.\<close>

definition des_findF :: "('a \<Rightarrow> 'a) \<Rightarrow> 'a list \<Rightarrow> 'a list \<Rightarrow> nat option" where
  "des_findF fold_ch d pat = des_find (map fold_ch d) (map fold_ch pat)"

definition des_eqF :: "('a \<Rightarrow> 'a) \<Rightarrow> 'a list \<Rightarrow> 'a list \<Rightarrow> bool" where
  "des_eqF fold_ch a b \<longleftrightarrow> map fold_ch a = map fold_ch b"

fun des_locate :: "'a list \<Rightarrow> 'a \<Rightarrow> nat option" where
  "des_locate [] c = None"
| "des_locate (x # xs) c = (if x = c then Some 0 else map_option Suc (des_locate xs c))"

lemma des_find_Some:
  "des_find d pat = Some p \<Longrightarrow> p + length pat \<le> length d \<and> prefix pat (drop p d)"
proof (induction d pat arbitrary: p rule: des_find.induct)
  case (1 pat)
  then show ?case by (auto split: if_splits)
next
  case (2 x xs pat)
  show ?case
  proof (cases "prefix pat (x # xs)")
    case True
    with "2.prems" show ?thesis by (auto dest: prefix_length_le)
  next
    case False
    with 2 show ?thesis by (auto split: if_splits)
  qed
qed

lemma des_find_None: "des_find d pat = None \<longleftrightarrow> (\<forall>p \<le> length d. \<not> prefix pat (drop p d))"
proof (induction d pat rule: des_find.induct)
  case (1 pat)
  then show ?case by auto
next
  case (2 x xs pat)
  show ?case
  proof (cases "prefix pat (x # xs)")
    case True
    then have "prefix pat (drop 0 (x # xs))" by simp
    with True show ?thesis by (auto intro!: exI [of _ 0])
  next
    case False
    have "(\<forall>p \<le> length (x # xs). \<not> prefix pat (drop p (x # xs))) \<longleftrightarrow>
        (\<forall>p \<le> length xs. \<not> prefix pat (drop p xs))"
    proof (intro iffI allI impI)
      fix p
      assume h: "\<forall>p \<le> length (x # xs). \<not> prefix pat (drop p (x # xs))" and "p \<le> length xs"
      then show "\<not> prefix pat (drop p xs)" using h [rule_format, of "Suc p"] by simp
    next
      fix p
      assume "\<forall>p \<le> length xs. \<not> prefix pat (drop p xs)" and "p \<le> length (x # xs)"
      then show "\<not> prefix pat (drop p (x # xs))" using False by (cases p) auto
    qed
    with False 2 show ?thesis by simp
  qed
qed

lemma des_find_first:
  "des_find d pat = Some p \<Longrightarrow> q < p \<Longrightarrow> \<not> prefix pat (drop q d)"
proof (induction d pat arbitrary: p q rule: des_find.induct)
  case (1 pat)
  then show ?case by (auto split: if_splits)
next
  case (2 x xs pat)
  then show ?case by (cases q) (auto split: if_splits)
qed

lemma des_findF_bound: "des_findF f d pat = Some p \<Longrightarrow> p + length pat \<le> length d"
  unfolding des_findF_def by (drule des_find_Some) simp

lemma des_locate_Some: "des_locate d c = Some p \<Longrightarrow> p < length d \<and> d ! p = c \<and> c \<notin> set (take p d)"
  by (induction d arbitrary: p) (auto split: if_splits)

lemma des_locate_None [des_simps]: "des_locate d c = None \<longleftrightarrow> c \<notin> set d"
  by (induction d) auto

lemma des_eqF_refl [simp]: "des_eqF f a a"
  by (simp add: des_eqF_def)

lemma des_eqF_sym: "des_eqF f a b \<Longrightarrow> des_eqF f b a"
  by (simp add: des_eqF_def)

lemma des_eqF_trans: "des_eqF f a b \<Longrightarrow> des_eqF f b c \<Longrightarrow> des_eqF f a c"
  by (simp add: des_eqF_def)

subsection \<open>Outcomes of allocations\<close>

text \<open>
  The outcomes of the heap allocations of a call, in the order the code makes them; when the
  list is used up every further allocation succeeds.
\<close>

type_synonym allocs = "bool list"

definition alloc_ok :: "allocs \<Rightarrow> bool" where
  "alloc_ok al \<longleftrightarrow> al = [] \<or> hd al"

definition alloc_rest :: "allocs \<Rightarrow> allocs" where
  "alloc_rest al = tl al"

lemma alloc_Nil [simp]: "alloc_ok []" "alloc_rest [] = []"
  by (simp_all add: alloc_ok_def alloc_rest_def)

lemma alloc_Cons [simp]: "alloc_ok (b # al) = b" "alloc_rest (b # al) = al"
  by (simp_all add: alloc_ok_def alloc_rest_def)

subsection \<open>Lists\<close>

lemma take_append_take_drop [des_simps]:
  "take n xs @ take m (drop n xs) = take (n + m) xs"
  by (simp add: take_add)

lemma nat_diff_room: "m \<le> n \<Longrightarrow> int k \<le> int n - int m \<longleftrightarrow> k \<le> n - m"
  by linarith

lemma concat_butlast_last: "xs \<noteq> [] \<Longrightarrow> concat (map f xs) = concat (map f (butlast xs)) @ f (last xs)"
  by (induction xs) auto

lemma sum_list_const: "(\<And>x. x \<in> set xs \<Longrightarrow> f x = c) \<Longrightarrow> sum_list (map f xs) = length xs * (c::nat)"
  by (induction xs) auto

end
