(* ===== verification/SegBuffer.thy ===== *)
theory SegBuffer
  imports Prelude
begin

text \<open>
  The segmented heap buffer of the HTTP cache (\<open>CSegmentedHeapBuffer\<close>,
  cache/src/HttpCachePostponeWriteUtilities.cpp): a list of heap descriptors of at most
  \<open>iBufferSize\<close> bytes, all full but the last. A segment is its data and the size it was
  allocated with. Allocations can fail; the leave is the \<open>symerr\<close> of the result and
  \<open>aRemainder\<close> its second component.
\<close>

record seg =
  segData :: tdes8
  segMax :: nat

record segbuf =
  iBufferSize :: nat
  iCompressGranularity :: nat
  iBufferList :: "seg list"

definition segNewL :: "nat \<Rightarrow> nat \<Rightarrow> segbuf" where
  "segNewL aBufferSize aCompressGranularity =
     \<lparr>iBufferSize = aBufferSize, iCompressGranularity = aCompressGranularity, iBufferList = []\<rparr>"

text \<open>
  The loop of \<open>AppendL\<close>; the current buffer is the last segment. It need not end when the
  segment size is 0.
\<close>

partial_function (option) segAppendLoop ::
  "nat \<Rightarrow> allocs \<Rightarrow> seg list \<Rightarrow> tdes8 \<Rightarrow> nat \<Rightarrow> nat \<Rightarrow> (symerr \<times> nat \<times> seg list) option" where
  "segAppendLoop bs al segs aDes workingOffset aRemainder =
    (if aRemainder = 0 then Some (KErrNone, 0, segs)
     else let cur = last segs;
              possible = int bs - int (length (segData cur)) in
       if possible = 0 then
         let spaceToAlloc = (if aRemainder < bs then aRemainder else bs) in
         if \<not> alloc_ok al then Some (KErrNoMemory, aRemainder, segs)
         else if \<not> alloc_ok (alloc_rest al) then Some (KErrNoMemory, aRemainder, segs)
         else segAppendLoop bs (alloc_rest (alloc_rest al))
                (segs @ [\<lparr>segData = take spaceToAlloc (drop workingOffset aDes), segMax = spaceToAlloc\<rparr>])
                aDes (workingOffset + spaceToAlloc) (aRemainder - spaceToAlloc)
       else if \<not> alloc_ok al then Some (KErrNoMemory, aRemainder, segs)
       else if possible \<ge> int aRemainder then
         segAppendLoop bs (alloc_rest al)
           (butlast segs @ [\<lparr>segData = segData cur @ take aRemainder (drop workingOffset aDes),
                             segMax = length (segData cur) + aRemainder\<rparr>])
           aDes workingOffset 0
       else
         segAppendLoop bs (alloc_rest al)
           (butlast segs @ [\<lparr>segData = segData cur @ take (nat possible) (drop workingOffset aDes),
                             segMax = nat (int (length (segData cur)) + possible)\<rparr>])
           aDes (workingOffset + nat possible) (aRemainder - nat possible))"

definition segAppendL :: "allocs \<Rightarrow> segbuf \<Rightarrow> tdes8 \<Rightarrow> (symerr \<times> nat \<times> segbuf) option" where
  "segAppendL al b aDes =
    (let aRemainder = length aDes;
         bs = iBufferSize b;
         finish = map_option (\<lambda>(e, r, ss). (e, r, b\<lparr>iBufferList := ss\<rparr>)) in
     if iBufferList b = [] then
       if \<not> alloc_ok al \<or> \<not> alloc_ok (alloc_rest al) then Some (KErrNoMemory, aRemainder, b)
       else if aRemainder \<le> bs then
         finish (segAppendLoop bs (alloc_rest (alloc_rest al))
                   [\<lparr>segData = aDes, segMax = length aDes\<rparr>] aDes 0 0)
       else
         finish (segAppendLoop bs (alloc_rest (alloc_rest al))
                   [\<lparr>segData = take bs aDes, segMax = bs\<rparr>] aDes bs (aRemainder - bs))
     else finish (segAppendLoop bs al (iBufferList b) aDes 0 aRemainder))"

definition segLength :: "segbuf \<Rightarrow> int" where
  "segLength b =
    (let count = length (iBufferList b) in
     if count \<noteq> 0 then
       int (iBufferSize b) * (int count - 1) + int (length (segData (iBufferList b ! (count - 1))))
     else 0)"

definition segSpareCapacity :: "segbuf \<Rightarrow> int" where
  "segSpareCapacity b =
    (let count = length (iBufferList b) in
     if count \<noteq> 0 then int (iBufferSize b) - int (length (segData (iBufferList b ! (count - 1)))) else 0)"

definition segCount :: "segbuf \<Rightarrow> nat" where
  "segCount b = length (iBufferList b)"

text \<open>\<open>GetSegmentData\<close> returns the segment and steps the index; past the end it panics.\<close>

definition segGetSegmentData :: "segbuf \<Rightarrow> nat \<Rightarrow> (tdes8 \<times> nat) option" where
  "segGetSegmentData b aSegment =
    (if aSegment < length (iBufferList b) then Some (segData (iBufferList b ! aSegment), Suc aSegment)
     else None)"

text \<open>\<open>ReAlloc\<close> keeps the old cell when it fails.\<close>

definition segCompress :: "bool \<Rightarrow> segbuf \<Rightarrow> segbuf" where
  "segCompress reallocOk b =
    (let count = length (iBufferList b) in
     if count = 0 then b
     else let buf = iBufferList b ! (count - 1) in
       if int (iBufferSize b) - int (length (segData buf)) \<ge> int (iCompressGranularity b) then
         let newsize = iCompressGranularity b * (1 + length (segData buf) div iCompressGranularity b) in
         if reallocOk then b\<lparr>iBufferList := (iBufferList b)[count - 1 := buf\<lparr>segMax := newsize\<rparr>]\<rparr> else b
       else b)"

definition segReset :: "segbuf \<Rightarrow> segbuf" where
  "segReset b = b\<lparr>iBufferList := []\<rparr>"

subsection \<open>Contents and invariant\<close>

definition segContents :: "segbuf \<Rightarrow> tdes8" where
  "segContents b = concat (map segData (iBufferList b))"

definition segs_ok :: "nat \<Rightarrow> seg list \<Rightarrow> bool" where
  "segs_ok bs ss \<longleftrightarrow> (\<forall>s \<in> set ss. length (segData s) \<le> bs \<and> length (segData s) \<le> segMax s) \<and>
     (\<forall>s \<in> set (butlast ss). length (segData s) = bs)"

definition seg_ok :: "segbuf \<Rightarrow> bool" where
  "seg_ok b \<longleftrightarrow> 0 < iBufferSize b \<and> 0 < iCompressGranularity b \<and> segs_ok (iBufferSize b) (iBufferList b)"

lemma segs_ok_snoc [simp]:
  "segs_ok bs (ss @ [s]) \<longleftrightarrow> (\<forall>t \<in> set ss. length (segData t) = bs \<and> bs \<le> segMax t) \<and>
     length (segData s) \<le> bs \<and> length (segData s) \<le> segMax s"
  by (auto simp: segs_ok_def)

lemma segs_ok_split:
  assumes "segs_ok bs ss" "ss \<noteq> []"
  obtains ts s where "ss = ts @ [s]" "\<forall>t \<in> set ts. length (segData t) = bs \<and> bs \<le> segMax t"
    "length (segData s) \<le> bs" "length (segData s) \<le> segMax s"
  using assms by (cases ss rule: rev_cases) auto

text \<open>One round of the loop: it leaves with nothing consumed, or it consumes at least one byte.\<close>

lemma segAppendLoop_step:
  assumes "0 < bs" "segs_ok bs segs" "segs \<noteq> []" "off + rem = length des" "0 < rem"
  shows "al \<noteq> [] \<and> segAppendLoop bs al segs des off rem = Some (KErrNoMemory, rem, segs) \<or>
    (\<exists>al' segs' n. (al = [] \<longrightarrow> al' = []) \<and> 0 < n \<and> n \<le> rem \<and> segs_ok bs segs' \<and> segs' \<noteq> [] \<and>
       concat (map segData segs') = concat (map segData segs) @ take n (drop off des) \<and>
       (\<exists>off'. (n = rem \<or> off' = off + n) \<and>
          segAppendLoop bs al segs des off rem = segAppendLoop bs al' segs' des off' (rem - n)))"
proof -
  obtain ts s where s: "segs = ts @ [s]"
    and ts: "\<forall>t \<in> set ts. length (segData t) = bs \<and> bs \<le> segMax t"
    and sl: "length (segData s) \<le> bs" "length (segData s) \<le> segMax s"
    using assms(2,3) by (elim segs_ok_split)
  note unf = segAppendLoop.simps [of bs al "ts @ [s]" des off rem]
  consider (leave) "\<not> alloc_ok al \<or> length (segData s) = bs \<and> \<not> alloc_ok (alloc_rest al)"
    | (full) "alloc_ok al" "alloc_ok (alloc_rest al)" "length (segData s) = bs"
    | (fits) "alloc_ok al" "length (segData s) \<noteq> bs" "rem \<le> bs - length (segData s)"
    | (part) "alloc_ok al" "length (segData s) \<noteq> bs" "\<not> rem \<le> bs - length (segData s)" by blast
  then show ?thesis
  proof cases
    case leave
    then have "al \<noteq> []" by auto
    then show ?thesis using leave assms(5) by (intro disjI1) (auto simp: unf Let_def s)
  next
    case full
    define n where "n = (if rem < bs then rem else bs)"
    define new where "new = \<lparr>segData = take n (drop off des), segMax = n\<rparr>"
    have "segAppendLoop bs al segs des off rem =
        segAppendLoop bs (alloc_rest (alloc_rest al)) (segs @ [new]) des (off + n) (rem - n)"
      using full assms(5) by (simp add: unf Let_def s n_def new_def)
    moreover have "segs_ok bs (segs @ [new])"
      using ts sl full assms(4) unfolding segs_ok_snoc by (auto simp: s n_def new_def)
    ultimately show ?thesis
      using assms(1,5) by - (intro disjI2, rule exI [of _ "alloc_rest (alloc_rest al)"], rule exI [of _ "segs @ [new]"],
          rule exI [of _ n], auto simp: n_def new_def)
  next
    case fits
    define new where "new = \<lparr>segData = segData s @ take rem (drop off des), segMax = length (segData s) + rem\<rparr>"
    have "segAppendLoop bs al segs des off rem = segAppendLoop bs (alloc_rest al) (ts @ [new]) des off (rem - rem)"
      using fits sl assms(5) nat_diff_room [OF sl(1)] by (simp add: unf Let_def s new_def)
    moreover have "segs_ok bs (ts @ [new])" using ts sl fits assms(4) by (auto simp: new_def)
    ultimately show ?thesis
      using assms(5) by - (intro disjI2, rule exI [of _ "alloc_rest al"], rule exI [of _ "ts @ [new]"],
          rule exI [of _ rem], auto simp: s new_def)
  next
    case part
    define n where "n = bs - length (segData s)"
    define new where "new = \<lparr>segData = segData s @ take n (drop off des), segMax = bs\<rparr>"
    have "segAppendLoop bs al segs des off rem =
        segAppendLoop bs (alloc_rest al) (ts @ [new]) des (off + n) (rem - n)"
      using part sl assms(5) nat_diff_room [OF sl(1)] by (simp add: unf Let_def s n_def new_def nat_diff_distrib)
    moreover have "segs_ok bs (ts @ [new])" using ts sl part assms(4) by (auto simp: n_def new_def)
    ultimately show ?thesis
      using part sl by - (intro disjI2, rule exI [of _ "alloc_rest al"], rule exI [of _ "ts @ [new]"],
          rule exI [of _ n], auto simp: s n_def new_def)
  qed
qed

lemma segAppendLoop_spec:
  assumes "0 < bs" "segs_ok bs segs" "segs \<noteq> []" "rem = 0 \<or> off + rem = length des"
  shows "\<exists>e r ss. segAppendLoop bs al segs des off rem = Some (e, r, ss) \<and> r \<le> rem \<and>
    (e = KErrNone \<and> r = 0 \<or> e = KErrNoMemory \<and> al \<noteq> []) \<and> segs_ok bs ss \<and> ss \<noteq> [] \<and>
    concat (map segData ss) = concat (map segData segs) @ take (rem - r) (drop off des)"
  using assms
proof (induction rem arbitrary: al segs off rule: less_induct)
  case (less rem)
  show ?case
  proof (cases "rem = 0")
    case True
    then show ?thesis using less.prems by (subst segAppendLoop.simps) auto
  next
    case False
    with less.prems have pre: "off + rem = length des" "0 < rem" by auto
    from segAppendLoop_step [OF less.prems(1-3) pre, of al]
    consider (leave) "al \<noteq> []" "segAppendLoop bs al segs des off rem = Some (KErrNoMemory, rem, segs)"
      | (go) al' segs' n off' where "0 < n" "n \<le> rem" "segs_ok bs segs'" "segs' \<noteq> []" "al = [] \<longrightarrow> al' = []"
          "n = rem \<or> off' = off + n"
          "concat (map segData segs') = concat (map segData segs) @ take n (drop off des)"
          "segAppendLoop bs al segs des off rem = segAppendLoop bs al' segs' des off' (rem - n)"
      by blast
    then show ?thesis
    proof cases
      case leave
      then show ?thesis using less.prems by auto
    next
      case go
      then obtain e r ss where *: "segAppendLoop bs al' segs' des off' (rem - n) = Some (e, r, ss)"
        "r \<le> rem - n" "e = KErrNone \<and> r = 0 \<or> e = KErrNoMemory \<and> al' \<noteq> []" "segs_ok bs ss" "ss \<noteq> []"
        "concat (map segData ss) = concat (map segData segs') @ take (rem - n - r) (drop off' des)"
        using less.IH [of "rem - n" segs' off' al'] pre less.prems(1) by auto
      have "take n (drop off des) @ take (rem - n - r) (drop off' des) = take (rem - r) (drop off des)"
        using take_append_take_drop [of n "drop off des" "rem - n - r"] go(1,2,6) *(2) by (auto simp: add.commute)
      with * go show ?thesis by (intro exI [of _ e] exI [of _ r] exI [of _ ss]) auto
    qed
  qed
qed

lemma alloc_rest2: "alloc_rest (alloc_rest al) \<noteq> [] \<Longrightarrow> al \<noteq> []"
  by (auto simp: alloc_rest_def)

lemma segAppendL_spec:
  assumes "seg_ok b"
  shows "\<exists>e r b'. segAppendL al b des = Some (e, r, b') \<and> seg_ok b' \<and> r \<le> length des \<and>
    (e = KErrNone \<and> r = 0 \<or> e = KErrNoMemory \<and> al \<noteq> []) \<and>
    segContents b' = segContents b @ take (length des - r) des"
proof (cases "iBufferList b = []")
  case True
  have first: "segs_ok (iBufferSize b) [\<lparr>segData = take (iBufferSize b) des, segMax = iBufferSize b\<rparr>]"
    by (simp add: segs_ok_def)
  show ?thesis
  proof (cases "alloc_ok al \<and> alloc_ok (alloc_rest al) \<and> \<not> length des \<le> iBufferSize b")
    case False
    then show ?thesis using assms True
      by (auto simp: segAppendL_def Let_def seg_ok_def segs_ok_def segContents_def segAppendLoop.simps)
  next
    case big: True
    with assms first segAppendLoop_spec [of "iBufferSize b" "[\<lparr>segData = take (iBufferSize b) des, segMax = iBufferSize b\<rparr>]"
        "length des - iBufferSize b" "iBufferSize b" des "alloc_rest (alloc_rest al)"]
    obtain e r ss where *: "segAppendLoop (iBufferSize b) (alloc_rest (alloc_rest al))
          [\<lparr>segData = take (iBufferSize b) des, segMax = iBufferSize b\<rparr>] des (iBufferSize b) (length des - iBufferSize b) = Some (e, r, ss)"
      "r \<le> length des - iBufferSize b" "e = KErrNone \<and> r = 0 \<or> e = KErrNoMemory \<and> al \<noteq> []" "segs_ok (iBufferSize b) ss"
      "concat (map segData ss) = take (iBufferSize b) des @ take (length des - iBufferSize b - r) (drop (iBufferSize b) des)"
      using alloc_rest2 [of al] by (auto simp: seg_ok_def)
    moreover have "take (iBufferSize b) des @ take (length des - iBufferSize b - r) (drop (iBufferSize b) des) = take (length des - r) des"
      using take_append_take_drop [of "iBufferSize b" des "length des - iBufferSize b - r"] *(2) big by auto
    ultimately show ?thesis using assms True big
      by (auto simp: segAppendL_def Let_def seg_ok_def segContents_def)
  qed
next
  case False
  then show ?thesis
    using assms segAppendLoop_spec [of "iBufferSize b" "iBufferList b" "length des" 0 des al]
    by (auto simp: segAppendL_def Let_def seg_ok_def segContents_def)
qed

text \<open>
  \<open>AppendL\<close> returns for every input. What it consumed is appended to the contents, and
  \<open>aRemainder\<close> counts exactly the bytes it did not consume, also when an allocation fails.
\<close>

theorem segAppendL_contents:
  assumes "seg_ok b"
  shows "\<exists>e r b'. segAppendL al b des = Some (e, r, b') \<and> seg_ok b' \<and> r \<le> length des \<and>
    (e = KErrNone \<and> r = 0 \<or> e = KErrNoMemory) \<and>
    segContents b' = segContents b @ take (length des - r) des"
  using segAppendL_spec [OF assms] by blast

theorem segAppendL_contents_witness:
  "\<exists>e r b'. segAppendL [True, True, True, False] (segNewL 4 2) [1, 2, 3, 4, 5, 6] = Some (e, r, b') \<and>
    segContents b' = segContents (segNewL 4 2) @ take (length [1::byte, 2, 3, 4, 5, 6] - r) [1, 2, 3, 4, 5, 6]"
  using segAppendL_contents [of "segNewL 4 2" "[True, True, True, False]" "[1, 2, 3, 4, 5, 6]"]
  by (auto simp: seg_ok_def segs_ok_def segNewL_def)

subsection \<open>Sizes, iteration, compression\<close>

text \<open>The size computed from the segment count is the length of the stored bytes.\<close>

lemma segLength_contents: "seg_ok b \<Longrightarrow> segLength b = int (length (segContents b))"
proof (cases "iBufferList b" rule: rev_cases)
  case Nil
  then show ?thesis by (simp add: segLength_def segContents_def)
next
  case (snoc ts s)
  assume "seg_ok b"
  with snoc have "\<forall>t \<in> set ts. length (segData t) = iBufferSize b" by (simp add: seg_ok_def)
  then have "sum_list (map (\<lambda>t. length (segData t)) ts) = length ts * iBufferSize b"
    by (intro sum_list_const) auto
  then have "length (concat (map segData ts)) = length ts * iBufferSize b"
    by (simp add: length_concat comp_def)
  with snoc show ?thesis by (simp add: segLength_def segContents_def algebra_simps flip: of_nat_mult)
qed

lemma segSpareCapacity_nonneg: "seg_ok b \<Longrightarrow> 0 \<le> segSpareCapacity b"
  by (cases "iBufferList b" rule: rev_cases) (auto simp: segSpareCapacity_def seg_ok_def)

text \<open>
  The loops that write a buffer out read segment after segment through the in/out index until
  \<open>Count\<close>; together they read the contents.
\<close>

fun segReadFrom :: "nat \<Rightarrow> segbuf \<Rightarrow> nat \<Rightarrow> tdes8 option" where
  "segReadFrom 0 b i = (if segCount b > i then None else Some [])"
| "segReadFrom (Suc k) b i =
     (if segCount b > i then
        (case segGetSegmentData b i of None \<Rightarrow> None
         | Some (d, i') \<Rightarrow> map_option (\<lambda>rest. d @ rest) (segReadFrom k b i'))
      else Some [])"

lemma segReadFrom_contents:
  "segCount b \<le> i + k \<Longrightarrow> segReadFrom k b i = Some (concat (map segData (drop i (iBufferList b))))"
proof (induction k arbitrary: i)
  case 0
  then show ?case by (simp add: segCount_def)
next
  case (Suc k)
  then show ?case
    by (auto simp: segCount_def segGetSegmentData_def simp flip: Cons_nth_drop_Suc)
qed

lemma segNewL_ok [inv_intros]: "0 < n \<Longrightarrow> 0 < g \<Longrightarrow> seg_ok (segNewL n g)"
  by (simp add: seg_ok_def segNewL_def segs_ok_def)

lemma segReset_ok [inv_intros]: "seg_ok b \<Longrightarrow> seg_ok (segReset b)"
  by (simp add: seg_ok_def segReset_def segs_ok_def)

lemma segReset_contents [simp]: "segContents (segReset b) = []"
  by (simp add: segReset_def segContents_def)

text \<open>
  \<open>Compress\<close> never truncates: the new allocation holds the data of the last segment, is at
  most the segment size, and the contents and the invariant are unchanged.
\<close>

theorem segCompress_safe:
  assumes "seg_ok b"
  shows "seg_ok (segCompress ok b) \<and> segContents (segCompress ok b) = segContents b \<and>
    (segCompress ok b \<noteq> b \<longrightarrow>
       length (segData (last (iBufferList b))) \<le> segMax (last (iBufferList (segCompress ok b))) \<and>
       segMax (last (iBufferList (segCompress ok b))) \<le> iBufferSize b)"
proof (cases "iBufferList b" rule: rev_cases)
  case Nil
  with assms show ?thesis by (simp add: segCompress_def)
next
  case (snoc ts s)
  define L where "L = length (segData s)"
  define g where "g = iCompressGranularity b"
  have "0 < g" using assms by (simp add: seg_ok_def g_def)
  then have lo: "L \<le> g * (1 + L div g)"
    by (metis add.commute dual_order.strict_implies_order dividend_less_times_div mult.commute
        nat_mult_1_right plus_1_eq_Suc mult_Suc_right)
  have "g * (1 + L div g) \<le> g + L" by (simp add: algebra_simps)
  then have hi: "int (iBufferSize b) - int L \<ge> int g \<Longrightarrow> g * (1 + L div g) \<le> iBufferSize b" by linarith
  show ?thesis
    using snoc assms lo hi
    by (auto simp: segCompress_def Let_def seg_ok_def segContents_def L_def g_def list_update_append)
qed

theorem segCompress_safe_witness:
  "segContents (segCompress True (segNewL 4 2\<lparr>iBufferList := [\<lparr>segData = [7], segMax = 1\<rparr>]\<rparr>)) = [7]"
  using segCompress_safe [of "segNewL 4 2\<lparr>iBufferList := [\<lparr>segData = [7], segMax = 1\<rparr>]\<rparr>" True]
  by (simp add: seg_ok_def segs_ok_def segNewL_def segContents_def)

end
