(* ===== verification/CacheEntry.thy ===== *)
theory CacheEntry
  imports SegBuffer
begin

text \<open>
  One entry of the HTTP cache (\<open>CHttpCacheEntry\<close>, cache/inc/HttpCacheEntry.h and
  cache/src/HttpCacheEntry.cpp): its fields, its write-state bits, its header buffer, and the
  asynchronous writer of its body (\<open>CHttpCacheEntryAsyncWriteHelper\<close>). \<open>None\<close> as a result
  stands for a fault of the code: a null or dangling pointer, a division by zero or a panic.
\<close>

datatype TCacheEntryState =
    ECacheUninitialized | ECacheInitialized | ECacheRequesting
  | ECacheResponding | ECacheComplete | ECacheDestroyed

record cache_entry =
  iUrl :: tdes8
  iFileName :: "tdes16 option"
  iState :: TCacheEntryState
  iLastAccessed :: int
  iRef :: "16 word"
  iBodySize :: "32 word"
  iHeaderSize :: "16 word"
  iProtected :: "8 word"
  iEvictionCandidate :: bool
  iBodyFileDeleteNeeded :: bool
  iCacheBuffer :: segbuf
  iHeaderBuffer :: "tdes8 option"
  iWriteState :: "32 word"
  iWriteHelper :: bool
  iDeleteObserver :: "nat option"

definition KBufferSize32k :: nat where "KBufferSize32k = 32768"
definition KBufferGranularity4k :: nat where "KBufferGranularity4k = 4096"

text \<open>\<open>CBase\<close> objects start zeroed.\<close>

definition entryNewL :: "tdes8 \<Rightarrow> cache_entry" where
  "entryNewL aUrl = \<lparr>iUrl = aUrl, iFileName = None, iState = ECacheUninitialized,
     iLastAccessed = 0, iRef = 0, iBodySize = 0, iHeaderSize = 0, iProtected = 0,
     iEvictionCandidate = False, iBodyFileDeleteNeeded = False,
     iCacheBuffer = segNewL KBufferSize32k KBufferGranularity4k, iHeaderBuffer = Some [],
     iWriteState = 0, iWriteHelper = False, iDeleteObserver = None\<rparr>"

definition SetFileNameL :: "tdes16 \<Rightarrow> cache_entry \<Rightarrow> cache_entry" where
  "SetFileNameL aFileName e = e\<lparr>iFileName := Some aFileName\<rparr>"

definition SetProtected :: "cache_entry \<Rightarrow> cache_entry" where
  "SetProtected e = e\<lparr>iProtected := 1, iRef := 50\<rparr>"

definition SetHeaderSize :: "16 word \<Rightarrow> cache_entry \<Rightarrow> cache_entry" where
  "SetHeaderSize n e = e\<lparr>iHeaderSize := n\<rparr>"

text \<open>
  The header buffer is freed first, so a failed allocation leaves it null. The size is stored in
  16 bits.
\<close>

definition CreateHeaderBufferL :: "bool \<Rightarrow> int \<Rightarrow> cache_entry \<Rightarrow> symerr \<times> cache_entry" where
  "CreateHeaderBufferL allocOk aHeaderBufferSize e =
    (let e1 = e\<lparr>iHeaderBuffer := None\<rparr> in
     if aHeaderBufferSize > 0 then
       if allocOk then (KErrNone, SetHeaderSize (word_of_int aHeaderBufferSize) (e1\<lparr>iHeaderBuffer := Some []\<rparr>))
       else (KErrNoMemory, e1)
     else (KErrNone, SetHeaderSize (word_of_int aHeaderBufferSize) e1))"

definition CreateHeaderBufferDataL :: "bool \<Rightarrow> tdes8 \<Rightarrow> cache_entry \<Rightarrow> symerr \<times> cache_entry" where
  "CreateHeaderBufferDataL allocOk aHeaderData e =
    (let e1 = e\<lparr>iHeaderBuffer := None\<rparr>; aHeaderBufferSize = length aHeaderData in
     if aHeaderBufferSize > 0 then
       if allocOk then (KErrNone, SetHeaderSize (of_nat aHeaderBufferSize) (e1\<lparr>iHeaderBuffer := Some aHeaderData\<rparr>))
       else (KErrNoMemory, e1)
     else (KErrNone, SetHeaderSize (of_nat aHeaderBufferSize) e1))"

definition HeaderData :: "cache_entry \<Rightarrow> tdes8 option" where
  "HeaderData e = iHeaderBuffer e"

definition SetDeleteObserver :: "nat \<Rightarrow> cache_entry \<Rightarrow> cache_entry" where
  "SetDeleteObserver obs e = e\<lparr>iDeleteObserver := Some obs\<rparr>"

definition ClearDeleteObserver :: "cache_entry \<Rightarrow> cache_entry" where
  "ClearDeleteObserver e = e\<lparr>iDeleteObserver := None\<rparr>"

definition UnsetEvictionCandidate :: "cache_entry \<Rightarrow> cache_entry" where
  "UnsetEvictionCandidate e = e\<lparr>iEvictionCandidate := False\<rparr>"

subsection \<open>The write-state bits\<close>

text \<open>\<open>TWriteStateBits\<close>: one constructor per bit, with its mask.\<close>

datatype TWriteStateBits =
    EFileOk | EHeaderDataCached | ENewHeaderData | EBodyDataCached | EDelayedWriteAllowed
  | EDelayedWriteInProgress | EBodyDataPartiallyWritten

primrec writeStateMask :: "TWriteStateBits \<Rightarrow> 32 word" where
  "writeStateMask EFileOk = 0x01"
| "writeStateMask EHeaderDataCached = 0x02"
| "writeStateMask ENewHeaderData = 0x04"
| "writeStateMask EBodyDataCached = 0x08"
| "writeStateMask EDelayedWriteAllowed = 0x10"
| "writeStateMask EDelayedWriteInProgress = 0x20"
| "writeStateMask EBodyDataPartiallyWritten = 0x40"

definition writeStateBit :: "TWriteStateBits \<Rightarrow> cache_entry \<Rightarrow> bool" where
  "writeStateBit f e \<longleftrightarrow> iWriteState e AND writeStateMask f \<noteq> 0"

definition setWriteStateBit :: "TWriteStateBits \<Rightarrow> bool \<Rightarrow> cache_entry \<Rightarrow> cache_entry" where
  "setWriteStateBit f aBit e =
     e\<lparr>iWriteState := (if aBit then iWriteState e OR writeStateMask f
                        else iWriteState e AND NOT (writeStateMask f))\<rparr>"

definition FileOk :: "cache_entry \<Rightarrow> bool" where
  "FileOk e = writeStateBit EFileOk e"

definition BodyDataCached :: "cache_entry \<Rightarrow> bool" where
  "BodyDataCached e = writeStateBit EBodyDataCached e"

definition DelayedWriteAllowed :: "cache_entry \<Rightarrow> bool" where
  "DelayedWriteAllowed e = writeStateBit EDelayedWriteAllowed e"

definition DelayedWriteInProgress :: "cache_entry \<Rightarrow> bool" where
  "DelayedWriteInProgress e = writeStateBit EDelayedWriteInProgress e"

definition BodyDataPartiallyWritten :: "cache_entry \<Rightarrow> bool" where
  "BodyDataPartiallyWritten e = writeStateBit EBodyDataPartiallyWritten e"

definition SetFileOk :: "bool \<Rightarrow> cache_entry \<Rightarrow> cache_entry" where
  "SetFileOk b = setWriteStateBit EFileOk b"

text \<open>Clearing the bit also drops the buffered body.\<close>

definition SetBodyDataCached :: "bool \<Rightarrow> cache_entry \<Rightarrow> cache_entry" where
  "SetBodyDataCached aBit e =
    (let e1 = setWriteStateBit EBodyDataCached aBit e in
     if \<not> aBit then e1\<lparr>iCacheBuffer := segReset (iCacheBuffer e1)\<rparr> else e1)"

definition SetDelayedWriteAllowed :: "bool \<Rightarrow> cache_entry \<Rightarrow> cache_entry" where
  "SetDelayedWriteAllowed b = setWriteStateBit EDelayedWriteAllowed b"

definition SetDelayedWriteInProgress :: "bool \<Rightarrow> cache_entry \<Rightarrow> cache_entry" where
  "SetDelayedWriteInProgress b = setWriteStateBit EDelayedWriteInProgress b"

definition SetBodyDataPartiallyWritten :: "bool \<Rightarrow> cache_entry \<Rightarrow> cache_entry" where
  "SetBodyDataPartiallyWritten b = setWriteStateBit EBodyDataPartiallyWritten b"

definition BodyWriteInProgress :: "cache_entry \<Rightarrow> cache_entry" where
  "BodyWriteInProgress e = SetBodyDataPartiallyWritten True e"

definition BodyWriteComplete :: "cache_entry \<Rightarrow> cache_entry" where
  "BodyWriteComplete e =
    (let e1 = e\<lparr>iCacheBuffer := segReset (iCacheBuffer e)\<rparr>;
         e2 = SetBodyDataPartiallyWritten False e1
     in SetBodyDataCached False e2)"

text \<open>The masks are distinct single bits, so a setter changes its own flag only.\<close>

lemma writeStateMask_bit:
  "\<exists>n < 7. writeStateMask f = push_bit n 1 \<and> (\<forall>g. g \<noteq> f \<longrightarrow> writeStateMask g AND writeStateMask f = 0)"
proof -
  have *: "\<forall>g. g \<noteq> f \<longrightarrow> writeStateMask g AND writeStateMask f = 0"
    by (intro allI; case_tac g; cases f) simp_all
  have "\<exists>n < 7. writeStateMask f = push_bit n (1 :: 32 word)"
    by (cases f) (auto simp: push_bit_eq_mult intro: exI [of _ 0] exI [of _ 1] exI [of _ 2] exI [of _ 3]
        exI [of _ 4] exI [of _ 5] exI [of _ 6])
  with * show ?thesis by blast
qed

lemma writeStateBit_set [simp]:
  "writeStateBit g (setWriteStateBit f b e) = (if g = f then b else writeStateBit g e)"
proof -
  have self: "writeStateMask f \<noteq> 0" by (cases f) simp_all
  have disj: "g \<noteq> f \<Longrightarrow> writeStateMask g AND writeStateMask f = 0" using writeStateMask_bit [of f] by blast
  have clear: "(w AND NOT m) AND m = 0" "(w OR m) AND m = m" for w m :: "32 word"
    by (auto simp: bit_eq_iff bit_simps)
  have other: "n AND m = 0 \<Longrightarrow> (w OR m) AND n = w AND n" "n AND m = 0 \<Longrightarrow> (w AND NOT m) AND n = w AND n"
    for w m n :: "32 word" by (auto simp: bit_eq_iff bit_simps)
  show ?thesis
    using self disj by (auto simp: writeStateBit_def setWriteStateBit_def clear other)
qed

lemma writeStateBit_buffer [simp]: "writeStateBit g (e\<lparr>iCacheBuffer := b\<rparr>) = writeStateBit g e"
  by (simp add: writeStateBit_def)

lemma setWriteStateBit_buffer [simp]: "iCacheBuffer (setWriteStateBit f b e) = iCacheBuffer e"
  by (simp add: setWriteStateBit_def)

lemmas write_state_defs = FileOk_def BodyDataCached_def DelayedWriteAllowed_def
  DelayedWriteInProgress_def BodyDataPartiallyWritten_def SetFileOk_def SetBodyDataCached_def
  SetDelayedWriteAllowed_def SetDelayedWriteInProgress_def SetBodyDataPartiallyWritten_def

end
