(* ===== verification/BodyWriter.thy ===== *)
theory BodyWriter
  imports CacheEntry
begin

text \<open>
  The active object that writes an entry's buffered body to its file, one segment per request
  (\<open>CHttpCacheEntryAsyncWriteHelper\<close>, cache/src/HttpCachePostponeWriteUtilities.cpp). The state
  holds the entry it serves, the bytes the file has received, the request that is outstanding
  and the observer's status (\<open>None\<close> while it is pending). A run is the list of completions
  the file server reports: a status and the number of bytes that reached the file.
\<close>

record writer =
  wrSource :: cache_entry
  wrFile :: tdes8
  wrFileOpen :: bool
  iBodyPart :: nat
  iStatus :: symerr
  wrActive :: bool
  wrPending :: "tdes8 option"
  iSignalStatus :: "symerr option"

text \<open>\<open>NewL\<close> and \<open>ConstructL\<close>: the helper completes its own first request.\<close>

definition wrConstructL :: "cache_entry \<Rightarrow> writer" where
  "wrConstructL e = \<lparr>wrSource = BodyWriteInProgress e, wrFile = [], wrFileOpen = True, iBodyPart = 0,
     iStatus = KErrNone, wrActive = True, wrPending = None, iSignalStatus = None\<rparr>"

definition wrWriteNextBodyBlock :: "writer \<Rightarrow> writer option" where
  "wrWriteNextBodyBlock w =
    (case segGetSegmentData (iCacheBuffer (wrSource w)) (iBodyPart w) of
       None \<Rightarrow> None
     | Some (d, i) \<Rightarrow> Some (w\<lparr>iBodyPart := i, wrPending := Some d\<rparr>))"

definition wrRunL :: "writer \<Rightarrow> writer option" where
  "wrRunL w =
    (if segCount (iCacheBuffer (wrSource w)) > iBodyPart w then
       map_option (\<lambda>w'. w'\<lparr>wrActive := True\<rparr>) (wrWriteNextBodyBlock (w\<lparr>wrActive := False\<rparr>))
     else Some (w\<lparr>wrActive := False, wrFileOpen := False,
                  wrSource := BodyWriteComplete (wrSource w), iSignalStatus := Some (iStatus w)\<rparr>))"

definition wrDoCancel :: "writer \<Rightarrow> writer" where
  "wrDoCancel w = w\<lparr>iSignalStatus := Some KErrCancel, wrFileOpen := False,
     wrSource := BodyWriteComplete (wrSource w)\<rparr>"

text \<open>
  The outstanding write completes with a status after \<open>k\<close> bytes reached the file; a write that
  reports success wrote everything.
\<close>

definition wrComplete :: "symerr \<Rightarrow> nat \<Rightarrow> writer \<Rightarrow> writer" where
  "wrComplete e k w = w\<lparr>iStatus := e, wrPending := None,
     wrFile := wrFile w @ (case wrPending w of None \<Rightarrow> [] | Some d \<Rightarrow> if e = KErrNone then d else take k d)\<rparr>"

fun wrRun :: "(symerr \<times> nat) list \<Rightarrow> writer \<Rightarrow> writer option" where
  "wrRun [] w = Some w"
| "wrRun ((e, k) # es) w = (case wrRunL (wrComplete e k w) of None \<Rightarrow> None | Some w' \<Rightarrow> wrRun es w')"

text \<open>\<open>WriteBodyDataAsync\<close> and \<open>CancelBodyWrite\<close> of the entry; a failed construction is trapped.\<close>

definition WriteBodyDataAsync :: "bool \<Rightarrow> cache_entry \<Rightarrow> cache_entry \<times> writer option" where
  "WriteBodyDataAsync allocOk e =
    (let e1 = e\<lparr>iWriteHelper := False\<rparr> in
     if allocOk then (let e2 = e1\<lparr>iWriteHelper := True\<rparr> in (BodyWriteInProgress e2, Some (wrConstructL e2)))
     else (e1, None))"

definition CancelBodyWrite :: "cache_entry \<Rightarrow> writer \<Rightarrow> writer" where
  "CancelBodyWrite e w =
    (if BodyDataPartiallyWritten e \<and> iWriteHelper e \<and> wrActive w
     then (wrDoCancel w)\<lparr>wrActive := False\<rparr> else w)"

subsection \<open>Runs\<close>

lemma BodyWriteInProgress_buffer [simp]: "iCacheBuffer (BodyWriteInProgress e) = iCacheBuffer e"
  by (simp add: BodyWriteInProgress_def SetBodyDataPartiallyWritten_def setWriteStateBit_def)

lemma BodyWriteComplete_facts:
  "BodyDataPartiallyWritten (BodyWriteComplete e) = False"
  "BodyDataCached (BodyWriteComplete e) = False"
  "segContents (iCacheBuffer (BodyWriteComplete e)) = []"
  by (simp_all add: BodyWriteComplete_def write_state_defs Let_def)

lemma wrRun_spec:
  assumes "iBodyPart w + length es = segCount (iCacheBuffer (wrSource w))"
    "iSignalStatus w = None"
  shows "\<exists>w'. wrRun (es @ [(e, k)]) w = Some w' \<and>
    iSignalStatus w' = Some e \<and> wrSource w' = BodyWriteComplete (wrSource w) \<and> \<not> wrActive w' \<and> \<not> wrFileOpen w' \<and>
    ((\<forall>c \<in> set (es @ [(e, k)]). fst c = KErrNone) \<longrightarrow>
       wrFile w' = wrFile w @ (case wrPending w of None \<Rightarrow> [] | Some d \<Rightarrow> d) @
         concat (map segData (drop (iBodyPart w) (iBufferList (iCacheBuffer (wrSource w))))))"
  using assms
proof (induction es arbitrary: w)
  case Nil
  then show ?case
    by (auto simp: wrRunL_def wrComplete_def segCount_def split: option.splits)
next
  case (Cons c es)
  obtain e1 k1 where c: "c = (e1, k1)" by (cases c)
  let ?b = "iCacheBuffer (wrSource w)"
  have lt: "iBodyPart w < length (iBufferList ?b)" using Cons.prems by (simp add: segCount_def)
  define w1 where "w1 = (wrComplete e1 k1 w)\<lparr>wrActive := True, iBodyPart := Suc (iBodyPart w),
      wrPending := Some (segData (iBufferList ?b ! iBodyPart w))\<rparr>"
  have step: "wrRunL (wrComplete e1 k1 w) = Some w1"
    using lt by (simp add: wrRunL_def wrWriteNextBodyBlock_def wrComplete_def segCount_def segGetSegmentData_def w1_def)
  have "iBodyPart w1 + length es = segCount (iCacheBuffer (wrSource w1))" "iSignalStatus w1 = None"
    using Cons.prems by (simp_all add: w1_def wrComplete_def)
  from Cons.IH [OF this] obtain w' where w': "wrRun (es @ [(e, k)]) w1 = Some w'"
      "iSignalStatus w' = Some e" "wrSource w' = BodyWriteComplete (wrSource w1)" "\<not> wrActive w'" "\<not> wrFileOpen w'"
      "(\<forall>c \<in> set (es @ [(e, k)]). fst c = KErrNone) \<longrightarrow> wrFile w' = wrFile w1 @
         (case wrPending w1 of None \<Rightarrow> [] | Some d \<Rightarrow> d) @
         concat (map segData (drop (iBodyPart w1) (iBufferList (iCacheBuffer (wrSource w1)))))"
    by blast
  then show ?case
    using step lt
    by (intro exI [of _ w']) (auto simp: c w1_def wrComplete_def simp flip: Cons_nth_drop_Suc split: option.splits)
qed

text \<open>
  A body write that is not cancelled ends after one completion per segment and its own first
  one: the observer is signalled, the file is closed and the entry's buffer and flags are
  cleared. When every write succeeded the file holds exactly the buffered body.
\<close>

theorem body_write_completes:
  assumes "length es = segCount (iCacheBuffer e)"
  shows "\<exists>w. wrRun ((KErrNone, 0) # es) (wrConstructL e) = Some w \<and>
    \<not> wrActive w \<and> \<not> wrFileOpen w \<and> iSignalStatus w = Some (last (KErrNone # map fst es)) \<and>
    \<not> BodyDataPartiallyWritten (wrSource w) \<and> \<not> BodyDataCached (wrSource w) \<and>
    ((\<forall>c \<in> set es. fst c = KErrNone) \<longrightarrow> wrFile w = segContents (iCacheBuffer e))"
proof -
  define cs where "cs = (KErrNone, 0) # es"
  obtain fs s k where cs: "cs = fs @ [(s, k)]"
    by (metis cs_def list.distinct(1) rev_exhaust surj_pair)
  have len: "length cs = Suc (length es)" by (simp add: cs_def)
  have n: "iBodyPart (wrConstructL e) + length fs = segCount (iCacheBuffer (wrSource (wrConstructL e)))"
    using assms len cs by (simp add: wrConstructL_def)
  have last_s: "s = last (KErrNone # map fst es)"
  proof -
    have "last (map fst cs) = s" by (simp add: cs)
    then show ?thesis by (simp add: cs_def)
  qed
  have sig: "iSignalStatus (wrConstructL e) = None" by (simp add: wrConstructL_def)
  have all: "(\<forall>c \<in> set es. fst c = KErrNone) \<Longrightarrow> (\<forall>c \<in> set (fs @ [(s, k)]). fst c = KErrNone)"
    unfolding cs [symmetric] by (simp add: cs_def)
  obtain w' where w': "wrRun (fs @ [(s, k)]) (wrConstructL e) = Some w'"
      "iSignalStatus w' = Some s" "wrSource w' = BodyWriteComplete (wrSource (wrConstructL e))"
      "\<not> wrActive w'" "\<not> wrFileOpen w'"
      "(\<forall>c \<in> set (fs @ [(s, k)]). fst c = KErrNone) \<longrightarrow> wrFile w' = segContents (iCacheBuffer e)"
    using wrRun_spec [OF n sig, of s k] by (auto simp: wrConstructL_def segContents_def)
  show ?thesis
  proof (intro exI conjI)
    show "wrRun ((KErrNone, 0) # es) (wrConstructL e) = Some w'" using w'(1) cs by (simp add: cs_def)
  qed (use w' all last_s BodyWriteComplete_facts in auto)
qed

definition two_segment_entry :: cache_entry where
  "two_segment_entry = (entryNewL [])\<lparr>iCacheBuffer := (segNewL 2 1)\<lparr>iBufferList :=
     [\<lparr>segData = [1, 2], segMax = 2\<rparr>, \<lparr>segData = [3], segMax = 1\<rparr>]\<rparr>\<rparr>"

theorem body_write_completes_witness:
  "\<exists>w. wrRun [(KErrNone, 0), (KErrNone, 2), (KErrNone, 1)] (wrConstructL two_segment_entry) = Some w \<and>
     iSignalStatus w = Some KErrNone \<and> wrFile w = [1, 2, 3]"
  using body_write_completes [of "[(KErrNone, 2), (KErrNone, 1)]" two_segment_entry]
  by (auto simp: two_segment_entry_def segCount_def segContents_def)

text \<open>
  A failed segment write is reported only when it is the last one: here the first of two
  writes fails with a full disk, the observer is told that all went well, and the file lacks the
  first segment.
\<close>

theorem failed_segment_write_is_lost:
  "\<exists>w. wrRun [(KErrNone, 0), (KErrDiskFull, 0), (KErrNone, 1)] (wrConstructL two_segment_entry) = Some w \<and>
     iSignalStatus w = Some KErrNone \<and> wrFile w = [3] \<and> wrFile w \<noteq> segContents (iCacheBuffer two_segment_entry)"
  by (simp add: wrConstructL_def two_segment_entry_def wrRunL_def wrComplete_def wrWriteNextBodyBlock_def
      segGetSegmentData_def segCount_def segContents_def BodyWriteInProgress_def SetBodyDataPartiallyWritten_def
      setWriteStateBit_def)

end
