(* ===== verification/Eviction.thy ===== *)
theory Eviction
  imports BodyWriter "HOL-Library.Log_Nat"
begin

text \<open>
  The eviction handler of the HTTP cache (\<open>CHttpCacheEvictionHandler\<close>,
  cache/src/HttpCacheEvictionHandler.cpp): five queues of entries, least recently used first,
  an entry being filed by the binary logarithm of its body size over its reference count.
  Entries are shared between the handler, the lookup table and their users, so they live in an
  address-indexed heap; the buckets hold addresses. The record is extended by the components
  that add state of their own. The operations of an entry that go through the handler
  (\<open>SetState\<close>, \<open>Accessed\<close>, \<open>SetBodySize\<close>, the destructor) follow.
\<close>

record ev_world =
  heap :: "nat \<Rightarrow> cache_entry option"
  iBuckets :: "nat list list"
  deleteNotices :: "(nat \<times> nat) list"

definition KHttpCacheBucketNum :: nat where "KHttpCacheBucketNum = 5"

definition evConstructL :: "nat list list" where
  "evConstructL = replicate KHttpCacheBucketNum []"

subsection \<open>The filing index\<close>

text \<open>The macro \<open>FAST_LOG2\<close>.\<close>

definition FastLog2 :: "32 word \<Rightarrow> nat" where
  "FastLog2 aNum =
    (let j = aNum;
         l = (if j AND (j - 1) \<noteq> 0 then 1 else 0);
         (l, j) = (if drop_bit 16 j \<noteq> 0 then (l + 16, drop_bit 16 j) else (l, j));
         (l, j) = (if drop_bit 8 j \<noteq> 0 then (l + 8, drop_bit 8 j) else (l, j));
         (l, j) = (if drop_bit 4 j \<noteq> 0 then (l + 4, drop_bit 4 j) else (l, j));
         (l, j) = (if drop_bit 2 j \<noteq> 0 then (l + 2, drop_bit 2 j) else (l, j))
     in if drop_bit 1 j \<noteq> 0 then l + 1 else l)"

definition BucketIndex :: "nat \<Rightarrow> nat" where
  "BucketIndex aSizeFrequencyValue =
    (if aSizeFrequencyValue = 1 then 0
     else if aSizeFrequencyValue < 4 then 1
     else if aSizeFrequencyValue < 8 then 2
     else if aSizeFrequencyValue < 16 then 3
     else 4)"

text \<open>\<open>BucketIndex( FastLog2( size / ref ) )\<close>; the division faults on a zero count.\<close>

definition bucketFor :: "32 word \<Rightarrow> 32 word \<Rightarrow> nat option" where
  "bucketFor sz ref = (if ref = 0 then None else Some (BucketIndex (FastLog2 (sz div ref))))"

definition entryBucket :: "cache_entry \<Rightarrow> nat option" where
  "entryBucket e = bucketFor (iBodySize e) (ucast (iRef e))"

lemma BucketIndex_lt [simp]: "BucketIndex v < KHttpCacheBucketNum"
  by (simp add: BucketIndex_def KHttpCacheBucketNum_def)

lemma bucketFor_lt: "bucketFor s r = Some i \<Longrightarrow> i < KHttpCacheBucketNum"
  by (auto simp: bucketFor_def split: if_splits)

lemma entryBucket_lt: "entryBucket e = Some i \<Longrightarrow> i < KHttpCacheBucketNum"
  by (simp add: entryBucket_def bucketFor_lt)

text \<open>
  The macro halves the search range five times. Each stage keeps \<open>2 ^ l * j \<le> n < 2 ^ l * (j + 1)\<close>.
\<close>

definition log_stage :: "nat \<Rightarrow> nat \<times> 32 word \<Rightarrow> nat \<times> 32 word" where
  "log_stage k = (\<lambda>(l, j). if drop_bit k j \<noteq> 0 then (l + k, drop_bit k j) else (l, j))"

definition log_inv :: "nat \<Rightarrow> nat \<Rightarrow> nat \<times> 32 word \<Rightarrow> bool" where
  "log_inv n b = (\<lambda>(l, j). 0 < unat j \<and> unat j < 2 ^ b \<and> 2 ^ l * unat j \<le> n \<and> n < 2 ^ l * (unat j + 1))"

lemma unat_drop_bit: "unat (drop_bit k (j :: 32 word)) = unat j div 2 ^ k"
  by (subst unat_drop_bit_eq) (rule drop_bit_eq_div)

lemma bit_word_odd: "bit (x :: 32 word) f \<longleftrightarrow> odd (unat x div 2 ^ f)"
proof -
  have "bit x f \<longleftrightarrow> bit (unat x) f" by (simp add: bit_unsigned_iff)
  then show ?thesis by (simp add: bit_iff_odd)
qed

lemma log_stage_inv:
  assumes "log_inv n (2 * k) (l, j)"
  shows "log_inv n k (log_stage k (l, j))"
proof (cases "drop_bit k j = 0")
  case True
  then have "unat j div 2 ^ k = 0" using unat_drop_bit [of k j] by simp
  then have "unat j < 2 ^ k" by (simp add: div_eq_0_iff)
  with assms True show ?thesis by (simp add: log_inv_def log_stage_def)
next
  case False
  define q where "q = unat j div 2 ^ k"
  have q: "unat (drop_bit k j) = q" by (simp add: q_def unat_drop_bit)
  have j: "0 < unat j" "unat j < 2 ^ k * 2 ^ k" "2 ^ l * unat j \<le> n" "n < 2 ^ l * (unat j + 1)"
    using assms by (simp_all add: log_inv_def mult_2 power_add)
  have "0 < q" using False q by (metis unat_eq_0 neq0_conv)
  moreover have "q < 2 ^ k" using j(2) by (simp add: q_def less_mult_imp_div_less)
  moreover have "2 ^ (l + k) * q \<le> n"
  proof -
    have "2 ^ k * q \<le> unat j" by (simp add: q_def)
    then have "2 ^ l * (2 ^ k * q) \<le> 2 ^ l * unat j" by (rule mult_le_mono2)
    also note j(3)
    finally show ?thesis by (simp add: power_add mult.assoc)
  qed
  moreover have "n < 2 ^ (l + k) * (q + 1)"
  proof -
    have "unat j + 1 \<le> 2 ^ k * (q + 1)"
      using dividend_less_times_div [of "2 ^ k" "unat j"] by (simp add: q_def)
    then have "2 ^ l * (unat j + 1) \<le> 2 ^ l * (2 ^ k * (q + 1))" by (rule mult_le_mono2)
    with j(4) show ?thesis by (simp add: power_add algebra_simps)
  qed
  ultimately show ?thesis using False q by (simp add: log_inv_def log_stage_def)
qed

lemma log_stage_step: "log_inv n (2 * k) s \<Longrightarrow> log_inv n k (log_stage k s)"
  by (cases s) (simp add: log_stage_inv)

lemma log_inv_1: "log_inv n 1 s \<Longrightarrow> 2 ^ fst s \<le> n \<and> n < 2 ^ (fst s + 1)"
proof -
  assume "log_inv n 1 s"
  moreover from this have "unat (snd s) = 1" by (auto simp: log_inv_def case_prod_beta)
  ultimately show ?thesis by (simp add: log_inv_def case_prod_beta)
qed

lemma not_pow2_bits:
  assumes "(n :: 32 word) \<noteq> 0" "2 ^ f \<le> unat n" "unat n < 2 ^ (f + 1)"
  shows "n AND (n - 1) \<noteq> 0 \<longleftrightarrow> unat n \<noteq> 2 ^ f"
proof -
  have pred: "unat (n - 1) = unat n - 1" using assms(1) by (simp add: unat_minus_one)
  show ?thesis
  proof
    assume ne: "unat n \<noteq> 2 ^ f"
    have "unat n div 2 ^ f = 1" using assms(2,3) by (intro div_nat_eqI) auto
    moreover have "(unat n - 1) div 2 ^ f = 1" using assms(2,3) ne by (intro div_nat_eqI) auto
    ultimately have "bit (n AND (n - 1)) f" using pred by (simp add: bit_and_iff bit_word_odd [of n] bit_word_odd [of "n - 1"])
    then show "n AND (n - 1) \<noteq> 0" by (metis bit_0_eq bot_apply bot_bool_def)
  next
    assume h: "n AND (n - 1) \<noteq> 0"
    show "unat n \<noteq> 2 ^ f"
    proof
      assume eq: "unat n = 2 ^ f"
      have "n = of_nat (unat n)" by simp
      then have "n = 2 ^ f" by (simp only: eq) simp
      then have "n AND (n - 1) = push_bit f 1 AND mask f" by (simp add: mask_eq_exp_minus_1 push_bit_eq_mult)
      also have "\<dots> = 0" by (rule bit_word_eqI) (auto simp: bit_simps)
      finally show False using h by simp
    qed
  qed
qed

definition log_stages :: "nat \<times> 32 word \<Rightarrow> nat \<times> 32 word" where
  "log_stages s = log_stage 1 (log_stage 2 (log_stage 4 (log_stage 8 (log_stage 16 s))))"

lemma log_stage_shift: "log_stage k (apfst ((+) a) s) = apfst ((+) a) (log_stage k s)"
  by (cases s) (simp add: log_stage_def)

lemma FastLog2_stages:
  "FastLog2 n = (if n AND (n - 1) \<noteq> 0 then 1 else 0) + fst (log_stages (0, n))"
proof -
  define a :: nat where "a = (if n AND (n - 1) \<noteq> 0 then 1 else 0)"
  have last: "(if drop_bit 1 j \<noteq> 0 then l + 1 else l) = fst (log_stage 1 (l, j))" for l j
    by (simp add: log_stage_def)
  have "FastLog2 n = fst (log_stages (apfst ((+) a) (0, n)))"
    unfolding FastLog2_def log_stages_def a_def Let_def last apfst_conv add_0_right
    by (simp add: log_stage_def case_prod_beta cong: if_cong split del: if_split)
  also have "\<dots> = a + fst (log_stages (0, n))"
    unfolding log_stages_def log_stage_shift by (simp add: apfst_def map_prod_def case_prod_beta)
  finally show ?thesis by (simp add: a_def)
qed

text \<open>
  The macro computes the rounded-up binary logarithm: the least \<open>l\<close> with \<open>n \<le> 2 ^ l\<close>.
\<close>

theorem FastLog2_ceil:
  assumes "0 < unat n"
  shows "unat n \<le> 2 ^ FastLog2 n \<and> (\<forall>l < FastLog2 n. 2 ^ l < unat n)"
proof -
  define f where "f = fst (log_stages (0, n))"
  have n0: "n \<noteq> 0" using assms by auto
  have "unat n < 2 ^ LENGTH(32)" by (rule unsigned_less)
  then have "log_inv (unat n) (2 * 16) (0, n)" using assms by (simp add: log_inv_def)
  from log_stage_step [OF this] have "log_inv (unat n) (2 * 8) (log_stage 16 (0, n))" by simp
  from log_stage_step [OF this] have "log_inv (unat n) (2 * 4) (log_stage 8 (log_stage 16 (0, n)))" by simp
  from log_stage_step [OF this] have "log_inv (unat n) (2 * 2) (log_stage 4 (log_stage 8 (log_stage 16 (0, n))))" by simp
  from log_stage_step [OF this] have "log_inv (unat n) (2 * 1) (log_stage 2 (log_stage 4 (log_stage 8 (log_stage 16 (0, n)))))" by simp
  from log_stage_step [OF this] have "log_inv (unat n) 1 (log_stages (0, n))" by (simp add: log_stages_def)
  then have f: "2 ^ f \<le> unat n" "unat n < 2 ^ (f + 1)"
    using log_inv_1 by (auto simp: f_def)
  have log: "FastLog2 n = (if unat n = 2 ^ f then f else f + 1)"
    using not_pow2_bits [OF n0 f] by (auto simp: FastLog2_stages f_def)
  show ?thesis
  proof (intro conjI allI impI)
    show "unat n \<le> 2 ^ FastLog2 n" using f log by auto
    fix l assume "l < FastLog2 n"
    then consider "l < f" | "l = f" "unat n \<noteq> 2 ^ f" using log by (auto split: if_splits simp: less_Suc_eq)
    then show "2 ^ l < unat n"
    proof cases
      case 1
      then have "(2::nat) ^ l < 2 ^ f" by simp
      with f show ?thesis by linarith
    qed (use f in auto)
  qed
qed

theorem FastLog2_ceil_witness: "(5::nat) \<le> 2 ^ FastLog2 5 \<and> 2 ^ (2::nat) < unat (5 :: 32 word)"
  using FastLog2_ceil [of 5] by (simp add: FastLog2_def)

subsection \<open>The handler's operations\<close>

definition ItemIsInBucket :: "nat \<Rightarrow> nat \<Rightarrow> 'a ev_world_scheme \<Rightarrow> bool" where
  "ItemIsInBucket i p w \<longleftrightarrow> p \<in> set (iBuckets w ! i)"

definition bucketAddLast :: "nat \<Rightarrow> nat \<Rightarrow> 'a ev_world_scheme \<Rightarrow> 'a ev_world_scheme" where
  "bucketAddLast i p w = w\<lparr>iBuckets := (iBuckets w)[i := iBuckets w ! i @ [p]]\<rparr>"

definition bucketRemove :: "nat \<Rightarrow> nat \<Rightarrow> 'a ev_world_scheme \<Rightarrow> 'a ev_world_scheme" where
  "bucketRemove i p w = w\<lparr>iBuckets := (iBuckets w)[i := remove1 p (iBuckets w ! i)]\<rparr>"

definition evInsert :: "nat \<Rightarrow> 'a ev_world_scheme \<Rightarrow> 'a ev_world_scheme option" where
  "evInsert p w =
    (case heap w p of None \<Rightarrow> None
     | Some e \<Rightarrow> map_option (\<lambda>i. bucketAddLast i p w) (entryBucket e))"

text \<open>
  \<open>Accessed\<close> files the entry again. The count already includes this access, and \<open>oldRef\<close> is
  a signed integer: \<open>Ref() - 1\<close> is -1 when the 16-bit count has wrapped to 0.
\<close>

definition evAccessed :: "nat \<Rightarrow> 'a ev_world_scheme \<Rightarrow> 'a ev_world_scheme option" where
  "evAccessed p w =
    (case heap w p of None \<Rightarrow> None
     | Some e \<Rightarrow>
       let oldRef = uint (iRef e) - 1 in
       if oldRef > 0 then
         (case (bucketFor (iBodySize e) (word_of_int oldRef), entryBucket e) of
            (Some currentBucketIndex, Some newBucketIndex) \<Rightarrow>
              Some (if ItemIsInBucket currentBucketIndex p w then
                      if currentBucketIndex = newBucketIndex then
                        if last (iBuckets w ! currentBucketIndex) = p then w
                        else bucketAddLast currentBucketIndex p (bucketRemove currentBucketIndex p w)
                      else bucketAddLast newBucketIndex p (bucketRemove currentBucketIndex p w)
                    else w)
          | _ \<Rightarrow> None)
       else Some w)"

definition evRemove :: "nat \<Rightarrow> 'a ev_world_scheme \<Rightarrow> 'a ev_world_scheme option" where
  "evRemove p w =
    (case heap w p of None \<Rightarrow> None
     | Some e \<Rightarrow>
       map_option (\<lambda>bucketIndex. if ItemIsInBucket bucketIndex p w then bucketRemove bucketIndex p w else w)
         (entryBucket e))"

definition evRemoveAll :: "'a ev_world_scheme \<Rightarrow> 'a ev_world_scheme" where
  "evRemoveAll w = w\<lparr>iBuckets := map (\<lambda>_. []) (iBuckets w)\<rparr>"

text \<open>
  One pass over the buckets: the first entry of each, if it is complete and not half written,
  competes with its value \<open>secInt * BodySize / Ref\<close>, computed in 32 bits and compared as a
  signed number. \<open>secondsFrom now la old\<close> is what \<open>TTime::SecondsFrom\<close> leaves in \<open>secInt\<close>.
\<close>

fun evScan :: "(int \<Rightarrow> int \<Rightarrow> 32 word \<Rightarrow> 32 word) \<Rightarrow> int \<Rightarrow> (nat \<Rightarrow> cache_entry option) \<Rightarrow> nat \<Rightarrow> nat list list \<Rightarrow>
    32 word \<times> 32 word \<times> (nat \<times> nat) option \<Rightarrow> (32 word \<times> 32 word \<times> (nat \<times> nat) option) option" where
  "evScan secondsFrom currTime h i [] st = Some st"
| "evScan secondsFrom currTime h i (b # bs) (secInt, maxVal, candidate) =
    (case b of
       [] \<Rightarrow> evScan secondsFrom currTime h (Suc i) bs (secInt, maxVal, candidate)
     | p # _ \<Rightarrow>
       (case h p of None \<Rightarrow> None
        | Some e \<Rightarrow>
          if iState e = ECacheComplete \<and> \<not> BodyDataPartiallyWritten e then
            let secInt' = secondsFrom currTime (iLastAccessed e) secInt in
            if iRef e = 0 then None
            else let val = secInt' * iBodySize e div ucast (iRef e) in
              if sint val > sint maxVal then
                evScan secondsFrom currTime h (Suc i) bs (secInt', val, Some (i, p))
              else evScan secondsFrom currTime h (Suc i) bs (secInt', maxVal, candidate)
          else evScan secondsFrom currTime h (Suc i) bs (secInt, maxVal, candidate)))"

definition evPick :: "(int \<Rightarrow> int \<Rightarrow> 32 word \<Rightarrow> 32 word) \<Rightarrow> int \<Rightarrow> 32 word \<Rightarrow> 'a ev_world_scheme \<Rightarrow> (nat \<times> nat) option option" where
  "evPick secondsFrom currTime secInt w =
     map_option (\<lambda>(_, _, candidate). candidate)
       (evScan secondsFrom currTime (heap w) 0 (iBuckets w) (secInt, -1, None))"

lemma evScan_candidate:
  "evScan sf now h i bs (s, m, c) = Some (s', m', Some (j, p)) \<Longrightarrow>
   c = Some (j, p) \<or> (i \<le> j \<and> j - i < length bs \<and> (\<exists>ps. bs ! (j - i) = p # ps) \<and>
     (\<exists>e. h p = Some e \<and> iState e = ECacheComplete \<and> \<not> BodyDataPartiallyWritten e \<and> iRef e \<noteq> 0))"
proof (induction bs arbitrary: i s m c)
  case Nil
  then show ?case by simp
next
  case (Cons b bs)
  show ?case
  proof (cases b)
    case Nil
    with Cons.prems Cons.IH [of "Suc i" s m c] show ?thesis by (auto simp: nth_Cons' dest: Suc_leD)
  next
    case (Cons q qs)
    obtain s1 m1 c1 where rec: "evScan sf now h (Suc i) bs (s1, m1, c1) = Some (s', m', Some (j, p))"
      and c1: "c1 = c \<or> (c1 = Some (i, q) \<and> (\<exists>e. h q = Some e \<and> iState e = ECacheComplete \<and>
        \<not> BodyDataPartiallyWritten e \<and> iRef e \<noteq> 0))"
      using Cons.prems Cons by (auto simp: Let_def split: option.splits if_splits)
    from Cons.IH [OF rec] c1 Cons show ?thesis by (auto simp: nth_Cons' dest: Suc_leD)
  qed
qed

lemma evPick_candidate:
  assumes "evPick sf now s w = Some (Some (i, p))"
  shows "i < length (iBuckets w) \<and> (\<exists>ps. iBuckets w ! i = p # ps) \<and>
    (\<exists>e. heap w p = Some e \<and> iState e = ECacheComplete \<and> \<not> BodyDataPartiallyWritten e \<and> iRef e \<noteq> 0)"
  using assms evScan_candidate [of sf now "heap w" 0 "iBuckets w" s "-1" None _ _ i p]
  by (auto simp: evPick_def)

definition bucketsSize :: "'a ev_world_scheme \<Rightarrow> nat" where
  "bucketsSize w = sum_list (map length (iBuckets w))"

lemma bucketRemove_size:
  assumes "i < length (iBuckets w)" "p \<in> set (iBuckets w ! i)"
  shows "bucketsSize (bucketRemove i p w) < bucketsSize w"
proof -
  have "length (remove1 p (iBuckets w ! i)) < length (iBuckets w ! i)"
    using assms(2) by (metis length_pos_if_in_set length_remove1 diff_less zero_less_one)
  then show ?thesis using assms(1) elem_le_sum_list [of i "map length (iBuckets w)"]
    by (simp add: bucketsSize_def bucketRemove_def map_update sum_list_update)
qed

text \<open>
  The loop of \<open>EvictL\<close>. The space still needed is a 32-bit signed number from which the
  unsigned sizes are taken.
\<close>

function evEvictLoop :: "(int \<Rightarrow> int \<Rightarrow> 32 word \<Rightarrow> 32 word) \<Rightarrow> int \<Rightarrow> 32 word \<Rightarrow> 32 word \<Rightarrow> nat list \<Rightarrow>
    'a ev_world_scheme \<Rightarrow> (nat list \<times> 'a ev_world_scheme) option" where
  "evEvictLoop secondsFrom currTime secInt aSpaceNeeded evicted w =
    (if sint aSpaceNeeded > 0 then
       (case evPick secondsFrom currTime secInt w of
          None \<Rightarrow> None
        | Some None \<Rightarrow> Some (evicted, w)
        | Some (Some (i, p)) \<Rightarrow>
          (case heap w p of None \<Rightarrow> None
           | Some e \<Rightarrow> evEvictLoop secondsFrom currTime secInt
                (aSpaceNeeded - iBodySize e - ucast (iHeaderSize e)) (evicted @ [p]) (bucketRemove i p w)))
     else Some (evicted, w))"
  by pat_completeness auto
termination
  by (relation "measure (\<lambda>(_, _, _, _, _, w). bucketsSize w)")
    (auto dest!: evPick_candidate intro: bucketRemove_size)

declare evEvictLoop.simps [simp del]

definition evEvictL :: "(int \<Rightarrow> int \<Rightarrow> 32 word \<Rightarrow> 32 word) \<Rightarrow> int \<Rightarrow> 32 word \<Rightarrow> 32 word \<Rightarrow>
    'a ev_world_scheme \<Rightarrow> (nat list \<times> 'a ev_world_scheme) option" where
  "evEvictL secondsFrom currTime secInt aSpaceNeeded w =
     evEvictLoop secondsFrom currTime secInt aSpaceNeeded [] w"

subsection \<open>The operations of an entry that go through the handler\<close>

definition updEntry :: "nat \<Rightarrow> (cache_entry \<Rightarrow> cache_entry) \<Rightarrow> 'a ev_world_scheme \<Rightarrow> 'a ev_world_scheme" where
  "updEntry p f w = w\<lparr>heap := (heap w)(p := map_option f (heap w p))\<rparr>"

definition entrySetState :: "nat \<Rightarrow> TCacheEntryState \<Rightarrow> 'a ev_world_scheme \<Rightarrow> 'a ev_world_scheme option" where
  "entrySetState p aState w =
    (case heap w p of None \<Rightarrow> None
     | Some e \<Rightarrow>
       if aState = ECacheComplete \<and> \<not> iEvictionCandidate e then
         map_option (updEntry p (\<lambda>e. e\<lparr>iEvictionCandidate := True, iState := aState\<rparr>)) (evInsert p w)
       else Some (updEntry p (\<lambda>e. e\<lparr>iState := aState\<rparr>) w))"

definition entryAccessed :: "int \<Rightarrow> nat \<Rightarrow> 'a ev_world_scheme \<Rightarrow> 'a ev_world_scheme option" where
  "entryAccessed now p w =
    (case heap w p of None \<Rightarrow> None
     | Some e \<Rightarrow>
       let w1 = updEntry p (\<lambda>e. e\<lparr>iLastAccessed := now, iRef := iRef e + 1\<rparr>) w in
       if iEvictionCandidate e then evAccessed p w1 else Some w1)"

definition entryAccessedFrom :: "int \<Rightarrow> 16 word \<Rightarrow> nat \<Rightarrow> 'a ev_world_scheme \<Rightarrow> 'a ev_world_scheme option" where
  "entryAccessedFrom aLastAccessed aRef p w =
    (case heap w p of None \<Rightarrow> None
     | Some e \<Rightarrow>
       let w1 = updEntry p (\<lambda>e. e\<lparr>iLastAccessed := aLastAccessed, iRef := aRef\<rparr>) w in
       if iEvictionCandidate e then evAccessed p w1 else Some w1)"

definition entrySetBodySize :: "32 word \<Rightarrow> nat \<Rightarrow> 'a ev_world_scheme \<Rightarrow> 'a ev_world_scheme option" where
  "entrySetBodySize aBodySize p w =
    (case heap w p of None \<Rightarrow> None
     | Some e \<Rightarrow>
       if iBodySize e \<noteq> 0 \<and> aBodySize = 0 \<and> iEvictionCandidate e then
         map_option (updEntry p (\<lambda>e. e\<lparr>iEvictionCandidate := False, iBodySize := aBodySize\<rparr>)) (evRemove p w)
       else Some (updEntry p (\<lambda>e. e\<lparr>iBodySize := aBodySize\<rparr>) w))"

text \<open>The destructor; the observer it tells about the deletion is recorded.\<close>

definition entryDelete :: "nat \<Rightarrow> 'a ev_world_scheme \<Rightarrow> 'a ev_world_scheme option" where
  "entryDelete p w =
    (case heap w p of None \<Rightarrow> None
     | Some e \<Rightarrow>
       map_option (\<lambda>w1. w1\<lparr>heap := (heap w1)(p := None),
           deleteNotices := deleteNotices w1 @ (case iDeleteObserver e of None \<Rightarrow> [] | Some obs \<Rightarrow> [(obs, p)])\<rparr>)
         (if iEvictionCandidate e then evRemove p w else Some w))"

subsection \<open>The filing invariant\<close>

text \<open>
  Every bucketed address is a live eviction candidate, and every live eviction candidate is
  filed once, in the bucket its size and count select.
\<close>

definition filed :: "'a ev_world_scheme \<Rightarrow> nat \<Rightarrow> nat \<Rightarrow> bool" where
  "filed w i p \<longleftrightarrow> i < length (iBuckets w) \<and> p \<in> set (iBuckets w ! i)"

definition ev_ok :: "'a ev_world_scheme \<Rightarrow> bool" where
  "ev_ok w \<longleftrightarrow> length (iBuckets w) = KHttpCacheBucketNum \<and> (\<forall>b \<in> set (iBuckets w). distinct b) \<and>
     (\<forall>i p. filed w i p \<longleftrightarrow> (\<exists>e. heap w p = Some e \<and> iEvictionCandidate e \<and> entryBucket e = Some i)) \<and>
     (\<forall>p e. heap w p = Some e \<longrightarrow> iEvictionCandidate e \<longrightarrow> iRef e \<noteq> 0)"

lemma ev_ok_facts:
  assumes "ev_ok w"
  shows ev_ok_length: "length (iBuckets w) = KHttpCacheBucketNum"
    and ev_ok_distinct: "\<forall>b \<in> set (iBuckets w). distinct b"
    and ev_ok_filed: "filed w i p \<longleftrightarrow> (\<exists>e. heap w p = Some e \<and> iEvictionCandidate e \<and> entryBucket e = Some i)"
    and ev_ok_ref: "heap w p = Some e \<Longrightarrow> iEvictionCandidate e \<Longrightarrow> iRef e \<noteq> 0"
  using assms unfolding ev_ok_def by blast+

lemma ucast_ref_0 [simp]: "(ucast (r :: 16 word) :: 32 word) = 0 \<longleftrightarrow> r = 0"
proof
  assume "(ucast r :: 32 word) = 0"
  then have "unat (ucast r :: 32 word) = 0" by simp
  then have "unat r = 0" by (simp add: unsigned_ucast_eq take_bit_nat_eq_self order.strict_trans [OF unsigned_less])
  then show "r = 0" by (metis unat_eq_0)
qed simp

lemma entryBucket_Some: "iRef e \<noteq> 0 \<Longrightarrow> \<exists>i. entryBucket e = Some i \<and> i < KHttpCacheBucketNum"
  by (simp add: entryBucket_def bucketFor_def)

lemma ev_okD:
  assumes "ev_ok w" "heap w p = Some e" "iEvictionCandidate e"
  obtains i where "entryBucket e = Some i" "i < KHttpCacheBucketNum" "p \<in> set (iBuckets w ! i)"
    "\<And>j. j < KHttpCacheBucketNum \<Longrightarrow> p \<in> set (iBuckets w ! j) \<longleftrightarrow> j = i"
proof -
  have "iRef e \<noteq> 0" using assms unfolding ev_ok_def by blast
  then obtain i where i: "entryBucket e = Some i" "i < KHttpCacheBucketNum" using entryBucket_Some by blast
  have *: "filed w j p \<longleftrightarrow> (\<exists>e. heap w p = Some e \<and> iEvictionCandidate e \<and> entryBucket e = Some j)" for j
    using assms(1) unfolding ev_ok_def by blast
  have "filed w j p \<longleftrightarrow> j = i" for j using * [of j] assms(2,3) i by auto
  moreover have "length (iBuckets w) = KHttpCacheBucketNum" using assms(1) by (simp add: ev_ok_def)
  ultimately show thesis using i by (intro that [of i]) (auto simp: filed_def)
qed

lemma ev_ok_not_filed:
  assumes "ev_ok w" "heap w p = None \<or> (\<exists>e. heap w p = Some e \<and> \<not> iEvictionCandidate e)" "i < KHttpCacheBucketNum"
  shows "p \<notin> set (iBuckets w ! i)"
proof -
  have "\<not> filed w i p" using assms(1,2) by (auto simp: ev_ok_def)
  then show ?thesis using assms(1,3) by (simp add: filed_def ev_ok_def)
qed

lemma updEntry_simps [simp]:
  "heap (updEntry p f w) q = (if q = p then map_option f (heap w p) else heap w q)"
  "iBuckets (updEntry p f w) = iBuckets w"
  "deleteNotices (updEntry p f w) = deleteNotices w"
  by (simp_all add: updEntry_def)

lemma bucket_simps [simp]:
  "heap (bucketAddLast i p w) = heap w" "heap (bucketRemove i p w) = heap w"
  "length (iBuckets (bucketAddLast i p w)) = length (iBuckets w)"
  "length (iBuckets (bucketRemove i p w)) = length (iBuckets w)"
  by (simp_all add: bucketAddLast_def bucketRemove_def)

lemma filed_add: "filed (bucketAddLast i p w) j q \<longleftrightarrow>
    filed w j q \<or> (j = i \<and> q = p \<and> i < length (iBuckets w))"
  by (cases "j = i") (auto simp: filed_def bucketAddLast_def)

lemma filed_remove:
  assumes "\<forall>b \<in> set (iBuckets w). distinct b"
  shows "filed (bucketRemove i p w) j q \<longleftrightarrow> filed w j q \<and> \<not> (j = i \<and> q = p)"
  using assms by (cases "j = i") (auto simp: filed_def bucketRemove_def)

lemma distinct_buckets_add:
  assumes "\<forall>b \<in> set (iBuckets w). distinct b" "\<not> filed w i p"
  shows "\<forall>b \<in> set (iBuckets (bucketAddLast i p w)). distinct b"
proof (cases "i < length (iBuckets w)")
  case True
  then have "distinct (iBuckets w ! i @ [p])" using assms by (auto simp: filed_def)
  then show ?thesis using assms(1) by (auto simp: bucketAddLast_def dest!: set_update_subset_insert [THEN subsetD])
next
  case False
  then show ?thesis using assms(1) by (simp add: bucketAddLast_def list_update_beyond)
qed

lemma distinct_buckets_remove:
  assumes "\<forall>b \<in> set (iBuckets w). distinct b"
  shows "\<forall>b \<in> set (iBuckets (bucketRemove i p w)). distinct b"
proof (cases "i < length (iBuckets w)")
  case True
  then have "distinct (remove1 p (iBuckets w ! i))" using assms by simp
  then show ?thesis using assms by (auto simp: bucketRemove_def dest!: set_update_subset_insert [THEN subsetD])
next
  case False
  then show ?thesis using assms by (simp add: bucketRemove_def list_update_beyond)
qed

text \<open>
  The shape every operation on entry \<open>p\<close> preserves the invariant by: the other entries are
  unchanged and keep their places, and \<open>p\<close> is filed where its new fields say.
\<close>

lemma ev_okI:
  assumes ok: "ev_ok w" and len: "length (iBuckets w') = KHttpCacheBucketNum"
    and dist: "\<forall>b \<in> set (iBuckets w'). distinct b"
    and others: "\<And>i q. q \<noteq> p \<Longrightarrow> heap w' q = heap w q \<and> (filed w' i q \<longleftrightarrow> filed w i q)"
    and here: "\<And>i. filed w' i p \<longleftrightarrow> (\<exists>e. heap w' p = Some e \<and> iEvictionCandidate e \<and> entryBucket e = Some i)"
    and ref: "\<And>e. heap w' p = Some e \<Longrightarrow> iEvictionCandidate e \<Longrightarrow> iRef e \<noteq> 0"
  shows "ev_ok w'"
  unfolding ev_ok_def
proof (intro conjI allI impI)
  fix i q
  show "filed w' i q \<longleftrightarrow> (\<exists>e. heap w' q = Some e \<and> iEvictionCandidate e \<and> entryBucket e = Some i)"
    using ok here others by (cases "q = p") (auto simp: ev_ok_def)
next
  fix q e assume "heap w' q = Some e" "iEvictionCandidate e"
  then show "iRef e \<noteq> 0" using ok ref others by (cases "q = p") (auto simp: ev_ok_def)
qed (use len dist in auto)

subsection \<open>Every operation keeps the filing\<close>

lemma entrySetState_ok [inv_intros]:
  assumes ok: "ev_ok w" and e: "heap w p = Some e" and ref: "aState = ECacheComplete \<Longrightarrow> iRef e \<noteq> 0"
  shows "\<exists>w'. entrySetState p aState w = Some w' \<and> ev_ok w' \<and>
    heap w' = (heap w)(p := Some (e\<lparr>iState := aState,
      iEvictionCandidate := iEvictionCandidate e \<or> aState = ECacheComplete\<rparr>))"
proof (cases "aState = ECacheComplete \<and> \<not> iEvictionCandidate e")
  case False
  define w' where "w' = updEntry p (\<lambda>e. e\<lparr>iState := aState\<rparr>) w"
  have "ev_ok w'"
  proof (rule ev_okI [OF ok, of _ p])
    have fl: "filed w' = filed w" by (simp add: w'_def filed_def fun_eq_iff)
    have bk: "entryBucket (e\<lparr>iState := aState\<rparr>) = entryBucket e" by (simp add: entryBucket_def)
    fix i
    have "filed w i p \<longleftrightarrow> (\<exists>e. heap w p = Some e \<and> iEvictionCandidate e \<and> entryBucket e = Some i)"
      using ok unfolding ev_ok_def by blast
    then show "filed w' i p \<longleftrightarrow> (\<exists>e. heap w' p = Some e \<and> iEvictionCandidate e \<and> entryBucket e = Some i)"
      using e fl bk by (simp add: w'_def)
  qed (use ok e in \<open>auto simp: w'_def filed_def ev_ok_def\<close>)
  then show ?thesis using False e
    by (intro exI [of _ w']) (auto simp: entrySetState_def w'_def fun_eq_iff)
next
  case True
  then obtain i where i: "entryBucket e = Some i" "i < KHttpCacheBucketNum" using ref entryBucket_Some by blast
  have len: "length (iBuckets w) = KHttpCacheBucketNum" using ok by (simp add: ev_ok_def)
  have new: "\<not> filed w j p" for j using ok e True by (auto simp: ev_ok_def)
  define w' where "w' = updEntry p (\<lambda>e. e\<lparr>iEvictionCandidate := True, iState := aState\<rparr>) (bucketAddLast i p w)"
  have filed': "filed w' j q \<longleftrightarrow> filed (bucketAddLast i p w) j q" for j q by (simp add: w'_def filed_def)
  have "ev_ok w'"
  proof (rule ev_okI [OF ok, of _ p])
    show "\<forall>b \<in> set (iBuckets w'). distinct b"
      using distinct_buckets_add [of w i p] ok new by (simp add: w'_def ev_ok_def)
    define e' where "e' = e\<lparr>iEvictionCandidate := True, iState := aState\<rparr>"
    have e': "heap w' p = Some e'" "iEvictionCandidate e'" "entryBucket e' = Some i"
      using e i by (simp_all add: w'_def e'_def entryBucket_def)
    fix j show "filed w' j p \<longleftrightarrow> (\<exists>e. heap w' p = Some e \<and> iEvictionCandidate e \<and> entryBucket e = Some j)"
      using new [of j] e' i len by (auto simp: filed' filed_add)
  next
    show "length (iBuckets w') = KHttpCacheBucketNum" using len by (simp add: w'_def)
    fix j q assume "q \<noteq> p" then show "heap w' q = heap w q \<and> (filed w' j q \<longleftrightarrow> filed w j q)"
      by (simp add: filed' filed_add) (simp add: w'_def)
  next
    fix g assume "heap w' p = Some g" then show "iRef g \<noteq> 0" using e True ref by (auto simp: w'_def)
  qed
  then show ?thesis using True e i
    by (intro exI [of _ w']) (auto simp: entrySetState_def evInsert_def w'_def fun_eq_iff)
qed

text \<open>An access moves the entry to the last place of the bucket of its new count.\<close>

lemma evAccessed_refiles_gen:
  assumes ok: "ev_ok w" and e: "heap w p = Some e" "iEvictionCandidate e"
    and f: "iRef f \<noteq> 0" "iEvictionCandidate f"
    and old: "uint (iRef f) - 1 > 0" and cur: "bucketFor (iBodySize f) (word_of_int (uint (iRef f) - 1)) = entryBucket e"
    and w1: "w1 = updEntry p (\<lambda>_. f) w"
  shows "\<exists>w'. evAccessed p w1 = Some w' \<and> ev_ok w' \<and> heap w' = heap w1 \<and>
    (\<exists>i. entryBucket f = Some i \<and> last (iBuckets w' ! i) = p)"
proof -
  obtain i where i: "entryBucket e = Some i" "i < KHttpCacheBucketNum" "p \<in> set (iBuckets w ! i)"
    using ev_okD [OF ok e] by metis
  have only_i: "filed w j p \<longleftrightarrow> j = i" for j using ev_ok_filed [OF ok, of j p] e i by auto
  note f0 = f(1)
  obtain j where j: "entryBucket f = Some j" "j < KHttpCacheBucketNum" using entryBucket_Some [OF f0] by blast
  have len: "length (iBuckets w) = KHttpCacheBucketNum" and dist: "\<forall>b \<in> set (iBuckets w). distinct b"
    using ev_ok_length [OF ok] ev_ok_distinct [OF ok] by auto
  define w' where "w' = (if i = j then if last (iBuckets w1 ! i) = p then w1 else bucketAddLast i p (bucketRemove i p w1)
      else bucketAddLast j p (bucketRemove i p w1))"
  have b1: "iBuckets w1 = iBuckets w" "filed w1 = filed w" by (simp_all add: w1 filed_def fun_eq_iff)
  have eq: "evAccessed p w1 = Some w'"
    using old cur j i e by (simp add: evAccessed_def w1 Let_def ItemIsInBucket_def w'_def)
  have filed': "filed w' k q \<longleftrightarrow> (if q = p then k = j else filed w k q)" for k q
  proof -
    have d1: "\<forall>b \<in> set (iBuckets w1). distinct b" using dist b1 by simp
    show ?thesis using only_i len i j by (auto simp: w'_def filed_add filed_remove [OF d1] b1)
  qed
  have lastj: "last (iBuckets w' ! j) = p"
    using len j by (auto simp: w'_def bucketAddLast_def bucketRemove_def b1)
  have "ev_ok w'"
  proof (rule ev_okI [OF ok, of _ p])
    have d1: "\<forall>b \<in> set (iBuckets w1). distinct b" using dist b1 by simp
    have "\<not> filed (bucketRemove i p w1) k p" for k using filed_remove [OF d1] b1 only_i by auto
    then have "\<forall>b \<in> set (iBuckets (bucketAddLast k p (bucketRemove i p w1))). distinct b" for k
      using distinct_buckets_add [OF distinct_buckets_remove [OF d1]] by blast
    then show "\<forall>b \<in> set (iBuckets w'). distinct b" using d1 unfolding w'_def by (simp split: if_split)
    show "length (iBuckets w') = KHttpCacheBucketNum" using len b1 by (simp add: w'_def)
    fix k q assume "q \<noteq> p" then show "heap w' q = heap w q \<and> (filed w' k q \<longleftrightarrow> filed w k q)"
      using filed' by (simp add: w'_def w1)
  next
    have hp: "heap w' p = Some f" using e by (simp add: w'_def w1)
    fix k show "filed w' k p \<longleftrightarrow> (\<exists>e. heap w' p = Some e \<and> iEvictionCandidate e \<and> entryBucket e = Some k)"
      using filed' hp j f by auto
    fix g assume "heap w' p = Some g" "iEvictionCandidate g" then show "iRef g \<noteq> 0" using hp f0 by simp
  qed
  moreover have "heap w' = heap w1" by (simp add: w'_def)
  ultimately show ?thesis using eq j lastj by blast
qed

lemma evAccessed_refiles:
  assumes ok: "ev_ok w" and e: "heap w p = Some e" "iEvictionCandidate e" and nowrap: "iRef e + 1 \<noteq> 0"
    and f: "iRef f = iRef e + 1" "iBodySize f = iBodySize e" "iEvictionCandidate f"
    and w1: "w1 = updEntry p (\<lambda>_. f) w"
  shows "\<exists>w'. evAccessed p w1 = Some w' \<and> ev_ok w' \<and> heap w' = heap w1 \<and>
    (\<exists>i. entryBucket f = Some i \<and> last (iBuckets w' ! i) = p)"
proof -
  have ref0: "iRef e \<noteq> 0" using ev_ok_ref [OF ok e] .
  have u: "uint (iRef f) = uint (iRef e) + 1"
  proof -
    have "unat (1 + iRef e) = Suc (unat (iRef e))" by (rule unatSuc) (use nowrap in \<open>simp add: add.commute\<close>)
    then have "int (unat (1 + iRef e)) = int (unat (iRef e)) + 1" by simp
    then show ?thesis unfolding f(1) by (simp only: uint_nat add.commute [of 1])
  qed
  have "uint (iRef e) \<noteq> 0" using ref0 by (metis unsigned_eq_0_iff)
  then have old: "uint (iRef f) - 1 > 0" using u uint_ge_0 [of "iRef e"] by linarith
  have cur: "bucketFor (iBodySize f) (word_of_int (uint (iRef f) - 1)) = entryBucket e"
    unfolding u f(2) by (simp add: entryBucket_def)
  show ?thesis by (rule evAccessed_refiles_gen [OF ok e _ f(3) old cur w1]) (use f nowrap in simp)
qed

text \<open>An empty entry is in the first bucket whatever its count is, so any count may be set.\<close>

lemma bucketFor_empty: "r \<noteq> 0 \<Longrightarrow> bucketFor 0 r = Some (BucketIndex (FastLog2 0))"
  by (simp add: bucketFor_def)

lemma evAccessed_empty:
  assumes ok: "ev_ok w" and e: "heap w p = Some e" "iEvictionCandidate e" "iBodySize e = 0"
    and f: "iRef f \<noteq> 0" "iEvictionCandidate f" "iBodySize f = 0"
    and w1: "w1 = updEntry p (\<lambda>_. f) w"
  shows "\<exists>w'. evAccessed p w1 = Some w' \<and> ev_ok w' \<and> heap w' = heap w1"
proof (cases "uint (iRef f) - 1 > 0")
  case True
  have "uint (iRef f) < 2 ^ 16" using uint_lt2p [of "iRef f"] by simp
  moreover have "(word_of_int n :: 32 word) \<noteq> 0" if "0 < n" "n < 2 ^ 32" for n
    using that zdvd_imp_le [of "2 ^ 32" n] by (auto simp: word_of_int_eq_0_iff)
  moreover have "uint (iRef f) - 1 < 2 ^ 32" using calculation(1) by simp
  ultimately have "(word_of_int (uint (iRef f) - 1) :: 32 word) \<noteq> 0" using True by blast
  then have "bucketFor (iBodySize f) (word_of_int (uint (iRef f) - 1)) = entryBucket e"
    using e(3) f(3) ev_ok_ref [OF ok e(1,2)] by (simp add: bucketFor_empty entryBucket_def)
  from evAccessed_refiles_gen [OF ok e(1,2) f(1,2) True this w1] show ?thesis by blast
next
  case False
  have h1: "heap w1 = (heap w)(p \<mapsto> f)" using e by (auto simp: w1 fun_eq_iff)
  have "entryBucket f = entryBucket e" using e(3) f(1,3) ev_ok_ref [OF ok e(1,2)] by (simp add: entryBucket_def bucketFor_empty)
  then have "ev_ok w1"
    using ev_ok_filed [OF ok] e f ev_ok_length [OF ok] ev_ok_distinct [OF ok] h1
    by (intro ev_okI [OF ok, of _ p]) (auto simp: w1 filed_def)
  moreover have "evAccessed p w1 = Some w1" using False e by (simp add: evAccessed_def w1 Let_def)
  ultimately show ?thesis by blast
qed

lemma entryAccessed_ok [inv_intros]:
  assumes ok: "ev_ok w" and e: "heap w p = Some e" and nowrap: "iRef e + 1 \<noteq> 0"
  shows "\<exists>w'. entryAccessed now p w = Some w' \<and> ev_ok w' \<and>
    heap w' = (heap w)(p := Some (e\<lparr>iLastAccessed := now, iRef := iRef e + 1\<rparr>)) \<and>
    (iEvictionCandidate e \<longrightarrow> (\<exists>i. filed w' i p \<and> last (iBuckets w' ! i) = p))"
proof -
  define f where "f = e\<lparr>iLastAccessed := now, iRef := iRef e + 1\<rparr>"
  define w1 where "w1 = updEntry p (\<lambda>_. f) w"
  have w1': "updEntry p (\<lambda>e. e\<lparr>iLastAccessed := now, iRef := iRef e + 1\<rparr>) w = w1"
    using e by (simp add: w1_def updEntry_def f_def)
  have h1: "heap w1 = (heap w)(p := Some f)" using e by (auto simp: w1_def fun_eq_iff)
  show ?thesis
  proof (cases "iEvictionCandidate e")
    case True
    have "\<exists>w'. evAccessed p w1 = Some w' \<and> ev_ok w' \<and> heap w' = heap w1 \<and>
        (\<exists>i. entryBucket f = Some i \<and> last (iBuckets w' ! i) = p)"
      by (rule evAccessed_refiles [OF ok e True nowrap _ _ _ w1_def]) (use True in \<open>simp_all add: f_def\<close>)
    then obtain w' i where w': "evAccessed p w1 = Some w'" "ev_ok w'" "heap w' = heap w1"
      "entryBucket f = Some i" "last (iBuckets w' ! i) = p" by blast
    have "filed w' i p" using ev_ok_filed [OF w'(2), of i p] w'(3,4) h1 True by (simp add: f_def)
    then show ?thesis using e True w' h1 by (auto simp: entryAccessed_def w1' f_def Let_def)
  next
    case False
    have "ev_ok w1"
    proof (rule ev_okI [OF ok, of _ p])
      fix i show "filed w1 i p \<longleftrightarrow> (\<exists>e. heap w1 p = Some e \<and> iEvictionCandidate e \<and> entryBucket e = Some i)"
        using ev_ok_filed [OF ok, of i p] e False h1 by (simp add: filed_def w1_def f_def)
    qed (use False e ev_ok_length [OF ok] ev_ok_distinct [OF ok] in \<open>simp_all add: w1_def f_def filed_def\<close>)
    then show ?thesis using e False h1 by (simp add: entryAccessed_def w1' f_def)
  qed
qed

text \<open>Taking an entry out of the bucket it is filed in.\<close>

lemma evRemove_unfiles:
  assumes ok: "ev_ok w" and e: "heap w p = Some e" "iEvictionCandidate e"
  shows "\<exists>i. evRemove p w = Some (bucketRemove i p w) \<and> (\<forall>j. \<not> filed (bucketRemove i p w) j p)"
proof -
  obtain i where i: "entryBucket e = Some i" "i < KHttpCacheBucketNum" "p \<in> set (iBuckets w ! i)"
    using ev_okD [OF ok e] by metis
  have "filed w j p \<longleftrightarrow> j = i" for j using ev_ok_filed [OF ok, of j p] e i by auto
  then show ?thesis using e i filed_remove [OF ev_ok_distinct [OF ok]]
    by (intro exI [of _ i]) (simp add: evRemove_def ItemIsInBucket_def)
qed

lemma entrySetBodySize_ok [inv_intros]:
  assumes ok: "ev_ok w" and e: "heap w p = Some e"
    and allowed: "iEvictionCandidate e \<Longrightarrow> n = iBodySize e \<or> n = 0 \<and> iBodySize e \<noteq> 0"
  shows "\<exists>w'. entrySetBodySize n p w = Some w' \<and> ev_ok w' \<and>
    heap w' = (heap w)(p := Some (e\<lparr>iBodySize := n,
      iEvictionCandidate := iEvictionCandidate e \<and> \<not> (iBodySize e \<noteq> 0 \<and> n = 0)\<rparr>))"
proof (cases "iBodySize e \<noteq> 0 \<and> n = 0 \<and> iEvictionCandidate e")
  case True
  then obtain i where i: "evRemove p w = Some (bucketRemove i p w)" "\<forall>j. \<not> filed (bucketRemove i p w) j p"
    using evRemove_unfiles [OF ok e] by blast
  define w' where "w' = updEntry p (\<lambda>e. e\<lparr>iEvictionCandidate := False, iBodySize := n\<rparr>) (bucketRemove i p w)"
  have filed': "filed w' = filed (bucketRemove i p w)" by (simp add: w'_def filed_def fun_eq_iff)
  have "ev_ok w'"
  proof (rule ev_okI [OF ok, of _ p])
    fix j q assume "q \<noteq> p" then show "heap w' q = heap w q \<and> (filed w' j q \<longleftrightarrow> filed w j q)"
      using filed_remove [OF ev_ok_distinct [OF ok]] by (simp add: filed') (simp add: w'_def)
  next
    fix j show "filed w' j p \<longleftrightarrow> (\<exists>e. heap w' p = Some e \<and> iEvictionCandidate e \<and> entryBucket e = Some j)"
      using i e by (simp add: filed') (simp add: w'_def)
  qed (use e ev_ok_length [OF ok] distinct_buckets_remove [OF ev_ok_distinct [OF ok]] in \<open>auto simp: w'_def\<close>)
  then show ?thesis using True e i
    by (intro exI [of _ w']) (auto simp: entrySetBodySize_def w'_def fun_eq_iff)
next
  case False
  define w' where "w' = updEntry p (\<lambda>e. e\<lparr>iBodySize := n\<rparr>) w"
  have same: "iEvictionCandidate e \<Longrightarrow> n = iBodySize e" using False allowed by blast
  have bk: "iEvictionCandidate e \<Longrightarrow> entryBucket (e\<lparr>iBodySize := n\<rparr>) = entryBucket e"
    using same by (simp add: entryBucket_def)
  have "ev_ok w'"
  proof (rule ev_okI [OF ok, of _ p])
    fix i show "filed w' i p \<longleftrightarrow> (\<exists>e. heap w' p = Some e \<and> iEvictionCandidate e \<and> entryBucket e = Some i)"
      using ev_ok_filed [OF ok, of i p] e bk by (auto simp: filed_def w'_def)
  qed (use ev_ok_ref [OF ok e] e ev_ok_length [OF ok] ev_ok_distinct [OF ok] in \<open>auto simp: w'_def filed_def\<close>)
  moreover have "heap w' = (heap w)(p := Some (e\<lparr>iBodySize := n,
      iEvictionCandidate := iEvictionCandidate e \<and> \<not> (iBodySize e \<noteq> 0 \<and> n = 0)\<rparr>))"
    using False e by (auto simp: w'_def fun_eq_iff)
  moreover have "entrySetBodySize n p w = Some w'"
    unfolding entrySetBodySize_def e option.case w'_def using False by (intro if_not_P) blast
  ultimately show ?thesis by blast
qed

lemma entryDelete_ok [inv_intros]:
  assumes ok: "ev_ok w" and e: "heap w p = Some e"
  shows "\<exists>w'. entryDelete p w = Some w' \<and> ev_ok w' \<and> heap w' = (heap w)(p := None) \<and> (\<forall>i. \<not> filed w' i p)"
proof -
  obtain w1 where w1: "(if iEvictionCandidate e then evRemove p w else Some w) = Some w1"
    "\<And>j. \<not> filed w1 j p" "\<And>j q. q \<noteq> p \<Longrightarrow> filed w1 j q \<longleftrightarrow> filed w j q"
    "\<forall>b \<in> set (iBuckets w1). distinct b" "length (iBuckets w1) = KHttpCacheBucketNum" "heap w1 = heap w"
  proof (cases "iEvictionCandidate e")
    case True
    then obtain i where "evRemove p w = Some (bucketRemove i p w)" "\<forall>j. \<not> filed (bucketRemove i p w) j p"
      using evRemove_unfiles [OF ok e] by blast
    then show thesis using True filed_remove [OF ev_ok_distinct [OF ok]] ev_ok_length [OF ok]
        distinct_buckets_remove [OF ev_ok_distinct [OF ok]] by (intro that [of "bucketRemove i p w"]) auto
  next
    case False
    then show thesis using ev_ok_filed [OF ok] e ev_ok_length [OF ok] ev_ok_distinct [OF ok]
      by (intro that [of w]) auto
  qed
  define w' where "w' = w1\<lparr>heap := (heap w1)(p := None),
      deleteNotices := deleteNotices w1 @ (case iDeleteObserver e of None \<Rightarrow> [] | Some obs \<Rightarrow> [(obs, p)])\<rparr>"
  have filed': "filed w' = filed w1" by (simp add: w'_def filed_def fun_eq_iff)
  have "ev_ok w'"
  proof (rule ev_okI [OF ok, of _ p])
    fix i q assume "q \<noteq> p" then show "heap w' q = heap w q \<and> (filed w' i q \<longleftrightarrow> filed w i q)"
      using w1 by (simp add: filed') (simp add: w'_def)
  next
    fix i show "filed w' i p \<longleftrightarrow> (\<exists>e. heap w' p = Some e \<and> iEvictionCandidate e \<and> entryBucket e = Some i)"
      using w1 by (simp add: filed') (simp add: w'_def)
  qed (use w1 in \<open>simp_all add: w'_def\<close>)
  then show ?thesis using e w1 filed' by (intro exI [of _ w']) (simp add: entryDelete_def w'_def)
qed

end
