(* ===== verification/EvictionRun.thy ===== *)
theory EvictionRun
  imports Eviction "HOL-Library.Multiset"
begin

text \<open>
  What the eviction handler promises its users: what one call of \<open>EvictL\<close> takes out of the
  buckets, the life of a set of entries as a step relation over the operations of an entry, with
  the filing invariant on its reachable states, and the inputs at which the filing is lost.
\<close>

subsection \<open>One call of EvictL\<close>

definition evictable :: "'a ev_world_scheme \<Rightarrow> nat \<Rightarrow> bool" where
  "evictable w p \<longleftrightarrow> (case heap w p of None \<Rightarrow> False
     | Some e \<Rightarrow> iState e = ECacheComplete \<and> \<not> BodyDataPartiallyWritten e)"

definition entrySpace :: "'a ev_world_scheme \<Rightarrow> nat \<Rightarrow> 32 word" where
  "entrySpace w p = (case heap w p of None \<Rightarrow> 0 | Some e \<Rightarrow> iBodySize e + ucast (iHeaderSize e))"

text \<open>The value of an entry for the scan, given what \<open>SecondsFrom\<close> finds in its result.\<close>

definition evValue :: "(int \<Rightarrow> int \<Rightarrow> 32 word \<Rightarrow> 32 word) \<Rightarrow> int \<Rightarrow> 32 word \<Rightarrow> cache_entry \<Rightarrow> 32 word" where
  "evValue sf now s e = sf now (iLastAccessed e) s * iBodySize e div ucast (iRef e)"

definition heads_live :: "(nat \<Rightarrow> cache_entry option) \<Rightarrow> nat list list \<Rightarrow> bool" where
  "heads_live h bs \<longleftrightarrow> (\<forall>b \<in> set bs. \<forall>p \<in> set b. \<exists>e. h p = Some e \<and> iRef e \<noteq> 0)"

lemma evScan_total:
  "heads_live h bs \<Longrightarrow> \<exists>st'. evScan sf now h i bs st = Some st'"
proof (induction bs arbitrary: i st)
  case Nil
  then show ?case by (cases st) simp
next
  case (Cons b bs)
  obtain s m c where st: "st = (s, m, c)" by (cases st)
  have "heads_live h bs" using Cons.prems by (simp add: heads_live_def)
  note IH = Cons.IH [OF this]
  show ?case
  proof (cases b)
    case Nil
    then show ?thesis using IH by (simp add: st)
  next
    case (Cons p ps)
    then obtain e where "h p = Some e" "iRef e \<noteq> 0" using Cons.prems by (auto simp: heads_live_def)
    then show ?thesis using IH Cons by (simp add: st Let_def)
  qed
qed

lemma evScan_none:
  "evScan sf now h i bs (s, m, None) = Some (s', m', None) \<Longrightarrow> b \<in> set bs \<Longrightarrow> b \<noteq> [] \<Longrightarrow>
   \<exists>e. h (hd b) = Some e \<and> (iState e \<noteq> ECacheComplete \<or> BodyDataPartiallyWritten e \<or>
     (\<exists>t. sint (evValue sf now t e) \<le> sint m))"
proof (induction bs arbitrary: i s)
  case Nil
  then show ?case by simp
next
  case (Cons c bs)
  show ?case
  proof (cases c)
    case Nil
    with Cons.prems Cons.IH [of "Suc i" s] show ?thesis by auto
  next
    case (Cons p ps)
    from Cons.prems(1) Cons obtain e where e: "h p = Some e" by (auto split: option.splits)
    show ?thesis
    proof (cases "iState e = ECacheComplete \<and> \<not> BodyDataPartiallyWritten e")
      case False
      then have rec: "evScan sf now h (Suc i) bs (s, m, None) = Some (s', m', None)"
        using Cons.prems(1) Cons e by (simp add: if_not_P)
      show ?thesis
      proof (cases "b = c")
        case True
        then show ?thesis using e Cons False by auto
      qed (use Cons.IH [OF rec] Cons.prems in auto)
    next
      case True
      have mono: "evScan sf now h j bs (t, n, Some q) \<noteq> Some (s', m', None)" for j t n q
      proof (induction bs arbitrary: j t n q)
        case (Cons d bs)
        then show ?case by (auto simp: Let_def split: list.splits option.splits)
      qed simp
      have le: "sint (evValue sf now s e) \<le> sint m"
        using Cons.prems(1) Cons e True mono
        by (auto simp: Let_def evValue_def not_less split: if_splits)
      then have rec: "evScan sf now h (Suc i) bs (sf now (iLastAccessed e) s, m, None) = Some (s', m', None)"
        using Cons.prems(1) Cons e True by (simp add: Let_def evValue_def split: if_splits)
      show ?thesis
      proof (cases "b = c")
        case True
        then show ?thesis using e Cons le by auto
      qed (use Cons.IH [OF rec] Cons.prems in auto)
    qed
  qed
qed

text \<open>When the scan finds nobody, every first entry is busy or has a negative value.\<close>

definition noCandidate :: "(int \<Rightarrow> int \<Rightarrow> 32 word \<Rightarrow> 32 word) \<Rightarrow> int \<Rightarrow> 'a ev_world_scheme \<Rightarrow> bool" where
  "noCandidate sf now w \<longleftrightarrow> (\<forall>b \<in> set (iBuckets w). b \<noteq> [] \<longrightarrow>
     \<not> evictable w (hd b) \<or> (\<exists>e t. heap w (hd b) = Some e \<and> sint (evValue sf now t e) < 0))"

lemma evPick_none: "evPick sf now s w = Some None \<Longrightarrow> noCandidate sf now w"
proof -
  assume "evPick sf now s w = Some None"
  then obtain s' m' where *: "evScan sf now (heap w) 0 (iBuckets w) (s, -1, None) = Some (s', m', None)"
    by (auto simp: evPick_def)
  have "\<not> evictable w (hd b) \<or> (\<exists>e t. heap w (hd b) = Some e \<and> sint (evValue sf now t e) < 0)"
    if "b \<in> set (iBuckets w)" "b \<noteq> []" for b
  proof -
    note b = that
    obtain e where e: "heap w (hd b) = Some e" "iState e \<noteq> ECacheComplete \<or> BodyDataPartiallyWritten e \<or>
        (\<exists>t. sint (evValue sf now t e) \<le> sint (- 1 :: 32 word))"
      using evScan_none [OF * b] by blast
    have "sint (- 1 :: 32 word) = - 1" by simp
    with e show ?thesis by (auto simp: evictable_def dest: le_less_trans [of _ "- 1" 0])
  qed
  then show ?thesis by (simp add: noCandidate_def)
qed

lemma evEvictLoop_spec:
  assumes "heads_live (heap w) (iBuckets w)"
  shows "\<exists>ps w' qss. evEvictLoop sf now s need ev w = Some (ev @ ps, w') \<and>
    heap w' = heap w \<and> deleteNotices w' = deleteNotices w \<and> length (iBuckets w') = length (iBuckets w) \<and>
    length qss = length (iBuckets w) \<and> (\<forall>i < length qss. iBuckets w ! i = qss ! i @ iBuckets w' ! i) \<and>
    mset ps = mset (concat qss) \<and> (\<forall>p \<in> set ps. evictable w p) \<and>
    (\<forall>k < length ps. sint (need - sum_list (map (entrySpace w) (take k ps))) > 0) \<and>
    (sint (need - sum_list (map (entrySpace w) ps)) \<le> 0 \<or> noCandidate sf now w')"
  using assms
proof (induction sf now s need ev w rule: evEvictLoop.induct)
  case (1 sf now s need ev w)
  have stop: ?case if "evEvictLoop sf now s need ev w = Some (ev, w)" "sint need \<le> 0 \<or> noCandidate sf now w"
    using that by (intro exI [of _ "[]"] exI [of _ w] exI [of _ "replicate (length (iBuckets w)) []"]) auto
  show ?case
  proof (cases "sint need > 0")
    case False
    then show ?thesis by (intro stop) (auto simp: evEvictLoop.simps)
  next
    case True
    obtain c where c: "evPick sf now s w = Some c"
      using evScan_total [OF "1.prems"] by (force simp: evPick_def)
    show ?thesis
    proof (cases c)
      case None
      then show ?thesis using c True evPick_none by (intro stop) (auto simp: evEvictLoop.simps)
    next
      case (Some ip)
      obtain i p where ip: "ip = (i, p)" by (cases ip)
      obtain rest e where e: "i < length (iBuckets w)" "iBuckets w ! i = p # rest" "heap w p = Some e"
        "iState e = ECacheComplete" "\<not> BodyDataPartiallyWritten e"
        using evPick_candidate c Some ip by blast
      let ?w1 = "bucketRemove i p w" and ?need = "need - iBodySize e - ucast (iHeaderSize e)"
      have live: "heads_live (heap ?w1) (iBuckets ?w1)"
      proof -
        have "\<forall>q \<in> set rest. \<exists>e. heap w q = Some e \<and> iRef e \<noteq> 0"
          using "1.prems" e nth_mem [OF e(1)] unfolding heads_live_def by fastforce
        then show ?thesis
          using "1.prems" e by (auto simp: heads_live_def bucketRemove_def dest!: set_update_subset_insert [THEN subsetD])
      qed
      obtain ps w' qss where IH: "evEvictLoop sf now s ?need (ev @ [p]) ?w1 = Some ((ev @ [p]) @ ps, w')"
        "heap w' = heap w" "deleteNotices w' = deleteNotices ?w1" "length (iBuckets w') = length (iBuckets w)"
        "length qss = length (iBuckets w)" "\<forall>j < length qss. iBuckets ?w1 ! j = qss ! j @ iBuckets w' ! j"
        "mset ps = mset (concat qss)" "\<forall>q \<in> set ps. evictable ?w1 q"
        "\<forall>k < length ps. sint (?need - sum_list (map (entrySpace ?w1) (take k ps))) > 0"
        "sint (?need - sum_list (map (entrySpace ?w1) ps)) \<le> 0 \<or> noCandidate sf now w'"
        using "1.IH" [OF True c Some ip [symmetric] e(3) live] by auto
      have sp: "entrySpace ?w1 = entrySpace w" by (simp add: entrySpace_def fun_eq_iff)
      have need: "?need - x = need - (entrySpace w p + x)" for x using e by (simp add: entrySpace_def)
      define qss' where "qss' = qss[i := p # qss ! i]"
      have split: "iBuckets w ! j = qss' ! j @ iBuckets w' ! j" if "j < length qss'" for j
        using that IH(5,6) e by (cases "j = i") (auto simp: qss'_def bucketRemove_def)
      have ms: "mset (p # ps) = mset (concat qss')"
      proof -
        have "mset (concat qss) = mset (concat (take i qss)) + mset (qss ! i) + mset (concat (drop (Suc i) qss))"
          using IH(5) e(1) by (subst id_take_nth_drop [of i qss]) auto
        moreover have "mset (concat qss') = mset (concat (take i qss)) + mset (p # qss ! i) + mset (concat (drop (Suc i) qss))"
          using IH(5) e(1) by (simp add: qss'_def upd_conv_take_nth_drop)
        ultimately show ?thesis using IH(7) by simp
      qed
      have run: "evEvictLoop sf now s need ev w = Some (ev @ (p # ps), w')"
        using True c Some ip e IH(1) by (subst evEvictLoop.simps) simp
      have pos: "sint (need - sum_list (map (entrySpace w) (take k (p # ps)))) > 0" if "k < length (p # ps)" for k
        using that True IH(9) by (cases k) (auto simp: sp need)
      show ?thesis
      proof (intro exI conjI)
        show "evEvictLoop sf now s need ev w = Some (ev @ (p # ps), w')" by (rule run)
        show "\<forall>i < length qss'. iBuckets w ! i = qss' ! i @ iBuckets w' ! i" using split by blast
        show "\<forall>k < length (p # ps). sint (need - sum_list (map (entrySpace w) (take k (p # ps)))) > 0" using pos by blast
        show "\<forall>q \<in> set (p # ps). evictable w q" using IH(8) e by (auto simp: evictable_def)
        show "sint (need - sum_list (map (entrySpace w) (p # ps))) \<le> 0 \<or> noCandidate sf now w'"
          using IH(10) by (simp add: sp need)
      qed (use IH(2-5) ms in \<open>simp_all add: qss'_def bucketRemove_def\<close>)
    qed
  qed
qed

lemma ev_ok_live: "ev_ok w \<Longrightarrow> heads_live (heap w) (iBuckets w)"
  unfolding heads_live_def
proof (intro ballI)
  fix b p assume ok: "ev_ok w" and "b \<in> set (iBuckets w)" "p \<in> set b"
  then obtain i where "filed w i p" by (auto simp: filed_def in_set_conv_nth)
  then obtain e where "heap w p = Some e" "iEvictionCandidate e" using ev_ok_filed [OF ok] by blast
  then show "\<exists>e. heap w p = Some e \<and> iRef e \<noteq> 0" using ev_ok_ref [OF ok] by blast
qed

lemma ev_ok_one_bucket: "ev_ok w \<Longrightarrow> filed w i p \<Longrightarrow> filed w j p \<Longrightarrow> i = j"
  using ev_ok_filed [of w] by (metis option.inject)

lemma distinct_concat_nth:
  assumes "\<forall>i < length xss. distinct (xss ! i)"
    "\<forall>i < length xss. \<forall>j < length xss. \<forall>x \<in> set (xss ! i). x \<in> set (xss ! j) \<longrightarrow> i = j"
  shows "distinct (concat xss)"
  using assms
proof (induction xss rule: rev_induct)
  case Nil
  then show ?case by simp
next
  case (snoc ys xss)
  have "distinct (concat xss)"
  proof (rule snoc.IH; intro allI impI ballI)
    fix i assume i: "i < length xss"
    then show "distinct (xss ! i)" using snoc.prems(1) by (metis length_append_singleton less_Suc_eq nth_append)
    fix j x assume "j < length xss" "x \<in> set (xss ! i)" "x \<in> set (xss ! j)"
    then show "i = j" using snoc.prems(2) i by (metis length_append_singleton less_Suc_eq nth_append)
  qed
  moreover have "distinct ys" using snoc.prems(1) by (metis length_append_singleton lessI nth_append_length)
  moreover have "set (concat xss) \<inter> set ys = {}"
  proof (rule ccontr)
    assume "set (concat xss) \<inter> set ys \<noteq> {}"
    then obtain x zs where "x \<in> set ys" "zs \<in> set xss" "x \<in> set zs" by auto
    then obtain i where "x \<in> set ys" "i < length xss" "x \<in> set (xss ! i)" by (metis in_set_conv_nth)
    then have "x \<in> set ((xss @ [ys]) ! i)" "x \<in> set ((xss @ [ys]) ! length xss)" "i < length (xss @ [ys])"
      by (simp_all add: nth_append)
    then have "i = length xss" using snoc.prems(2) [rule_format, of i "length xss" x] by simp
    then show False using \<open>i < length xss\<close> by simp
  qed
  ultimately show ?case by (simp add: Int_commute)
qed

lemma evEvictL_spec:
  assumes "ev_ok w"
  shows "\<exists>ps w' qss. evEvictL sf now s need w = Some (ps, w') \<and> heap w' = heap w \<and> distinct ps \<and>
    (\<forall>p \<in> set ps. evictable w p) \<and>
    length (iBuckets w') = KHttpCacheBucketNum \<and> length qss = KHttpCacheBucketNum \<and> set ps = \<Union> (set ` set qss) \<and>
    (\<forall>i < KHttpCacheBucketNum. iBuckets w ! i = qss ! i @ iBuckets w' ! i) \<and>
    (\<forall>k < length ps. sint (need - sum_list (map (entrySpace w) (take k ps))) > 0) \<and>
    (sint (need - sum_list (map (entrySpace w) ps)) \<le> 0 \<or> noCandidate sf now w')"
proof -
  obtain ps w' qss where r: "evEvictLoop sf now s need [] w = Some ([] @ ps, w')"
    "heap w' = heap w" "length (iBuckets w') = length (iBuckets w)" "length qss = length (iBuckets w)" "\<forall>i < length qss. iBuckets w ! i = qss ! i @ iBuckets w' ! i"
    "mset ps = mset (concat qss)" "\<forall>p \<in> set ps. evictable w p"
    "\<forall>k < length ps. sint (need - sum_list (map (entrySpace w) (take k ps))) > 0"
    "sint (need - sum_list (map (entrySpace w) ps)) \<le> 0 \<or> noCandidate sf now w'"
    using evEvictLoop_spec [OF ev_ok_live [OF assms], of sf now s need "[]"] by blast
  have sub: "distinct (qss ! i) \<and> (\<forall>x \<in> set (qss ! i). filed w i x)" if "i < length qss" for i
  proof -
    have "distinct (qss ! i @ iBuckets w' ! i)"
      using r(4,5) that ev_ok_distinct [OF assms] by (metis nth_mem)
    then show ?thesis using r(4,5) that by (auto simp: filed_def)
  qed
  have "distinct (concat qss)"
    by (rule distinct_concat_nth) (use sub ev_ok_one_bucket [OF assms] in blast)+
  then have d: "distinct ps" using r(6) by (metis mset_eq_imp_distinct_iff)
  have "set ps = set (concat qss)" using r(6) by (metis set_mset_mset)
  then show ?thesis using r d ev_ok_length [OF assms] unfolding evEvictL_def
    by (intro exI [of _ ps] exI [of _ w'] exI [of _ qss]) simp
qed

text \<open>
  C27: from a consistent filing \<open>EvictL\<close> always returns. The entries it hands over are
  distinct, complete and not half written; from each bucket it took the least recently used ones,
  a prefix of the queue, and left the rest in order; it took no further entry once enough was
  freed, and it frees enough unless no first entry of a bucket could be chosen.
\<close>

theorem EvictL_contract:
  assumes "ev_ok w"
  shows "\<exists>ps w' qss. evEvictL sf now s need w = Some (ps, w') \<and> heap w' = heap w \<and> distinct ps \<and>
    (\<forall>p \<in> set ps. evictable w p) \<and>
    length (iBuckets w') = KHttpCacheBucketNum \<and> length qss = KHttpCacheBucketNum \<and> set ps = \<Union> (set ` set qss) \<and>
    (\<forall>i < KHttpCacheBucketNum. iBuckets w ! i = qss ! i @ iBuckets w' ! i) \<and>
    (\<forall>k < length ps. sint (need - sum_list (map (entrySpace w) (take k ps))) > 0) \<and>
    (sint (need - sum_list (map (entrySpace w) ps)) \<le> 0 \<or> noCandidate sf now w')"
  by (rule evEvictL_spec [OF assms])

subsection \<open>What the operations leave alone\<close>

text \<open>An operation on an entry changes the heap, the buckets and the delete notices only.\<close>

definition ev_frame :: "'a ev_world_scheme \<Rightarrow> 'a ev_world_scheme \<Rightarrow> bool" where
  "ev_frame w w' \<longleftrightarrow> (\<exists>h b d. w' = w\<lparr>heap := h, iBuckets := b, deleteNotices := d\<rparr>)"

lemma ev_frameI:
  "ev_frame w w" "ev_frame w (w\<lparr>heap := h\<rparr>)" "ev_frame w (w\<lparr>iBuckets := b\<rparr>)"
  "ev_frame w (w\<lparr>heap := h, deleteNotices := d\<rparr>)" "ev_frame w (w\<lparr>iBuckets := b, heap := h\<rparr>)"
  unfolding ev_frame_def
      apply (rule exI [of _ "heap w"], rule exI [of _ "iBuckets w"], rule exI [of _ "deleteNotices w"], simp)
     apply (rule exI [of _ h], rule exI [of _ "iBuckets w"], rule exI [of _ "deleteNotices w"], simp)
    apply (rule exI [of _ "heap w"], rule exI [of _ b], rule exI [of _ "deleteNotices w"], simp)
   apply (rule exI [of _ h], rule exI [of _ "iBuckets w"], rule exI [of _ d], simp)
  apply (rule exI [of _ h], rule exI [of _ b], rule exI [of _ "deleteNotices w"], simp)
  done

lemma ev_frame_trans: "ev_frame u v \<Longrightarrow> ev_frame v w \<Longrightarrow> ev_frame u w"
  unfolding ev_frame_def by (elim exE) (simp, blast)

lemma ev_frame_basic:
  "ev_frame w (updEntry p f w)" "ev_frame w (bucketAddLast i p w)" "ev_frame w (bucketRemove i p w)"
  by (simp_all add: updEntry_def bucketAddLast_def bucketRemove_def ev_frameI)

lemma evRemove_ev_frame: "evRemove p w = Some w' \<Longrightarrow> ev_frame w w'"
  by (auto simp: evRemove_def ev_frame_basic ev_frameI split: option.splits if_splits)

lemma evInsert_ev_frame: "evInsert p w = Some w' \<Longrightarrow> ev_frame w w'"
  by (auto simp: evInsert_def ev_frame_basic split: option.splits)

lemma evAccessed_ev_frame: "evAccessed p w = Some w' \<Longrightarrow> ev_frame w w'"
  by (auto simp: evAccessed_def Let_def ev_frameI intro: ev_frame_basic ev_frame_trans split: option.splits if_splits)

lemma entrySetState_ev_frame: "entrySetState p s w = Some w' \<Longrightarrow> ev_frame w w'"
  by (auto simp: entrySetState_def ev_frame_basic intro: ev_frame_trans dest!: evInsert_ev_frame
      split: option.splits if_splits)

lemma entryAccessed_ev_frame: "entryAccessed now p w = Some w' \<Longrightarrow> ev_frame w w'"
  by (auto simp: entryAccessed_def Let_def ev_frame_basic intro: ev_frame_trans [OF ev_frame_basic(1)] dest!: evAccessed_ev_frame
      split: option.splits if_splits)

lemma entrySetBodySize_ev_frame: "entrySetBodySize n p w = Some w' \<Longrightarrow> ev_frame w w'"
  by (auto simp: entrySetBodySize_def ev_frame_basic intro: ev_frame_trans dest!: evRemove_ev_frame
      split: option.splits if_splits)

lemma entryDelete_ev_frame: "entryDelete p w = Some w' \<Longrightarrow> ev_frame w w'"
  by (auto simp: entryDelete_def intro: ev_frame_trans [OF _ ev_frameI(4)] ev_frame_trans [OF _ ev_frameI(2)] ev_frameI dest!: evRemove_ev_frame
      split: option.splits if_splits)

lemma evEvictLoop_ev_frame: "evEvictLoop sf now s need ps w = Some (qs, w') \<Longrightarrow> ev_frame w w'"
proof (induction sf now s need ps w rule: evEvictLoop.induct)
  case (1 sf now s need ps w)
  show ?case using "1.prems" "1.IH" ev_frame_trans [OF ev_frame_basic(3)]
    by (subst (asm) evEvictLoop.simps) (fastforce simp: ev_frameI split: if_splits option.splits)
qed

lemmas ev_frames = entrySetState_ev_frame entryAccessed_ev_frame entrySetBodySize_ev_frame entryDelete_ev_frame

text \<open>Changes to an entry that the filing does not depend on.\<close>

lemma ev_ok_irrelevant:
  assumes ok: "ev_ok w" and e: "heap w p = Some e"
    and same: "iEvictionCandidate (f e) = iEvictionCandidate e" "iRef (f e) = iRef e" "iBodySize (f e) = iBodySize e"
    and w': "heap w' = (heap w)(p \<mapsto> f e)" "iBuckets w' = iBuckets w"
  shows "ev_ok w'"
proof (rule ev_okI [OF ok, of _ p])
  have fl: "filed w' i q \<longleftrightarrow> filed w i q" for i q using w'(2) by (simp add: filed_def)
  have bk: "entryBucket (f e) = entryBucket e" using same by (simp add: entryBucket_def)
  show "filed w' i p \<longleftrightarrow> (\<exists>e. heap w' p = Some e \<and> iEvictionCandidate e \<and> entryBucket e = Some i)" for i
    unfolding fl ev_ok_filed [OF ok] using e bk same(1) w'(1) by simp
  show "heap w' q = heap w q \<and> (filed w' i q \<longleftrightarrow> filed w i q)" if "q \<noteq> p" for i q
    using that fl w'(1) by simp
qed (use ev_ok_ref [OF ok e] same w' ev_ok_length [OF ok] ev_ok_distinct [OF ok] in auto)

lemma ev_ok_new:
  assumes ok: "ev_ok w" and new: "heap w p = None" "\<not> iEvictionCandidate e"
    and w': "heap w' = (heap w)(p \<mapsto> e)" "iBuckets w' = iBuckets w"
  shows "ev_ok w'"
proof (rule ev_okI [OF ok, of _ p])
  have fl: "filed w' i q \<longleftrightarrow> filed w i q" for i q using w'(2) by (simp add: filed_def)
  show "filed w' i p \<longleftrightarrow> (\<exists>e. heap w' p = Some e \<and> iEvictionCandidate e \<and> entryBucket e = Some i)" for i
    unfolding fl ev_ok_filed [OF ok] using new w'(1) by simp
  show "heap w' q = heap w q \<and> (filed w' i q \<longleftrightarrow> filed w i q)" if "q \<noteq> p" for i q
    using that fl w'(1) by simp
qed (use new w' ev_ok_length [OF ok] ev_ok_distinct [OF ok] in auto)

lemma ev_ok_cong:
  assumes "ev_ok w" "heap w' = heap w" "iBuckets w' = iBuckets w"
  shows "ev_ok w'"
  using assms(1) unfolding ev_ok_def filed_def assms(2,3) .

end
