(* ===== verification/EntryLife.thy ===== *)
theory EntryLife
  imports EvictionRun
begin

text \<open>
  The life of the cache's entries as a step relation over the operations of
  \<open>CHttpCacheEntry\<close> that go through the eviction handler: creation, change of state, access,
  change of size, deletion. The filing invariant holds in every reachable state as long as no
  access wraps the 16-bit reference count; the last part shows what the wrap does.
\<close>

subsection \<open>The step relation\<close>

text \<open>
  A step names the operation it runs. The body size of a filed entry only changes to 0, as in
  \<open>RemoveBodyData\<close>, and an entry becomes complete after it has been accessed.
\<close>

datatype entry_op =
    OpNew nat tdes8 | OpSetState nat TCacheEntryState | OpAccessed nat int
  | OpSetBodySize nat "32 word" | OpDelete nat

fun runOp :: "entry_op \<Rightarrow> 'a ev_world_scheme \<Rightarrow> 'a ev_world_scheme option" where
  "runOp (OpNew p u) w = (if heap w p = None then Some (w\<lparr>heap := (heap w)(p \<mapsto> entryNewL u)\<rparr>) else None)"
| "runOp (OpSetState p s) w = entrySetState p s w"
| "runOp (OpAccessed p now) w = entryAccessed now p w"
| "runOp (OpSetBodySize p n) w = entrySetBodySize n p w"
| "runOp (OpDelete p) w = entryDelete p w"

text \<open>What the callers see to before an operation.\<close>

fun opAllowed :: "entry_op \<Rightarrow> 'a ev_world_scheme \<Rightarrow> bool" where
  "opAllowed (OpNew p u) w \<longleftrightarrow> heap w p = None"
| "opAllowed (OpSetState p s) w \<longleftrightarrow> (case heap w p of None \<Rightarrow> False | Some e \<Rightarrow> s = ECacheComplete \<longrightarrow> iRef e \<noteq> 0)"
| "opAllowed (OpAccessed p now) w \<longleftrightarrow> (case heap w p of None \<Rightarrow> False | Some e \<Rightarrow> iRef e \<noteq> 0xFFFF)"
| "opAllowed (OpSetBodySize p n) w \<longleftrightarrow> (case heap w p of None \<Rightarrow> False
     | Some e \<Rightarrow> iEvictionCandidate e \<longrightarrow> n = iBodySize e \<or> n = 0 \<and> iBodySize e \<noteq> 0)"
| "opAllowed (OpDelete p) w \<longleftrightarrow> heap w p \<noteq> None"

inductive ev_step :: "'a ev_world_scheme \<Rightarrow> 'a ev_world_scheme \<Rightarrow> bool" where
  step: "opAllowed a w \<Longrightarrow> runOp a w = Some w' \<Longrightarrow> ev_step w w'"

inductive ev_reachable :: "'a ev_world_scheme \<Rightarrow> 'a ev_world_scheme \<Rightarrow> bool" where
  start: "ev_reachable w w"
| more: "ev_reachable w w' \<Longrightarrow> ev_step w' w'' \<Longrightarrow> ev_reachable w w''"

inductive_cases ev_stepE [elim]: "ev_step w w'"
inductive_simps ev_step_iff: "ev_step w w'"

lemma ref_nowrap: "(r :: 16 word) \<noteq> 0xFFFF \<Longrightarrow> r + 1 \<noteq> 0"
proof
  assume "r \<noteq> 0xFFFF" "r + 1 = 0"
  then have "r = - 1" by (simp add: eq_neg_iff_add_eq_0)
  with \<open>r \<noteq> 0xFFFF\<close> show False by simp
qed

text \<open>An allowed operation returns, and it keeps the filing consistent.\<close>

lemma runOp_ok:
  assumes ok: "ev_ok w" and al: "opAllowed a w"
  shows "\<exists>w'. runOp a w = Some w' \<and> ev_ok w'"
proof (cases a)
  case (OpNew p u)
  then have "heap w p = None" using al by simp
  from ev_ok_new [OF ok this, of "entryNewL u" "w\<lparr>heap := (heap w)(p \<mapsto> entryNewL u)\<rparr>"] show ?thesis
    using OpNew \<open>heap w p = None\<close> by (simp add: entryNewL_def)
next
  case (OpSetState p s)
  then obtain e where e: "heap w p = Some e" "s = ECacheComplete \<Longrightarrow> iRef e \<noteq> 0" using al by (auto split: option.splits)
  from entrySetState_ok [OF ok this] show ?thesis using OpSetState by auto
next
  case (OpAccessed p now)
  then obtain e where e: "heap w p = Some e" "iRef e \<noteq> 0xFFFF" using al by (auto split: option.splits)
  from entryAccessed_ok [OF ok e(1) ref_nowrap [OF e(2)]] show ?thesis using OpAccessed by auto
next
  case (OpSetBodySize p n)
  then obtain e where e: "heap w p = Some e" "iEvictionCandidate e \<Longrightarrow> n = iBodySize e \<or> n = 0 \<and> iBodySize e \<noteq> 0"
    using al by (auto split: option.splits)
  from entrySetBodySize_ok [OF ok this] show ?thesis using OpSetBodySize by auto
next
  case (OpDelete p)
  then obtain e where "heap w p = Some e" using al by auto
  from entryDelete_ok [OF ok this] show ?thesis using OpDelete by auto
qed

lemma ev_reachable_ok: "ev_reachable w w' \<Longrightarrow> ev_ok w \<Longrightarrow> ev_ok w'"
proof (induction rule: ev_reachable.induct)
  case (more w w' w'')
  from more.hyps(2) obtain a where "opAllowed a w'" "runOp a w' = Some w''" by blast
  with runOp_ok [of w' a] more.IH more.prems show ?case by auto
qed

text \<open>The handler as it is constructed, with no entries.\<close>

definition ev_start :: ev_world where
  "ev_start = \<lparr>heap = Map.empty, iBuckets = evConstructL, deleteNotices = []\<rparr>"

lemma ev_start_ok [inv_intros]: "ev_ok ev_start"
  by (auto simp: ev_start_def ev_ok_def filed_def evConstructL_def KHttpCacheBucketNum_def)


text \<open>One entry of 64 bytes, complete and filed.\<close>

definition one_entry :: "16 word \<Rightarrow> cache_entry" where
  "one_entry ref = (entryNewL [104])\<lparr>iState := ECacheComplete, iLastAccessed := 7, iRef := ref, iBodySize := 64,
     iEvictionCandidate := True\<rparr>"

definition one_filed :: "16 word \<Rightarrow> ev_world" where
  "one_filed ref = \<lparr>heap = [1 \<mapsto> one_entry ref], iBuckets = evConstructL[the (entryBucket (one_entry ref)) := [1]],
     deleteNotices = []\<rparr>"

lemma one_filed_ok:
  assumes "ref \<noteq> 0"
  shows "ev_ok (one_filed ref)"
proof -
  obtain i where i: "entryBucket (one_entry ref) = Some i" "i < KHttpCacheBucketNum"
    using entryBucket_Some [of "one_entry ref"] assms by (auto simp: one_entry_def)
  then show ?thesis using assms
    by (auto simp: ev_ok_def one_filed_def filed_def evConstructL_def nth_list_update one_entry_def
        dest!: in_set_takeD elim!: in_set_conv_nth [THEN iffD1, elim_format] split: if_splits)
qed

lemma one_filed_reachable: "ev_reachable ev_start (one_filed 1)"
proof -
  let ?e = "entryNewL [104]"
  let ?w1 = "ev_start\<lparr>heap := (heap ev_start)(1 \<mapsto> ?e)\<rparr>"
  let ?w2 = "updEntry 1 (\<lambda>e. e\<lparr>iBodySize := 64\<rparr>) ?w1"
  let ?w3 = "updEntry 1 (\<lambda>e. e\<lparr>iLastAccessed := 7, iRef := iRef e + 1\<rparr>) ?w2"
  have s1: "ev_step ev_start ?w1"
    by (rule ev_step.step [of "OpNew 1 [104]"]) (simp_all add: ev_start_def)
  have s2: "ev_step ?w1 ?w2"
    by (rule ev_step.step [of "OpSetBodySize 1 64"]) (simp_all add: entryNewL_def entrySetBodySize_def)
  have s3: "ev_step ?w2 ?w3"
    by (rule ev_step.step [of "OpAccessed 1 7"]) (simp_all add: entryNewL_def entryAccessed_def Let_def)
  have s4: "ev_step ?w3 (one_filed 1)"
  proof (rule ev_step.step [of "OpSetState 1 ECacheComplete"])
    have b: "entryBucket (one_entry 1) = Some 2" by code_simp
    then show "runOp (OpSetState 1 ECacheComplete) ?w3 = Some (one_filed 1)"
      by (simp add: entrySetState_def evInsert_def ev_start_def one_filed_def one_entry_def entryNewL_def
          bucketAddLast_def updEntry_def entryBucket_def evConstructL_def KHttpCacheBucketNum_def fun_eq_iff eval_nat_numeral)
  qed (simp add: entryNewL_def)
  show ?thesis using s1 s2 s3 s4 by (meson ev_reachable.intros)
qed


text \<open>The eviction's contract on that state: the one entry is handed over.\<close>

theorem EvictL_contract_witness:
  "\<exists>ps w'. evEvictL (\<lambda>now la s. 1) 0 0 10 (one_filed 1) = Some (ps, w') \<and> heap w' = heap (one_filed 1) \<and>
     (\<forall>p \<in> set ps. evictable (one_filed 1) p)"
  using EvictL_contract [OF one_filed_ok [of 1], of "\<lambda>now la s. 1" 0 0 10] by force

subsection \<open>The wrap of the reference count\<close>

lemma evScan_zero_ref:
  "\<exists>b \<in> set bs. \<exists>p ps e. b = p # ps \<and> h p = Some e \<and> iState e = ECacheComplete \<and> \<not> BodyDataPartiallyWritten e \<and> iRef e = 0 \<Longrightarrow>
   evScan sf now h i bs st = None"
proof (induction bs arbitrary: i st)
  case (Cons b bs)
  obtain s m c where st: "st = (s, m, c)" by (cases st)
  show ?case
  proof (cases "\<exists>b \<in> set bs. \<exists>p ps e. b = p # ps \<and> h p = Some e \<and> iState e = ECacheComplete \<and> \<not> BodyDataPartiallyWritten e \<and> iRef e = 0")
    case True
    then show ?thesis using Cons.IH by (auto simp: st Let_def split: list.splits option.splits)
  next
    case False
    then show ?thesis using Cons.prems by (auto simp: st Let_def split: list.splits option.splits)
  qed
qed simp

text \<open>
  The reference count has 16 bits and nothing stops it: the access after 65535 of them
  leaves it 0, the entry stays at the front of its bucket, and the next eviction that needs space
  divides by it. So does the destructor of the entry.
\<close>

theorem ref_wrap_faults:
  assumes ok: "ev_ok w" and e: "heap w p = Some e" "iEvictionCandidate e" "iRef e = 0xFFFF"
    "iState e = ECacheComplete" "\<not> BodyDataPartiallyWritten e"
    and front: "i < KHttpCacheBucketNum" "iBuckets w ! i = p # ps"
  shows "\<exists>w'. entryAccessed now p w = Some w' \<and> entryDelete p w' = None \<and>
    (\<forall>sf t s need. sint need > 0 \<longrightarrow> evEvictL sf t s need w' = None)"
proof -
  define e' where "e' = e\<lparr>iLastAccessed := now, iRef := 0\<rparr>"
  define w' where "w' = updEntry p (\<lambda>e. e\<lparr>iLastAccessed := now, iRef := iRef e + 1\<rparr>) w"
  have h: "heap w' p = Some e'" using e by (simp add: w'_def e'_def)
  have r: "iRef e' = 0" by (simp add: e'_def)
  have "evAccessed p w' = Some w'" using h r by (simp add: evAccessed_def Let_def)
  then have acc: "entryAccessed now p w = Some w'" using e by (simp add: entryAccessed_def Let_def w'_def)
  have del: "entryDelete p w' = None"
    using h r e by (simp add: entryDelete_def evRemove_def entryBucket_def bucketFor_def e'_def)
  have "iBuckets w' ! i \<in> set (iBuckets w')"
    using front(1) ev_ok_length [OF ok] by (simp add: w'_def)
  then have "p # ps \<in> set (iBuckets w')" using front(2) by (simp add: w'_def)
  moreover have "iState e' = ECacheComplete" "\<not> BodyDataPartiallyWritten e'"
    using e by (simp_all add: e'_def write_state_defs writeStateBit_def)
  ultimately have "evScan sf t (heap w') 0 (iBuckets w') st = None" for sf t st
    using h r by (intro evScan_zero_ref) blast
  then have "evEvictL sf t s need w' = None" if "sint need > 0" for sf t s need
    using that by (simp add: evEvictL_def evEvictLoop.simps evPick_def)
  then show ?thesis using acc del by blast
qed

theorem ref_wrap_faults_witness:
  "\<exists>w'. entryAccessed 8 1 (one_filed 0xFFFF) = Some w' \<and> entryDelete 1 w' = None \<and>
     evEvictL (\<lambda>now la s. 1) 9 0 10 w' = None"
proof -
  have b: "entryBucket (one_entry 0xFFFF) = Some 1" by code_simp
  have f: "(1::nat) < KHttpCacheBucketNum" "iBuckets (one_filed 0xFFFF) ! 1 = 1 # []"
    using b by (simp_all add: one_filed_def evConstructL_def KHttpCacheBucketNum_def)
  have e: "heap (one_filed 0xFFFF) 1 = Some (one_entry 0xFFFF)" by (simp add: one_filed_def)
  have n: "sint (10 :: 32 word) > 0" by simp
  obtain w' where "entryAccessed 8 1 (one_filed 0xFFFF) = Some w'" "entryDelete 1 w' = None"
    "\<And>sf t s need. sint need > 0 \<Longrightarrow> evEvictL sf t s need w' = None"
    using ref_wrap_faults [OF one_filed_ok e _ _ _ _ f, of 8]
    by (auto simp: one_entry_def entryNewL_def write_state_defs writeStateBit_def)
  then show ?thesis using n by blast
qed

end
