(* ===== verification/StreamHandler.thy ===== *)
theory StreamHandler
  imports EvictionRun "HOL-Library.Monad_Syntax"
begin

text \<open>
  The stream handler of the HTTP cache (\<open>CHttpCacheStreamHandler\<close>,
  cache/src/HttpCacheStreamHandler.cpp): it keeps the entries' headers and bodies, in memory or
  in the body files, and counts the bytes the cache occupies. The world of the eviction handler
  is extended by that count, the disk and the asynchronous writers of the entries. An operation
  takes the address of an entry; \<open>io\<close> holds what the file server, the volume and the heap
  answer during the call.
\<close>

record stream_world = ev_world +
  iContentSize :: "32 word"
  iCriticalLevel :: int
  disk :: "tdes16 \<Rightarrow> tdes8 option"
  writers :: "nat \<Rightarrow> writer option"

record io =
  ioVolume :: "int option"
  ioReplace :: bool
  ioOpen :: bool
  ioRead :: bool
  ioDelete :: bool
  ioWrites :: "(symerr \<times> nat) list"
  ioAllocs :: allocs
  ioHeaderAlloc :: bool
  ioRealloc :: bool

subsection \<open>File names\<close>

text \<open>
  \<open>GenerateNameLC\<close> (cache/src/HttpCacheUtil.cpp): directory, one hexadecimal digit and eight
  hexadecimal digits of the URL's CRC, which is \<open>crc32\<close> of the platform.
\<close>

definition KCacheSubdirCount :: "32 word" where "KCacheSubdirCount = 16"
definition KPathDelimiter :: "16 word" where "KPathDelimiter = 0x5C"

definition hexDigit :: "32 word \<Rightarrow> 16 word" where
  "hexDigit d = (if d < 10 then 48 + ucast d else 87 + ucast d)"

definition hex8 :: "32 word \<Rightarrow> tdes16" where
  "hex8 crc = map (\<lambda>i. hexDigit (drop_bit (28 - 4 * i) crc AND 15)) [0..<8]"

definition GenerateNameLC :: "(tdes8 \<Rightarrow> 32 word) \<Rightarrow> tdes8 \<Rightarrow> tdes16 \<Rightarrow> tdes16" where
  "GenerateNameLC crc32 aUrl aBaseDir =
    (let crc = crc32 aUrl; nibble = crc AND (KCacheSubdirCount - 1)
     in aBaseDir @ [hexDigit nibble] @ [KPathDelimiter] @ hex8 crc)"

definition GetHeaderFileName :: "tdes16 \<Rightarrow> tdes16" where
  "GetHeaderFileName aBodyFileName = aBodyFileName @ lit16 ''.h''"

subsection \<open>Files\<close>

definition deleteFile :: "io \<Rightarrow> tdes16 \<Rightarrow> 'a stream_world_scheme \<Rightarrow> 'a stream_world_scheme" where
  "deleteFile io name w = (if ioDelete io then w\<lparr>disk := (disk w)(name := None)\<rparr> else w)"

text \<open>A write at the end of the file; one that reports an error leaves the first \<open>k\<close> bytes there.\<close>

definition fileWrite :: "tdes8 \<Rightarrow> (symerr \<times> nat) list \<Rightarrow> tdes8 \<Rightarrow> symerr \<times> tdes8 \<times> (symerr \<times> nat) list" where
  "fileWrite d ws f =
    (case ws of [] \<Rightarrow> (KErrNone, f @ d, [])
     | (e, k) # ws' \<Rightarrow> if e = KErrNone then (KErrNone, f @ d, ws') else (e, f @ take k d, ws'))"

text \<open>The loop that writes the buffered segments, from segment \<open>i\<close>, until one fails.\<close>

function writeSegments :: "segbuf \<Rightarrow> nat \<Rightarrow> (symerr \<times> nat) list \<Rightarrow> tdes8 \<Rightarrow> (symerr \<times> tdes8 \<times> (symerr \<times> nat) list) option" where
  "writeSegments b i ws f =
    (if segCount b > i then
       (case segGetSegmentData b i of None \<Rightarrow> None
        | Some (d, i') \<Rightarrow>
          (case fileWrite d ws f of (e, f', ws') \<Rightarrow>
             if e = KErrNone then (if i < i' then writeSegments b i' ws' f' else None) else Some (e, f', ws')))
     else Some (KErrNone, f, ws))"
  by pat_completeness auto
termination by (relation "measure (\<lambda>(b, i, _). segCount b - i)") auto

declare writeSegments.simps [simp del]

definition OpenBodyFile :: "io \<Rightarrow> nat \<Rightarrow> 'a stream_world_scheme \<Rightarrow> bool option" where
  "OpenBodyFile io p w = do {
     e \<leftarrow> heap w p; name \<leftarrow> iFileName e;
     Some (ioOpen io \<and> disk w name \<noteq> None) }"

text \<open>The body file replaces the old one; the unused direct-I/O flag is left out.\<close>

definition CreateNewBodyFile :: "io \<Rightarrow> nat \<Rightarrow> 'a stream_world_scheme \<Rightarrow> (bool \<times> 'a stream_world_scheme) option" where
  "CreateNewBodyFile io p w = do {
     e \<leftarrow> heap w p; name \<leftarrow> iFileName e;
     if ioReplace io then Some (True, w\<lparr>disk := (disk w)(name \<mapsto> [])\<rparr>)
     else do {
       w1 \<leftarrow> entrySetBodySize 0 p w;
       Some (False, updEntry p (\<lambda>e. e\<lparr>iCacheBuffer := segReset (iCacheBuffer e)\<rparr>) w1) } }"

definition IsDiskSpaceAvailable :: "io \<Rightarrow> int \<Rightarrow> 'a stream_world_scheme \<Rightarrow> bool" where
  "IsDiskSpaceAvailable io aContentSize w =
    (case ioVolume io of None \<Rightarrow> False | Some iFree \<Rightarrow> iFree - aContentSize > iCriticalLevel w)"

subsection \<open>The operations\<close>

definition InitialiseCacheEntryL :: "io \<Rightarrow> (tdes8 \<Rightarrow> 32 word) \<Rightarrow> tdes16 \<Rightarrow> nat \<Rightarrow> 'a stream_world_scheme \<Rightarrow>
    'a stream_world_scheme option" where
  "InitialiseCacheEntryL io crc32 sessionPath p w = do {
     e \<leftarrow> heap w p;
     let name = GenerateNameLC crc32 (iUrl e) sessionPath;
     w1 \<leftarrow> entrySetState p ECacheInitialized (updEntry p (SetFileNameL name) w);
     Some (deleteFile io (GetHeaderFileName name) (deleteFile io name w1)) }"

text \<open>\<open>CancelBodyWrite\<close> on an entry of the world: the writer works on the entry itself.\<close>

definition worldCancelBodyWrite :: "nat \<Rightarrow> 'a stream_world_scheme \<Rightarrow> 'a stream_world_scheme option" where
  "worldCancelBodyWrite p w = do {
     e \<leftarrow> heap w p;
     case writers w p of
       None \<Rightarrow> Some w
     | Some wr \<Rightarrow>
       let wr' = CancelBodyWrite e (wr\<lparr>wrSource := e\<rparr>) in
       Some (w\<lparr>heap := (heap w)(p \<mapsto> wrSource wr'), writers := (writers w)(p \<mapsto> wr')\<rparr>) }"

definition entrySpaceOf :: "cache_entry \<Rightarrow> 32 word" where
  "entrySpaceOf e = iBodySize e + ucast (iHeaderSize e)"

definition shErase :: "io \<Rightarrow> nat \<Rightarrow> 'a stream_world_scheme \<Rightarrow> 'a stream_world_scheme option" where
  "shErase io p w = do {
     w1 \<leftarrow> worldCancelBodyWrite p w;
     e \<leftarrow> heap w1 p; name \<leftarrow> iFileName e;
     Some ((deleteFile io name w1)\<lparr>iContentSize := iContentSize w1 - iBodySize e - ucast (iHeaderSize e)\<rparr>) }"

definition HeadersL :: "nat \<Rightarrow> 'a stream_world_scheme \<Rightarrow> tdes8 option" where
  "HeadersL p w = do { e \<leftarrow> heap w p; HeaderData e }"

text \<open>The buffered body, segment by segment.\<close>

definition readBuffer :: "segbuf \<Rightarrow> tdes8 option" where
  "readBuffer b = segReadFrom (segCount b) b 0"

text \<open>\<open>NextChunkL\<close>: the outer \<open>None\<close> is a fault, the inner one the null result for an empty file.\<close>

definition NextChunkL :: "io \<Rightarrow> nat \<Rightarrow> 'a stream_world_scheme \<Rightarrow> tdes8 option option" where
  "NextChunkL io p w = do {
     e \<leftarrow> heap w p; name \<leftarrow> iFileName e;
     opened \<leftarrow> OpenBodyFile io p w;
     if \<not> BodyDataCached e \<and> opened then
       (case disk w name of None \<Rightarrow> None
        | Some f \<Rightarrow> Some (if f = [] then None else Some (if ioRead io then f else [])))
     else map_option Some (readBuffer (iCacheBuffer e)) }"

definition SaveHeaders :: "io \<Rightarrow> nat \<Rightarrow> tdes8 \<Rightarrow> 'a stream_world_scheme \<Rightarrow> (bool \<times> 'a stream_world_scheme) option" where
  "SaveHeaders io p aHeaderStr w = do {
     e \<leftarrow> heap w p;
     let headerLen = length aHeaderStr;
     if headerLen \<noteq> 0 \<and> IsDiskSpaceAvailable io (int headerLen) w then
       (case CreateHeaderBufferDataL (ioHeaderAlloc io) aHeaderStr e of (err, e1) \<Rightarrow>
          let w1 = updEntry p (\<lambda>_. e1) w in
          if err = KErrNone then Some (True, w1\<lparr>iContentSize := iContentSize w1 + ucast (iHeaderSize e1)\<rparr>)
          else Some (False, w1))
     else Some (False, w) }"

definition RemoveHeaders :: "nat \<Rightarrow> 'a stream_world_scheme \<Rightarrow> 'a stream_world_scheme option" where
  "RemoveHeaders p w = do {
     e \<leftarrow> heap w p;
     let w1 = w\<lparr>iContentSize := iContentSize w - ucast (iHeaderSize e)\<rparr>;
     Some (updEntry p (\<lambda>e. snd (CreateHeaderBufferL True 0 e)) w1) }"

text \<open>
  \<open>SaveBodyData\<close>: when the buffer cannot grow the file is created and what is buffered, then the
  unbuffered rest, is written to it.
\<close>

definition saveBodyDirect :: "io \<Rightarrow> nat \<Rightarrow> tdes8 \<Rightarrow> nat \<Rightarrow> 'a stream_world_scheme \<Rightarrow> (symerr \<times> 'a stream_world_scheme) option" where
  "saveBodyDirect io p aBodyStr remainder w = do {
     e \<leftarrow> heap w p; name \<leftarrow> iFileName e; f \<leftarrow> disk w name;
     let cacheBuffer = iCacheBuffer e;
     (saved, f1, ws1, buf1) \<leftarrow>
       (if IsDiskSpaceAvailable io (segLength cacheBuffer + int remainder) w
        then map_option (\<lambda>(err, f1, ws1). (err, f1, ws1, cacheBuffer)) (writeSegments cacheBuffer 0 (ioWrites io) f)
        else Some (KErrDiskFull, f, ioWrites io, segReset cacheBuffer));
     rest \<leftarrow> des_right aBodyStr remainder;
     let (saved2, f2) = (if saved = KErrNone then (case fileWrite rest ws1 f1 of (err, f2, _) \<Rightarrow> (err, f2)) else (saved, f1));
     Some (saved2, updEntry p (\<lambda>e. SetBodyDataCached False (e\<lparr>iCacheBuffer := buf1\<rparr>))
                     (w\<lparr>disk := (disk w)(name \<mapsto> f2)\<rparr>)) }"

definition SaveBodyData :: "io \<Rightarrow> nat \<Rightarrow> tdes8 \<Rightarrow> 'a stream_world_scheme \<Rightarrow> (bool \<times> 'a stream_world_scheme) option" where
  "SaveBodyData io p aBodyStr w = do {
     e \<leftarrow> heap w p;
     let newBodyLength = length aBodyStr;
     let finish = (\<lambda>bodySaved w1. do {
           e1 \<leftarrow> heap w1 p;
           w2 \<leftarrow> entrySetBodySize (iBodySize e1 + of_nat newBodyLength) p w1;
           Some (bodySaved = KErrNone, w2\<lparr>iContentSize := iContentSize w2 + of_nat newBodyLength\<rparr>) });
     if newBodyLength = 0 then Some (True, w)
     else do {
       (err, remainder, buf) \<leftarrow> segAppendL (ioAllocs io) (iCacheBuffer e) aBodyStr;
       let w1 = updEntry p (\<lambda>e. e\<lparr>iCacheBuffer := buf\<rparr>) w;
       if err = KErrNone then finish KErrNone (updEntry p (SetBodyDataCached True) w1)
       else do {
         (created, w2) \<leftarrow> CreateNewBodyFile io p w1;
         if \<not> created then Some (False, w2)
         else do {
           (saved, w3) \<leftarrow> saveBodyDirect io p aBodyStr remainder w2;
           finish saved w3 } } } }"

definition RemoveBodyData :: "io \<Rightarrow> nat \<Rightarrow> 'a stream_world_scheme \<Rightarrow> 'a stream_world_scheme option" where
  "RemoveBodyData io p w = do {
     e \<leftarrow> heap w p; name \<leftarrow> iFileName e;
     w1 \<leftarrow> entrySetBodySize 0 p (w\<lparr>iContentSize := iContentSize w - iBodySize e\<rparr>);
     let w2 = updEntry p (\<lambda>e. e\<lparr>iCacheBuffer := segReset (iCacheBuffer e)\<rparr>) w1;
     opened \<leftarrow> OpenBodyFile io p w2;
     Some (if opened then w2\<lparr>disk := (disk w2)(name \<mapsto> [])\<rparr> else w2) }"

definition FlushL :: "io \<Rightarrow> nat \<Rightarrow> 'a stream_world_scheme \<Rightarrow> (bool \<times> 'a stream_world_scheme) option" where
  "FlushL io p w = do {
     e \<leftarrow> heap w p; name \<leftarrow> iFileName e; hdr \<leftarrow> HeaderData e;
     let dataLength = segLength (iCacheBuffer e) + int (length hdr);
     if \<not> IsDiskSpaceAvailable io dataLength w then Some (False, w)
     else do {
       (created, w1) \<leftarrow> CreateNewBodyFile io p w;
       if \<not> created then Some (False, w1)
       else if BodyDataCached e then do {
         f \<leftarrow> disk w1 name;
         (saveOk, f1, _) \<leftarrow> writeSegments (iCacheBuffer e) 0 (ioWrites io) f;
         let w2 = w1\<lparr>disk := (disk w1)(name \<mapsto> f1)\<rparr>;
         Some (saveOk = KErrNone,
           updEntry p (\<lambda>e. SetBodyDataCached False (e\<lparr>iCacheBuffer := segReset (iCacheBuffer e)\<rparr>)) w2) }
       else Some (True, w1) } }"

text \<open>Nothing in \<open>FlushL\<close> leaves, so the trap of \<open>Flush\<close> only passes the result on.\<close>

definition Flush :: "io \<Rightarrow> nat \<Rightarrow> 'a stream_world_scheme \<Rightarrow> (bool \<times> 'a stream_world_scheme) option" where
  "Flush io p w = FlushL io p w"

text \<open>
  \<open>FlushAsync\<close>: the third component tells whether the caller's request status has been completed
  at once (\<open>Some True\<close>), will be completed by the writer (\<open>Some False\<close>), or by nobody (\<open>None\<close>).
\<close>

definition FlushAsync :: "io \<Rightarrow> nat \<Rightarrow> 'a stream_world_scheme \<Rightarrow> (bool \<times> bool option \<times> 'a stream_world_scheme) option" where
  "FlushAsync io p w = do {
     e \<leftarrow> heap w p; name \<leftarrow> iFileName e; hdr \<leftarrow> HeaderData e;
     let datalen = segLength (iCacheBuffer e) + int (length hdr);
     if datalen \<noteq> 0 \<and> segLength (iCacheBuffer e) \<noteq> 0 then do {
       (ready, w1) \<leftarrow> (if IsDiskSpaceAvailable io datalen w then CreateNewBodyFile io p w else Some (False, w));
       if ready then do {
         e1 \<leftarrow> heap w1 p;
         let (e2, wr) = WriteBodyDataAsync (ioHeaderAlloc io)
                          (e1\<lparr>iCacheBuffer := segCompress (ioRealloc io) (iCacheBuffer e1)\<rparr>);
         Some (True, map_option (\<lambda>_. False) wr,
           (updEntry p (\<lambda>_. SetDelayedWriteInProgress True e2) w1)\<lparr>writers := (writers w1)(p := wr)\<rparr>) }
       else Some (False, None, updEntry p (\<lambda>e. e\<lparr>iCacheBuffer := segReset (iCacheBuffer e)\<rparr>) w1) }
     else Some (True, Some True, w) }"

end
