(* ===== verification/StreamSpec.thy ===== *)
theory StreamSpec
  imports StreamHandler
begin

text \<open>
  What the stream handler promises: a body that is saved in pieces and flushed is read back
  unchanged, before and after the flush; every operation keeps the byte count in step with the
  entry it changes; and the inputs at which a body is lost or the count drifts.
\<close>

subsection \<open>Writing segments\<close>

lemma writeSegments_step:
  "segCount b > i \<Longrightarrow> writeSegments b i ws f =
    (case fileWrite (segData (iBufferList b ! i)) ws f of (e, f', ws') \<Rightarrow>
       if e = KErrNone then writeSegments b (Suc i) ws' f' else Some (e, f', ws'))"
  "\<not> segCount b > i \<Longrightarrow> writeSegments b i ws f = Some (KErrNone, f, ws)"
  by (subst writeSegments.simps, simp add: segGetSegmentData_def segCount_def case_prod_beta)
    (subst writeSegments.simps, simp)

lemma fileWrite_ok: "\<forall>w \<in> set ws. fst w = KErrNone \<Longrightarrow>
    \<exists>ws'. fileWrite d ws f = (KErrNone, f @ d, ws') \<and> (\<forall>w \<in> set ws'. fst w = KErrNone)"
  by (auto simp: fileWrite_def split: list.splits)

lemma writeSegments_ok:
  assumes "\<forall>w \<in> set ws. fst w = KErrNone"
  shows "\<exists>ws'. writeSegments b i ws f = Some (KErrNone, f @ concat (map segData (drop i (iBufferList b))), ws') \<and>
    (\<forall>w \<in> set ws'. fst w = KErrNone)"
  using assms
proof (induction "segCount b - i" arbitrary: i ws f)
  case 0
  then show ?case by (simp add: writeSegments_step segCount_def)
next
  case (Suc k)
  then have lt: "segCount b > i" by simp
  let ?d = "segData (iBufferList b ! i)"
  obtain ws1 where ws1: "fileWrite ?d ws f = (KErrNone, f @ ?d, ws1)" "\<forall>w \<in> set ws1. fst w = KErrNone"
    using fileWrite_ok [OF Suc.prems] by metis
  have k: "k = segCount b - Suc i" using Suc.hyps(2) by simp
  show ?case using Suc.hyps(1) [OF k ws1(2), of "f @ ?d"] ws1(1) lt
    by (simp add: writeSegments_step segCount_def flip: Cons_nth_drop_Suc)
qed

lemma readBuffer_contents [simp]: "readBuffer b = Some (segContents b)"
  using segReadFrom_contents [of b 0 "segCount b"] by (simp add: readBuffer_def segContents_def)

subsection \<open>A body saved in pieces\<close>

text \<open>The calls \<open>SaveBodyData\<close> makes while chunks of a body arrive.\<close>

fun saveChunks :: "io \<Rightarrow> nat \<Rightarrow> tdes8 list \<Rightarrow> 'a stream_world_scheme \<Rightarrow> (bool \<times> 'a stream_world_scheme) option" where
  "saveChunks io p [] w = Some (True, w)"
| "saveChunks io p (c # cs) w =
     (case SaveBodyData io p c w of None \<Rightarrow> None
      | Some (ok, w1) \<Rightarrow> if ok then saveChunks io p cs w1 else Some (False, w1))"

lemma segAppendL_ample:
  assumes "seg_ok b"
  shows "\<exists>b'. segAppendL [] b des = Some (KErrNone, 0, b') \<and> seg_ok b' \<and> segContents b' = segContents b @ des"
proof -
  obtain e r b' where *: "segAppendL [] b des = Some (e, r, b')" "seg_ok b'" "e = KErrNone \<and> r = 0"
    "segContents b' = segContents b @ take (length des - r) des"
    using segAppendL_spec [OF assms, of "[]" des] by blast
  then show ?thesis by simp
qed

text \<open>An entry outside the eviction buckets changes its size freely.\<close>

lemma entrySetBodySize_plain:
  "heap w p = Some e \<Longrightarrow> \<not> iEvictionCandidate e \<Longrightarrow>
   entrySetBodySize n p w = Some (updEntry p (\<lambda>e. e\<lparr>iBodySize := n\<rparr>) w)"
  by (simp add: entrySetBodySize_def)

lemma updEntry_world [simp]:
  "disk (updEntry p f w) = disk w" "iContentSize (updEntry p f w) = iContentSize w"
  "iCriticalLevel (updEntry p f w) = iCriticalLevel w" "writers (updEntry p f w) = writers w"
  by (simp_all add: updEntry_def)

lemma SaveBodyData_cached:
  assumes e: "heap w p = Some e" "\<not> iEvictionCandidate e" "seg_ok (iCacheBuffer e)" and io: "ioAllocs io = []"
  shows "\<exists>w' e'. SaveBodyData io p c w = Some (True, w') \<and> heap w' p = Some e' \<and> disk w' = disk w \<and>
    iCriticalLevel w' = iCriticalLevel w \<and>
    iContentSize w' = iContentSize w + of_nat (length c) \<and> seg_ok (iCacheBuffer e') \<and>
    segContents (iCacheBuffer e') = segContents (iCacheBuffer e) @ c \<and> iBodySize e' = iBodySize e + of_nat (length c) \<and>
    \<not> iEvictionCandidate e' \<and> iFileName e' = iFileName e \<and> iHeaderBuffer e' = iHeaderBuffer e \<and>
    iHeaderSize e' = iHeaderSize e \<and> (BodyDataCached e \<or> c \<noteq> [] \<longrightarrow> BodyDataCached e')"
proof (cases "c = []")
  case True
  then show ?thesis using e by (intro exI [of _ w] exI [of _ e]) (simp add: SaveBodyData_def)
next
  case False
  obtain b' where b': "segAppendL [] (iCacheBuffer e) c = Some (KErrNone, 0, b')" "seg_ok b'"
    "segContents b' = segContents (iCacheBuffer e) @ c"
    using segAppendL_ample [OF e(3)] by blast
  define e1 where "e1 = SetBodyDataCached True (e\<lparr>iCacheBuffer := b'\<rparr>)"
  define w1 where "w1 = updEntry p (SetBodyDataCached True) (updEntry p (\<lambda>e. e\<lparr>iCacheBuffer := b'\<rparr>) w)"
  define w' where "w' = (updEntry p (\<lambda>e. e\<lparr>iBodySize := iBodySize e1 + of_nat (length c)\<rparr>) w1)\<lparr>iContentSize :=
      iContentSize w + of_nat (length c)\<rparr>"
  have h1: "heap w1 p = Some e1" using e by (simp add: w1_def e1_def)
  have cand: "\<not> iEvictionCandidate e1" using e by (simp add: e1_def SetBodyDataCached_def setWriteStateBit_def)
  have run: "SaveBodyData io p c w = Some (True, w')"
    using False e b' io h1 entrySetBodySize_plain [OF h1 cand]
    by (simp add: SaveBodyData_def Let_def w1_def [symmetric] w'_def) (simp add: w1_def)
  show ?thesis
  proof (intro exI conjI)
    show "SaveBodyData io p c w = Some (True, w')" by (rule run)
    show "heap w' p = Some (e1\<lparr>iBodySize := iBodySize e1 + of_nat (length c)\<rparr>)" using h1 by (simp add: w'_def)
  qed (use b' e in \<open>auto simp: w'_def w1_def e1_def SetBodyDataCached_def setWriteStateBit_def BodyDataCached_def
        writeStateBit_def\<close>)
qed

lemma saveChunks_cached:
  assumes "heap w p = Some e" "\<not> iEvictionCandidate e" "seg_ok (iCacheBuffer e)" "ioAllocs io = []"
  shows "\<exists>w' e'. saveChunks io p cs w = Some (True, w') \<and> heap w' p = Some e' \<and> disk w' = disk w \<and>
    iCriticalLevel w' = iCriticalLevel w \<and>
    iContentSize w' = iContentSize w + of_nat (length (concat cs)) \<and> seg_ok (iCacheBuffer e') \<and>
    segContents (iCacheBuffer e') = segContents (iCacheBuffer e) @ concat cs \<and>
    iBodySize e' = iBodySize e + of_nat (length (concat cs)) \<and>
    \<not> iEvictionCandidate e' \<and> iFileName e' = iFileName e \<and> iHeaderBuffer e' = iHeaderBuffer e \<and>
    iHeaderSize e' = iHeaderSize e \<and> (BodyDataCached e \<or> concat cs \<noteq> [] \<longrightarrow> BodyDataCached e')"
  using assms
proof (induction cs arbitrary: w e)
  case Nil
  then show ?case by simp
next
  case (Cons c cs)
  obtain w1 e1 where 1: "SaveBodyData io p c w = Some (True, w1)" "heap w1 p = Some e1" "disk w1 = disk w"
    "iCriticalLevel w1 = iCriticalLevel w" "iContentSize w1 = iContentSize w + of_nat (length c)" "seg_ok (iCacheBuffer e1)"
    "segContents (iCacheBuffer e1) = segContents (iCacheBuffer e) @ c" "iBodySize e1 = iBodySize e + of_nat (length c)"
    "\<not> iEvictionCandidate e1" "iFileName e1 = iFileName e" "iHeaderBuffer e1 = iHeaderBuffer e"
    "iHeaderSize e1 = iHeaderSize e" "BodyDataCached e \<or> c \<noteq> [] \<longrightarrow> BodyDataCached e1"
    using SaveBodyData_cached [OF Cons.prems, of c] by metis
  from Cons.IH [OF 1(2,9,6) Cons.prems(4)] 1 show ?case by (auto simp: add.assoc)
qed

lemma FlushL_ok:
  assumes e: "heap w p = Some e" "iFileName e = Some name" "HeaderData e = Some hdr" "BodyDataCached e"
    and io: "ioReplace io" "\<forall>x \<in> set (ioWrites io). fst x = KErrNone"
      "IsDiskSpaceAvailable io (segLength (iCacheBuffer e) + int (length hdr)) w"
  shows "\<exists>w'. FlushL io p w = Some (True, w') \<and> disk w' = (disk w)(name \<mapsto> segContents (iCacheBuffer e)) \<and>
    iContentSize w' = iContentSize w \<and>
    heap w' = (heap w)(p \<mapsto> SetBodyDataCached False (e\<lparr>iCacheBuffer := segReset (iCacheBuffer e)\<rparr>))"
proof -
  define w1 where "w1 = w\<lparr>disk := (disk w)(name \<mapsto> [])\<rparr>"
  have c: "CreateNewBodyFile io p w = Some (True, w1)" using e io by (simp add: CreateNewBodyFile_def w1_def)
  obtain ws' where ws: "writeSegments (iCacheBuffer e) 0 (ioWrites io) [] = Some (KErrNone, segContents (iCacheBuffer e), ws')"
    using writeSegments_ok [OF io(2), of "iCacheBuffer e" 0 "[]"] by (auto simp: segContents_def)
  show ?thesis using e io(3) c ws
    by (simp add: FlushL_def Let_def w1_def fun_eq_iff updEntry_def)
qed

text \<open>
  A body that arrives in pieces, with the heap ample, is kept whole: read back before the
  flush it is the concatenation of the pieces, the flush writes exactly that to the file, and
  read back after the flush it is the same. The entry's size and the byte count grow by its length.
\<close>

theorem cached_body_roundtrip:
  assumes "heap w p = Some e" "\<not> iEvictionCandidate e" "seg_ok (iCacheBuffer e)" "segContents (iCacheBuffer e) = []"
    and "iFileName e = Some name" "HeaderData e = Some hdr" "concat cs \<noteq> []"
    and "ioAllocs io = []" "ioReplace io" "ioOpen io" "ioRead io" "\<forall>x \<in> set (ioWrites io). fst x = KErrNone"
    and "IsDiskSpaceAvailable io (int (length (concat cs)) + int (length hdr)) w"
  shows "\<exists>w1 w2. saveChunks io p cs w = Some (True, w1) \<and> NextChunkL io p w1 = Some (Some (concat cs)) \<and>
    Flush io p w1 = Some (True, w2) \<and> disk w2 name = Some (concat cs) \<and>
    NextChunkL io p w2 = Some (Some (concat cs)) \<and>
    map_option iBodySize (heap w2 p) = Some (iBodySize e + of_nat (length (concat cs))) \<and>
    iContentSize w2 = iContentSize w + of_nat (length (concat cs))"
proof -
  obtain w1 e1 where 1: "saveChunks io p cs w = Some (True, w1)" "heap w1 p = Some e1" "disk w1 = disk w"
    "iCriticalLevel w1 = iCriticalLevel w" "iContentSize w1 = iContentSize w + of_nat (length (concat cs))"
    "seg_ok (iCacheBuffer e1)" "segContents (iCacheBuffer e1) = concat cs"
    "iBodySize e1 = iBodySize e + of_nat (length (concat cs))" "iFileName e1 = Some name" "HeaderData e1 = Some hdr"
    "BodyDataCached e1"
    using saveChunks_cached [OF assms(1-3,8), of cs] assms(4-7) by (auto simp: HeaderData_def)
  have len: "segLength (iCacheBuffer e1) = int (length (concat cs))" using segLength_contents [OF 1(6)] 1(7) by simp
  have space: "IsDiskSpaceAvailable io (segLength (iCacheBuffer e1) + int (length hdr)) w1"
    using assms(13) 1(4) unfolding len IsDiskSpaceAvailable_def by (simp split: option.splits)
  obtain w2 where 2: "FlushL io p w1 = Some (True, w2)" "disk w2 = (disk w1)(name \<mapsto> segContents (iCacheBuffer e1))"
    "iContentSize w2 = iContentSize w1"
    "heap w2 = (heap w1)(p \<mapsto> SetBodyDataCached False (e1\<lparr>iCacheBuffer := segReset (iCacheBuffer e1)\<rparr>))"
    using FlushL_ok [OF 1(2,9,10,11) assms(9,12) space] by blast
  have "NextChunkL io p w1 = Some (Some (concat cs))"
    using 1 by (simp add: NextChunkL_def OpenBodyFile_def)
  moreover have "NextChunkL io p w2 = Some (Some (concat cs))"
    using 1 2 assms(7,10,11)
    by (simp add: NextChunkL_def OpenBodyFile_def SetBodyDataCached_def setWriteStateBit_def BodyDataCached_def
        writeStateBit_def Let_def bit_eq_iff bit_simps)
  ultimately show ?thesis using 1 2
    by (simp add: Flush_def SetBodyDataCached_def setWriteStateBit_def Let_def)
qed

text \<open>A world with one entry at address 1, with a small buffer, and the answers of calm calls.\<close>

definition calm :: io where
  "calm = \<lparr>ioVolume = Some 1000000, ioReplace = True, ioOpen = True, ioRead = True, ioDelete = True, ioWrites = [],
     ioAllocs = [], ioHeaderAlloc = True, ioRealloc = True\<rparr>"

definition demo_entry :: cache_entry where
  "demo_entry = (entryNewL [104])\<lparr>iFileName := Some [102], iState := ECacheResponding, iRef := 1,
     iCacheBuffer := segNewL 4 2\<rparr>"

definition demo_world :: stream_world where
  "demo_world = \<lparr>heap = [1 \<mapsto> demo_entry], iBuckets = evConstructL, deleteNotices = [], iContentSize = 0,
     iCriticalLevel = 100, disk = Map.empty, writers = Map.empty\<rparr>"

theorem cached_body_roundtrip_witness:
  "\<exists>w1 w2. saveChunks calm 1 [[1, 2, 3], [4, 5, 6]] demo_world = Some (True, w1) \<and>
     Flush calm 1 w1 = Some (True, w2) \<and> NextChunkL calm 1 w2 = Some (Some [1, 2, 3, 4, 5, 6])"
  using cached_body_roundtrip [of demo_world 1 demo_entry "[102]" "[]" "[[1, 2, 3], [4, 5, 6]]" calm]
  by (auto simp: demo_world_def demo_entry_def calm_def entryNewL_def segNewL_def seg_ok_def segs_ok_def segContents_def
      HeaderData_def IsDiskSpaceAvailable_def)

subsection \<open>The byte count\<close>

lemma evRemove_frame:
  "evRemove p w = Some w' \<Longrightarrow> heap w' = heap w \<and> iContentSize w' = iContentSize w \<and> disk w' = disk w \<and> writers w' = writers w"
  by (auto simp: evRemove_def bucketRemove_def split: option.splits if_splits)

lemma entrySetBodySize_frame:
  assumes "entrySetBodySize n p w = Some w'"
  shows "\<exists>e e'. heap w p = Some e \<and> heap w' p = Some e' \<and> iBodySize e' = n \<and> iHeaderSize e' = iHeaderSize e \<and>
    iFileName e' = iFileName e \<and> iCacheBuffer e' = iCacheBuffer e \<and>
    iContentSize w' = iContentSize w \<and> disk w' = disk w"
  using assms by (auto simp: entrySetBodySize_def dest!: evRemove_frame split: option.splits if_splits)

lemma entrySpace_Some [simp]: "heap w p = Some e \<Longrightarrow> entrySpace w p = iBodySize e + ucast (iHeaderSize e)"
  by (simp add: entrySpace_def)

lemma SetBodyDataCached_fields [simp]:
  "iBodySize (SetBodyDataCached b e) = iBodySize e" "iHeaderSize (SetBodyDataCached b e) = iHeaderSize e"
  "iFileName (SetBodyDataCached b e) = iFileName e" "iState (SetBodyDataCached b e) = iState e"
  "iUrl (SetBodyDataCached b e) = iUrl e" "iEvictionCandidate (SetBodyDataCached b e) = iEvictionCandidate e"
  "iRef (SetBodyDataCached b e) = iRef e" "iHeaderBuffer (SetBodyDataCached b e) = iHeaderBuffer e"
  by (simp_all add: SetBodyDataCached_def setWriteStateBit_def Let_def)

lemma saveBodyDirect_frame:
  assumes "saveBodyDirect io p c r w = Some (s, w')"
  shows "\<exists>e e'. heap w p = Some e \<and> heap w' p = Some e' \<and> iBodySize e' = iBodySize e \<and> iHeaderSize e' = iHeaderSize e \<and>
    iContentSize w' = iContentSize w"
  using assms by (auto simp: saveBodyDirect_def Let_def case_prod_beta split: Option.bind_splits)

lemma SaveBodyData_count:
  assumes "SaveBodyData io p c w = Some (ok, w')" "ioReplace io" "iContentSize w = others + entrySpace w p"
  shows "iContentSize w' = others + entrySpace w' p"
proof (cases "c = []")
  case True
  then show ?thesis using assms by (auto simp: SaveBodyData_def split: Option.bind_splits)
next
  case False
  obtain e where e: "heap w p = Some e" using assms(1) by (auto simp: SaveBodyData_def split: Option.bind_splits)
  have "\<exists>w1 e1 w2. heap w1 p = Some e1 \<and> iBodySize e1 = iBodySize e \<and> iHeaderSize e1 = iHeaderSize e \<and>
      iContentSize w1 = iContentSize w \<and> entrySetBodySize (iBodySize e1 + of_nat (length c)) p w1 = Some w2 \<and>
      w' = w2\<lparr>iContentSize := iContentSize w2 + of_nat (length c)\<rparr>"
  proof -
    obtain err r buf where a: "segAppendL (ioAllocs io) (iCacheBuffer e) c = Some (err, r, buf)"
      using assms(1) e False by (auto simp: SaveBodyData_def Let_def split: Option.bind_splits)
    let ?w1 = "updEntry p (\<lambda>e. e\<lparr>iCacheBuffer := buf\<rparr>) w"
    show ?thesis
    proof (cases "err = KErrNone")
      case True
      then show ?thesis using assms(1) e a False
        by (intro exI [of _ "updEntry p (SetBodyDataCached True) ?w1"])
          (auto simp: SaveBodyData_def Let_def split: Option.bind_splits)
    next
      case err: False
      then obtain w2 saved w3 where w2: "CreateNewBodyFile io p ?w1 = Some (True, w2)"
        "saveBodyDirect io p c r w2 = Some (saved, w3)"
        "(do { e1 \<leftarrow> heap w3 p; w4 \<leftarrow> entrySetBodySize (iBodySize e1 + of_nat (length c)) p w3;
            Some (saved = KErrNone, w4\<lparr>iContentSize := iContentSize w4 + of_nat (length c)\<rparr>) }) = Some (ok, w')"
        using assms(1,2) e a False
        by (auto simp: SaveBodyData_def Let_def CreateNewBodyFile_def split: Option.bind_splits)
      have "heap w2 p = Some (e\<lparr>iCacheBuffer := buf\<rparr>)" "iContentSize w2 = iContentSize w"
        using w2(1) e assms(2) by (auto simp: CreateNewBodyFile_def split: Option.bind_splits)
      then show ?thesis using saveBodyDirect_frame [OF w2(2)] w2(3)
        by (intro exI [of _ w3]) (auto split: Option.bind_splits)
    qed
  qed
  then show ?thesis using entrySetBodySize_frame assms(3) e by fastforce
qed

lemma RemoveBodyData_count:
  assumes "RemoveBodyData io p w = Some w'" "iContentSize w = others + entrySpace w p"
  shows "iContentSize w' = others + entrySpace w' p"
proof -
  obtain e w1 where e: "heap w p = Some e" "entrySetBodySize 0 p (w\<lparr>iContentSize := iContentSize w - iBodySize e\<rparr>) = Some w1"
    "iContentSize w' = iContentSize w1" "heap w' = heap (updEntry p (\<lambda>e. e\<lparr>iCacheBuffer := segReset (iCacheBuffer e)\<rparr>) w1)"
    using assms(1) by (auto simp: RemoveBodyData_def Let_def split: Option.bind_splits)
  show ?thesis using entrySetBodySize_frame [OF e(2)] e assms(2) by (auto simp: entrySpace_def)
qed

lemma RemoveHeaders_count:
  assumes "RemoveHeaders p w = Some w'" "iContentSize w = others + entrySpace w p"
  shows "iContentSize w' = others + entrySpace w' p"
  using assms by (auto simp: RemoveHeaders_def CreateHeaderBufferL_def SetHeaderSize_def entrySpace_def
      split: Option.bind_splits)

lemma SaveHeaders_count:
  assumes "SaveHeaders io p h w = Some (ok, w')" "iContentSize w = others + entrySpace w p"
    "map_option iHeaderSize (heap w p) = Some 0"
  shows "iContentSize w' = others + entrySpace w' p"
  using assms by (auto simp: SaveHeaders_def CreateHeaderBufferDataL_def SetHeaderSize_def entrySpace_def Let_def
      split: Option.bind_splits if_splits)

lemma worldCancelBodyWrite_frame:
  assumes "worldCancelBodyWrite p w = Some w'"
  shows "\<exists>e e'. heap w p = Some e \<and> heap w' p = Some e' \<and> iBodySize e' = iBodySize e \<and> iHeaderSize e' = iHeaderSize e \<and>
    iState e' = iState e \<and> iUrl e' = iUrl e \<and> iEvictionCandidate e' = iEvictionCandidate e \<and> iRef e' = iRef e \<and>
    iFileName e' = iFileName e \<and> iContentSize w' = iContentSize w \<and> (\<forall>q. q \<noteq> p \<longrightarrow> heap w' q = heap w q) \<and>
    iBuckets w' = iBuckets w \<and> disk w' = disk w"
  using assms by (auto simp: worldCancelBodyWrite_def CancelBodyWrite_def wrDoCancel_def BodyWriteComplete_def
      SetBodyDataPartiallyWritten_def setWriteStateBit_def Let_def split: Option.bind_splits option.splits if_splits)

lemma shErase_count:
  assumes "shErase io p w = Some w'" "iContentSize w = others + entrySpace w p"
  shows "iContentSize w' = others"
proof -
  obtain w1 e where w1: "worldCancelBodyWrite p w = Some w1" "heap w1 p = Some e"
    "iContentSize w' = iContentSize w1 - iBodySize e - ucast (iHeaderSize e)"
    using assms(1) by (auto simp: shErase_def deleteFile_def split: Option.bind_splits)
  show ?thesis using worldCancelBodyWrite_frame [OF w1(1)] w1 assms(2) by auto
qed

lemma Flush_count:
  assumes "Flush io p w = Some (ok, w')" "ioReplace io" "iContentSize w = others + entrySpace w p"
  shows "iContentSize w' = others + entrySpace w' p"
  using assms by (auto simp: Flush_def FlushL_def CreateNewBodyFile_def Let_def entrySpace_def split: Option.bind_splits if_splits)

text \<open>
  C30: the byte count stays the sum of the sizes of the entries through every operation on an
  entry, as long as the body file can be created: what the entry gains or loses the count gains or
  loses, and erasing the entry takes exactly its share off. \<open>others\<close> is the share of the other
  entries; headers are saved after the old ones were removed.
\<close>

theorem byte_count_preserved:
  assumes "ioReplace io" "iContentSize w = others + entrySpace w p"
  shows "(SaveBodyData io p c w = Some (ok, w') \<longrightarrow> iContentSize w' = others + entrySpace w' p) \<and>
    (RemoveBodyData io p w = Some w' \<longrightarrow> iContentSize w' = others + entrySpace w' p) \<and>
    (RemoveHeaders p w = Some w' \<longrightarrow> iContentSize w' = others + entrySpace w' p) \<and>
    (map_option iHeaderSize (heap w p) = Some 0 \<longrightarrow> SaveHeaders io p c w = Some (ok, w') \<longrightarrow>
       iContentSize w' = others + entrySpace w' p) \<and>
    (Flush io p w = Some (ok, w') \<longrightarrow> iContentSize w' = others + entrySpace w' p) \<and>
    (shErase io p w = Some w' \<longrightarrow> iContentSize w' = others)"
  using SaveBodyData_count [OF _ assms] RemoveBodyData_count [OF _ assms(2)] RemoveHeaders_count [OF _ assms(2)]
    SaveHeaders_count [OF _ assms(2)] Flush_count [OF _ assms] shErase_count [OF _ assms(2)]
  by blast

definition demo_full :: stream_world where
  "demo_full = demo_world\<lparr>heap := [1 \<mapsto> demo_entry\<lparr>iBodySize := 5, iHeaderSize := 3, iHeaderBuffer := Some [9, 9, 9]\<rparr>],
     iContentSize := 20\<rparr>"

theorem byte_count_preserved_witness:
  "\<exists>w'. RemoveHeaders 1 demo_full = Some w' \<and> iContentSize w' = 12 + entrySpace w' 1"
proof -
  have "iContentSize demo_full = 12 + entrySpace demo_full 1" by (simp add: demo_full_def)
  moreover obtain w' where "RemoveHeaders 1 demo_full = Some w'" by (simp add: RemoveHeaders_def demo_full_def)
  ultimately show ?thesis
    using byte_count_preserved [of calm demo_full 12 1 "[]" True w'] by (auto simp: calm_def)
qed

subsection \<open>Where a body or the count is lost\<close>

text \<open>What evaluates the operations on a concrete world.\<close>

lemmas stream_eval = SaveBodyData_def CreateNewBodyFile_def saveBodyDirect_def FlushL_def Flush_def
  IsDiskSpaceAvailable_def segAppendL_def segNewL_def writeSegments_step fileWrite_def segLength_def
  segReset_def segCount_def des_right_def entrySetBodySize_def updEntry_def SetBodyDataCached_def
  setWriteStateBit_def BodyDataCached_def writeStateBit_def HeaderData_def entryNewL_def Let_def
  segAppendLoop.simps [of _ _ _ _ _ 0]

text \<open>
  When the heap is short the first piece of a body goes to the file at once, but a later
  piece that can be buffered again makes the final flush replace the file: the file then holds the
  later piece only, while every call reported success and the entry's size counts both.
\<close>

theorem low_memory_body_lost:
  "\<exists>w1 w2 w3. SaveBodyData (calm\<lparr>ioAllocs := [False]\<rparr>) 1 [1, 2] demo_world = Some (True, w1) \<and>
     disk w1 [102] = Some [1, 2] \<and> SaveBodyData calm 1 [3] w1 = Some (True, w2) \<and>
     Flush calm 1 w2 = Some (True, w3) \<and> disk w3 [102] = Some [3] \<and> map_option iBodySize (heap w3 1) = Some 3"
  by (simp add: demo_world_def demo_entry_def calm_def stream_eval)

text \<open>
  When the heap is short and the body file cannot be created, the size of the entry is set to
  0 without taking its bytes off the count: after the entry is erased the count is 17 although the
  other entries take 12.
\<close>

theorem failed_file_creation_drifts:
  "iContentSize demo_full = 12 + entrySpace demo_full 1 \<and>
   (\<exists>w1 w2. SaveBodyData (calm\<lparr>ioAllocs := [False], ioReplace := False\<rparr>) 1 [7] demo_full = Some (False, w1) \<and>
     shErase calm 1 w1 = Some w2 \<and> iContentSize w2 = 17)"
  by (simp add: demo_full_def demo_world_def demo_entry_def calm_def stream_eval entrySpace_def shErase_def
      worldCancelBodyWrite_def deleteFile_def)

end
