(* ===== verification/NextPrime.thy ===== *)
theory NextPrime
  imports Prelude
begin

text \<open>
  The sizes of the lookup table (\<open>NextPrime\<close>, cache/src/HttpCacheLookupTable.cpp) and the
  number theory its probing rests on: the function on 32-bit numbers, what it returns, and that
  the squares of \<open>0 .. n div 2\<close> are distinct modulo a prime \<open>n\<close>.
\<close>

definition isprime :: "nat \<Rightarrow> bool" where
  "isprime n \<longleftrightarrow> 1 < n \<and> (\<forall>d. d dvd n \<longrightarrow> d = 1 \<or> d = n)"

lemma isprime_dvd_mult:
  assumes "isprime n" "n dvd a * b"
  shows "n dvd a \<or> n dvd b"
proof (rule ccontr)
  assume "\<not> ?thesis"
  then have "\<not> n dvd a" "\<not> n dvd b" by auto
  then have "gcd n a \<noteq> n" by (metis gcd_dvd2)
  then have "gcd n a = 1" using assms(1) by (metis gcd_dvd1 isprime_def)
  then have "coprime n a" by (simp add: coprime_iff_gcd_eq_1)
  then have "n dvd b" using assms(2) by (simp add: coprime_dvd_mult_right_iff)
  with \<open>\<not> n dvd b\<close> show False by simp
qed

lemma isprime_code: "isprime n \<longleftrightarrow> 1 < n \<and> (\<forall>d \<in> {2..<n}. \<not> d dvd n)"
proof -
  have "d = 1 \<or> d = n" if "1 < n" "\<forall>d \<in> {2..<n}. \<not> d dvd n" "d dvd n" for d
  proof -
    have "d \<le> n" "0 < d" using that dvd_imp_le [of d n] by (auto intro: Nat.gr0I)
    then show ?thesis using that(2,3) by force
  qed
  then show ?thesis unfolding isprime_def by force
qed

lemma squares_distinct_lt:
  assumes "isprime n" "c < d" "d \<le> n div 2" "2 < n"
  shows "(h + c * c) mod n \<noteq> (h + d * d) mod n"
proof
  assume eq: "(h + c * c) mod n = (h + d * d) mod n"
  have "h + c * c \<le> h + d * d" using assms(2) by (simp add: mult_mono)
  then have "n dvd (h + d * d) - (h + c * c)"
    using eq mod_eq_dvd_iff_nat [of "h + c * c" "h + d * d" n] by simp
  then have "n dvd d * d - c * c" by simp
  moreover have "d * d - c * c = (d - c) * (d + c)"
    using assms(2) by (simp add: diff_mult_distrib add_mult_distrib2 algebra_simps)
  ultimately have "n dvd d - c \<or> n dvd d + c" using isprime_dvd_mult [OF assms(1)] by metis
  moreover have "0 < d - c" "d - c < n" using assms by auto
  moreover have "d + c < n" "0 < d + c" using assms by auto
  ultimately show False by (auto dest: dvd_imp_le)
qed

lemma squares_distinct:
  assumes "isprime n" "2 < n"
  shows "inj_on (\<lambda>c. (h + c * c) mod n) {0..n div 2}"
proof (rule inj_onI)
  fix c d assume "c \<in> {0..n div 2}" "d \<in> {0..n div 2}" "(h + c * c) mod n = (h + d * d) mod n"
  then show "c = d"
    using squares_distinct_lt [OF assms(1), of c d h] squares_distinct_lt [OF assms(1), of d c h] assms(2)
    by (cases c d rule: linorder_cases) auto
qed

subsection \<open>The function\<close>

text \<open>
  The two loops are one: a divisor moves to the next odd number and restarts the divisors at 3
  (\<open>i = 1; continue;\<close>). All arithmetic is on 32 bits.
\<close>

partial_function (option) nextPrimeLoop :: "32 word \<Rightarrow> 32 word \<Rightarrow> 32 word option" where
  "nextPrimeLoop aNum i =
    (if i * i \<le> aNum then
       if aNum mod i = 0 then nextPrimeLoop (aNum + 2) 3
       else nextPrimeLoop aNum (i + 2)
     else Some aNum)"

definition NextPrime :: "32 word \<Rightarrow> 32 word option" where
  "NextPrime aNum = nextPrimeLoop (if aNum mod 2 = 0 then aNum + 1 else aNum) 3"

lemma prime_by_trial:
  assumes "odd n" "3 \<le> n" "\<forall>d. odd d \<longrightarrow> 3 \<le> d \<longrightarrow> d < i \<longrightarrow> \<not> d dvd n" "n < i * i"
  shows "isprime n"
  unfolding isprime_def
proof (intro conjI allI impI)
  show "1 < n" using assms(2) by simp
  fix d assume d: "d dvd n"
  then obtain e where e: "n = d * e" by blast
  show "d = 1 \<or> d = n"
  proof (rule ccontr)
    assume "\<not> (d = 1 \<or> d = n)"
    then have "d \<noteq> 1" "e \<noteq> 1" using e by auto
    moreover have "odd d" "odd e" using assms(1) e by auto
    moreover have "d \<noteq> 0" "e \<noteq> 0" using assms(2) e by (auto intro: Nat.gr0I)
    ultimately have "3 \<le> d" "3 \<le> e" by (auto elim!: oddE)
    moreover have "d < i \<or> e < i"
    proof (rule ccontr)
      assume "\<not> (d < i \<or> e < i)"
      then have "i * i \<le> d * e" by (simp add: mult_mono)
      then show False using assms(4) e by simp
    qed
    ultimately show False using assms(3) \<open>odd d\<close> \<open>odd e\<close> e by auto
  qed
qed

lemma unat_add_small: "unat a + k < 2 ^ 32 \<Longrightarrow> k < 2 ^ 32 \<Longrightarrow> unat (a + of_nat k :: 32 word) = unat a + k"
  by (simp add: unat_word_ariths unat_of_nat)

lemma unat_sq_small: "unat a < 2 ^ 16 \<Longrightarrow> unat (a * a :: 32 word) = unat a * unat a"
proof -
  assume "unat a < 2 ^ 16"
  then have "unat a * unat a < 2 ^ 16 * 2 ^ 16" by (intro mult_strict_mono) auto
  then show ?thesis by (simp add: unat_word_ariths)
qed

lemma isprime_odd: "isprime r \<Longrightarrow> 3 \<le> r \<Longrightarrow> odd r"
  unfolding isprime_def by (metis One_nat_def Suc_1 Suc_n_not_le_n numeral_3_eq_3 numeral_eq_one_iff semiring_norm(85))

text \<open>
  The loop finds the least prime: \<open>p\<close> is a prime not below the candidate and small enough for
  the 32-bit squares.
\<close>

definition trial_state :: "32 word \<Rightarrow> 32 word \<Rightarrow> bool" where
  "trial_state a i \<longleftrightarrow> odd (unat a) \<and> 3 \<le> unat a \<and> odd (unat i) \<and> 3 \<le> unat i \<and> unat i \<le> unat a \<and>
     unat i < 2 ^ 16 \<and> (\<forall>d. odd d \<longrightarrow> 3 \<le> d \<longrightarrow> d < unat i \<longrightarrow> \<not> d dvd unat a)"

definition least_prime_from :: "nat \<Rightarrow> nat \<Rightarrow> bool" where
  "least_prime_from a q \<longleftrightarrow> isprime q \<and> a \<le> q \<and> (\<forall>r. isprime r \<longrightarrow> a \<le> r \<longrightarrow> q \<le> r)"

lemma nextPrimeLoop_least:
  assumes p: "isprime p" "p < 2 ^ 31"
  shows "unat a \<le> p \<Longrightarrow> trial_state a i \<Longrightarrow>
    \<exists>q. nextPrimeLoop a i = Some q \<and> least_prime_from (unat a) (unat q)"
proof (induction "p - unat a" arbitrary: a i rule: less_induct)
  case (less a)
  note outer = less.hyps
  from less.prems show ?case
  proof (induction "unat a - unat i" arbitrary: i rule: less_induct)
    case (less i)
    have st: "odd (unat a)" "3 \<le> unat a" "odd (unat i)" "3 \<le> unat i" "unat i \<le> unat a" "unat i < 2 ^ 16"
        "\<forall>d. odd d \<longrightarrow> 3 \<le> d \<longrightarrow> d < unat i \<longrightarrow> \<not> d dvd unat a"
      using less.prems(2) by (simp_all add: trial_state_def)
    have sq: "i * i \<le> a \<longleftrightarrow> unat i * unat i \<le> unat a"
      using unat_sq_small [OF st(6)] by (simp add: word_le_nat_alt)
    show ?case
    proof (cases "unat i * unat i \<le> unat a")
      case False
      then have "isprime (unat a)" using prime_by_trial [OF st(1,2,7)] by simp
      then have "least_prime_from (unat a) (unat a)" by (simp add: least_prime_from_def)
      moreover have "nextPrimeLoop a i = Some a" using sq False by (subst nextPrimeLoop.simps) simp
      ultimately show ?thesis by blast
    next
      case True
      have small: "unat i < 2 ^ 16 - 2"
      proof (rule ccontr)
        assume "\<not> unat i < 2 ^ 16 - 2"
        then have "(2 ^ 16 - 2) * (2 ^ 16 - 2) \<le> unat i * unat i" by (intro mult_mono) auto
        then show False using True less.prems(1) p(2) by simp
      qed
      have lt: "unat i + 2 \<le> unat a"
      proof -
        have "unat i * 3 \<le> unat i * unat i" using st(4) by simp
        then show ?thesis using True st(4) by linarith
      qed
      have mod0: "a mod i = 0 \<longleftrightarrow> unat i dvd unat a"
        by (metis dvd_eq_mod_eq_0 unat_eq_0 unat_mod_distrib)
      show ?thesis
      proof (cases "unat i dvd unat a")
        case False
        have i2: "unat (i + 2) = unat i + 2" using unat_add_small [of i 2] small by simp
        have "\<not> d dvd unat a" if "odd d" "3 \<le> d" "d < unat i + 2" for d
        proof -
          have "d < unat i \<or> d = unat i" using that st(3) by (cases "d = unat i + 1") auto
          then show ?thesis using st(7) that False by blast
        qed
        then have "trial_state a (i + 2)" using st lt i2 small by (simp add: trial_state_def)
        moreover have "unat a - unat (i + 2) < unat a - unat i" using i2 lt by simp
        ultimately have "\<exists>q. nextPrimeLoop a (i + 2) = Some q \<and> least_prime_from (unat a) (unat q)"
          using less.hyps less.prems(1) by blast
        moreover have "nextPrimeLoop a i = nextPrimeLoop a (i + 2)"
          using sq True mod0 False by (subst nextPrimeLoop.simps) simp
        ultimately show ?thesis by simp
      next
        case d: True
        have np: "\<not> isprime (unat a)" using d lt st(4) by (auto simp: isprime_def)
        then have "unat a < p" using less.prems(1) p(1) by (metis le_neq_implies_less)
        moreover have "odd p" using isprime_odd p(1) less.prems(1) st(2) by simp
        ultimately have a2: "unat a + 2 \<le> p" using st(1) by (metis Suc_leI add_2_eq_Suc' even_Suc le_neq_implies_less)
        have ua: "unat (a + 2) = unat a + 2" using unat_add_small [of a 2] a2 p(2) by simp
        have "trial_state (a + 2) 3" using st ua by (simp add: trial_state_def)
        moreover have "p - unat (a + 2) < p - unat a" using ua a2 by simp
        ultimately obtain q where q: "nextPrimeLoop (a + 2) 3 = Some q" "least_prime_from (unat (a + 2)) (unat q)"
          using outer [of "a + 2" 3] ua a2 by auto
        have "unat a + 2 \<le> r" if "isprime r" "unat a \<le> r" for r
        proof -
          have "r \<noteq> unat a" using that np by auto
          moreover have "r \<noteq> unat a + 1" using isprime_odd [OF that(1)] that(2) st by auto
          ultimately show ?thesis using that(2) by linarith
        qed
        then have "least_prime_from (unat a) (unat q)" using q(2) ua by (auto simp: least_prime_from_def)
        moreover have "nextPrimeLoop a i = nextPrimeLoop (a + 2) 3"
          using sq True mod0 d by (subst nextPrimeLoop.simps) simp
        ultimately show ?thesis using q(1) by simp
      qed
    qed
  qed
qed

lemma mod_2_word: "(a :: 32 word) mod 2 = 0 \<longleftrightarrow> even (unat a)"
proof -
  have "unat (a mod 2) = unat a mod 2" by (simp add: unat_mod_distrib)
  then show ?thesis by (metis even_iff_mod_2_eq_zero unat_eq_0)
qed

lemma NextPrime_least_gen:
  assumes "isprime p" "p < 2 ^ 31" "unat a \<le> p" "3 \<le> unat a"
  shows "\<exists>q. NextPrime a = Some q \<and> least_prime_from (unat a) (unat q)"
proof (cases "even (unat a)")
  case False
  have "a mod 2 \<noteq> 0" using False by (simp add: mod_2_word)
  moreover have "trial_state a 3" using False assms(4) by (simp add: trial_state_def)
  ultimately show ?thesis using nextPrimeLoop_least [OF assms(1,2,3)] by (simp add: NextPrime_def)
next
  case True
  have odd: "odd p" using isprime_odd assms by simp
  have m: "a mod 2 = 0" using True by (simp add: mod_2_word)
  have "unat a + 1 \<le> p" using True odd assms(3) by (metis Suc_eq_plus1 Suc_leI le_neq_implies_less)
  then have u: "unat (a + 1) = unat a + 1" using unat_add_small [of a 1] assms(2) by simp
  have "trial_state (a + 1) 3" using True assms(4) u by (simp add: trial_state_def)
  then obtain q where q: "NextPrime a = Some q" "least_prime_from (unat (a + 1)) (unat q)"
    using nextPrimeLoop_least [OF assms(1,2), of "a + 1" 3] u m \<open>unat a + 1 \<le> p\<close> by (auto simp: NextPrime_def)
  moreover have "unat a + 1 \<le> r" if "isprime r" "unat a \<le> r" for r
    using isprime_odd [OF that(1)] that(2) True assms(4) by (cases "r = unat a") auto
  ultimately show ?thesis using u by (auto simp: least_prime_from_def)
qed

text \<open>
  When some prime below \<open>2 ^ 31\<close> is not below the argument, the search for the next table
  size ends, and its result is the least prime that is at least the argument.
\<close>

theorem NextPrime_least:
  assumes "isprime p" "p < 2 ^ 31" "unat a \<le> p" "3 \<le> unat a"
  shows "\<exists>q. NextPrime a = Some q \<and> least_prime_from (unat a) (unat q)"
  using NextPrime_least_gen [OF assms] .

theorem NextPrime_least_witness: "\<exists>q. NextPrime 434 = Some q \<and> least_prime_from 434 (unat q)"
proof -
  have "isprime 439" by (simp add: isprime_code atLeastLessThan_nat_numeral)
  then show ?thesis using NextPrime_least [of 439 434] by simp
qed

end
