(* ===== verification/Probing.thy ===== *)
theory Probing
  imports NextPrime
begin

text \<open>
  The open-addressed table of cache entries (\<open>CHttpCacheLookupTable\<close>,
  cache/src/HttpCacheLookupTable.cpp), on its array of slots: the hash of a URL, the quadratic
  probing of \<open>Probe\<close> for insertion and for lookup, and \<open>ReHashL\<close>. A slot is NULL, the
  deleted mark \<open>0xffffffff\<close> or an entry's address; \<open>urlOf\<close> reads the URL of the entry at an
  address, and a lookup that meets a dangling address faults (\<open>None\<close>). \<open>fold_ch\<close> is the
  platform's case folding. The table is built with a positive size and only grows.
\<close>

datatype slot = SNull | SDeleted | SEntry nat

definition KHashPHI :: "32 word" where "KHashPHI = 0x9e3779b9"
definition KHashStringLength :: nat where "KHashStringLength = 16"
definition KHttpCacheLookupTableSize :: nat where "KHttpCacheLookupTableSize = 217"

definition tblConstructL :: "slot list" where
  "tblConstructL = replicate KHttpCacheLookupTableSize SNull"

definition hashMix :: "32 word \<Rightarrow> 32 word \<Rightarrow> 32 word" where
  "hashMix h x = (let h = h + x; h = h + push_bit 10 h in h XOR push_bit 6 h)"

text \<open>
  \<open>HashUrl\<close>: the loop runs from the last character down to index \<open>len - hashStringLength + 1\<close>.
\<close>

definition HashUrl :: "nat \<Rightarrow> tdes8 \<Rightarrow> nat" where
  "HashUrl count aUrl =
    (let len = length aUrl;
         h = hashMix KHashPHI (of_nat len);
         h = (if len \<noteq> 0 then
                let hashStringLength = (if len < KHashStringLength then len else KHashStringLength)
                in fold (\<lambda>i h. hashMix h (ucast (aUrl ! i))) (rev [len - hashStringLength + 1 ..< len]) h
              else h);
         h = h + push_bit 3 h;
         h = h XOR drop_bit 11 h;
         h = h + push_bit 15 h
     in unat h mod count)"

definition BoundaryCheck :: "slot list \<Rightarrow> int \<Rightarrow> bool" where
  "BoundaryCheck s aPos \<longleftrightarrow> 0 \<le> aPos \<and> aPos < int (length s)"

definition Empty :: "slot list \<Rightarrow> int \<Rightarrow> bool" where
  "Empty s aPos \<longleftrightarrow> BoundaryCheck s aPos \<and> s ! nat aPos = SNull"

definition Deleted :: "slot list \<Rightarrow> int \<Rightarrow> bool" where
  "Deleted s aPos \<longleftrightarrow> BoundaryCheck s aPos \<and> s ! nat aPos = SDeleted"

definition Valid :: "slot list \<Rightarrow> int \<Rightarrow> bool" where
  "Valid s aPos \<longleftrightarrow> BoundaryCheck s aPos \<and> \<not> Empty s aPos \<and> \<not> Deleted s aPos"

definition SetDeleted :: "slot list \<Rightarrow> int \<Rightarrow> slot list" where
  "SetDeleted s aPos = (if BoundaryCheck s aPos then s[nat aPos := SDeleted] else s)"

definition nextProbe :: "nat \<Rightarrow> nat \<Rightarrow> nat \<Rightarrow> nat" where
  "nextProbe count collision pos = (pos + (Suc collision * 2 - 1)) mod count"

text \<open>The two loops of \<open>Probe\<close>.\<close>

function probeInsert :: "slot list \<Rightarrow> nat \<Rightarrow> nat \<Rightarrow> nat" where
  "probeInsert s collision pos =
    (if Valid s (int pos) \<and> collision < length s div 2
     then probeInsert s (Suc collision) (nextProbe (length s) collision pos) else pos)"
  by pat_completeness auto
termination by (relation "measure (\<lambda>(s, collision, _). length s div 2 - collision)") auto

function probeFind :: "(byte \<Rightarrow> byte) \<Rightarrow> (nat \<Rightarrow> tdes8 option) \<Rightarrow> slot list \<Rightarrow> tdes8 \<Rightarrow> nat \<Rightarrow> nat \<Rightarrow> int option" where
  "probeFind fold_ch urlOf s aKey collision pos =
    (if Empty s (int pos) then Some (int pos)
     else
       let next = (if collision > length s then Some (- 1)
                   else probeFind fold_ch urlOf s aKey (Suc collision) (nextProbe (length s) collision pos))
       in (case s ! pos of
             SEntry p \<Rightarrow> (case urlOf p of None \<Rightarrow> None
                          | Some url \<Rightarrow> if des_eqF fold_ch url aKey then Some (int pos) else next)
           | _ \<Rightarrow> next))"
  by pat_completeness auto
termination by (relation "measure (\<lambda>(_, _, s, _, collision, _). length s + 2 - collision)") auto

declare probeInsert.simps [simp del] probeFind.simps [simp del]

definition ProbeInsert :: "slot list \<Rightarrow> tdes8 \<Rightarrow> int" where
  "ProbeInsert s aKey = int (probeInsert s 0 (HashUrl (length s) aKey))"

definition ProbeFind :: "(byte \<Rightarrow> byte) \<Rightarrow> (nat \<Rightarrow> tdes8 option) \<Rightarrow> slot list \<Rightarrow> tdes8 \<Rightarrow> int option" where
  "ProbeFind fold_ch urlOf s aKey = probeFind fold_ch urlOf s aKey 0 (HashUrl (length s) aKey)"

text \<open>
  \<open>ReHashL\<close> moves the valid entries to a table of the next size; an entry whose probe fails is
  dropped. The search for the size may not end.
\<close>

fun rehashLoop :: "(nat \<Rightarrow> tdes8 option) \<Rightarrow> slot list \<Rightarrow> slot list \<Rightarrow> slot list option" where
  "rehashLoop urlOf [] new = Some new"
| "rehashLoop urlOf (SEntry p # old) new =
    (case urlOf p of None \<Rightarrow> None
     | Some url \<Rightarrow>
       let pos = ProbeInsert new url in
       rehashLoop urlOf old (if pos \<noteq> - 1 \<and> \<not> Valid new pos then new[nat pos := SEntry p] else new))"
| "rehashLoop urlOf (_ # old) new = rehashLoop urlOf old new"

definition ReHashL :: "(nat \<Rightarrow> tdes8 option) \<Rightarrow> slot list \<Rightarrow> slot list option" where
  "ReHashL urlOf s =
    (case NextPrime (of_nat (length s * 2)) of None \<Rightarrow> None
     | Some newSize \<Rightarrow> rehashLoop urlOf s (replicate (unat newSize) SNull))"

text \<open>\<open>InsertL( CHttpCacheEntry* )\<close> on the slots: the position and the table it is in, -1 when it failed.\<close>

definition tblInsertL :: "(nat \<Rightarrow> tdes8 option) \<Rightarrow> nat \<Rightarrow> int \<Rightarrow> slot list \<Rightarrow> (symerr \<times> int \<times> slot list) option" where
  "tblInsertL urlOf p iCount s =
    (case urlOf p of None \<Rightarrow> None
     | Some url \<Rightarrow>
       let pos = ProbeInsert s url in
       (case (if Valid s pos then
                (case ReHashL urlOf s of None \<Rightarrow> None
                 | Some s1 \<Rightarrow>
                   let pos1 = ProbeInsert s1 url in
                   Some (if pos1 = - 1 \<or> Valid s1 pos1 then - 1 else pos1, s1))
              else Some (pos, s)) of
          None \<Rightarrow> None
        | Some (pos, s) \<Rightarrow>
          if pos \<noteq> - 1 then
            let s1 = s[nat pos := SEntry p]; n = iCount + 1 in
            (if n > int (length s1 div 2)
             then map_option (\<lambda>s2. (KErrNone, n, s2)) (ReHashL urlOf s1)
             else Some (KErrNone, n, s1))
          else Some (KErrCorrupt, iCount, s)))"

subsection \<open>The hash reads fifteen characters\<close>

lemma HashUrl_tail_gen:
  assumes "length u = length v" "drop (length u - 15) u = drop (length u - 15) v"
  shows "HashUrl n u = HashUrl n v"
proof -
  let ?k = "if length u < KHashStringLength then length u else KHashStringLength"
  have nth: "u ! i = v ! i" if "i \<in> set (rev [length u - ?k + 1 ..< length u])" for i
  proof -
    have i: "length u - 15 \<le> i" "i < length u" using that by (auto simp: KHashStringLength_def split: if_splits)
    then have "u ! i = drop (length u - 15) u ! (i - (length u - 15))"
      "v ! i = drop (length u - 15) v ! (i - (length u - 15))" using assms(1) by simp_all
    then show ?thesis using assms(2) by simp
  qed
  have "fold (\<lambda>i h. hashMix h (ucast (u ! i))) (rev [length u - ?k + 1 ..< length u]) h =
      fold (\<lambda>i h. hashMix h (ucast (v ! i))) (rev [length u - ?k + 1 ..< length u]) h" for h
    by (rule fold_cong) (use nth in auto)
  then show ?thesis using assms(1) unfolding HashUrl_def Let_def by simp
qed

text \<open>
  The hash depends on the length of the URL and its last fifteen characters only.
\<close>

theorem HashUrl_tail:
  assumes "length u = length v" "drop (length u - 15) u = drop (length u - 15) v"
  shows "HashUrl n u = HashUrl n v"
  by (rule HashUrl_tail_gen) (fact assms)+

theorem HashUrl_tail_witness:
  "HashUrl 217 (lit8 ''http://a/0123456789abcde'') = HashUrl 217 (lit8 ''http://b!0123456789abcde'')"
  by (rule HashUrl_tail) (simp_all add: lit8_def)

subsection \<open>Probe sequences\<close>

definition chainPos :: "nat \<Rightarrow> nat \<Rightarrow> nat \<Rightarrow> nat" where
  "chainPos n h c = (h + c * c) mod n"

lemma HashUrl_lt: "0 < n \<Longrightarrow> HashUrl n u < n"
  unfolding HashUrl_def Let_def by simp

lemma chainPos_lt [simp]: "0 < n \<Longrightarrow> chainPos n h c < n"
  by (simp add: chainPos_def)

lemma chainPos_0 [simp]: "h < n \<Longrightarrow> chainPos n h 0 = h"
  by (simp add: chainPos_def)

lemma nextProbe_chain: "nextProbe n c (chainPos n h c) = chainPos n h (Suc c)"
proof -
  have "h + c * c + (Suc c * 2 - 1) = h + Suc c * Suc c" by simp
  then show ?thesis unfolding nextProbe_def chainPos_def by (metis mod_add_left_eq)
qed

lemma slot_tests [simp]:
  "i < length s \<Longrightarrow> Empty s (int i) \<longleftrightarrow> s ! i = SNull"
  "i < length s \<Longrightarrow> Valid s (int i) \<longleftrightarrow> (\<exists>p. s ! i = SEntry p)"
  "i < length s \<Longrightarrow> BoundaryCheck s (int i)"
  "\<not> Valid s (- 1)"
  by (auto simp: Empty_def Valid_def Deleted_def BoundaryCheck_def split: slot.splits) (metis slot.exhaust)

lemma probeInsert_spec:
  assumes "0 < length s"
  shows "c \<le> length s div 2 \<Longrightarrow> \<exists>k. c \<le> k \<and> k \<le> length s div 2 \<and>
    probeInsert s c (chainPos (length s) h c) = chainPos (length s) h k \<and>
    (\<forall>d. c \<le> d \<longrightarrow> d < k \<longrightarrow> (\<exists>p. s ! chainPos (length s) h d = SEntry p)) \<and>
    (k = length s div 2 \<or> (\<forall>p. s ! chainPos (length s) h k \<noteq> SEntry p))"
proof (induction "length s div 2 - c" arbitrary: c rule: less_induct)
  case less
  let ?pos = "chainPos (length s) h"
  have unf: "probeInsert s c (?pos c) = (if (\<exists>p. s ! ?pos c = SEntry p) \<and> c < length s div 2
      then probeInsert s (Suc c) (?pos (Suc c)) else ?pos c)"
    using assms by (subst probeInsert.simps) (simp add: nextProbe_chain)
  show ?case
  proof (cases "(\<exists>p. s ! ?pos c = SEntry p) \<and> c < length s div 2")
    case False
    then show ?thesis using unf less.prems by (intro exI [of _ c]) auto
  next
    case True
    then have lt: "length s div 2 - Suc c < length s div 2 - c" "Suc c \<le> length s div 2" by auto
    obtain k where k: "Suc c \<le> k" "k \<le> length s div 2" "probeInsert s (Suc c) (?pos (Suc c)) = ?pos k"
      "\<forall>d. Suc c \<le> d \<longrightarrow> d < k \<longrightarrow> (\<exists>p. s ! ?pos d = SEntry p)"
      "k = length s div 2 \<or> (\<forall>p. s ! ?pos k \<noteq> SEntry p)"
      using less.hyps [OF lt] by blast
    have "\<exists>p. s ! ?pos d = SEntry p" if "c \<le> d" "d < k" for d
      using that k(4) True by (cases "d = c") auto
    then show ?thesis using k unf True by (intro exI [of _ k]) auto
  qed
qed

text \<open>What the probing for insertion finds.\<close>

lemma ProbeInsert_spec:
  assumes "0 < length s"
  obtains k where "k \<le> length s div 2" "ProbeInsert s u = int (chainPos (length s) (HashUrl (length s) u) k)"
    "\<And>d. d < k \<Longrightarrow> \<exists>p. s ! chainPos (length s) (HashUrl (length s) u) d = SEntry p"
    "k = length s div 2 \<or> (\<forall>p. s ! chainPos (length s) (HashUrl (length s) u) k \<noteq> SEntry p)"
  using probeInsert_spec [OF assms, of 0 "HashUrl (length s) u"] HashUrl_lt [OF assms, of u] that
  by (auto simp: ProbeInsert_def)

text \<open>The addresses in a table, in slot order.\<close>

primrec slotAddr :: "slot \<Rightarrow> nat list" where
  "slotAddr SNull = []"
| "slotAddr SDeleted = []"
| "slotAddr (SEntry p) = [p]"

definition slotAddrs :: "slot list \<Rightarrow> nat list" where
  "slotAddrs s = concat (map slotAddr s)"

definition tblCount :: "slot list \<Rightarrow> nat" where
  "tblCount s = length (slotAddrs s)"

lemma slotAddrs_simps [simp]:
  "slotAddrs [] = []" "slotAddrs (x # s) = slotAddr x @ slotAddrs s" "slotAddrs (s @ t) = slotAddrs s @ slotAddrs t"
  "slotAddrs (replicate k SNull) = []"
  by (simp_all add: slotAddrs_def)

lemma slotAddr_set [simp]: "p \<in> set (slotAddr x) \<longleftrightarrow> x = SEntry p"
  by (cases x) auto

lemma slotAddrs_set: "p \<in> set (slotAddrs s) \<longleftrightarrow> (\<exists>i < length s. s ! i = SEntry p)"
proof -
  have "p \<in> set (slotAddrs s) \<longleftrightarrow> SEntry p \<in> set s" by (auto simp: slotAddrs_def)
  then show ?thesis by (simp add: in_set_conv_nth)
qed

lemma tblCount_card: "tblCount s = card {i. i < length s \<and> (\<exists>p. s ! i = SEntry p)}"
proof -
  have "tblCount s = length (filter (\<lambda>x. \<exists>p. x = SEntry p) s)"
  proof (induction s)
    case (Cons x s)
    then show ?case by (cases x) (simp_all add: tblCount_def)
  qed (simp add: tblCount_def)
  then show ?thesis by (simp add: length_filter_conv_card)
qed

text \<open>In a table of prime size that is at most half full an insertion finds a free slot.\<close>

lemma ProbeInsert_free:
  assumes "isprime (length s)" "2 < length s" "tblCount s \<le> length s div 2"
  shows "\<not> Valid s (ProbeInsert s u)"
proof
  assume valid: "Valid s (ProbeInsert s u)"
  let ?n = "length s"
  let ?pos = "chainPos ?n (HashUrl ?n u)"
  have n0: "0 < ?n" using assms(2) by linarith
  obtain k where k: "k \<le> ?n div 2" "ProbeInsert s u = int (?pos k)"
    "\<And>d. d < k \<Longrightarrow> \<exists>p. s ! ?pos d = SEntry p" "k = ?n div 2 \<or> (\<forall>p. s ! ?pos k \<noteq> SEntry p)"
    using ProbeInsert_spec [OF n0] by metis
  have "\<exists>p. s ! ?pos k = SEntry p" using valid k(2) n0 by simp
  then have kn: "k = ?n div 2" and all: "\<exists>p. s ! ?pos d = SEntry p" if "d \<le> ?n div 2" for d
    using k(3,4) that by (metis le_neq_implies_less)+
  have "?pos ` {0..?n div 2} \<subseteq> {i. i < ?n \<and> (\<exists>p. s ! i = SEntry p)}" using all n0 by auto
  then have "card (?pos ` {0..?n div 2}) \<le> tblCount s" unfolding tblCount_card by (rule card_mono [rotated]) simp
  moreover have "inj_on ?pos {0..?n div 2}"
    using squares_distinct [OF assms(1,2)] by (simp add: chainPos_def [abs_def])
  ultimately show False using assms(3) by (simp add: card_image)
qed

lemma ProbeInsert_free_single:
  assumes "2 < length s" "tblCount s \<le> 1"
  shows "\<not> Valid s (ProbeInsert s u)"
proof
  assume valid: "Valid s (ProbeInsert s u)"
  let ?n = "length s"
  let ?pos = "chainPos ?n (HashUrl ?n u)"
  have n0: "0 < ?n" using assms(1) by linarith
  obtain k where k: "k \<le> ?n div 2" "ProbeInsert s u = int (?pos k)"
    "\<And>d. d < k \<Longrightarrow> \<exists>p. s ! ?pos d = SEntry p" "k = ?n div 2 \<or> (\<forall>p. s ! ?pos k \<noteq> SEntry p)"
    using ProbeInsert_spec [OF n0] by metis
  have vk: "\<exists>p. s ! ?pos k = SEntry p" using valid k(2) n0 by simp
  then have "k = ?n div 2" using k(4) by blast
  then have "1 \<le> k" using assms(1) by simp
  then have e: "\<exists>p. s ! ?pos 0 = SEntry p" "\<exists>p. s ! ?pos 1 = SEntry p"
    using k(3) vk by (auto, metis le_neq_implies_less One_nat_def)
  have ne: "?pos 0 \<noteq> ?pos 1"
  proof
    assume "?pos 0 = ?pos 1"
    then have "HashUrl ?n u mod ?n = Suc (HashUrl ?n u) mod ?n" by (simp add: chainPos_def)
    then show False using assms(1) HashUrl_lt [OF n0, of u] by (auto simp: mod_Suc split: if_splits)
  qed
  have "{?pos 0, ?pos 1} \<subseteq> {i. i < ?n \<and> (\<exists>p. s ! i = SEntry p)}" using e n0 by auto
  then have "card {?pos 0, ?pos 1} \<le> tblCount s" unfolding tblCount_card by (rule card_mono [rotated]) simp
  then show False using ne assms(2) by simp
qed

end
