(* ===== verification/TableSpec.thy ===== *)
theory TableSpec
  imports Probing
begin

text \<open>
  The correctness of the open-addressed table: the invariant that no probe sequence of an entry
  has a hole before it, and what insertion, deletion, rehashing and lookup do under it.
\<close>

subsection \<open>The invariant\<close>

definition reach :: "slot list \<Rightarrow> nat \<Rightarrow> nat \<Rightarrow> bool" where
  "reach s h i \<longleftrightarrow> (\<exists>c \<le> length s div 2. i = chainPos (length s) h c \<and>
     (\<forall>d < c. s ! chainPos (length s) h d \<noteq> SNull))"

definition tbl_ok :: "(nat \<Rightarrow> tdes8 option) \<Rightarrow> slot list \<Rightarrow> bool" where
  "tbl_ok urlOf s \<longleftrightarrow> 2 < length s \<and> distinct (slotAddrs s) \<and>
     (\<forall>i < length s. \<forall>p. s ! i = SEntry p \<longrightarrow>
        (\<exists>u. urlOf p = Some u \<and> reach s (HashUrl (length s) u) i))"

lemma tbl_okD:
  assumes "tbl_ok urlOf s"
  shows "2 < length s" "distinct (slotAddrs s)"
    "i < length s \<Longrightarrow> s ! i = SEntry p \<Longrightarrow> \<exists>u. urlOf p = Some u \<and> reach s (HashUrl (length s) u) i"
  using assms by (auto simp: tbl_ok_def)

lemma tbl_ok_live: "tbl_ok urlOf s \<Longrightarrow> p \<in> set (slotAddrs s) \<Longrightarrow> \<exists>u. urlOf p = Some u"
  by (auto simp: slotAddrs_set dest: tbl_okD(3))

lemma reach_mono:
  assumes "reach s h i" "length t = length s" "\<And>j. j < length s \<Longrightarrow> s ! j \<noteq> SNull \<Longrightarrow> t ! j \<noteq> SNull" "0 < length s"
  shows "reach t h i"
  using assms unfolding reach_def by (metis chainPos_lt)

lemma slotAddrs_update:
  assumes "i < length s"
  shows slotAddrs_upd: "slotAddrs (s[i := x]) = slotAddrs (take i s) @ slotAddr x @ slotAddrs (drop (Suc i) s)"
    and slotAddrs_split: "slotAddrs s = slotAddrs (take i s) @ slotAddr (s ! i) @ slotAddrs (drop (Suc i) s)"
proof -
  show "slotAddrs (s[i := x]) = slotAddrs (take i s) @ slotAddr x @ slotAddrs (drop (Suc i) s)"
    using assms by (simp add: upd_conv_take_nth_drop)
  have "slotAddrs s = slotAddrs (take i s @ s ! i # drop (Suc i) s)" using assms by (simp add: id_take_nth_drop [symmetric])
  then show "slotAddrs s = slotAddrs (take i s) @ slotAddr (s ! i) @ slotAddrs (drop (Suc i) s)" by simp
qed

lemma distinct_slot:
  assumes "distinct (slotAddrs s)"
  shows "i < length s \<Longrightarrow> s ! i = SEntry p \<Longrightarrow> j < length s \<Longrightarrow> s ! j = SEntry p \<Longrightarrow> i = j"
proof (rule ccontr)
  assume i: "i < length s" "s ! i = SEntry p" and j: "j < length s" "s ! j = SEntry p" and "i \<noteq> j"
  have split: "slotAddrs s = slotAddrs (take i s) @ p # slotAddrs (drop (Suc i) s)"
    using slotAddrs_split [OF i(1)] i(2) by simp
  have "p \<in> set (slotAddrs (take i s)) \<union> set (slotAddrs (drop (Suc i) s))"
  proof (cases "j < i")
    case True
    then show ?thesis using j i(1) by (auto simp: slotAddrs_set)
  next
    case False
    then have "j - Suc i < length (drop (Suc i) s)" "drop (Suc i) s ! (j - Suc i) = SEntry p"
      using j \<open>i \<noteq> j\<close> by simp_all
    then show ?thesis unfolding Un_iff slotAddrs_set [of p "drop (Suc i) s"] by blast
  qed
  then show False using assms split by auto
qed

lemma ProbeInsert_nonneg: "0 \<le> ProbeInsert s u"
  by (simp add: ProbeInsert_def)

subsection \<open>Insertion and deletion\<close>

lemma tbl_ok_insert:
  assumes ok: "tbl_ok urlOf s" and p: "urlOf p = Some u" "p \<notin> set (slotAddrs s)"
    and free: "\<not> Valid s (ProbeInsert s u)" and t: "t = s[nat (ProbeInsert s u) := SEntry p]"
  shows "tbl_ok urlOf t \<and> set (slotAddrs t) = insert p (set (slotAddrs s)) \<and> tblCount t = Suc (tblCount s) \<and>
    length t = length s \<and> ProbeInsert s u \<noteq> - 1"
proof -
  let ?n = "length s"
  let ?pos = "chainPos ?n (HashUrl ?n u)"
  have n0: "0 < ?n" using tbl_okD(1) [OF ok] by linarith
  obtain k where k: "k \<le> ?n div 2" "ProbeInsert s u = int (?pos k)" "\<And>d. d < k \<Longrightarrow> \<exists>p. s ! ?pos d = SEntry p"
    using ProbeInsert_spec [OF n0, of u] by metis
  let ?i = "?pos k"
  have i: "?i < ?n" using n0 by simp
  have t': "t = s[?i := SEntry p]" using t k(2) by simp
  have len: "length t = ?n" by (simp add: t')
  have noentry: "slotAddr (s ! ?i) = []" using free k(2) i by (cases "s ! ?i") auto
  note upd = slotAddrs_upd [OF i, of "SEntry p"] slotAddrs_split [OF i]
  have addrs: "slotAddrs s = slotAddrs (take ?i s) @ slotAddrs (drop (Suc ?i) s)"
    "slotAddrs t = slotAddrs (take ?i s) @ p # slotAddrs (drop (Suc ?i) s)"
    using upd noentry by (simp_all add: t')
  have grow: "t ! j \<noteq> SNull" if "j < ?n" "s ! j \<noteq> SNull" for j
    using that by (cases "j = ?i") (simp_all add: t')
  have "reach t (HashUrl (length t) u) ?i"
    unfolding reach_def len
  proof (intro exI [of _ k] conjI allI impI)
    fix d assume "d < k" then show "t ! ?pos d \<noteq> SNull" using k(3) [of d] grow [of "?pos d"] n0 by auto
  qed (use k in auto)
  moreover have "\<exists>v. urlOf q = Some v \<and> reach t (HashUrl (length t) v) j" if "j < length t" "t ! j = SEntry q" "j \<noteq> ?i" for j q
  proof -
    have "s ! j = SEntry q" "j < ?n" using that by (simp_all add: t')
    from tbl_okD(3) [OF ok this(2,1)] obtain v where "urlOf q = Some v" "reach s (HashUrl ?n v) j" by blast
    then show ?thesis using reach_mono [of s _ j t] grow n0 len by auto
  qed
  moreover have "distinct (slotAddrs t)" using addrs tbl_okD(2) [OF ok] p(2) by auto
  ultimately have "tbl_ok urlOf t"
    using p(1) tbl_okD(1) [OF ok] len i by (auto simp: tbl_ok_def t' nth_list_update)
  then show ?thesis using addrs k(2) by (auto simp: tblCount_def len)
qed

lemma tbl_ok_erase:
  assumes ok: "tbl_ok urlOf s" and i: "i < length s" "s ! i = SEntry p" and t: "t = s[i := SDeleted]"
  shows "tbl_ok urlOf t \<and> set (slotAddrs t) = set (slotAddrs s) - {p} \<and> tblCount s = Suc (tblCount t) \<and>
    length t = length s"
proof -
  have addrs: "slotAddrs s = slotAddrs (take i s) @ p # slotAddrs (drop (Suc i) s)"
    "slotAddrs t = slotAddrs (take i s) @ slotAddrs (drop (Suc i) s)"
    using slotAddrs_upd [OF i(1), of SDeleted] slotAddrs_split [OF i(1)] i(2) by (simp_all add: t)
  have d: "distinct (slotAddrs s)" using ok by (rule tbl_okD)
  have n0: "0 < length s" using i(1) by linarith
  have grow: "t ! j \<noteq> SNull" if "j < length s" "s ! j \<noteq> SNull" for j
    using that by (cases "j = i") (simp_all add: t)
  have "\<exists>v. urlOf q = Some v \<and> reach t (HashUrl (length t) v) j" if "j < length t" "t ! j = SEntry q" for j q
  proof -
    have "s ! j = SEntry q" "j < length s" using that i by (auto simp: t nth_list_update split: if_splits)
    then obtain v where "urlOf q = Some v" "reach s (HashUrl (length s) v) j" using tbl_okD(3) [OF ok, of j q] by auto
    moreover from this(2) have "reach t (HashUrl (length s) v) j"
      by (rule reach_mono) (use grow n0 in \<open>auto simp: t\<close>)
    ultimately show ?thesis by (simp add: t)
  qed
  then show ?thesis using addrs d tbl_okD(1) [OF ok] by (auto simp: tbl_ok_def tblCount_def t)
qed

lemma tbl_ok_urlOf_cong:
  assumes "tbl_ok urlOf s" "\<And>p. p \<in> set (slotAddrs s) \<Longrightarrow> urlOf' p = urlOf p"
  shows "tbl_ok urlOf' s"
  using assms unfolding tbl_ok_def slotAddrs_set by metis

subsection \<open>Rehashing\<close>

lemma rehashLoop_spec:
  assumes "isprime (length new)"
  shows "tbl_ok urlOf new \<Longrightarrow> distinct (slotAddrs old) \<Longrightarrow> set (slotAddrs old) \<inter> set (slotAddrs new) = {} \<Longrightarrow>
    (\<And>p. p \<in> set (slotAddrs old) \<Longrightarrow> \<exists>u. urlOf p = Some u) \<Longrightarrow>
    tblCount old + tblCount new \<le> length new div 2 + 1 \<Longrightarrow>
    \<exists>r. rehashLoop urlOf old new = Some r \<and> tbl_ok urlOf r \<and> length r = length new \<and>
      set (slotAddrs r) = set (slotAddrs old) \<union> set (slotAddrs new) \<and> tblCount r = tblCount old + tblCount new"
  using assms
proof (induction urlOf old new rule: rehashLoop.induct)
  case (1 urlOf new)
  then show ?case by (simp add: tblCount_def)
next
  case (2 urlOf p old new)
  obtain u where u: "urlOf p = Some u" using "2.prems"(4) by auto
  let ?new = "new[nat (ProbeInsert new u) := SEntry p]"
  have "tblCount new \<le> length new div 2" using "2.prems"(5) by (simp add: tblCount_def)
  then have free: "\<not> Valid new (ProbeInsert new u)"
    using ProbeInsert_free "2.prems"(6) tbl_okD(1) [OF "2.prems"(1)] by blast
  have new: "tbl_ok urlOf ?new" "set (slotAddrs ?new) = insert p (set (slotAddrs new))"
    "tblCount ?new = Suc (tblCount new)" "length ?new = length new" "ProbeInsert new u \<noteq> - 1"
    using tbl_ok_insert [OF "2.prems"(1) u _ free refl] "2.prems"(3) by auto
  have "\<exists>r. rehashLoop urlOf old ?new = Some r \<and> tbl_ok urlOf r \<and> length r = length ?new \<and>
      set (slotAddrs r) = set (slotAddrs old) \<union> set (slotAddrs ?new) \<and> tblCount r = tblCount old + tblCount ?new"
  proof -
    have eq: "(if ProbeInsert new u \<noteq> - 1 \<and> \<not> Valid new (ProbeInsert new u) then ?new else new) = ?new"
      using free new(5) by simp
    show ?thesis
      by (rule "2.IH" [OF u refl, unfolded eq])
        (use "2.prems" new in \<open>auto simp: tblCount_def\<close>)
  qed
  then show ?case using u free new by (auto simp: tblCount_def Let_def)
next
  case "3_1"
  then show ?case by (simp add: tblCount_def)
next
  case "3_2"
  then show ?case by (simp add: tblCount_def)
qed

lemma tbl_ok_empty: "2 < n \<Longrightarrow> tbl_ok urlOf (replicate n SNull)"
  by (auto simp: tbl_ok_def)

text \<open>The table can grow: the search for the next size finds a prime of at least twice the size.\<close>

definition growable :: "slot list \<Rightarrow> bool" where
  "growable s \<longleftrightarrow> (\<exists>p. isprime p \<and> p < 2 ^ 31 \<and> 2 * length s \<le> p)"

lemma growable_NextPrime:
  assumes "growable s" "2 < length s"
  shows "\<exists>q. NextPrime (of_nat (length s * 2)) = Some q \<and> isprime (unat q) \<and> 2 * length s \<le> unat q"
proof -
  obtain p where p: "isprime p" "p < 2 ^ 31" "2 * length s \<le> p" using assms(1) by (auto simp: growable_def)
  have "length s * 2 < 2 ^ LENGTH(32)" using p(2,3) by simp
  then have u: "unat (of_nat (length s * 2) :: 32 word) = length s * 2" by (simp only: unsigned_of_nat take_bit_nat_eq_self of_nat_id)
  have le: "length s * 2 \<le> p" "3 \<le> length s * 2" using p(3) assms(2) by linarith+
  have "\<exists>q. NextPrime (of_nat (length s * 2)) = Some q \<and> least_prime_from (length s * 2) (unat q)"
    using NextPrime_least_gen [OF p(1,2), of "of_nat (length s * 2)"] le unfolding u by blast
  then show ?thesis by (auto simp: least_prime_from_def mult.commute)
qed

lemma ReHashL_ok:
  assumes ok: "tbl_ok urlOf s" and "growable s" "tblCount s \<le> length s"
  shows "\<exists>r. ReHashL urlOf s = Some r \<and> tbl_ok urlOf r \<and> isprime (length r) \<and> 2 * length s \<le> length r \<and>
    set (slotAddrs r) = set (slotAddrs s) \<and> tblCount r = tblCount s \<and>
    (\<exists>q. NextPrime (of_nat (length s * 2)) = Some q \<and> length r = unat q)"
proof -
  obtain q where q: "NextPrime (of_nat (length s * 2)) = Some q" "isprime (unat q)" "2 * length s \<le> unat q"
    using growable_NextPrime [OF assms(2) tbl_okD(1) [OF ok]] by blast
  have "\<exists>r. rehashLoop urlOf s (replicate (unat q) SNull) = Some r \<and> tbl_ok urlOf r \<and>
      length r = length (replicate (unat q) SNull) \<and>
      set (slotAddrs r) = set (slotAddrs s) \<union> set (slotAddrs (replicate (unat q) SNull)) \<and>
      tblCount r = tblCount s + tblCount (replicate (unat q) SNull)"
    by (rule rehashLoop_spec)
      (use q tbl_okD(1,2) [OF ok] tbl_ok_live [OF ok] assms(3) in \<open>auto simp: tblCount_def intro!: tbl_ok_empty\<close>)
  then show ?thesis using q by (auto simp: ReHashL_def tblCount_def)
qed

subsection \<open>Lookup\<close>

definition matches :: "(byte \<Rightarrow> byte) \<Rightarrow> (nat \<Rightarrow> tdes8 option) \<Rightarrow> slot list \<Rightarrow> tdes8 \<Rightarrow> nat \<Rightarrow> bool" where
  "matches f urlOf s key i \<longleftrightarrow> (\<exists>p u. s ! i = SEntry p \<and> urlOf p = Some u \<and> des_eqF f u key)"

lemma probeFind_spec:
  fixes h :: nat
  assumes ok: "tbl_ok urlOf s"
  defines "pos \<equiv> chainPos (length s) h"
  shows "c \<le> length s + 1 \<Longrightarrow> \<exists>r. probeFind f urlOf s key c (pos c) = Some r \<and>
    ((\<exists>k \<ge> c. r = int (pos k) \<and> (s ! pos k = SNull \<or> matches f urlOf s key (pos k)) \<and>
        (\<forall>d. c \<le> d \<longrightarrow> d < k \<longrightarrow> s ! pos d \<noteq> SNull \<and> \<not> matches f urlOf s key (pos d))) \<or>
     (r = - 1 \<and> (\<forall>d. c \<le> d \<longrightarrow> d \<le> length s + 1 \<longrightarrow> s ! pos d \<noteq> SNull \<and> \<not> matches f urlOf s key (pos d))))"
proof (induction "length s + 1 - c" arbitrary: c rule: less_induct)
  case less
  have n0: "0 < length s" using tbl_okD(1) [OF ok] by linarith
  then have lt: "pos d < length s" for d by (simp add: pos_def)
  note unf = probeFind.simps [of f urlOf s key c "pos c"]
  consider (null) "s ! pos c = SNull" | (match) "matches f urlOf s key (pos c)"
    | (next') "s ! pos c \<noteq> SNull" "\<not> matches f urlOf s key (pos c)" by blast
  then show ?case
  proof cases
    case null
    then show ?thesis using unf lt by (intro exI [of _ "int (pos c)"] conjI) auto
  next
    case match
    then have "probeFind f urlOf s key c (pos c) = Some (int (pos c))"
      using unf lt by (auto simp: matches_def)
    with match show ?thesis by (intro exI [of _ "int (pos c)"] conjI) auto
  next
    case next'
    have step: "probeFind f urlOf s key c (pos c) =
        (if c > length s then Some (- 1) else probeFind f urlOf s key (Suc c) (pos (Suc c)))"
    proof (cases "s ! pos c")
      case (SEntry p)
      then obtain u where "urlOf p = Some u" using tbl_okD(3) [OF ok lt] by blast
      then show ?thesis using unf lt SEntry next' by (simp add: matches_def Let_def nextProbe_chain pos_def)
    qed (use unf lt next' in \<open>simp_all add: nextProbe_chain pos_def\<close>)
    show ?thesis
    proof (cases "c > length s")
      case True
      then have "d = c" if "c \<le> d" "d \<le> length s + 1" for d using that less.prems by simp
      then have "\<forall>d. c \<le> d \<longrightarrow> d \<le> length s + 1 \<longrightarrow> s ! pos d \<noteq> SNull \<and> \<not> matches f urlOf s key (pos d)"
        using next' by metis
      then show ?thesis using step True by (intro exI [of _ "- 1"]) simp
    next
      case False
      then have m: "length s + 1 - Suc c < length s + 1 - c" "Suc c \<le> length s + 1" by auto
      obtain r where r: "probeFind f urlOf s key (Suc c) (pos (Suc c)) = Some r"
        "(\<exists>k \<ge> Suc c. r = int (pos k) \<and> (s ! pos k = SNull \<or> matches f urlOf s key (pos k)) \<and>
          (\<forall>d. Suc c \<le> d \<longrightarrow> d < k \<longrightarrow> s ! pos d \<noteq> SNull \<and> \<not> matches f urlOf s key (pos d))) \<or>
         (r = - 1 \<and> (\<forall>d. Suc c \<le> d \<longrightarrow> d \<le> length s + 1 \<longrightarrow> s ! pos d \<noteq> SNull \<and> \<not> matches f urlOf s key (pos d)))"
        using less.hyps [OF m] by blast
      have up: "c \<le> d \<Longrightarrow> d = c \<or> Suc c \<le> d" for d by linarith
      show ?thesis using r step False next' up by (intro exI [of _ r]) (metis Suc_leD)
    qed
  qed
qed

text \<open>
  The lookup never faults. A valid position holds a matching entry; if it finds none, no entry
  has a URL that matches the key and hashes like it.
\<close>

lemma ProbeFind_ok:
  assumes ok: "tbl_ok urlOf s"
  shows "\<exists>r. ProbeFind f urlOf s key = Some r \<and>
    (Valid s r \<longrightarrow> 0 \<le> r \<and> nat r < length s \<and> matches f urlOf s key (nat r)) \<and>
    (\<forall>p \<in> set (slotAddrs s). \<forall>u. urlOf p = Some u \<longrightarrow> des_eqF f u key \<longrightarrow>
       HashUrl (length s) u = HashUrl (length s) key \<longrightarrow> Valid s r)"
proof -
  let ?h = "HashUrl (length s) key"
  let ?pos = "chainPos (length s) ?h"
  have n0: "0 < length s" using tbl_okD(1) [OF ok] by linarith
  have start: "?pos 0 = ?h" using HashUrl_lt [OF n0] by simp
  obtain r where r: "probeFind f urlOf s key 0 ?h = Some r"
    "(\<exists>k. r = int (?pos k) \<and> (s ! ?pos k = SNull \<or> matches f urlOf s key (?pos k)) \<and>
       (\<forall>d < k. s ! ?pos d \<noteq> SNull \<and> \<not> matches f urlOf s key (?pos d))) \<or>
     (r = - 1 \<and> (\<forall>d. d \<le> length s + 1 \<longrightarrow> s ! ?pos d \<noteq> SNull \<and> \<not> matches f urlOf s key (?pos d)))"
    using probeFind_spec [OF ok, of 0 f key ?h] unfolding start by auto
  have complete: "Valid s r"
    if p: "p \<in> set (slotAddrs s)" and u: "urlOf p = Some u" "des_eqF f u key" "HashUrl (length s) u = ?h" for p u
  proof -
    obtain i where i: "i < length s" "s ! i = SEntry p" using p by (auto simp: slotAddrs_set)
    then obtain c where c: "c \<le> length s div 2" "i = ?pos c" "\<forall>d < c. s ! ?pos d \<noteq> SNull"
      using tbl_okD(3) [OF ok i] u by (auto simp: reach_def)
    have m: "matches f urlOf s key (?pos c)" using i c u by (auto simp: matches_def)
    from r(2) show ?thesis
    proof (elim disjE exE conjE)
      fix k assume k: "r = int (?pos k)" "s ! ?pos k = SNull"
        "\<forall>d < k. s ! ?pos d \<noteq> SNull \<and> \<not> matches f urlOf s key (?pos d)"
      have "k < c \<or> k = c \<or> c < k" by linarith
      then show ?thesis using c(3) k m i c(2) by auto
    next
      fix k assume "r = int (?pos k)" "matches f urlOf s key (?pos k)"
      then show ?thesis using n0 by (auto simp: matches_def)
    next
      assume "\<forall>d \<le> length s + 1. s ! ?pos d \<noteq> SNull \<and> \<not> matches f urlOf s key (?pos d)"
      moreover have "c \<le> length s + 1" using c(1) by linarith
      ultimately show ?thesis using m by blast
    qed
  qed
  have sound: "0 \<le> r \<and> nat r < length s \<and> matches f urlOf s key (nat r)" if "Valid s r"
    using r(2) that n0 by auto
  show ?thesis using r(1) complete sound by (auto simp: ProbeFind_def)
qed

subsection \<open>The table as a whole\<close>

lemma tblInsertL_spec:
  assumes ok: "tbl_ok urlOf s" and half: "tblCount s \<le> length s div 2" and grow: "growable s"
    and p: "urlOf p = Some u" "p \<notin> set (slotAddrs s)"
  shows "\<exists>t. tblInsertL urlOf p (int (tblCount s)) s = Some (KErrNone, int (tblCount t), t) \<and> tbl_ok urlOf t \<and>
    set (slotAddrs t) = insert p (set (slotAddrs s)) \<and> tblCount t = Suc (tblCount s) \<and>
    tblCount t \<le> length t div 2 \<and>
    (length t = length s \<or> (\<exists>q. NextPrime (of_nat (length s * 2)) = Some q \<and> length t = unat q))"
proof (cases "Valid s (ProbeInsert s u)")
  case True
  have le: "tblCount s \<le> length s" using half by linarith
  obtain r where r: "ReHashL urlOf s = Some r" "tbl_ok urlOf r" "isprime (length r)" "2 * length s \<le> length r"
    "set (slotAddrs r) = set (slotAddrs s)" "tblCount r = tblCount s"
    "\<exists>q. NextPrime (of_nat (length s * 2)) = Some q \<and> length r = unat q"
    using ReHashL_ok [OF ok grow le] by blast
  have room: "Suc (tblCount s) \<le> length r div 2" "\<not> int (tblCount s) + 1 > int (length r div 2)"
    using half r(4) tbl_okD(1) [OF ok] by linarith+
  have free: "\<not> Valid r (ProbeInsert r u)"
    using ProbeInsert_free [OF r(3)] tbl_okD(1) [OF r(2)] room(1) r(6) by simp
  define t where "t = r[nat (ProbeInsert r u) := SEntry p]"
  have t: "tbl_ok urlOf t" "set (slotAddrs t) = insert p (set (slotAddrs r))" "tblCount t = Suc (tblCount r)"
    "length t = length r" "ProbeInsert r u \<noteq> - 1"
    using tbl_ok_insert [OF r(2) p(1) _ free t_def] p(2) r(5) by auto
  have "tblInsertL urlOf p (int (tblCount s)) s = Some (KErrNone, int (tblCount t), t)"
    using p(1) True r(1,6) free t(3,5) room(2) by (simp add: tblInsertL_def Let_def t_def)
  then show ?thesis using t r room(1) by auto
next
  case False
  define t where "t = s[nat (ProbeInsert s u) := SEntry p]"
  have t: "tbl_ok urlOf t" "set (slotAddrs t) = insert p (set (slotAddrs s))" "tblCount t = Suc (tblCount s)"
    "length t = length s" "ProbeInsert s u \<noteq> - 1"
    using tbl_ok_insert [OF ok p(1,2) False t_def] by auto
  show ?thesis
  proof (cases "int (tblCount s) + 1 > int (length s div 2)")
    case True
    have le: "tblCount t \<le> length t" using t(3,4) half tbl_okD(1) [OF ok] by linarith
    have "growable t" using grow t(4) by (simp add: growable_def)
    from ReHashL_ok [OF t(1) this le] obtain r where r: "ReHashL urlOf t = Some r" "tbl_ok urlOf r"
      "2 * length t \<le> length r" "set (slotAddrs r) = set (slotAddrs t)" "tblCount r = tblCount t"
      "\<exists>q. NextPrime (of_nat (length t * 2)) = Some q \<and> length r = unat q" by blast
    have "tblInsertL urlOf p (int (tblCount s)) s = Some (KErrNone, int (tblCount r), r)"
      using p(1) False t(3-5) True r(1,5) by (simp add: tblInsertL_def Let_def t_def [symmetric])
    moreover have "tblCount r \<le> length r div 2" using r(3,5) le by linarith
    moreover have "\<exists>q. NextPrime (of_nat (length s * 2)) = Some q \<and> length r = unat q" using r(6) t(4) by simp
    ultimately show ?thesis using r t by auto
  next
    case room: False
    have "tblInsertL urlOf p (int (tblCount s)) s = Some (KErrNone, int (tblCount t), t)"
      using p(1) False t(3-5) room by (simp add: tblInsertL_def Let_def t_def [symmetric])
    moreover have "tblCount t \<le> length t div 2" using room t(3,4) by linarith
    ultimately show ?thesis using t by auto
  qed
qed

text \<open>Room for \<open>k\<close> more insertions: every size the table may take on the way can grow.\<close>

fun room_to_grow :: "nat \<Rightarrow> nat \<Rightarrow> bool" where
  "room_to_grow 0 n \<longleftrightarrow> True"
| "room_to_grow (Suc k) n \<longleftrightarrow> (\<exists>p. isprime p \<and> p < 2 ^ 31 \<and> 2 * n \<le> p) \<and> room_to_grow k n \<and>
     (\<forall>q. NextPrime (of_nat (n * 2)) = Some q \<longrightarrow> room_to_grow k (unat q))"

lemma room_to_grow_growable: "room_to_grow (Suc k) (length s) \<Longrightarrow> growable s"
  by (simp add: growable_def)

subsection \<open>Two entries for one URL\<close>

text \<open>
  In a table without deleted slots an entry hides a later one of the same URL: the lookup still
  ends at the first.
\<close>

lemma ProbeFind_first:
  assumes ok: "tbl_ok urlOf s" and nodel: "SDeleted \<notin> set s" and i: "i < length s" "s ! i = SEntry p" "urlOf p = Some key"
    and only: "\<And>j. j < length s \<Longrightarrow> matches f urlOf s key j \<Longrightarrow> j = i"
    and free: "\<not> Valid s (ProbeInsert s key)" and q: "q \<notin> set (slotAddrs s)"
    and t: "t = s[nat (ProbeInsert s key) := SEntry q]"
    and urlOf': "urlOf' q = Some key" "\<And>p. p \<in> set (slotAddrs s) \<Longrightarrow> urlOf' p = urlOf p"
  shows "ProbeFind f urlOf' t key = Some (int i)"
proof -
  let ?n = "length s"
  let ?h = "HashUrl ?n key"
  let ?pos = "chainPos ?n ?h"
  have n0: "0 < ?n" using i by linarith
  then have lt: "?pos d < ?n" for d by simp
  have ok': "tbl_ok urlOf' s" by (rule tbl_ok_urlOf_cong [OF ok]) (rule urlOf'(2))
  have tok: "tbl_ok urlOf' t" "length t = ?n" using tbl_ok_insert [OF ok' urlOf'(1) q free t] by auto
  obtain k0 where j: "ProbeInsert s key = int (?pos k0)" using ProbeInsert_spec [OF n0, of key] by metis
  let ?j = "?pos k0"
  have noentry: "\<not> (\<exists>p. s ! ?j = SEntry p)" using free j lt by simp
  have t': "t = s[?j := SEntry q]" using t j by simp
  have same: "t ! d = s ! d" if "\<exists>p. s ! d = SEntry p" for d using that noentry t' by (metis nth_list_update_neq)
  obtain c where c: "c \<le> ?n div 2" "i = ?pos c" "\<forall>d < c. s ! ?pos d \<noteq> SNull"
    using tbl_okD(3) [OF ok i(1,2)] i(3) by (auto simp: reach_def)
  have mem: "p \<in> set (slotAddrs s)" using i by (auto simp: slotAddrs_set)
  have mi: "matches f urlOf' t key (?pos c)"
    using same [of i] i urlOf'(2) [OF mem] c(2) by (auto simp: matches_def)
  have entry: "\<exists>p. s ! ?pos d = SEntry p" if "d < c" for d
  proof (cases "s ! ?pos d")
    case SDeleted
    then have "SDeleted \<in> set s" using lt [of d] by (metis nth_mem)
    then show ?thesis using nodel by simp
  qed (use c(3) that in auto)
  have start: "?pos 0 = ?h" using HashUrl_lt [OF n0] by simp
  obtain r where r: "probeFind f urlOf' t key 0 ?h = Some r"
    "(\<exists>k. r = int (?pos k) \<and> (t ! ?pos k = SNull \<or> matches f urlOf' t key (?pos k)) \<and>
       (\<forall>d < k. t ! ?pos d \<noteq> SNull \<and> \<not> matches f urlOf' t key (?pos d))) \<or>
     (r = - 1 \<and> (\<forall>d. d \<le> ?n + 1 \<longrightarrow> t ! ?pos d \<noteq> SNull \<and> \<not> matches f urlOf' t key (?pos d)))"
    using probeFind_spec [OF tok(1), of 0 f key ?h] start unfolding tok(2) by auto
  consider (hit) k where "r = int (?pos k)" "t ! ?pos k = SNull \<or> matches f urlOf' t key (?pos k)"
      "\<forall>d < k. t ! ?pos d \<noteq> SNull \<and> \<not> matches f urlOf' t key (?pos d)"
    | (miss) "\<forall>d \<le> ?n + 1. t ! ?pos d \<noteq> SNull \<and> \<not> matches f urlOf' t key (?pos d)"
    using r(2) by blast
  then have "r = int i"
  proof cases
    case k: hit
    have "k \<le> c" using k(3) mi by (metis not_le_imp_less)
    show ?thesis
    proof (cases "k = c")
      case True
      then show ?thesis using k(1) c(2) by simp
    next
      case False
      then have "k < c" using \<open>k \<le> c\<close> by simp
      then obtain p' where p': "s ! ?pos k = SEntry p'" using entry by blast
      then have tk: "t ! ?pos k = SEntry p'" using same by metis
      have "p' \<in> set (slotAddrs s)" using p' lt [of k] by (auto simp: slotAddrs_set)
      then have "matches f urlOf s key (?pos k)" using k(2) tk p' urlOf'(2) by (auto simp: matches_def)
      then show ?thesis using only [OF lt] k(1) by simp
    qed
  next
    case miss
    then show ?thesis using mi c(1) by (metis One_nat_def add.right_neutral add_Suc_right div_le_dividend le_SucI le_trans)
  qed
  then show ?thesis using r(1) by (simp add: ProbeFind_def tok(2))
qed

end
