(* ===== verification/LookupTable.thy ===== *)
theory LookupTable
  imports StreamSpec TableSpec
begin

text \<open>
  The lookup table of the HTTP cache (\<open>CHttpCacheLookupTable\<close>,
  cache/src/HttpCacheLookupTable.cpp) on the world of the stream handler: the table owns the
  entries its slots point to. The slots and their probing are those of \<open>Probing\<close>. The
  allocations of the table itself succeed; \<open>fold_ch\<close> is the folding of \<open>CompareF\<close>.
\<close>

record table_world = stream_world +
  iEntries :: "slot list"
  iCount :: int

definition urlOf :: "'a ev_world_scheme \<Rightarrow> nat \<Rightarrow> tdes8 option" where
  "urlOf w p = map_option iUrl (heap w p)"

definition ltProbe :: "(byte \<Rightarrow> byte) \<Rightarrow> tdes8 \<Rightarrow> 'a table_world_scheme \<Rightarrow> int option" where
  "ltProbe fold_ch aKey w = ProbeFind fold_ch (urlOf w) (iEntries w) aKey"

text \<open>\<open>iEntries->At( pos )\<close> as an entry that is dereferenced.\<close>

definition entryAt :: "int \<Rightarrow> 'a table_world_scheme \<Rightarrow> (nat \<times> cache_entry) option" where
  "entryAt aPos w =
    (if BoundaryCheck (iEntries w) aPos then
       (case iEntries w ! nat aPos of SEntry p \<Rightarrow> map_option (Pair p) (heap w p) | _ \<Rightarrow> None)
     else None)"

definition ltFind :: "(byte \<Rightarrow> byte) \<Rightarrow> tdes8 \<Rightarrow> 'a table_world_scheme \<Rightarrow> nat option option" where
  "ltFind fold_ch aUrl w = do {
     pos \<leftarrow> ltProbe fold_ch aUrl w;
     if Valid (iEntries w) pos then do {
       (p, e) \<leftarrow> entryAt pos w;
       Some (if iBodySize e = 0 \<and> iState e = ECacheComplete then None else Some p) }
     else Some None }"

definition ltErase :: "io \<Rightarrow> int \<Rightarrow> 'a table_world_scheme \<Rightarrow> 'a table_world_scheme option" where
  "ltErase io aPos w =
    (if \<not> BoundaryCheck (iEntries w) aPos then None
     else case iEntries w ! nat aPos of
       SNull \<Rightarrow> Some w
     | SDeleted \<Rightarrow> None
     | SEntry p \<Rightarrow> do {
         w1 \<leftarrow> shErase io p w;
         w2 \<leftarrow> entryDelete p (w1\<lparr>iEntries := SetDeleted (iEntries w1) aPos\<rparr>);
         Some (w2\<lparr>iCount := iCount w2 - 1\<rparr>) })"

definition ltRemove :: "(byte \<Rightarrow> byte) \<Rightarrow> io \<Rightarrow> tdes8 \<Rightarrow> 'a table_world_scheme \<Rightarrow> (symerr \<times> 'a table_world_scheme) option" where
  "ltRemove fold_ch io aUrl w = do {
     pos \<leftarrow> ltProbe fold_ch aUrl w;
     if Valid (iEntries w) pos then do {
       (p, e) \<leftarrow> entryAt pos w;
       if iState e = ECacheComplete then do { w1 \<leftarrow> ltErase io pos w; Some (KErrNone, w1) }
       else Some (KErrNotFound, w) }
     else Some (KErrNotFound, w) }"

definition ltEraseCacheEntry :: "(byte \<Rightarrow> byte) \<Rightarrow> io \<Rightarrow> tdes8 \<Rightarrow> 'a table_world_scheme \<Rightarrow> 'a table_world_scheme option" where
  "ltEraseCacheEntry fold_ch io aUrl w = do {
     pos \<leftarrow> ltProbe fold_ch aUrl w;
     if Valid (iEntries w) pos then ltErase io pos w else Some w }"

text \<open>\<open>RemoveAll\<close>, from slot \<open>i\<close> for \<open>k\<close> slots; the erased bytes are summed in 32 bits.\<close>

primrec ltRemoveFrom :: "io \<Rightarrow> nat \<Rightarrow> nat \<Rightarrow> 32 word \<Rightarrow> 'a table_world_scheme \<Rightarrow> (32 word \<times> 'a table_world_scheme) option" where
  "ltRemoveFrom io 0 i numberOfBytes w = Some (numberOfBytes, w)"
| "ltRemoveFrom io (Suc k) i numberOfBytes w =
    (if Valid (iEntries w) (int i) then do {
       (p, e) \<leftarrow> entryAt (int i) w;
       if iState e = ECacheComplete then do {
         w1 \<leftarrow> ltErase io (int i) w;
         ltRemoveFrom io k (Suc i) (numberOfBytes + (ucast (iHeaderSize e) + iBodySize e)) w1 }
       else ltRemoveFrom io k (Suc i) numberOfBytes w }
     else ltRemoveFrom io k (Suc i) numberOfBytes w)"

definition ltRemoveAll :: "io \<Rightarrow> 'a table_world_scheme \<Rightarrow> (32 word \<times> 'a table_world_scheme) option" where
  "ltRemoveAll io w = ltRemoveFrom io (length (iEntries w)) 0 0 w"

text \<open>The names of the body files; \<open>reserved\<close> is the result of \<open>Reserve\<close>.\<close>

definition ltListFiles :: "symerr \<Rightarrow> tdes16 list \<Rightarrow> 'a table_world_scheme \<Rightarrow> (symerr \<times> tdes16 list) option" where
  "ltListFiles reserved aFilenameList w =
    (if reserved = KErrNone then
       map_option (\<lambda>ns. (KErrNone, aFilenameList @ ns))
         (those (map (\<lambda>p. Option.bind (heap w p) iFileName) (slotAddrs (iEntries w))))
     else Some (reserved, aFilenameList))"

definition ltInsertEntryL :: "nat \<Rightarrow> 'a table_world_scheme \<Rightarrow> (symerr \<times> 'a table_world_scheme) option" where
  "ltInsertEntryL p w =
     map_option (\<lambda>(err, n, s). (err, w\<lparr>iEntries := s, iCount := n\<rparr>)) (tblInsertL (urlOf w) p (iCount w) (iEntries w))"

text \<open>\<open>InsertL( aUrl )\<close>; \<open>p\<close> is the address the heap gives to the new entry.\<close>

definition ltInsertL :: "io \<Rightarrow> (tdes8 \<Rightarrow> 32 word) \<Rightarrow> tdes16 \<Rightarrow> int \<Rightarrow> tdes8 \<Rightarrow> nat \<Rightarrow> 'a table_world_scheme \<Rightarrow>
    (nat option \<times> 'a table_world_scheme) option" where
  "ltInsertL io crc32 sessionPath now aUrl p w = do {
     let w0 = w\<lparr>heap := (heap w)(p \<mapsto> entryNewL aUrl)\<rparr>;
     (err, w1) \<leftarrow> ltInsertEntryL p w0;
     if err = KErrCorrupt then do { w2 \<leftarrow> entryDelete p w1; Some (None, w2) }
     else do {
       w2 \<leftarrow> entryAccessed now p w1;
       w3 \<leftarrow> InitialiseCacheEntryL io crc32 sessionPath p w2;
       Some (Some p, w3) } }"

subsection \<open>Iteration\<close>

record lt_iter =
  iterPos :: nat
  iterCount :: int

definition BeginEntryIteration :: "'a table_world_scheme \<Rightarrow> lt_iter" where
  "BeginEntryIteration w = \<lparr>iterPos = 0, iterCount = iCount w\<rparr>"

function NextEntry :: "slot list \<Rightarrow> lt_iter \<Rightarrow> nat option \<times> lt_iter" where
  "NextEntry s it =
    (if iterPos it < length s then
       (case s ! iterPos it of
          SEntry p \<Rightarrow> (Some p, it\<lparr>iterPos := Suc (iterPos it)\<rparr>)
        | _ \<Rightarrow> NextEntry s (it\<lparr>iterPos := Suc (iterPos it)\<rparr>))
     else (None, it))"
  by pat_completeness auto
termination by (relation "measure (\<lambda>(s, it). length s - iterPos it)") auto

declare NextEntry.simps [simp del]

text \<open>The loop of its callers: call \<open>NextEntry\<close> until it returns null.\<close>

fun iterateEntries :: "nat \<Rightarrow> slot list \<Rightarrow> lt_iter \<Rightarrow> nat list" where
  "iterateEntries 0 s it = []"
| "iterateEntries (Suc k) s it =
    (case NextEntry s it of (None, _) \<Rightarrow> [] | (Some p, it') \<Rightarrow> p # iterateEntries k s it')"

end
