(* ===== verification/LookupSpec.thy ===== *)
theory LookupSpec
  imports LookupTable
begin

text \<open>
  The lookup table refines a finite map from URLs to entries: the invariant of the whole world
  (table, filing, ownership of the heap, byte count), what each operation does to it, and the
  inputs at which the refinement fails.
\<close>

subsection \<open>The invariant\<close>

text \<open>
  The table is sound and at most half full, its entries are exactly the live ones and each has a
  file name, the buckets are consistent, and the byte count is the sum of the entries' sizes.
\<close>

definition lt_ok :: "'a table_world_scheme \<Rightarrow> bool" where
  "lt_ok w \<longleftrightarrow> tbl_ok (urlOf w) (iEntries w) \<and> iCount w = int (tblCount (iEntries w)) \<and>
     tblCount (iEntries w) \<le> length (iEntries w) div 2 \<and> ev_ok w \<and>
     dom (heap w) = set (slotAddrs (iEntries w)) \<and> (\<forall>p e. heap w p = Some e \<longrightarrow> iFileName e \<noteq> None) \<and>
     iContentSize w = (\<Sum>p \<in> set (slotAddrs (iEntries w)). entrySpace w p)"

lemma lt_okD:
  assumes "lt_ok w"
  shows "tbl_ok (urlOf w) (iEntries w)" "iCount w = int (tblCount (iEntries w))"
    "tblCount (iEntries w) \<le> length (iEntries w) div 2" "ev_ok w" "dom (heap w) = set (slotAddrs (iEntries w))"
    "heap w p = Some e \<Longrightarrow> \<exists>n. iFileName e = Some n"
    "iContentSize w = (\<Sum>p \<in> set (slotAddrs (iEntries w)). entrySpace w p)"
  using assms by (auto simp: lt_ok_def)

lemma lt_ok_live:
  assumes "lt_ok w" "i < length (iEntries w)" "iEntries w ! i = SEntry p"
  shows "\<exists>e. heap w p = Some e" "p \<in> set (slotAddrs (iEntries w))"
proof -
  show "p \<in> set (slotAddrs (iEntries w))" using assms(2,3) by (auto simp: slotAddrs_set)
  then show "\<exists>e. heap w p = Some e" using lt_okD(5) [OF assms(1)] by auto
qed

lemma ev_frame_fields:
  fixes w :: "'a table_world_scheme"
  assumes "ev_frame w w'"
  shows "iEntries w' = iEntries w" "iCount w' = iCount w" "iContentSize w' = iContentSize w"
    "disk w' = disk w" "writers w' = writers w" "iCriticalLevel w' = iCriticalLevel w"
  using assms by (auto simp: ev_frame_def)

lemma entrySpace_cong: "heap w p = heap w' p \<Longrightarrow> entrySpace w p = entrySpace w' p"
  by (simp add: entrySpace_def)

subsection \<open>Erasing\<close>

lemma shErase_ok:
  assumes "heap w p = Some e" "iFileName e = Some n" "ev_ok w"
  shows "\<exists>w' e'. shErase io p w = Some w' \<and> heap w' = (heap w)(p \<mapsto> e') \<and> ev_ok w' \<and>
    iUrl e' = iUrl e \<and> iState e' = iState e \<and> iDeleteObserver e' = iDeleteObserver e"
proof -
  obtain w1 where w1: "worldCancelBodyWrite p w = Some w1"
    using assms(1) by (cases "writers w p") (auto simp: worldCancelBodyWrite_def Let_def)
  obtain e' where e': "heap w1 p = Some e'" "iUrl e' = iUrl e" "iState e' = iState e" "iFileName e' = iFileName e"
    "iEvictionCandidate e' = iEvictionCandidate e" "iRef e' = iRef e" "iBodySize e' = iBodySize e"
    "\<forall>q. q \<noteq> p \<longrightarrow> heap w1 q = heap w q" "iBuckets w1 = iBuckets w"
    using worldCancelBodyWrite_frame [OF w1] assms(1) by auto
  have obs: "iDeleteObserver e' = iDeleteObserver e"
    using w1 e'(1) assms(1)
    by (auto simp: worldCancelBodyWrite_def CancelBodyWrite_def wrDoCancel_def BodyWriteComplete_def SetBodyDataCached_def
        SetBodyDataPartiallyWritten_def setWriteStateBit_def Let_def split: option.splits if_splits)
  have h: "heap w1 = (heap w)(p \<mapsto> e')" using e' by (auto simp: fun_eq_iff)
  define w' where "w' = (deleteFile io n w1)\<lparr>iContentSize := iContentSize w1 - iBodySize e' - ucast (iHeaderSize e')\<rparr>"
  have h': "heap w' = heap w1" "iBuckets w' = iBuckets w1" by (simp_all add: w'_def deleteFile_def)
  have "shErase io p w = Some w'" using w1 e' assms(2) by (simp add: shErase_def w'_def)
  moreover have "ev_ok w'"
    by (rule ev_ok_irrelevant [OF assms(3,1), of "\<lambda>_. e'"]) (use e' h h' in simp_all)
  ultimately show ?thesis using h h' e' obs by (intro exI [of _ w'] exI [of _ e']) simp
qed

lemma shErase_table: "shErase io p w = Some w' \<Longrightarrow> iEntries w' = iEntries w \<and> iCount w' = iCount w"
  by (auto simp: shErase_def worldCancelBodyWrite_def deleteFile_def Let_def split: Option.bind_splits option.splits if_splits)

lemma ltErase_ok [inv_intros]:
  assumes ok: "lt_ok w" and i: "i < length (iEntries w)" "iEntries w ! i = SEntry p"
  shows "\<exists>w'. ltErase io (int i) w = Some w' \<and> lt_ok w' \<and> heap w' = (heap w)(p := None) \<and>
    iEntries w' = (iEntries w)[i := SDeleted] \<and> iCount w' = iCount w - 1"
proof -
  obtain e where e: "heap w p = Some e" using lt_ok_live(1) [OF ok i] by blast
  obtain n where n: "iFileName e = Some n" using lt_okD(6) [OF ok e] by blast
  obtain w1 e1 where w1: "shErase io p w = Some w1" "heap w1 = (heap w)(p \<mapsto> e1)" "ev_ok w1"
    using shErase_ok [OF e n lt_okD(4) [OF ok]] by blast
  let ?s = "iEntries w" and ?t = "(iEntries w)[i := SDeleted]"
  have t1: "iEntries w1 = ?s" "iCount w1 = iCount w" using shErase_table [OF w1(1)] by auto
  define w2 where "w2 = w1\<lparr>iEntries := SetDeleted (iEntries w1) (int i)\<rparr>"
  have ok2: "ev_ok w2" by (rule ev_ok_cong [OF w1(3)]) (simp_all add: w2_def)
  have "heap w2 p = Some e1" by (simp add: w2_def w1)
  from entryDelete_ok [OF ok2 this] obtain w3 where w3: "entryDelete p w2 = Some w3" "ev_ok w3" "heap w3 = (heap w2)(p := None)"
    by blast
  note fr = ev_frame_fields [OF entryDelete_ev_frame [OF w3(1)]]
  define w' where "w' = w3\<lparr>iCount := iCount w3 - 1\<rparr>"
  have run: "ltErase io (int i) w = Some w'" using i w1 w3 by (simp add: ltErase_def w2_def w'_def)
  have h: "heap w' = (heap w)(p := None)" using w3(3) by (simp add: w'_def w2_def w1 fun_eq_iff)
  have s': "iEntries w' = ?t" using fr i t1 by (simp add: w'_def w2_def SetDeleted_def)
  have c': "iCount w' = iCount w - 1" using fr t1 by (simp add: w'_def w2_def)
  note er = tbl_ok_erase [OF lt_okD(1) [OF ok] i refl]
  have p_in: "p \<in> set (slotAddrs ?s)" using lt_ok_live(2) [OF ok i] .
  have size: "iContentSize w' = (\<Sum>q \<in> set (slotAddrs ?t). entrySpace w' q)"
  proof -
    have "(\<Sum>q \<in> set (slotAddrs ?s). entrySpace w q) =
        entrySpace w p + (\<Sum>q \<in> set (slotAddrs ?s) - {p}. entrySpace w q)"
      using p_in by (simp add: sum.remove)
    also have "(\<Sum>q \<in> set (slotAddrs ?s) - {p}. entrySpace w q) = (\<Sum>q \<in> set (slotAddrs ?t). entrySpace w' q)"
      using er h by (intro sum.cong) (auto simp: entrySpace_def)
    finally have "iContentSize w = (\<Sum>q \<in> set (slotAddrs ?t). entrySpace w' q) + entrySpace w p"
      using lt_okD(7) [OF ok] by simp
    from shErase_count [OF w1(1) this] show ?thesis using fr by (simp add: w'_def w2_def)
  qed
  have urls: "urlOf w' q = urlOf w q" if "q \<in> set (slotAddrs ?t)" for q using that er h by (auto simp: urlOf_def)
  have "lt_ok w'"
    unfolding lt_ok_def s'
  proof (intro conjI)
    show "tbl_ok (urlOf w') ?t" using tbl_ok_urlOf_cong [of "urlOf w" ?t "urlOf w'"] er urls by blast
    show "iCount w' = int (tblCount ?t)" using c' er lt_okD(2) [OF ok] by simp
    show "tblCount ?t \<le> length ?t div 2" using er lt_okD(3) [OF ok] by simp
    show "ev_ok w'" by (rule ev_ok_cong [OF w3(2)]) (simp_all add: w'_def)
    show "dom (heap w') = set (slotAddrs ?t)" using er lt_okD(5) [OF ok] h by auto
    show "\<forall>q e. heap w' q = Some e \<longrightarrow> iFileName e \<noteq> None" using lt_okD(6) [OF ok] h by (auto split: if_splits)
  qed (use size in simp)
  then show ?thesis using run h s' c' by blast
qed

subsection \<open>Inserting\<close>

lemma lt_ok_fresh: "lt_ok w \<Longrightarrow> heap w p = None \<Longrightarrow> p \<notin> set (slotAddrs (iEntries w))"
  using lt_okD(5) [of w] by auto

lemma ltInsertEntryL_ok:
  assumes ok: "lt_ok w" and fresh: "heap w p = None" and grow: "growable (iEntries w)"
    and w0: "w0 = w\<lparr>heap := (heap w)(p \<mapsto> e)\<rparr>"
  shows "\<exists>t. ltInsertEntryL p w0 = Some (KErrNone, w0\<lparr>iEntries := t, iCount := int (tblCount t)\<rparr>) \<and>
    tbl_ok (urlOf w0) t \<and> set (slotAddrs t) = insert p (set (slotAddrs (iEntries w))) \<and> tblCount t \<le> length t div 2 \<and>
    (length t = length (iEntries w) \<or> (\<exists>q. NextPrime (of_nat (length (iEntries w) * 2)) = Some q \<and> length t = unat q))"
proof -
  have new: "p \<notin> set (slotAddrs (iEntries w))" using lt_ok_fresh [OF ok fresh] .
  have t0: "tbl_ok (urlOf w0) (iEntries w)"
    by (rule tbl_ok_urlOf_cong [OF lt_okD(1) [OF ok]]) (use new in \<open>auto simp: urlOf_def w0\<close>)
  have u: "urlOf w0 p = Some (iUrl e)" by (simp add: urlOf_def w0)
  show ?thesis
    using tblInsertL_spec [OF t0 lt_okD(3) [OF ok] grow u new] lt_okD(2) [OF ok]
    by (auto simp: ltInsertEntryL_def w0)
qed

lemma InitialiseCacheEntryL_ok:
  assumes ok: "ev_ok w" and e: "heap w p = Some e"
  shows "\<exists>w' n. InitialiseCacheEntryL io crc32 dir p w = Some w' \<and> ev_ok w' \<and>
    heap w' = (heap w)(p \<mapsto> e\<lparr>iFileName := Some n, iState := ECacheInitialized\<rparr>) \<and>
    n = GenerateNameLC crc32 (iUrl e) dir \<and> (\<exists>d. ev_frame (w\<lparr>disk := d\<rparr>) w')"
proof -
  define n where "n = GenerateNameLC crc32 (iUrl e) dir"
  define w1 where "w1 = updEntry p (SetFileNameL n) w"
  have h1: "heap w1 = (heap w)(p \<mapsto> SetFileNameL n e)" using e by (auto simp: w1_def fun_eq_iff)
  have ok1: "ev_ok w1"
    by (rule ev_ok_irrelevant [OF ok e, of "SetFileNameL n"]) (use h1 in \<open>simp_all add: SetFileNameL_def w1_def\<close>)
  have e1: "heap w1 p = Some (SetFileNameL n e)" using h1 by simp
  obtain w2 where w2: "entrySetState p ECacheInitialized w1 = Some w2" "ev_ok w2"
    "heap w2 = (heap w1)(p \<mapsto> (SetFileNameL n e)\<lparr>iState := ECacheInitialized,
       iEvictionCandidate := iEvictionCandidate (SetFileNameL n e)\<rparr>)"
    using entrySetState_ok [OF ok1 e1, of ECacheInitialized] by auto
  define w' where "w' = deleteFile io (GetHeaderFileName n) (deleteFile io n w2)"
  have fr: "ev_frame w w2" using entrySetState_ev_frame [OF w2(1)] ev_frame_basic(1) ev_frame_trans
    unfolding w1_def by blast
  have "\<exists>d. w' = w2\<lparr>disk := d\<rparr>" by (cases "ioDelete io") (auto simp: w'_def deleteFile_def intro: exI [of _ "disk w2"])
  then obtain d where d: "w' = w2\<lparr>disk := d\<rparr>" by blast
  have "ev_frame (w\<lparr>disk := d\<rparr>) w'"
  proof -
    obtain h b dn where "w2 = w\<lparr>heap := h, iBuckets := b, deleteNotices := dn\<rparr>" using fr by (auto simp: ev_frame_def)
    then show ?thesis unfolding d ev_frame_def
      by (intro exI [of _ h] exI [of _ b] exI [of _ dn]) simp
  qed
  moreover have "ev_ok w'" by (rule ev_ok_cong [OF w2(2)]) (simp_all add: d)
  moreover have "InitialiseCacheEntryL io crc32 dir p w = Some w'"
    using e w2(1) by (simp add: InitialiseCacheEntryL_def Let_def n_def [symmetric] w1_def [symmetric] w'_def)
  moreover have "heap w' = (heap w)(p \<mapsto> e\<lparr>iFileName := Some n, iState := ECacheInitialized\<rparr>)"
    using w2(3) h1 by (simp add: d SetFileNameL_def)
  ultimately show ?thesis using n_def by blast
qed

definition freshEntry :: "cache_entry \<Rightarrow> tdes8 \<Rightarrow> int \<Rightarrow> tdes16 \<Rightarrow> bool" where
  "freshEntry e u now n \<longleftrightarrow> e = (entryNewL u)\<lparr>iLastAccessed := now, iRef := 1, iFileName := Some n, iState := ECacheInitialized\<rparr>"

lemma ltInsertL_ok [inv_intros]:
  assumes ok: "lt_ok w" and fresh: "heap w p = None" and grow: "growable (iEntries w)"
  shows "\<exists>w' e. ltInsertL io crc32 dir now u p w = Some (Some p, w') \<and> lt_ok w' \<and> heap w' = (heap w)(p \<mapsto> e) \<and>
    freshEntry e u now (GenerateNameLC crc32 u dir)"
proof -
  define w0 where "w0 = w\<lparr>heap := (heap w)(p \<mapsto> entryNewL u)\<rparr>"
  obtain t where t: "ltInsertEntryL p w0 = Some (KErrNone, w0\<lparr>iEntries := t, iCount := int (tblCount t)\<rparr>)"
    "tbl_ok (urlOf w0) t" "set (slotAddrs t) = insert p (set (slotAddrs (iEntries w)))" "tblCount t \<le> length t div 2"
    using ltInsertEntryL_ok [OF ok fresh grow w0_def] by blast
  define w1 where "w1 = w0\<lparr>iEntries := t, iCount := int (tblCount t)\<rparr>"
  have ok1: "ev_ok w1"
    by (rule ev_ok_new [OF lt_okD(4) [OF ok] fresh, of "entryNewL u"]) (simp_all add: w1_def w0_def entryNewL_def)
  have h1: "heap w1 p = Some (entryNewL u)" "heap w1 = (heap w)(p \<mapsto> entryNewL u)" by (simp_all add: w1_def w0_def)
  have "iRef (entryNewL u) + 1 \<noteq> 0" by (simp add: entryNewL_def)
  from entryAccessed_ok [OF ok1 h1(1) this, of now] obtain w2 where w2: "entryAccessed now p w1 = Some w2" "ev_ok w2"
    "heap w2 = (heap w1)(p \<mapsto> (entryNewL u)\<lparr>iLastAccessed := now, iRef := 1\<rparr>)"
    by (auto simp: entryNewL_def)
  have e2: "heap w2 p = Some ((entryNewL u)\<lparr>iLastAccessed := now, iRef := 1\<rparr>)" using w2(3) by simp
  let ?n = "GenerateNameLC crc32 u dir"
  let ?e = "(entryNewL u)\<lparr>iLastAccessed := now, iRef := 1, iFileName := Some ?n, iState := ECacheInitialized\<rparr>"
  obtain w3 d where w3: "InitialiseCacheEntryL io crc32 dir p w2 = Some w3" "ev_ok w3" "heap w3 = (heap w)(p \<mapsto> ?e)"
    "ev_frame (w2\<lparr>disk := d\<rparr>) w3"
    using InitialiseCacheEntryL_ok [OF w2(2) e2, of io crc32 dir] w2(3) h1(2) by (auto simp: entryNewL_def)
  note f2 = ev_frame_fields [OF entryAccessed_ev_frame [OF w2(1)]] and f3 = ev_frame_fields [OF w3(4)]
  have s3: "iEntries w3 = t" "iCount w3 = int (tblCount t)" "iContentSize w3 = iContentSize w"
    using f2 f3 by (simp_all add: w1_def w0_def)
  have new: "p \<notin> set (slotAddrs (iEntries w))" using lt_ok_fresh [OF ok fresh] .
  have "lt_ok w3"
    unfolding lt_ok_def s3
  proof (intro conjI)
    show "tbl_ok (urlOf w3) t"
      by (rule tbl_ok_urlOf_cong [OF t(2)]) (use w3(3) in \<open>auto simp: urlOf_def w0_def entryNewL_def\<close>)
    show "dom (heap w3) = set (slotAddrs t)" using w3(3) t(3) lt_okD(5) [OF ok] by auto
    show "\<forall>q e. heap w3 q = Some e \<longrightarrow> iFileName e \<noteq> None" using w3(3) lt_okD(6) [OF ok] by auto
    have "(\<Sum>q \<in> set (slotAddrs t). entrySpace w3 q) = entrySpace w3 p + (\<Sum>q \<in> set (slotAddrs (iEntries w)). entrySpace w3 q)"
      using t(3) new by simp
    also have "(\<Sum>q \<in> set (slotAddrs (iEntries w)). entrySpace w3 q) = (\<Sum>q \<in> set (slotAddrs (iEntries w)). entrySpace w q)"
      using new w3(3) by (intro sum.cong) (auto simp: entrySpace_def)
    finally show "iContentSize w = (\<Sum>q \<in> set (slotAddrs t). entrySpace w3 q)"
      using w3(3) lt_okD(7) [OF ok] by (simp add: entrySpace_def entryNewL_def)
  qed (use t w3 in simp_all)
  moreover have "ltInsertL io crc32 dir now u p w = Some (Some p, w3)"
    using t(1) w2(1) w3(1) by (simp add: ltInsertL_def Let_def w0_def [symmetric] w1_def)
  ultimately show ?thesis using w3(3) by (auto simp: freshEntry_def)
qed

subsection \<open>Looking up\<close>

lemma ltProbe_ok:
  assumes ok: "lt_ok w"
  shows "\<exists>r. ltProbe f key w = Some r \<and>
    (Valid (iEntries w) r \<longrightarrow> (\<exists>p e. r = int (nat r) \<and> nat r < length (iEntries w) \<and>
       iEntries w ! nat r = SEntry p \<and> heap w p = Some e \<and> des_eqF f (iUrl e) key \<and> entryAt r w = Some (p, e))) \<and>
    (\<forall>p e. heap w p = Some e \<longrightarrow> des_eqF f (iUrl e) key \<longrightarrow>
       HashUrl (length (iEntries w)) (iUrl e) = HashUrl (length (iEntries w)) key \<longrightarrow> Valid (iEntries w) r)"
proof -
  obtain r where r: "ProbeFind f (urlOf w) (iEntries w) key = Some r"
    "Valid (iEntries w) r \<longrightarrow> 0 \<le> r \<and> nat r < length (iEntries w) \<and> matches f (urlOf w) (iEntries w) key (nat r)"
    "\<forall>p \<in> set (slotAddrs (iEntries w)). \<forall>u. urlOf w p = Some u \<longrightarrow> des_eqF f u key \<longrightarrow>
       HashUrl (length (iEntries w)) u = HashUrl (length (iEntries w)) key \<longrightarrow> Valid (iEntries w) r"
    using ProbeFind_ok [OF lt_okD(1) [OF ok]] by blast
  have "p \<in> set (slotAddrs (iEntries w))" if "heap w p = Some e" for p e using lt_okD(5) [OF ok] that by auto
  then have "\<forall>p e. heap w p = Some e \<longrightarrow> des_eqF f (iUrl e) key \<longrightarrow>
      HashUrl (length (iEntries w)) (iUrl e) = HashUrl (length (iEntries w)) key \<longrightarrow> Valid (iEntries w) r"
    using r(3) by (metis option.map(2) urlOf_def)
  moreover have "Valid (iEntries w) r \<longrightarrow> (\<exists>p e. r = int (nat r) \<and> nat r < length (iEntries w) \<and>
      iEntries w ! nat r = SEntry p \<and> heap w p = Some e \<and> des_eqF f (iUrl e) key \<and> entryAt r w = Some (p, e))"
    using r(2) by (auto simp: matches_def urlOf_def entryAt_def BoundaryCheck_def)
  ultimately show ?thesis using r(1) by (simp add: ltProbe_def)
qed

text \<open>Whether \<open>Find\<close> may hand an entry out: complete entries without a body are of no use.\<close>

definition usable :: "cache_entry \<Rightarrow> bool" where
  "usable e \<longleftrightarrow> \<not> (iBodySize e = 0 \<and> iState e = ECacheComplete)"

text \<open>No two live entries answer to the same URL, and none answers to \<open>key\<close> but under \<open>key\<close> itself.\<close>

definition urls_distinct :: "(byte \<Rightarrow> byte) \<Rightarrow> tdes8 \<Rightarrow> 'a table_world_scheme \<Rightarrow> bool" where
  "urls_distinct f key w \<longleftrightarrow>
     (\<forall>p e. heap w p = Some e \<longrightarrow> des_eqF f (iUrl e) key \<longrightarrow> iUrl e = key) \<and>
     (\<forall>p q e e'. heap w p = Some e \<longrightarrow> heap w q = Some e' \<longrightarrow> iUrl e = key \<longrightarrow> iUrl e' = key \<longrightarrow> p = q)"

lemma ltFind_spec:
  assumes ok: "lt_ok w" and d: "urls_distinct f key w"
  shows "\<exists>r. ltFind f key w = Some r \<and>
    (\<forall>p. r = Some p \<longleftrightarrow> (\<exists>e. heap w p = Some e \<and> iUrl e = key \<and> usable e))"
proof -
  obtain pos where pos: "ltProbe f key w = Some pos"
    "Valid (iEntries w) pos \<longrightarrow> (\<exists>p e. heap w p = Some e \<and> des_eqF f (iUrl e) key \<and> entryAt pos w = Some (p, e))"
    "\<forall>p e. heap w p = Some e \<longrightarrow> des_eqF f (iUrl e) key \<longrightarrow>
       HashUrl (length (iEntries w)) (iUrl e) = HashUrl (length (iEntries w)) key \<longrightarrow> Valid (iEntries w) pos"
    using ltProbe_ok [OF ok, of f key] by blast
  show ?thesis
  proof (cases "Valid (iEntries w) pos")
    case True
    then obtain p e where e: "heap w p = Some e" "des_eqF f (iUrl e) key" "entryAt pos w = Some (p, e)" using pos(2) by blast
    have u: "iUrl e = key" using d e by (auto simp: urls_distinct_def)
    have only: "q = p" if "heap w q = Some e'" "iUrl e' = key" for q e'
      using d that e(1) u unfolding urls_distinct_def by blast
    have find: "ltFind f key w = Some (if usable e then Some p else None)"
      using pos(1) True e(3) by (simp add: ltFind_def usable_def)
    show ?thesis
    proof (intro exI conjI allI)
      fix q
      show "(if usable e then Some p else None) = Some q \<longleftrightarrow> (\<exists>e. heap w q = Some e \<and> iUrl e = key \<and> usable e)"
      proof (cases "q = p")
        case True
        then show ?thesis using e(1) u by simp
      next
        case False
        then have "\<not> (\<exists>e'. heap w q = Some e' \<and> iUrl e' = key)" using only by blast
        then show ?thesis using False by auto
      qed
    qed (rule find)
  next
    case False
    have none: "\<not> (heap w p = Some e \<and> iUrl e = key)" for p e
    proof
      assume "heap w p = Some e \<and> iUrl e = key"
      then have "Valid (iEntries w) pos" using pos(3) des_eqF_refl by metis
      then show False using False by simp
    qed
    have "ltFind f key w = Some None" using pos(1) False by (simp add: ltFind_def)
    then show ?thesis using none by blast
  qed
qed

lemma ltFind_sound:
  assumes ok: "lt_ok w"
  shows "\<exists>r. ltFind f key w = Some r \<and>
    (\<forall>p. r = Some p \<longrightarrow> (\<exists>e. heap w p = Some e \<and> des_eqF f (iUrl e) key \<and> usable e))"
proof -
  obtain pos where pos: "ltProbe f key w = Some pos"
    "Valid (iEntries w) pos \<longrightarrow> (\<exists>p e. heap w p = Some e \<and> des_eqF f (iUrl e) key \<and> entryAt pos w = Some (p, e))"
    using ltProbe_ok [OF ok, of f key] by blast
  then show ?thesis by (cases "Valid (iEntries w) pos") (auto simp: ltFind_def usable_def)
qed

subsection \<open>Removing\<close>

definition sub_heap :: "'a ev_world_scheme \<Rightarrow> 'a ev_world_scheme \<Rightarrow> bool" where
  "sub_heap w' w \<longleftrightarrow> heap w' \<subseteq>\<^sub>m heap w"

lemma ltErase_at:
  assumes ok: "lt_ok w" and v: "r = int (nat r)" "nat r < length (iEntries w)" "iEntries w ! nat r = SEntry p"
  shows "\<exists>w'. ltErase io r w = Some w' \<and> lt_ok w' \<and> heap w' = (heap w)(p := None) \<and> length (iEntries w') = length (iEntries w)"
proof -
  from ltErase_ok [OF ok v(2,3), of io] obtain w' where "ltErase io (int (nat r)) w = Some w'" "lt_ok w'"
    "heap w' = (heap w)(p := None)" "length (iEntries w') = length (iEntries w)" by auto
  then show ?thesis using v(1) by metis
qed

lemma ltRemove_spec:
  assumes ok: "lt_ok w"
  shows "\<exists>err w'. ltRemove f io key w = Some (err, w') \<and> lt_ok w' \<and> length (iEntries w') = length (iEntries w) \<and>
    ((err = KErrNone \<and> (\<exists>p e. heap w p = Some e \<and> des_eqF f (iUrl e) key \<and> iState e = ECacheComplete \<and>
        heap w' = (heap w)(p := None))) \<or> (err = KErrNotFound \<and> w' = w))"
proof -
  obtain pos where pos: "ltProbe f key w = Some pos"
    "Valid (iEntries w) pos \<longrightarrow> (\<exists>p e. pos = int (nat pos) \<and> nat pos < length (iEntries w) \<and>
       iEntries w ! nat pos = SEntry p \<and> heap w p = Some e \<and> des_eqF f (iUrl e) key \<and> entryAt pos w = Some (p, e))"
    using ltProbe_ok [OF ok, of f key] by blast
  show ?thesis
  proof (cases "Valid (iEntries w) pos")
    case True
    then obtain p e where e: "pos = int (nat pos)" "nat pos < length (iEntries w)" "iEntries w ! nat pos = SEntry p"
      "heap w p = Some e" "des_eqF f (iUrl e) key" "entryAt pos w = Some (p, e)" using pos(2) by blast
    obtain w' where "ltErase io pos w = Some w'" "lt_ok w'" "heap w' = (heap w)(p := None)"
      "length (iEntries w') = length (iEntries w)"
      using ltErase_at [OF ok e(1-3)] by blast
    then show ?thesis using pos(1) True e ok by (cases "iState e = ECacheComplete") (auto simp: ltRemove_def)
  next
    case False
    then show ?thesis using pos(1) ok by (auto simp: ltRemove_def)
  qed
qed

lemma ltEraseCacheEntry_spec:
  assumes ok: "lt_ok w"
  shows "\<exists>w'. ltEraseCacheEntry f io key w = Some w' \<and> lt_ok w' \<and> length (iEntries w') = length (iEntries w) \<and>
    (w' = w \<or> (\<exists>p e. heap w p = Some e \<and> des_eqF f (iUrl e) key \<and> heap w' = (heap w)(p := None)))"
proof -
  obtain pos where pos: "ltProbe f key w = Some pos"
    "Valid (iEntries w) pos \<longrightarrow> (\<exists>p e. pos = int (nat pos) \<and> nat pos < length (iEntries w) \<and>
       iEntries w ! nat pos = SEntry p \<and> heap w p = Some e \<and> des_eqF f (iUrl e) key \<and> entryAt pos w = Some (p, e))"
    using ltProbe_ok [OF ok, of f key] by blast
  show ?thesis
  proof (cases "Valid (iEntries w) pos")
    case True
    then obtain p e where e: "pos = int (nat pos)" "nat pos < length (iEntries w)" "iEntries w ! nat pos = SEntry p"
      "heap w p = Some e" "des_eqF f (iUrl e) key" using pos(2) by blast
    show ?thesis using ltErase_at [OF ok e(1-3), of io] pos(1) True e by (auto simp: ltEraseCacheEntry_def)
  next
    case False
    then show ?thesis using pos(1) ok by (auto simp: ltEraseCacheEntry_def)
  qed
qed

subsection \<open>Changing an entry in place\<close>

lemma lt_ok_upd:
  assumes ok: "lt_ok w" and e: "heap w p = Some e" and w': "heap w' = (heap w)(p \<mapsto> e')" "ev_ok w'"
    "iEntries w' = iEntries w" "iCount w' = iCount w" "iContentSize w' = iContentSize w + entrySpaceOf e' - entrySpaceOf e"
    and same: "iUrl e' = iUrl e" "iFileName e' \<noteq> None"
  shows "lt_ok w'"
proof -
  have p: "p \<in> set (slotAddrs (iEntries w))" using lt_okD(5) [OF ok] e by auto
  have "(\<Sum>q \<in> set (slotAddrs (iEntries w)). entrySpace w' q) =
      entrySpace w' p + (\<Sum>q \<in> set (slotAddrs (iEntries w)) - {p}. entrySpace w q)"
    using p w'(1) by (subst sum.remove [of _ p]) (auto simp: entrySpace_def intro!: sum.cong)
  moreover have "iContentSize w = entrySpace w p + (\<Sum>q \<in> set (slotAddrs (iEntries w)) - {p}. entrySpace w q)"
    using p lt_okD(7) [OF ok] by (simp add: sum.remove)
  ultimately have "iContentSize w' = (\<Sum>q \<in> set (slotAddrs (iEntries w)). entrySpace w' q)"
    using w'(1,5) e by (simp add: entrySpaceOf_def)
  moreover have "tbl_ok (urlOf w') (iEntries w)"
    by (rule tbl_ok_urlOf_cong [OF lt_okD(1) [OF ok]]) (use w'(1) e same in \<open>auto simp: urlOf_def\<close>)
  moreover have "dom (heap w') = set (slotAddrs (iEntries w))" using w'(1) lt_okD(5) [OF ok] p by auto
  moreover have "\<forall>q e. heap w' q = Some e \<longrightarrow> iFileName e \<noteq> None" using w'(1) same lt_okD(6) [OF ok] by auto
  ultimately show ?thesis using w' lt_okD(2,3) [OF ok] by (simp add: lt_ok_def)
qed

lemma entrySetState_lt_ok [inv_intros]:
  assumes ok: "lt_ok w" and e: "heap w p = Some e" and ref: "s = ECacheComplete \<Longrightarrow> iRef e \<noteq> 0"
  shows "\<exists>w'. entrySetState p s w = Some w' \<and> lt_ok w' \<and> ev_frame w w' \<and> heap w' = (heap w)(p \<mapsto> e\<lparr>iState := s,
    iEvictionCandidate := iEvictionCandidate e \<or> s = ECacheComplete\<rparr>)"
proof -
  obtain w' where w': "entrySetState p s w = Some w'" "ev_ok w'" "heap w' = (heap w)(p \<mapsto> e\<lparr>iState := s,
    iEvictionCandidate := iEvictionCandidate e \<or> s = ECacheComplete\<rparr>)"
    using entrySetState_ok [OF lt_okD(4) [OF ok] e ref] by blast
  note fr = ev_frame_fields [OF entrySetState_ev_frame [OF w'(1)]]
  have "lt_ok w'" by (rule lt_ok_upd [OF ok e w'(3,2) fr(1,2)]) (use fr lt_okD(6) [OF ok e] in \<open>auto simp: entrySpaceOf_def\<close>)
  then show ?thesis using w' entrySetState_ev_frame by blast
qed

lemma entryAccessed_lt_ok [inv_intros]:
  assumes ok: "lt_ok w" and e: "heap w p = Some e" and nowrap: "iRef e + 1 \<noteq> 0"
  shows "\<exists>w'. entryAccessed now p w = Some w' \<and> lt_ok w' \<and> ev_frame w w' \<and>
    heap w' = (heap w)(p \<mapsto> e\<lparr>iLastAccessed := now, iRef := iRef e + 1\<rparr>)"
proof -
  obtain w' where w': "entryAccessed now p w = Some w'" "ev_ok w'"
    "heap w' = (heap w)(p \<mapsto> e\<lparr>iLastAccessed := now, iRef := iRef e + 1\<rparr>)"
    using entryAccessed_ok [OF lt_okD(4) [OF ok] e nowrap] by blast
  note fr = ev_frame_fields [OF entryAccessed_ev_frame [OF w'(1)]]
  have "lt_ok w'" by (rule lt_ok_upd [OF ok e w'(3,2) fr(1,2)]) (use fr lt_okD(6) [OF ok e] in \<open>auto simp: entrySpaceOf_def\<close>)
  then show ?thesis using w' entryAccessed_ev_frame by blast
qed

subsection \<open>Removing everything\<close>

lemma ltErase_size:
  assumes "lt_ok w" "lt_ok w'" "heap w' = (heap w)(p := None)" "heap w p = Some e"
  shows "iContentSize w = iContentSize w' + entrySpaceOf e"
proof -
  have p: "p \<in> set (slotAddrs (iEntries w))" using lt_okD(5) [OF assms(1)] assms(4) by auto
  have s': "set (slotAddrs (iEntries w')) = set (slotAddrs (iEntries w)) - {p}"
    using lt_okD(5) [OF assms(1)] lt_okD(5) [OF assms(2)] assms(3) by auto
  have "iContentSize w = entrySpace w p + (\<Sum>q \<in> set (slotAddrs (iEntries w)) - {p}. entrySpace w q)"
    using p lt_okD(7) [OF assms(1)] by (simp add: sum.remove)
  also have "(\<Sum>q \<in> set (slotAddrs (iEntries w)) - {p}. entrySpace w q) = iContentSize w'"
    unfolding lt_okD(7) [OF assms(2)] s' using assms(3) by (intro sum.cong) (auto simp: entrySpace_def)
  finally show ?thesis using assms(4) by (simp add: entrySpaceOf_def)
qed

definition removeComplete :: "(nat \<Rightarrow> cache_entry option) \<Rightarrow> nat set \<Rightarrow> nat \<Rightarrow> cache_entry option" where
  "removeComplete h A p = (case h p of None \<Rightarrow> None
     | Some e \<Rightarrow> if p \<in> A \<and> iState e = ECacheComplete then None else Some e)"

lemma ltRemoveFrom_spec:
  "lt_ok w \<Longrightarrow> i + k \<le> length (iEntries w) \<Longrightarrow>
   \<exists>n w'. ltRemoveFrom io k i b w = Some (n, w') \<and> lt_ok w' \<and>
     heap w' = removeComplete (heap w) (set (slotAddrs (take k (drop i (iEntries w))))) \<and>
     n = b + (iContentSize w - iContentSize w')"
proof (induction k arbitrary: i b w)
  case 0
  have "heap w = removeComplete (heap w) {}" by (auto simp: removeComplete_def fun_eq_iff split: option.splits)
  then show ?case using 0 by simp
next
  case (Suc k)
  have i: "i < length (iEntries w)" using Suc.prems(2) by simp
  have rest: "take (Suc k) (drop i (iEntries w)) = iEntries w ! i # take k (drop (Suc i) (iEntries w))"
    using i by (simp add: Cons_nth_drop_Suc [symmetric])
  note IH = Suc.IH
  have skip: "ltRemoveFrom io (Suc k) i b w = ltRemoveFrom io k (Suc i) b w \<Longrightarrow>
      removeComplete (heap w) (set (slotAddr (iEntries w ! i))) = heap w \<Longrightarrow> ?case"
  proof -
    assume run: "ltRemoveFrom io (Suc k) i b w = ltRemoveFrom io k (Suc i) b w"
      and no: "removeComplete (heap w) (set (slotAddr (iEntries w ! i))) = heap w"
    have "removeComplete (heap w) (set (slotAddrs (take (Suc k) (drop i (iEntries w))))) =
        removeComplete (removeComplete (heap w) (set (slotAddr (iEntries w ! i)))) (set (slotAddrs (take k (drop (Suc i) (iEntries w)))))"
      unfolding rest by (auto simp: removeComplete_def fun_eq_iff split: option.splits)
    then show ?case using IH [OF Suc.prems(1), of "Suc i" b] Suc.prems(2) run no by simp
  qed
  show ?case
  proof (cases "\<exists>p. iEntries w ! i = SEntry p")
    case False
    then have "slotAddr (iEntries w ! i) = []" by (cases "iEntries w ! i") auto
    then have "removeComplete (heap w) (set (slotAddr (iEntries w ! i))) = heap w"
      by (auto simp: removeComplete_def fun_eq_iff split: option.splits)
    moreover have "ltRemoveFrom io (Suc k) i b w = ltRemoveFrom io k (Suc i) b w" using False i by simp
    ultimately show ?thesis by (rule skip [rotated])
  next
    case True
    then obtain p where p: "iEntries w ! i = SEntry p" by blast
    obtain e where e: "heap w p = Some e" using lt_ok_live(1) [OF Suc.prems(1) i p] by blast
    have at: "entryAt (int i) w = Some (p, e)" using i p e by (simp add: entryAt_def)
    show ?thesis
    proof (cases "iState e = ECacheComplete")
      case False
      have "removeComplete (heap w) (set (slotAddr (iEntries w ! i))) = heap w"
        using e False by (auto simp: removeComplete_def fun_eq_iff p split: option.splits)
      moreover have "ltRemoveFrom io (Suc k) i b w = ltRemoveFrom io k (Suc i) b w" using False i p at by simp
      ultimately show ?thesis by (rule skip [rotated])
    next
      case complete: True
      obtain w1 where w1: "ltErase io (int i) w = Some w1" "lt_ok w1" "heap w1 = (heap w)(p := None)"
        "iEntries w1 = (iEntries w)[i := SDeleted]"
        using ltErase_ok [OF Suc.prems(1) i p] by blast
      have size: "iContentSize w = iContentSize w1 + entrySpaceOf e" by (rule ltErase_size [OF Suc.prems(1) w1(2,3) e])
      have d1: "drop (Suc i) (iEntries w1) = drop (Suc i) (iEntries w)" using w1(4) by simp
      obtain n w' where w': "ltRemoveFrom io k (Suc i) (b + (ucast (iHeaderSize e) + iBodySize e)) w1 = Some (n, w')" "lt_ok w'"
        "heap w' = removeComplete (heap w1) (set (slotAddrs (take k (drop (Suc i) (iEntries w1)))))"
        "n = b + (ucast (iHeaderSize e) + iBodySize e) + (iContentSize w1 - iContentSize w')"
        using IH [OF w1(2), of "Suc i"] Suc.prems(2) w1(4) by fastforce
      have h: "heap w' = removeComplete (heap w) (set (slotAddrs (take (Suc k) (drop i (iEntries w)))))"
        unfolding rest w'(3) d1 w1(3) using e complete
        by (auto simp: removeComplete_def fun_eq_iff p split: option.splits)
      have "ltRemoveFrom io (Suc k) i b w = Some (n, w')" using i p at complete w1(1) w'(1) by simp
      moreover have "n = b + (iContentSize w - iContentSize w')" using w'(4) size by (simp add: entrySpaceOf_def)
      ultimately show ?thesis using w'(2) h by blast
    qed
  qed
qed

end
