(* ===== verification/LookupProps.thy ===== *)
theory LookupProps
  imports LookupSpec
begin

text \<open>
  The properties of the lookup table as the cache uses it: insertion, lookup, removal, and the
  two ways a lookup misses or confuses URLs.
\<close>

text \<open>The table and its world as they are constructed.\<close>

definition newTableWorld :: "int \<Rightarrow> table_world" where
  "newTableWorld crit = \<lparr>heap = Map.empty, iBuckets = evConstructL, deleteNotices = [], iContentSize = 0,
     iCriticalLevel = crit, disk = Map.empty, writers = Map.empty, iEntries = tblConstructL, iCount = 0\<rparr>"

lemma newTableWorld_ok [inv_intros]: "lt_ok (newTableWorld crit)"
proof -
  have "tbl_ok u tblConstructL" for u
    unfolding tblConstructL_def by (rule tbl_ok_empty) (simp add: KHttpCacheLookupTableSize_def)
  then show ?thesis
    by (auto simp: lt_ok_def newTableWorld_def tblConstructL_def tblCount_def ev_ok_def filed_def evConstructL_def
        KHttpCacheBucketNum_def)
qed

lemma newTable_growable: "growable tblConstructL"
proof -
  have "isprime 439" by (simp add: isprime_code atLeastLessThan_nat_numeral)
  then show ?thesis unfolding growable_def
    by (intro exI [of _ 439]) (simp add: tblConstructL_def KHttpCacheLookupTableSize_def)
qed

text \<open>
  C23: an insertion at a fresh address always succeeds while some prime bounds the next size of
  the table: it finds a slot, growing the table when the probing fails or the table is more than
  half full, and no entry is lost. The new entry has been accessed once and has its file name;
  table, filing, ownership and byte count stay consistent.
\<close>

theorem InsertL_succeeds:
  assumes "lt_ok w" "heap w p = None" "growable (iEntries w)"
  shows "\<exists>w' e. ltInsertL io crc32 dir now u p w = Some (Some p, w') \<and> lt_ok w' \<and> heap w' = (heap w)(p \<mapsto> e) \<and>
    e = (entryNewL u)\<lparr>iLastAccessed := now, iRef := 1, iFileName := Some (GenerateNameLC crc32 u dir),
      iState := ECacheInitialized\<rparr>"
  using ltInsertL_ok [OF assms] unfolding freshEntry_def by blast

theorem InsertL_succeeds_witness:
  "\<exists>w'. ltInsertL calm (\<lambda>_. 7) [67] 5 [104, 105] 1 (newTableWorld 0) = Some (Some 1, w') \<and> lt_ok w' \<and>
     map_option iUrl (heap w' 1) = Some [104, 105]"
  using InsertL_succeeds [OF newTableWorld_ok [of 0], of 1 calm "\<lambda>_. 7" "[67]" 5 "[104, 105]"] newTable_growable
  by (auto simp: newTableWorld_def entryNewL_def)



text \<open>
  A removal never faults. It erases a complete entry that answers to the URL, and only that
  one, or reports that there is none and leaves the world as it was.
\<close>

theorem Remove_effect:
  assumes "lt_ok w"
  shows "\<exists>err w'. ltRemove f io key w = Some (err, w') \<and> lt_ok w' \<and>
    ((err = KErrNone \<and> (\<exists>p e. heap w p = Some e \<and> des_eqF f (iUrl e) key \<and> iState e = ECacheComplete \<and>
        heap w' = (heap w)(p := None))) \<or> (err = KErrNotFound \<and> w' = w))"
  using ltRemove_spec [OF assms] by blast

theorem Remove_effect_witness:
  "\<exists>err w'. ltRemove (\<lambda>c. c) calm [104] (newTableWorld 0) = Some (err, w') \<and> lt_ok w'"
  using Remove_effect [OF newTableWorld_ok] by blast

text \<open>
  \<open>RemoveAll\<close> erases exactly the complete entries, keeps the active ones, and returns the
  number of bytes by which the byte count drops.
\<close>

theorem RemoveAll_effect:
  assumes "lt_ok w"
  shows "\<exists>n w'. ltRemoveAll io w = Some (n, w') \<and> lt_ok w' \<and> n = iContentSize w - iContentSize w' \<and>
    heap w' = (\<lambda>p. case heap w p of None \<Rightarrow> None | Some e \<Rightarrow> if iState e = ECacheComplete then None else Some e)"
proof -
  obtain n w' where r: "ltRemoveAll io w = Some (n, w')" "lt_ok w'"
    "heap w' = removeComplete (heap w) (set (slotAddrs (iEntries w)))" "n = 0 + (iContentSize w - iContentSize w')"
    using ltRemoveFrom_spec [OF assms, of 0 "length (iEntries w)" io 0] by (auto simp: ltRemoveAll_def)
  have "heap w' p = (case heap w p of None \<Rightarrow> None | Some e \<Rightarrow> if iState e = ECacheComplete then None else Some e)" for p
    using r(3) lt_okD(5) [OF assms] by (auto simp: removeComplete_def split: option.splits)
  then show ?thesis using r by auto
qed

theorem RemoveAll_effect_witness:
  "\<exists>n w'. ltRemoveAll calm (newTableWorld 0) = Some (n, w') \<and> n = 0 - iContentSize w'"
  using RemoveAll_effect [OF newTableWorld_ok [of 0], of calm] by (auto simp: newTableWorld_def)

subsection \<open>URLs that differ in case\<close>

text \<open>
  The table compares URLs without case and hashes their last characters only: an entry cached
  for one URL is handed out for another one that differs in case before its last fifteen
  characters.
\<close>

theorem Find_ignores_case:
  assumes "lt_ok w" "heap w p = Some e" "usable e" "iUrl e \<noteq> key" "des_eqF f (iUrl e) key"
    "drop (length key - 15) (iUrl e) = drop (length key - 15) key"
    "\<forall>q e'. heap w q = Some e' \<longrightarrow> des_eqF f (iUrl e') key \<longrightarrow> q = p"
  shows "ltFind f key w = Some (Some p)"
proof -
  have len: "length (iUrl e) = length key" using assms(5) unfolding des_eqF_def by (metis length_map)
  have hash: "HashUrl (length (iEntries w)) (iUrl e) = HashUrl (length (iEntries w)) key"
    by (rule HashUrl_tail_gen) (use len assms(6) in simp_all)
  obtain pos where pos: "ltProbe f key w = Some pos"
    "Valid (iEntries w) pos \<longrightarrow> (\<exists>p e. heap w p = Some e \<and> des_eqF f (iUrl e) key \<and> entryAt pos w = Some (p, e))"
    "Valid (iEntries w) pos"
    using ltProbe_ok [OF assms(1), of f key] assms(2,5) hash by blast
  then obtain q e' where q: "heap w q = Some e'" "des_eqF f (iUrl e') key" "entryAt pos w = Some (q, e')" by blast
  have "q = p" using assms(7) q(1,2) by blast
  then show ?thesis using pos q assms(2,3) by (auto simp: ltFind_def usable_def)
qed

definition ascii_fold :: "byte \<Rightarrow> byte" where
  "ascii_fold c = (if 65 \<le> c \<and> c \<le> 90 then c + 32 else c)"

theorem Find_ignores_case_witness:
  "\<exists>w :: table_world. lt_ok w \<and> map_option iUrl (heap w 1) = Some (lit8 ''http://h/A/0123456789abcde'') \<and>
     ltFind ascii_fold (lit8 ''http://h/a/0123456789abcde'') w = Some (Some 1)"
proof -
  let ?u = "lit8 ''http://h/A/0123456789abcde''" and ?k = "lit8 ''http://h/a/0123456789abcde''"
  obtain w :: table_world and e where w: "lt_ok w" "heap w = (heap (newTableWorld 0))(1 \<mapsto> e)" "freshEntry e ?u 0 (GenerateNameLC (\<lambda>_. 7) ?u [])"
    using ltInsertL_ok [OF newTableWorld_ok [of 0], of 1 calm "\<lambda>_. 7" "[]" 0 ?u] newTable_growable
    by (auto simp: newTableWorld_def)
  have e: "heap w 1 = Some e" "iUrl e = ?u" "usable e"
    using w(2,3) by (simp_all add: freshEntry_def entryNewL_def usable_def)
  have "ltFind ascii_fold ?k w = Some (Some 1)"
  proof (rule Find_ignores_case [OF w(1) e(1,3)])
    show "\<forall>q e'. heap w q = Some e' \<longrightarrow> des_eqF ascii_fold (iUrl e') ?k \<longrightarrow> q = 1"
      using w(2) by (auto simp: newTableWorld_def)
  qed (simp_all add: e(2) lit8_def des_eqF_def ascii_fold_def)
  then show ?thesis using w(1) e by auto
qed

subsection \<open>A complete entry without a body\<close>

lemma ltInsertL_no_rehash:
  assumes "iCount w + 1 \<le> int (length (iEntries w) div 2)" "\<not> Valid (iEntries w) (ProbeInsert (iEntries w) u)"
    "0 < length (iEntries w)" "ltInsertL io crc32 dir now u p w = Some (r, w')"
  shows "iEntries w' = (iEntries w)[nat (ProbeInsert (iEntries w) u) := SEntry p]"
proof -
  let ?w0 = "w\<lparr>heap := (heap w)(p \<mapsto> entryNewL u)\<rparr>"
  let ?t = "(iEntries w)[nat (ProbeInsert (iEntries w) u) := SEntry p]"
  obtain k where k: "ProbeInsert (iEntries w) u = int (chainPos (length (iEntries w)) (HashUrl (length (iEntries w)) u) k)"
    using ProbeInsert_spec [OF assms(3), of u] by metis
  then have ne: "ProbeInsert (iEntries w) u \<noteq> - 1" by simp
  have ins: "ltInsertEntryL p ?w0 = Some (KErrNone, ?w0\<lparr>iEntries := ?t, iCount := iCount w + 1\<rparr>)"
    using assms(1,2) ne by (simp add: ltInsertEntryL_def tblInsertL_def urlOf_def entryNewL_def Let_def)
  let ?w1 = "?w0\<lparr>iEntries := ?t, iCount := iCount w + 1\<rparr>"
  obtain w2 where w2: "entryAccessed now p ?w1 = Some w2" "InitialiseCacheEntryL io crc32 dir p w2 = Some w'"
    using assms(4) ins by (auto simp: ltInsertL_def Let_def split: Option.bind_splits)
  have "iEntries w2 = ?t" using ev_frame_fields(1) [OF entryAccessed_ev_frame [OF w2(1)]] by simp
  moreover have "iEntries w' = iEntries w2"
    using w2(2) by (auto simp: InitialiseCacheEntryL_def Let_def deleteFile_def
        dest!: entrySetState_ev_frame [THEN ev_frame_fields(1)] split: Option.bind_splits simp: updEntry_def)
  ultimately show ?thesis by simp
qed

text \<open>
  Once a response without a body is cached as complete, the URL can never be served from the
  cache: the lookup that finds the empty entry reports nothing, the next response is inserted as a
  second entry further along the probe sequence, and, whatever that entry becomes, the lookup
  still stops at the empty one.
\<close>

theorem empty_entry_hides_successor:
  assumes "lt_ok w" "heap w p = Some e" "iUrl e = key" "iBodySize e = 0" "iState e = ECacheComplete"
    and "\<forall>q e'. heap w q = Some e' \<longrightarrow> des_eqF f (iUrl e') key \<longrightarrow> q = p"
    and "SDeleted \<notin> set (iEntries w)" "heap w q = None"
    and "iCount w + 1 \<le> int (length (iEntries w) div 2)" "\<not> Valid (iEntries w) (ProbeInsert (iEntries w) key)"
    and "ltInsertL io crc32 dir now key q w = Some (Some q, w')" "heap w' = (heap w)(q \<mapsto> e1)" "iUrl e2 = key"
  shows "ltFind f key (w'\<lparr>heap := (heap w')(q \<mapsto> e2)\<rparr>) = Some None"
proof -
  let ?s = "iEntries w"
  let ?w2 = "w'\<lparr>heap := (heap w')(q \<mapsto> e2)\<rparr>"
  have "p \<in> set (slotAddrs ?s)" using lt_okD(5) [OF assms(1)] assms(2) by auto
  then obtain i where i: "i < length ?s" "?s ! i = SEntry p" by (auto simp: slotAddrs_set)
  have q: "q \<notin> set (slotAddrs ?s)" using lt_ok_fresh [OF assms(1,8)] .
  have t: "iEntries w' = ?s[nat (ProbeInsert ?s key) := SEntry q]"
    by (rule ltInsertL_no_rehash [OF assms(9,10) _ assms(11)]) (use i in linarith)
  have dist: "j = i" if "j < length ?s" "matches f (urlOf w) ?s key j" for j
  proof -
    have "?s ! j = SEntry p" using that(2) assms(6) by (auto simp: matches_def urlOf_def)
    then show ?thesis using distinct_slot [OF tbl_okD(2) [OF lt_okD(1) [OF assms(1)]]] that(1) i by blast
  qed
  have "ProbeFind f (urlOf ?w2) (iEntries w') key = Some (int i)"
  proof (rule ProbeFind_first [OF lt_okD(1) [OF assms(1)] assms(7) i _ dist assms(10) q t])
    show "urlOf w p = Some key" using assms(2,3) by (simp add: urlOf_def)
    show "urlOf ?w2 q = Some key" using assms(13) by (simp add: urlOf_def)
    show "urlOf ?w2 r = urlOf w r" if "r \<in> set (slotAddrs ?s)" for r
      using that q assms(12) by (auto simp: urlOf_def)
  qed
  then have probe: "ltProbe f key ?w2 = Some (int i)" by (simp add: ltProbe_def)
  have pq: "p \<noteq> q" using assms(2,8) by auto
  have len: "i < length (iEntries w')" using i(1) t by simp
  have slot: "iEntries w' ! i = SEntry p"
  proof -
    have "nat (ProbeInsert ?s key) \<noteq> i"
    proof
      assume "nat (ProbeInsert ?s key) = i"
      then have "ProbeInsert ?s key = int i" using ProbeInsert_nonneg [of ?s key] by auto
      then show False using assms(10) i by simp
    qed
    then show ?thesis using i t by simp
  qed
  have "entryAt (int i) ?w2 = Some (p, e)"
    using slot len assms(2,12) pq by (simp add: entryAt_def)
  then show ?thesis using probe slot len assms(4,5) by (simp add: ltFind_def)
qed

theorem empty_entry_hides_successor_witness:
  "\<exists>(w :: table_world) w' e2. ltInsertL calm (\<lambda>_. 7) [] 0 [104] 2 w = Some (Some 2, w') \<and> iUrl e2 = [104] \<and> iBodySize e2 = 5 \<and>
     ltFind (\<lambda>c. c) [104] (w'\<lparr>heap := (heap w')(2 \<mapsto> e2)\<rparr>) = Some None"
proof -
  let ?w0 = "newTableWorld 0" and ?k = "[104] :: tdes8"
  have n: "length (iEntries ?w0) = 217" "SDeleted \<notin> set (iEntries ?w0)" "growable (iEntries ?w0)" "iCount ?w0 = 0"
    using newTable_growable by (simp_all add: newTableWorld_def tblConstructL_def KHttpCacheLookupTableSize_def)
  have free: "\<not> Valid (iEntries ?w0) (ProbeInsert (iEntries ?w0) ?k)"
    by (rule ProbeInsert_free_single) (simp_all add: n newTableWorld_def tblConstructL_def tblCount_def KHttpCacheLookupTableSize_def)
  obtain w1 e where w1: "ltInsertL calm (\<lambda>_. 7) [] 0 ?k 1 ?w0 = Some (Some 1, w1)" "lt_ok w1"
    "heap w1 = (heap ?w0)(1 \<mapsto> e)" "freshEntry e ?k 0 (GenerateNameLC (\<lambda>_. 7) ?k [])"
    using ltInsertL_ok [OF newTableWorld_ok [of 0], of 1 calm "\<lambda>_. 7" "[]" 0 ?k] n(3) by (auto simp: newTableWorld_def)
  have s1: "iEntries w1 = (iEntries ?w0)[nat (ProbeInsert (iEntries ?w0) ?k) := SEntry 1]"
    by (rule ltInsertL_no_rehash [OF _ free _ w1(1)]) (simp_all add: n)
  have e1: "heap w1 1 = Some e" "iRef e \<noteq> 0" using w1(3,4) by (auto simp: freshEntry_def)
  obtain w2 where w2: "lt_ok w2" "ev_frame w1 w2"
    "heap w2 = (heap w1)(1 \<mapsto> e\<lparr>iState := ECacheComplete, iEvictionCandidate := True\<rparr>)"
    using entrySetState_lt_ok [OF w1(2) e1(1), of ECacheComplete] e1(2) by auto
  have s2: "iEntries w2 = iEntries w1" using ev_frame_fields(1) [OF w2(2)] .
  have count: "tblCount (iEntries w2) = 1"
  proof -
    have "set (slotAddrs (iEntries w2)) = {1}"
      using lt_okD(5) [OF w2(1)] w2(3) w1(3) by (auto simp: newTableWorld_def)
    then show ?thesis using distinct_card [OF tbl_okD(2) [OF lt_okD(1) [OF w2(1)]]] by (simp add: tblCount_def)
  qed
  have len: "length (iEntries w2) = 217" using s1 s2 n by simp
  have nodel: "SDeleted \<notin> set (iEntries w2)"
    using s1 s2 n(2) by (auto dest: set_update_subset_insert [THEN subsetD])
  have h2: "heap w2 2 = None" using w2(3) w1(3) by (simp add: newTableWorld_def)
  have grow: "growable (iEntries w2)" using n(1,3) len by (simp add: growable_def)
  obtain w3 e3 where w3: "ltInsertL calm (\<lambda>_. 7) [] 0 ?k 2 w2 = Some (Some 2, w3)" "heap w3 = (heap w2)(2 \<mapsto> e3)"
    using ltInsertL_ok [OF w2(1) h2 grow, of calm "\<lambda>_. 7" "[]" 0 ?k] by blast
  have "ltFind (\<lambda>c. c) ?k (w3\<lparr>heap := (heap w3)(2 \<mapsto> (entryNewL ?k)\<lparr>iBodySize := 5\<rparr>)\<rparr>) = Some None"
  proof (rule empty_entry_hides_successor [OF w2(1) _ _ _ _ _ nodel h2 _ _ w3])
    show "heap w2 1 = Some (e\<lparr>iState := ECacheComplete, iEvictionCandidate := True\<rparr>)" using w2(3) by simp
    show "\<forall>q e'. heap w2 q = Some e' \<longrightarrow> des_eqF (\<lambda>c. c) (iUrl e') ?k \<longrightarrow> q = 1"
      using w2(3) w1(3) by (auto simp: newTableWorld_def split: if_splits)
    show "iCount w2 + 1 \<le> int (length (iEntries w2) div 2)" using lt_okD(2) [OF w2(1)] count len by simp
    show "\<not> Valid (iEntries w2) (ProbeInsert (iEntries w2) ?k)"
      by (rule ProbeInsert_free_single) (simp_all add: len count)
  qed (use w1(4) in \<open>simp_all add: freshEntry_def entryNewL_def\<close>)
  then show ?thesis using w3(1) by (intro exI [of _ w2] exI [of _ w3] exI [of _ "(entryNewL ?k)\<lparr>iBodySize := 5\<rparr>"])
      (simp add: entryNewL_def)
qed

end
