(* ===== verification/FileWriteQueue.thy ===== *)
theory FileWriteQueue
  imports LookupProps
begin

text \<open>
  The postponed writing of the HTTP cache (\<open>CHttpCacheFileWriteHandler\<close>,
  cache/src/HttpCacheFileWriteHandler.cpp): the queue of entries whose bodies are still in
  memory, largest first, the wait timer and the memory collector. The step of the active object
  (\<open>RunL\<close>) is in \<open>FileWriteRun\<close>, since it calls the cache handler. The queue does not own its
  entries: an entry's destructor tells its delete observer, and \<open>drainNotices\<close> delivers what the
  destructors recorded. \<open>None\<close> also stands for an active object that never returns from
  \<open>Cancel\<close>.
\<close>

record cache_world = table_world +
  iObjectQueue :: "nat list"
  iObjectFlushing :: "nat option"
  iWaitTimerActive :: bool
  iLowMemoryState :: bool
  fwActive :: bool
  fwStatus :: "symerr option"
  iFreeRamThreshold :: int
  iImmediateWriteThreshold :: "32 word"
  iPostponeEnabled :: bool
  iSize :: "32 word"

datatype TAddStatus = EAddedOk | EBodySmallerThanThreshold | ENotEnoughFreeMemory | ECheckReturn

definition KMaxCollectCount :: nat where "KMaxCollectCount = 5"

text \<open>The address of the handler as a delete observer.\<close>

definition fwObserver :: nat where "fwObserver = 0"

definition CompareHttpCacheEntrySize :: "cache_entry \<Rightarrow> cache_entry \<Rightarrow> int" where
  "CompareHttpCacheEntrySize aFirst aSecond =
    (let first = sint (iBodySize aFirst); second = sint (iBodySize aSecond) in
     if first > second then - 1 else if second > first then 1 else 0)"

definition bodySizeAt :: "'a ev_world_scheme \<Rightarrow> nat \<Rightarrow> int" where
  "bodySizeAt w p = (case heap w p of None \<Rightarrow> 0 | Some e \<Rightarrow> sint (iBodySize e))"

text \<open>The array's sort by that order; among equal sizes it keeps one of the possible orders.\<close>

definition sortQueue :: "'a ev_world_scheme \<Rightarrow> nat list \<Rightarrow> nat list" where
  "sortQueue w q = sort_key (\<lambda>p. - bodySizeAt w p) q"

definition BeginWriting :: "'a cache_world_scheme \<Rightarrow> 'a cache_world_scheme" where
  "BeginWriting w = (if \<not> fwActive w then w\<lparr>fwActive := True, fwStatus := Some KErrNone\<rparr> else w)"

definition WriteTimeout :: "'a cache_world_scheme \<Rightarrow> 'a cache_world_scheme" where
  "WriteTimeout w = BeginWriting (w\<lparr>iWaitTimerActive := False\<rparr>)"

text \<open>\<open>freeMem\<close> is the free memory \<open>HAL\<close> reports, \<open>appendErr\<close> the result of the array's \<open>Append\<close>.\<close>

definition fwAddEntry :: "int \<Rightarrow> symerr \<Rightarrow> nat \<Rightarrow> 'a cache_world_scheme \<Rightarrow>
    (TAddStatus \<times> symerr \<times> 'a cache_world_scheme) option" where
  "fwAddEntry freeMem appendErr p w = do {
     e \<leftarrow> heap w p;
     if iImmediateWriteThreshold w \<noteq> 0 \<and> iBodySize e \<le> iImmediateWriteThreshold w
     then Some (EBodySmallerThanThreshold, KErrNone, w)
     else if freeMem < iFreeRamThreshold w then
       let w1 = w\<lparr>iLowMemoryState := True\<rparr> in
       Some (ENotEnoughFreeMemory, KErrNone,
         if iWaitTimerActive w1 then BeginWriting (w1\<lparr>iWaitTimerActive := False\<rparr>) else w1)
     else do {
       let q1 = remove1 p (iObjectQueue w);
       let q2 = (if appendErr = KErrNone then q1 @ [p] else q1);
       let w1 = w\<lparr>iLowMemoryState := False, iObjectQueue := sortQueue w q2\<rparr>;
       Some (case appendErr of
           KErrNone \<Rightarrow> (EAddedOk, appendErr, (updEntry p (SetDeleteObserver fwObserver) w1)\<lparr>iWaitTimerActive := True\<rparr>)
         | KErrNoMemory \<Rightarrow> (ENotEnoughFreeMemory, appendErr, w1)
         | _ \<Rightarrow> (ECheckReturn, appendErr, w1)) } }"

definition fwRemoveEntry :: "nat \<Rightarrow> 'a cache_world_scheme \<Rightarrow> (nat option \<times> 'a cache_world_scheme) option" where
  "fwRemoveEntry p w =
    (if Some p = iObjectFlushing w \<and> fwActive w then Some (None, w\<lparr>iWaitTimerActive := True\<rparr>)
     else if p \<in> set (iObjectQueue w) then do {
       e \<leftarrow> heap w p;
       let w1 = updEntry p ClearDeleteObserver (w\<lparr>iObjectQueue := remove1 p (iObjectQueue w)\<rparr>);
       Some (Some p, if iObjectQueue w1 = [] then w1\<lparr>iWaitTimerActive := False\<rparr> else w1) }
     else Some (Some p, w))"

text \<open>\<open>EntryDeleted\<close>: \<open>RemoveEntry\<close> called from the destructor of the entry.\<close>

definition fwEntryDeleted :: "nat \<Rightarrow> 'a cache_world_scheme \<Rightarrow> 'a cache_world_scheme" where
  "fwEntryDeleted p w =
    (if Some p = iObjectFlushing w \<and> fwActive w then w\<lparr>iWaitTimerActive := True\<rparr>
     else if p \<in> set (iObjectQueue w) then
       let w1 = w\<lparr>iObjectQueue := remove1 p (iObjectQueue w)\<rparr> in
       if iObjectQueue w1 = [] then w1\<lparr>iWaitTimerActive := False\<rparr> else w1
     else w)"

definition drainNotices :: "'a cache_world_scheme \<Rightarrow> 'a cache_world_scheme" where
  "drainNotices w = fold (\<lambda>(obs, p) w. if obs = fwObserver then fwEntryDeleted p w else w)
     (deleteNotices w) (w\<lparr>deleteNotices := []\<rparr>)"

text \<open>
  \<open>Cancel\<close> of the active object: \<open>DoCancel\<close> is empty, so it returns only if the outstanding
  request has been completed already.
\<close>

definition fwCancel :: "'a cache_world_scheme \<Rightarrow> 'a cache_world_scheme option" where
  "fwCancel w = (if fwActive w then (case fwStatus w of None \<Rightarrow> None | Some _ \<Rightarrow> Some (w\<lparr>fwActive := False\<rparr>)) else Some w)"

fun clearObservers :: "nat list \<Rightarrow> 'a ev_world_scheme \<Rightarrow> 'a ev_world_scheme option" where
  "clearObservers [] w = Some w"
| "clearObservers (p # ps) w = do { e \<leftarrow> heap w p; clearObservers ps (updEntry p ClearDeleteObserver w) }"

definition fwRemoveAll :: "'a cache_world_scheme \<Rightarrow> 'a cache_world_scheme option" where
  "fwRemoveAll w = do {
     w1 \<leftarrow> clearObservers (iObjectQueue w) w;
     fwCancel (w1\<lparr>iObjectQueue := []\<rparr>) }"

text \<open>\<open>DumpAllObjects\<close>: everything is flushed synchronously; \<open>ios\<close> are the answers for each flush.\<close>

fun flushEach :: "io \<Rightarrow> nat list \<Rightarrow> 'a stream_world_scheme \<Rightarrow> 'a stream_world_scheme option" where
  "flushEach io [] w = Some w"
| "flushEach io (p # ps) w = do {
     (ok, w1) \<leftarrow> Flush io p w;
     flushEach io ps (updEntry p ClearDeleteObserver w1) }"

definition DumpAllObjects :: "io \<Rightarrow> 'a cache_world_scheme \<Rightarrow> 'a cache_world_scheme option" where
  "DumpAllObjects io w = map_option (\<lambda>w1. w1\<lparr>iObjectQueue := []\<rparr>) (flushEach io (iObjectQueue w) w)"

definition fwDestructor :: "io \<Rightarrow> 'a cache_world_scheme \<Rightarrow> 'a cache_world_scheme option" where
  "fwDestructor io w = do {
     w1 \<leftarrow> fwCancel w;
     w2 \<leftarrow> DumpAllObjects io w1;
     Some (w2\<lparr>iWaitTimerActive := False\<rparr>) }"

text \<open>
  \<open>CollectMemory\<close>: the loop over the queue; indexing past its end panics. The amount still
  required is unsigned, so it wraps when more is freed than was asked for.
\<close>

function collectLoop :: "io \<Rightarrow> 32 word \<Rightarrow> nat \<Rightarrow> nat \<Rightarrow> 'a cache_world_scheme \<Rightarrow> 'a cache_world_scheme option" where
  "collectLoop io aRequired cnt skip w =
    (if aRequired \<noteq> 0 \<and> cnt \<noteq> 0 \<and> iObjectQueue w \<noteq> [] then
       if skip < length (iObjectQueue w) then
         let p = iObjectQueue w ! skip in
         if Some p \<noteq> iObjectFlushing w then
           let w1 = w\<lparr>iObjectQueue := take skip (iObjectQueue w) @ drop (Suc skip) (iObjectQueue w)\<rparr> in
           (case heap w1 p of None \<Rightarrow> None
            | Some e \<Rightarrow>
              (case Flush io p (updEntry p ClearDeleteObserver w1) of None \<Rightarrow> None
               | Some (ok, w2) \<Rightarrow>
                 collectLoop io (aRequired - iBodySize e) (cnt - 1) skip w2))
         else collectLoop io aRequired cnt (Suc skip) w
       else None
     else Some w)"
  by pat_completeness auto

termination
  by (relation "measures [\<lambda>(_, _, cnt, _, _). cnt, \<lambda>(_, _, _, skip, w). length (iObjectQueue w) - skip]") auto

declare collectLoop.simps [simp del]

definition CollectMemory :: "io \<Rightarrow> 32 word \<Rightarrow> 'a cache_world_scheme \<Rightarrow> 'a cache_world_scheme option" where
  "CollectMemory io aRequired w =
    (if iObjectQueue w = [] then Some w else collectLoop io aRequired KMaxCollectCount 0 w)"

definition fwCollect :: "io \<Rightarrow> 32 word \<Rightarrow> 'a cache_world_scheme \<Rightarrow> 'a cache_world_scheme option" where
  "fwCollect io aRequired w =
    (if iWaitTimerActive w then do {
       w1 \<leftarrow> CollectMemory io aRequired (w\<lparr>iWaitTimerActive := False\<rparr>);
       Some (BeginWriting (w1\<lparr>iLowMemoryState := True\<rparr>)) }
     else Some w)"

definition IsCacheEntryPostponed :: "nat \<Rightarrow> 'a cache_world_scheme \<Rightarrow> bool" where
  "IsCacheEntryPostponed p w \<longleftrightarrow> p \<in> set (iObjectQueue w)"

end
