(* ===== verification/HeaderText.thy ===== *)
theory HeaderText
  imports Prelude
begin

text \<open>
  The textual form of cached HTTP headers (cache/src/HttpCacheUtil.cpp): a header collection is
  the list of its fields in order, a field its name and raw value; names compare after
  \<open>fold_ch\<close>. The loops that read the text back need not end, so they are partial.
\<close>

type_synonym headers = "(tdes8 \<times> tdes8) list"

definition KHttpNewLine :: tdes8 where "KHttpNewLine = [13, 10]"
definition KHttpFieldSeparator :: tdes8 where "KHttpFieldSeparator = [58, 32]"
definition KMaxHeaderStrLen :: nat where "KMaxHeaderStrLen = 1024"
definition KHttpContentType :: tdes8 where "KHttpContentType = lit8 ''Content-Type''"

text \<open>\<open>Append\<close> panics when the descriptor is full.\<close>

definition desAppend :: "nat \<Rightarrow> tdes8 \<Rightarrow> tdes8 \<Rightarrow> tdes8 option" where
  "desAppend maxLength d x = (if length d + length x \<le> maxLength then Some (d @ x) else None)"

fun headersToBufferLoop :: "headers \<Rightarrow> nat \<Rightarrow> nat \<Rightarrow> tdes8 \<Rightarrow> tdes8 option" where
  "headersToBufferLoop [] maxLength newLength headerPtr = Some headerPtr"
| "headersToBufferLoop ((name, rawData) # it) maxLength newLength headerPtr =
    (let newLength = newLength + (length name + length KHttpFieldSeparator + length rawData + length KHttpNewLine);
         maxLength = (if maxLength < newLength then newLength + KMaxHeaderStrLen else maxLength) in
     (case desAppend maxLength headerPtr name of None \<Rightarrow> None
      | Some h1 \<Rightarrow> (case desAppend maxLength h1 KHttpFieldSeparator of None \<Rightarrow> None
      | Some h2 \<Rightarrow> (case desAppend maxLength h2 rawData of None \<Rightarrow> None
      | Some h3 \<Rightarrow> (case desAppend maxLength h3 KHttpNewLine of None \<Rightarrow> None
      | Some h4 \<Rightarrow> headersToBufferLoop it maxLength newLength h4)))))"

definition HeadersToBufferLC :: "headers \<Rightarrow> tdes8 option" where
  "HeadersToBufferLC aHttpHeaders = headersToBufferLoop aHttpHeaders KMaxHeaderStrLen 0 []"

subsection \<open>Operations of the header collection\<close>

definition hasField :: "(byte \<Rightarrow> byte) \<Rightarrow> tdes8 \<Rightarrow> headers \<Rightarrow> bool" where
  "hasField fold_ch name hs \<longleftrightarrow> (\<exists>h \<in> set hs. des_eqF fold_ch (fst h) name)"

definition removeField :: "(byte \<Rightarrow> byte) \<Rightarrow> tdes8 \<Rightarrow> headers \<Rightarrow> headers" where
  "removeField fold_ch name hs = filter (\<lambda>h. \<not> des_eqF fold_ch (fst h) name) hs"

partial_function (option) bufferToHeadersLoop :: "(byte \<Rightarrow> byte) \<Rightarrow> tdes8 \<Rightarrow> headers \<Rightarrow> headers option" where
  "bufferToHeadersLoop fold_ch headerStr hs =
    (case des_find headerStr KHttpNewLine of
       None \<Rightarrow> Some hs
     | Some lineEnd \<Rightarrow>
       (case des_find headerStr KHttpFieldSeparator of
          None \<Rightarrow> bufferToHeadersLoop fold_ch headerStr hs
        | Some sepPos \<Rightarrow>
          if lineEnd > sepPos then
            let line = take lineEnd headerStr;
                key = take sepPos line;
                value = drop (sepPos + length KHttpFieldSeparator) line;
                hs1 = (if hasField fold_ch key hs then removeField fold_ch key hs else hs)
            in bufferToHeadersLoop fold_ch (drop (lineEnd + length KHttpNewLine) headerStr) (hs1 @ [(key, value)])
          else bufferToHeadersLoop fold_ch headerStr hs))"

definition BufferToHeadersL :: "(byte \<Rightarrow> byte) \<Rightarrow> tdes8 \<Rightarrow> headers \<Rightarrow> headers option" where
  "BufferToHeadersL fold_ch aHeaderStr aHttpHeaders = bufferToHeadersLoop fold_ch aHeaderStr aHttpHeaders"

partial_function (option) mergeHeadersLoop :: "(byte \<Rightarrow> byte) \<Rightarrow> tdes8 \<Rightarrow> headers \<Rightarrow> headers option" where
  "mergeHeadersLoop fold_ch headerStr hs =
    (case des_find headerStr KHttpNewLine of
       None \<Rightarrow> Some hs
     | Some lineEnd \<Rightarrow>
       (case des_find headerStr KHttpFieldSeparator of
          None \<Rightarrow> mergeHeadersLoop fold_ch headerStr hs
        | Some sepPos \<Rightarrow>
          if lineEnd > sepPos then
            let line = take lineEnd headerStr;
                key = take sepPos line;
                value = drop (sepPos + length KHttpFieldSeparator) line;
                hs1 = (if key = KHttpContentType then removeField fold_ch key hs else hs);
                hs2 = (if hasField fold_ch key hs1 then hs1 else hs1 @ [(key, value)])
            in mergeHeadersLoop fold_ch (drop (lineEnd + length KHttpNewLine) headerStr) hs2
          else mergeHeadersLoop fold_ch headerStr hs))"

definition MergeHeadersLC :: "(byte \<Rightarrow> byte) \<Rightarrow> tdes8 \<Rightarrow> headers \<Rightarrow> tdes8 option" where
  "MergeHeadersLC fold_ch aCachedHeaderStr aResponseHeaders =
     Option.bind (mergeHeadersLoop fold_ch aCachedHeaderStr aResponseHeaders) HeadersToBufferLC"

text \<open>\<open>AddHeaderLC\<close>: \<open>Replace\<close> panics on a negative length or past the maximum length.\<close>

definition AddHeaderLC :: "(byte \<Rightarrow> byte) \<Rightarrow> tdes8 \<Rightarrow> tdes8 \<Rightarrow> tdes8 \<Rightarrow> tdes8 option" where
  "AddHeaderLC fold_ch aName aValue aHeaders =
    (let maxLength = length aHeaders + length aName + length KHttpFieldSeparator + length aValue + length KHttpNewLine in
     case des_findF fold_ch aHeaders aName of
       Some pos \<Rightarrow>
         (case des_find (drop pos aHeaders) KHttpNewLine of
            Some endPos \<Rightarrow>
              let valuePos = pos + length aName + length KHttpFieldSeparator in
              if valuePos \<le> pos + endPos \<and> length aHeaders - (pos + endPos - valuePos) + length aValue \<le> maxLength
              then Some (take valuePos aHeaders @ aValue @ drop (pos + endPos) aHeaders) else None
          | None \<Rightarrow> Some aHeaders)
     | None \<Rightarrow> Some (aHeaders @ aName @ KHttpFieldSeparator @ aValue @ KHttpNewLine))"

text \<open>The inner \<open>None\<close> is the null result.\<close>

definition HeaderFieldFromBufferLC :: "tdes8 \<Rightarrow> tdes8 \<Rightarrow> tdes8 option option" where
  "HeaderFieldFromBufferLC aHeaders aKey =
    (case des_find aHeaders aKey of
       None \<Rightarrow> Some None
     | Some pos \<Rightarrow>
       let linePtr = drop pos aHeaders in
       (case des_find linePtr KHttpFieldSeparator of
          None \<Rightarrow> Some None
        | Some sepPos \<Rightarrow>
          let lineEnd = (case des_find linePtr KHttpNewLine of None \<Rightarrow> length linePtr | Some n \<Rightarrow> n);
              start = sepPos + length KHttpFieldSeparator in
          if start \<le> lineEnd then Some (Some (take (lineEnd - start) (drop start linePtr))) else None))"

subsection \<open>Writing and reading back\<close>

definition headerLine :: "tdes8 \<times> tdes8 \<Rightarrow> tdes8" where
  "headerLine h = fst h @ KHttpFieldSeparator @ snd h @ KHttpNewLine"

lemma headersToBufferLoop_text:
  "length hp = n \<Longrightarrow> n \<le> m \<Longrightarrow> headersToBufferLoop hs m n hp = Some (hp @ concat (map headerLine hs))"
proof (induction hs arbitrary: m n hp)
  case (Cons h hs)
  obtain name raw where h: "h = (name, raw)" by (cases h)
  let ?n = "n + (length name + length KHttpFieldSeparator + length raw + length KHttpNewLine)"
  let ?m = "if m < ?n then ?n + KMaxHeaderStrLen else m"
  have room: "?n \<le> ?m" by simp
  have "headersToBufferLoop (h # hs) m n hp = headersToBufferLoop hs ?m ?n (hp @ headerLine h)"
    using Cons.prems room by (simp add: h Let_def desAppend_def headerLine_def)
  also have "\<dots> = Some ((hp @ headerLine h) @ concat (map headerLine hs))"
    by (rule Cons.IH) (use Cons.prems room in \<open>simp_all add: h headerLine_def\<close>)
  finally show ?case by simp
qed simp

lemma HeadersToBufferLC_text: "HeadersToBufferLC hs = Some (concat (map headerLine hs))"
  using headersToBufferLoop_text [of "[]" 0 KMaxHeaderStrLen hs] by (simp add: HeadersToBufferLC_def)

lemma des_find_pair:
  assumes "x \<noteq> y" "des_find d [x, y] = None"
  shows "des_find (d @ x # y # r) [x, y] = Some (length d)"
  using assms
proof (induction d)
  case Nil
  then show ?case by simp
next
  case (Cons c d)
  have "\<not> prefix [x, y] (c # d @ x # y # r)"
    using Cons.prems by (cases d) (auto split: if_splits)
  moreover have "des_find d [x, y] = None" using Cons.prems by (auto split: if_splits)
  ultimately show ?case using Cons.IH Cons.prems by simp
qed

text \<open>What a field needs for its line to be read back.\<close>

definition fieldOk :: "tdes8 \<times> tdes8 \<Rightarrow> bool" where
  "fieldOk h \<longleftrightarrow> des_find (fst h) KHttpFieldSeparator = None \<and>
     des_find (fst h @ KHttpFieldSeparator @ snd h) KHttpNewLine = None"

lemma headerLine_find:
  assumes "fieldOk h"
  shows "des_find (headerLine h @ r) KHttpNewLine = Some (length (fst h) + 2 + length (snd h))"
    "des_find (headerLine h @ r) KHttpFieldSeparator = Some (length (fst h))"
proof -
  have "des_find ((fst h @ KHttpFieldSeparator @ snd h) @ 13 # 10 # r) [13, 10] =
      Some (length (fst h @ KHttpFieldSeparator @ snd h))"
    using assms by (intro des_find_pair) (simp_all add: fieldOk_def KHttpNewLine_def)
  then show "des_find (headerLine h @ r) KHttpNewLine = Some (length (fst h) + 2 + length (snd h))"
    by (simp add: headerLine_def KHttpNewLine_def KHttpFieldSeparator_def)
  have "des_find (fst h @ 58 # 32 # (snd h @ KHttpNewLine @ r)) [58, 32] = Some (length (fst h))"
    using assms by (intro des_find_pair) (simp_all add: fieldOk_def KHttpFieldSeparator_def)
  then show "des_find (headerLine h @ r) KHttpFieldSeparator = Some (length (fst h))"
    by (simp add: headerLine_def KHttpFieldSeparator_def)
qed

lemma bufferToHeadersLoop_line:
  assumes "fieldOk h"
  shows "bufferToHeadersLoop f (headerLine h @ r) hs = bufferToHeadersLoop f r (removeField f (fst h) hs @ [h])"
proof -
  have key: "take (length (fst h)) (take (length (fst h) + 2 + length (snd h)) (headerLine h @ r)) = fst h"
    by (simp add: headerLine_def KHttpFieldSeparator_def)
  have val: "drop (length (fst h) + 2) (take (length (fst h) + 2 + length (snd h)) (headerLine h @ r)) = snd h"
    by (simp add: headerLine_def KHttpFieldSeparator_def)
  have rest: "drop (length (fst h) + 2 + length (snd h) + 2) (headerLine h @ r) = r"
    by (simp add: headerLine_def KHttpFieldSeparator_def KHttpNewLine_def numeral_eq_Suc)
  have rm: "(if hasField f (fst h) hs then removeField f (fst h) hs else hs) = removeField f (fst h) hs"
    by (auto simp: hasField_def removeField_def filter_id_conv)
  have lt: "(length (fst h) < length (fst h) + 2 + length (snd h)) = True" by simp
  have two: "length KHttpFieldSeparator = 2" "length KHttpNewLine = 2"
    by (simp_all add: KHttpFieldSeparator_def KHttpNewLine_def)
  show ?thesis
    by (subst bufferToHeadersLoop.simps)
      (simp only: headerLine_find [OF assms] option.case lt if_True Let_def two key val rest rm prod.collapse)
qed

lemma bufferToHeadersLoop_lines:
  "\<forall>h \<in> set hs. fieldOk h \<Longrightarrow>
   bufferToHeadersLoop f (concat (map headerLine hs)) acc = Some (foldl (\<lambda>a h. removeField f (fst h) a @ [h]) acc hs)"
proof (induction hs arbitrary: acc)
  case Nil
  have "des_find [] KHttpNewLine = None" by (simp add: KHttpNewLine_def)
  then show ?case by (subst bufferToHeadersLoop.simps) simp
next
  case (Cons h hs)
  then show ?case by (simp add: bufferToHeadersLoop_line)
qed

definition namesDistinct :: "(byte \<Rightarrow> byte) \<Rightarrow> headers \<Rightarrow> bool" where
  "namesDistinct f hs \<longleftrightarrow> distinct (map (\<lambda>h. map f (fst h)) hs)"

lemma foldl_set_fields:
  "namesDistinct f (acc @ hs) \<Longrightarrow> foldl (\<lambda>a h. removeField f (fst h) a @ [h]) acc hs = acc @ hs"
proof (induction hs arbitrary: acc)
  case (Cons h hs)
  have "removeField f (fst h) acc = acc"
    unfolding removeField_def filter_id_conv
  proof
    fix k assume "k \<in> set acc"
    moreover have "map f (fst h) \<notin> (\<lambda>h. map f (fst h)) ` set acc"
      using Cons.prems unfolding namesDistinct_def by simp
    ultimately show "\<not> des_eqF f (fst k) (fst h)" unfolding des_eqF_def by (metis imageI)
  qed
  then show ?case using Cons.IH [of "acc @ [h]"] Cons.prems by simp
qed simp

lemma headers_read_back:
  assumes "\<forall>h \<in> set hs. fieldOk h" "namesDistinct f hs" "HeadersToBufferLC hs = Some buf"
  shows "BufferToHeadersL f buf [] = Some hs"
proof -
  have "buf = concat (map headerLine hs)" using assms(3) by (simp add: HeadersToBufferLC_text)
  then show ?thesis using foldl_set_fields [of f "[]" hs] assms(1,2)
    by (simp add: BufferToHeadersL_def bufferToHeadersLoop_lines)
qed

text \<open>
  Headers survive the cache: the buffer written for a header collection never overflows, and
  reading it back into an empty collection gives the same fields in the same order, when the names
  are distinct and no name or value contains the text that ends it.
\<close>

theorem headers_roundtrip:
  assumes "\<forall>h \<in> set hs. fieldOk h" "namesDistinct f hs"
  shows "\<exists>buf. HeadersToBufferLC hs = Some buf \<and> BufferToHeadersL f buf [] = Some hs"
  using headers_read_back [OF assms] HeadersToBufferLC_text by blast

theorem headers_roundtrip_witness:
  "\<exists>buf. HeadersToBufferLC [([65, 103], [49]), ([69], [])] = Some buf \<and>
     BufferToHeadersL (\<lambda>c. c) buf [] = Some [([65, 103], [49]), ([69], [])]"
  by (rule headers_roundtrip)
    (simp_all add: fieldOk_def namesDistinct_def KHttpNewLine_def KHttpFieldSeparator_def)

text \<open>A text whose next line has no separator before its end.\<close>

definition badLine :: "tdes8 \<Rightarrow> bool" where
  "badLine s \<longleftrightarrow> (case des_find s KHttpNewLine of None \<Rightarrow> False
     | Some n \<Rightarrow> (case des_find s KHttpFieldSeparator of None \<Rightarrow> True | Some m \<Rightarrow> n \<le> m))"

lemma bufferToHeadersLoop_stuck:
  assumes "bufferToHeadersLoop f s hs = Some r"
  shows "\<not> badLine s"
proof (rule bufferToHeadersLoop.raw_induct [where P = "\<lambda>f s hs r. \<not> badLine s", OF _ assms])
  fix loop g t ks y
  assume IH: "\<And>f' s' hs' y'. loop f' s' hs' = Some y' \<Longrightarrow> \<not> badLine s'"
    and step: "(case des_find t KHttpNewLine of
       None \<Rightarrow> Some ks
     | Some lineEnd \<Rightarrow>
       (case des_find t KHttpFieldSeparator of
          None \<Rightarrow> loop g t ks
        | Some sepPos \<Rightarrow>
          if lineEnd > sepPos then
            let line = take lineEnd t;
                key = take sepPos line;
                value = drop (sepPos + length KHttpFieldSeparator) line;
                hs1 = (if hasField g key ks then removeField g key ks else ks)
            in loop g (drop (lineEnd + length KHttpNewLine) t) (hs1 @ [(key, value)])
          else loop g t ks)) = Some y"
  show "\<not> badLine t"
  proof
    assume bad: "badLine t"
    then have "loop g t ks = Some y" using step by (auto simp: badLine_def split: option.splits if_splits)
    from IH [OF this] bad show False by simp
  qed
qed

text \<open>
  C40: a cached header line without the separator before its end is never read past: the loop
  that reads the headers back does not return.
\<close>

theorem header_without_separator_hangs:
  assumes "badLine s"
  shows "BufferToHeadersL f s hs = None"
proof (cases "bufferToHeadersLoop f s hs")
  case (Some r)
  then show ?thesis using bufferToHeadersLoop_stuck assms by blast
qed (simp add: BufferToHeadersL_def)

theorem header_without_separator_hangs_witness: "BufferToHeadersL (\<lambda>c. c) (lit8 ''HTTP/1.1'' @ KHttpNewLine) [] = None"
  by (rule header_without_separator_hangs) (simp add: badLine_def lit8_def KHttpNewLine_def KHttpFieldSeparator_def)

end
