(* ===== verification/CacheHandler.thy ===== *)
theory CacheHandler
  imports FileWriteQueue HeaderText
begin

text \<open>
  The handler of one HTTP cache (\<open>CHttpCacheHandler\<close>, cache/src/HttpCacheHandler.cpp): it
  answers requests from the cache, saves responses, makes space and removes entries. \<open>env\<close> is
  what the platform answers during a call, \<open>trans\<close> what the handler reads from the HTTP
  transaction; the decisions of \<open>HttpCacheUtil\<close> that need parsed header values (freshness,
  cacheability, need of update) are fields of it.
\<close>

datatype TBrCtlCacheMode = ECacheModeNormal | ECacheModeHistory | ECacheModeNoCache | ECacheModeOnlyCache

record env =
  envIo :: io
  envNow :: int
  envSecondsFrom :: "int \<Rightarrow> int \<Rightarrow> 32 word \<Rightarrow> 32 word"
  envSecInt :: "32 word"
  envCrc32 :: "tdes8 \<Rightarrow> 32 word"
  envDir :: tdes16
  envFold :: "byte \<Rightarrow> byte"
  envFreeMem :: int
  envAppendErr :: symerr
  envAddr :: nat

record trans =
  trUrl :: tdes8
  trFixedUrl :: "tdes8 option"
  trPost :: bool
  trPragmaNoCache :: bool
  trFresh :: "headers \<Rightarrow> bool"
  trHeaders :: headers
  trStatusCode :: nat
  trCacheable :: "32 word \<Rightarrow> bool"
  trProtected :: bool
  trNeedsUpdate :: "tdes8 \<Rightarrow> bool"
  trAdjusted :: headers

datatype request_status = RsNone | RsNotFound | RsNotReady

subsection \<open>Making space\<close>

definition chRemoveEntry :: "nat \<Rightarrow> 'a cache_world_scheme \<Rightarrow> 'a cache_world_scheme option" where
  "chRemoveEntry p w = (if iPostponeEnabled w then map_option snd (fwRemoveEntry p w) else Some w)"

text \<open>\<open>Remove\<close> and \<open>EraseCacheEntry\<close> of the table, with the destructors' notices delivered.\<close>

definition chTableRemove :: "env \<Rightarrow> tdes8 \<Rightarrow> 'a cache_world_scheme \<Rightarrow> (symerr \<times> 'a cache_world_scheme) option" where
  "chTableRemove env aUrl w = map_option (\<lambda>(err, w1). (err, drainNotices w1)) (ltRemove (envFold env) (envIo env) aUrl w)"

definition chTableErase :: "env \<Rightarrow> tdes8 \<Rightarrow> 'a cache_world_scheme \<Rightarrow> 'a cache_world_scheme option" where
  "chTableErase env aUrl w = map_option drainNotices (ltEraseCacheEntry (envFold env) (envIo env) aUrl w)"

text \<open>The loop that destroys the evicted entries.\<close>

fun destroyEvicted :: "env \<Rightarrow> nat list \<Rightarrow> 'a cache_world_scheme \<Rightarrow> 'a cache_world_scheme option" where
  "destroyEvicted env [] w = Some w"
| "destroyEvicted env (p # ps) w = do {
     w1 \<leftarrow> chRemoveEntry p w;
     e \<leftarrow> heap w1 p;
     (err, w2) \<leftarrow> chTableRemove env (iUrl e) (updEntry p UnsetEvictionCandidate w1);
     destroyEvicted env ps w2 }"

definition CacheNeedsSpaceL :: "env \<Rightarrow> 32 word \<Rightarrow> 'a cache_world_scheme \<Rightarrow> (bool \<times> 'a cache_world_scheme) option" where
  "CacheNeedsSpaceL env aSize w =
    (if sint (iContentSize w + aSize) > sint (iSize w) then do {
       (evictedList, w1) \<leftarrow> evEvictL (envSecondsFrom env) (envNow env) (envSecInt env) aSize w;
       if evictedList \<noteq> [] then do {
         w2 \<leftarrow> destroyEvicted env evictedList w1;
         Some (sint (iContentSize w2 + aSize) < sint (iSize w2), w2) }
       else Some (False, w1) }
     else Some (True, w))"

definition SaveBuffer :: "env \<Rightarrow> bool \<Rightarrow> nat \<Rightarrow> tdes8 \<Rightarrow> 'a cache_world_scheme \<Rightarrow> (bool \<times> 'a cache_world_scheme) option" where
  "SaveBuffer env aBody p aBuffer w = do {
     (ok, w1) \<leftarrow> CacheNeedsSpaceL env (of_nat (length aBuffer)) w;
     if ok then (if aBody then SaveBodyData (envIo env) p aBuffer w1 else SaveHeaders (envIo env) p aBuffer w1)
     else Some (False, w1) }"

definition DeleteCacheEntry :: "env \<Rightarrow> nat \<Rightarrow> 'a cache_world_scheme \<Rightarrow> 'a cache_world_scheme option" where
  "DeleteCacheEntry env p w = do {
     w1 \<leftarrow> chRemoveEntry p w;
     e \<leftarrow> heap w1 p;
     chTableErase env (iUrl e) w1 }"

subsection \<open>Requests\<close>

definition CacheNeedsValidationL :: "env \<Rightarrow> trans \<Rightarrow> TBrCtlCacheMode \<Rightarrow> nat \<Rightarrow> 'a cache_world_scheme \<Rightarrow> bool option" where
  "CacheNeedsValidationL env tr aCacheMode p w = do {
     headersStr \<leftarrow> HeadersL p w;
     responseHeaders \<leftarrow> BufferToHeadersL (envFold env) headersStr [];
     Some (if aCacheMode = ECacheModeOnlyCache \<or> aCacheMode = ECacheModeHistory then False
           else if \<not> trPragmaNoCache tr then \<not> trFresh tr responseHeaders
           else True) }"

definition chFind2 :: "env \<Rightarrow> trans \<Rightarrow> 'a cache_world_scheme \<Rightarrow> nat option option" where
  "chFind2 env tr w = do {
     entry \<leftarrow> ltFind (envFold env) (trUrl tr) w;
     case (entry, trFixedUrl tr) of
       (None, Some fixeduri) \<Rightarrow> ltFind (envFold env) fixeduri w
     | _ \<Rightarrow> Some entry }"

text \<open>The third component is the entry the caller keeps for the following calls.\<close>

definition RequestL :: "env \<Rightarrow> trans \<Rightarrow> TBrCtlCacheMode \<Rightarrow> nat option \<Rightarrow> 'a cache_world_scheme \<Rightarrow>
    (request_status \<times> nat option \<times> 'a cache_world_scheme) option" where
  "RequestL env tr aCacheMode aCacheEntry w =
    (if aCacheMode \<noteq> ECacheModeNoCache \<and> \<not> trPost tr then do {
       entry \<leftarrow> chFind2 env tr w;
       case entry of
         None \<Rightarrow> Some (RsNotFound, aCacheEntry, w)
       | Some p \<Rightarrow> do {
           e \<leftarrow> heap w p;
           if iState e = ECacheComplete then do {
             needs \<leftarrow> CacheNeedsValidationL env tr aCacheMode p w;
             if needs then Some (RsNotReady, aCacheEntry, w)
             else do {
               w1 \<leftarrow> entrySetState p ECacheRequesting w;
               w2 \<leftarrow> entryAccessed (envNow env) p w1;
               Some (RsNone, Some p, w2) } }
           else Some (RsNotFound, aCacheEntry, w) } }
     else Some (RsNotFound, aCacheEntry, w))"

definition RequestHeadersL :: "nat option \<Rightarrow> 'a cache_world_scheme \<Rightarrow> request_status option" where
  "RequestHeadersL aCacheEntry w =
    (case aCacheEntry of None \<Rightarrow> Some RsNotFound
     | Some p \<Rightarrow> map_option (\<lambda>e. if iState e = ECacheRequesting then RsNone else RsNotFound) (heap w p))"

definition RequestNextChunkL :: "env \<Rightarrow> nat option \<Rightarrow> 'a cache_world_scheme \<Rightarrow> tdes8 option option" where
  "RequestNextChunkL env aCacheEntry w =
    (case aCacheEntry of None \<Rightarrow> Some None
     | Some p \<Rightarrow> do {
         e \<leftarrow> heap w p;
         if iState e = ECacheRequesting then NextChunkL (envIo env) p w else Some None })"

definition RequestClosed :: "env \<Rightarrow> nat option \<Rightarrow> 'a cache_world_scheme \<Rightarrow> (nat option \<times> 'a cache_world_scheme) option" where
  "RequestClosed env aCacheEntry w =
    (case aCacheEntry of None \<Rightarrow> Some (None, w)
     | Some p \<Rightarrow> do {
         e \<leftarrow> heap w p;
         if iState e = ECacheRequesting then do {
           w1 \<leftarrow> entrySetState p ECacheComplete w; Some (aCacheEntry, w1) }
         else if iState e = ECacheResponding \<or> iState e = ECacheDestroyed then do {
           w1 \<leftarrow> DeleteCacheEntry env p w; Some (None, w1) }
         else Some (aCacheEntry, w) })"

subsection \<open>Responses\<close>

definition HandleResponseOkL :: "env \<Rightarrow> trans \<Rightarrow> nat \<Rightarrow> 'a cache_world_scheme \<Rightarrow> (bool \<times> 'a cache_world_scheme) option" where
  "HandleResponseOkL env tr p w = do {
     responseHeaderStr \<leftarrow> HeadersToBufferLC (trHeaders tr);
     cachedHeaderStr \<leftarrow> HeadersL p w;
     if trNeedsUpdate tr cachedHeaderStr then do {
       e \<leftarrow> heap w p;
       w1 \<leftarrow> (if iHeaderSize e \<noteq> 0 then RemoveHeaders p w else Some w);
       (saveOk, w2) \<leftarrow> SaveBuffer env False p responseHeaderStr w1;
       e2 \<leftarrow> heap w2 p;
       Some (saveOk, if iBodySize e2 \<noteq> 0 then updEntry p (\<lambda>e. e\<lparr>iBodyFileDeleteNeeded := True\<rparr>) w2 else w2) }
     else do { w1 \<leftarrow> entrySetState p ECacheComplete w; Some (True, w1) } }"

definition HandleResponseNotModifiedL :: "env \<Rightarrow> trans \<Rightarrow> nat \<Rightarrow> 'a cache_world_scheme \<Rightarrow> (bool \<times> 'a cache_world_scheme) option" where
  "HandleResponseNotModifiedL env tr p w = do {
     responseHeaderStr \<leftarrow> HeadersToBufferLC (trHeaders tr);
     cachedHeaderStr \<leftarrow> HeadersL p w;
     mergedHeadersStr \<leftarrow> MergeHeadersLC (envFold env) cachedHeaderStr (trHeaders tr);
     w1 \<leftarrow> RemoveHeaders p w;
     (saveOk, w2) \<leftarrow> SaveBuffer env False p mergedHeadersStr w1;
     (saveOk2, w3) \<leftarrow> (if \<not> saveOk then SaveBuffer env False p cachedHeaderStr w2 else Some (True, w2));
     if saveOk2 then do { w4 \<leftarrow> entrySetState p ECacheComplete w3; Some (True, w4) }
     else Some (False, w3) }"

text \<open>\<open>ReceivedResponseHeadersL\<close>: the result is the entry the caller keeps.\<close>

definition respondTo :: "env \<Rightarrow> trans \<Rightarrow> nat option \<Rightarrow> nat \<Rightarrow> 'a cache_world_scheme \<Rightarrow> (nat option \<times> 'a cache_world_scheme) option" where
  "respondTo env tr aCacheEntry p w = do {
     w1 \<leftarrow> entrySetState p ECacheResponding w;
     (ok, w2) \<leftarrow> (if trStatusCode tr = 200 then HandleResponseOkL env tr p w1
                  else if trStatusCode tr = 304 then HandleResponseNotModifiedL env tr p w1
                  else Some (False, w1));
     if ok then Some (Some p, w2)
     else do { w3 \<leftarrow> DeleteCacheEntry env p w2; Some (aCacheEntry, w3) } }"

definition ReceivedResponseHeadersL :: "env \<Rightarrow> trans \<Rightarrow> nat option \<Rightarrow> 'a cache_world_scheme \<Rightarrow>
    (nat option \<times> 'a cache_world_scheme) option" where
  "ReceivedResponseHeadersL env tr aCacheEntry w =
    (if trCacheable tr (word_of_int ((if sint (iSize w) < 0 then - (- sint (iSize w) div 3) else sint (iSize w) div 3))) then do {
       found \<leftarrow> ltFind (envFold env) (trUrl tr) w;
       case found of
         Some p \<Rightarrow> do {
           e \<leftarrow> heap w p;
           if iState e \<noteq> ECacheComplete then Some (aCacheEntry, w) else respondTo env tr aCacheEntry p w }
       | None \<Rightarrow> do {
           (entry, w1) \<leftarrow> ltInsertL (envIo env) (envCrc32 env) (envDir env) (envNow env) (trUrl tr) (envAddr env) w;
           case entry of
             None \<Rightarrow> Some (aCacheEntry, w1)
           | Some p \<Rightarrow>
             respondTo env (tr\<lparr>trHeaders := trAdjusted tr\<rparr>) aCacheEntry p
               (if trProtected tr then updEntry p SetProtected w1 else w1) } }
     else Some (aCacheEntry, w))"

definition ReceivedResponseBodyDataL :: "env \<Rightarrow> tdes8 \<Rightarrow> nat option \<Rightarrow> 'a cache_world_scheme \<Rightarrow>
    (nat option \<times> 'a cache_world_scheme) option" where
  "ReceivedResponseBodyDataL env bodyStr aCacheEntry w =
    (case aCacheEntry of None \<Rightarrow> Some (None, w)
     | Some p \<Rightarrow> do {
         e \<leftarrow> heap w p;
         if iState e = ECacheResponding then do {
           w1 \<leftarrow> (if iBodyFileDeleteNeeded e then
                     map_option (updEntry p (\<lambda>e. e\<lparr>iBodyFileDeleteNeeded := False\<rparr>)) (RemoveBodyData (envIo env) p w)
                   else Some w);
           (ok, w2) \<leftarrow> SaveBuffer env True p bodyStr w1;
           if ok then Some (aCacheEntry, w2)
           else do { w3 \<leftarrow> DeleteCacheEntry env p w2; Some (None, w3) } }
         else Some (aCacheEntry, w) })"

definition ResponseComplete :: "env \<Rightarrow> nat option \<Rightarrow> 'a cache_world_scheme \<Rightarrow> (nat option \<times> 'a cache_world_scheme) option" where
  "ResponseComplete env aCacheEntry w =
    (case aCacheEntry of None \<Rightarrow> Some (None, w)
     | Some p \<Rightarrow> do {
         e \<leftarrow> heap w p;
         if iState e = ECacheResponding then do {
           (postponed, w1) \<leftarrow>
             (if iPostponeEnabled w then do {
                (addStatus, err, w1) \<leftarrow> fwAddEntry (envFreeMem env) (envAppendErr env) p w;
                if addStatus = EAddedOk then do { w2 \<leftarrow> entrySetState p ECacheComplete w1; Some (True, w2) }
                else Some (False, w1) }
              else Some (False, w));
           if postponed then Some (aCacheEntry, w1)
           else do {
             (flushed, w2) \<leftarrow> Flush (envIo env) p w1;
             if flushed then do { w3 \<leftarrow> entrySetState p ECacheComplete w2; Some (aCacheEntry, w3) }
             else do { w3 \<leftarrow> DeleteCacheEntry env p w2; Some (None, w3) } } }
         else if iState e = ECacheDestroyed then do { w1 \<leftarrow> DeleteCacheEntry env p w; Some (None, w1) }
         else Some (aCacheEntry, w) })"

subsection \<open>Removing, finding and saving\<close>

definition RemoveL :: "env \<Rightarrow> tdes8 \<Rightarrow> 'a cache_world_scheme \<Rightarrow> (symerr \<times> 'a cache_world_scheme) option" where
  "RemoveL env aUrl w = do {
     entry \<leftarrow> ltFind (envFold env) aUrl w;
     case entry of None \<Rightarrow> Some (KErrNotFound, w)
     | Some p \<Rightarrow> do {
         e \<leftarrow> heap w p;
         if iState e = ECacheComplete then chTableRemove env aUrl w
         else do { w1 \<leftarrow> entrySetState p ECacheDestroyed w; Some (KErrNone, w1) } } }"

text \<open>\<open>RemoveAllL\<close> up to the point where it saves the index, which \<open>HandlerLife\<close> adds.\<close>

definition chRemoveAll :: "env \<Rightarrow> 'a cache_world_scheme \<Rightarrow> (32 word \<times> 'a cache_world_scheme) option" where
  "chRemoveAll env w = do {
     w1 \<leftarrow> (if iPostponeEnabled w then fwRemoveAll w else Some w);
     (numberOfBytes, w2) \<leftarrow> ltRemoveAll (envIo env) w1;
     Some (numberOfBytes, drainNotices w2) }"

definition chFind :: "env \<Rightarrow> tdes8 \<Rightarrow> 'a cache_world_scheme \<Rightarrow> bool option" where
  "chFind env aUrl w = do {
     entry \<leftarrow> ltFind (envFold env) aUrl w;
     case entry of None \<Rightarrow> Some False
     | Some p \<Rightarrow> map_option (\<lambda>e. iState e = ECacheComplete) (heap w p) }"

definition SaveL :: "env \<Rightarrow> tdes8 \<Rightarrow> tdes8 \<Rightarrow> tdes8 \<Rightarrow> 'a cache_world_scheme \<Rightarrow> (bool \<times> 'a cache_world_scheme) option" where
  "SaveL env aUrl aHeader aContent w = do {
     found \<leftarrow> ltFind (envFold env) aUrl w;
     case found of Some _ \<Rightarrow> Some (False, w)
     | None \<Rightarrow> do {
         (entry, w1) \<leftarrow> ltInsertL (envIo env) (envCrc32 env) (envDir env) (envNow env) aUrl (envAddr env) w;
         case entry of None \<Rightarrow> Some (False, w1)
         | Some p \<Rightarrow> do {
             (savedH, w2) \<leftarrow> SaveBuffer env False p aHeader w1;
             (savedB, w3) \<leftarrow> (if savedH then SaveBuffer env True p aContent w2 else Some (False, w2));
             (saved, w4) \<leftarrow>
               (if savedB then do {
                  (flushed, w4) \<leftarrow> Flush (envIo env) p w3;
                  if flushed then do { w5 \<leftarrow> entrySetState p ECacheComplete w4; Some (True, w5) } else Some (False, w4) }
                else Some (False, w3));
             if saved then Some (True, w4)
             else do { w5 \<leftarrow> DeleteCacheEntry env p w4; Some (False, w5) } } } }"

definition AddHeaderL :: "env \<Rightarrow> tdes8 \<Rightarrow> tdes8 \<Rightarrow> tdes8 \<Rightarrow> 'a cache_world_scheme \<Rightarrow> (request_status \<times> 'a cache_world_scheme) option" where
  "AddHeaderL env aUrl aName aValue w = do {
     entry \<leftarrow> ltFind (envFold env) aUrl w;
     case entry of None \<Rightarrow> Some (RsNotFound, w)
     | Some p \<Rightarrow> do {
         headersStr \<leftarrow> HeadersL p w;
         newHeaderStr \<leftarrow> AddHeaderLC (envFold env) aName aValue headersStr;
         w1 \<leftarrow> RemoveHeaders p w;
         (ok, w2) \<leftarrow> SaveBuffer env False p newHeaderStr w1;
         if ok then Some (RsNone, w2)
         else do {
           (saveOk, w3) \<leftarrow> SaveBuffer env False p headersStr w2;
           if saveOk then Some (RsNotReady, w3)
           else do { w4 \<leftarrow> DeleteCacheEntry env p w3; Some (RsNotReady, w4) } } } }"

end
