(* ===== verification/Interfaces.thy ===== *)
theory Interfaces
  imports Prelude
begin

text \<open>
  The contracts between the parts of the cache. A client that works through a list of entries
  relies on the operation it calls for each of them: what it may assume while some entries are
  still pending, and what is left of the invariant when one of them is done.
\<close>

subsection \<open>Running an operation over a list\<close>

primrec foldOpt :: "('a \<Rightarrow> 'w \<Rightarrow> 'w option) \<Rightarrow> 'a list \<Rightarrow> 'w \<Rightarrow> 'w option" where
  "foldOpt op [] w = Some w"
| "foldOpt op (x # xs) w = (case op x w of None \<Rightarrow> None | Some w1 \<Rightarrow> foldOpt op xs w1)"

lemma foldOpt_append: "foldOpt op (xs @ ys) w = Option.bind (foldOpt op xs w) (foldOpt op ys)"
  by (induction xs arbitrary: w) (auto split: option.splits)

subsection \<open>Erasing what is pending\<close>

text \<open>
  \<open>inv X w\<close>: the world is consistent but for the entries \<open>X\<close>, which are still to be erased.
  \<open>keep\<close> is what every operation leaves alone.
\<close>

locale pending_eraser =
  fixes inv :: "nat set \<Rightarrow> 'w \<Rightarrow> bool" and live :: "'w \<Rightarrow> nat \<Rightarrow> 'e option"
    and erase :: "nat \<Rightarrow> 'w \<Rightarrow> 'w option" and keep :: "'w \<Rightarrow> 'w \<Rightarrow> bool"
  assumes erase_law: "inv X w \<Longrightarrow> p \<in> X \<Longrightarrow>
      \<exists>w'. erase p w = Some w' \<and> inv (X - {p}) w' \<and> live w' = (live w)(p := None) \<and> keep w w'"
    and keep_refl: "keep w w"
    and keep_trans: "keep u v \<Longrightarrow> keep v w \<Longrightarrow> keep u w"
begin

lemma erase_all:
  "inv X w \<Longrightarrow> set ps \<subseteq> X \<Longrightarrow> distinct ps \<Longrightarrow>
   \<exists>w'. foldOpt erase ps w = Some w' \<and> inv (X - set ps) w' \<and>
     live w' = (\<lambda>p. if p \<in> set ps then None else live w p) \<and> keep w w'"
proof (induction ps arbitrary: X w)
  case Nil
  then show ?case by (auto intro: keep_refl)
next
  case (Cons p ps)
  from Cons.prems have "p \<in> X" by simp
  from erase_law [OF Cons.prems(1) this] obtain w1
    where w1: "erase p w = Some w1" "inv (X - {p}) w1" "live w1 = (live w)(p := None)" "keep w w1" by blast
  have "set ps \<subseteq> X - {p}" "distinct ps" using Cons.prems by auto
  from Cons.IH [OF w1(2) this] obtain w'
    where w': "foldOpt erase ps w1 = Some w'" "inv (X - {p} - set ps) w'"
      "live w' = (\<lambda>q. if q \<in> set ps then None else live w1 q)" "keep w1 w'" by blast
  have "X - {p} - set ps = X - set (p # ps)" by auto
  then show ?case using w1 w' keep_trans [OF w1(4) w'(4)] by (auto simp: fun_eq_iff)
qed

lemma erase_everything:
  assumes "inv (set ps) w" "distinct ps"
  shows "\<exists>w'. foldOpt erase ps w = Some w' \<and> inv {} w' \<and>
    live w' = (\<lambda>p. if p \<in> set ps then None else live w p) \<and> keep w w'"
  using erase_all [OF assms(1) order_refl assms(2)] by simp

end

end
