(* ===== verification/MakeSpace.thy ===== *)
theory MakeSpace
  imports CacheHandler Interfaces
begin

text \<open>
  Making space in the cache: what \<open>CacheNeedsSpaceL\<close> guarantees. The eviction handler hands
  over entries that it has taken out of its buckets but that still carry their candidate flag;
  \<open>unfile\<close> is the world in which the flags of such entries are already cleared. It is consistent
  at every moment of the loop that destroys them, and each operation of the loop commutes with it.
\<close>

subsection \<open>Pending evictions\<close>

definition clearFlags :: "nat set \<Rightarrow> (nat \<Rightarrow> cache_entry option) \<Rightarrow> nat \<Rightarrow> cache_entry option" where
  "clearFlags X h p = (if p \<in> X then map_option UnsetEvictionCandidate (h p) else h p)"

definition unfile :: "nat set \<Rightarrow> 'a ev_world_scheme \<Rightarrow> 'a ev_world_scheme" where
  "unfile X w = w\<lparr>heap := clearFlags X (heap w)\<rparr>"

lemma clearFlags_upd [simp]:
  "p \<notin> X \<Longrightarrow> clearFlags X (h(p := x)) = (clearFlags X h)(p := x)" "p \<notin> X \<Longrightarrow> clearFlags X h p = h p"
  by (auto simp: clearFlags_def)

lemma unfile_simps [simp]:
  "heap (unfile X w) = clearFlags X (heap w)"
  "iBuckets (unfile X w) = iBuckets w" "deleteNotices (unfile X w) = deleteNotices w"
  by (simp_all add: unfile_def)

lemma unfile_table_simps [simp]:
  fixes w :: "'a table_world_scheme"
  shows "iEntries (unfile X w) = iEntries w" "iCount (unfile X w) = iCount w" "iContentSize (unfile X w) = iContentSize w"
    "disk (unfile X w) = disk w" "writers (unfile X w) = writers w"
  by (simp_all add: unfile_def)

lemma unfile_empty [simp]: "unfile {} w = w"
  by (simp add: unfile_def clearFlags_def [abs_def])

lemma Unset_facts [simp]:
  "iUrl (UnsetEvictionCandidate e) = iUrl e" "iFileName (UnsetEvictionCandidate e) = iFileName e"
  "iState (UnsetEvictionCandidate e) = iState e" "iBodySize (UnsetEvictionCandidate e) = iBodySize e"
  "iHeaderSize (UnsetEvictionCandidate e) = iHeaderSize e" "iRef (UnsetEvictionCandidate e) = iRef e"
  "\<not> iEvictionCandidate (UnsetEvictionCandidate e)" "iDeleteObserver (UnsetEvictionCandidate e) = iDeleteObserver e"
  by (simp_all add: UnsetEvictionCandidate_def)

lemma urlOf_unfile [simp]: "urlOf (unfile X w) = urlOf w"
  by (rule ext) (auto simp: urlOf_def clearFlags_def option.map_comp comp_def)

lemma ltProbe_unfile: "ltProbe f key (unfile X w) = ltProbe f key w"
  by (simp add: ltProbe_def)

lemma entryAt_unfile:
  assumes "i < length (iEntries w)" "iEntries w ! i = SEntry p" "p \<notin> X"
  shows "entryAt (int i) (unfile X w) = entryAt (int i) w"
  using assms by (simp add: entryAt_def BoundaryCheck_def)

lemma worldCancel_unfile:
  assumes "p \<notin> X"
  shows "worldCancelBodyWrite p (unfile X w) = map_option (unfile X) (worldCancelBodyWrite p w)"
proof (cases "heap w p")
  case None
  then show ?thesis using assms by (simp add: worldCancelBodyWrite_def)
next
  case (Some e)
  then show ?thesis using assms
    by (cases "writers w p") (auto simp: worldCancelBodyWrite_def Let_def unfile_def)
qed

lemma shErase_unfile:
  assumes "p \<notin> X"
  shows "shErase io p (unfile X w) = map_option (unfile X) (shErase io p w)"
proof (cases "worldCancelBodyWrite p w")
  case None
  then show ?thesis using worldCancel_unfile [OF assms, of w] by (simp add: shErase_def)
next
  case (Some w1)
  show ?thesis
  proof (cases "Option.bind (heap w1 p) iFileName")
    case None
    then show ?thesis using worldCancel_unfile [OF assms, of w] Some assms
      by (cases "heap w1 p") (simp_all add: shErase_def)
  next
    case n: (Some n)
    then obtain e where e: "heap w1 p = Some e" "iFileName e = Some n" by (cases "heap w1 p") simp_all
    then show ?thesis using worldCancel_unfile [OF assms, of w] Some assms
      by (simp add: shErase_def deleteFile_def unfile_def)
  qed
qed

lemma evRemove_unfile: "p \<notin> X \<Longrightarrow> evRemove p (unfile X w) = map_option (unfile X) (evRemove p w)"
  by (cases "heap w p"; cases "entryBucket (the (heap w p))")
    (auto simp: evRemove_def ItemIsInBucket_def bucketRemove_def unfile_def)

lemma entryDelete_unfile:
  assumes "p \<notin> X"
  shows "entryDelete p (unfile X w) = map_option (unfile X) (entryDelete p w)"
proof (cases "heap w p")
  case None
  then show ?thesis using assms by (simp add: entryDelete_def)
next
  case (Some e)
  have *: "(unfile X w1)\<lparr>heap := (heap (unfile X w1))(p := None), deleteNotices := d\<rparr> =
      unfile X (w1\<lparr>heap := (heap w1)(p := None), deleteNotices := d\<rparr>)" for w1 :: "'a ev_world_scheme" and d
    using assms by (simp add: unfile_def)
  show ?thesis
  proof (cases "iEvictionCandidate e")
    case True
    then show ?thesis using Some assms evRemove_unfile [OF assms, of w] *
      by (cases "evRemove p w") (simp_all add: entryDelete_def)
  next
    case False
    then show ?thesis using Some assms * by (simp add: entryDelete_def)
  qed
qed

lemma ltErase_unfile:
  assumes "i < length (iEntries w)" "iEntries w ! i = SEntry p" "p \<notin> X"
  shows "ltErase io (int i) (unfile X w) = map_option (unfile X) (ltErase io (int i) w)"
proof (cases "shErase io p w")
  case None
  then show ?thesis using assms shErase_unfile [OF assms(3), of io w]
    by (simp add: ltErase_def BoundaryCheck_def)
next
  case (Some w1)
  let ?w2 = "w1\<lparr>iEntries := SetDeleted (iEntries w1) (int i)\<rparr>"
  have c: "(unfile X w1)\<lparr>iEntries := SetDeleted (iEntries w1) (int i)\<rparr> = unfile X ?w2" by (simp add: unfile_def)
  show ?thesis
  proof (cases "entryDelete p ?w2")
    case None
    then show ?thesis using assms Some c shErase_unfile [OF assms(3), of io w] entryDelete_unfile [OF assms(3), of ?w2]
      by (simp add: ltErase_def BoundaryCheck_def)
  next
    case (Some w3)
    have d: "(unfile X w3)\<lparr>iCount := iCount w3 - 1\<rparr> = unfile X (w3\<lparr>iCount := iCount w3 - 1\<rparr>)" by (simp add: unfile_def)
    show ?thesis
      using assms Some \<open>shErase io p w = Some w1\<close> c d shErase_unfile [OF assms(3), of io w] entryDelete_unfile [OF assms(3), of ?w2]
      by (simp add: ltErase_def BoundaryCheck_def)
  qed
qed

subsection \<open>After the eviction\<close>

lemma ev_ok_unfile_evicted:
  assumes ok: "ev_ok w" and run: "evEvictL sf now s need w = Some (ps, w')"
  shows "ev_ok (unfile (set ps) w')"
proof -
  obtain qss where q: "heap w' = heap w" "length (iBuckets w') = KHttpCacheBucketNum" "length qss = KHttpCacheBucketNum"
    "set ps = \<Union> (set ` set qss)" "\<forall>i < KHttpCacheBucketNum. iBuckets w ! i = qss ! i @ iBuckets w' ! i"
    using evEvictL_spec [OF ok, of sf now s need] run by auto
  have d: "distinct (qss ! i @ iBuckets w' ! i)" if "i < KHttpCacheBucketNum" for i
    using that q(5) ev_ok_distinct [OF ok] ev_ok_length [OF ok] by (metis nth_mem)
  have gone: "p \<notin> set (iBuckets w' ! i)" if p: "p \<in> set ps" and i: "i < KHttpCacheBucketNum" for i p
  proof
    assume "p \<in> set (iBuckets w' ! i)"
    then have fi: "filed w i p" using i q(5) ev_ok_length [OF ok] by (simp add: filed_def)
    obtain j where j: "j < KHttpCacheBucketNum" "p \<in> set (qss ! j)"
      using p q(3,4) by (auto dest!: in_set_conv_nth [THEN iffD1, of _ qss])
    then have "filed w j p" using q(5) ev_ok_length [OF ok] by (simp add: filed_def)
    then have "i = j" using ev_ok_one_bucket [OF ok fi] by simp
    then show False using d [OF i] j \<open>p \<in> set (iBuckets w' ! i)\<close> by auto
  qed
  have stay: "filed w' i p \<longleftrightarrow> filed w i p" if "p \<notin> set ps" for i p
  proof (cases "i < KHttpCacheBucketNum")
    case True
    then have "p \<notin> set (qss ! i)" using that q(3,4) by (auto dest: nth_mem)
    then show ?thesis using True q(2,5) ev_ok_length [OF ok] by (simp add: filed_def)
  qed (simp add: filed_def q(2) ev_ok_length [OF ok])
  have filed: "filed w' i p \<longleftrightarrow> (\<exists>e. clearFlags (set ps) (heap w) p = Some e \<and> iEvictionCandidate e \<and> entryBucket e = Some i)" for i p
  proof (cases "p \<in> set ps")
    case True
    then have "\<not> filed w' i p" using gone q(2) by (auto simp: filed_def)
    then show ?thesis using True by (auto simp: clearFlags_def)
  next
    case False
    then show ?thesis using stay ev_ok_filed [OF ok] by (simp add: clearFlags_def)
  qed
  have "\<forall>b \<in> set (iBuckets w'). distinct b" using d q(2) by (auto simp: in_set_conv_nth)
  moreover have "\<forall>p e. clearFlags (set ps) (heap w) p = Some e \<longrightarrow> iEvictionCandidate e \<longrightarrow> iRef e \<noteq> 0"
    using ev_ok_ref [OF ok] by (auto simp: clearFlags_def split: if_splits)
  moreover have "filed (unfile (set ps) w') = filed w'" by (simp add: filed_def fun_eq_iff)
  ultimately show ?thesis using filed q(1,2) by (simp add: ev_ok_def)
qed

lemma entrySpace_unfile [simp]: "entrySpace (unfile X w) p = entrySpace w p"
  by (cases "heap w p") (simp_all add: entrySpace_def clearFlags_def)

lemma lt_ok_unfile_evicted:
  assumes ok: "lt_ok w" and run: "evEvictL sf now s need w = Some (ps, w')"
  shows "lt_ok (unfile (set ps) w')"
proof -
  note fr = ev_frame_fields [OF evEvictLoop_ev_frame [OF run [unfolded evEvictL_def]]]
  have h: "heap w' = heap w" using evEvictL_spec [OF lt_okD(4) [OF ok], of sf now s need] run by auto
  have u: "urlOf w' = urlOf w" by (simp add: urlOf_def h fun_eq_iff)
  have "dom (clearFlags (set ps) (heap w)) = dom (heap w)" by (auto simp: clearFlags_def split: if_splits)
  moreover have "entrySpace w' = entrySpace w" by (simp add: entrySpace_def h fun_eq_iff)
  moreover have "\<forall>p e. clearFlags (set ps) (heap w) p = Some e \<longrightarrow> iFileName e \<noteq> None"
    using ok by (auto simp: clearFlags_def lt_ok_def split: if_splits)
  ultimately show ?thesis using ok ev_ok_unfile_evicted [OF lt_okD(4) [OF ok] run] fr h u by (simp add: lt_ok_def)
qed

subsection \<open>Destroying one evicted entry\<close>

definition destroyOne :: "env \<Rightarrow> nat \<Rightarrow> 'a cache_world_scheme \<Rightarrow> 'a cache_world_scheme option" where
  "destroyOne env p w = do {
     w1 \<leftarrow> chRemoveEntry p w;
     e \<leftarrow> heap w1 p;
     (err, w2) \<leftarrow> chTableRemove env (iUrl e) (updEntry p UnsetEvictionCandidate w1);
     Some w2 }"

lemma destroyEvicted_fold: "destroyEvicted env ps w = foldOpt (destroyOne env) ps w"
  by (induction ps arbitrary: w) (auto simp: destroyOne_def split: Option.bind_splits option.splits)

text \<open>What the write queue does to the rest of the world: it only clears the observer of an entry.\<close>

definition same_but_observer :: "nat \<Rightarrow> 'a cache_world_scheme \<Rightarrow> 'a cache_world_scheme \<Rightarrow> bool" where
  "same_but_observer p w w' \<longleftrightarrow> (heap w' = heap w \<or> (\<exists>e. heap w p = Some e \<and> heap w' = (heap w)(p \<mapsto> ClearDeleteObserver e))) \<and>
     iBuckets w' = iBuckets w \<and> iEntries w' = iEntries w \<and> iCount w' = iCount w \<and> iContentSize w' = iContentSize w \<and>
     iSize w' = iSize w \<and> iPostponeEnabled w' = iPostponeEnabled w \<and> iCriticalLevel w' = iCriticalLevel w"

lemma chRemoveEntry_ok:
  assumes "heap w p = Some e"
  shows "\<exists>w'. chRemoveEntry p w = Some w' \<and> same_but_observer p w w'"
  using assms by (auto simp: chRemoveEntry_def fwRemoveEntry_def same_but_observer_def updEntry_def Let_def)

lemma fwEntryDeleted_frame:
  "heap (fwEntryDeleted p w) = heap w" "iBuckets (fwEntryDeleted p w) = iBuckets w"
  "iEntries (fwEntryDeleted p w) = iEntries w" "iCount (fwEntryDeleted p w) = iCount w"
  "iContentSize (fwEntryDeleted p w) = iContentSize w" "iSize (fwEntryDeleted p w) = iSize w"
  "iPostponeEnabled (fwEntryDeleted p w) = iPostponeEnabled w" "iCriticalLevel (fwEntryDeleted p w) = iCriticalLevel w"
  by (simp_all add: fwEntryDeleted_def Let_def)

definition same_cache :: "'a cache_world_scheme \<Rightarrow> 'a cache_world_scheme \<Rightarrow> bool" where
  "same_cache w w' \<longleftrightarrow> heap w' = heap w \<and> iBuckets w' = iBuckets w \<and> iEntries w' = iEntries w \<and> iCount w' = iCount w \<and>
     iContentSize w' = iContentSize w \<and> iSize w' = iSize w \<and> iPostponeEnabled w' = iPostponeEnabled w \<and>
     iCriticalLevel w' = iCriticalLevel w"

lemma same_cache_trans: "same_cache u v \<Longrightarrow> same_cache v w \<Longrightarrow> same_cache u w"
  by (simp add: same_cache_def)

lemma drainNotices_same [simp]: "same_cache w (drainNotices w)"
proof -
  have step: "same_cache w0 (if obs = fwObserver then fwEntryDeleted p w0 else w0)" for obs p and w0 :: "'a cache_world_scheme"
    by (simp add: same_cache_def fwEntryDeleted_frame)
  have "same_cache w0 (fold (\<lambda>(obs, p) w. if obs = fwObserver then fwEntryDeleted p w else w) ns w0)"
    for ns and w0 :: "'a cache_world_scheme"
  proof (induction ns arbitrary: w0)
    case (Cons n ns)
    obtain obs p where n: "n = (obs, p)" by (cases n)
    show ?case
      using same_cache_trans [OF step [of w0 obs p] Cons.IH [of "if obs = fwObserver then fwEntryDeleted p w0 else w0"]]
      by (simp only: n fold.simps comp_apply prod.case)
  qed (simp add: same_cache_def)
  from this [of "w\<lparr>deleteNotices := []\<rparr>" "deleteNotices w"] show ?thesis by (simp add: drainNotices_def same_cache_def)
qed

lemma lt_ok_cong:
  assumes "lt_ok w" "heap w' = heap w" "iBuckets w' = iBuckets w" "iEntries w' = iEntries w" "iCount w' = iCount w"
    "iContentSize w' = iContentSize w"
  shows "lt_ok w'"
proof -
  have "ev_ok w'" by (rule ev_ok_cong [OF lt_okD(4) [OF assms(1)] assms(2,3)])
  moreover have "urlOf w' = urlOf w" "entrySpace w' = entrySpace w"
    using assms(2) by (simp_all add: urlOf_def entrySpace_def fun_eq_iff)
  ultimately show ?thesis using assms by (simp add: lt_ok_def)
qed

lemma lt_ok_same_cache: "lt_ok (unfile X w) \<Longrightarrow> same_cache w w' \<Longrightarrow> lt_ok (unfile X w')"
  by (erule lt_ok_cong) (simp_all add: same_cache_def)

definition one_url_each :: "(byte \<Rightarrow> byte) \<Rightarrow> 'a ev_world_scheme \<Rightarrow> bool" where
  "one_url_each f w \<longleftrightarrow> (\<forall>p q u v. urlOf w p = Some u \<longrightarrow> urlOf w q = Some v \<longrightarrow> des_eqF f u v \<longrightarrow> p = q)"

lemma one_url_each_mono: "one_url_each f w \<Longrightarrow> (\<And>q u. urlOf w' q = Some u \<Longrightarrow> urlOf w q = Some u) \<Longrightarrow> one_url_each f w'"
  unfolding one_url_each_def by blast

lemma urlOf_Some: "heap w p = Some e \<Longrightarrow> urlOf w p = Some (iUrl e)"
  by (simp add: urlOf_def)

text \<open>The loop's invariant while the entries \<open>X\<close> are pending.\<close>

definition evicting :: "env \<Rightarrow> nat set \<Rightarrow> 'a cache_world_scheme \<Rightarrow> bool" where
  "evicting env X w \<longleftrightarrow> lt_ok (unfile X w) \<and> one_url_each (envFold env) w \<and>
     (\<forall>p \<in> X. \<exists>e. heap w p = Some e \<and> iState e = ECacheComplete)"

lemma iSize_ltErase: "ltErase io pos w = Some w' \<Longrightarrow> iSize w' = iSize (w :: 'a cache_world_scheme) \<and> iPostponeEnabled w' = iPostponeEnabled w \<and>
    iCriticalLevel w' = iCriticalLevel w"
proof -
  assume run: "ltErase io pos w = Some w'"
  have d: "entryDelete p u = Some v \<Longrightarrow> iSize v = iSize u \<and> iPostponeEnabled v = iPostponeEnabled u \<and> iCriticalLevel v = iCriticalLevel u" for p and u v :: "'a cache_world_scheme"
    by (drule entryDelete_ev_frame) (auto simp: ev_frame_def)
  have c: "worldCancelBodyWrite p u = Some v \<Longrightarrow> iSize v = iSize u \<and> iPostponeEnabled v = iPostponeEnabled u \<and> iCriticalLevel v = iCriticalLevel u" for p and u v :: "'a cache_world_scheme"
    by (auto simp: worldCancelBodyWrite_def Let_def split: Option.bind_splits option.splits)
  have "shErase io p u = Some v \<Longrightarrow> iSize v = iSize u \<and> iPostponeEnabled v = iPostponeEnabled u \<and> iCriticalLevel v = iCriticalLevel u" for p and u v :: "'a cache_world_scheme"
    using c by (auto simp: shErase_def deleteFile_def split: Option.bind_splits if_splits)
  then show ?thesis using run d
    by (fastforce simp: ltErase_def split: if_splits slot.splits Option.bind_splits)
qed

lemma lt_ok_unflag:
  assumes ok: "lt_ok (unfile X w)" and p: "p \<in> X" "heap w p = Some e" and s: "same_but_observer p w w1"
  shows "lt_ok (unfile (X - {p}) (updEntry p UnsetEvictionCandidate w1))"
proof -
  let ?v = "unfile X w" and ?v' = "unfile (X - {p}) (updEntry p UnsetEvictionCandidate w1)"
  obtain e1 where e1: "heap w1 = (heap w)(p \<mapsto> e1)" "e1 = e \<or> e1 = ClearDeleteObserver e"
    using s p(2) unfolding same_but_observer_def by (metis fun_upd_triv option.inject)
  have f: "iUrl e1 = iUrl e" "iFileName e1 = iFileName e" "entrySpaceOf (UnsetEvictionCandidate e1) = entrySpaceOf (UnsetEvictionCandidate e)"
    "iRef e1 = iRef e" "iBodySize e1 = iBodySize e"
    using e1(2) by (auto simp: ClearDeleteObserver_def entrySpaceOf_def)
  have v: "heap ?v p = Some (UnsetEvictionCandidate e)" using p by (simp add: clearFlags_def)
  have h: "heap ?v' = (heap ?v)(p \<mapsto> UnsetEvictionCandidate e1)"
    using e1(1) by (auto simp: clearFlags_def updEntry_def fun_eq_iff)
  have sc: "iBuckets w1 = iBuckets w" "iEntries w1 = iEntries w" "iCount w1 = iCount w" "iContentSize w1 = iContentSize w"
    using s by (simp_all add: same_but_observer_def)
  have "ev_ok ?v'"
    by (rule ev_ok_irrelevant [OF lt_okD(4) [OF ok] v, of "\<lambda>_. UnsetEvictionCandidate e1"]) (use f h sc in \<open>simp_all\<close>)
  then show ?thesis
    by (rule lt_ok_upd [OF ok v h])
      (use f sc lt_okD(6) [OF ok v] in \<open>auto simp: updEntry_def\<close>)
qed

lemma ltProbe_finds:
  assumes ok: "lt_ok w" and e: "heap w p = Some e" and one: "one_url_each f w"
  shows "\<exists>i. ltProbe f (iUrl e) w = Some (int i) \<and> i < length (iEntries w) \<and> iEntries w ! i = SEntry p"
proof -
  obtain r where r: "ltProbe f (iUrl e) w = Some r"
    "Valid (iEntries w) r \<longrightarrow> (\<exists>p' e'. r = int (nat r) \<and> nat r < length (iEntries w) \<and>
       iEntries w ! nat r = SEntry p' \<and> heap w p' = Some e' \<and> des_eqF f (iUrl e') (iUrl e))"
    "\<forall>p' e'. heap w p' = Some e' \<longrightarrow> des_eqF f (iUrl e') (iUrl e) \<longrightarrow>
       HashUrl (length (iEntries w)) (iUrl e') = HashUrl (length (iEntries w)) (iUrl e) \<longrightarrow> Valid (iEntries w) r"
    using ltProbe_ok [OF ok, of f "iUrl e"] by blast
  have "Valid (iEntries w) r" using r(3) e by simp
  then obtain p' e' where "r = int (nat r)" "nat r < length (iEntries w)" "iEntries w ! nat r = SEntry p'"
    "heap w p' = Some e'" "des_eqF f (iUrl e') (iUrl e)" using r(2) by blast
  moreover from this have "p' = p" using one e urlOf_Some unfolding one_url_each_def by metis
  ultimately show ?thesis using r(1) by (metis int_nat_eq)
qed

lemma ltErase_heap:
  assumes run: "ltErase io (int i) w = Some w'" and i: "i < length (iEntries w)" "iEntries w ! i = SEntry p"
  shows "heap w' = (heap w)(p := None)"
proof -
  obtain w1 where w1: "shErase io p w = Some w1" using run i by (auto simp: ltErase_def BoundaryCheck_def split: Option.bind_splits)
  obtain e where e: "heap w p = Some e" using w1 by (cases "heap w p") (auto simp: shErase_def worldCancelBodyWrite_def)
  have "\<forall>q. q \<noteq> p \<longrightarrow> heap w1 q = heap w q"
    using w1 by (auto simp: shErase_def worldCancelBodyWrite_def deleteFile_def Let_def e split: Option.bind_splits option.splits if_splits)
  moreover have "entryDelete p u = Some v \<Longrightarrow> heap v = (heap u)(p := None)" for u v :: "'a table_world_scheme"
    by (auto simp: entryDelete_def evRemove_def bucketRemove_def split: option.splits if_splits)
  ultimately show ?thesis using run i w1 by (auto simp: ltErase_def BoundaryCheck_def fun_eq_iff split: Option.bind_splits)
qed

lemma destroyOne_law:
  assumes inv: "evicting env X w" and p: "p \<in> X"
  shows "\<exists>w'. destroyOne env p w = Some w' \<and> evicting env (X - {p}) w' \<and> heap w' = (heap w)(p := None) \<and>
    iSize w' = iSize w \<and> iPostponeEnabled w' = iPostponeEnabled w \<and> iCriticalLevel w' = iCriticalLevel w"
proof -
  have ok: "lt_ok (unfile X w)" and one: "one_url_each (envFold env) w"
    and complete: "\<forall>q \<in> X. \<exists>e. heap w q = Some e \<and> iState e = ECacheComplete"
    using inv by (auto simp: evicting_def)
  obtain e where e: "heap w p = Some e" "iState e = ECacheComplete" using complete p by blast
  obtain w1 where w1: "chRemoveEntry p w = Some w1" "same_but_observer p w w1" using chRemoveEntry_ok [OF e(1)] by blast
  define w2 where "w2 = updEntry p UnsetEvictionCandidate w1"
  have ok2: "lt_ok (unfile (X - {p}) w2)" unfolding w2_def by (rule lt_ok_unflag [OF ok p e(1) w1(2)])
  obtain e1 where e1: "heap w1 p = Some e1" "iUrl e1 = iUrl e" "iState e1 = ECacheComplete"
    using w1(2) e by (auto simp: same_but_observer_def ClearDeleteObserver_def)
  define e2 where "e2 = UnsetEvictionCandidate e1"
  have h2: "heap w2 p = Some e2" "\<And>q. q \<noteq> p \<Longrightarrow> heap w2 q = heap w q"
    using w1(2) e1(1) by (auto simp: w2_def e2_def same_but_observer_def)
  have "urlOf w2 q = urlOf w q" for q using h2 e e1(2) by (cases "q = p") (simp_all add: urlOf_def e2_def)
  then have one2: "one_url_each (envFold env) (unfile (X - {p}) w2)" by (intro one_url_each_mono [OF one]) simp
  have u: "heap (unfile (X - {p}) w2) p = Some e2" using h2 by (simp add: clearFlags_def)
  obtain i where i: "ltProbe (envFold env) (iUrl e2) w2 = Some (int i)" "i < length (iEntries w2)" "iEntries w2 ! i = SEntry p"
    using ltProbe_finds [OF ok2 u one2] by (auto simp: ltProbe_unfile)
  have at: "entryAt (int i) w2 = Some (p, e2)" "Valid (iEntries w2) (int i)" using i h2 by (simp_all add: entryAt_def)
  have i': "i < length (iEntries (unfile (X - {p}) w2))" "iEntries (unfile (X - {p}) w2) ! i = SEntry p" using i by simp_all
  obtain v' where v': "ltErase (envIo env) (int i) (unfile (X - {p}) w2) = Some v'" "lt_ok v'"
    using ltErase_ok [OF ok2 i'] by blast
  obtain w3 where w3: "ltErase (envIo env) (int i) w2 = Some w3" "v' = unfile (X - {p}) w3"
    using v'(1) ltErase_unfile [OF i(2,3), of "X - {p}" "envIo env"] by auto
  define w' where "w' = drainNotices w3"
  have dr: "same_cache w3 w'" by (simp add: w'_def)
  have run: "destroyOne env p w = Some w'"
    using w1(1) e1 i at w3(1)
    by (simp add: destroyOne_def chTableRemove_def ltRemove_def w2_def [symmetric] w'_def e2_def)
  have h: "heap w' = (heap w)(p := None)"
    using ltErase_heap [OF w3(1) i(2,3)] dr h2 by (auto simp: same_cache_def fun_eq_iff)
  have "one_url_each (envFold env) w'" by (rule one_url_each_mono [OF one]) (auto simp: urlOf_def h split: if_splits)
  moreover have "lt_ok (unfile (X - {p}) w')" using lt_ok_same_cache [OF _ dr] v'(2) w3(2) by simp
  ultimately have "evicting env (X - {p}) w'" using complete h by (auto simp: evicting_def)
  moreover have "iSize w' = iSize w \<and> iPostponeEnabled w' = iPostponeEnabled w \<and> iCriticalLevel w' = iCriticalLevel w"
    using iSize_ltErase [OF w3(1)] dr w1(2) by (simp add: same_cache_def same_but_observer_def w2_def updEntry_def)
  ultimately show ?thesis using run h by blast
qed

definition same_limits :: "'a cache_world_scheme \<Rightarrow> 'a cache_world_scheme \<Rightarrow> bool" where
  "same_limits w w' \<longleftrightarrow> iSize w' = iSize w \<and> iPostponeEnabled w' = iPostponeEnabled w \<and> iCriticalLevel w' = iCriticalLevel w"

interpretation evict: pending_eraser "evicting env" heap "destroyOne env" same_limits
proof
  show "\<exists>w'. destroyOne env p w = Some w' \<and> evicting env (X - {p}) w' \<and> heap w' = (heap w)(p := None) \<and> same_limits w w'"
    if "evicting env X w" "p \<in> X" for X p and w :: "'a cache_world_scheme"
    using destroyOne_law [OF that] unfolding same_limits_def by blast
qed (simp_all add: same_limits_def)

subsection \<open>The whole call\<close>

lemma CacheNeedsSpaceL_spec:
  assumes ok: "lt_ok w" and one: "one_url_each (envFold env) w"
  shows "\<exists>fits w'. CacheNeedsSpaceL env aSize w = Some (fits, w') \<and> lt_ok w' \<and> one_url_each (envFold env) w' \<and>
    same_limits w w' \<and> (\<forall>p. heap w' p = heap w p \<or> heap w' p = None \<and> evictable w p) \<and>
    (fits \<longrightarrow> sint (iContentSize w' + aSize) \<le> sint (iSize w')) \<and>
    (sint (iContentSize w + aSize) \<le> sint (iSize w) \<longrightarrow> fits \<and> w' = w)"
proof (cases "sint (iContentSize w + aSize) > sint (iSize w)")
  case False
  then show ?thesis using assms by (auto simp: CacheNeedsSpaceL_def same_limits_def)
next
  case True
  let ?run = "evEvictL (envSecondsFrom env) (envNow env) (envSecInt env) aSize w"
  obtain ps w1 where r: "?run = Some (ps, w1)" "heap w1 = heap w" "distinct ps" "\<forall>p \<in> set ps. evictable w p"
    using evEvictL_spec [OF lt_okD(4) [OF ok], of "envSecondsFrom env" "envNow env" "envSecInt env" aSize] by blast
  have limits: "same_limits w w1"
    using evEvictLoop_ev_frame [OF r(1) [unfolded evEvictL_def]] by (auto simp: ev_frame_def same_limits_def)
  have one1: "one_url_each (envFold env) w1" by (rule one_url_each_mono [OF one]) (simp add: urlOf_def r(2))
  have "\<exists>e. heap w1 p = Some e \<and> iState e = ECacheComplete" if "p \<in> set ps" for p
    using r(2,4) that by (auto simp: evictable_def split: option.splits)
  then have "evicting env (set ps) w1" using lt_ok_unfile_evicted [OF ok r(1)] one1 by (simp add: evicting_def)
  from evict.erase_everything [OF this r(3)] obtain w2
    where w2: "destroyEvicted env ps w1 = Some w2" "evicting env {} w2"
      "heap w2 = (\<lambda>p. if p \<in> set ps then None else heap w1 p)" "same_limits w1 w2"
    by (auto simp: destroyEvicted_fold)
  have ok2: "lt_ok w2" "one_url_each (envFold env) w2" using w2(2) by (simp_all add: evicting_def)
  have heap2: "\<forall>p. heap w2 p = heap w p \<or> heap w2 p = None \<and> evictable w p" using w2(3) r(2,4) by simp
  have limits2: "same_limits w w2" using limits w2(4) by (simp add: same_limits_def)
  show ?thesis
  proof (cases "ps = []")
    case True
    then have "w2 = w1" using w2(1) by simp
    then have "CacheNeedsSpaceL env aSize w = Some (False, w2)"
      using \<open>sint (iContentSize w + aSize) > sint (iSize w)\<close> True r(1) by (simp add: CacheNeedsSpaceL_def)
    then show ?thesis using \<open>sint (iContentSize w + aSize) > sint (iSize w)\<close> ok2 heap2 limits2 by auto
  next
    case False
    then show ?thesis using True r(1) w2(1) ok2 heap2 limits2 by (simp add: CacheNeedsSpaceL_def)
  qed
qed


definition same_budget :: "'a cache_world_scheme \<Rightarrow> 'a cache_world_scheme \<Rightarrow> bool" where
  "same_budget w w' \<longleftrightarrow> same_limits w w' \<and> iContentSize w' = iContentSize w"

lemmas budget_defs = same_budget_def same_limits_def

lemma same_budget_refl [simp]: "same_budget w w"
  by (simp add: budget_defs)

lemma same_budget_trans: "same_budget u v \<Longrightarrow> same_budget v w \<Longrightarrow> same_budget u w"
  by (simp add: budget_defs)

lemma ev_frame_budget: "ev_frame w w' \<Longrightarrow> same_budget w w'"
  by (auto simp: ev_frame_def budget_defs)

lemma updEntry_budget [simp]: "same_budget w (updEntry p f w)"
  by (rule ev_frame_budget [OF ev_frame_basic(1)])

lemma deleteFile_budget [simp]: "same_budget w (deleteFile io name w)"
  by (simp add: deleteFile_def budget_defs)

lemma InitialiseCacheEntryL_budget: "InitialiseCacheEntryL io crc dir p w = Some w' \<Longrightarrow> same_budget w w'"
  by (auto simp: InitialiseCacheEntryL_def Let_def split: Option.bind_splits
      dest!: entrySetState_ev_frame [THEN ev_frame_budget]
      intro!: same_budget_trans [OF _ deleteFile_budget] intro: same_budget_trans [OF updEntry_budget])

lemma ltInsertL_budget:
  fixes w :: "'a cache_world_scheme"
  assumes "ltInsertL io crc dir now u p w = Some (r, w')"
  shows "same_budget w w'"
proof -
  let ?w0 = "w\<lparr>heap := (heap w)(p \<mapsto> entryNewL u)\<rparr>"
  have 0: "same_budget w ?w0" by (simp add: budget_defs)
  obtain err w1 where w1: "ltInsertEntryL p ?w0 = Some (err, w1)"
    using assms by (auto simp: ltInsertL_def Let_def split: Option.bind_splits)
  then have 1: "same_budget w w1" by (auto simp: ltInsertEntryL_def budget_defs)
  show ?thesis
  proof (cases "err = KErrCorrupt")
    case True
    then show ?thesis using assms w1 same_budget_trans [OF 1 ev_frame_budget [OF entryDelete_ev_frame]]
      by (auto simp: ltInsertL_def Let_def split: Option.bind_splits)
  next
    case False
    then show ?thesis
      using assms w1 same_budget_trans [OF same_budget_trans [OF 1 ev_frame_budget [OF entryAccessed_ev_frame]] InitialiseCacheEntryL_budget]
      by (auto simp: ltInsertL_def Let_def split: Option.bind_splits)
  qed
qed

text \<open>A cache as it is constructed, and one that holds a complete entry.\<close>

definition newCacheWorld :: "32 word \<Rightarrow> bool \<Rightarrow> cache_world" where
  "newCacheWorld sz postpone = \<lparr>heap = Map.empty, iBuckets = evConstructL, deleteNotices = [], iContentSize = 0,
     iCriticalLevel = 0, disk = Map.empty, writers = Map.empty, iEntries = tblConstructL, iCount = 0,
     iObjectQueue = [], iObjectFlushing = None, iWaitTimerActive = False, iLowMemoryState = False, fwActive = False,
     fwStatus = None, iFreeRamThreshold = 6291456, iImmediateWriteThreshold = 0, iPostponeEnabled = postpone,
     iSize = sz\<rparr>"

lemma newCacheWorld_ok: "lt_ok (newCacheWorld sz postpone)"
proof -
  have "tbl_ok u tblConstructL" for u
    unfolding tblConstructL_def by (rule tbl_ok_empty) (simp add: KHttpCacheLookupTableSize_def)
  then show ?thesis
    by (auto simp: lt_ok_def newCacheWorld_def tblConstructL_def tblCount_def ev_ok_def filed_def evConstructL_def
        KHttpCacheBucketNum_def)
qed

definition calm_env :: env where
  "calm_env = \<lparr>envIo = calm, envNow = 5, envSecondsFrom = (\<lambda>now la s. word_of_int (now - la)), envSecInt = 0,
     envCrc32 = (\<lambda>u. of_nat (length u)), envDir = [67], envFold = (\<lambda>c. c), envFreeMem = 16777216, envAppendErr = KErrNone,
     envAddr = 1\<rparr>"

lemma one_complete:
  "\<exists>w e. lt_ok w \<and> heap w = [1 \<mapsto> e] \<and> iState e = ECacheComplete \<and> iUrl e = u \<and> iSize (w :: cache_world) = sz"
proof -
  let ?w = "newCacheWorld sz postpone"
  have "heap ?w 1 = None" "growable (iEntries ?w)" using newTable_growable by (simp_all add: newCacheWorld_def)
  from ltInsertL_ok [OF newCacheWorld_ok this, of calm "\<lambda>u. 0" "[]" 0 u] obtain w1 e1
    where w1: "ltInsertL calm (\<lambda>u. 0) [] 0 u 1 ?w = Some (Some 1, w1)" "lt_ok w1" "heap w1 = (heap ?w)(1 \<mapsto> e1)"
      "freshEntry e1 u 0 (GenerateNameLC (\<lambda>u. 0) u [])" by blast
  have s1: "iSize w1 = sz" using ltInsertL_budget [OF w1(1)] by (simp add: budget_defs newCacheWorld_def)
  have "heap w1 1 = Some e1" "iRef e1 \<noteq> 0" using w1(3,4) by (simp_all add: freshEntry_def)
  from entrySetState_lt_ok [OF w1(2) this(1), of ECacheComplete] this(2) obtain w2
    where w2: "lt_ok w2" "ev_frame w1 w2" "heap w2 = (heap w1)(1 \<mapsto> e1\<lparr>iState := ECacheComplete, iEvictionCandidate := True\<rparr>)"
    by auto
  have "iSize w2 = sz" using w2(2) s1 by (auto simp: ev_frame_def)
  then show ?thesis using w1(3,4) w2 by (intro exI [of _ w2] exI) (auto simp: newCacheWorld_def freshEntry_def entryNewL_def)
qed


end
