(* ===== verification/SaveServe.thy ===== *)
theory SaveServe
  imports MakeSpace
begin

text \<open>
  From a saved response to a served one: \<open>SaveL\<close> followed by \<open>RequestL\<close>, \<open>RequestNextChunkL\<close>
  and \<open>RequestClosed\<close>. Each operation of the stream handler is described by the world it leaves
  (heap and byte count), which gives the table's invariant with \<open>lt_ok_upd\<close>.
\<close>

subsection \<open>The operations on one entry of the table\<close>

text \<open>What a call of the platform answers when nothing goes wrong, with room for \<open>n\<close> bytes.\<close>

definition io_quiet :: "io \<Rightarrow> 'a stream_world_scheme \<Rightarrow> int \<Rightarrow> bool" where
  "io_quiet io w n \<longleftrightarrow> ioAllocs io = [] \<and> ioHeaderAlloc io \<and> ioReplace io \<and> ioOpen io \<and> ioRead io \<and>
     (\<forall>x \<in> set (ioWrites io). fst x = KErrNone) \<and> IsDiskSpaceAvailable io n w"

lemma SaveHeaders_world:
  assumes e: "heap w p = Some e" "iHeaderSize e = 0" and h: "h \<noteq> []" and io: "ioHeaderAlloc io" "IsDiskSpaceAvailable io (int (length h)) w"
  shows "SaveHeaders io p h w = Some (True,
    w\<lparr>heap := (heap w)(p \<mapsto> e\<lparr>iHeaderBuffer := Some h, iHeaderSize := of_nat (length h)\<rparr>),
      iContentSize := iContentSize w + ucast (of_nat (length h) :: 16 word)\<rparr>)"
  using e h io by (simp add: SaveHeaders_def CreateHeaderBufferDataL_def SetHeaderSize_def Let_def updEntry_def)

lemma SaveBodyData_world:
  assumes e: "heap w p = Some e" "\<not> iEvictionCandidate e" "seg_ok (iCacheBuffer e)" and io: "ioAllocs io = []" and c: "c \<noteq> []"
  shows "\<exists>b ws. SaveBodyData io p c w = Some (True,
      w\<lparr>heap := (heap w)(p \<mapsto> e\<lparr>iCacheBuffer := b, iWriteState := ws, iBodySize := iBodySize e + of_nat (length c)\<rparr>),
        iContentSize := iContentSize w + of_nat (length c)\<rparr>) \<and>
    seg_ok b \<and> segContents b = segContents (iCacheBuffer e) @ c \<and> ws AND 8 \<noteq> 0"
proof -
  obtain b where b: "segAppendL [] (iCacheBuffer e) c = Some (KErrNone, 0, b)" "seg_ok b"
    "segContents b = segContents (iCacheBuffer e) @ c"
    using segAppendL_ample [OF e(3)] by blast
  have "(iWriteState e OR 8) AND 8 \<noteq> 0" by (auto simp: bit_eq_iff bit_simps intro!: exI [of _ 3])
  then show ?thesis using e c io b
    by (intro exI [of _ b] exI [of _ "iWriteState e OR 8"])
      (simp add: SaveBodyData_def Let_def entrySetBodySize_def updEntry_def SetBodyDataCached_def setWriteStateBit_def)
qed

lemma FlushL_world:
  assumes e: "heap w p = Some e" "iFileName e = Some name" "HeaderData e = Some hdr" "iWriteState e AND 8 \<noteq> 0"
    and io: "ioReplace io" "\<forall>x \<in> set (ioWrites io). fst x = KErrNone"
      "IsDiskSpaceAvailable io (segLength (iCacheBuffer e) + int (length hdr)) w"
  shows "\<exists>b ws. Flush io p w = Some (True, w\<lparr>heap := (heap w)(p \<mapsto> e\<lparr>iWriteState := ws, iCacheBuffer := b\<rparr>),
      disk := (disk w)(name \<mapsto> segContents (iCacheBuffer e))\<rparr>) \<and> ws AND 8 = 0"
proof -
  have c: "CreateNewBodyFile io p w = Some (True, w\<lparr>disk := (disk w)(name \<mapsto> [])\<rparr>)"
    using e io by (simp add: CreateNewBodyFile_def)
  have d: "BodyDataCached e" using e(4) by (simp add: BodyDataCached_def writeStateBit_def)
  obtain ws' where ws: "writeSegments (iCacheBuffer e) 0 (ioWrites io) [] = Some (KErrNone, segContents (iCacheBuffer e), ws')"
    using writeSegments_ok [OF io(2), of "iCacheBuffer e" 0 "[]"] by (auto simp: segContents_def)
  have "(iWriteState e AND NOT 8) AND 8 = 0" by (auto simp: bit_eq_iff bit_simps)
  then show ?thesis using e io(3) c d ws
    by (intro exI [of _ "segReset (segReset (iCacheBuffer e))"] exI [of _ "iWriteState e AND NOT 8"])
      (simp add: Flush_def FlushL_def Let_def updEntry_def SetBodyDataCached_def setWriteStateBit_def)
qed

lemma lt_ok_entry_world:
  fixes w w' :: "'a table_world_scheme"
  assumes ok: "lt_ok w" and e: "heap w p = Some e" "\<not> iEvictionCandidate e"
    and w': "heap w' = (heap w)(p \<mapsto> e')" "iBuckets w' = iBuckets w" "iEntries w' = iEntries w" "iCount w' = iCount w"
      "iContentSize w' = iContentSize w + entrySpaceOf e' - entrySpaceOf e"
    and e': "iUrl e' = iUrl e" "iFileName e' = iFileName e" "\<not> iEvictionCandidate e'"
  shows "lt_ok w'"
proof (rule lt_ok_upd [OF ok e(1) w'(1) _ w'(3-5) e'(1)])
  show "iFileName e' \<noteq> None" using lt_okD(6) [OF ok e(1)] e'(2) by auto
  have o: "ev_ok w" by (rule lt_okD(4) [OF ok])
  show "ev_ok w'"
  proof (rule ev_okI [OF o, of _ p])
    have fl: "filed w' i q \<longleftrightarrow> filed w i q" for i q using w'(2) by (simp add: filed_def)
    show "filed w' i p \<longleftrightarrow> (\<exists>e. heap w' p = Some e \<and> iEvictionCandidate e \<and> entryBucket e = Some i)" for i
      unfolding fl ev_ok_filed [OF o] using e e'(3) w'(1) by simp
    show "heap w' q = heap w q \<and> (filed w' i q \<longleftrightarrow> filed w i q)" if "q \<noteq> p" for i q
      using that fl w'(1) by simp
  qed (use e' w' ev_ok_length [OF o] ev_ok_distinct [OF o] in auto)
qed

subsection \<open>Saving a response\<close>

lemma ucast_len16: "n < 65536 \<Longrightarrow> ucast (of_nat n :: 16 word) = (of_nat n :: 32 word)"
proof -
  assume n: "n < 65536"
  have "(ucast (of_nat n :: 16 word) :: 32 word) = of_nat (unat (of_nat n :: 16 word))" by simp
  also have "unat (of_nat n :: 16 word) = n" using n by (simp add: unat_of_nat take_bit_nat_eq_self)
  finally show ?thesis .
qed

lemma CacheNeedsSpaceL_fits:
  "sint (iContentSize w + n) \<le> sint (iSize w) \<Longrightarrow> CacheNeedsSpaceL env n w = Some (True, w)"
  by (simp add: CacheNeedsSpaceL_def)

lemma IsDiskSpaceAvailable_mono:
  "IsDiskSpaceAvailable io n w \<Longrightarrow> m \<le> n \<Longrightarrow> iCriticalLevel w' = iCriticalLevel w \<Longrightarrow> IsDiskSpaceAvailable io m w'"
  by (auto simp: IsDiskSpaceAvailable_def split: option.splits)

text \<open>The entry as \<open>SaveL\<close> leaves it.\<close>

definition savedEntry :: "cache_entry \<Rightarrow> tdes8 \<Rightarrow> tdes16 \<Rightarrow> tdes8 \<Rightarrow> tdes8 \<Rightarrow> bool" where
  "savedEntry e u n hdr body \<longleftrightarrow> iUrl e = u \<and> iFileName e = Some n \<and> iHeaderBuffer e = Some hdr \<and>
     iBodySize e = of_nat (length body) \<and> iState e = ECacheComplete \<and> iRef e = 1 \<and> iWriteState e AND 8 = 0 \<and> iDeleteObserver e = None"

lemma ltFind_none:
  assumes ok: "lt_ok w" and no: "\<forall>p e. heap w p = Some e \<longrightarrow> \<not> des_eqF f (iUrl e) key"
  shows "ltFind f key w = Some None"
proof -
  obtain r where r: "ltFind f key w = Some r" "\<forall>p. r = Some p \<longrightarrow> (\<exists>e. heap w p = Some e \<and> des_eqF f (iUrl e) key \<and> usable e)"
    using ltFind_sound [OF ok, of f key] by blast
  then have "r = None" using no by (cases r) auto
  then show ?thesis using r(1) by simp
qed

lemma ltFind_the:
  assumes ok: "lt_ok w" and e: "heap w p = Some e" "usable e"
    and no: "\<forall>q e'. heap w q = Some e' \<longrightarrow> des_eqF f (iUrl e') (iUrl e) \<longrightarrow> q = p"
  shows "ltFind f (iUrl e) w = Some (Some p)"
proof -
  have "urls_distinct f (iUrl e) w"
    unfolding urls_distinct_def using no e(1) des_eqF_refl by (metis option.inject)
  from ltFind_spec [OF ok this] e show ?thesis by auto
qed

lemma SaveL_spec:
  assumes ok: "lt_ok w" and fresh: "heap w (envAddr env) = None" and grow: "growable (iEntries w)"
    and no: "\<forall>p e. heap w p = Some e \<longrightarrow> \<not> des_eqF (envFold env) (iUrl e) u"
    and hdr: "hdr \<noteq> []" "length hdr < 65536" and body: "body \<noteq> []"
    and io: "io_quiet (envIo env) w (int (length hdr + length body))"
    and fit: "sint (iContentSize w + of_nat (length hdr)) \<le> sint (iSize w)"
      "sint (iContentSize w + of_nat (length hdr) + of_nat (length body)) \<le> sint (iSize w)"
  shows "\<exists>w' e n. SaveL env u hdr body w = Some (True, w') \<and> lt_ok w' \<and> heap w' = (heap w)(envAddr env \<mapsto> e) \<and>
    savedEntry e u n hdr body \<and> n = GenerateNameLC (envCrc32 env) u (envDir env) \<and> disk w' n = Some body \<and> iContentSize w' = iContentSize w + of_nat (length hdr) + of_nat (length body)"
proof -
  let ?p = "envAddr env" and ?n = "GenerateNameLC (envCrc32 env) u (envDir env)"
  obtain w1 e1 where w1: "ltInsertL (envIo env) (envCrc32 env) (envDir env) (envNow env) u ?p w = Some (Some ?p, w1)" "lt_ok w1"
    "heap w1 = (heap w)(?p \<mapsto> e1)" "freshEntry e1 u (envNow env) ?n"
    using ltInsertL_ok [OF ok fresh grow] by blast
  have e1: "heap w1 ?p = Some e1" "iHeaderSize e1 = 0" "iBodySize e1 = 0" "\<not> iEvictionCandidate e1" "iUrl e1 = u" "iRef e1 = 1"
    "iFileName e1 = Some ?n" "iDeleteObserver e1 = None" "seg_ok (iCacheBuffer e1)" "segContents (iCacheBuffer e1) = []"
    using w1(3,4) by (auto simp: freshEntry_def entryNewL_def segNewL_def seg_ok_def segs_ok_def segContents_def
        KBufferSize32k_def KBufferGranularity4k_def)
  have bud: "iSize w1 = iSize w" "iContentSize w1 = iContentSize w" "iCriticalLevel w1 = iCriticalLevel w"
    using ltInsertL_budget [OF w1(1)] by (simp_all add: budget_defs)
  note io' = io [unfolded io_quiet_def]
  let ?eh = "e1\<lparr>iHeaderBuffer := Some hdr, iHeaderSize := of_nat (length hdr)\<rparr>"
  define w2 where "w2 = w1\<lparr>heap := (heap w1)(?p \<mapsto> ?eh),
      iContentSize := iContentSize w1 + ucast (of_nat (length hdr) :: 16 word)\<rparr>"
  have sp: "IsDiskSpaceAvailable (envIo env) m w'" if "m \<le> int (length hdr + length body)" "iCriticalLevel w' = iCriticalLevel w"
    for m and w' :: "'a cache_world_scheme"
    using IsDiskSpaceAvailable_mono io' that by blast
  have s1: "SaveBuffer env False ?p hdr w1 = Some (True, w2)"
    using CacheNeedsSpaceL_fits [of w1 "of_nat (length hdr)" env] fit(1) bud
      SaveHeaders_world [OF e1(1,2) hdr(1), of "envIo env"] io' sp [of "int (length hdr)" w1]
    by (simp add: SaveBuffer_def w2_def)
  have c2: "iContentSize w2 = iContentSize w + of_nat (length hdr)" "iSize w2 = iSize w" "iCriticalLevel w2 = iCriticalLevel w"
    using bud ucast_len16 [OF hdr(2)] by (simp_all add: w2_def)
  have ok2: "lt_ok w2"
    by (rule lt_ok_entry_world [OF w1(2) e1(1,4), of w2 ?eh])
      (use e1 in \<open>simp_all add: w2_def entrySpaceOf_def\<close>)
  have h2: "heap w2 ?p = Some ?eh" by (simp add: w2_def)
  obtain b ws where 3: "SaveBodyData (envIo env) ?p body w2 = Some (True,
      w2\<lparr>heap := (heap w2)(?p \<mapsto> ?eh\<lparr>iCacheBuffer := b, iWriteState := ws, iBodySize := iBodySize ?eh + of_nat (length body)\<rparr>),
        iContentSize := iContentSize w2 + of_nat (length body)\<rparr>)"
    "seg_ok b" "segContents b = body" "ws AND 8 \<noteq> 0"
    using SaveBodyData_world [OF h2 _ _ _ body, of "envIo env"] e1 io' by auto
  let ?eb = "?eh\<lparr>iCacheBuffer := b, iWriteState := ws, iBodySize := of_nat (length body)\<rparr>"
  define w3 where "w3 = w2\<lparr>heap := (heap w2)(?p \<mapsto> ?eb), iContentSize := iContentSize w2 + of_nat (length body)\<rparr>"
  have s2: "SaveBuffer env True ?p body w2 = Some (True, w3)"
    using CacheNeedsSpaceL_fits [of w2 "of_nat (length body)" env] fit(2) c2 3(1) e1 by (simp add: SaveBuffer_def w3_def)
  have ok3: "lt_ok w3"
    by (rule lt_ok_entry_world [OF ok2 h2, of w3 ?eb]) (use e1 in \<open>simp_all add: w3_def entrySpaceOf_def\<close>)
  have h3: "heap w3 ?p = Some ?eb" by (simp add: w3_def)
  have len: "segLength b = int (length body)" using segLength_contents [OF 3(2)] 3(3) by simp
  obtain b' ws' where 4: "Flush (envIo env) ?p w3 = Some (True,
      w3\<lparr>heap := (heap w3)(?p \<mapsto> ?eb\<lparr>iWriteState := ws', iCacheBuffer := b'\<rparr>), disk := (disk w3)(?n \<mapsto> body)\<rparr>)" "ws' AND 8 = 0"
    using FlushL_world [OF h3, of ?n hdr "envIo env"] e1 io' 3 len sp [of "int (length body) + int (length hdr)" w3] c2
    by (auto simp: HeaderData_def w3_def)
  let ?ef = "?eb\<lparr>iWriteState := ws', iCacheBuffer := b'\<rparr>"
  define w4 where "w4 = w3\<lparr>heap := (heap w3)(?p \<mapsto> ?ef), disk := (disk w3)(?n \<mapsto> body)\<rparr>"
  have ok4: "lt_ok w4"
    by (rule lt_ok_entry_world [OF ok3 h3, of w4 ?ef]) (use e1 in \<open>simp_all add: w4_def entrySpaceOf_def\<close>)
  have h4: "heap w4 ?p = Some ?ef" by (simp add: w4_def)
  obtain w5 where 5: "entrySetState ?p ECacheComplete w4 = Some w5" "lt_ok w5" "ev_frame w4 w5"
    "heap w5 = (heap w4)(?p \<mapsto> ?ef\<lparr>iState := ECacheComplete, iEvictionCandidate := True\<rparr>)"
    using entrySetState_lt_ok [OF ok4 h4, of ECacheComplete] e1 by auto
  note fr = ev_frame_fields [OF 5(3)]
  have "SaveL env u hdr body w = Some (True, w5)"
    using ltFind_none [OF ok no] w1(1) s1 s2 4(1) 5(1) by (simp add: SaveL_def w4_def)
  moreover have "heap w5 = (heap w)(?p \<mapsto> ?ef\<lparr>iState := ECacheComplete, iEvictionCandidate := True\<rparr>)"
    using 5(4) w1(3) by (simp add: w4_def w3_def w2_def fun_eq_iff)
  moreover have "savedEntry (?ef\<lparr>iState := ECacheComplete, iEvictionCandidate := True\<rparr>) u ?n hdr body"
    using e1 4(2) by (simp add: savedEntry_def)
  moreover have "disk w5 ?n = Some body" "iContentSize w5 = iContentSize w + of_nat (length hdr) + of_nat (length body)"
    using fr c2 by (simp_all add: w4_def w3_def)
  ultimately show ?thesis using 5(2) by blast
qed

subsection \<open>Serving a saved response\<close>

lemma RequestL_spec:
  assumes ok: "lt_ok w" and e: "heap w p = Some e" "savedEntry e u n hdr body" and body: "body \<noteq> []" "length body < 2 ^ 32"
    and one: "\<forall>q e'. heap w q = Some e' \<longrightarrow> des_eqF (envFold env) (iUrl e') u \<longrightarrow> q = p"
    and v: "CacheNeedsValidationL env tr m p w = Some False" and m: "m \<noteq> ECacheModeNoCache"
    and tr: "trUrl tr = u" "\<not> trPost tr"
  shows "\<exists>w' e'. RequestL env tr m c w = Some (RsNone, Some p, w') \<and> lt_ok w' \<and>
    heap w' = (heap w)(p \<mapsto> e') \<and> disk w' = disk w \<and> iState e' = ECacheRequesting \<and> iFileName e' = Some n \<and>
    iHeaderBuffer e' = Some hdr \<and> iWriteState e' = iWriteState e \<and> iRef e' = 2 \<and> iUrl e' = u \<and> iBodySize e' = iBodySize e"
proof -
  have sv: "iUrl e = u" "iFileName e = Some n" "iHeaderBuffer e = Some hdr" "iBodySize e = of_nat (length body)"
    "iState e = ECacheComplete" "iRef e = 1" using e(2) by (simp_all add: savedEntry_def)
  have "unat (of_nat (length body) :: 32 word) = length body" using body(2) by (simp add: unat_of_nat take_bit_nat_eq_self)
  then have "iBodySize e \<noteq> 0" using sv(4) body(1) by (metis length_0_conv unat_0)
  then have "ltFind (envFold env) u w = Some (Some p)"
    using ltFind_the [OF ok e(1), of "envFold env"] one sv by (simp add: usable_def)
  then have f: "chFind2 env tr w = Some (Some p)" using tr by (simp add: chFind2_def)
  let ?e1 = "e\<lparr>iState := ECacheRequesting\<rparr>"
  obtain w1 where 1: "entrySetState p ECacheRequesting w = Some w1" "lt_ok w1" "ev_frame w w1" "heap w1 = (heap w)(p \<mapsto> ?e1)"
    using entrySetState_lt_ok [OF ok e(1), of ECacheRequesting] by auto
  have h1: "heap w1 p = Some ?e1" using 1(4) by simp
  obtain w2 where 2: "entryAccessed (envNow env) p w1 = Some w2" "lt_ok w2" "ev_frame w1 w2"
    "heap w2 = (heap w1)(p \<mapsto> ?e1\<lparr>iLastAccessed := envNow env, iRef := iRef ?e1 + 1\<rparr>)"
    using entryAccessed_lt_ok [OF 1(2) h1, of "envNow env"] sv by auto
  have "RequestL env tr m c w = Some (RsNone, Some p, w2)"
    using m tr f e(1) sv v 1(1) 2(1) by (simp add: RequestL_def)
  moreover have "heap w2 = (heap w)(p \<mapsto> ?e1\<lparr>iLastAccessed := envNow env, iRef := 2\<rparr>)"
    using 1(4) 2(4) sv by (simp add: fun_eq_iff)
  moreover have "disk w2 = disk w" using ev_frame_fields(4) [OF 1(3)] ev_frame_fields(4) [OF 2(3)] by simp
  ultimately show ?thesis using 2(2) sv by auto
qed

lemma saved_served:
  assumes "lt_ok w" "heap w (envAddr env) = None" "growable (iEntries w)"
    and "\<forall>p e. heap w p = Some e \<longrightarrow> \<not> des_eqF (envFold env) (iUrl e) u"
    and "hs \<noteq> []" "\<forall>h \<in> set hs. fieldOk h" "namesDistinct (envFold env) hs" "HeadersToBufferLC hs = Some hdr" "length hdr < 65536"
    and "body \<noteq> []" "length body < 2 ^ 32" "io_quiet (envIo env) w (int (length hdr + length body))"
    and "sint (iContentSize w + of_nat (length hdr)) \<le> sint (iSize w)"
      "sint (iContentSize w + of_nat (length hdr) + of_nat (length body)) \<le> sint (iSize w)"
    and "trUrl tr = u" "\<not> trPost tr"
  shows "\<exists>w1 w2 w3 p. SaveL env u hdr body w = Some (True, w1) \<and> lt_ok w1 \<and>
    RequestL env tr ECacheModeHistory None w1 = Some (RsNone, Some p, w2) \<and> lt_ok w2 \<and>
    RequestHeadersL (Some p) w2 = Some RsNone \<and>
    Option.bind (HeadersL p w2) (\<lambda>h. BufferToHeadersL (envFold env) h []) = Some hs \<and>
    RequestNextChunkL env (Some p) w2 = Some (Some body) \<and>
    RequestClosed env (Some p) w2 = Some (Some p, w3) \<and> lt_ok w3 \<and> chFind env u w3 = Some True"
proof -
  let ?p = "envAddr env"
  have ne: "hdr \<noteq> []" using assms(5,8) by (cases hs) (auto simp: HeadersToBufferLC_text headerLine_def KHttpNewLine_def)
  have readback: "BufferToHeadersL (envFold env) hdr [] = Some hs" by (rule headers_read_back [OF assms(6-8)])
  obtain w1 e n where 1: "SaveL env u hdr body w = Some (True, w1)" "lt_ok w1" "heap w1 = (heap w)(?p \<mapsto> e)"
    "savedEntry e u n hdr body" "disk w1 n = Some body"
    using SaveL_spec [OF assms(1-4) ne assms(9,10,12-14)] by blast
  have h1: "heap w1 ?p = Some e" using 1(3) by simp
  have one: "\<forall>q e'. heap w1 q = Some e' \<longrightarrow> des_eqF (envFold env) (iUrl e') u \<longrightarrow> q = ?p"
    using 1(3) assms(4) by (auto split: if_splits)
  have v: "CacheNeedsValidationL env tr ECacheModeHistory ?p w1 = Some False"
    using h1 1(4) readback by (simp add: CacheNeedsValidationL_def HeadersL_def HeaderData_def savedEntry_def)
  obtain w2 e2 where 2: "RequestL env tr ECacheModeHistory None w1 = Some (RsNone, Some ?p, w2)" "lt_ok w2"
    "heap w2 = (heap w1)(?p \<mapsto> e2)" "disk w2 = disk w1" "iState e2 = ECacheRequesting" "iFileName e2 = Some n"
    "iHeaderBuffer e2 = Some hdr" "iWriteState e2 = iWriteState e" "iRef e2 = 2" "iUrl e2 = u" "iBodySize e2 = iBodySize e"
    using RequestL_spec [OF 1(2) h1 1(4) assms(10,11) one v _ assms(15,16), of None] by blast
  have h2: "heap w2 ?p = Some e2" using 2(3) by simp
  have chunk: "RequestNextChunkL env (Some ?p) w2 = Some (Some body)"
    using h2 2 1(4,5) assms(10,12)
    by (simp add: RequestNextChunkL_def NextChunkL_def OpenBodyFile_def BodyDataCached_def writeStateBit_def savedEntry_def io_quiet_def)
  obtain w3 where 3: "entrySetState ?p ECacheComplete w2 = Some w3" "lt_ok w3"
    "heap w3 = (heap w2)(?p \<mapsto> e2\<lparr>iState := ECacheComplete, iEvictionCandidate := iEvictionCandidate e2 \<or> True\<rparr>)"
    using entrySetState_lt_ok [OF 2(2) h2, of ECacheComplete] 2(9) by auto
  let ?e3 = "e2\<lparr>iState := ECacheComplete, iEvictionCandidate := True\<rparr>"
  have h3: "heap w3 ?p = Some ?e3" using 3(3) by simp
  have "unat (of_nat (length body) :: 32 word) = length body" using assms(11) by (simp add: unat_of_nat take_bit_nat_eq_self)
  then have "iBodySize e2 \<noteq> 0" using 1(4) 2(11) assms(10) by (metis length_0_conv unat_0 savedEntry_def)
  then have us: "usable ?e3" by (simp add: usable_def)
  have url: "iUrl ?e3 = u" using 2(10) by simp
  have "\<forall>q e'. heap w3 q = Some e' \<longrightarrow> des_eqF (envFold env) (iUrl e') (iUrl ?e3) \<longrightarrow> q = ?p"
    unfolding url using one 2(3) 3(3) by (metis fun_upd_other)
  from ltFind_the [OF 3(2) h3 us this] have "ltFind (envFold env) u w3 = Some (Some ?p)" unfolding url .
  then have "chFind env u w3 = Some True" using h3 by (simp add: chFind_def)
  moreover have "RequestHeadersL (Some ?p) w2 = Some RsNone" using h2 2(5) by (simp add: RequestHeadersL_def)
  moreover have "RequestClosed env (Some ?p) w2 = Some (Some ?p, w3)" using h2 2(5) 3(1) by (simp add: RequestClosed_def)
  moreover have "Option.bind (HeadersL ?p w2) (\<lambda>h. BufferToHeadersL (envFold env) h []) = Some hs"
    using h2 2(7) readback by (simp add: HeadersL_def HeaderData_def)
  ultimately show ?thesis using 1(1,2) 2(1,2) 3(2) chunk
    by (intro exI [of _ w1] exI [of _ w2] exI [of _ w3] exI [of _ ?p] conjI)
qed

text \<open>
  C2: a response given to \<open>SaveL\<close> is served from the cache. With the URL not yet cached, room for
  it and a platform that answers normally, the save succeeds; the next request for the URL in
  history mode is answered with exactly the saved body, and the stored header text reads back as
  the headers it was written from; closing the request leaves the entry complete. The table,
  the buckets and the byte count stay consistent throughout.
\<close>

theorem saved_response_is_served:
  assumes "lt_ok w" "heap w (envAddr env) = None" "growable (iEntries w)"
    and "\<forall>p e. heap w p = Some e \<longrightarrow> \<not> des_eqF (envFold env) (iUrl e) u"
    and "hs \<noteq> []" "\<forall>h \<in> set hs. fieldOk h" "namesDistinct (envFold env) hs" "HeadersToBufferLC hs = Some hdr" "length hdr < 65536"
    and "body \<noteq> []" "length body < 2 ^ 32" "io_quiet (envIo env) w (int (length hdr + length body))"
    and "sint (iContentSize w + of_nat (length hdr)) \<le> sint (iSize w)"
      "sint (iContentSize w + of_nat (length hdr) + of_nat (length body)) \<le> sint (iSize w)"
    and "trUrl tr = u" "\<not> trPost tr"
  shows "\<exists>w1 w2 w3 p. SaveL env u hdr body w = Some (True, w1) \<and> lt_ok w1 \<and>
    RequestL env tr ECacheModeHistory None w1 = Some (RsNone, Some p, w2) \<and> lt_ok w2 \<and>
    RequestHeadersL (Some p) w2 = Some RsNone \<and>
    Option.bind (HeadersL p w2) (\<lambda>h. BufferToHeadersL (envFold env) h []) = Some hs \<and>
    RequestNextChunkL env (Some p) w2 = Some (Some body) \<and>
    RequestClosed env (Some p) w2 = Some (Some p, w3) \<and> lt_ok w3 \<and> chFind env u w3 = Some True"
  by (rule saved_served [OF assms])

definition get_trans :: "tdes8 \<Rightarrow> trans" where
  "get_trans u = \<lparr>trUrl = u, trFixedUrl = None, trPost = False, trPragmaNoCache = False, trFresh = (\<lambda>_. True),
     trHeaders = [], trStatusCode = 200, trCacheable = (\<lambda>_. True), trProtected = False, trNeedsUpdate = (\<lambda>_. True),
     trAdjusted = []\<rparr>"

theorem saved_response_is_served_witness:
  "\<exists>w1 w2 p. SaveL calm_env [104, 105] [65, 58, 32, 49, 13, 10] [1, 2, 3] (newCacheWorld 1000 True) = Some (True, w1) \<and>
     RequestL calm_env (get_trans [104, 105]) ECacheModeHistory None w1 = Some (RsNone, Some p, w2) \<and>
     RequestNextChunkL calm_env (Some p) w2 = Some (Some [1, 2, 3])"
proof -
  have "HeadersToBufferLC [([65], [49])] = Some [65, 58, 32, 49, 13, 10]"
    by (simp add: HeadersToBufferLC_text headerLine_def KHttpFieldSeparator_def KHttpNewLine_def)
  from saved_response_is_served [OF newCacheWorld_ok [of 1000 True], of calm_env "[104, 105]" "[([65], [49])]"
      "[65, 58, 32, 49, 13, 10]" "[1, 2, 3]" "get_trans [104, 105]", OF _ _ _ _ _ _ this]
  show ?thesis using newTable_growable
    by (force simp: newCacheWorld_def calm_env_def calm_def get_trans_def io_quiet_def IsDiskSpaceAvailable_def
        fieldOk_def namesDistinct_def KHttpFieldSeparator_def KHttpNewLine_def)
qed

end
