(* ===== verification/ByteStream.thy ===== *)
theory ByteStream
  imports Prelude
begin

unbundle bit_operations_syntax

text \<open>
  Numbers and strings as bytes, little endian, for the files of the cache and of the downloads, and the
  sequence of steps that a reader or a writer makes up to the first leave.
\<close>

definition le32 :: "32 word \<Rightarrow> tdes8" where
  "le32 w = map (\<lambda>i. ucast (drop_bit (8 * i) w)) [0..<4]"

definition le16 :: "tdes16 \<Rightarrow> tdes8" where
  "le16 s = concat (map (\<lambda>c. [ucast c, ucast (drop_bit 8 c)]) s)"

text \<open>A reader of \<open>n\<close> bytes: what is left is consumed by a read that fails.\<close>

definition ReadL :: "nat \<Rightarrow> tdes8 \<Rightarrow> (symerr + tdes8) \<times> tdes8" where
  "ReadL n s = (if n \<le> length s then (Inr (take n s), drop n s) else (Inl KErrEof, []))"

definition un32 :: "tdes8 \<Rightarrow> 32 word" where
  "un32 b = (case b of [b0, b1, b2, b3] \<Rightarrow>
     ucast b0 OR push_bit 8 (ucast b1) OR push_bit 16 (ucast b2) OR push_bit 24 (ucast b3) | _ \<Rightarrow> 0)"

fun un16 :: "tdes8 \<Rightarrow> tdes16" where
  "un16 (a # b # r) = (ucast a OR push_bit 8 (ucast b)) # un16 r"
| "un16 _ = []"

definition ReadInt32L :: "tdes8 \<Rightarrow> (symerr + 32 word) \<times> tdes8" where
  "ReadInt32L s = (case ReadL 4 s of (Inl e, r) \<Rightarrow> (Inl e, r) | (Inr b, r) \<Rightarrow> (Inr (un32 b), r))"

text \<open>A step may leave with an error; a fault ends everything.\<close>

fun rdSteps :: "('s \<Rightarrow> (symerr \<times> 's) option) list \<Rightarrow> 's \<Rightarrow> (symerr \<times> 's) option" where
  "rdSteps [] st = Some (KErrNone, st)"
| "rdSteps (f # fs) st = (case f st of None \<Rightarrow> None
     | Some (err, st') \<Rightarrow> if err = KErrNone then rdSteps fs st' else Some (err, st'))"

lemma length_le32 [simp]: "length (le32 w) = 4"
  by (simp add: le32_def)

lemma un32_le32 [simp]: "un32 (le32 w) = w"
proof -
  have "le32 w = [ucast w, ucast (drop_bit 8 w), ucast (drop_bit 16 w), ucast (drop_bit 24 w)]"
    by (simp add: le32_def upt_rec)
  moreover have "(ucast (ucast w :: 8 word) :: 32 word) OR push_bit 8 (ucast (ucast (drop_bit 8 w) :: 8 word)) OR
      push_bit 16 (ucast (ucast (drop_bit 16 w) :: 8 word)) OR push_bit 24 (ucast (ucast (drop_bit 24 w) :: 8 word)) = w"
  proof (rule bit_word_eqI)
    fix n assume "n < LENGTH(32)"
    then show "bit ((ucast (ucast w :: 8 word) :: 32 word) OR push_bit 8 (ucast (ucast (drop_bit 8 w) :: 8 word)) OR
      push_bit 16 (ucast (ucast (drop_bit 16 w) :: 8 word)) OR push_bit 24 (ucast (ucast (drop_bit 24 w) :: 8 word))) n = bit w n"
      by (cases "n < 8"; cases "n < 16"; cases "n < 24") (auto simp: bit_simps)
  qed
  ultimately show ?thesis by (simp add: un32_def)
qed

lemma un16_le16 [simp]: "un16 (le16 s) = s"
proof (induction s)
  case (Cons c s)
  have "(ucast (ucast c :: 8 word) :: 16 word) OR push_bit 8 (ucast (ucast (drop_bit 8 c) :: 8 word)) = c"
    by (rule bit_word_eqI) (auto simp: bit_simps)
  then show ?case using Cons by (simp add: le16_def)
qed (simp add: le16_def)

lemma length_le16 [simp]: "length (le16 s) = 2 * length s"
  by (induction s) (simp_all add: le16_def)

lemma ReadL_app [simp]: "length a = n \<Longrightarrow> ReadL n (a @ r) = (Inr a, r)"
  by (auto simp: ReadL_def)

lemma ReadInt32L_app [simp]: "ReadInt32L (le32 w @ r) = (Inr w, r)"
  by (simp add: ReadInt32L_def)

lemma unat_small: "n < 2 ^ 31 \<Longrightarrow> unat (of_nat n :: 32 word) = n"
  by (simp add: unat_of_nat take_bit_nat_eq_self)

lemma sint_small: "n < 2 ^ 31 \<Longrightarrow> sint (of_nat n :: 32 word) = int n"
  by (simp add: signed_of_nat signed_take_bit_int_eq_self)

end
