(* ===== verification/IndexFile.thy ===== *)
theory IndexFile
  imports SaveServe ByteStream
begin

text \<open>
  The index file of the cache: \<open>ExternalizeL\<close> and \<open>InternalizeL\<close> of the entry
  (cache/src/HttpCacheEntry.cpp) and of the lookup table (cache/src/HttpCacheLookupTable.cpp),
  byte for byte. Integers are little endian, strings are their raw code units. A stream that ends
  too early leaves with \<open>KErrEof\<close>. \<open>realOut\<close> and \<open>realIn\<close> are the eight bytes the platform's
  streams use for a \<open>TReal64\<close>, as functions of the 64-bit time stored in it; \<open>alloc\<close> tells
  whether a heap descriptor of that length can be allocated.
\<close>

subsection \<open>One entry\<close>

definition KSubdirNameLength :: nat where "KSubdirNameLength = 2"
definition KFilenameLength :: nat where "KFilenameLength = 8"
definition KCacheVersionNumber :: "32 word" where "KCacheVersionNumber = 2"

definition entryExternalizeL :: "(int \<Rightarrow> tdes8) \<Rightarrow> cache_entry \<Rightarrow> tdes8 option" where
  "entryExternalizeL realOut e = do {
     fileName \<leftarrow> iFileName e;
     uniqueName \<leftarrow> des_right fileName KFilenameLength;
     hdr \<leftarrow> iHeaderBuffer e;
     Some (le32 (of_nat (length (iUrl e))) @ iUrl e @ le16 uniqueName @ realOut (iLastAccessed e) @
           le32 (ucast (iRef e)) @ le32 (iBodySize e) @ le32 (ucast (iHeaderSize e)) @ le32 (ucast (iProtected e)) @
           le32 (of_nat (length hdr)) @ hdr) }"

text \<open>
  Reading is a sequence of steps on the stream and the entry; a leave ends it with the fields
  that have been read so far. A negative length panics in the allocation.
\<close>

type_synonym rd_state = "tdes8 \<times> cache_entry"

text \<open>A field of fixed size, and a descriptor with its length before it.\<close>

definition rdField :: "nat \<Rightarrow> (tdes8 \<Rightarrow> cache_entry \<Rightarrow> cache_entry) \<Rightarrow> rd_state \<Rightarrow> (symerr \<times> rd_state) option" where
  "rdField n upd st = (case ReadL n (fst st) of
     (Inl err, r) \<Rightarrow> Some (err, r, snd st) | (Inr b, r) \<Rightarrow> Some (KErrNone, r, upd b (snd st)))"

definition rdDes :: "(nat \<Rightarrow> bool) \<Rightarrow> (cache_entry \<Rightarrow> cache_entry) \<Rightarrow> (tdes8 \<Rightarrow> cache_entry \<Rightarrow> cache_entry) \<Rightarrow> rd_state \<Rightarrow>
    (symerr \<times> rd_state) option" where
  "rdDes alloc clear upd st =
    (case ReadInt32L (fst st) of
       (Inl err, r) \<Rightarrow> Some (err, r, snd st)
     | (Inr len, r) \<Rightarrow>
       if sint len < 0 then None
       else if \<not> alloc (unat len) then Some (KErrNoMemory, r, clear (snd st))
       else (case ReadL (unat len) r of
           (Inl err, r') \<Rightarrow> Some (err, r', upd [] (snd st))
         | (Inr b, r') \<Rightarrow> Some (KErrNone, r', upd b (snd st))))"

text \<open>The path is put together from the directory, the last digit of the name and the name.\<close>

definition entryPath :: "tdes16 \<Rightarrow> tdes16 \<Rightarrow> tdes16" where
  "entryPath aDirectory uniqueFilename =
     aDirectory @ drop (length uniqueFilename - 1) uniqueFilename @ [KPathDelimiter] @ uniqueFilename"

definition rdName :: "(nat \<Rightarrow> bool) \<Rightarrow> tdes16 \<Rightarrow> rd_state \<Rightarrow> (symerr \<times> rd_state) option" where
  "rdName alloc aDirectory st =
    (if \<not> alloc (length aDirectory + KSubdirNameLength + KFilenameLength) then Some (KErrNoMemory, st)
     else rdField (2 * KFilenameLength) (\<lambda>b e. SetFileNameL (entryPath aDirectory (un16 b)) e) st)"

definition entryReadFields :: "(nat \<Rightarrow> bool) \<Rightarrow> (tdes8 \<Rightarrow> int) \<Rightarrow> tdes16 \<Rightarrow> rd_state \<Rightarrow> (symerr \<times> rd_state) option" where
  "entryReadFields alloc realIn aDirectory = rdSteps
     [rdDes alloc (\<lambda>e. e\<lparr>iUrl := []\<rparr>) (\<lambda>b e. e\<lparr>iUrl := b\<rparr>),
      rdName alloc aDirectory,
      rdField 8 (\<lambda>b e. e\<lparr>iLastAccessed := realIn b\<rparr>),
      rdField 4 (\<lambda>b e. e\<lparr>iRef := ucast (un32 b)\<rparr>),
      rdField 4 (\<lambda>b e. e\<lparr>iBodySize := un32 b\<rparr>),
      rdField 4 (\<lambda>b e. e\<lparr>iHeaderSize := ucast (un32 b)\<rparr>),
      rdField 4 (\<lambda>b e. e\<lparr>iProtected := ucast (un32 b)\<rparr>),
      rdDes alloc (\<lambda>e. e\<lparr>iHeaderBuffer := None\<rparr>) (\<lambda>b e. e\<lparr>iHeaderBuffer := Some b\<rparr>)]"

definition entryInternalize :: "(nat \<Rightarrow> bool) \<Rightarrow> (tdes8 \<Rightarrow> int) \<Rightarrow> tdes16 \<Rightarrow> nat \<Rightarrow> tdes8 \<Rightarrow> 'a ev_world_scheme \<Rightarrow>
    (symerr \<times> tdes8 \<times> 'a ev_world_scheme) option" where
  "entryInternalize alloc realIn aDirectory p s w = do {
     e \<leftarrow> heap w p;
     (err, s1, e1) \<leftarrow> entryReadFields alloc realIn aDirectory (s, e);
     let w1 = updEntry p (\<lambda>_. e1) w;
     if err = KErrNone then do { w2 \<leftarrow> entrySetState p ECacheComplete w1; Some (KErrNone, s1, w2) }
     else Some (err, s1, w1) }"

subsection \<open>The table\<close>

text \<open>The slots whose entries are written: the ones with a body, whatever their state.\<close>

definition ltToWrite :: "'a table_world_scheme \<Rightarrow> nat list" where
  "ltToWrite w = filter (\<lambda>p. case heap w p of None \<Rightarrow> True | Some e \<Rightarrow> iBodySize e \<noteq> 0) (slotAddrs (iEntries w))"

definition ltExternalizeL :: "(int \<Rightarrow> tdes8) \<Rightarrow> tdes16 \<Rightarrow> 'a table_world_scheme \<Rightarrow> tdes8 option" where
  "ltExternalizeL realOut aDirectory w = do {
     bodies \<leftarrow> those (map (\<lambda>p. Option.bind (heap w p) (entryExternalizeL realOut)) (ltToWrite w));
     Some (le32 KCacheVersionNumber @ le32 (of_nat (length aDirectory)) @ le16 aDirectory @
           le32 (of_nat (length (ltToWrite w))) @ concat bodies) }"

text \<open>
  The loop of \<open>InternalizeL\<close>; \<open>ps\<close> are the addresses the heap gives to the new entries. An entry
  that could not be read or inserted is lost, and only a failed allocation ends the loop.
\<close>

fun ltReadLoop :: "(nat \<Rightarrow> bool) \<Rightarrow> (tdes8 \<Rightarrow> int) \<Rightarrow> tdes16 \<Rightarrow> nat list \<Rightarrow> tdes8 \<Rightarrow> 32 word \<Rightarrow> 'a table_world_scheme \<Rightarrow>
    (symerr \<times> 32 word \<times> 'a table_world_scheme) option" where
  "ltReadLoop alloc realIn aDirectory [] s contentSize w = Some (KErrNone, contentSize, w)"
| "ltReadLoop alloc realIn aDirectory (p # ps) s contentSize w = do {
     (err, s1, w1) \<leftarrow> entryInternalize alloc realIn aDirectory p s (w\<lparr>heap := (heap w)(p \<mapsto> entryNewL [])\<rparr>);
     if err = KErrNone then do {
       e \<leftarrow> heap w1 p;
       (err2, w2) \<leftarrow> ltInsertEntryL p w1;
       ltReadLoop alloc realIn aDirectory ps s1 (contentSize + ucast (iHeaderSize e) + iBodySize e) w2 }
     else if err = KErrNoMemory then do { w2 \<leftarrow> entryDelete p w1; Some (KErrNoMemory, contentSize, w2) }
     else ltReadLoop alloc realIn aDirectory ps s1 contentSize w1 }"

text \<open>\<open>addrs n\<close> are the addresses of \<open>n\<close> new entries; \<open>SetSavedContentSize\<close> ends a complete read.\<close>

definition ltInternalizeL :: "(nat \<Rightarrow> bool) \<Rightarrow> (tdes8 \<Rightarrow> int) \<Rightarrow> tdes16 \<Rightarrow> (nat \<Rightarrow> nat list) \<Rightarrow> tdes8 \<Rightarrow> 'a table_world_scheme \<Rightarrow>
    (symerr \<times> 'a table_world_scheme) option" where
  "ltInternalizeL alloc realIn aDirectory addrs s w =
    (case ReadInt32L s of
       (Inl err, _) \<Rightarrow> Some (err, w)
     | (Inr version, s1) \<Rightarrow>
       if version \<noteq> KCacheVersionNumber then Some (KErrNone, w)
       else (case ReadInt32L s1 of
           (Inl err, _) \<Rightarrow> Some (err, w)
         | (Inr len, s2) \<Rightarrow>
           if len = 0 then Some (KErrNone, w)
           else if sint len < 0 then None
           else if \<not> alloc (unat len) then Some (KErrNoMemory, w)
           else (case ReadL (2 * unat len) s2 of
               (Inl err, _) \<Rightarrow> Some (err, w)
             | (Inr dirstub, s3) \<Rightarrow>
               (case ReadInt32L s3 of
                  (Inl err, _) \<Rightarrow> Some (err, w)
                | (Inr cnt, s4) \<Rightarrow> do {
                    (err, contentSize, w1) \<leftarrow> ltReadLoop alloc realIn aDirectory (addrs (nat (sint cnt))) s4 0 w;
                    Some (err, if err = KErrNone then w1\<lparr>iContentSize := contentSize\<rparr> else w1) }))))"

end
