(* ===== verification/IndexSpec.thy ===== *)
theory IndexSpec
  imports IndexFile
begin

text \<open>
  The index file keeps the cache across sessions: what \<open>ExternalizeL\<close> writes, \<open>InternalizeL\<close>
  reads back into a consistent table with the same entries, and where the two fail the cache.
\<close>

subsection \<open>One entry\<close>

text \<open>What an entry of the table satisfies for its record to be read back.\<close>

definition storable :: "tdes16 \<Rightarrow> cache_entry \<Rightarrow> bool" where
  "storable dir e \<longleftrightarrow> length (iUrl e) < 2 ^ 31 \<and> iRef e \<noteq> 0 \<and>
     (\<exists>name hdr. length name = KFilenameLength \<and> iFileName e = Some (entryPath dir name) \<and>
        iHeaderBuffer e = Some hdr \<and> length hdr < 2 ^ 31)"

definition restored :: "(int \<Rightarrow> tdes8) \<Rightarrow> (tdes8 \<Rightarrow> int) \<Rightarrow> cache_entry \<Rightarrow> cache_entry" where
  "restored realOut realIn e = (entryNewL (iUrl e))\<lparr>iFileName := iFileName e, iLastAccessed := realIn (realOut (iLastAccessed e)),
     iRef := iRef e, iBodySize := iBodySize e, iHeaderSize := iHeaderSize e, iProtected := iProtected e,
     iHeaderBuffer := iHeaderBuffer e, iState := ECacheComplete, iEvictionCandidate := True\<rparr>"

lemma rdSteps_Cons_ok: "f st = Some (KErrNone, st') \<Longrightarrow> rdSteps (f # fs) st = rdSteps fs st'"
  by simp

lemma rdDes_ok:
  assumes "length d < 2 ^ 31" "\<forall>n. alloc n"
  shows "rdDes alloc clr upd (le32 (of_nat (length d)) @ d @ r, e) = Some (KErrNone, r, upd d e)"
  using assms by (simp add: rdDes_def unat_small sint_small)

lemma rdField_ok: "length b = n \<Longrightarrow> rdField n upd (b @ r, e) = Some (KErrNone, r, upd b e)"
  by (simp add: rdField_def)

lemma entryReadFields_ok:
  assumes st: "storable dir e" and bs: "entryExternalizeL realOut e = Some bs" and alloc: "\<forall>n. alloc n"
    and real: "\<forall>t. length (realOut t) = 8"
  shows "entryReadFields alloc realIn dir (bs @ r, e0) = Some (KErrNone, r, e0\<lparr>iUrl := iUrl e, iFileName := iFileName e,
     iLastAccessed := realIn (realOut (iLastAccessed e)), iRef := iRef e, iBodySize := iBodySize e, iHeaderSize := iHeaderSize e,
     iProtected := iProtected e, iHeaderBuffer := iHeaderBuffer e\<rparr>)"
proof -
  obtain name hdr where n: "length name = KFilenameLength" "iFileName e = Some (entryPath dir name)"
    "iHeaderBuffer e = Some hdr" "length hdr < 2 ^ 31" "length (iUrl e) < 2 ^ 31" using st by (auto simp: storable_def)
  have "des_right (entryPath dir name) KFilenameLength = Some name"
    using n(1) by (simp add: des_right_def entryPath_def KFilenameLength_def)
  then have b: "bs @ r = le32 (of_nat (length (iUrl e))) @ iUrl e @ le16 name @ realOut (iLastAccessed e) @
      le32 (ucast (iRef e)) @ le32 (iBodySize e) @ le32 (ucast (iHeaderSize e)) @ le32 (ucast (iProtected e)) @
      le32 (of_nat (length hdr)) @ hdr @ r"
    using bs n by (simp add: entryExternalizeL_def)
  have u: "(ucast (ucast (x :: 16 word) :: 32 word) :: 16 word) = x" "(ucast (ucast (y :: 8 word) :: 32 word) :: 8 word) = y" for x y
    by (rule bit_word_eqI; simp add: bit_simps)+
  have nm: "rdName alloc dir (le16 name @ q, x) = Some (KErrNone, q, SetFileNameL (entryPath dir name) x)" for q x
    using alloc n(1) by (simp add: rdName_def rdField_ok)
  show ?thesis
    unfolding b entryReadFields_def
    by (simp add: rdDes_ok [OF n(5) alloc] rdDes_ok [OF n(4) alloc] nm rdField_ok real u n SetFileNameL_def)
qed

lemma entryInternalize_ok:
  assumes st: "storable dir e" and bs: "entryExternalizeL realOut e = Some bs" and alloc: "\<forall>n. alloc n"
    and real: "\<forall>t. length (realOut t) = 8" and ok: "ev_ok w" and p: "heap w p = Some (entryNewL [])"
  shows "\<exists>w'. entryInternalize alloc realIn dir p (bs @ r) w = Some (KErrNone, r, w') \<and> ev_ok w' \<and> ev_frame w w' \<and>
    heap w' = (heap w)(p \<mapsto> restored realOut realIn e)"
proof -
  let ?e1 = "(entryNewL [])\<lparr>iUrl := iUrl e, iFileName := iFileName e,
     iLastAccessed := realIn (realOut (iLastAccessed e)), iRef := iRef e, iBodySize := iBodySize e, iHeaderSize := iHeaderSize e,
     iProtected := iProtected e, iHeaderBuffer := iHeaderBuffer e\<rparr>"
  define w1 where "w1 = updEntry p (\<lambda>_. ?e1) w"
  have h1: "heap w1 = (heap w)(p \<mapsto> ?e1)" "heap w1 p = Some ?e1" using p by (auto simp: w1_def fun_eq_iff)
  have ok1: "ev_ok w1"
  proof (rule ev_okI [OF ok, of _ p])
    have fl: "filed w1 i q \<longleftrightarrow> filed w i q" for i q by (simp add: w1_def filed_def)
    show "filed w1 i p \<longleftrightarrow> (\<exists>e. heap w1 p = Some e \<and> iEvictionCandidate e \<and> entryBucket e = Some i)" for i
      unfolding fl ev_ok_filed [OF ok] using p h1 by (simp add: entryNewL_def)
    show "heap w1 q = heap w q \<and> (filed w1 i q \<longleftrightarrow> filed w i q)" if "q \<noteq> p" for i q
      using that fl h1 by simp
  qed (use h1 ev_ok_length [OF ok] ev_ok_distinct [OF ok] in \<open>auto simp: entryNewL_def w1_def\<close>)
  have "iRef ?e1 \<noteq> 0" using st by (simp add: storable_def)
  then obtain w2 where w2: "entrySetState p ECacheComplete w1 = Some w2" "ev_ok w2"
    "heap w2 = (heap w1)(p \<mapsto> ?e1\<lparr>iState := ECacheComplete, iEvictionCandidate := iEvictionCandidate ?e1 \<or> True\<rparr>)"
    using entrySetState_ok [OF ok1 h1(2), of ECacheComplete] by auto
  have "entryInternalize alloc realIn dir p (bs @ r) w = Some (KErrNone, r, w2)"
    using entryReadFields_ok [OF st bs alloc real, of realIn r "entryNewL []"] p w2(1)
    by (simp add: entryInternalize_def w1_def)
  moreover have "heap w2 = (heap w)(p \<mapsto> restored realOut realIn e)"
    using w2(3) h1 by (simp add: restored_def entryNewL_def)
  moreover have "ev_frame w w2"
    using ev_frame_trans [OF ev_frame_basic(1) entrySetState_ev_frame] w2(1) unfolding w1_def by blast
  ultimately show ?thesis using w2(2) by blast
qed

subsection \<open>The table\<close>

text \<open>
  A new entry that is filed already joins the table; the byte count follows at the end. \<open>c\<close> is
  what \<open>InternalizeL\<close> has summed so far.
\<close>

lemma insert_filed_ok:
  assumes ok: "lt_ok (w\<lparr>iContentSize := c\<rparr>)" and fresh: "heap w p = None" and grow: "growable (iEntries w)"
    and w1: "ev_ok w1" "heap w1 = (heap w)(p \<mapsto> e)" "iEntries w1 = iEntries w" "iCount w1 = iCount w" and n: "iFileName e \<noteq> None"
  shows "\<exists>t. ltInsertEntryL p w1 = Some (KErrNone, w1\<lparr>iEntries := t, iCount := int (tblCount t)\<rparr>) \<and>
    lt_ok (w1\<lparr>iEntries := t, iCount := int (tblCount t), iContentSize := c + ucast (iHeaderSize e) + iBodySize e\<rparr>) \<and>
    (length t = length (iEntries w) \<or> (\<exists>q. NextPrime (of_nat (length (iEntries w) * 2)) = Some q \<and> length t = unat q))"
proof -
  let ?w = "w\<lparr>iContentSize := c\<rparr>"
  have new: "p \<notin> set (slotAddrs (iEntries w))" using lt_ok_fresh [OF ok] fresh by simp
  have t0: "tbl_ok (urlOf w1) (iEntries w)"
    by (rule tbl_ok_urlOf_cong [of "urlOf ?w"]) (use lt_okD(1) [OF ok] w1(2) new in \<open>auto simp: urlOf_def\<close>)
  have half: "tblCount (iEntries w) \<le> length (iEntries w) div 2" using lt_okD(3) [OF ok] by simp
  obtain t where t: "tblInsertL (urlOf w1) p (int (tblCount (iEntries w))) (iEntries w) = Some (KErrNone, int (tblCount t), t)"
    "tbl_ok (urlOf w1) t" "set (slotAddrs t) = insert p (set (slotAddrs (iEntries w)))" "tblCount t \<le> length t div 2"
    "length t = length (iEntries w) \<or> (\<exists>q. NextPrime (of_nat (length (iEntries w) * 2)) = Some q \<and> length t = unat q)"
    using tblInsertL_spec [OF t0 half grow, of p "iUrl e"] new w1(2) by (auto simp: urlOf_def)
  define w2 where "w2 = w1\<lparr>iEntries := t, iCount := int (tblCount t), iContentSize := c + ucast (iHeaderSize e) + iBodySize e\<rparr>"
  have run: "ltInsertEntryL p w1 = Some (KErrNone, w1\<lparr>iEntries := t, iCount := int (tblCount t)\<rparr>)"
    using t(1) w1(3,4) lt_okD(2) [OF ok] by (simp add: ltInsertEntryL_def)
  have h2: "heap w2 = (heap w)(p \<mapsto> e)" by (simp add: w2_def w1(2))
  have "lt_ok w2"
    unfolding lt_ok_def
  proof (intro conjI)
    have "urlOf w2 = urlOf w1" by (simp add: urlOf_def w2_def fun_eq_iff)
    then show "tbl_ok (urlOf w2) (iEntries w2)" using t(2) by (simp add: w2_def)
    show "ev_ok w2" by (rule ev_ok_cong [OF w1(1)]) (simp_all add: w2_def)
    show "dom (heap w2) = set (slotAddrs (iEntries w2))" using h2 t(3) lt_okD(5) [OF ok] by (simp add: w2_def)
    show "\<forall>q e. heap w2 q = Some e \<longrightarrow> iFileName e \<noteq> None" using h2 n lt_okD(6) [OF ok] by auto
    have "(\<Sum>q \<in> set (slotAddrs t). entrySpace w2 q) = entrySpace w2 p + (\<Sum>q \<in> set (slotAddrs (iEntries w)). entrySpace w2 q)"
      using t(3) new by simp
    also have "(\<Sum>q \<in> set (slotAddrs (iEntries w)). entrySpace w2 q) = (\<Sum>q \<in> set (slotAddrs (iEntries w)). entrySpace ?w q)"
      using new h2 by (intro sum.cong) (auto simp: entrySpace_def)
    also have "\<dots> = c" using lt_okD(7) [OF ok] by simp
    finally show "iContentSize w2 = (\<Sum>q \<in> set (slotAddrs (iEntries w2)). entrySpace w2 q)"
      using h2 by (simp add: w2_def entrySpace_def)
  qed (use t(4) in \<open>simp_all add: w2_def\<close>)
  then show ?thesis using run t(5) unfolding w2_def by blast
qed

lemma room_to_grow_step:
  "room_to_grow (Suc k) n \<Longrightarrow> m = n \<or> (\<exists>q. NextPrime (of_nat (n * 2)) = Some q \<and> m = unat q) \<Longrightarrow> room_to_grow k m"
  by auto

lemma ltReadLoop_ok:
  assumes real: "\<forall>t. length (realOut t) = 8" and alloc: "\<forall>n. alloc n"
  shows "length ps = length es \<Longrightarrow> distinct ps \<Longrightarrow> \<forall>p \<in> set ps. heap w p = None \<Longrightarrow> \<forall>e \<in> set es. storable dir e \<Longrightarrow>
    those (map (entryExternalizeL realOut) es) = Some bss \<Longrightarrow> lt_ok (w\<lparr>iContentSize := c\<rparr>) \<Longrightarrow>
    room_to_grow (length es) (length (iEntries w)) \<Longrightarrow>
    \<exists>w' c'. ltReadLoop alloc realIn dir ps (concat bss @ r) c w = Some (KErrNone, c', w') \<and> lt_ok (w'\<lparr>iContentSize := c'\<rparr>) \<and>
      heap w' = heap w ++ map_of (zip ps (map (restored realOut realIn) es))"
proof (induction es arbitrary: ps bss w c)
  case Nil
  then show ?case by auto
next
  case (Cons e es)
  obtain p ps' where ps: "ps = p # ps'" using Cons.prems(1) by (cases ps) auto
  obtain bs bss' where bss: "bss = bs # bss'" "entryExternalizeL realOut e = Some bs"
    "those (map (entryExternalizeL realOut) es) = Some bss'"
    using Cons.prems(5) by (auto split: option.splits)
  have st: "storable dir e" using Cons.prems(4) by simp
  let ?w0 = "w\<lparr>heap := (heap w)(p \<mapsto> entryNewL [])\<rparr>"
  have ev: "ev_ok w" by (rule ev_ok_cong [OF lt_okD(4) [OF Cons.prems(6)]]) simp_all
  have fresh: "heap w p = None" using Cons.prems(3) ps by simp
  have ok0: "ev_ok ?w0" by (rule ev_ok_new [OF ev fresh, of "entryNewL []"]) (simp_all add: entryNewL_def)
  have h0: "heap ?w0 p = Some (entryNewL [])" by simp
  obtain w1 where w1: "entryInternalize alloc realIn dir p (bs @ (concat bss' @ r)) ?w0 = Some (KErrNone, concat bss' @ r, w1)"
    "ev_ok w1" "ev_frame ?w0 w1" "heap w1 = (heap ?w0)(p \<mapsto> restored realOut realIn e)"
    using entryInternalize_ok [OF st bss(2) alloc real ok0 h0] by blast
  note fr = ev_frame_fields [OF w1(3)]
  have h1: "heap w1 = (heap w)(p \<mapsto> restored realOut realIn e)" using w1(4) by simp
  have nm: "iFileName (restored realOut realIn e) \<noteq> None" using st by (auto simp: restored_def storable_def)
  have grow: "growable (iEntries w)" using Cons.prems(7) by (simp add: growable_def)
  let ?c = "c + ucast (iHeaderSize (restored realOut realIn e)) + iBodySize (restored realOut realIn e)"
  obtain t where t: "ltInsertEntryL p w1 = Some (KErrNone, w1\<lparr>iEntries := t, iCount := int (tblCount t)\<rparr>)"
    "lt_ok (w1\<lparr>iEntries := t, iCount := int (tblCount t), iContentSize := ?c\<rparr>)"
    "length t = length (iEntries w) \<or> (\<exists>q. NextPrime (of_nat (length (iEntries w) * 2)) = Some q \<and> length t = unat q)"
    using insert_filed_ok [OF Cons.prems(6) fresh grow w1(2) h1 _ _ nm] fr(1,2) by auto
  define w2 where "w2 = w1\<lparr>iEntries := t, iCount := int (tblCount t)\<rparr>"
  have h2: "heap w2 = (heap w)(p \<mapsto> restored realOut realIn e)" using h1 by (simp add: w2_def)
  have ok2: "lt_ok (w2\<lparr>iContentSize := ?c\<rparr>)" using t(2) by (simp add: w2_def)
  have free2: "\<forall>q \<in> set ps'. heap w2 q = None" using Cons.prems(2,3) h2 ps by auto
  have len2: "length (iEntries w2) = length t" by (simp add: w2_def)
  have "room_to_grow (length es) (length (iEntries w2))"
    unfolding len2 by (rule room_to_grow_step [OF _ t(3)]) (use Cons.prems(7) in simp)
  then obtain w' c' where w': "ltReadLoop alloc realIn dir ps' (concat bss' @ r) ?c w2 = Some (KErrNone, c', w')"
    "lt_ok (w'\<lparr>iContentSize := c'\<rparr>)" "heap w' = heap w2 ++ map_of (zip ps' (map (restored realOut realIn) es))"
    using Cons.IH [OF _ _ free2 _ bss(3) ok2] Cons.prems(1,2,4) ps by auto
  have "ltReadLoop alloc realIn dir ps (concat bss @ r) c w = Some (KErrNone, c', w')"
    using w1(1) h1 t(1) w'(1) by (simp add: ps bss(1) w2_def)
  moreover have "heap w' = heap w ++ map_of (zip ps (map (restored realOut realIn) (e # es)))"
  proof
    fix q
    have "p \<notin> set ps'" using Cons.prems(2) ps by simp
    then have "map_of (zip ps' (map (restored realOut realIn) es)) p = None"
      by (auto simp: map_of_eq_None_iff dest: set_zip_leftD)
    then show "heap w' q = (heap w ++ map_of (zip ps (map (restored realOut realIn) (e # es)))) q"
      using w'(3) h2 by (auto simp: ps map_add_def split: option.splits)
  qed
  ultimately show ?case using w'(2) by blast
qed

text \<open>The names the cache generates are the ones the index file can put together again.\<close>

lemma GenerateNameLC_path: "GenerateNameLC crc u dir = entryPath dir (hex8 (crc u)) \<and> length (hex8 (crc u)) = KFilenameLength"
  by (simp add: GenerateNameLC_def entryPath_def hex8_def KFilenameLength_def KCacheSubdirCount_def upt_rec Let_def)

lemma those_map_some: "\<forall>x \<in> set xs. \<exists>y. f x = Some y \<Longrightarrow> \<exists>ys. those (map f xs) = Some ys \<and> length ys = length xs"
proof (induction xs)
  case (Cons x xs)
  then obtain y ys where "f x = Some y" "those (map f xs) = Some ys" "length ys = length xs" by auto
  then show ?case by simp
qed simp

lemma entryExternalizeL_total: "storable dir e \<Longrightarrow> \<exists>bs. entryExternalizeL realOut e = Some bs"
  by (auto simp: storable_def entryExternalizeL_def entryPath_def des_right_def KFilenameLength_def)

lemma index_roundtrip_gen:
  assumes w: "lt_ok w" "\<forall>p \<in> set (ltToWrite w). storable dir (the (heap w p))" "length (ltToWrite w) < 2 ^ 31"
    and dir: "dir \<noteq> []" "length dir < 2 ^ 31" and real: "\<forall>t. length (realOut t) = 8" and alloc: "\<forall>n. alloc n"
    and w0: "lt_ok w0" "heap w0 = Map.empty" "room_to_grow (length (ltToWrite w)) (length (iEntries w0))"
    and addrs: "\<forall>n. length (addrs n) = n \<and> distinct (addrs n)"
  shows "\<exists>bytes w'. ltExternalizeL realOut dir w = Some bytes \<and>
    ltInternalizeL alloc realIn dir addrs bytes w0 = Some (KErrNone, w') \<and> lt_ok w' \<and>
    heap w' = map_of (zip (addrs (length (ltToWrite w))) (map (\<lambda>p. restored realOut realIn (the (heap w p))) (ltToWrite w)))"
proof -
  let ?ps = "ltToWrite w"
  let ?es = "map (\<lambda>p. the (heap w p)) ?ps"
  have live: "\<exists>e. heap w p = Some e" if "p \<in> set ?ps" for p
    using that lt_okD(5) [OF w(1)] by (auto simp: ltToWrite_def)
  have eq: "map (\<lambda>p. Option.bind (heap w p) (entryExternalizeL realOut)) ?ps = map (entryExternalizeL realOut) ?es"
    using live by force
  obtain bss where bss: "those (map (entryExternalizeL realOut) ?es) = Some bss" 
    using those_map_some [of ?es "entryExternalizeL realOut"] entryExternalizeL_total w(2) by fastforce
  define bytes where "bytes = le32 KCacheVersionNumber @ le32 (of_nat (length dir)) @ le16 dir @
      le32 (of_nat (length ?ps)) @ concat bss"
  have out: "ltExternalizeL realOut dir w = Some bytes"
    unfolding ltExternalizeL_def eq bss by (simp add: bytes_def)
  have c0: "lt_ok (w0\<lparr>iContentSize := 0\<rparr>)"
  proof -
    have "slotAddrs (iEntries w0) = []" using lt_okD(5) [OF w0(1)] w0(2) by simp
    then have "iContentSize w0 = 0" using lt_okD(7) [OF w0(1)] by simp
    then show ?thesis by (intro lt_ok_cong [OF w0(1)]) simp_all
  qed
  have room: "room_to_grow (length ?es) (length (iEntries w0))" using w0(3) by simp
  obtain w' c' where w': "ltReadLoop alloc realIn dir (addrs (length ?ps)) (concat bss @ []) 0 w0 = Some (KErrNone, c', w')"
    "lt_ok (w'\<lparr>iContentSize := c'\<rparr>)" "heap w' = heap w0 ++ map_of (zip (addrs (length ?ps)) (map (restored realOut realIn) ?es))"
  proof -
    have l: "length (addrs (length ?ps)) = length ?es" "distinct (addrs (length ?ps))" "\<forall>p \<in> set (addrs (length ?ps)). heap w0 p = None"
      "\<forall>e \<in> set ?es. storable dir e" using addrs w0(2) w(2) by simp_all
    show thesis using ltReadLoop_ok [OF real alloc l bss c0 room, where realIn = realIn and r = "[]"] that by blast
  qed
  have dn: "(of_nat (length dir) :: 32 word) \<noteq> 0"
    using unat_small [OF dir(2)] dir(1) by (metis length_0_conv unat_0)
  have "ltInternalizeL alloc realIn dir addrs bytes w0 = Some (KErrNone, w'\<lparr>iContentSize := c'\<rparr>)"
    using w'(1) dn alloc dir(2) w(3)
    by (simp add: ltInternalizeL_def bytes_def unat_small sint_small)
  moreover have "heap (w'\<lparr>iContentSize := c'\<rparr>) =
      map_of (zip (addrs (length ?ps)) (map (\<lambda>p. restored realOut realIn (the (heap w p))) ?ps))"
    using w'(3) w0(2) by (simp add: comp_def)
  ultimately show ?thesis using out w'(2) by blast
qed

text \<open>
  C7: the index file keeps the cache over a restart. What \<open>ExternalizeL\<close> writes for a consistent
  table, \<open>InternalizeL\<close> reads into an empty one without an error: the new table is consistent,
  its byte count is that of its entries, and it holds exactly the entries that had a body, each
  with its URL, path, sizes, reference count, protection and headers, complete and filed for
  eviction; the time of the last access goes through the stream's floating-point format.
\<close>

theorem index_roundtrip:
  assumes "lt_ok w" "\<forall>p \<in> set (ltToWrite w). storable dir (the (heap w p))" "length (ltToWrite w) < 2 ^ 31"
    and "dir \<noteq> []" "length dir < 2 ^ 31" "\<forall>t. length (realOut t) = 8" "\<forall>n. alloc n"
    and "lt_ok w0" "heap w0 = Map.empty" "room_to_grow (length (ltToWrite w)) (length (iEntries w0))"
    and "\<forall>n. length (addrs n) = n \<and> distinct (addrs n)"
  shows "\<exists>bytes w'. ltExternalizeL realOut dir w = Some bytes \<and>
    ltInternalizeL alloc realIn dir addrs bytes w0 = Some (KErrNone, w') \<and> lt_ok w' \<and>
    heap w' = map_of (zip (addrs (length (ltToWrite w))) (map (\<lambda>p. let e = the (heap w p) in
      (entryNewL (iUrl e))\<lparr>iFileName := iFileName e, iLastAccessed := realIn (realOut (iLastAccessed e)), iRef := iRef e,
        iBodySize := iBodySize e, iHeaderSize := iHeaderSize e, iProtected := iProtected e, iHeaderBuffer := iHeaderBuffer e,
        iState := ECacheComplete, iEvictionCandidate := True\<rparr>) (ltToWrite w)))"
  using index_roundtrip_gen [OF assms] unfolding restored_def Let_def .

text \<open>A cache with one saved entry, and an index-file format for its times.\<close>

definition flatOut :: "int \<Rightarrow> tdes8" where
  "flatOut t = le32 (word_of_int t) @ le32 (word_of_int (t div 2 ^ 32))"

lemma one_to_write:
  assumes "lt_ok w" "heap w = [1 \<mapsto> e]" "iBodySize e \<noteq> 0"
  shows "ltToWrite w = [1]"
proof -
  have s: "set (slotAddrs (iEntries w)) = {1}" "distinct (slotAddrs (iEntries w))"
    using lt_okD(5) [OF assms(1)] tbl_okD(2) [OF lt_okD(1) [OF assms(1)]] assms(2) by auto
  have "length (slotAddrs (iEntries w)) = 1" using distinct_card [OF s(2)] s(1) by simp
  then obtain x where "slotAddrs (iEntries w) = [x]" by (metis One_nat_def length_0_conv length_Suc_conv)
  then show ?thesis using s(1) assms(2,3) by (simp add: ltToWrite_def)
qed

lemma one_saved:
  "\<exists>w e. lt_ok (w :: cache_world) \<and> heap w = [1 \<mapsto> e] \<and> iUrl e = [104] \<and> storable [67] e \<and> iBodySize e = 3 \<and> ltToWrite w = [1]"
proof -
  let ?w0 = "newCacheWorld 1000 True"
  have p: "heap ?w0 (envAddr calm_env) = None" "growable (iEntries ?w0)" "\<forall>p e. heap ?w0 p = Some e \<longrightarrow> \<not> des_eqF (envFold calm_env) (iUrl e) [104]"
    using newTable_growable by (simp_all add: newCacheWorld_def)
  have io: "io_quiet (envIo calm_env) ?w0 (int (length ([65, 58] :: tdes8) + length ([1, 2, 3] :: tdes8)))"
    by (simp add: newCacheWorld_def calm_env_def calm_def io_quiet_def IsDiskSpaceAvailable_def)
  have fit: "sint (iContentSize ?w0 + of_nat (length ([65, 58] :: tdes8))) \<le> sint (iSize ?w0)"
    "sint (iContentSize ?w0 + of_nat (length ([65, 58] :: tdes8)) + of_nat (length ([1, 2, 3] :: tdes8))) \<le> sint (iSize ?w0)"
    by (simp_all add: newCacheWorld_def)
  have ne: "([65, 58] :: tdes8) \<noteq> []" "length ([65, 58] :: tdes8) < 65536" "([1, 2, 3] :: tdes8) \<noteq> []" by simp_all
  obtain w :: cache_world and e n where w: "lt_ok w" "heap w = (heap ?w0)(envAddr calm_env \<mapsto> e)"
    "savedEntry e [104] n [65, 58] [1, 2, 3]" "n = GenerateNameLC (envCrc32 calm_env) [104] (envDir calm_env)"
    using SaveL_spec [OF newCacheWorld_ok p ne io fit] by blast
  have h: "heap w = [1 \<mapsto> e]" using w(2) by (simp add: newCacheWorld_def calm_env_def)
  have st: "storable [67] e"
    using w(3,4) GenerateNameLC_path [of "envCrc32 calm_env" "[104]" "[67]"]
    by (auto simp: savedEntry_def storable_def calm_env_def)
  have "ltToWrite w = [1]" using one_to_write [OF w(1) h] w(3) by (simp add: savedEntry_def)
  then show ?thesis using w(1,3) h st by (intro exI [of _ w] exI [of _ e]) (simp add: savedEntry_def)
qed

lemma newTable_room: "room_to_grow 1 (length tblConstructL)"
  using newTable_growable by (simp add: growable_def)

lemma flatOut_length: "\<forall>t. length (flatOut t) = 8"
  by (simp add: flatOut_def)

theorem index_roundtrip_witness:
  "\<exists>(w :: cache_world) bytes w' e. ltExternalizeL flatOut [67] w = Some bytes \<and>
     ltInternalizeL (\<lambda>_. True) (\<lambda>b. uint (un32 (take 4 b))) [67] (\<lambda>n. [1..<Suc n]) bytes (newCacheWorld 1000 True) = Some (KErrNone, w') \<and>
     heap w' = [1 \<mapsto> e] \<and> iUrl e = [104] \<and> iBodySize e = 3"
proof -
  obtain w e where w: "lt_ok (w :: cache_world)" "heap w = [1 \<mapsto> e]" "iUrl e = [104]" "storable [67] e" "iBodySize e = 3"
    "ltToWrite w = [1]" using one_saved by blast
  have a: "\<forall>p \<in> set (ltToWrite w). storable [67] (the (heap w p))" "length (ltToWrite w) < 2 ^ 31" using w by simp_all
  have r: "room_to_grow (length (ltToWrite w)) (length (iEntries (newCacheWorld 1000 True)))"
    using newTable_room w(6) by (simp add: newCacheWorld_def)
  have h: "heap (newCacheWorld 1000 True) = Map.empty" by (simp add: newCacheWorld_def)
  have d: "\<forall>n. length [1..<Suc n] = n \<and> distinct [1..<Suc n]" by simp
  have dir: "[67] \<noteq> ([] :: tdes16)" "length ([67] :: tdes16) < 2 ^ 31" by simp_all
  let ?e = "restored flatOut (\<lambda>b. uint (un32 (take 4 b))) e"
  obtain bytes w' where b: "ltExternalizeL flatOut [67] w = Some bytes"
    "ltInternalizeL (\<lambda>_. True) (\<lambda>b. uint (un32 (take 4 b))) [67] (\<lambda>n. [1..<Suc n]) bytes (newCacheWorld 1000 True) = Some (KErrNone, w')"
    "heap w' = map_of (zip [1..<Suc 1] [?e])"
    using index_roundtrip [OF w(1) a dir flatOut_length _ newCacheWorld_ok h r d, of "\<lambda>_. True" "\<lambda>b. uint (un32 (take 4 b))"] w(2,6)
    unfolding restored_def Let_def by (auto simp del: upt_Suc)
  have "heap w' = [1 \<mapsto> ?e] \<and> iUrl ?e = [104] \<and> iBodySize ?e = 3"
    using b(3) w(3,5) by (simp add: restored_def entryNewL_def upt_rec)
  then show ?thesis using b(1,2) by blast
qed

end
