(* ===== verification/IndexMerge.thy ===== *)
theory IndexMerge
  imports IndexSpec
begin

text \<open>
  The index file while the cache runs: reading and writing it (\<open>OpenLookupTableL\<close>,
  \<open>SaveLookupTableL\<close>, cache/src/HttpCacheHandler.cpp), the observer that notices when another
  client writes it (cache/src/HttpCacheObserver.cpp), the merge of a changed index into the
  running table (\<open>UpdateLookupTableL\<close> and \<open>CHttpCacheLookupTable::MergeL\<close>), and the check of the
  entries against the files on disk (\<open>ValidateCacheEntriesL\<close>). The index file is a file of
  \<open>disk\<close>. The second table of a merge has slots, a count and buckets of its own and shares heap,
  disk and stream handler with the first.
\<close>

record observer =
  obActive :: bool
  obStatus :: "symerr option"

record index_world = cache_world +
  iHttpCacheObserver :: "observer option"
  iIndexPath :: tdes16

text \<open>What the platform answers for the index file.\<close>

record index_io =
  ixTries :: "symerr list"
  ixReadErr :: symerr
  ixAlloc :: "nat \<Rightarrow> bool"
  ixRealIn :: "tdes8 \<Rightarrow> int"
  ixRealOut :: "int \<Rightarrow> tdes8"
  ixAddrs :: "nat \<Rightarrow> nat list"
  ixMapOk :: bool
  ixNewAddr :: "nat \<Rightarrow> nat"

definition KErrInUse :: symerr where "KErrInUse = KErrOther (- 14)"

text \<open>Up to five attempts while the file is in use.\<close>

fun openTries :: "nat \<Rightarrow> symerr \<Rightarrow> symerr list \<Rightarrow> symerr" where
  "openTries 0 ret rs = ret"
| "openTries (Suc n) ret [] = KErrNone"
| "openTries (Suc n) ret (r # rs) = (if r = KErrInUse then openTries n r rs else r)"

subsection \<open>The observer\<close>

definition obUpdated :: "observer \<Rightarrow> bool" where
  "obUpdated ob \<longleftrightarrow> obActive ob \<and> obStatus ob \<noteq> None"

text \<open>\<open>Cancel\<close> has the file server complete the request; \<open>StartObserver\<close> asks for the next change.\<close>

definition obCancel :: "observer \<Rightarrow> observer" where
  "obCancel ob = (if obActive ob then \<lparr>obActive = False, obStatus = Some KErrCancel\<rparr> else ob)"

definition obStartObserver :: "observer \<Rightarrow> observer" where
  "obStartObserver ob = (if \<not> obActive ob then \<lparr>obActive = True, obStatus = None\<rparr> else ob)"

text \<open>\<open>Queue\<close> waits for the signal when it is active, which never comes while the request is pending.\<close>

definition obQueue :: "observer \<Rightarrow> observer option" where
  "obQueue ob = (if obActive ob \<and> obStatus ob = None then None else Some \<lparr>obActive = True, obStatus = None\<rparr>)"

subsection \<open>Reading and writing\<close>

definition OpenLookupTableL :: "index_io \<Rightarrow> tdes16 \<Rightarrow> tdes16 \<Rightarrow> 'a table_world_scheme \<Rightarrow> (symerr \<times> 'a table_world_scheme) option" where
  "OpenLookupTableL ix dir path w =
    (case disk w path of
       Some buffer \<Rightarrow>
         if openTries 5 KErrNone (ixTries ix) \<noteq> KErrNone \<or> buffer = [] then Some (KErrNone, w)
         else if \<not> ixAlloc ix (length buffer) then Some (KErrNoMemory, w)
         else if ixReadErr ix \<noteq> KErrNone then Some (ixReadErr ix, w)
         else ltInternalizeL (ixAlloc ix) (ixRealIn ix) dir (ixAddrs ix) buffer w
     | None \<Rightarrow> Some (KErrNone, w))"

text \<open>The observer's pointer is used without a check.\<close>

definition SaveLookupTableL :: "index_io \<Rightarrow> tdes16 \<Rightarrow> 'a index_world_scheme \<Rightarrow> 'a index_world_scheme option" where
  "SaveLookupTableL ix dir w = do {
     ob \<leftarrow> iHttpCacheObserver w;
     w1 \<leftarrow> (if openTries 5 KErrNone (ixTries ix) = KErrNone
           then map_option (\<lambda>bytes. w\<lparr>disk := (disk w)(iIndexPath w \<mapsto> bytes)\<rparr>) (ltExternalizeL (ixRealOut ix) dir w)
           else Some w);
     Some (w1\<lparr>iHttpCacheObserver := Some (obStartObserver (obCancel ob))\<rparr>) }"

subsection \<open>Two tables\<close>

record table2 =
  t2Entries :: "slot list"
  t2Count :: int
  t2Buckets :: "nat list list"

definition tableOf :: "'a table_world_scheme \<Rightarrow> table2" where
  "tableOf w = \<lparr>t2Entries = iEntries w, t2Count = iCount w, t2Buckets = iBuckets w\<rparr>"

definition swapIn :: "table2 \<Rightarrow> 'a table_world_scheme \<Rightarrow> 'a table_world_scheme" where
  "swapIn t w = w\<lparr>iEntries := t2Entries t, iCount := t2Count t, iBuckets := t2Buckets t\<rparr>"

text \<open>An operation on the other table.\<close>

definition onOther :: "('a table_world_scheme \<Rightarrow> ('b \<times> 'a table_world_scheme) option) \<Rightarrow> table2 \<times> 'a table_world_scheme \<Rightarrow>
    ('b \<times> table2 \<times> 'a table_world_scheme) option" where
  "onOther f tw = (case tw of (t, w) \<Rightarrow>
     map_option (\<lambda>(x, w'). (x, tableOf w', swapIn (tableOf w) w')) (f (swapIn t w)))"

definition newTable2 :: table2 where
  "newTable2 = \<lparr>t2Entries = tblConstructL, t2Count = 0, t2Buckets = evConstructL\<rparr>"

text \<open>The destructor of the table deletes the entries in its valid slots.\<close>

definition destroyTable :: "table2 \<times> 'a table_world_scheme \<Rightarrow> 'a table_world_scheme option" where
  "destroyTable tw = map_option (\<lambda>(_, _, w). w)
     (onOther (\<lambda>w. map_option (Pair ()) (foldOpt entryDelete (slotAddrs (iEntries w)) w)) tw)"

subsection \<open>Merging\<close>

text \<open>The files on disk, from the map made before the merge when there was memory for it.\<close>

definition fileKnown :: "(tdes16 \<Rightarrow> bool) option \<Rightarrow> tdes16 \<Rightarrow> 'a stream_world_scheme \<Rightarrow> bool" where
  "fileKnown onDiskFilesMap name w = (case onDiskFilesMap of Some f \<Rightarrow> f name | None \<Rightarrow> disk w name \<noteq> None)"

definition dropOther :: "int \<Rightarrow> nat \<Rightarrow> table2 \<times> 'a table_world_scheme \<Rightarrow> (table2 \<times> 'a table_world_scheme) option" where
  "dropOther pos q tw = map_option snd
     (onOther (\<lambda>w. map_option (\<lambda>w'. ((), w'\<lparr>iCount := iCount w' - 1\<rparr>)) (entryDelete q (w\<lparr>iEntries := SetDeleted (iEntries w) pos\<rparr>))) tw)"

text \<open>One round of the loop over the own slots, and one of the loop over the slots of the new table.\<close>

definition mergeOwn :: "env \<Rightarrow> (tdes16 \<Rightarrow> bool) option \<Rightarrow> nat \<Rightarrow> table2 \<times> 'a cache_world_scheme \<Rightarrow>
    (table2 \<times> 'a cache_world_scheme) option" where
  "mergeOwn env onDiskFilesMap i tw = (case tw of (t, w) \<Rightarrow>
    (if Valid (iEntries w) (int i) then do {
       (p, e) \<leftarrow> entryAt (int i) w;
       newEntry \<leftarrow> ltFind (envFold env) (iUrl e) (swapIn t w);
       case newEntry of
         Some q \<Rightarrow> do {
           e2 \<leftarrow> heap w q;
           w1 \<leftarrow> (if iLastAccessed e2 > iLastAccessed e then entryAccessedFrom (iLastAccessed e2) (iRef e2) p w else Some w);
           pos \<leftarrow> ltProbe (envFold env) (iUrl e2) (swapIn t w1);
           if Valid (t2Entries t) pos then dropOther pos q (t, w1) else Some (t, w1) }
       | None \<Rightarrow>
           if BodyDataCached e then Some (t, w)
           else do {
             name \<leftarrow> iFileName e;
             if fileKnown onDiskFilesMap name w then Some (t, w)
             else do {
               thePos \<leftarrow> ltProbe (envFold env) (iUrl e) w;
               if Valid (iEntries w) thePos
               then map_option (\<lambda>w1. (t, drainNotices w1)) (ltErase (envIo env) thePos w)
               else Some (t, w) } } }
     else Some (t, w)))"

definition mergeTake :: "env \<Rightarrow> nat \<Rightarrow> cache_entry \<Rightarrow> 'a cache_world_scheme \<Rightarrow> 'a cache_world_scheme option" where
  "mergeTake env addr e2 w = do {
     (myEntry, w1) \<leftarrow> ltInsertL (envIo env) (envCrc32 env) (envDir env) (envNow env) (iUrl e2) addr w;
     p \<leftarrow> myEntry;
     w2 \<leftarrow> entrySetState p ECacheComplete w1;
     entryAccessedFrom (iLastAccessed e2) (iRef e2) p w2 }"

definition mergeNew :: "env \<Rightarrow> (tdes16 \<Rightarrow> bool) option \<Rightarrow> (nat \<Rightarrow> nat) \<Rightarrow> nat \<Rightarrow> table2 \<times> 'a cache_world_scheme \<Rightarrow>
    (table2 \<times> 'a cache_world_scheme) option" where
  "mergeNew env onDiskFilesMap newAddr i tw = (case tw of (t, w) \<Rightarrow>
    (if Valid (t2Entries t) (int i) then do {
       (q, e2) \<leftarrow> entryAt (int i) (swapIn t w);
       pos \<leftarrow> ltProbe (envFold env) (iUrl e2) (swapIn t w);
       name \<leftarrow> iFileName e2;
       w1 \<leftarrow> (if fileKnown onDiskFilesMap name w then mergeTake env (newAddr i) e2 w else Some w);
       dropOther pos q (t, w1) }
     else Some (t, w)))"

definition MergeL :: "env \<Rightarrow> index_io \<Rightarrow> table2 \<times> 'a cache_world_scheme \<Rightarrow> (table2 \<times> 'a cache_world_scheme) option" where
  "MergeL env ix tw =
    (let onDiskFilesMap = (if ixMapOk ix then Some (\<lambda>n. disk (snd tw) n \<noteq> None) else None) in do {
       (t, w) \<leftarrow> foldOpt (mergeOwn env onDiskFilesMap) (rev [0..<length (iEntries (snd tw))]) tw;
       foldOpt (mergeNew env onDiskFilesMap (ixNewAddr ix)) (rev [0..<length (t2Entries t)]) (t, w) })"

text \<open>\<open>UpdateLookupTableL\<close> with the trap of \<open>UpdateLookupTable\<close>: a leave only destroys the new table.\<close>

definition UpdateLookupTable :: "env \<Rightarrow> index_io \<Rightarrow> 'a index_world_scheme \<Rightarrow> 'a index_world_scheme option" where
  "UpdateLookupTable env ix w = do {
     (err, tw) \<leftarrow> onOther (OpenLookupTableL ix (envDir env) (iIndexPath w)) (newTable2, w);
     tw1 \<leftarrow> (if err = KErrNone then MergeL env ix tw else Some tw);
     destroyTable tw1 }"

text \<open>\<open>RunL\<close> of the observer.\<close>

definition obRunL :: "env \<Rightarrow> index_io \<Rightarrow> 'a index_world_scheme \<Rightarrow> 'a index_world_scheme option" where
  "obRunL env ix w = do {
     ob \<leftarrow> iHttpCacheObserver w;
     ob1 \<leftarrow> obQueue ob;
     UpdateLookupTable env ix (w\<lparr>iHttpCacheObserver := Some ob1\<rparr>) }"

subsection \<open>The entries and the files\<close>

text \<open>The map of the files on disk: size and mark of each.\<close>

type_synonym file_hash = "tdes16 \<Rightarrow> (nat \<times> int) option"

definition KCacheFileNeedsDelete :: int where "KCacheFileNeedsDelete = 1"
definition KCacheFileNoDelete :: int where "KCacheFileNoDelete = 0"

definition GenerateCacheContentHashMapL :: "int \<Rightarrow> (tdes16 \<Rightarrow> tdes8 option) \<Rightarrow> file_hash" where
  "GenerateCacheContentHashMapL aInitialValue d = (\<lambda>n. map_option (\<lambda>f. (length f, aInitialValue)) (d n))"

definition markFile :: "tdes16 \<Rightarrow> int \<Rightarrow> file_hash \<Rightarrow> file_hash" where
  "markFile n v h = (case h n of Some (sz, _) \<Rightarrow> h(n \<mapsto> (sz, v)) | None \<Rightarrow> h)"

text \<open>One entry of the iteration: the marks and the list of bad URLs.\<close>

definition validateEntry :: "'a cache_world_scheme \<Rightarrow> nat \<Rightarrow> file_hash \<times> tdes8 list \<Rightarrow> (file_hash \<times> tdes8 list) option" where
  "validateEntry w p st = do {
     e \<leftarrow> heap w p; name \<leftarrow> iFileName e;
     Some (case st of (hash, bad) \<Rightarrow>
       (case hash name of
          Some (sz, _) \<Rightarrow>
            if (of_nat sz :: 32 word) = iBodySize e then (markFile name KCacheFileNoDelete hash, bad)
            else (markFile name KCacheFileNeedsDelete hash, bad @ [iUrl e])
        | None \<Rightarrow> (hash, bad @ [iUrl e]))) }"

definition removeBad :: "env \<Rightarrow> tdes8 \<Rightarrow> 'a cache_world_scheme \<Rightarrow> 'a cache_world_scheme option" where
  "removeBad env u w = map_option snd (chTableRemove env u w)"

definition ValidateCacheEntriesL :: "env \<Rightarrow> tdes16 \<Rightarrow> file_hash \<Rightarrow> 'a cache_world_scheme \<Rightarrow>
    (file_hash \<times> 'a cache_world_scheme) option" where
  "ValidateCacheEntriesL env indexFile aDiskContent w = do {
     let ps = iterateEntries (Suc (length (iEntries w))) (iEntries w) (BeginEntryIteration w);
     (hash, bad) \<leftarrow> foldOpt (validateEntry w) ps (markFile indexFile KCacheFileNoDelete aDiskContent, []);
     w1 \<leftarrow> foldOpt (removeBad env) bad w;
     Some (hash, w1) }"

subsection \<open>A concrete cache\<close>

text \<open>A cache that is observed, with one saved entry.\<close>

lemma new_world_ok:
  assumes "heap w = Map.empty" "iBuckets w = evConstructL" "iEntries w = tblConstructL" "iCount w = 0" "iContentSize w = 0"
  shows "lt_ok w"
proof -
  have "tbl_ok u tblConstructL" for u
    unfolding tblConstructL_def by (rule tbl_ok_empty) (simp add: KHttpCacheLookupTableSize_def)
  then show ?thesis using assms
    by (auto simp: lt_ok_def tblConstructL_def tblCount_def ev_ok_def filed_def evConstructL_def KHttpCacheBucketNum_def)
qed

definition newIndexWorld :: "tdes16 \<Rightarrow> index_world" where
  "newIndexWorld path = cache_world.extend (newCacheWorld 1000 True)
     \<lparr>iHttpCacheObserver = Some \<lparr>obActive = True, obStatus = None\<rparr>, iIndexPath = path\<rparr>"

lemma newIndexWorld_fields [simp]:
  "heap (newIndexWorld path) = Map.empty" "iBuckets (newIndexWorld path) = evConstructL" "iEntries (newIndexWorld path) = tblConstructL"
  "iCount (newIndexWorld path) = 0" "iContentSize (newIndexWorld path) = 0" "iSize (newIndexWorld path) = 1000"
  "iCriticalLevel (newIndexWorld path) = 0"
  by (simp_all add: newIndexWorld_def newCacheWorld_def cache_world.defs)

definition calm_index :: index_io where
  "calm_index = \<lparr>ixTries = [], ixReadErr = KErrNone, ixAlloc = (\<lambda>_. True), ixRealIn = (\<lambda>b. uint (un32 (take 4 b))),
     ixRealOut = flatOut, ixAddrs = (\<lambda>n. [1..<Suc n]), ixMapOk = True, ixNewAddr = Suc\<rparr>"

lemma one_saved_in_index:
  "\<exists>(w :: index_world) e n. lt_ok w \<and> heap w = [1 \<mapsto> e] \<and> savedEntry e [104] n [65, 58] [1, 2, 3] \<and> disk w n = Some [1, 2, 3] \<and>
     iContentSize w = 5 \<and> n \<noteq> [67] \<and> storable [67] e \<and> ltToWrite w = [1]"
proof -
  let ?w0 = "newIndexWorld []"
  have ok0: "lt_ok ?w0" by (rule new_world_ok) simp_all
  have p: "heap ?w0 (envAddr calm_env) = None" "growable (iEntries ?w0)" "\<forall>p e. heap ?w0 p = Some e \<longrightarrow> \<not> des_eqF (envFold calm_env) (iUrl e) [104]"
    using newTable_growable by simp_all
  have io: "io_quiet (envIo calm_env) ?w0 (int (length ([65, 58] :: tdes8) + length ([1, 2, 3] :: tdes8)))"
    by (simp add: calm_env_def calm_def io_quiet_def IsDiskSpaceAvailable_def)
  have fit: "sint (iContentSize ?w0 + of_nat (length ([65, 58] :: tdes8))) \<le> sint (iSize ?w0)"
    "sint (iContentSize ?w0 + of_nat (length ([65, 58] :: tdes8)) + of_nat (length ([1, 2, 3] :: tdes8))) \<le> sint (iSize ?w0)"
    by simp_all
  have ne: "([65, 58] :: tdes8) \<noteq> []" "length ([65, 58] :: tdes8) < 65536" "([1, 2, 3] :: tdes8) \<noteq> []" by simp_all
  obtain w :: index_world and e n where w: "lt_ok w" "heap w = (heap ?w0)(envAddr calm_env \<mapsto> e)" "savedEntry e [104] n [65, 58] [1, 2, 3]"
    "n = GenerateNameLC (envCrc32 calm_env) [104] (envDir calm_env)" "disk w n = Some [1, 2, 3]" "iContentSize w = 5"
    using SaveL_spec [OF ok0 p ne io fit] by auto
  have "length n \<noteq> 1" using GenerateNameLC_path [of "envCrc32 calm_env" "[104]" "envDir calm_env"] w(4)
    by (simp add: entryPath_def KFilenameLength_def)
  then have n: "n \<noteq> [67]" by auto
  have h: "heap w = [1 \<mapsto> e]" using w(2) by (simp add: calm_env_def)
  have "storable [67] e"
    using w(3,4) GenerateNameLC_path [of "envCrc32 calm_env" "[104]" "[67]"]
    by (auto simp: savedEntry_def storable_def calm_env_def)
  moreover have "ltToWrite w = [1]" using one_to_write [OF w(1) h] w(3) by (simp add: savedEntry_def)
  ultimately show ?thesis using w(1,3,5,6) n h by blast
qed

end
