(* ===== verification/FileWriteRun.thy ===== *)
theory FileWriteRun
  imports IndexMerge
begin

text \<open>
  The step of the active object that writes postponed bodies (\<open>CHttpCacheFileWriteHandler::RunL\<close>,
  cache/src/HttpCacheFileWriteHandler.cpp). The scheduler clears \<open>iActive\<close> before it calls
  \<open>RunL\<close> with the completion code. A flush runs as the writer of the entry, whose completions
  \<open>worldWriterRun\<close> delivers; the writer signals the status of the handler when it is done.
\<close>

text \<open>The object that has been written leaves the queue; a failed one leaves the cache.\<close>

definition fwFinish :: "env \<Rightarrow> symerr \<Rightarrow> 'a cache_world_scheme \<Rightarrow> 'a cache_world_scheme option" where
  "fwFinish env result w =
    (case iObjectFlushing w of
       None \<Rightarrow> Some w
     | Some p \<Rightarrow>
       map_option (\<lambda>w1. w1\<lparr>iObjectFlushing := None\<rparr>)
        (if p \<in> set (iObjectQueue w) then do {
           e \<leftarrow> heap w p;
           let w1 = updEntry p ClearDeleteObserver (w\<lparr>iObjectQueue := remove1 p (iObjectQueue w)\<rparr>);
           if result \<noteq> KErrNone then map_option snd (RemoveL env (iUrl e) w1) else Some w1 }
         else Some w))"

text \<open>The loop that drops items without a body from the top of the queue.\<close>

fun dropEmpty :: "nat list \<Rightarrow> 'a cache_world_scheme \<Rightarrow> 'a cache_world_scheme option" where
  "dropEmpty [] w = Some (w\<lparr>iObjectQueue := []\<rparr>)"
| "dropEmpty (p # ps) w = do {
     e \<leftarrow> heap w p;
     if iBodySize e = 0 then dropEmpty ps (updEntry p ClearDeleteObserver w)
     else Some (w\<lparr>iObjectQueue := p # ps\<rparr>) }"

text \<open>The next flush; the status stays pending unless the stream handler completes it at once.\<close>

definition fwStartFlush :: "env \<Rightarrow> nat \<Rightarrow> 'a cache_world_scheme \<Rightarrow> 'a cache_world_scheme option" where
  "fwStartFlush env p w = do {
     (ok, completed, w1) \<leftarrow> FlushAsync (envIo env) p (w\<lparr>fwActive := True, fwStatus := None\<rparr>);
     Some (w1\<lparr>fwStatus := (if completed = Some True then Some KErrNone else None), iObjectFlushing := Some p\<rparr>) }"

definition fwNext :: "env \<Rightarrow> index_io \<Rightarrow> 'a index_world_scheme \<Rightarrow> 'a index_world_scheme option" where
  "fwNext env ix w =
    (if iWaitTimerActive w then Some w
     else do {
       w1 \<leftarrow> dropEmpty (iObjectQueue w) w;
       w2 \<leftarrow> (if iObjectQueue w1 = [] then Some w1
             else do {
               ob \<leftarrow> iHttpCacheObserver w1;
               if obUpdated ob then obRunL env ix w1 else Some w1 });
       if iObjectQueue w2 \<noteq> [] \<and> \<not> fwActive w2 then fwStartFlush env (hd (iObjectQueue w2)) w2
       else do {
         w3 \<leftarrow> SaveLookupTableL ix (envDir env) w2;
         Some (w3\<lparr>iLowMemoryState := False\<rparr>) } })"

definition fwRunL :: "env \<Rightarrow> index_io \<Rightarrow> symerr \<Rightarrow> 'a index_world_scheme \<Rightarrow> 'a index_world_scheme option" where
  "fwRunL env ix result w = do {
     w1 \<leftarrow> fwFinish env result (w\<lparr>fwActive := False, fwStatus := Some result\<rparr>);
     fwNext env ix w1 }"

text \<open>The completions \<open>cs\<close> of the entry's writer; the file it writes is the body file.\<close>

definition worldWriterRun :: "nat \<Rightarrow> (symerr \<times> nat) list \<Rightarrow> 'a cache_world_scheme \<Rightarrow> 'a cache_world_scheme option" where
  "worldWriterRun p cs w = do {
     e \<leftarrow> heap w p; name \<leftarrow> iFileName e; wr \<leftarrow> writers w p;
     wr' \<leftarrow> wrRun cs (wr\<lparr>wrSource := e\<rparr>);
     Some (w\<lparr>heap := (heap w)(p \<mapsto> wrSource wr'), writers := (writers w)(p \<mapsto> wr'),
             disk := (disk w)(name \<mapsto> wrFile wr'), fwStatus := iSignalStatus wr'\<rparr>) }"

subsection \<open>A deleted entry that is being written\<close>

text \<open>
  Deleting the entry that is being flushed: its destructor tells the queue, which keeps an object
  that is in flight.
\<close>

lemma fwEntryDeleted_flushing:
  "iObjectFlushing w = Some p \<Longrightarrow> fwActive w \<Longrightarrow> fwEntryDeleted p w = w\<lparr>iWaitTimerActive := True\<rparr>"
  by (simp add: fwEntryDeleted_def)

lemma drain_flushing:
  assumes "iObjectFlushing w = Some p" "fwActive w" "p \<in> set (iObjectQueue w)" "\<forall>n \<in> set (deleteNotices w). snd n = p"
  shows "iObjectFlushing (drainNotices w) = Some p \<and> p \<in> set (iObjectQueue (drainNotices w))"
proof -
  have "iObjectFlushing (fold (\<lambda>(obs, p) w. if obs = fwObserver then fwEntryDeleted p w else w) ns v) = Some p \<and>
      p \<in> set (iObjectQueue (fold (\<lambda>(obs, p) w. if obs = fwObserver then fwEntryDeleted p w else w) ns v))"
    if "\<forall>n \<in> set ns. snd n = p" "iObjectFlushing v = Some p" "fwActive v" "p \<in> set (iObjectQueue v)" for ns and v :: "'a cache_world_scheme"
    using that by (induction ns arbitrary: v) (auto simp: fwEntryDeleted_flushing)
  then show ?thesis using assms by (simp add: drainNotices_def)
qed

lemma evRemove_queue:
  "evRemove p w = Some w' \<Longrightarrow> iObjectFlushing w' = iObjectFlushing w \<and> iObjectQueue w' = iObjectQueue w \<and> fwActive w' = fwActive w \<and>
     deleteNotices w' = deleteNotices (w :: 'a cache_world_scheme)"
  by (auto simp: evRemove_def bucketRemove_def split: option.splits if_splits)

lemma entryDelete_queue:
  assumes "entryDelete p w = Some (w' :: 'a cache_world_scheme)"
  shows "iObjectFlushing w' = iObjectFlushing w \<and> iObjectQueue w' = iObjectQueue w \<and> fwActive w' = fwActive w \<and>
    (\<exists>ns. deleteNotices w' = deleteNotices w @ ns \<and> (\<forall>n \<in> set ns. snd n = p))"
  using assms evRemove_queue by (fastforce simp: entryDelete_def split: option.splits if_splits)

lemma shErase_queue:
  assumes "shErase io p w = Some (w' :: 'a cache_world_scheme)"
  shows "iObjectFlushing w' = iObjectFlushing w \<and> iObjectQueue w' = iObjectQueue w \<and> fwActive w' = fwActive w \<and>
    deleteNotices w' = deleteNotices w"
  using assms by (auto simp: shErase_def worldCancelBodyWrite_def deleteFile_def Let_def split: bind_splits option.splits if_splits)

lemma ltErase_queue:
  assumes "ltErase io (int i) w = Some (w' :: 'a cache_world_scheme)" "i < length (iEntries w)" "iEntries w ! i = SEntry p"
  shows "iObjectFlushing w' = iObjectFlushing w \<and> iObjectQueue w' = iObjectQueue w \<and> fwActive w' = fwActive w \<and>
    (\<exists>ns. deleteNotices w' = deleteNotices w @ ns \<and> (\<forall>n \<in> set ns. snd n = p))"
proof -
  obtain w1 where w1: "shErase io p w = Some w1" using assms by (auto simp: ltErase_def split: bind_splits)
  then obtain w2 where w2: "entryDelete p (w1\<lparr>iEntries := SetDeleted (iEntries w1) (int i)\<rparr>) = Some w2" "w' = w2\<lparr>iCount := iCount w2 - 1\<rparr>"
    using assms by (auto simp: ltErase_def split: bind_splits)
  show ?thesis using shErase_queue [OF w1] entryDelete_queue [OF w2(1)] w2(2) by auto
qed

text \<open>
  Removing an entry while its body is being written leaves the write queue with a dangling
  pointer. The entry is complete, so \<open>RemoveL\<close> erases and deletes it; the queue ignores the
  destructor's notice because the object is in flight, and when the write completes, with
  whatever code, \<open>RunL\<close> uses the deleted entry.
\<close>

theorem remove_while_flushing_faults:
  assumes "lt_ok w" "heap w p = Some e" "iState e = ECacheComplete" "iBodySize e \<noteq> 0" "one_url_each (envFold env) w"
    and "iObjectFlushing w = Some p" "fwActive w" "p \<in> set (iObjectQueue w)" "deleteNotices w = []"
  shows "\<exists>w'. RemoveL env (iUrl e) w = Some (KErrNone, w') \<and> heap w' p = None \<and> fwRunL env' ix result w' = None"
proof -
  obtain i where i: "ltProbe (envFold env) (iUrl e) w = Some (int i)" "i < length (iEntries w)" "iEntries w ! i = SEntry p"
    using ltProbe_finds [OF assms(1,2,5)] by blast
  have at: "entryAt (int i) w = Some (p, e)" using i assms(2) by (simp add: entryAt_def)
  have v: "Valid (iEntries w) (int i)" using i by auto
  obtain w1 where w1: "ltErase (envIo env) (int i) w = Some w1" "heap w1 = (heap w)(p := None)"
    using ltErase_ok [OF assms(1) i(2,3), of "envIo env"] by blast
  let ?w' = "drainNotices w1"
  have q1: "iObjectFlushing w1 = Some p" "fwActive w1" "p \<in> set (iObjectQueue w1)" "\<forall>n \<in> set (deleteNotices w1). snd n = p"
    using ltErase_queue [OF w1(1) i(2,3)] assms(6-9) by auto
  note q = drain_flushing [OF q1]
  have h: "heap ?w' p = None" using w1(2) drainNotices_same [of w1] by (simp add: same_cache_def)
  have "ltFind (envFold env) (iUrl e) w = Some (Some p)" using i at v assms(3,4) by (simp add: ltFind_def)
  then have "RemoveL env (iUrl e) w = Some (KErrNone, ?w')"
    using assms(2,3) i at v w1(1) by (simp add: RemoveL_def chTableRemove_def ltRemove_def)
  moreover have "fwRunL env' ix result ?w' = None" using q h by (simp add: fwRunL_def fwFinish_def)
  ultimately show ?thesis using h by blast
qed

theorem remove_while_flushing_faults_witness:
  "\<exists>w w'. lt_ok (w :: index_world) \<and> RemoveL calm_env [104] w = Some (KErrNone, w') \<and>
     fwRunL calm_env calm_index KErrCancel w' = None"
proof -
  obtain w :: index_world and e n where w: "lt_ok w" "heap w = [1 \<mapsto> e]" "savedEntry e [104] n [65, 58] [1, 2, 3]"
    using one_saved_in_index by blast
  define v where "v = w\<lparr>iObjectFlushing := Some 1, fwActive := True, iObjectQueue := [1], deleteNotices := []\<rparr>"
  have ok: "lt_ok v" by (rule lt_ok_cong [OF w(1)]) (simp_all add: v_def)
  have e: "heap v 1 = Some e" "iState e = ECacheComplete" "iBodySize e \<noteq> 0" "iUrl e = [104]"
    using w(2,3) by (simp_all add: v_def savedEntry_def)
  have one: "one_url_each (envFold calm_env) v" using w(2) by (auto simp: v_def one_url_each_def urlOf_def split: if_splits)
  have q: "iObjectFlushing v = Some 1" "fwActive v" "1 \<in> set (iObjectQueue v)" "deleteNotices v = []" by (simp_all add: v_def)
  show ?thesis
    using remove_while_flushing_faults [OF ok e(1-3) one q, where env' = calm_env and ix = calm_index and result = KErrCancel] ok
    unfolding e(4) by blast
qed

subsection \<open>A round of the writer\<close>

lemma segCompress_count [simp]: "segCount (segCompress ok b) = segCount b"
  by (simp add: segCompress_def segCount_def Let_def)

lemma segCompress_contents [simp]: "segContents (segCompress ok b) = segContents b"
proof -
  have same: "map segData (xs[i := (xs ! i)\<lparr>segMax := m\<rparr>]) = map segData xs" for xs :: "seg list" and i m
    by (induction xs arbitrary: i) (auto split: nat.split)
  show ?thesis by (simp add: segCompress_def segContents_def Let_def same)
qed

text \<open>\<open>RunL\<close> with an idle writer starts the write of the first object that has a body.\<close>

definition flushingEntry :: "bool \<Rightarrow> cache_entry \<Rightarrow> cache_entry" where
  "flushingEntry reallocOk e = SetDelayedWriteInProgress True
     (BodyWriteInProgress (e\<lparr>iCacheBuffer := segCompress reallocOk (iCacheBuffer e), iWriteHelper := True\<rparr>))"

lemma flushingEntry_fields [simp]:
  "iFileName (flushingEntry r e) = iFileName e" "segContents (iCacheBuffer (flushingEntry r e)) = segContents (iCacheBuffer e)"
  "segCount (iCacheBuffer (flushingEntry r e)) = segCount (iCacheBuffer e)"
  by (simp_all add: flushingEntry_def SetDelayedWriteInProgress_def setWriteStateBit_def BodyWriteInProgress_def
      SetBodyDataPartiallyWritten_def)

lemma FlushAsync_starts:
  assumes "heap w p = Some e" "iFileName e = Some n" "HeaderData e = Some hdr" "segLength (iCacheBuffer e) > 0"
    and "ioReplace io" "ioHeaderAlloc io" "IsDiskSpaceAvailable io (segLength (iCacheBuffer e) + int (length hdr)) w"
  shows "\<exists>wr. FlushAsync io p w = Some (True, Some False,
      w\<lparr>heap := (heap w)(p \<mapsto> flushingEntry (ioRealloc io) e), disk := (disk w)(n \<mapsto> []), writers := (writers w)(p \<mapsto> wr)\<rparr>) \<and>
    wrFile wr = [] \<and> iBodyPart wr = 0 \<and> wrPending wr = None \<and> iSignalStatus wr = None"
proof -
  have c: "CreateNewBodyFile io p w = Some (True, w\<lparr>disk := (disk w)(n \<mapsto> [])\<rparr>)"
    using assms(1,2,5) by (simp add: CreateNewBodyFile_def)
  let ?e2 = "e\<lparr>iCacheBuffer := segCompress (ioRealloc io) (iCacheBuffer e), iWriteHelper := True\<rparr>"
  have a: "WriteBodyDataAsync (ioHeaderAlloc io) (e\<lparr>iCacheBuffer := segCompress (ioRealloc io) (iCacheBuffer e)\<rparr>) =
      (BodyWriteInProgress ?e2, Some (wrConstructL ?e2))"
    using assms(6) by (simp add: WriteBodyDataAsync_def Let_def)
  have nz: "segLength (iCacheBuffer e) + int (length hdr) \<noteq> 0" "segLength (iCacheBuffer e) \<noteq> 0" using assms(4) by linarith+
  show ?thesis
    using assms(1-3,7) c a nz
    by (intro exI [of _ "wrConstructL ?e2"]) (simp add: FlushAsync_def Let_def updEntry_def flushingEntry_def wrConstructL_def)
qed

lemma fwRunL_starts:
  assumes q: "iObjectQueue w = p # ps" "iObjectFlushing w = None" "\<not> iWaitTimerActive w"
    and ob: "iHttpCacheObserver w = Some ob" "\<not> obUpdated ob"
    and e: "heap w p = Some e" "iFileName e = Some n" "HeaderData e = Some hdr" "iBodySize e \<noteq> 0" "segLength (iCacheBuffer e) > 0"
    and io: "ioReplace (envIo env)" "ioHeaderAlloc (envIo env)"
      "IsDiskSpaceAvailable (envIo env) (segLength (iCacheBuffer e) + int (length hdr)) w"
  shows "\<exists>w1 wr. fwRunL env ix result w = Some w1 \<and> heap w1 = (heap w)(p \<mapsto> flushingEntry (ioRealloc (envIo env)) e) \<and>
    writers w1 p = Some wr \<and> wrFile wr = [] \<and> iBodyPart wr = 0 \<and> wrPending wr = None \<and> iSignalStatus wr = None \<and>
    iObjectQueue w1 = p # ps \<and> iObjectFlushing w1 = Some p \<and> fwActive w1 \<and> fwStatus w1 = None \<and> iWaitTimerActive w1 = False"
proof -
  let ?v = "w\<lparr>fwActive := False, fwStatus := Some result\<rparr>"
  let ?u = "?v\<lparr>iObjectQueue := p # ps, fwActive := True, fwStatus := None\<rparr>"
  have eu: "heap ?u p = Some e" using e by simp
  have iou: "IsDiskSpaceAvailable (envIo env) (segLength (iCacheBuffer e) + int (length hdr)) ?u"
    using io(3) by (simp add: IsDiskSpaceAvailable_def split: option.splits)
  obtain wr where wr: "FlushAsync (envIo env) p ?u = Some (True, Some False,
      ?u\<lparr>heap := (heap ?u)(p \<mapsto> flushingEntry (ioRealloc (envIo env)) e), disk := (disk ?u)(n \<mapsto> []), writers := (writers ?u)(p \<mapsto> wr)\<rparr>)"
    "wrFile wr = []" "iBodyPart wr = 0" "wrPending wr = None" "iSignalStatus wr = None"
    using FlushAsync_starts [OF eu e(2,3,5) io(1,2) iou] by blast
  have "fwFinish env result ?v = Some ?v" using q(2) by (simp add: fwFinish_def)
  moreover have "dropEmpty (iObjectQueue ?v) ?v = Some (?v\<lparr>iObjectQueue := p # ps\<rparr>)" using q(1) e by simp
  ultimately have "fwRunL env ix result w = Some (?u\<lparr>heap := (heap w)(p \<mapsto> flushingEntry (ioRealloc (envIo env)) e),
      disk := (disk w)(n \<mapsto> []), writers := (writers w)(p \<mapsto> wr), fwStatus := None, iObjectFlushing := Some p\<rparr>)"
    using wr(1) q(3) ob by (simp add: fwRunL_def fwNext_def fwStartFlush_def)
  then show ?thesis using wr(2-5) q(3) by auto
qed

text \<open>
  C17: a postponed body reaches the disk. With nothing in flight, \<open>RunL\<close> starts the write of the
  first object of the queue; after one completion of the writer for itself and one for each
  segment its file holds exactly the buffered body, the handler is signalled, and its next step
  takes the object off the queue, with the buffer empty and the body no longer marked as cached.
\<close>

theorem postponed_body_is_written:
  assumes q: "iObjectQueue w = p # ps" "iObjectFlushing w = None" "\<not> iWaitTimerActive w"
    and ob: "iHttpCacheObserver w = Some ob" "\<not> obUpdated ob"
    and e: "heap w p = Some e" "iFileName e = Some n" "HeaderData e = Some hdr" "iBodySize e \<noteq> 0" "segLength (iCacheBuffer e) > 0"
    and io: "ioReplace (envIo env)" "ioHeaderAlloc (envIo env)"
      "IsDiskSpaceAvailable (envIo env) (segLength (iCacheBuffer e) + int (length hdr)) w"
    and cs: "length cs = segCount (iCacheBuffer e)" "\<forall>c \<in> set cs. fst c = KErrNone"
  shows "\<exists>w1 w2 w3 e3. fwRunL env ix result w = Some w1 \<and> worldWriterRun p ((KErrNone, 0) # cs) w1 = Some w2 \<and>
    disk w2 n = Some (segContents (iCacheBuffer e)) \<and> fwStatus w2 = Some KErrNone \<and>
    fwFinish env KErrNone (w2\<lparr>fwActive := False\<rparr>) = Some w3 \<and> iObjectQueue w3 = ps \<and> iObjectFlushing w3 = None \<and>
    heap w3 p = Some e3 \<and> \<not> BodyDataCached e3 \<and> segContents (iCacheBuffer e3) = [] \<and> disk w3 = disk w2"
proof -
  let ?f = "flushingEntry (ioRealloc (envIo env)) e"
  obtain w1 wr where w1: "fwRunL env ix result w = Some w1" "heap w1 = (heap w)(p \<mapsto> ?f)"
    "writers w1 p = Some wr" "wrFile wr = []" "iBodyPart wr = 0" "wrPending wr = None" "iSignalStatus wr = None"
    "iObjectQueue w1 = p # ps" "iObjectFlushing w1 = Some p"
    using fwRunL_starts [OF q ob e io] by metis
  obtain ds s k where ds: "(KErrNone, 0) # cs = ds @ [(s, k)]" by (metis list.distinct(1) rev_exhaust surj_pair)
  have all: "\<forall>c \<in> set (ds @ [(s, k)]). fst c = KErrNone" unfolding ds [symmetric] using cs(2) by simp
  then have s: "s = KErrNone" by simp
  have "length ((KErrNone, 0) # cs) = length (ds @ [(s, k)])" using ds by simp
  then have n: "iBodyPart (wr\<lparr>wrSource := ?f\<rparr>) + length ds = segCount (iCacheBuffer (wrSource (wr\<lparr>wrSource := ?f\<rparr>)))"
    using cs(1) w1(5) by simp
  have sig: "iSignalStatus (wr\<lparr>wrSource := ?f\<rparr>) = None" using w1(7) by simp
  have body: "concat (map segData (iBufferList (iCacheBuffer ?f))) = segContents (iCacheBuffer e)"
    using flushingEntry_fields(2) [of "ioRealloc (envIo env)" e] by (simp add: segContents_def)
  obtain wr' where wr': "wrRun ((KErrNone, 0) # cs) (wr\<lparr>wrSource := ?f\<rparr>) = Some wr'"
    "iSignalStatus wr' = Some KErrNone" "wrSource wr' = BodyWriteComplete ?f" "wrFile wr' = segContents (iCacheBuffer e)"
    using wrRun_spec [OF n sig, of s k] all w1(4-6) body unfolding ds s by (auto simp del: wrRun.simps)
  define w2 where "w2 = w1\<lparr>heap := (heap w1)(p \<mapsto> BodyWriteComplete ?f), writers := (writers w1)(p \<mapsto> wr'),
      disk := (disk w1)(n \<mapsto> segContents (iCacheBuffer e)), fwStatus := Some KErrNone\<rparr>"
  have w2: "worldWriterRun p ((KErrNone, 0) # cs) w1 = Some w2"
    using w1(2,3) wr' e(2) by (simp add: worldWriterRun_def w2_def del: wrRun.simps)
  define e3 where "e3 = ClearDeleteObserver (BodyWriteComplete ?f)"
  have e3: "\<not> BodyDataCached e3" "segContents (iCacheBuffer e3) = []"
    using BodyWriteComplete_facts [of ?f] by (simp_all add: e3_def ClearDeleteObserver_def BodyDataCached_def writeStateBit_def)
  have "fwFinish env KErrNone (w2\<lparr>fwActive := False\<rparr>) = Some ((updEntry p ClearDeleteObserver
      (w2\<lparr>fwActive := False, iObjectQueue := ps\<rparr>))\<lparr>iObjectFlushing := None\<rparr>)"
    using w1(8,9) by (simp add: fwFinish_def w2_def)
  then show ?thesis using w1(1) w2 e3
    by (intro exI conjI) (assumption | rule refl | simp add: w2_def e3_def updEntry_def)+
qed

text \<open>One postponed entry with a body of two segments.\<close>

definition postponedEntry :: cache_entry where
  "postponedEntry = (entryNewL [104])\<lparr>iFileName := Some [67], iHeaderBuffer := Some [65], iBodySize := 3,
     iCacheBuffer := (segNewL 2 1)\<lparr>iBufferList := [\<lparr>segData = [1, 2], segMax = 2\<rparr>, \<lparr>segData = [3], segMax = 2\<rparr>]\<rparr>\<rparr>"

theorem postponed_body_is_written_witness:
  "\<exists>w1 w2. fwRunL calm_env calm_index KErrNone ((newIndexWorld [68])\<lparr>heap := [1 \<mapsto> postponedEntry], iObjectQueue := [1],
       iObjectFlushing := None, iWaitTimerActive := False\<rparr>) = Some w1 \<and>
     worldWriterRun 1 [(KErrNone, 0), (KErrNone, 0), (KErrNone, 0)] w1 = Some (w2 :: index_world) \<and> disk w2 [67] = Some [1, 2, 3]"
proof -
  let ?w = "(newIndexWorld [68])\<lparr>heap := [1 \<mapsto> postponedEntry], iObjectQueue := [1], iObjectFlushing := None, iWaitTimerActive := False\<rparr>"
  have q: "iObjectQueue ?w = 1 # []" "iObjectFlushing ?w = None" "\<not> iWaitTimerActive ?w"
    "iHttpCacheObserver ?w = Some \<lparr>obActive = True, obStatus = None\<rparr>" "\<not> obUpdated \<lparr>obActive = True, obStatus = None\<rparr>"
    by (simp_all add: newIndexWorld_def cache_world.defs obUpdated_def)
  have e: "heap ?w 1 = Some postponedEntry" "iFileName postponedEntry = Some [67]" "HeaderData postponedEntry = Some [65]"
    "iBodySize postponedEntry \<noteq> 0" "segLength (iCacheBuffer postponedEntry) > 0"
    by (simp_all add: postponedEntry_def HeaderData_def segLength_def segNewL_def)
  have io: "ioReplace (envIo calm_env)" "ioHeaderAlloc (envIo calm_env)"
    "IsDiskSpaceAvailable (envIo calm_env) (segLength (iCacheBuffer postponedEntry) + int (length [65 :: byte])) ?w"
    by (simp_all add: calm_env_def calm_def IsDiskSpaceAvailable_def postponedEntry_def segLength_def segNewL_def)
  have cs: "length [(KErrNone, 0 :: nat), (KErrNone, 0)] = segCount (iCacheBuffer postponedEntry)"
    "\<forall>c \<in> set [(KErrNone, 0 :: nat), (KErrNone, 0)]. fst c = KErrNone"
    by (simp_all add: postponedEntry_def segCount_def segNewL_def)
  have body: "segContents (iCacheBuffer postponedEntry) = [1, 2, 3]" by (simp add: postponedEntry_def segContents_def segNewL_def)
  show ?thesis
    using postponed_body_is_written [OF q e io cs, of calm_index KErrNone] unfolding body by blast
qed

end
