(* ===== verification/MergeSpec.thy ===== *)
theory MergeSpec
  imports IndexMerge
begin

text \<open>
  What a merge does to the running cache: the entries it takes over are unusable, and reading the
  other index replaces the byte count of this cache. Then the check against the disk: what it
  leaves in the table has its file, and the file is marked as not to be deleted.
\<close>

subsection \<open>An entry that is taken over\<close>

lemma InitialiseCacheEntryL_disk:
  assumes "InitialiseCacheEntryL io crc32 dir p w = Some w'" "ioDelete io"
  shows "\<exists>e n. heap w' p = Some e \<and> iFileName e = Some n \<and> disk w' n = None"
  using assms
  by (auto simp: InitialiseCacheEntryL_def Let_def entrySetState_def deleteFile_def SetFileNameL_def split: bind_splits option.splits)

lemma ltInsertL_disk:
  assumes "ltInsertL io crc32 dir now u p w = Some (Some p, w')" "ioDelete io"
  shows "\<exists>e n. heap w' p = Some e \<and> iFileName e = Some n \<and> disk w' n = None"
  using assms InitialiseCacheEntryL_disk
  by (auto simp: ltInsertL_def Let_def split: bind_splits if_splits)

lemma entryAccessedFrom_empty:
  assumes ok: "lt_ok w" and e: "heap w p = Some e" "iEvictionCandidate e" "iBodySize e = 0" and ref: "r \<noteq> 0"
  shows "\<exists>w'. entryAccessedFrom la r p w = Some w' \<and> lt_ok w' \<and> heap w' = (heap w)(p \<mapsto> e\<lparr>iLastAccessed := la, iRef := r\<rparr>) \<and>
    disk w' = disk w"
proof -
  let ?f = "e\<lparr>iLastAccessed := la, iRef := r\<rparr>"
  define w1 where "w1 = updEntry p (\<lambda>_. ?f) w"
  have u: "updEntry p (\<lambda>e. e\<lparr>iLastAccessed := la, iRef := r\<rparr>) w = w1" using e by (simp add: w1_def updEntry_def)
  have h1: "heap w1 = (heap w)(p \<mapsto> ?f)" using e by (auto simp: w1_def fun_eq_iff)
  obtain w' where w': "evAccessed p w1 = Some w'" "ev_ok w'" "heap w' = heap w1"
    using evAccessed_empty [OF lt_okD(4) [OF ok] e, of ?f w1] e ref by (auto simp: w1_def)
  have "ev_frame w w1" unfolding w1_def by (rule ev_frame_basic)
  then have fr: "ev_frame w w'" using evAccessed_ev_frame [OF w'(1)] by (rule ev_frame_trans)
  note f = ev_frame_fields [OF fr]
  have "lt_ok w'"
    by (rule lt_ok_upd [OF ok e(1), of w' ?f]) (use w' h1 f lt_okD(6) [OF ok e(1)] in \<open>auto simp: entrySpaceOf_def\<close>)
  then show ?thesis using e w' h1 f u by (auto simp: entryAccessedFrom_def Let_def)
qed



subsection \<open>The byte count after a merge\<close>

lemma empty_table_probe: "\<not> Valid tblConstructL i"
  by (auto simp: Valid_def Empty_def Deleted_def BoundaryCheck_def tblConstructL_def)

lemma empty_table_find: "t2Entries t = tblConstructL \<Longrightarrow> ltFind f key (swapIn t w) = Some None"
proof -
  assume t: "t2Entries t = tblConstructL"
  have "HashUrl (length tblConstructL) key < length tblConstructL"
    by (rule HashUrl_lt) (simp add: tblConstructL_def KHttpCacheLookupTableSize_def)
  then have "Empty tblConstructL (int (HashUrl (length tblConstructL) key))"
    by (simp add: tblConstructL_def)
  then have "ltProbe f key (swapIn t w) = Some (int (HashUrl (length tblConstructL) key))"
    by (simp add: ltProbe_def swapIn_def t ProbeFind_def probeFind.simps)
  then show ?thesis using empty_table_probe by (simp add: ltFind_def swapIn_def t)
qed

lemma swapIn_self [simp]: "swapIn (tableOf w) (swapIn t w) = w"
  by (simp add: swapIn_def tableOf_def)

lemma mergeOwn_keeps:
  assumes live: "dom (heap w) = set (slotAddrs (iEntries w))" and t: "t2Entries t = tblConstructL"
    and disk: "\<forall>p e. heap w p = Some e \<longrightarrow> BodyDataCached e \<or> (\<exists>n. iFileName e = Some n \<and> fileKnown m n w)" and i: "i < length (iEntries w)"
  shows "mergeOwn env m i (t, w) = Some (t, w)"
proof (cases "Valid (iEntries w) (int i)")
  case True
  then obtain p where p: "iEntries w ! i = SEntry p" using i by auto
  then have "p \<in> set (slotAddrs (iEntries w))" using i by (auto simp: slotAddrs_set)
  then obtain e where e: "heap w p = Some e" using live by auto
  then have "entryAt (int i) w = Some (p, e)" using p i by (simp add: entryAt_def)
  moreover have "ltFind (envFold env) (iUrl e) (swapIn t w) = Some None" by (rule empty_table_find [OF t])
  moreover have "BodyDataCached e \<or> (\<exists>n. iFileName e = Some n \<and> fileKnown m n w)" using disk e by blast
  ultimately show ?thesis using e True by (auto simp: mergeOwn_def)
qed (simp add: mergeOwn_def)

lemma foldOpt_id: "\<forall>x \<in> set xs. f x w = Some w \<Longrightarrow> foldOpt f xs w = Some w"
  by (induction xs) auto

text \<open>The index file of a client whose cache is empty.\<close>

definition emptyIndex :: "tdes16 \<Rightarrow> tdes8" where
  "emptyIndex dir = le32 KCacheVersionNumber @ le32 (of_nat (length dir)) @ le16 dir @ le32 0"

lemma ltInternalizeL_empty:
  assumes "dir \<noteq> []" "length dir < 2 ^ 31" "\<forall>n. alloc n" "addrs 0 = []"
  shows "ltInternalizeL alloc realIn dir addrs (emptyIndex dir) w = Some (KErrNone, w\<lparr>iContentSize := 0\<rparr>)"
proof -
  have "(of_nat (length dir) :: 32 word) \<noteq> 0"
    using unat_small [OF assms(2)] assms(1) by (metis length_0_conv unat_0)
  moreover have "ReadInt32L (le32 0) = (Inr 0, [])" using ReadInt32L_app [of 0 "[]"] by simp
  ultimately show ?thesis
    using assms by (simp add: ltInternalizeL_def emptyIndex_def unat_small sint_small)
qed

text \<open>
  When the index file was changed by another client whose cache is empty, the merge keeps
  every entry of this cache, but the reading of the file has set the byte count of the stream
  handler, which both tables share, to zero. The count is no longer that of the entries, so the
  cache may grow past its limit, and erasing an entry makes the count wrap around.
\<close>

theorem update_resets_byte_count:
  assumes "lt_ok w" "disk w (iIndexPath w) = Some (emptyIndex (envDir env))"
    and "\<forall>p e. heap w p = Some e \<longrightarrow> BodyDataCached e \<or> (\<exists>n. iFileName e = Some n \<and> disk w n \<noteq> None)"
    and "envDir env \<noteq> []" "length (envDir env) < 2 ^ 31"
    and "openTries 5 KErrNone (ixTries ix) = KErrNone" "ixReadErr ix = KErrNone" "\<forall>n. ixAlloc ix n" "ixAddrs ix 0 = []"
  shows "UpdateLookupTable env ix w = Some (w\<lparr>iContentSize := 0\<rparr>)"
proof -
  let ?w0 = "w\<lparr>iContentSize := 0\<rparr>"
  have ne: "emptyIndex (envDir env) \<noteq> []" by (simp add: emptyIndex_def le32_def)
  have open_ok: "onOther (OpenLookupTableL ix (envDir env) (iIndexPath w)) (newTable2, w) = Some (KErrNone, newTable2, ?w0)"
    using assms(2,4-9) ne by (simp add: onOther_def OpenLookupTableL_def ltInternalizeL_empty swapIn_def tableOf_def newTable2_def)
  have live: "dom (heap ?w0) = set (slotAddrs (iEntries ?w0))" using lt_okD(5) [OF assms(1)] by simp
  have t: "t2Entries newTable2 = tblConstructL" by (simp add: newTable2_def)
  have m: "MergeL env ix (newTable2, ?w0) = Some (newTable2, ?w0)"
  proof -
    let ?m = "if ixMapOk ix then Some (\<lambda>n. disk ?w0 n \<noteq> None) else None"
    have k: "\<forall>p e. heap ?w0 p = Some e \<longrightarrow> BodyDataCached e \<or> (\<exists>n. iFileName e = Some n \<and> fileKnown ?m n ?w0)"
      using assms(3) by (auto simp: fileKnown_def)
    have a: "foldOpt (mergeOwn env ?m) (rev [0..<length (iEntries ?w0)]) (newTable2, ?w0) = Some (newTable2, ?w0)"
      by (rule foldOpt_id) (use mergeOwn_keeps [OF live t k] in auto)
    have b: "foldOpt (mergeNew env ?m (ixNewAddr ix)) (rev [0..<length tblConstructL]) (newTable2, ?w0) = Some (newTable2, ?w0)"
      by (rule foldOpt_id) (simp add: mergeNew_def t empty_table_probe)
    show ?thesis unfolding MergeL_def Let_def snd_conv a by (simp only: Option.bind.bind_lunit prod.case t b)
  qed
  have "slotAddrs tblConstructL = []" by (simp add: slotAddrs_def tblConstructL_def)
  then have "destroyTable (newTable2, ?w0) = Some ?w0"
    by (simp add: destroyTable_def onOther_def swapIn_def tableOf_def newTable2_def)
  then show ?thesis using open_ok m by (simp add: UpdateLookupTable_def)
qed

lemma one_saved_index:
  "\<exists>w :: index_world. lt_ok w \<and> disk w (iIndexPath w) = Some (emptyIndex [67]) \<and> iContentSize w = 5 \<and> heap w \<noteq> Map.empty \<and>
     (\<forall>p e. heap w p = Some e \<longrightarrow> BodyDataCached e \<or> (\<exists>n. iFileName e = Some n \<and> disk w n \<noteq> None))"
proof -
  obtain w :: index_world and e n where w: "lt_ok w" "heap w = [1 \<mapsto> e]" "savedEntry e [104] n [65, 58] [1, 2, 3]"
    "disk w n = Some [1, 2, 3]" "iContentSize w = 5" "n \<noteq> [67]" using one_saved_in_index by blast
  define w1 where "w1 = w\<lparr>disk := (disk w)([67] \<mapsto> emptyIndex [67]), iIndexPath := [67]\<rparr>"
  have "lt_ok w1" by (rule lt_ok_cong [OF w(1)]) (simp_all add: w1_def)
  moreover have "iFileName e = Some n" using w(3) by (simp add: savedEntry_def)
  ultimately show ?thesis using w(2,4,5,6) by (intro exI [of _ w1]) (auto simp: w1_def)
qed

theorem update_resets_byte_count_witness:
  "\<exists>w w'. lt_ok (w :: index_world) \<and> iContentSize w = 5 \<and> UpdateLookupTable calm_env calm_index w = Some w' \<and>
     heap w' = heap w \<and> heap w' \<noteq> Map.empty \<and> iContentSize w' = 0"
proof -
  obtain w :: index_world where w: "lt_ok w" "disk w (iIndexPath w) = Some (emptyIndex (envDir calm_env))" "iContentSize w = 5" "heap w \<noteq> Map.empty"
    "\<forall>p e. heap w p = Some e \<longrightarrow> BodyDataCached e \<or> (\<exists>n. iFileName e = Some n \<and> disk w n \<noteq> None)"
    using one_saved_index by (auto simp: calm_env_def)
  have o: "openTries 5 KErrNone (ixTries calm_index) = KErrNone"
    by (simp add: calm_index_def eval_nat_numeral)
  have c: "envDir calm_env \<noteq> []" "length (envDir calm_env) < 2 ^ 31" "ixReadErr calm_index = KErrNone"
    "\<forall>n. ixAlloc calm_index n" "ixAddrs calm_index 0 = []"
    by (simp_all add: calm_env_def calm_index_def)
  show ?thesis using update_resets_byte_count [OF w(1,2,5) c(1,2) o c(3-5)] w(1,3,4)
    by (intro exI [of _ w] exI [of _ "w\<lparr>iContentSize := 0\<rparr>"]) simp
qed

subsection \<open>The entries and the files\<close>

text \<open>The iteration visits the entries of the table in the order of the slots.\<close>

lemma NextEntry_spec:
  "case slotAddrs (drop (iterPos it) s) of [] \<Rightarrow> fst (NextEntry s it) = None
   | p # ps \<Rightarrow> fst (NextEntry s it) = Some p \<and> slotAddrs (drop (iterPos (snd (NextEntry s it))) s) = ps"
proof (induction s it rule: NextEntry.induct)
  case (1 s it)
  show ?case
  proof (cases "iterPos it < length s")
    case True
    then have d: "drop (iterPos it) s = s ! iterPos it # drop (Suc (iterPos it)) s" by (rule Cons_nth_drop_Suc [symmetric])
    show ?thesis
    proof (cases "\<exists>p. s ! iterPos it = SEntry p")
      case e: True
      then show ?thesis using True d by (auto simp: NextEntry.simps [of s it])
    next
      case False
      then have "NextEntry s it = NextEntry s (it\<lparr>iterPos := Suc (iterPos it)\<rparr>)"
        using True by (subst NextEntry.simps) (auto split: slot.split)
      moreover have "slotAddrs (drop (iterPos it) s) = slotAddrs (drop (Suc (iterPos it)) s)"
        using d False by (cases "s ! iterPos it") auto
      ultimately show ?thesis using True False 1 by (cases "s ! iterPos it") (auto split: list.splits)
    qed
  qed (simp add: NextEntry.simps)
qed

lemma iterateEntries_slots: "length (slotAddrs (drop (iterPos it) s)) < k \<Longrightarrow> iterateEntries k s it = slotAddrs (drop (iterPos it) s)"
proof (induction k arbitrary: it)
  case (Suc k)
  obtain r it' where r: "NextEntry s it = (r, it')" by (cases "NextEntry s it")
  show ?case using Suc.prems Suc.IH [of it'] NextEntry_spec [where it = it and s = s] r by (auto split: list.splits)
qed simp

lemma length_slotAddrs: "length (slotAddrs s) \<le> length s"
proof (induction s)
  case (Cons x s)
  then show ?case by (cases x) auto
qed simp

lemma iteration_visits_all: "iterateEntries (Suc (length (iEntries w))) (iEntries w) (BeginEntryIteration w) = slotAddrs (iEntries w)"
proof -
  have "iterateEntries (Suc (length (iEntries w))) (iEntries w) (BeginEntryIteration w) = slotAddrs (drop 0 (iEntries w))"
    by (subst iterateEntries_slots)
      (use length_slotAddrs [of "iEntries w"] in \<open>simp_all add: BeginEntryIteration_def less_Suc_eq_le\<close>)
  then show ?thesis by simp
qed

text \<open>The file of an entry is on disk with the size of its body.\<close>

definition fileGood :: "file_hash \<Rightarrow> 'a ev_world_scheme \<Rightarrow> nat \<Rightarrow> bool" where
  "fileGood hash w p \<longleftrightarrow> (\<exists>e n sz v. heap w p = Some e \<and> iFileName e = Some n \<and> hash n = Some (sz, v) \<and> of_nat sz = iBodySize e)"

definition nameOf :: "'a ev_world_scheme \<Rightarrow> nat \<Rightarrow> tdes16 option" where
  "nameOf w p = Option.bind (heap w p) iFileName"

lemma markFile_size: "map_option fst (markFile n v h m) = map_option fst (h m)"
  by (auto simp: markFile_def split: option.splits)

lemma fileGood_size: "(\<And>n. map_option fst (h' n) = map_option fst (h n)) \<Longrightarrow> fileGood h' w p = fileGood h w p"
proof -
  assume s: "\<And>n. map_option fst (h' n) = map_option fst (h n)"
  have "(\<exists>v. h' n = Some (sz, v)) \<longleftrightarrow> (\<exists>v. h n = Some (sz, v))" for n sz
    using s [of n] by (cases "h n"; cases "h' n") auto
  then show ?thesis unfolding fileGood_def by blast
qed

lemma validateEntry_spec:
  assumes e: "heap w p = Some e" "iFileName e = Some n"
  shows "\<exists>h'. validateEntry w p (h, b) = Some (h', b @ (if fileGood h w p then [] else [iUrl e])) \<and>
    (\<forall>m. map_option fst (h' m) = map_option fst (h m)) \<and> (\<forall>m. m \<noteq> n \<longrightarrow> h' m = h m) \<and>
    (fileGood h w p \<longrightarrow> map_option snd (h' n) = Some KCacheFileNoDelete)"
proof (cases "h n")
  case None
  then show ?thesis using e by (auto simp: validateEntry_def fileGood_def)
next
  case (Some sv)
  obtain sz v where sv: "sv = (sz, v)" by (cases sv)
  have g: "fileGood h w p \<longleftrightarrow> of_nat sz = iBodySize e" using e Some sv by (auto simp: fileGood_def)
  show ?thesis using e Some sv g
    by (intro exI [of _ "markFile n (if fileGood h w p then KCacheFileNoDelete else KCacheFileNeedsDelete) h"])
      (auto simp: validateEntry_def markFile_size markFile_def)
qed

lemma validate_all:
  "\<forall>p \<in> set ps. \<exists>e n. heap w p = Some e \<and> iFileName e = Some n \<Longrightarrow> distinct ps \<Longrightarrow> inj_on (nameOf w) (set ps) \<Longrightarrow>
   \<exists>h'. foldOpt (validateEntry w) ps (h, b) = Some (h', b @ map (\<lambda>p. iUrl (the (heap w p))) (filter (\<lambda>p. \<not> fileGood h w p) ps)) \<and>
     (\<forall>m. map_option fst (h' m) = map_option fst (h m)) \<and> (\<forall>m. Some m \<notin> nameOf w ` set ps \<longrightarrow> h' m = h m) \<and>
     (\<forall>p \<in> set ps. fileGood h w p \<longrightarrow> (\<forall>n. nameOf w p = Some n \<longrightarrow> map_option snd (h' n) = Some KCacheFileNoDelete))"
proof (induction ps arbitrary: h b)
  case (Cons p ps)
  obtain e n where e: "heap w p = Some e" "iFileName e = Some n" using Cons.prems(1) by auto
  obtain h1 where h1: "validateEntry w p (h, b) = Some (h1, b @ (if fileGood h w p then [] else [iUrl e]))"
    "\<forall>m. map_option fst (h1 m) = map_option fst (h m)" "\<forall>m. m \<noteq> n \<longrightarrow> h1 m = h m"
    "fileGood h w p \<longrightarrow> map_option snd (h1 n) = Some KCacheFileNoDelete"
    using validateEntry_spec [OF e] by blast
  have good: "fileGood h1 w = fileGood h w" using fileGood_size h1(2) by blast
  have inj: "inj_on (nameOf w) (set ps)" using Cons.prems(3) by (auto simp: inj_on_def)
  obtain h' where h': "foldOpt (validateEntry w) ps (h1, b @ (if fileGood h w p then [] else [iUrl e])) =
      Some (h', (b @ (if fileGood h w p then [] else [iUrl e])) @ map (\<lambda>p. iUrl (the (heap w p))) (filter (\<lambda>p. \<not> fileGood h w p) ps))"
    "\<forall>m. map_option fst (h' m) = map_option fst (h1 m)" "\<forall>m. Some m \<notin> nameOf w ` set ps \<longrightarrow> h' m = h1 m"
    "\<forall>p \<in> set ps. fileGood h w p \<longrightarrow> (\<forall>n. nameOf w p = Some n \<longrightarrow> map_option snd (h' n) = Some KCacheFileNoDelete)"
    using Cons.IH [OF _ _ inj, of h1 "b @ (if fileGood h w p then [] else [iUrl e])"] Cons.prems(1,2) unfolding good by auto
  have np: "nameOf w p = Some n" using e by (simp add: nameOf_def)
  have "Some n \<notin> nameOf w ` set ps" using Cons.prems(2,3) np by (auto simp: inj_on_def)
  then have "h' n = h1 n" using h'(3) by blast
  then show ?case using h1 h' e np by (intro exI [of _ h']) auto
qed auto

subsection \<open>Removing the bad entries\<close>

lemma drainNotices_disk [simp]: "disk (drainNotices w) = disk w"
proof -
  have "disk (fold (\<lambda>(obs, p) w. if obs = fwObserver then fwEntryDeleted p w else w) ns v) = disk v" for ns and v :: "'a cache_world_scheme"
    by (induction ns arbitrary: v) (auto simp: fwEntryDeleted_def Let_def)
  then show ?thesis by (simp add: drainNotices_def)
qed

lemma ltErase_disk:
  assumes "ltErase io (int i) w = Some w'" "i < length (iEntries w)" "iEntries w ! i = SEntry p" "nameOf w p \<noteq> Some n"
  shows "disk w' n = disk w n"
proof -
  obtain w1 w2 where w1: "shErase io p w = Some w1" "entryDelete p (w1\<lparr>iEntries := SetDeleted (iEntries w1) (int i)\<rparr>) = Some w2"
    "w' = w2\<lparr>iCount := iCount w2 - 1\<rparr>" using assms(1-3) by (auto simp: ltErase_def split: bind_splits)
  have "disk w2 = disk w1" using ev_frame_fields(4) [OF entryDelete_ev_frame [OF w1(2)]] by simp
  moreover have "disk w1 n = disk w n"
  proof -
    obtain v e m where v: "worldCancelBodyWrite p w = Some v" "heap v p = Some e" "iFileName e = Some m" "disk w1 = disk (deleteFile io m v)"
      using w1(1) by (auto simp: shErase_def split: bind_splits)
    have "disk v = disk w" "nameOf w p = Some m"
      using worldCancelBodyWrite_frame [OF v(1)] v(2,3) by (auto simp: nameOf_def)
    then show ?thesis using v(4) assms(4) by (auto simp: deleteFile_def)
  qed
  ultimately show ?thesis using w1(3) by simp
qed

lemma chTableRemove_one:
  fixes w :: "'a cache_world_scheme"
  assumes ok: "lt_ok w" and e: "heap w p = Some e" and one: "one_url_each (envFold env) w"
  shows "\<exists>w'. removeBad env (iUrl e) w = Some w' \<and> lt_ok w' \<and>
    heap w' = (if iState e = ECacheComplete then (heap w)(p := None) else heap w) \<and>
    (\<forall>n. nameOf w p \<noteq> Some n \<longrightarrow> disk w' n = disk w n)"
proof -
  obtain i where i: "ltProbe (envFold env) (iUrl e) w = Some (int i)" "i < length (iEntries w)" "iEntries w ! i = SEntry p"
    using ltProbe_finds [OF ok e one] by blast
  have at: "entryAt (int i) w = Some (p, e)" using i e by (simp add: entryAt_def)
  show ?thesis
  proof (cases "iState e = ECacheComplete")
    case True
    obtain w1 where w1: "ltErase (envIo env) (int i) w = Some w1" "lt_ok w1" "heap w1 = (heap w)(p := None)"
      using ltErase_ok [OF ok i(2,3), of "envIo env"] by auto
    have sc: "same_cache w1 (drainNotices w1)" by simp
    have "lt_ok (drainNotices w1)" by (rule lt_ok_cong [OF w1(2)]) (use sc in \<open>simp_all add: same_cache_def\<close>)
    moreover have "\<forall>n. nameOf w p \<noteq> Some n \<longrightarrow> disk (drainNotices w1) n = disk w n"
      using ltErase_disk [OF w1(1) i(2,3)] by simp
    moreover have "removeBad env (iUrl e) w = Some (drainNotices w1)"
      using True i at w1(1) by (simp add: removeBad_def chTableRemove_def ltRemove_def)
    ultimately show ?thesis using True w1(3) sc by (simp add: same_cache_def)
  next
    case False
    have sc: "same_cache w (drainNotices w)" by simp
    have "lt_ok (drainNotices w)" by (rule lt_ok_cong [OF ok]) (use sc in \<open>simp_all add: same_cache_def\<close>)
    then show ?thesis using False i at sc by (auto simp: removeBad_def chTableRemove_def ltRemove_def same_cache_def)
  qed
qed

definition completeAt :: "'a ev_world_scheme \<Rightarrow> nat \<Rightarrow> bool" where
  "completeAt w p \<longleftrightarrow> (\<exists>e. heap w p = Some e \<and> iState e = ECacheComplete)"

lemma removeBad_all:
  "lt_ok w \<Longrightarrow> one_url_each (envFold env) w \<Longrightarrow> distinct ps \<Longrightarrow> \<forall>p \<in> set ps. heap w p \<noteq> None \<Longrightarrow>
   \<exists>w'. foldOpt (removeBad env) (map (\<lambda>p. iUrl (the (heap w p))) ps) w = Some w' \<and> lt_ok w' \<and>
     heap w' = (\<lambda>p. if p \<in> set ps \<and> completeAt w p then None else heap w p) \<and>
     (\<forall>n. Some n \<notin> nameOf w ` set ps \<longrightarrow> disk w' n = disk w n)"
proof (induction ps arbitrary: w)
  case (Cons p ps)
  obtain e where e: "heap w p = Some e" using Cons.prems(4) by auto
  obtain w1 where w1: "removeBad env (iUrl e) w = Some w1" "lt_ok w1"
    "heap w1 = (if iState e = ECacheComplete then (heap w)(p := None) else heap w)"
    "\<forall>n. nameOf w p \<noteq> Some n \<longrightarrow> disk w1 n = disk w n"
    using chTableRemove_one [OF Cons.prems(1) e Cons.prems(2)] by blast
  have one1: "one_url_each (envFold env) w1"
    by (rule one_url_each_mono [OF Cons.prems(2)]) (use w1(3) in \<open>auto simp: urlOf_def split: if_splits\<close>)
  have same: "heap w1 q = heap w q" "completeAt w1 q = completeAt w q" if "q \<in> set ps" for q
    using that Cons.prems(3) w1(3) by (auto simp: completeAt_def)
  have m: "map (\<lambda>p. iUrl (the (heap w1 p))) ps = map (\<lambda>p. iUrl (the (heap w p))) ps" using same by simp
  obtain w' where w': "foldOpt (removeBad env) (map (\<lambda>p. iUrl (the (heap w p))) ps) w1 = Some w'" "lt_ok w'"
    "heap w' = (\<lambda>p. if p \<in> set ps \<and> completeAt w1 p then None else heap w1 p)"
    "\<forall>n. Some n \<notin> nameOf w1 ` set ps \<longrightarrow> disk w' n = disk w1 n"
    using Cons.IH [OF w1(2) one1] Cons.prems(3,4) same unfolding m by auto
  have "nameOf w1 ` set ps = nameOf w ` set ps" using same by (simp add: nameOf_def)
  then have "\<forall>n. Some n \<notin> nameOf w ` set (p # ps) \<longrightarrow> disk w' n = disk w n" using w'(4) w1(4) by auto
  have "heap w' q = (if q \<in> set (p # ps) \<and> completeAt w q then None else heap w q)" for q
    using w'(3) w1(3) e same [of q] Cons.prems(3) by (cases "q = p") (auto simp: completeAt_def)
  moreover note \<open>\<forall>n. Some n \<notin> nameOf w ` set (p # ps) \<longrightarrow> disk w' n = disk w n\<close>
  ultimately show ?case using w1(1) w'(1,2) e by (auto simp: fun_eq_iff)
qed auto

lemma validated_gen:
  assumes "lt_ok w" "one_url_each (envFold env) w" "inj_on (nameOf w) (dom (heap w))"
  shows "\<exists>hash' w'. ValidateCacheEntriesL env indexFile hash w = Some (hash', w') \<and> lt_ok w' \<and>
    (\<forall>p. heap w' p = (if completeAt w p \<and> \<not> fileGood hash w p then None else heap w p)) \<and>
    (\<forall>p e. heap w' p = Some e \<longrightarrow> iState e = ECacheComplete \<longrightarrow>
       (\<exists>n sz v. iFileName e = Some n \<and> hash n = Some (sz, v) \<and> of_nat sz = iBodySize e \<and>
          hash' n = Some (sz, KCacheFileNoDelete))) \<and>
    (\<forall>n. map_option fst (hash' n) = map_option fst (hash n)) \<and>
    (\<forall>n. Some n \<notin> nameOf w ` dom (heap w) \<longrightarrow> n \<noteq> indexFile \<longrightarrow> hash' n = hash n) \<and>
    (\<forall>n. (\<forall>p. nameOf w p = Some n \<longrightarrow> fileGood hash w p) \<longrightarrow> disk w' n = disk w n)"
proof -
  let ?ps = "slotAddrs (iEntries w)" and ?h = "markFile indexFile KCacheFileNoDelete hash"
  have dom: "set ?ps = dom (heap w)" "distinct ?ps" using lt_okD(1,5) [OF assms(1)] by (auto dest: tbl_okD(2))
  have live: "\<forall>p \<in> set ?ps. \<exists>e n. heap w p = Some e \<and> iFileName e = Some n"
    using dom(1) lt_okD(6) [OF assms(1)] by blast
  have inj: "inj_on (nameOf w) (set ?ps)" using assms(3) dom(1) by simp
  let ?bad = "filter (\<lambda>p. \<not> fileGood ?h w p) ?ps"
  obtain h' where h': "foldOpt (validateEntry w) ?ps (?h, []) = Some (h', map (\<lambda>p. iUrl (the (heap w p))) ?bad)"
    "\<forall>m. map_option fst (h' m) = map_option fst (?h m)" "\<forall>m. Some m \<notin> nameOf w ` set ?ps \<longrightarrow> h' m = ?h m"
    "\<forall>p \<in> set ?ps. fileGood ?h w p \<longrightarrow> (\<forall>n. nameOf w p = Some n \<longrightarrow> map_option snd (h' n) = Some KCacheFileNoDelete)"
    using validate_all [OF live dom(2) inj, of ?h "[]"] by auto
  have good: "fileGood ?h w = fileGood hash w" using fileGood_size markFile_size by blast
  have bl: "\<forall>p \<in> set ?bad. heap w p \<noteq> None" "distinct ?bad" using live dom(2) by auto
  obtain w' where w': "foldOpt (removeBad env) (map (\<lambda>p. iUrl (the (heap w p))) ?bad) w = Some w'" "lt_ok w'"
    "heap w' = (\<lambda>p. if p \<in> set ?bad \<and> completeAt w p then None else heap w p)"
    "\<forall>n. Some n \<notin> nameOf w ` set ?bad \<longrightarrow> disk w' n = disk w n"
    using removeBad_all [OF assms(1,2) bl(2,1)] by blast
  have hp: "heap w' p = (if completeAt w p \<and> \<not> fileGood hash w p then None else heap w p)" for p
    using w'(3) dom(1) good by (auto simp: completeAt_def)
  have files: "\<exists>n sz v. iFileName e = Some n \<and> hash n = Some (sz, v) \<and> of_nat sz = iBodySize e \<and> h' n = Some (sz, KCacheFileNoDelete)"
    if e: "heap w' p = Some e" "iState e = ECacheComplete" for p e
  proof -
    have p: "heap w p = Some e" "fileGood hash w p" using e hp [of p] by (auto simp: completeAt_def split: if_splits)
    then obtain n sz v where n: "iFileName e = Some n" "hash n = Some (sz, v)" "of_nat sz = iBodySize e"
      by (auto simp: fileGood_def)
    have "p \<in> set ?ps" "nameOf w p = Some n" using p(1) n(1) dom(1) by (auto simp: nameOf_def)
    then have "map_option snd (h' n) = Some KCacheFileNoDelete" using h'(4) p(2) good by metis
    moreover have "map_option fst (h' n) = Some sz" using h'(2) n(2) by (simp add: markFile_size)
    ultimately have "h' n = Some (sz, KCacheFileNoDelete)" by (cases "h' n") auto
    then show ?thesis using n by blast
  qed
  have "ValidateCacheEntriesL env indexFile hash w = Some (h', w')"
    using h'(1) w'(1) by (simp add: ValidateCacheEntriesL_def iteration_visits_all del: iterateEntries.simps)
  moreover have "map_option fst (h' n) = map_option fst (hash n)" for n using h'(2) by (simp add: markFile_size)
  moreover have "h' n = hash n" if "Some n \<notin> nameOf w ` dom (heap w)" "n \<noteq> indexFile" for n
    using that h'(3) dom(1) by (auto simp: markFile_def split: option.splits)
  moreover have "disk w' n = disk w n" if "\<forall>p. nameOf w p = Some n \<longrightarrow> fileGood hash w p" for n
  proof -
    have "Some n \<notin> nameOf w ` set ?bad" using that unfolding good by auto
    then show ?thesis using w'(4) by blast
  qed
  ultimately show ?thesis using w'(2) hp files by blast
qed

text \<open>
  C28: after \<open>ValidateCacheEntriesL\<close> every complete entry left in the cache has its body file on
  disk, with the size the entry says, and that file is marked as not to be deleted, so the removal
  of orphaned files that follows keeps it. Entries whose files were in order stay; the table, the
  buckets and the byte count stay consistent.
\<close>

theorem validated_entries_have_files:
  assumes "lt_ok w" "one_url_each (envFold env) w" "inj_on (nameOf w) (dom (heap w))"
  shows "\<exists>hash' w'. ValidateCacheEntriesL env indexFile hash w = Some (hash', w') \<and> lt_ok w' \<and>
    (\<forall>p. heap w' p = (if completeAt w p \<and> \<not> fileGood hash w p then None else heap w p)) \<and>
    (\<forall>p e. heap w' p = Some e \<longrightarrow> iState e = ECacheComplete \<longrightarrow>
       (\<exists>n sz v. iFileName e = Some n \<and> hash n = Some (sz, v) \<and> of_nat sz = iBodySize e \<and>
          hash' n = Some (sz, KCacheFileNoDelete)))"
  using validated_gen [OF assms] by blast

text \<open>A saved entry and the map of its disk.\<close>

theorem validated_entries_have_files_witness:
  "\<exists>w hash' w' e. lt_ok (w :: cache_world) \<and> heap w = [1 \<mapsto> e] \<and>
     ValidateCacheEntriesL calm_env [] (GenerateCacheContentHashMapL KCacheFileNeedsDelete (disk w)) w = Some (hash', w') \<and> lt_ok w'"
proof -
  obtain w e where w: "lt_ok (w :: cache_world)" "heap w = [1 \<mapsto> e]" using one_saved by blast
  have "one_url_each (envFold calm_env) w" using w(2) by (auto simp: one_url_each_def urlOf_def split: if_splits)
  moreover have "inj_on (nameOf w) (dom (heap w))" using w(2) by (simp add: inj_on_def)
  ultimately show ?thesis
    using validated_entries_have_files [OF w(1), of calm_env "[]" "GenerateCacheContentHashMapL KCacheFileNeedsDelete (disk w)"] w
    by blast
qed

end
