(* ===== verification/HandlerLife.thy ===== *)
theory HandlerLife
  imports FileWriteRun MergeSpec
begin

text \<open>
  Construction and destruction of a cache handler (\<open>ConstructL\<close>, \<open>NewL\<close> and the destructor of
  \<open>CHttpCacheHandler\<close>, cache/src/HttpCacheHandler.cpp), and the clearing of a cache, which saves
  the index. A handler that is destroyed leaves its index file and its body files; the next one
  is built from them. \<open>newHandler\<close> is the object with its parts, before it reads the index.
\<close>

record postpone_params =
  ppEnabled :: bool
  ppFreeRamThreshold :: int
  ppImmediateWriteThreshold :: "32 word"
  ppWriteTimeout :: int

definition THttpCachePostponeParameters :: postpone_params where
  "THttpCachePostponeParameters = \<lparr>ppEnabled = True, ppFreeRamThreshold = 6 * 1024 * 1024,
     ppImmediateWriteThreshold = 0, ppWriteTimeout = 30000000\<rparr>"

text \<open>The results of the calls that can make the construction leave, allocations first.\<close>

record construct_io =
  coConnect :: symerr
  coEntry :: symerr
  coMkDirAll :: symerr
  coAlloc :: symerr
  coObserver :: symerr

definition newHandler :: "32 word \<Rightarrow> int \<Rightarrow> postpone_params \<Rightarrow> tdes16 \<Rightarrow> (tdes16 \<Rightarrow> tdes8 option) \<Rightarrow> index_world" where
  "newHandler aSize aCriticalLevel aPostpone path d = \<lparr>heap = Map.empty, iBuckets = evConstructL, deleteNotices = [],
     iContentSize = 0, iCriticalLevel = aCriticalLevel, disk = d, writers = Map.empty, iEntries = tblConstructL, iCount = 0,
     iObjectQueue = [], iObjectFlushing = None, iWaitTimerActive = False, iLowMemoryState = False, fwActive = False,
     fwStatus = None, iFreeRamThreshold = ppFreeRamThreshold aPostpone,
     iImmediateWriteThreshold = ppImmediateWriteThreshold aPostpone, iPostponeEnabled = ppEnabled aPostpone,
     iSize = aSize, iHttpCacheObserver = None, iIndexPath = path\<rparr>"

text \<open>A table whose index could not be read is replaced by an empty one.\<close>

definition rebuildTable :: "'a table_world_scheme \<Rightarrow> 'a table_world_scheme option" where
  "rebuildTable w = map_option (\<lambda>w1. w1\<lparr>iEntries := tblConstructL, iCount := 0\<rparr>) (foldOpt entryDelete (slotAddrs (iEntries w)) w)"

definition chConstructL :: "construct_io \<Rightarrow> index_io \<Rightarrow> tdes16 \<Rightarrow> 'a index_world_scheme \<Rightarrow>
    (symerr \<times> 'a index_world_scheme) option" where
  "chConstructL co ix dir w =
    (let err = (if coEntry co \<noteq> KErrNone then coMkDirAll co else KErrNone) in
     if coConnect co \<noteq> KErrNone then Some (coConnect co, w)
     else if err \<noteq> KErrNone \<and> err \<noteq> KErrAlreadyExists then Some (err, w)
     else if coAlloc co \<noteq> KErrNone then Some (coAlloc co, w)
     else do {
       (err2, w1) \<leftarrow> OpenLookupTableL ix dir (iIndexPath w) w;
       w2 \<leftarrow> (if err2 \<noteq> KErrNone then rebuildTable w1 else Some w1);
       if coObserver co \<noteq> KErrNone then Some (coObserver co, w2)
       else Some (KErrNone, w2\<lparr>iHttpCacheObserver := Some (obStartObserver \<lparr>obActive = False, obStatus = None\<rparr>)\<rparr>) })"

text \<open>
  The destructor saves the index, writes what is postponed and deletes the entries. An entry that
  still had the deleted queue as its observer would call it.
\<close>

definition chDestructor :: "io \<Rightarrow> index_io \<Rightarrow> tdes16 \<Rightarrow> 'a index_world_scheme \<Rightarrow> 'a index_world_scheme option" where
  "chDestructor io ix dir w = do {
     w1 \<leftarrow> SaveLookupTableL ix dir w;
     let w2 = w1\<lparr>iHttpCacheObserver := None\<rparr>;
     w3 \<leftarrow> (if iPostponeEnabled w2 then fwDestructor io w2 else Some w2);
     w4 \<leftarrow> foldOpt entryDelete (slotAddrs (iEntries w3)) (evRemoveAll w3);
     if deleteNotices w4 = deleteNotices w3 then Some (w4\<lparr>iEntries := [], iBuckets := []\<rparr>) else None }"

text \<open>\<open>NewL\<close>: a leave of \<open>ConstructL\<close> has the cleanup stack destroy the object as it is then.\<close>

definition chNewL :: "construct_io \<Rightarrow> io \<Rightarrow> index_io \<Rightarrow> tdes16 \<Rightarrow> 'a index_world_scheme \<Rightarrow> (symerr + 'a index_world_scheme) option" where
  "chNewL co io ix dir w = do {
     (err, w1) \<leftarrow> chConstructL co ix dir w;
     if err = KErrNone then Some (Inr w1)
     else do { w2 \<leftarrow> chDestructor io ix dir w1; Some (Inl err) } }"

definition RemoveAllL :: "env \<Rightarrow> index_io \<Rightarrow> 'a index_world_scheme \<Rightarrow> (32 word \<times> 'a index_world_scheme) option" where
  "RemoveAllL env ix w = do {
     (numberOfBytes, w1) \<leftarrow> chRemoveAll env w;
     w2 \<leftarrow> SaveLookupTableL ix (envDir env) w1;
     Some (numberOfBytes, w2) }"

text \<open>A construction in which nothing fails.\<close>

definition calm_construct :: construct_io where
  "calm_construct = \<lparr>coConnect = KErrNone, coEntry = KErrNone, coMkDirAll = KErrNone, coAlloc = KErrNone, coObserver = KErrNone\<rparr>"

subsection \<open>What the construction touches\<close>

text \<open>Reading an index changes the table, the entries and the byte count, and nothing else.\<close>

definition table_frame :: "'a table_world_scheme \<Rightarrow> 'a table_world_scheme \<Rightarrow> bool" where
  "table_frame w w' \<longleftrightarrow> w'\<lparr>heap := heap w, iBuckets := iBuckets w, deleteNotices := deleteNotices w,
     iContentSize := iContentSize w, iEntries := iEntries w, iCount := iCount w\<rparr> = w"

lemma table_frame_trans:
  fixes u v w :: "'a table_world_scheme"
  assumes uv: "table_frame u v" and vw: "table_frame v w"
  shows "table_frame u w"
proof -
  define reset where "reset x = x\<lparr>heap := heap u, iBuckets := iBuckets u, deleteNotices := deleteNotices u,
     iContentSize := iContentSize u, iEntries := iEntries u, iCount := iCount u\<rparr>" for x :: "'a table_world_scheme"
  have "reset w = reset (w\<lparr>heap := heap v, iBuckets := iBuckets v, deleteNotices := deleteNotices v,
     iContentSize := iContentSize v, iEntries := iEntries v, iCount := iCount v\<rparr>)" by (simp add: reset_def)
  also have "\<dots> = reset v" using vw by (simp add: table_frame_def)
  finally show ?thesis using uv by (simp add: reset_def table_frame_def)
qed

lemma table_frame_upd [simp]:
  "table_frame w w" "table_frame w (w\<lparr>iContentSize := c\<rparr>)" "table_frame w (w\<lparr>iEntries := es, iCount := n\<rparr>)"
  "table_frame w (w\<lparr>heap := h\<rparr>)" "table_frame w (updEntry p f w)"
  by (simp_all add: table_frame_def updEntry_def)

lemma table_frame_ev: "ev_frame w w' \<Longrightarrow> table_frame w w'"
  by (auto simp: ev_frame_def table_frame_def)

lemma table_frame_fields:
  fixes w :: "'a index_world_scheme"
  assumes "table_frame w w'"
  shows "disk w' = disk w" "iHttpCacheObserver w' = iHttpCacheObserver w" "iIndexPath w' = iIndexPath w"
    "iObjectQueue w' = iObjectQueue w" "fwActive w' = fwActive w" "iPostponeEnabled w' = iPostponeEnabled w" "iSize w' = iSize w"
proof -
  from assms have *: "w'\<lparr>heap := heap w, iBuckets := iBuckets w, deleteNotices := deleteNotices w,
     iContentSize := iContentSize w, iEntries := iEntries w, iCount := iCount w\<rparr> = w" (is "?v = w") by (simp add: table_frame_def)
  have "disk ?v = disk w'" "iHttpCacheObserver ?v = iHttpCacheObserver w'" "iIndexPath ?v = iIndexPath w'"
    "iObjectQueue ?v = iObjectQueue w'" "fwActive ?v = fwActive w'" "iPostponeEnabled ?v = iPostponeEnabled w'" "iSize ?v = iSize w'"
    by simp_all
  then show "disk w' = disk w" "iHttpCacheObserver w' = iHttpCacheObserver w" "iIndexPath w' = iIndexPath w"
    "iObjectQueue w' = iObjectQueue w" "fwActive w' = fwActive w" "iPostponeEnabled w' = iPostponeEnabled w" "iSize w' = iSize w"
    unfolding * by simp_all
qed

lemma entryInternalize_frame: "entryInternalize alloc realIn dir p s w = Some (err, s', w') \<Longrightarrow> table_frame w w'"
  by (auto simp: entryInternalize_def Let_def split: bind_splits if_splits
      dest!: entrySetState_ev_frame intro: table_frame_trans [OF table_frame_upd(5) table_frame_ev])

lemma ltReadLoop_frame:
  "ltReadLoop alloc realIn dir ps s c w = Some (err, c', w') \<Longrightarrow> table_frame w w'"
proof (induction ps arbitrary: s c w)
  case (Cons p ps)
  let ?v = "w\<lparr>heap := (heap w)(p \<mapsto> entryNewL [])\<rparr>"
  obtain err1 s1 w1 where 1: "entryInternalize alloc realIn dir p s ?v = Some (err1, s1, w1)"
    using Cons.prems by (auto split: bind_splits)
  have f1: "table_frame w w1" by (rule table_frame_trans [OF table_frame_upd(4) entryInternalize_frame [OF 1]])
  show ?case
  proof (cases "err1 = KErrNone")
    case True
    then obtain e err2 w2 where 2: "heap w1 p = Some e" "ltInsertEntryL p w1 = Some (err2, w2)"
      "ltReadLoop alloc realIn dir ps s1 (c + ucast (iHeaderSize e) + iBodySize e) w2 = Some (err, c', w')"
      using Cons.prems 1 by (auto split: bind_splits)
    have "table_frame w1 w2" using 2(2) by (auto simp: ltInsertEntryL_def)
    then show ?thesis using f1 Cons.IH [OF 2(3)] table_frame_trans by blast
  next
    case False
    then consider w2 where "entryDelete p w1 = Some w2" "w' = w2" | "ltReadLoop alloc realIn dir ps s1 c w1 = Some (err, c', w')"
      using Cons.prems 1 by (auto split: bind_splits if_splits)
    then show ?thesis using f1 Cons.IH table_frame_trans table_frame_ev entryDelete_ev_frame by cases blast+
  qed
qed simp

lemma ltInternalizeL_frame: "ltInternalizeL alloc realIn dir addrs s w = Some (err, w') \<Longrightarrow> table_frame w w'"
  by (auto simp: ltInternalizeL_def split: sum.splits prod.splits if_splits bind_splits
      dest!: ltReadLoop_frame intro: table_frame_trans [OF _ table_frame_upd(2)])

lemma OpenLookupTableL_frame: "OpenLookupTableL ix dir path w = Some (err, w') \<Longrightarrow> table_frame w w'"
  by (auto simp: OpenLookupTableL_def split: option.splits if_splits dest!: ltInternalizeL_frame)

lemma foldOpt_frame:
  assumes f: "\<And>p u v. f p u = Some v \<Longrightarrow> table_frame u v"
  shows "foldOpt f ps w = Some w' \<Longrightarrow> table_frame w w'"
proof (induction ps arbitrary: w)
  case (Cons p ps)
  from Cons.prems obtain w1 where "f p w = Some w1" "foldOpt f ps w1 = Some w'" by (auto split: option.splits)
  then show ?case using Cons.IH f table_frame_trans by blast
qed simp

lemma rebuildTable_frame: "rebuildTable w = Some w' \<Longrightarrow> table_frame w w'"
  unfolding rebuildTable_def
  by (auto intro: table_frame_trans [OF _ table_frame_upd(3)] foldOpt_frame [where f = entryDelete] table_frame_ev [OF entryDelete_ev_frame])

text \<open>
  A handler whose construction fails takes the process down. Whatever makes \<open>ConstructL\<close>
  leave, be it a directory that cannot be created, the observer does not exist yet, and the
  destructor that the cleanup stack runs saves the index through the observer's null pointer.
\<close>

theorem failed_construction_faults:
  assumes "chConstructL co ix dir (newHandler aSize crit pp path d) = Some (err, w)" "err \<noteq> KErrNone"
  shows "chNewL co io ix dir (newHandler aSize crit pp path d) = None"
proof -
  let ?w = "newHandler aSize crit pp path d"
  have none: "iHttpCacheObserver ?w = None" by (simp add: newHandler_def)
  have "table_frame ?w w"
    using assms by (auto simp: chConstructL_def Let_def split: bind_splits if_splits
        dest!: OpenLookupTableL_frame rebuildTable_frame intro: table_frame_trans)
  then have "iHttpCacheObserver w = None" using none table_frame_fields(2) by metis
  then show ?thesis using assms by (simp add: chNewL_def chDestructor_def SaveLookupTableL_def)
qed

theorem failed_construction_faults_witness:
  "chNewL (calm_construct\<lparr>coEntry := KErrNotFound, coMkDirAll := KErrDiskFull\<rparr>) calm calm_index [67]
     (newHandler 1000 0 THttpCachePostponeParameters [67] Map.empty) = None"
  by (rule failed_construction_faults [of _ _ _ _ _ _ _ _ KErrDiskFull]) (simp_all add: chConstructL_def calm_construct_def)

subsection \<open>Clearing the cache while a body is written\<close>

lemma clearObservers_live:
  "\<forall>p \<in> set ps. heap w p \<noteq> None \<Longrightarrow> \<exists>h. clearObservers ps w = Some (w\<lparr>heap := h\<rparr>)"
proof (induction ps arbitrary: w)
  case Nil
  show ?case by (rule exI [of _ "heap w"]) simp
next
  case (Cons p ps)
  let ?w1 = "updEntry p ClearDeleteObserver w"
  have "\<forall>q \<in> set ps. heap ?w1 q \<noteq> None" using Cons.prems by (auto simp: updEntry_def split: option.splits)
  then obtain h where "clearObservers ps ?w1 = Some (?w1\<lparr>heap := h\<rparr>)" using Cons.IH by blast
  then show ?case using Cons.prems by (auto simp: updEntry_def split: option.splits)
qed

text \<open>
  Clearing a cache, or destroying its handler, while a postponed body is being written never
  returns. Both cancel the active object that waits for the write, whose \<open>DoCancel\<close> is empty: the
  request is only completed by the writer, and that runs on the thread that waits.
\<close>

theorem clearing_while_writing_hangs:
  fixes w :: "'a index_world_scheme"
  assumes "iPostponeEnabled w" "fwActive w" "fwStatus w = None" "\<forall>p \<in> set (iObjectQueue w). heap w p \<noteq> None"
  shows "(\<exists>w1. clearObservers (iObjectQueue w) w = Some w1 \<and> fwCancel (w1\<lparr>iObjectQueue := []\<rparr>) = None) \<and>
    RemoveAllL env ix w = None \<and> chDestructor io ix dir w = None"
proof -
  obtain h where h: "clearObservers (iObjectQueue w) w = Some (w\<lparr>heap := h\<rparr>)" using clearObservers_live [OF assms(4)] by blast
  have stuck: "fwCancel (v :: 'a index_world_scheme) = None" if "fwActive v" "fwStatus v = None" for v
    using that by (simp add: fwCancel_def)
  have "fwRemoveAll w = None" using h stuck assms(2,3) by (simp add: fwRemoveAll_def)
  then have "RemoveAllL env ix w = None" using assms(1) by (simp add: RemoveAllL_def chRemoveAll_def)
  moreover have "chDestructor io ix dir w = None"
  proof (cases "SaveLookupTableL ix dir w")
    case (Some w1)
    then have "iPostponeEnabled w1" "fwActive w1" "fwStatus w1 = None"
      using assms(1-3) by (auto simp: SaveLookupTableL_def split: bind_splits if_splits)
    then show ?thesis using Some stuck by (simp add: chDestructor_def fwDestructor_def)
  qed (simp add: chDestructor_def)
  moreover have "fwCancel (w\<lparr>heap := h, iObjectQueue := []\<rparr>) = None" using assms(2,3) by (intro stuck) simp_all
  ultimately show ?thesis using h by blast
qed

theorem clearing_while_writing_hangs_witness:
  "RemoveAllL calm_env calm_index ((newIndexWorld [67])\<lparr>fwActive := True, fwStatus := None\<rparr>) = None"
  using clearing_while_writing_hangs [of "(newIndexWorld [67])\<lparr>fwActive := True, fwStatus := None\<rparr>" calm_env calm_index]
  by (simp add: newIndexWorld_def newCacheWorld_def cache_world.defs)

subsection \<open>A restart\<close>

lemma foldOpt_entryDelete_ok:
  assumes "distinct ps"
    and "\<forall>p \<in> set ps. \<exists>e. heap w p = Some e \<and> (iEvictionCandidate e \<longrightarrow> iRef e \<noteq> 0) \<and> iDeleteObserver e = None"
  shows "\<exists>w'. foldOpt entryDelete ps w = Some w' \<and> ev_frame w w' \<and> deleteNotices w' = deleteNotices w"
  using assms
proof (induction ps arbitrary: w)
  case Nil
  then show ?case using ev_frameI(1) by simp
next
  case (Cons p ps)
  obtain e where e: "heap w p = Some e" "iEvictionCandidate e \<longrightarrow> iRef e \<noteq> 0" "iDeleteObserver e = None" using Cons.prems by auto
  obtain w1 where w1: "entryDelete p w = Some w1" "heap w1 = (heap w)(p := None)" "deleteNotices w1 = deleteNotices w"
  proof (cases "iEvictionCandidate e")
    case True
    then obtain i where i: "entryBucket e = Some i" using e(2) entryBucket_Some by blast
    obtain v where "evRemove p w = Some v" "heap v = heap w" "deleteNotices v = deleteNotices w"
      using e(1) i by (cases "ItemIsInBucket i p w") (auto simp: evRemove_def bucketRemove_def)
    then show thesis using e True by (intro that [of "v\<lparr>heap := (heap v)(p := None)\<rparr>"]) (simp_all add: entryDelete_def)
  qed (use e in \<open>auto simp: entryDelete_def intro: that\<close>)
  have "\<forall>q \<in> set ps. \<exists>e. heap w1 q = Some e \<and> (iEvictionCandidate e \<longrightarrow> iRef e \<noteq> 0) \<and> iDeleteObserver e = None"
    using Cons.prems w1(2) by auto
  then show ?case using Cons.IH [of w1] Cons.prems(1) w1 entryDelete_ev_frame [OF w1(1)] ev_frame_trans by fastforce
qed

text \<open>What the synchronous flush of the queue leaves: the bodies in their files, and no observers.\<close>

definition postponed :: "io \<Rightarrow> 'a stream_world_scheme \<Rightarrow> nat \<Rightarrow> bool" where
  "postponed io w p \<longleftrightarrow> (case heap w p of None \<Rightarrow> False | Some e \<Rightarrow>
     (case (iFileName e, HeaderData e) of
        (Some n, Some hdr) \<Rightarrow> BodyDataCached e \<and> IsDiskSpaceAvailable io (segLength (iCacheBuffer e) + int (length hdr)) w
      | _ \<Rightarrow> False))"

lemma postponed_cong:
  fixes v w :: "'a stream_world_scheme"
  assumes "heap v p = heap w p" "iCriticalLevel v = iCriticalLevel w"
  shows "postponed io v p = postponed io w p"
  unfolding postponed_def IsDiskSpaceAvailable_def assms ..

definition bodyAt :: "'a stream_world_scheme \<Rightarrow> nat \<Rightarrow> tdes8" where
  "bodyAt w p = (case heap w p of None \<Rightarrow> [] | Some e \<Rightarrow> segContents (iCacheBuffer e))"

lemma flushEach_ok:
  assumes "distinct ps" "\<forall>p \<in> set ps. postponed io w p" "ioReplace io" "\<forall>x \<in> set (ioWrites io). fst x = KErrNone"
    and "inj_on (nameOf w) (set ps)"
  shows "\<exists>h d. flushEach io ps w = Some (w\<lparr>heap := h, disk := d\<rparr>) \<and> (\<forall>p. p \<notin> set ps \<longrightarrow> h p = heap w p) \<and>
    (\<forall>p \<in> set ps. \<exists>e ws b. heap w p = Some e \<and> h p = Some (e\<lparr>iWriteState := ws, iCacheBuffer := b, iDeleteObserver := None\<rparr>)) \<and>
    (\<forall>p n. p \<in> set ps \<longrightarrow> nameOf w p = Some n \<longrightarrow> d n = Some (bodyAt w p)) \<and>
    (\<forall>n. (\<forall>p \<in> set ps. nameOf w p \<noteq> Some n) \<longrightarrow> d n = disk w n)"
  using assms
proof (induction ps arbitrary: w)
  case Nil
  show ?case by (rule exI [of _ "heap w"], rule exI [of _ "disk w"]) simp
next
  case (Cons p ps)
  obtain e n hdr where e: "heap w p = Some e" "iFileName e = Some n" "HeaderData e = Some hdr" "BodyDataCached e"
    "IsDiskSpaceAvailable io (segLength (iCacheBuffer e) + int (length hdr)) w"
    using Cons.prems(2) by (auto simp: postponed_def split: option.splits)
  obtain b ws where 1: "Flush io p w = Some (True, w\<lparr>heap := (heap w)(p \<mapsto> e\<lparr>iWriteState := ws, iCacheBuffer := b\<rparr>),
      disk := (disk w)(n \<mapsto> segContents (iCacheBuffer e))\<rparr>)"
    using FlushL_world [OF e(1-3) _ Cons.prems(3,4) e(5)] e(4) by (auto simp: BodyDataCached_def writeStateBit_def)
  let ?e1 = "e\<lparr>iWriteState := ws, iCacheBuffer := b, iDeleteObserver := None\<rparr>"
  define w1 where "w1 = w\<lparr>heap := (heap w)(p \<mapsto> ?e1), disk := (disk w)(n \<mapsto> segContents (iCacheBuffer e))\<rparr>"
  have u: "updEntry p ClearDeleteObserver (w\<lparr>heap := (heap w)(p \<mapsto> e\<lparr>iWriteState := ws, iCacheBuffer := b\<rparr>),
      disk := (disk w)(n \<mapsto> segContents (iCacheBuffer e))\<rparr>) = w1"
    by (simp add: w1_def updEntry_def ClearDeleteObserver_def)
  have np: "p \<notin> set ps" "distinct ps" using Cons.prems(1) by auto
  have same: "heap w1 q = heap w q" if "q \<in> set ps" for q using that np by (auto simp: w1_def)
  have cl: "iCriticalLevel w1 = iCriticalLevel w" by (simp add: w1_def)
  have post: "\<forall>q \<in> set ps. postponed io w1 q"
    using Cons.prems(2) postponed_cong [OF same cl] by simp
  have names: "\<forall>q \<in> set ps. nameOf w1 q = nameOf w q \<and> bodyAt w1 q = bodyAt w q" using same by (simp add: nameOf_def bodyAt_def)
  have "inj_on (nameOf w1) (set ps)" using Cons.prems(5) names by (simp add: inj_on_def)
  from Cons.IH [OF np(2) post Cons.prems(3,4) this] obtain h d where IH: "flushEach io ps w1 = Some (w1\<lparr>heap := h, disk := d\<rparr>)"
    "\<forall>q. q \<notin> set ps \<longrightarrow> h q = heap w1 q"
    "\<forall>q \<in> set ps. \<exists>e ws b. heap w1 q = Some e \<and> h q = Some (e\<lparr>iWriteState := ws, iCacheBuffer := b, iDeleteObserver := None\<rparr>)"
    "\<forall>q m. q \<in> set ps \<longrightarrow> nameOf w1 q = Some m \<longrightarrow> d m = Some (bodyAt w1 q)"
    "\<forall>m. (\<forall>q \<in> set ps. nameOf w1 q \<noteq> Some m) \<longrightarrow> d m = disk w1 m" by blast
  have pn: "nameOf w p = Some n" "bodyAt w p = segContents (iCacheBuffer e)" using e by (simp_all add: nameOf_def bodyAt_def)
  have other: "\<forall>q \<in> set ps. nameOf w q \<noteq> Some n" using Cons.prems(5) np(1) pn(1) by (metis inj_on_contraD list.set_intros)
  have "d n = Some (bodyAt w p)" using IH(5) other names pn by (simp add: w1_def)
  moreover have "flushEach io (p # ps) w = Some (w\<lparr>heap := h, disk := d\<rparr>)" using 1 u IH(1) by (simp add: w1_def)
  moreover have "h p = Some ?e1" using IH(2) np by (simp add: w1_def)
  moreover have "\<forall>m. (\<forall>q \<in> set (p # ps). nameOf w q \<noteq> Some m) \<longrightarrow> d m = disk w m" using IH(5) names pn by (auto simp: w1_def)
  moreover have "\<forall>q. q \<notin> set (p # ps) \<longrightarrow> h q = heap w q" using IH(2) by (simp add: w1_def)
  moreover have "\<forall>q m. q \<in> set (p # ps) \<longrightarrow> nameOf w q = Some m \<longrightarrow> d m = Some (bodyAt w q)"
    using IH(4) names pn calculation(1) by auto
  moreover have "\<forall>q \<in> set (p # ps). \<exists>e ws b. heap w q = Some e \<and>
      h q = Some (e\<lparr>iWriteState := ws, iCacheBuffer := b, iDeleteObserver := None\<rparr>)"
    using IH(3) same e(1) calculation(3) by auto
  ultimately show ?case by blast
qed

text \<open>
  The destructor of a quiet handler: nothing is in flight, every observed entry is in the queue.
\<close>

definition quiet_handler :: "io \<Rightarrow> index_io \<Rightarrow> tdes16 \<Rightarrow> 'a index_world_scheme \<Rightarrow> bool" where
  "quiet_handler io ix dir w \<longleftrightarrow> lt_ok w \<and> iHttpCacheObserver w \<noteq> None \<and> \<not> fwActive w \<and>
     (iObjectQueue w = [] \<or> iPostponeEnabled w) \<and> distinct (iObjectQueue w) \<and>
     (\<forall>p \<in> set (iObjectQueue w). postponed io w p \<and> bodyAt w p \<noteq> []) \<and>
     (\<forall>p e. heap w p = Some e \<longrightarrow> p \<notin> set (iObjectQueue w) \<longrightarrow> iDeleteObserver e = None \<and> \<not> BodyDataCached e) \<and>
     inj_on (nameOf w) (dom (heap w)) \<and> (\<forall>p. nameOf w p \<noteq> Some (iIndexPath w)) \<and>
     ioReplace io \<and> (\<forall>x \<in> set (ioWrites io). fst x = KErrNone) \<and> openTries 5 KErrNone (ixTries ix) = KErrNone \<and>
     (\<forall>p \<in> set (ltToWrite w). storable dir (the (heap w p))) \<and> length (ltToWrite w) < 2 ^ 31 \<and>
     dir \<noteq> [] \<and> length dir < 2 ^ 31 \<and> (\<forall>t. length (ixRealOut ix t) = 8)"

text \<open>The file of an entry once its postponed body has been written.\<close>

definition finalBody :: "'a cache_world_scheme \<Rightarrow> nat \<Rightarrow> tdes8 option" where
  "finalBody w p = (if p \<in> set (iObjectQueue w) then Some (bodyAt w p) else Option.bind (nameOf w p) (disk w))"

lemma chDestructor_ok:
  fixes w :: "'a index_world_scheme"
  assumes q: "quiet_handler io ix dir w" and bytes: "ltExternalizeL (ixRealOut ix) dir w = Some bytes"
  shows "\<exists>w1. chDestructor io ix dir w = Some w1 \<and> disk w1 (iIndexPath w) = Some bytes \<and>
    (\<forall>p n. heap w p \<noteq> None \<longrightarrow> nameOf w p = Some n \<longrightarrow> disk w1 n = finalBody w p)"
proof -
  note q' = q [unfolded quiet_handler_def]
  have ok: "lt_ok w" using q' by blast
  have names: "\<forall>p. nameOf w p \<noteq> Some (iIndexPath w)" using q' by blast
  define w1 where "w1 = w\<lparr>disk := (disk w)(iIndexPath w \<mapsto> bytes), iHttpCacheObserver := None\<rparr>"
  obtain ob where ob: "iHttpCacheObserver w = Some ob" using q' by blast
  have s: "SaveLookupTableL ix dir w = Some (w\<lparr>disk := (disk w)(iIndexPath w \<mapsto> bytes),
      iHttpCacheObserver := Some (obStartObserver (obCancel ob))\<rparr>)"
    using ob bytes q' by (simp add: SaveLookupTableL_def)
  have up: "(w\<lparr>disk := (disk w)(iIndexPath w \<mapsto> bytes), iHttpCacheObserver := Some (obStartObserver (obCancel ob))\<rparr>)\<lparr>iHttpCacheObserver := None\<rparr> = w1"
    by (simp add: w1_def)
  have f1: "heap w1 = heap w" "iObjectQueue w1 = iObjectQueue w" "nameOf w1 = nameOf w" "bodyAt w1 = bodyAt w"
    by (simp_all add: w1_def nameOf_def bodyAt_def fun_eq_iff)
  have "iCriticalLevel w1 = iCriticalLevel w" by (simp add: w1_def)
  then have post: "\<forall>p \<in> set (iObjectQueue w1). postponed io w1 p"
    using q' f1(1,2) postponed_cong [of w1 _ w io] by simp
  have live: "set (iObjectQueue w) \<subseteq> dom (heap w)" using q' by (auto simp: postponed_def split: option.splits)
  have inj: "inj_on (nameOf w1) (set (iObjectQueue w1))" using q' live f1 inj_on_subset by metis
  obtain h d where h: "flushEach io (iObjectQueue w1) w1 = Some (w1\<lparr>heap := h, disk := d\<rparr>)"
    "\<forall>p. p \<notin> set (iObjectQueue w) \<longrightarrow> h p = heap w p"
    "\<forall>p \<in> set (iObjectQueue w). \<exists>e ws b. heap w p = Some e \<and> h p = Some (e\<lparr>iWriteState := ws, iCacheBuffer := b, iDeleteObserver := None\<rparr>)"
    "\<forall>p n. p \<in> set (iObjectQueue w) \<longrightarrow> nameOf w p = Some n \<longrightarrow> d n = Some (bodyAt w p)"
    "\<forall>n. (\<forall>p \<in> set (iObjectQueue w). nameOf w p \<noteq> Some n) \<longrightarrow> d n = disk w1 n"
    using flushEach_ok [OF _ post _ _ inj] q' f1 by auto
  define w2 where "w2 = (if iPostponeEnabled w then w1\<lparr>heap := h, disk := d, iObjectQueue := [], iWaitTimerActive := False\<rparr> else w1)"
  have qu: "\<not> fwActive w" "iObjectQueue w = [] \<or> iPostponeEnabled w" using q' by blast+
  have d2: "(if iPostponeEnabled w1 then fwDestructor io w1 else Some w1) = Some w2"
    using h(1) qu(1) by (simp add: w2_def w1_def fwDestructor_def DumpAllObjects_def fwCancel_def)
  have no_queue: "\<not> iPostponeEnabled w \<Longrightarrow> iObjectQueue w = []" using qu(2) by blast
  have inj0: "inj_on (nameOf w) (dom (heap w))" using q' by blast
  have unobserved: "\<forall>p e. heap w p = Some e \<longrightarrow> p \<notin> set (iObjectQueue w) \<longrightarrow> iDeleteObserver e = None" using q' by blast
  have disk2: "disk w2 (iIndexPath w) = Some bytes"
    using h(5) names by (simp add: w2_def w1_def)
  have body2: "disk w2 n = finalBody w p" if "heap w p \<noteq> None" "nameOf w p = Some n" for p n
  proof (cases "p \<in> set (iObjectQueue w)")
    case True
    then show ?thesis using h(4) that no_queue by (auto simp: w2_def finalBody_def)
  next
    case False
    have "nameOf w q \<noteq> Some n" if "q \<in> set (iObjectQueue w)" for q
    proof
      assume "nameOf w q = Some n"
      then have "q = p" using inj_onD [OF inj0, of q p] that live \<open>heap w p \<noteq> None\<close> \<open>nameOf w p = Some n\<close> by auto
      then show False using False that by blast
    qed
    then have "d n = disk w1 n" using h(5) by blast
    moreover have "n \<noteq> iIndexPath w" using that names by blast
    ultimately have "d n = disk w n" "n \<noteq> iIndexPath w" by (simp_all add: w1_def)
    then show ?thesis using False that by (simp add: w2_def w1_def finalBody_def)
  qed
  have slots: "iEntries w2 = iEntries w" "distinct (slotAddrs (iEntries w))" "dom (heap w) = set (slotAddrs (iEntries w))"
    using lt_okD(5) [OF ok] tbl_okD(2) [OF lt_okD(1) [OF ok]] by (simp_all add: w2_def w1_def)
  have "\<exists>e. heap w2 p = Some e \<and> (iEvictionCandidate e \<longrightarrow> iRef e \<noteq> 0) \<and> iDeleteObserver e = None"
    if p: "p \<in> set (slotAddrs (iEntries w))" for p
  proof -
    obtain e where e: "heap w p = Some e" using p slots(3) by blast
    have r: "iEvictionCandidate e \<longrightarrow> iRef e \<noteq> 0" using ev_ok_ref [OF lt_okD(4) [OF ok] e] by blast
    show ?thesis
    proof (cases "p \<in> set (iObjectQueue w)")
      case True
      then obtain ws b where "h p = Some (e\<lparr>iWriteState := ws, iCacheBuffer := b, iDeleteObserver := None\<rparr>)" using h(3) e by force
      then show ?thesis using True no_queue r by (auto simp: w2_def)
    next
      case False
      then show ?thesis using h(2) e unobserved r by (simp add: w2_def w1_def)
    qed
  qed
  then have "\<forall>p \<in> set (slotAddrs (iEntries w)). \<exists>e. heap (evRemoveAll w2) p = Some e \<and> (iEvictionCandidate e \<longrightarrow> iRef e \<noteq> 0) \<and> iDeleteObserver e = None"
    by (simp add: evRemoveAll_def)
  from foldOpt_entryDelete_ok [OF slots(2) this] obtain w3 where w3: "foldOpt entryDelete (slotAddrs (iEntries w)) (evRemoveAll w2) = Some w3"
    "ev_frame (evRemoveAll w2) w3" "deleteNotices w3 = deleteNotices w2" by (auto simp: evRemoveAll_def)
  have "disk w3 = disk w2" using ev_frame_fields(4) [OF w3(2)] by (simp add: evRemoveAll_def)
  moreover have "chDestructor io ix dir w = Some (w3\<lparr>iEntries := [], iBuckets := []\<rparr>)"
    by (simp only: chDestructor_def s Option.bind.bind_lunit Let_def up d2 slots(1) w3 if_True refl simp_thms)
  ultimately show ?thesis using disk2 body2 by auto
qed

lemma newHandler_ok: "lt_ok (newHandler aSize crit pp path d)"
  by (rule new_world_ok) (simp_all add: newHandler_def)

lemma chNewL_reads:
  assumes "ltInternalizeL (ixAlloc ix) (ixRealIn ix) dir (ixAddrs ix) bytes (newHandler aSize crit pp path d) = Some (KErrNone, w')"
    and "d path = Some bytes" "bytes \<noteq> []" "openTries 5 KErrNone (ixTries ix) = KErrNone" "ixReadErr ix = KErrNone" "\<forall>n. ixAlloc ix n"
  shows "\<exists>w2. chNewL calm_construct io ix dir (newHandler aSize crit pp path d) = Some (Inr w2) \<and> heap w2 = heap w' \<and>
    disk w2 = d \<and> (lt_ok w' \<longrightarrow> lt_ok w2)"
proof -
  let ?w0 = "newHandler aSize crit pp path d"
  let ?w2 = "w'\<lparr>iHttpCacheObserver := Some (obStartObserver \<lparr>obActive = False, obStatus = None\<rparr>)\<rparr>"
  have "OpenLookupTableL ix dir (iIndexPath ?w0) ?w0 = Some (KErrNone, w')"
    using assms by (simp add: OpenLookupTableL_def newHandler_def)
  then have "chNewL calm_construct io ix dir ?w0 = Some (Inr ?w2)"
    by (simp add: chNewL_def chConstructL_def calm_construct_def)
  moreover have "disk ?w2 = d" using table_frame_fields(1) [OF ltInternalizeL_frame [OF assms(1)]] by (simp add: newHandler_def)
  moreover have "lt_ok w' \<Longrightarrow> lt_ok ?w2" by (erule lt_ok_cong) simp_all
  ultimately show ?thesis by (intro exI [of _ ?w2]) simp
qed

lemma restored_fields [simp]:
  "iUrl (restored o1 i1 e) = iUrl e" "iFileName (restored o1 i1 e) = iFileName e" "iState (restored o1 i1 e) = ECacheComplete"
  "iBodySize (restored o1 i1 e) = iBodySize e" "iHeaderBuffer (restored o1 i1 e) = iHeaderBuffer e" "\<not> BodyDataCached (restored o1 i1 e)"
  by (simp_all add: restored_def entryNewL_def BodyDataCached_def writeStateBit_def)

lemma restored_finds:
  assumes ok: "lt_ok w" "lt_ok w2" and one: "one_url_each f w"
    and h: "heap w2 = map_of (zip as (map (\<lambda>p. restored o1 i1 (the (heap w p))) (ltToWrite w)))"
      "length as = length (ltToWrite w)" "distinct as"
    and e: "heap w p = Some e" "iBodySize e \<noteq> 0"
  shows "\<exists>q. heap w2 q = Some (restored o1 i1 e) \<and> ltFind f (iUrl e) w2 = Some (Some q)"
proof -
  let ?ps = "ltToWrite w" and ?r = "\<lambda>p. restored o1 i1 (the (heap w p))"
  have live: "set ?ps \<subseteq> dom (heap w)" "distinct ?ps" "p \<in> set ?ps"
    using lt_okD(5) [OF ok(1)] tbl_okD(2) [OF lt_okD(1) [OF ok(1)]] e by (auto simp: ltToWrite_def)
  then obtain i where i: "i < length ?ps" "?ps ! i = p" by (metis in_set_conv_nth)
  have hi: "heap w2 (as ! i) = Some (restored o1 i1 e)" using i h e(1) by (simp add: map_of_zip_nth)
  have "q = as ! i" if q: "heap w2 q = Some e'" "des_eqF f (iUrl e') (iUrl (restored o1 i1 e))" for q e'
  proof -
    have "(q, e') \<in> set (zip as (map ?r ?ps))" using q(1) h(1) by (simp add: map_of_SomeD)
    then obtain j where j: "j < length ?ps" "q = as ! j" "e' = ?r (?ps ! j)" using h(2) by (auto simp: set_zip)
    then obtain e1 where e1: "heap w (?ps ! j) = Some e1" using live(1) nth_mem by blast
    then have "?ps ! j = p" using one q(2) j(3) e(1) by (auto simp: one_url_each_def urlOf_def)
    then show ?thesis using i j(1,2) live(2) nth_eq_iff_index_eq by metis
  qed
  moreover have "usable (restored o1 i1 e)" using e(2) by (simp add: usable_def)
  ultimately have "ltFind f (iUrl (restored o1 i1 e)) w2 = Some (Some (as ! i))" using ltFind_the [OF ok(2) hi] by blast
  then show ?thesis using hi by auto
qed

lemma postponedD: "postponed io w p \<Longrightarrow> heap w p = Some e \<Longrightarrow> BodyDataCached e"
  by (auto simp: postponed_def split: option.splits)

lemma restored_reads:
  assumes q: "quiet_handler io ix dir w" and io: "ioOpen io" "ioRead io"
    and e: "heap w p = Some e" "iFileName e = Some n" and w2: "heap w2 q = Some (restored o1 i1 e)" "disk w2 n = finalBody w p"
    and b: "p \<in> set (iObjectQueue w) \<or> disk w n \<noteq> None"
  shows "NextChunkL io q w2 = NextChunkL io p w"
proof (cases "p \<in> set (iObjectQueue w)")
  case True
  then have "postponed io w p" "bodyAt w p \<noteq> []" using q unfolding quiet_handler_def by blast+
  then have "BodyDataCached e" "bodyAt w p \<noteq> []" using postponedD e(1) by blast+
  then show ?thesis using True e w2 io by (simp add: NextChunkL_def OpenBodyFile_def finalBody_def bodyAt_def)
next
  case False
  then have "\<not> BodyDataCached e" using q e by (simp add: quiet_handler_def)
  then show ?thesis using False b e w2 io by (auto simp: NextChunkL_def OpenBodyFile_def finalBody_def nameOf_def)
qed

text \<open>
  C3: the cache survives a restart. When a quiet handler is destroyed and a new one is built over
  the same disk, every entry with a body is there again: a lookup of its URL finds it, complete
  and with its headers, and its body reads back as before, whether it had been written already
  or only waited in the write queue. The new cache is consistent.
\<close>

theorem restart_keeps_cache:
  fixes w :: "'a index_world_scheme"
  assumes q: "quiet_handler io ix dir w" and one: "one_url_each f w"
    and room: "room_to_grow (length (ltToWrite w)) (length tblConstructL)"
    and ix: "\<forall>n. ixAlloc ix n" "ixReadErr ix = KErrNone" "\<forall>n. length (ixAddrs ix n) = n \<and> distinct (ixAddrs ix n)"
    and io: "ioOpen io" "ioRead io"
  shows "\<exists>w1 w2. chDestructor io ix dir w = Some w1 \<and>
    chNewL calm_construct io ix dir (newHandler aSize crit pp (iIndexPath w) (disk w1)) = Some (Inr w2) \<and> lt_ok w2 \<and>
    (\<forall>p e. heap w p = Some e \<longrightarrow> iBodySize e \<noteq> 0 \<longrightarrow>
       (\<exists>q e2. ltFind f (iUrl e) w2 = Some (Some q) \<and> heap w2 q = Some e2 \<and> iUrl e2 = iUrl e \<and> iState e2 = ECacheComplete \<and>
          iHeaderBuffer e2 = iHeaderBuffer e \<and> iBodySize e2 = iBodySize e \<and>
          (p \<in> set (iObjectQueue w) \<or> Option.bind (iFileName e) (disk w) \<noteq> None \<longrightarrow> NextChunkL io q w2 = NextChunkL io p w)))"
proof -
  note q' = q [unfolded quiet_handler_def]
  let ?ps = "ltToWrite w" and ?r = "\<lambda>p. restored (ixRealOut ix) (ixRealIn ix) (the (heap w p))"
  have wk: "lt_ok w" "\<forall>p \<in> set ?ps. storable dir (the (heap w p))" "length ?ps < 2 ^ 31" "dir \<noteq> []" "length dir < 2 ^ 31"
    "\<forall>t. length (ixRealOut ix t) = 8" "openTries 5 KErrNone (ixTries ix) = KErrNone" using q' by blast+
  have h0: "heap (newHandler aSize crit pp path d) = Map.empty" "length (iEntries (newHandler aSize crit pp path d)) = length tblConstructL"
    for path d by (simp_all add: newHandler_def)
  obtain bytes where bytes: "ltExternalizeL (ixRealOut ix) dir w = Some bytes"
    using index_roundtrip_gen [OF wk(1-6) ix(1) newHandler_ok h0(1) _ ix(3)] room h0(2) by metis
  obtain w1 where w1: "chDestructor io ix dir w = Some w1" "disk w1 (iIndexPath w) = Some bytes"
    "\<forall>p n. heap w p \<noteq> None \<longrightarrow> nameOf w p = Some n \<longrightarrow> disk w1 n = finalBody w p"
    using chDestructor_ok [OF q bytes] by blast
  let ?w0 = "newHandler aSize crit pp (iIndexPath w) (disk w1)"
  obtain w' where w': "ltInternalizeL (ixAlloc ix) (ixRealIn ix) dir (ixAddrs ix) bytes ?w0 = Some (KErrNone, w')" "lt_ok w'"
    "heap w' = map_of (zip (ixAddrs ix (length ?ps)) (map ?r ?ps))"
    using index_roundtrip_gen [OF wk(1-6) ix(1) newHandler_ok h0(1) _ ix(3)] room h0(2) bytes by (metis option.inject)
  have nb: "bytes \<noteq> []" using bytes by (auto simp: ltExternalizeL_def le32_def split: bind_splits)
  obtain w2 where w2: "chNewL calm_construct io ix dir ?w0 = Some (Inr w2)" "heap w2 = heap w'" "disk w2 = disk w1" "lt_ok w2"
    using chNewL_reads [OF w'(1) w1(2) nb wk(7) ix(2,1)] w'(2) by blast
  have h2: "heap w2 = map_of (zip (ixAddrs ix (length ?ps)) (map ?r ?ps))" using w2(2) w'(3) by simp
  have "\<exists>q e2. ltFind f (iUrl e) w2 = Some (Some q) \<and> heap w2 q = Some e2 \<and> iUrl e2 = iUrl e \<and> iState e2 = ECacheComplete \<and>
          iHeaderBuffer e2 = iHeaderBuffer e \<and> iBodySize e2 = iBodySize e \<and>
          (p \<in> set (iObjectQueue w) \<or> Option.bind (iFileName e) (disk w) \<noteq> None \<longrightarrow> NextChunkL io q w2 = NextChunkL io p w)"
    if e: "heap w p = Some e" "iBodySize e \<noteq> 0" for p e
  proof -
    obtain n where n: "iFileName e = Some n" using lt_okD(6) [OF wk(1) e(1)] by blast
    obtain q' where q': "heap w2 q' = Some (restored (ixRealOut ix) (ixRealIn ix) e)" "ltFind f (iUrl e) w2 = Some (Some q')"
      using restored_finds [OF wk(1) w2(4) one h2 _ _ e] ix(3) by blast
    have "disk w2 n = finalBody w p" using w1(3) e(1) n w2(3) by (simp add: nameOf_def)
    then have "p \<in> set (iObjectQueue w) \<or> disk w n \<noteq> None \<Longrightarrow> NextChunkL io q' w2 = NextChunkL io p w"
      using restored_reads [OF q io e(1) n q'(1)] by blast
    then show ?thesis using q' n by (intro exI [of _ q'] exI conjI) (rule q' | simp)+
  qed
  then show ?thesis using w1(1) w2(1,4) by blast
qed

text \<open>A saved entry, over a restart.\<close>

theorem restart_keeps_cache_witness:
  "\<exists>(w :: index_world) w1 w2 q e2. chDestructor calm calm_index [67] w = Some w1 \<and>
     chNewL calm_construct calm calm_index [67] (newHandler 1000 0 THttpCachePostponeParameters (iIndexPath w) (disk w1)) = Some (Inr w2) \<and>
     ltFind id [104] w2 = Some (Some q) \<and> heap w2 q = Some e2 \<and> iHeaderBuffer e2 = Some [65, 58]"
proof -
  obtain w :: index_world and e n where w: "lt_ok w" "heap w = [1 \<mapsto> e]" "savedEntry e [104] n [65, 58] [1, 2, 3]" "n \<noteq> [67]"
    "storable [67] e" "ltToWrite w = [1]"
    using one_saved_in_index by blast
  define v where "v = w\<lparr>iHttpCacheObserver := Some \<lparr>obActive = True, obStatus = None\<rparr>, iIndexPath := [67], fwActive := False, iObjectQueue := []\<rparr>"
  have v: "lt_ok v" "heap v = [1 \<mapsto> e]" "ltToWrite v = [1]"
    using lt_ok_cong [OF w(1), of v] w(2,6) by (simp_all add: v_def ltToWrite_def)
  have e: "iUrl e = [104]" "iBodySize e \<noteq> 0" "iHeaderBuffer e = Some [65, 58]" "iDeleteObserver e = None" "\<not> BodyDataCached e"
    "iFileName e = Some n" using w(3) by (simp_all add: savedEntry_def BodyDataCached_def writeStateBit_def)
  have q: "quiet_handler calm calm_index [67] v"
    unfolding quiet_handler_def
  proof (intro conjI)
    have nm: "nameOf v = (\<lambda>p. if p = 1 then Some n else None)" using v(2) e(6) by (auto simp: nameOf_def)
    show "inj_on (nameOf v) (dom (heap v))" using v(2) by (simp add: inj_on_def)
    show "\<forall>p. nameOf v p \<noteq> Some (iIndexPath v)" using nm w(4) by (simp add: v_def)
    show "\<forall>p e. heap v p = Some e \<longrightarrow> p \<notin> set (iObjectQueue v) \<longrightarrow> iDeleteObserver e = None \<and> \<not> BodyDataCached e"
      using v(2) e(4,5) by simp
    show "\<forall>p \<in> set (ltToWrite v). storable [67] (the (heap v p))" "length (ltToWrite v) < 2 ^ 31" using v w(5) by simp_all
    show "openTries 5 KErrNone (ixTries calm_index) = KErrNone" by (simp add: calm_index_def eval_nat_numeral)
    show "\<forall>t. length (ixRealOut calm_index t) = 8" by (simp add: calm_index_def flatOut_length)
  qed (use v(1) in \<open>simp_all add: v_def calm_def\<close>)
  have one: "one_url_each id v" using v(2) by (auto simp: one_url_each_def urlOf_def split: if_splits)
  have room: "room_to_grow (length (ltToWrite v)) (length tblConstructL)" using newTable_room v(3) by simp
  have ix: "\<forall>n. ixAlloc calm_index n" "ixReadErr calm_index = KErrNone" "\<forall>n. length (ixAddrs calm_index n) = n \<and> distinct (ixAddrs calm_index n)"
    by (simp_all add: calm_index_def)
  have io: "ioOpen calm" "ioRead calm" by (simp_all add: calm_def)
  have h1: "heap v 1 = Some e" using v(2) by simp
  have "\<exists>w1 w2. chDestructor calm calm_index [67] v = Some w1 \<and>
      chNewL calm_construct calm calm_index [67] (newHandler 1000 0 THttpCachePostponeParameters (iIndexPath v) (disk w1)) = Some (Inr w2) \<and>
      (\<exists>q e2. ltFind id (iUrl e) w2 = Some (Some q) \<and> heap w2 q = Some e2 \<and> iHeaderBuffer e2 = iHeaderBuffer e)"
    using restart_keeps_cache [OF q one room ix io, of 1000 0 THttpCachePostponeParameters] h1 e(2) by blast
  then show ?thesis unfolding e(1,3) by blast
qed

end
