(* ===== verification/HeaderPolicy.thy ===== *)
theory HeaderPolicy
  imports HeaderText "HOL-Library.Monad_Syntax"
begin

text \<open>
  What \<open>HttpCacheUtil\<close> decides from parsed HTTP headers (cache/src/HttpCacheUtil.cpp): the
  \<open>Cache-Control\<close> directives, freshness and age of a response, whether it may be cached,
  whether a cached one is replaced, and the headers of a conditional request. A header collection
  gives for every field the values of its parts. \<open>None\<close> is a panic of the header value class,
  which does not give out a value as a type it does not have. \<open>http_env\<close> holds what the
  platform answers: the clock (microseconds), folding, allocations, the conversion of a double
  product and the parsers the code only calls.
\<close>

datatype http_field =
    EDate | EExpires | ELastModified | EAge | ECacheControl | EContentType | EContentLength | EETag
  | EIfModifiedSince | EIfNoneMatch | ENoCache | ENoStore | EOtherField tdes8

datatype hdrval = KDateVal int | KTIntVal "32 word" | KStrVal tdes8 | KStrFVal tdes8

type_synonym fields = "http_field \<Rightarrow> hdrval list"

record http_env =
  hFold :: "byte \<Rightarrow> byte"
  hNow :: int
  hPartsErr :: symerr
  hPoolOk :: "tdes8 \<Rightarrow> bool"
  hAllocOk :: "nat \<Rightarrow> bool"
  hSetOk :: "http_field \<Rightarrow> bool"
  hTenth :: "int \<Rightarrow> int"
  hStack :: int
  hParseDate :: "tdes8 \<Rightarrow> int option"
  hDrmType :: tdes8

definition GetField :: "http_field \<Rightarrow> nat \<Rightarrow> fields \<Rightarrow> hdrval option" where
  "GetField f i h = (if i < length (h f) then Some (h f ! i) else None)"

primrec hdrDateTime :: "hdrval \<Rightarrow> int option" where
  "hdrDateTime (KDateVal t) = Some t"
| "hdrDateTime (KTIntVal _) = None"
| "hdrDateTime (KStrVal _) = None"
| "hdrDateTime (KStrFVal _) = None"

primrec hdrStrF :: "hdrval \<Rightarrow> tdes8 option" where
  "hdrStrF (KStrFVal s) = Some s"
| "hdrStrF (KDateVal _) = None"
| "hdrStrF (KTIntVal _) = None"
| "hdrStrF (KStrVal _) = None"

text \<open>Two pool strings are equal when their folded texts are.\<close>

definition strEq :: "http_env \<Rightarrow> tdes8 \<Rightarrow> string \<Rightarrow> bool" where
  "strEq env d s \<longleftrightarrow> des_eqF (hFold env) d (lit8 s)"

text \<open>A 64-bit integer, and division as the platform's integers do it.\<close>

definition tint64 :: "int \<Rightarrow> int" where
  "tint64 x = sint (word_of_int x :: 64 word)"

definition tquot :: "int \<Rightarrow> int \<Rightarrow> int" where
  "tquot a b = (if a < 0 then - ((- a) div b) else a div b)"

subsection \<open>Cache-Control\<close>

definition isSpace :: "byte \<Rightarrow> bool" where
  "isSpace c \<longleftrightarrow> c = 32 \<or> 9 \<le> c \<and> c \<le> 13"

definition isDigit :: "byte \<Rightarrow> bool" where
  "isDigit c \<longleftrightarrow> 48 \<le> c \<and> c \<le> 57"

definition decimal :: "tdes8 \<Rightarrow> nat" where
  "decimal ds = foldl (\<lambda>a d. 10 * a + (unat d - 48)) 0 ds"

text \<open>\<open>strtoul\<close> of the C library in base 10, with its saturation.\<close>

definition strtoul10 :: "tdes8 \<Rightarrow> 32 word" where
  "strtoul10 s =
    (let s1 = dropWhile isSpace s;
         neg = (s1 \<noteq> [] \<and> hd s1 = 45);
         s2 = (if s1 \<noteq> [] \<and> (hd s1 = 45 \<or> hd s1 = 43) then tl s1 else s1);
         n = decimal (takeWhile isDigit s2)
     in if n \<ge> 2 ^ 32 then - 1 else if neg then - of_nat n else of_nat n)"

text \<open>
  The error code and the value. The pointer past the digits is never null, so a value without
  digits is zero and not an error. The extra value of the other directives is only freed.
\<close>

definition ExtractCacheControlDirectiveValue :: "http_env \<Rightarrow> tdes8 \<Rightarrow> tdes8 \<Rightarrow> symerr \<times> int" where
  "ExtractCacheControlDirectiveValue env aDirective aValue =
    (if \<not> hAllocOk env (length aValue + 1) then (KErrNoMemory, - 1)
     else if strEq env aDirective ''max-age'' \<or> strEq env aDirective ''min-fresh'' \<or> strEq env aDirective ''s-maxage''
       then (KErrNone, sint (strtoul10 aValue))
     else if strEq env aDirective ''max-stale'' then (KErrNone, sint (strtoul10 aValue))
     else (KErrNone, - 1))"

text \<open>
  The state is the caller's directive (empty when closed) and value; a part that is no string
  and a directive without a value leave the latter alone.
\<close>

definition GetCacheControlDirective :: "http_env \<Rightarrow> fields \<Rightarrow> nat \<Rightarrow> tdes8 \<Rightarrow> int \<Rightarrow> (symerr \<times> tdes8 \<times> int) option" where
  "GetCacheControlDirective env h aIndex dir val =
    (case GetField ECacheControl aIndex h of
       Some (KStrVal _) \<Rightarrow> None
     | Some (KStrFVal cacheDir) \<Rightarrow>
       Some (case des_find cacheDir (lit8 ''='') of
         Some endPos \<Rightarrow>
           let d = take endPos cacheDir in
           if \<not> hPoolOk env d then (KErrNoMemory, dir, val)
           else (case ExtractCacheControlDirectiveValue env d (drop (endPos + 1) cacheDir) of
               (err, v) \<Rightarrow> if err \<noteq> KErrNone then (err, [], v) else (KErrNone, d, v))
       | None \<Rightarrow>
           if strEq env cacheDir ''max-age'' \<or> strEq env cacheDir ''min-fresh'' \<or> strEq env cacheDir ''s-maxage''
           then (KErrGeneral, [], val) else (KErrNone, cacheDir, val))
     | _ \<Rightarrow> Some (KErrNone, dir, val))"

record cache_controls =
  ccMaxAge :: int
  ccMinFresh :: int
  ccMaxStale :: int
  ccMustRevalidate :: bool
  ccNoCache :: bool
  ccNoStore :: bool

definition noControls :: cache_controls where
  "noControls = \<lparr>ccMaxAge = - 1, ccMinFresh = - 1, ccMaxStale = - 1, ccMustRevalidate = False,
     ccNoCache = False, ccNoStore = False\<rparr>"

definition setControl :: "http_env \<Rightarrow> tdes8 \<Rightarrow> int \<Rightarrow> cache_controls \<Rightarrow> cache_controls" where
  "setControl env dir val cc =
    (if strEq env dir ''max-age'' then cc\<lparr>ccMaxAge := val\<rparr>
     else if strEq env dir ''min-fresh'' then cc\<lparr>ccMinFresh := val\<rparr>
     else if strEq env dir ''max-stale'' then cc\<lparr>ccMaxStale := val\<rparr>
     else if strEq env dir ''must-revalidate'' then cc\<lparr>ccMustRevalidate := True\<rparr>
     else if strEq env dir ''no-cache'' then cc\<lparr>ccNoCache := True\<rparr>
     else if strEq env dir ''no-store'' then cc\<lparr>ccNoStore := True\<rparr>
     else cc)"

text \<open>The loop over the parts; a directive that fails ends it with its error.\<close>

fun cacheControlLoop :: "http_env \<Rightarrow> fields \<Rightarrow> nat list \<Rightarrow> int \<Rightarrow> cache_controls \<Rightarrow> (symerr \<times> cache_controls) option" where
  "cacheControlLoop env h [] val cc = Some (KErrNone, cc)"
| "cacheControlLoop env h (i # is) val cc = do {
     (status, dir, val) \<leftarrow> GetCacheControlDirective env h i [] val;
     if status = KErrNone then cacheControlLoop env h is val (setControl env dir val cc) else Some (status, cc) }"

text \<open>The output pointers a caller leaves null are fields it does not read.\<close>

definition GetCacheControls :: "http_env \<Rightarrow> fields \<Rightarrow> (symerr \<times> cache_controls) option" where
  "GetCacheControls env h =
    (if hPartsErr env = KErrNone then cacheControlLoop env h [0..<length (h ECacheControl)] (hStack env) noControls
     else Some (hPartsErr env, noControls))"

subsection \<open>Freshness\<close>

definition Freshness :: "http_env \<Rightarrow> fields \<Rightarrow> int \<Rightarrow> int option" where
  "Freshness env h aResponseTime = do {
     let date = (case GetField EDate 0 h of Some (KDateVal d) \<Rightarrow> d | _ \<Rightarrow> aResponseTime);
     (status, cc) \<leftarrow> GetCacheControls env h;
     Some (if status = KErrNone then
         if ccMaxAge cc \<noteq> - 1 then ccMaxAge cc * 1000 * 1000
         else (case GetField EExpires 0 h of
             Some v \<Rightarrow> (case v of KDateVal x \<Rightarrow> x | _ \<Rightarrow> 0) - date
           | None \<Rightarrow>
             (case GetField ELastModified 0 h of
                Some v \<Rightarrow>
                  let lastModified = (case v of KDateVal x \<Rightarrow> x | _ \<Rightarrow> 0) in
                  if aResponseTime > lastModified
                  then (aResponseTime - lastModified) + hTenth env (aResponseTime - lastModified) else 0
              | None \<Rightarrow> 0))
       else 0) }"

definition Age :: "http_env \<Rightarrow> fields \<Rightarrow> int \<Rightarrow> int \<Rightarrow> int" where
  "Age env h aRequestTime aResponseTime =
    (let now = hNow env;
         time = aRequestTime;
         requestTime = (if aRequestTime > now then now else aRequestTime);
         responseTime = (if aResponseTime > now then now else aResponseTime);
         requestTime = (if requestTime > responseTime then responseTime else requestTime);
         time = (if time > responseTime then responseTime else time);
         age = (case GetField EAge 0 h of Some (KTIntVal a) \<Rightarrow> sint a | _ \<Rightarrow> 0);
         apparentAge = max 0 (responseTime - time);
         correctedRecvAge = max apparentAge (age * 1000 * 1000);
         responseDelay = responseTime - requestTime;
         correctedInitialAge = correctedRecvAge + responseDelay;
         residentTime = now - responseTime
     in correctedInitialAge + residentTime)"

definition anyStale :: int where
  "anyStale = (2 ^ 31 - 1) * 2 ^ 32 + (2 ^ 31 - 1)"

definition CacheTimeIsFresh :: "http_env \<Rightarrow> fields \<Rightarrow> fields \<Rightarrow> bool option" where
  "CacheTimeIsFresh env aRequestHeaders aCachedHeaders = do {
     let date = (case GetField EDate 0 aCachedHeaders of Some (KDateVal d) \<Rightarrow> d | _ \<Rightarrow> 0);
     (status, cc) \<leftarrow> GetCacheControls env aCachedHeaders;
     if status = KErrNone \<and> ccMaxAge cc = 0 then Some False
     else do {
       freshness \<leftarrow> Freshness env aCachedHeaders date;
       let age = Age env aCachedHeaders date date;
       (status, rc) \<leftarrow> GetCacheControls env aRequestHeaders;
       Some (if status = KErrNone then
           let freshness = (if ccMaxStale rc \<noteq> - 1
                 then if ccMaxStale rc = anyStale then anyStale
                      else tint64 (freshness + tint64 (ccMaxStale rc * 1000 * 1000))
                 else freshness) in
           if ccMinFresh rc \<noteq> - 1 \<and> age + ccMinFresh rc * 1000 * 1000 > freshness then False
           else if ccMaxAge rc \<noteq> - 1 \<and> age > ccMaxAge rc * 1000 * 1000 then False
           else freshness \<noteq> 0 \<and> age \<le> freshness
         else False) } }"

subsection \<open>Conditional requests and expiration\<close>

definition AddValidationHeaders :: "http_env \<Rightarrow> fields \<Rightarrow> fields \<Rightarrow> fields" where
  "AddValidationHeaders env aCachedHeaders aRequestHeaders =
    (let h1 = (case GetField ELastModified 0 aCachedHeaders of
           Some lastMod \<Rightarrow> if hSetOk env EIfModifiedSince then aRequestHeaders(EIfModifiedSince := [lastMod]) else aRequestHeaders
         | None \<Rightarrow> aRequestHeaders)
     in (case GetField EETag 0 aCachedHeaders of
           Some eTag \<Rightarrow> if hSetOk env EIfNoneMatch then h1(EIfNoneMatch := [eTag]) else h1
         | None \<Rightarrow> h1))"

definition PragmaNoCache :: "fields \<Rightarrow> bool" where
  "PragmaNoCache requestHeaders \<longleftrightarrow> GetField ENoCache 0 requestHeaders \<noteq> None \<or> GetField ENoStore 0 requestHeaders \<noteq> None"

text \<open>\<open>MinutesFrom\<close> and \<open>HoursFrom\<close> fail when the interval does not fit 32 bits.\<close>

definition intervalFrom :: "int \<Rightarrow> int \<Rightarrow> int \<Rightarrow> int option" where
  "intervalFrom unit a b = (let n = tquot (a - b) unit in if - (2 ^ 31) \<le> n \<and> n < 2 ^ 31 then Some n else None)"

definition perMinute :: int where "perMinute = 60 * 1000000"
definition perHour :: int where "perHour = 60 * perMinute"
definition perDay :: int where "perDay = 24 * perHour"

definition AdjustExpirationTimeL :: "http_env \<Rightarrow> fields \<Rightarrow> (symerr \<times> fields) option" where
  "AdjustExpirationTimeL env h =
    (case GetField EExpires 0 h of
       None \<Rightarrow> Some (KErrNone, h)
     | Some v \<Rightarrow> do {
         expDate \<leftarrow> hdrDateTime v;
         let newDate = (case intervalFrom perMinute expDate (hNow env) of
               Some minutes \<Rightarrow> expDate + minutes * perMinute
             | None \<Rightarrow> (case intervalFrom perHour expDate (hNow env) of
                 Some hours \<Rightarrow> expDate + hours * perHour
               | None \<Rightarrow> expDate + tquot (expDate - hNow env) perDay * perDay));
         let h1 = h(EExpires := []);
         Some (if hSetOk env EExpires then (KErrNone, h1(EExpires := [KDateVal newDate])) else (KErrNoMemory, h1)) })"

text \<open>\<open>AdjustResponseTime\<close> of the cache handler: a date in the future becomes the current time.\<close>

definition AdjustResponseTime :: "http_env \<Rightarrow> fields \<Rightarrow> fields" where
  "AdjustResponseTime env h =
    (let serverResponseTime = (case GetField EDate 0 h of Some (KDateVal d) \<Rightarrow> d | _ \<Rightarrow> 0) in
     if hNow env < serverResponseTime then
       let h1 = h(EDate := []) in
       if hSetOk env EDate then h1(EDate := [KDateVal (hNow env)]) else h1
     else h)"

subsection \<open>Replacing a cached response\<close>

text \<open>
  A date of the new response with the one in the cached text, which is 0 when it is absent there;
  the inner error is the leave of the date parser.
\<close>

definition updateDates :: "http_env \<Rightarrow> fields \<Rightarrow> http_field \<Rightarrow> string \<Rightarrow> tdes8 \<Rightarrow> (symerr + (bool \<times> int \<times> int)) option" where
  "updateDates env h f name aCachedHeadersStr =
    (case GetField f 0 h of
       None \<Rightarrow> Some (Inr (False, 0, 0))
     | Some v \<Rightarrow> do {
         responseDate \<leftarrow> hdrDateTime v;
         valueStr \<leftarrow> HeaderFieldFromBufferLC aCachedHeadersStr (lit8 name);
         Some (case valueStr of
             None \<Rightarrow> Inr (False, 0, responseDate)
           | Some s \<Rightarrow> (case hParseDate env s of None \<Rightarrow> Inl KErrCorrupt | Some d \<Rightarrow> Inr (True, d, responseDate))) })"

definition updateETag :: "http_env \<Rightarrow> fields \<Rightarrow> tdes8 \<Rightarrow> (tdes8 \<times> tdes8) option option" where
  "updateETag env h aCachedHeadersStr =
    (case GetField EETag 0 h of
       None \<Rightarrow> Some None
     | Some v \<Rightarrow> do {
         responseETag \<leftarrow> hdrStrF v;
         valueStr \<leftarrow> HeaderFieldFromBufferLC aCachedHeadersStr (lit8 ''ETag'');
         Some (case valueStr of
             None \<Rightarrow> None
           | Some s \<Rightarrow> if hPoolOk env s then Some (s, responseETag) else None) })"

definition CacheNeedsUpdateL :: "http_env \<Rightarrow> fields \<Rightarrow> tdes8 \<Rightarrow> (symerr + bool) option" where
  "CacheNeedsUpdateL env aResponseHeaders aCachedHeadersStr = do {
     date \<leftarrow> updateDates env aResponseHeaders EDate ''Date'' aCachedHeadersStr;
     case date of Inl err \<Rightarrow> Some (Inl err)
     | Inr (eDate, cachedDate, responseDate) \<Rightarrow> do {
         modified \<leftarrow> updateDates env aResponseHeaders ELastModified ''Last-Modified'' aCachedHeadersStr;
         case modified of Inl err \<Rightarrow> Some (Inl err)
         | Inr (eLastModified, cachedLastModified, responseLastModified) \<Rightarrow> do {
             eTag \<leftarrow> updateETag env aResponseHeaders aCachedHeadersStr;
             Some (Inr (
               if eDate \<and> cachedDate > responseDate then False
               else if (case eTag of None \<Rightarrow> False | Some (c, r) \<Rightarrow> \<not> des_eqF (hFold env) c r) then True
               else if eLastModified \<and> cachedLastModified > responseLastModified then False
               else True)) } } }"

subsection \<open>Which responses are cached\<close>

datatype TCacheLoadMethod =
    EMethodGet | EMethodConnect | EMethodDelete | EMethodHead | EMethodOptions | EMethodPut | EMethodPost | EMethodTrace

definition MethodFromStr :: "http_env \<Rightarrow> tdes8 \<Rightarrow> TCacheLoadMethod" where
  "MethodFromStr env m =
    (if strEq env m ''GET'' then EMethodGet
     else if strEq env m ''CONNECT'' then EMethodConnect
     else if strEq env m ''DELETE'' then EMethodDelete
     else if strEq env m ''HEAD'' then EMethodHead
     else if strEq env m ''OPTIONS'' then EMethodOptions
     else if strEq env m ''PUT'' then EMethodPut
     else if strEq env m ''POST'' then EMethodPost
     else if strEq env m ''TRACE'' then EMethodTrace
     else EMethodGet)"

definition ProtectedEntry :: "fields \<Rightarrow> bool" where
  "ProtectedEntry h =
    (case GetField EContentType 0 h of
       Some (KStrFVal s) \<Rightarrow> des_find s (lit8 ''text/css'') \<noteq> None \<or> des_find s (lit8 ''javascript'') \<noteq> None
     | _ \<Rightarrow> False)"

text \<open>What \<open>IsCacheable\<close> reads from the transaction beside the response headers.\<close>

record transaction =
  txStatus :: nat
  txMethod :: tdes8
  txQuery :: bool

definition statusCacheable :: "nat \<Rightarrow> bool \<Rightarrow> bool" where
  "statusCacheable code hasExplicitCache =
    (if code \<in> {200, 304, 301, 410} then True else if code \<in> {302, 307} then hasExplicitCache else False)"

definition methodCacheable :: "TCacheLoadMethod \<Rightarrow> bool \<Rightarrow> bool \<Rightarrow> bool" where
  "methodCacheable m isQuery hasExplicitCache =
    (case m of EMethodGet \<Rightarrow> \<not> (isQuery \<and> \<not> hasExplicitCache) | EMethodPost \<Rightarrow> hasExplicitCache | _ \<Rightarrow> False)"

text \<open>
  The result and the protection of the entry. The content length is compared as an unsigned
  number; the expiry date is read without a look at its type.
\<close>

definition IsCacheable :: "http_env \<Rightarrow> transaction \<Rightarrow> fields \<Rightarrow> 32 word \<Rightarrow> (bool \<times> bool) option" where
  "IsCacheable env tx h aMaxSize = do {
     drm \<leftarrow> (case GetField EContentType 0 h of None \<Rightarrow> Some False
             | Some v \<Rightarrow> map_option (\<lambda>s. des_eqF (hFold env) s (hDrmType env)) (hdrStrF v));
     if drm then Some (False, False)
     else if (case GetField EContentLength 0 h of Some (KTIntVal n) \<Rightarrow> n > aMaxSize | _ \<Rightarrow> False) then Some (False, False)
     else do {
       (status, cc) \<leftarrow> GetCacheControls env h;
       if status \<noteq> KErrNone then Some (True, ProtectedEntry h)
       else if ccNoCache cc \<or> ccNoStore cc then Some (False, False)
       else do {
         expires \<leftarrow> (case GetField EExpires 0 h of None \<Rightarrow> Some (hNow env) | Some v \<Rightarrow> hdrDateTime v);
         if ccMaxAge cc = 0 \<and> hNow env > expires then Some (False, ProtectedEntry h)
         else
           let hasExplicitCache = (GetField EExpires 0 h \<noteq> None \<or> ccMaxAge cc > 0) in
           Some (statusCacheable (txStatus tx) hasExplicitCache \<and>
                   methodCacheable (MethodFromStr env (txMethod tx)) (txQuery tx) hasExplicitCache,
                 ProtectedEntry h) } } }"

subsection \<open>Operator and phone specific content\<close>

text \<open>\<open>uriParse\<close> is the platform's parser: the host and the path of a URI.\<close>

type_synonym uri_parse = "tdes8 \<Rightarrow> (tdes8 \<times> tdes8) option"

definition OperatorCacheContent :: "uri_parse \<Rightarrow> (byte \<Rightarrow> byte) \<Rightarrow> tdes8 \<Rightarrow> tdes8 \<Rightarrow> bool" where
  "OperatorCacheContent uriParse fold_ch aOpDomain aUrl =
    (case (uriParse aOpDomain, uriParse aUrl) of
       (Some (opHost, opPath), Some (urlHost, urlPath)) \<Rightarrow>
         opHost = urlHost \<and> (opPath = [] \<or> urlPath \<noteq> [] \<and> des_findF fold_ch urlPath opPath = Some 0)
     | _ \<Rightarrow> False)"

text \<open>
  The white list is walked with an index and a pointer. The inner loop advances both to the next
  semicolon; \<open>mem\<close> is the memory from the first byte of the list on, so that what lies behind the
  list can be read. The result lists the domains that are tried, in order.
\<close>

function vssSkip :: "(nat \<Rightarrow> byte) \<Rightarrow> nat \<Rightarrow> nat \<Rightarrow> nat \<Rightarrow> nat \<times> nat" where
  "vssSkip mem len i bufPtr =
    (if mem bufPtr \<noteq> 59 \<and> i < len then vssSkip mem len (Suc i) (Suc bufPtr) else (i, bufPtr))"
  by pat_completeness auto
termination by (relation "measure (\<lambda>(_, len, i, _). len - i)") auto

declare vssSkip.simps [simp del]

lemma vssSkip_ge: "vssSkip mem len i b = (i', b') \<Longrightarrow> i \<le> i'"
proof (induction mem len i b rule: vssSkip.induct)
  case (1 mem len i b)
  then show ?case by (subst (asm) (2) vssSkip.simps) (auto split: if_splits dest: Suc_leD)
qed

function vssDomains :: "(nat \<Rightarrow> byte) \<Rightarrow> nat \<Rightarrow> nat \<Rightarrow> nat \<Rightarrow> nat \<Rightarrow> tdes8 list" where
  "vssDomains mem len i startBufPtr bufPtr =
    (if i < len then
       (case vssSkip mem len i bufPtr of (i', bufPtr') \<Rightarrow>
          let uriLen = (if i' = len then i' - i + 2 else i' - i) in
          map mem [startBufPtr..<startBufPtr + uriLen] #
          vssDomains mem len (i' + 2) (Suc bufPtr') (Suc bufPtr'))
     else [])"
  by pat_completeness auto
termination
  by (relation "measure (\<lambda>(_, len, i, _, _). len - i)") (auto dest!: vssSkip_ge [OF sym])

declare vssDomains.simps [simp del]

definition VSSCacheContent :: "uri_parse \<Rightarrow> (byte \<Rightarrow> byte) \<Rightarrow> tdes8 \<Rightarrow> ((nat \<Rightarrow> byte) \<times> nat) option \<Rightarrow> bool" where
  "VSSCacheContent uriParse fold_ch aUrl aWhiteList =
    (case aWhiteList of None \<Rightarrow> False
     | Some (mem, len) \<Rightarrow> (\<exists>d \<in> set (vssDomains mem len 0 0 0). OperatorCacheContent uriParse fold_ch d aUrl))"

end
