(* ===== verification/PolicySpec.thy ===== *)
theory PolicySpec
  imports HeaderPolicy
begin

text \<open>
  What the header decisions guarantee: freshness only ends with time and agrees with the age and
  lifetime of RFC 2616 section 13.2; a well-formed \<open>no-store\<close> is obeyed; and the inputs at which
  the decisions go wrong.
\<close>

subsection \<open>Freshness over time\<close>

lemma strEq_length: "strEq env d s \<Longrightarrow> length d = length s"
  by (auto simp: strEq_def des_eqF_def lit8_def dest: map_eq_imp_length_eq)

lemma strEq_now [simp]: "strEq (env\<lparr>hNow := t\<rparr>) d s = strEq env d s"
  by (simp add: strEq_def)

lemma extract_now [simp]: "ExtractCacheControlDirectiveValue (env\<lparr>hNow := t\<rparr>) = ExtractCacheControlDirectiveValue env"
  by (simp add: ExtractCacheControlDirectiveValue_def fun_eq_iff)

lemma directive_now [simp]: "GetCacheControlDirective (env\<lparr>hNow := t\<rparr>) h i dir val = GetCacheControlDirective env h i dir val"
  by (simp add: GetCacheControlDirective_def Let_def split: option.split hdrval.split)

lemma loop_now: "cacheControlLoop (env\<lparr>hNow := t\<rparr>) h is val cc = cacheControlLoop env h is val cc"
proof (induction "is" arbitrary: val cc)
  case (Cons i "is")
  have "setControl (env\<lparr>hNow := t\<rparr>) d v c = setControl env d v c" for d v c
    by (simp add: setControl_def)
  then show ?case using Cons.IH
    by (cases "GetCacheControlDirective env h i [] val") auto
qed simp

lemma controls_now [simp]: "GetCacheControls (env\<lparr>hNow := t\<rparr>) h = GetCacheControls env h"
  by (simp add: GetCacheControls_def loop_now)

lemma Freshness_now [simp]: "Freshness (env\<lparr>hNow := t\<rparr>) h r = Freshness env h r"
  by (cases "GetCacheControls env h") (auto simp: Freshness_def Let_def split: option.split)

lemma Age_mono:
  assumes "t1 \<le> t2"
  shows "Age (env\<lparr>hNow := t1\<rparr>) h d d \<le> Age (env\<lparr>hNow := t2\<rparr>) h d d"
  using assms by (simp add: Age_def Let_def max_def)

lemma Age_ref:
  "d \<le> hNow env \<Longrightarrow> Age env h d d = max 0 (case GetField EAge 0 h of Some (KTIntVal a) \<Rightarrow> sint a * 1000000 | _ \<Rightarrow> 0) + (hNow env - d)"
  by (simp add: Age_def Let_def mult.commute split: option.splits hdrval.splits)

text \<open>The last part of the decision, once the directives of both sides are known.\<close>

definition freshWithin :: "int \<Rightarrow> int \<Rightarrow> cache_controls \<Rightarrow> bool" where
  "freshWithin age f rc \<longleftrightarrow>
     (let f1 = (if ccMaxStale rc = - 1 then f else if ccMaxStale rc = anyStale then anyStale
                else tint64 (f + tint64 (ccMaxStale rc * 1000 * 1000)))
      in \<not> (ccMinFresh rc \<noteq> - 1 \<and> f1 < age + ccMinFresh rc * 1000 * 1000) \<and>
         \<not> (ccMaxAge rc \<noteq> - 1 \<and> ccMaxAge rc * 1000 * 1000 < age) \<and> f1 \<noteq> 0 \<and> age \<le> f1)"

lemma freshWithin_mono: "freshWithin a2 f rc \<Longrightarrow> a1 \<le> a2 \<Longrightarrow> freshWithin a1 f rc"
  unfolding freshWithin_def Let_def by linarith

definition dateOf :: "fields \<Rightarrow> int" where
  "dateOf h = (case GetField EDate 0 h of Some (KDateVal d) \<Rightarrow> d | _ \<Rightarrow> 0)"

lemma fresh_iff:
  "CacheTimeIsFresh env rq c = Some True \<longleftrightarrow>
    (\<exists>s cc f rc. GetCacheControls env c = Some (s, cc) \<and> \<not> (s = KErrNone \<and> ccMaxAge cc = 0) \<and>
       Freshness env c (dateOf c) = Some f \<and> GetCacheControls env rq = Some (KErrNone, rc) \<and>
       freshWithin (Age env c (dateOf c) (dateOf c)) f rc)"
proof (cases "GetCacheControls env c")
  case c: (Some a)
  obtain s cc where a: "a = (s, cc)" by (cases a)
  show ?thesis
  proof (cases "Freshness env c (dateOf c)")
    case f: (Some f)
    show ?thesis
    proof (cases "GetCacheControls env rq")
      case None
      then show ?thesis by (simp add: CacheTimeIsFresh_def dateOf_def [symmetric] c f a Let_def)
    next
      case rq: (Some b)
      obtain r rc where b: "b = (r, rc)" by (cases b)
      show ?thesis
        by (simp add: CacheTimeIsFresh_def dateOf_def [symmetric] c f a rq b freshWithin_def Let_def)
    qed
  qed (simp add: CacheTimeIsFresh_def dateOf_def [symmetric] a c Let_def)
qed (simp add: CacheTimeIsFresh_def)

lemma fresh_before:
  "CacheTimeIsFresh (env\<lparr>hNow := t2\<rparr>) rq c = Some True \<Longrightarrow> t1 \<le> t2 \<Longrightarrow> CacheTimeIsFresh (env\<lparr>hNow := t1\<rparr>) rq c = Some True"
  using freshWithin_mono [OF _ Age_mono] unfolding fresh_iff by fastforce

text \<open>
  A cached response that is fresh at some time was fresh at every earlier time, whatever its
  headers and those of the request are: a response never becomes fresh again by waiting, so a
  stale answer is not given out later.
\<close>

theorem fresh_only_ends:
  assumes "CacheTimeIsFresh (env\<lparr>hNow := t2\<rparr>) aRequestHeaders aCachedHeaders = Some True" "t1 \<le> t2"
  shows "CacheTimeIsFresh (env\<lparr>hNow := t1\<rparr>) aRequestHeaders aCachedHeaders = Some True"
  by (rule fresh_before [OF assms])

subsection \<open>The reference\<close>

text \<open>RFC 2616, 13.2.3 and 13.2.4, with the times at which the code says the request was sent and answered.\<close>

definition rfc_current_age :: "int \<Rightarrow> int \<Rightarrow> int \<Rightarrow> int \<Rightarrow> int \<Rightarrow> int" where
  "rfc_current_age now date_value age_value request_time response_time =
    (let apparent_age = max 0 (response_time - date_value);
         corrected_received_age = max apparent_age age_value;
         response_delay = response_time - request_time;
         corrected_initial_age = corrected_received_age + response_delay;
         resident_time = now - response_time
     in corrected_initial_age + resident_time)"

definition rfc_lifetime :: "int option \<Rightarrow> int option \<Rightarrow> int \<Rightarrow> int option" where
  "rfc_lifetime max_age expires date_value =
    (case max_age of Some m \<Rightarrow> Some (m * 1000000)
     | None \<Rightarrow> map_option (\<lambda>x. x - date_value) expires)"

definition ageValue :: "fields \<Rightarrow> int" where
  "ageValue h = (case GetField EAge 0 h of Some (KTIntVal a) \<Rightarrow> sint a * 1000000 | _ \<Rightarrow> 0)"

definition maxAgeOf :: "cache_controls \<Rightarrow> int option" where
  "maxAgeOf cc = (if ccMaxAge cc = - 1 then None else Some (ccMaxAge cc))"

definition expiresOf :: "fields \<Rightarrow> int option" where
  "expiresOf h = map_option (\<lambda>v. case v of KDateVal x \<Rightarrow> x | _ \<Rightarrow> 0) (GetField EExpires 0 h)"


subsection \<open>Concrete headers\<close>

definition plain_http :: http_env where
  "plain_http = \<lparr>hFold = id, hNow = 5000000000, hPartsErr = KErrNone, hPoolOk = (\<lambda>_. True), hAllocOk = (\<lambda>_. True),
     hSetOk = (\<lambda>_. True), hTenth = (\<lambda>x. x div 10), hStack = 0, hParseDate = (\<lambda>_. None),
     hDrmType = lit8 ''application/vnd.oma.drm.message''\<rparr>"

definition noFields :: fields where
  "noFields = (\<lambda>_. [])"

definition tx_get :: "nat \<Rightarrow> transaction" where
  "tx_get code = \<lparr>txStatus = code, txMethod = lit8 ''GET'', txQuery = False\<rparr>"

text \<open>A response of 1000 seconds, dated 4000 seconds after the start of the clock.\<close>

definition aged_response :: fields where
  "aged_response = noFields(EDate := [KDateVal 4000000000], ECacheControl := [KStrFVal (lit8 ''max-age=1000'')])"

lemma aged_controls: "GetCacheControls plain_http aged_response = Some (KErrNone, noControls\<lparr>ccMaxAge := 1000\<rparr>)"
  by (simp add: GetCacheControls_def GetCacheControlDirective_def ExtractCacheControlDirectiveValue_def GetField_def
      aged_response_def plain_http_def lit8_def strEq_def des_eqF_def setControl_def strtoul10_def isSpace_def isDigit_def
      decimal_def)


lemma aged_is_fresh: "CacheTimeIsFresh plain_http noFields aged_response = Some True"
proof -
  have "GetCacheControls plain_http noFields = Some (KErrNone, noControls)"
    by (simp add: GetCacheControls_def noFields_def plain_http_def)
  moreover have "Freshness plain_http aged_response 4000000000 = Some 1000000000"
    by (simp add: Freshness_def aged_controls)
  ultimately show ?thesis
    unfolding fresh_iff using aged_controls
    by (simp add: dateOf_def aged_response_def GetField_def noFields_def freshWithin_def noControls_def Age_def Let_def plain_http_def)
qed

theorem fresh_only_ends_witness:
  "CacheTimeIsFresh (plain_http\<lparr>hNow := 4000000001\<rparr>) noFields aged_response = Some True"
proof -
  have "CacheTimeIsFresh (plain_http\<lparr>hNow := 5000000000\<rparr>) noFields aged_response = Some True"
    using aged_is_fresh by (simp add: plain_http_def)
  from fresh_only_ends [OF this, of 4000000001] show ?thesis by simp
qed

subsection \<open>Well-formed directives are obeyed\<close>

lemma setControl_forbids_mono:
  "ccNoCache cc \<or> ccNoStore cc \<Longrightarrow> ccNoCache (setControl env d v cc) \<or> ccNoStore (setControl env d v cc)"
  by (simp add: setControl_def)

lemma setControl_no_store: "strEq env d ''no-store'' \<Longrightarrow> ccNoCache (setControl env d v cc) \<or> ccNoStore (setControl env d v cc)"
proof -
  assume h: "strEq env d ''no-store''"
  have "length s \<noteq> 8 \<Longrightarrow> \<not> strEq env d s" for s using strEq_length [OF h] strEq_length [of env d s] by auto
  then show ?thesis using h by (simp add: setControl_def)
qed

lemma loop_forbids_mono:
  "cacheControlLoop env h is val cc = Some (KErrNone, cc') \<Longrightarrow> ccNoCache cc \<or> ccNoStore cc \<Longrightarrow> ccNoCache cc' \<or> ccNoStore cc'"
proof (induction "is" arbitrary: val cc)
  case (Cons i "is")
  obtain s d v where 1: "GetCacheControlDirective env h i [] val = Some (s, d, v)"
    using Cons.prems(1) by (auto split: bind_splits)
  then show ?case using Cons.prems Cons.IH [of v "setControl env d v cc"] setControl_forbids_mono
    by (auto split: if_splits)
qed simp

lemma loop_no_store:
  "cacheControlLoop env h is val cc = Some (KErrNone, cc') \<Longrightarrow> i \<in> set is \<Longrightarrow>
   GetField ECacheControl i h = Some (KStrFVal d) \<Longrightarrow> des_find d (lit8 ''='') = None \<Longrightarrow> strEq env d ''no-store'' \<Longrightarrow>
   ccNoCache cc' \<or> ccNoStore cc'"
proof (induction "is" arbitrary: val cc)
  case (Cons k "is")
  obtain s e v where 1: "GetCacheControlDirective env h k [] val = Some (s, e, v)"
    using Cons.prems(1) by (auto split: bind_splits)
  have 2: "s = KErrNone" "cacheControlLoop env h is v (setControl env e v cc) = Some (KErrNone, cc')"
    using Cons.prems(1) 1 by (auto split: if_splits)
  show ?case
  proof (cases "k = i")
    case True
    have "e = d" using 1 2(1) Cons.prems(3,4) True by (auto simp: GetCacheControlDirective_def split: if_splits)
    then show ?thesis using loop_forbids_mono [OF 2(2)] setControl_no_store Cons.prems(5) by blast
  next
    case False
    then show ?thesis using Cons.IH [OF 2(2)] Cons.prems by auto
  qed
qed simp

text \<open>
  A response whose \<open>Cache-Control\<close> field can be read and has a \<open>no-store\<close> directive is not
  cached, whatever the other directives, the status and the method are, and is not protected.
\<close>

theorem no_store_is_obeyed:
  assumes "GetCacheControls env h = Some (KErrNone, cc)"
    and "GetField ECacheControl i h = Some (KStrFVal d)" "des_find d (lit8 ''='') = None" "strEq env d ''no-store''"
    and "GetField EContentType 0 h = None \<or> (\<exists>s. GetField EContentType 0 h = Some (KStrFVal s))"
  shows "IsCacheable env tx h aMaxSize = Some (False, False)"
proof -
  have "i < length (h ECacheControl)" using assms(2) by (auto simp: GetField_def split: if_splits)
  moreover have "hPartsErr env = KErrNone" using assms(1) by (auto simp: GetCacheControls_def split: if_splits)
  ultimately have "ccNoCache cc \<or> ccNoStore cc"
    using loop_no_store [OF _ _ assms(2-4)] assms(1) by (auto simp: GetCacheControls_def)
  then show ?thesis using assms(1,5) by (auto simp: IsCacheable_def split: hdrval.splits)
qed

lemmas directive_eval = GetCacheControls_def GetCacheControlDirective_def ExtractCacheControlDirectiveValue_def GetField_def
  plain_http_def lit8_def strEq_def des_eqF_def setControl_def strtoul10_def isSpace_def isDigit_def decimal_def

definition private_response :: fields where
  "private_response = noFields(ECacheControl := [KStrFVal (lit8 ''max-age=60''), KStrFVal (lit8 ''no-store'')])"

theorem no_store_is_obeyed_witness:
  "IsCacheable plain_http (tx_get 200) private_response 1000 = Some (False, False)"
proof -
  have "GetCacheControls plain_http private_response = Some (KErrNone, noControls\<lparr>ccMaxAge := 60, ccNoStore := True\<rparr>)"
    by (simp add: directive_eval private_response_def)
  then show ?thesis
    by (rule no_store_is_obeyed [where i = 1 and d = "lit8 ''no-store''"])
      (simp_all add: directive_eval private_response_def noFields_def)
qed

text \<open>
  One directive that cannot be read switches the others off. With \<open>Cache-Control: max-age,
  no-store\<close> the missing value ends the reading with an error, and on an error \<open>IsCacheable\<close>
  skips every check: the response is cached although it forbids it, even with status 404.
\<close>

theorem unreadable_directive_is_cached:
  "IsCacheable plain_http (tx_get 404)
     (noFields(ECacheControl := [KStrFVal (lit8 ''max-age''), KStrFVal (lit8 ''no-store'')])) 1000 = Some (True, False)"
  by (simp add: directive_eval IsCacheable_def ProtectedEntry_def noFields_def)

text \<open>
  The check of the expiry date asks for \<open>max-age\<close> to be zero where it means absent. A
  response that expired before it arrived and has no \<open>max-age\<close> is therefore cached, and its
  expiry date even counts as an explicit permission; and an age beyond 31 bits is read as
  negative, or as absent when it is all ones.
\<close>

theorem expired_response_is_cached:
  "IsCacheable plain_http (tx_get 302) (noFields(EExpires := [KDateVal 1])) 1000 = Some (True, False) \<and>
   CacheTimeIsFresh plain_http noFields (noFields(ECacheControl := [KStrFVal (lit8 ''max-age=3000000000'')])) = Some False \<and>
   map_option (ccMaxAge \<circ> snd)
     (GetCacheControls plain_http (noFields(ECacheControl := [KStrFVal (lit8 ''max-age=4294967295'')]))) = Some (- 1)"
  by (simp add: directive_eval IsCacheable_def ProtectedEntry_def noFields_def tx_get_def statusCacheable_def methodCacheable_def
      MethodFromStr_def CacheTimeIsFresh_def Freshness_def Age_def noControls_def)

subsection \<open>The white list of the phone specific cache\<close>

text \<open>The list as it is stored: the domains with semicolons between them.\<close>

definition vssText :: "tdes8 list \<Rightarrow> tdes8" where
  "vssText ds = concat (map (\<lambda>d. d @ [59]) (butlast ds)) @ last ds"

lemma vssSkip_run:
  "i + k \<le> len \<Longrightarrow> \<forall>j < k. mem (b + j) \<noteq> 59 \<Longrightarrow> vssSkip mem len i b = vssSkip mem len (i + k) (b + k)"
proof (induction k arbitrary: i b)
  case (Suc k)
  have "vssSkip mem len i b = vssSkip mem len (Suc i) (Suc b)"
    using Suc.prems by (subst vssSkip.simps) auto
  also have "\<dots> = vssSkip mem len (Suc i + k) (Suc b + k)"
  proof (rule Suc.IH)
    show "\<forall>j<k. mem (Suc b + j) \<noteq> 59" using Suc.prems(2) by auto
  qed (use Suc.prems in simp)
  finally show ?case by simp
qed simp

lemma vssSkip_stop: "mem b = 59 \<or> len \<le> i \<Longrightarrow> vssSkip mem len i b = (i, b)"
  by (subst vssSkip.simps) auto

lemma vssDomains_done [simp]: "len \<le> i \<Longrightarrow> vssDomains mem len i s b = []"
  by (subst vssDomains.simps) simp

text \<open>\<open>j\<close> domains have been passed, so the index is \<open>j\<close> ahead of the pointer \<open>b\<close>.\<close>

lemma vssDomains_run:
  "(\<forall>d \<in> set ds. 59 \<notin> set d) \<Longrightarrow> 59 \<notin> set l \<Longrightarrow> j + length ds < length l \<Longrightarrow> len = b + length (vssText (ds @ [l])) \<Longrightarrow>
   (\<forall>n < length (vssText (ds @ [l])). mem (b + n) = vssText (ds @ [l]) ! n) \<Longrightarrow>
   vssDomains mem len (b + j) b b =
     ds @ [map mem [len - length l..<len - length l + (length l - (j + length ds) + 2)]]"
proof (induction ds arbitrary: b j)
  case Nil
  have len: "len = b + length l" using Nil.prems(4) by (simp add: vssText_def)
  have no: "\<forall>n < length l - j. mem (b + n) \<noteq> 59"
  proof (intro allI impI)
    fix n assume n: "n < length l - j"
    then have l: "l ! n \<in> set l" by (intro nth_mem) linarith
    have "mem (b + n) = l ! n" using n Nil.prems(5) by (simp add: vssText_def)
    then show "mem (b + n) \<noteq> 59" using Nil.prems(2) l by metis
  qed
  have "vssSkip mem len (b + j) b = vssSkip mem len (b + j + (length l - j)) (b + (length l - j))"
    by (rule vssSkip_run) (use Nil.prems(3) len no in auto)
  also have "\<dots> = (len, b + (length l - j))" using len Nil.prems(3) by (subst vssSkip_stop) auto
  finally have "vssSkip mem len (b + j) b = (len, b + (length l - j))" .
  then show ?case using Nil.prems(3) len
    by (subst vssDomains.simps) auto
next
  case (Cons d ds)
  let ?t = "vssText (ds @ [l])"
  have t: "vssText ((d # ds) @ [l]) = d @ 59 # ?t" by (simp add: vssText_def)
  have ll: "length ds + length l \<le> length ?t" 
    by (simp add: vssText_def) (induction ds, simp_all)
  have len: "len = b + length d + Suc (length ?t)" using Cons.prems(4) t by simp
  have m: "\<forall>n < length d + Suc (length ?t). mem (b + n) = (d @ 59 # ?t) ! n" using Cons.prems(5) unfolding t by simp
  have no: "\<forall>n < length d. mem (b + n) \<noteq> 59"
  proof (intro allI impI)
    fix n assume n: "n < length d"
    then have "mem (b + n) = d ! n" using m by (simp add: nth_append)
    then show "mem (b + n) \<noteq> 59" using Cons.prems(1) n by (metis list.set_intros(1) nth_mem)
  qed
  have semi: "mem (b + length d) = 59" using m [rule_format, of "length d"] by (simp add: nth_append)
  have jl: "j + length d + b < len" using len ll Cons.prems(3) by simp
  have "vssSkip mem len (b + j) b = vssSkip mem len (b + j + length d) (b + length d)"
    by (rule vssSkip_run) (use no jl in auto)
  also have "\<dots> = (b + j + length d, b + length d)" using semi by (subst vssSkip_stop) auto
  finally have skip: "vssSkip mem len (b + j) b = (b + j + length d, b + length d)" .
  have dm: "map mem [b..<b + length d] = d"
    using m by (intro nth_equalityI) (auto simp: nth_append)
  have rest: "vssDomains mem len (Suc (b + length d) + Suc j) (Suc (b + length d)) (Suc (b + length d)) =
      ds @ [map mem [len - length l..<len - length l + (length l - (Suc j + length ds) + 2)]]"
  proof (rule Cons.IH)
    show "\<forall>n < length ?t. mem (Suc (b + length d) + n) = ?t ! n"
    proof (intro allI impI)
      fix n assume "n < length ?t"
      then have "mem (b + (length d + Suc n)) = (d @ 59 # ?t) ! (length d + Suc n)" by (intro m [rule_format]) simp
      moreover have "(d @ 59 # ?t) ! (length d + Suc n) = ?t ! n" by (simp only: nth_append_length_plus nth_Cons_Suc)
      ultimately show "mem (Suc (b + length d) + n) = ?t ! n" by (simp add: add.assoc)
    qed
  qed (use Cons.prems len in auto)
  have "b + j + length d \<noteq> len" using jl by simp
  then have "vssDomains mem len (b + j) b b = d # vssDomains mem len (b + j + length d + 2) (Suc (b + length d)) (Suc (b + length d))"
    using skip dm jl by (subst vssDomains.simps) simp
  then show ?case using rest by (simp add: algebra_simps)
qed

text \<open>
  The index of the walk runs one ahead of the pointer for every domain passed, and the last
  domain is measured with a constant correction of two. All domains before the last one are tried
  as they are written; the range tried for the last one ends \<open>2 - k\<close> bytes after the end of the
  list when \<open>k\<close> domains precede it. So it is right for three domains only: with one or two, bytes
  behind the buffer are read, and with more, the end of the last domain is cut off.
\<close>

theorem VSS_last_domain:
  assumes "\<forall>d \<in> set ds. 59 \<notin> set d" "59 \<notin> set l" "length ds < length l"
    and "len = length (vssText (ds @ [l]))" "\<forall>n < len. mem n = vssText (ds @ [l]) ! n"
  shows "vssDomains mem len 0 0 0 = ds @ [map mem [len - length l..<len + 2 - length ds]]"
proof -
  have "length l \<le> len" using assms(4) by (simp add: vssText_def)
  then have "len - length l + (length l - (0 + length ds) + 2) = len + 2 - length ds" using assms(3) by simp
  moreover have "vssDomains mem len (0 + 0) 0 0 = ds @ [map mem [len - length l..<len - length l + (length l - (0 + length ds) + 2)]]"
    by (rule vssDomains_run [OF assms(1,2)]) (use assms(3-5) in auto)
  ultimately show ?thesis by (simp only: add_0)
qed

theorem VSS_last_domain_witness:
  "vssDomains (\<lambda>n. if n < 5 then [97, 59, 98, 99, 100] ! n else 1) 5 0 0 0 = [[97], [98, 99, 100, 1]]"
proof -
  let ?m = "\<lambda>n. if n < 5 then [97, 59, 98, 99, 100] ! n else (1 :: byte)"
  have t: "vssText ([[97]] @ [[98, 99, 100]]) = [97, 59, 98, 99, 100]" by (simp add: vssText_def)
  have "vssDomains ?m 5 0 0 0 = [[97]] @ [map ?m [5 - length [98 :: byte, 99, 100]..<5 + 2 - length [[97 :: byte]]]]"
    by (rule VSS_last_domain) (simp_all add: t del: append_Cons append_Nil)
  also have "\<dots> = [[97], [98, 99, 100, 1]]" by (simp add: upt_rec)
  finally show ?thesis by simp
qed


end
