(* ===== verification/CachePolicy.thy ===== *)
theory CachePolicy
  imports SaveServe PolicySpec
begin

text \<open>
  The cache handler with the header decisions put into it: what \<open>CHttpCacheHandler\<close> asks of a
  transaction (\<open>trans\<close>) computed by \<open>HttpCacheUtil\<close> from the headers of request and response.
  \<open>parse\<close> is the platform's reading of raw header fields.
\<close>

definition transOf :: "http_env \<Rightarrow> (headers \<Rightarrow> fields) \<Rightarrow> fields \<Rightarrow> fields \<Rightarrow> transaction \<Rightarrow> trans \<Rightarrow> trans" where
  "transOf http parse request response tx tr = tr\<lparr>
     trPost := MethodFromStr http (txMethod tx) = EMethodPost,
     trPragmaNoCache := PragmaNoCache request,
     trFresh := (\<lambda>hs. CacheTimeIsFresh http request (parse hs) = Some True),
     trCacheable := (\<lambda>m. map_option fst (IsCacheable http tx response m) = Some True),
     trProtected := ProtectedEntry response,
     trNeedsUpdate := (\<lambda>s. CacheNeedsUpdateL http response s = Some (Inr True))\<rparr>"

lemma transOf_fields [simp]:
  "trPragmaNoCache (transOf http parse rq rs tx tr) = PragmaNoCache rq"
  "trFresh (transOf http parse rq rs tx tr) = (\<lambda>hs. CacheTimeIsFresh http rq (parse hs) = Some True)"
  "trCacheable (transOf http parse rq rs tx tr) = (\<lambda>m. map_option fst (IsCacheable http tx rs m) = Some True)"
  by (simp_all add: transOf_def)

text \<open>What \<open>RequestL\<close> found when it promised an answer from the cache.\<close>

lemma RequestL_served:
  assumes "RequestL env tr m c w = Some (RsNone, c', w')"
  shows "\<exists>p e. chFind2 env tr w = Some (Some p) \<and> heap w p = Some e \<and> iState e = ECacheComplete \<and>
    CacheNeedsValidationL env tr m p w = Some False \<and> c' = Some p \<and> \<not> trPost tr"
proof -
  from assms have m: "m \<noteq> ECacheModeNoCache" "\<not> trPost tr"
    by (auto simp: RequestL_def split: if_splits)
  then obtain p where p: "chFind2 env tr w = Some (Some p)"
    using assms by (auto simp: RequestL_def split: bind_splits option.splits)
  then obtain e where e: "heap w p = Some e" "iState e = ECacheComplete"
    using assms m by (auto simp: RequestL_def split: bind_splits if_splits)
  then obtain n where n: "CacheNeedsValidationL env tr m p w = Some n"
    using assms m p by (auto simp: RequestL_def split: bind_splits)
  then show ?thesis using assms m p e by (auto simp: RequestL_def split: bind_splits if_splits)
qed

text \<open>
  C6: in normal mode an answer is promised from the cache only for a complete entry whose stored
  headers are fresh at the time of the request, by the rules of \<open>CacheTimeIsFresh\<close> and with the
  directives of this request; and it then was fresh at every moment before.
\<close>

theorem served_only_while_fresh:
  assumes "RequestL env (transOf http parse rq rs tx tr) ECacheModeNormal c w = Some (RsNone, c', w')" "t \<le> hNow http"
  shows "\<exists>p e h hs. c' = Some p \<and> heap w p = Some e \<and> iState e = ECacheComplete \<and> HeadersL p w = Some h \<and>
    BufferToHeadersL (envFold env) h [] = Some hs \<and> \<not> PragmaNoCache rq \<and>
    CacheTimeIsFresh http rq (parse hs) = Some True \<and> CacheTimeIsFresh (http\<lparr>hNow := t\<rparr>) rq (parse hs) = Some True"
proof -
  let ?tr = "transOf http parse rq rs tx tr"
  obtain p e where p: "heap w p = Some e" "iState e = ECacheComplete" "CacheNeedsValidationL env ?tr ECacheModeNormal p w = Some False"
    "c' = Some p" using RequestL_served [OF assms(1)] by blast
  obtain h hs where h: "HeadersL p w = Some h" "BufferToHeadersL (envFold env) h [] = Some hs"
    using p(3) by (auto simp: CacheNeedsValidationL_def split: bind_splits)
  have f: "\<not> PragmaNoCache rq" "CacheTimeIsFresh http rq (parse hs) = Some True"
    using p(3) h by (auto simp: CacheNeedsValidationL_def split: if_splits)
  have "CacheTimeIsFresh (http\<lparr>hNow := hNow http\<rparr>) rq (parse hs) = Some True" using f(2) by simp
  from fresh_before [OF this assms(2)] show ?thesis using p h f by blast
qed

text \<open>A cache that holds one saved response, and its request in normal mode.\<close>

lemma one_served:
  "\<exists>w w'. RequestL calm_env (transOf plain_http (\<lambda>_. aged_response) noFields noFields (tx_get 200) (get_trans [104]))
     ECacheModeNormal None w = Some (RsNone, Some 1, w' :: cache_world)"
proof -
  let ?w0 = "newCacheWorld 1000 True" and ?hdr = "[65, 58, 32, 49, 13, 10] :: tdes8" and ?body = "[1, 2, 3] :: tdes8"
  let ?tr = "transOf plain_http (\<lambda>_. aged_response) noFields noFields (tx_get 200) (get_trans [104])"
  have p: "heap ?w0 (envAddr calm_env) = None" "growable (iEntries ?w0)" "\<forall>p e. heap ?w0 p = Some e \<longrightarrow> \<not> des_eqF (envFold calm_env) (iUrl e) [104]"
    using newTable_growable by (simp_all add: newCacheWorld_def)
  have io: "io_quiet (envIo calm_env) ?w0 (int (length ?hdr + length ?body))"
    by (simp add: newCacheWorld_def calm_env_def calm_def io_quiet_def IsDiskSpaceAvailable_def)
  have fit: "sint (iContentSize ?w0 + of_nat (length ?hdr)) \<le> sint (iSize ?w0)"
    "sint (iContentSize ?w0 + of_nat (length ?hdr) + of_nat (length ?body)) \<le> sint (iSize ?w0)"
    by (simp_all add: newCacheWorld_def)
  have ne: "?hdr \<noteq> []" "length ?hdr < 65536" "?body \<noteq> []" "length ?body < 2 ^ 32" by simp_all
  obtain w :: cache_world and e n where w: "lt_ok w" "heap w = (heap ?w0)(envAddr calm_env \<mapsto> e)" "savedEntry e [104] n ?hdr ?body"
    using SaveL_spec [OF newCacheWorld_ok p ne(1,2,3) io fit] by blast
  have h: "heap w 1 = Some e" "\<forall>q e'. heap w q = Some e' \<longrightarrow> des_eqF (envFold calm_env) (iUrl e') [104] \<longrightarrow> q = 1"
    using w(2) by (auto simp: newCacheWorld_def calm_env_def split: if_splits)
  have "HeadersToBufferLC [([65], [49])] = Some ?hdr"
    by (simp add: HeadersToBufferLC_text headerLine_def KHttpFieldSeparator_def KHttpNewLine_def)
  then have rb: "BufferToHeadersL (envFold calm_env) ?hdr [] = Some [([65], [49])]"
    by (intro headers_read_back) (simp_all add: fieldOk_def namesDistinct_def KHttpFieldSeparator_def KHttpNewLine_def)
  have fresh: "CacheTimeIsFresh plain_http noFields aged_response = Some True" by (rule aged_is_fresh)
  have v: "CacheNeedsValidationL calm_env ?tr ECacheModeNormal 1 w = Some False"
    using h(1) w(3) rb fresh
    by (simp add: CacheNeedsValidationL_def HeadersL_def HeaderData_def savedEntry_def PragmaNoCache_def GetField_def noFields_def)
  have tr: "trUrl ?tr = [104]" "\<not> trPost ?tr"
    by (simp_all add: transOf_def get_trans_def tx_get_def MethodFromStr_def strEq_def des_eqF_def plain_http_def lit8_def)
  show ?thesis using RequestL_spec [OF w(1) h(1) w(3) ne(3,4) h(2) v _ tr] by blast
qed

theorem served_only_while_fresh_witness:
  "\<exists>w w' e. RequestL calm_env (transOf plain_http (\<lambda>_. aged_response) noFields noFields (tx_get 200) (get_trans [104]))
     ECacheModeNormal None w = Some (RsNone, Some 1, w' :: cache_world) \<and> heap w 1 = Some e \<and>
     CacheTimeIsFresh (plain_http\<lparr>hNow := 0\<rparr>) noFields aged_response = Some True"
proof -
  obtain w and w' :: cache_world where r: "RequestL calm_env (transOf plain_http (\<lambda>_. aged_response) noFields noFields (tx_get 200) (get_trans [104]))
     ECacheModeNormal None w = Some (RsNone, Some 1, w')" using one_served by blast
  show ?thesis using served_only_while_fresh [OF r, of 0] r by (auto simp: plain_http_def)
qed

end
