(* ===== verification/CacheManager.thy ===== *)
theory CacheManager
  imports HandlerLife CachePolicy
begin

text \<open>
  The manager of the caches (\<open>CHttpCacheManager\<close>, cache/src/HttpCacheManager.cpp): it owns the
  general cache, the cache of the operator's pages and the phone-specific one, routes each call
  to one of them, and keeps the cache directory clean. Each cache is a handler of its own with its
  own table, heap and buckets; the disk belongs to all of them, so a call runs in the handler's
  world with the disk put in, and the disk it leaves is the new common one. A null pointer that
  is used is a fault.
\<close>

datatype cache_id = ECache | EOperatorCache | EPhoneCache

text \<open>The caches are enumerated in the order in which the manager walks through them.\<close>

instantiation cache_id :: enum
begin

definition enum_cache_id :: "cache_id list" where
  "enum_cache_id = [ECache, EOperatorCache, EPhoneCache]"

definition enum_all_cache_id :: "(cache_id \<Rightarrow> bool) \<Rightarrow> bool" where
  "enum_all_cache_id P \<longleftrightarrow> list_all P [ECache, EOperatorCache, EPhoneCache]"

definition enum_ex_cache_id :: "(cache_id \<Rightarrow> bool) \<Rightarrow> bool" where
  "enum_ex_cache_id P \<longleftrightarrow> list_ex P [ECache, EOperatorCache, EPhoneCache]"

instance proof
  have "c \<in> set [ECache, EOperatorCache, EPhoneCache]" for c by (cases c) simp_all
  then have all: "(UNIV :: cache_id set) = set [ECache, EOperatorCache, EPhoneCache]" by blast
  show "(UNIV :: cache_id set) = set enum_class.enum" by (simp only: enum_cache_id_def all)
  show "distinct (enum_class.enum :: cache_id list)" by (simp add: enum_cache_id_def)
  show "enum_class.enum_all P = Ball UNIV P" for P :: "cache_id \<Rightarrow> bool"
    by (simp only: enum_all_cache_id_def all list_all_iff)
  show "enum_class.enum_ex P = Bex UNIV P" for P :: "cache_id \<Rightarrow> bool"
    by (simp only: enum_ex_cache_id_def all list_ex_iff)
qed

end

record manager =
  iCache :: "index_world option"
  iOperatorCache :: "index_world option"
  iphoneSpecificCache :: "index_world option"
  mgDisk :: "tdes16 \<Rightarrow> tdes8 option"
  iCacheFolder :: tdes16
  iOpDomain :: "tdes8 option"
  iVSSWhiteList :: "((nat \<Rightarrow> byte) \<times> nat) option"
  iOfflineMode :: bool
  iCacheEnabled :: bool
  iVSSCacheEnabled :: bool
  mgSecureId :: "32 word"

text \<open>\<open>THttpCacheEntry\<close>, which the caller keeps between the calls for one transaction.\<close>

record http_cache_entry =
  hceHandler :: "cache_id option"
  hceEntry :: "nat option"

text \<open>What the platform answers; every handler has its own directory and addresses.\<close>

record mgr_env =
  meEnv :: "cache_id \<Rightarrow> env"
  meIx :: index_io
  meUriParse :: uri_parse
  meFold :: "byte \<Rightarrow> byte"
  meFold16 :: "16 word \<Rightarrow> 16 word"
  meConnect :: symerr
  meMapErr :: symerr
  meTries :: "tdes16 \<Rightarrow> symerr list"
  meDelete :: "tdes16 \<Rightarrow> bool"
  meCreate :: "tdes16 \<Rightarrow> bool"

primrec cacheOf :: "cache_id \<Rightarrow> manager \<Rightarrow> index_world option" where
  "cacheOf ECache m = iCache m"
| "cacheOf EOperatorCache m = iOperatorCache m"
| "cacheOf EPhoneCache m = iphoneSpecificCache m"

primrec setCache :: "cache_id \<Rightarrow> index_world \<Rightarrow> manager \<Rightarrow> manager" where
  "setCache ECache w m = m\<lparr>iCache := Some w\<rparr>"
| "setCache EOperatorCache w m = m\<lparr>iOperatorCache := Some w\<rparr>"
| "setCache EPhoneCache w m = m\<lparr>iphoneSpecificCache := Some w\<rparr>"

definition onCache :: "cache_id \<Rightarrow> (index_world \<Rightarrow> ('b \<times> index_world) option) \<Rightarrow> manager \<Rightarrow> ('b \<times> manager) option" where
  "onCache c f m = do {
     w \<leftarrow> cacheOf c m;
     (x, w') \<leftarrow> f (w\<lparr>disk := mgDisk m\<rparr>);
     Some (x, (setCache c w' m)\<lparr>mgDisk := disk w'\<rparr>) }"

definition KUIDBROWSERNG :: "32 word" where "KUIDBROWSERNG = 0x10008D39"
definition KUIDWIDGETUI :: "32 word" where "KUIDWIDGETUI = 0x10282822"
definition KUIDOVISTORE :: "32 word" where "KUIDOVISTORE = 0x102829A0"

definition IsBrowser :: "manager \<Rightarrow> bool" where
  "IsBrowser m \<longleftrightarrow> mgSecureId m = KUIDBROWSERNG"

subsection \<open>Routing\<close>

definition KVSSHeaderFieldName :: tdes8 where "KVSSHeaderFieldName = lit8 ''X-Vodafone-Content''"
definition KVSSHeaderFieldValue :: tdes8 where "KVSSHeaderFieldValue = lit8 ''Portal''"

definition VSSHeaderCheck :: "(byte \<Rightarrow> byte) \<Rightarrow> tdes8 \<Rightarrow> bool" where
  "VSSHeaderCheck fold_ch aHttpHeaderString =
    (aHttpHeaderString \<noteq> [] \<and>
     (case des_findF fold_ch aHttpHeaderString KVSSHeaderFieldName of None \<Rightarrow> False
      | Some VSSnameLocation \<Rightarrow>
        (case des_findF fold_ch aHttpHeaderString KVSSHeaderFieldValue of None \<Rightarrow> False
         | Some VSSvalueLocation \<Rightarrow> VSSnameLocation < VSSvalueLocation)))"

text \<open>\<open>vssField\<close> is the field \<open>X-Vodafone-Content\<close> of the response.\<close>

definition VSSRequestCheckL :: "mgr_env \<Rightarrow> hdrval option \<Rightarrow> tdes8 \<Rightarrow> manager \<Rightarrow> bool" where
  "VSSRequestCheckL me vssField aUrl m =
    (iVSSCacheEnabled m \<and> VSSCacheContent (meUriParse me) (meFold me) aUrl (iVSSWhiteList m) \<and>
     (case vssField of Some (KStrFVal s) \<Rightarrow> des_eqF (meFold me) s KVSSHeaderFieldValue | _ \<Rightarrow> False))"

text \<open>The pointer that \<open>CacheHandler\<close> returns may be null.\<close>

definition CacheHandler :: "mgr_env \<Rightarrow> tdes8 \<Rightarrow> tdes8 option \<Rightarrow> manager \<Rightarrow> cache_id option" where
  "CacheHandler me aUrl aHttpHeaderString m =
    (let c = (if iVSSCacheEnabled m \<and> (\<exists>h. aHttpHeaderString = Some h \<and> VSSHeaderCheck (meFold me) h) then EPhoneCache
              else if (\<exists>d. iOpDomain m = Some d \<and> OperatorCacheContent (meUriParse me) (meFold me) d aUrl) then EOperatorCache
              else ECache)
     in if cacheOf c m = None then None else Some c)"

definition mgEnabled :: "manager \<Rightarrow> bool" where
  "mgEnabled m \<longleftrightarrow> iCacheEnabled m \<or> iVSSCacheEnabled m"

definition mgRequestL :: "mgr_env \<Rightarrow> trans \<Rightarrow> TBrCtlCacheMode \<Rightarrow> http_cache_entry \<Rightarrow> manager \<Rightarrow>
    (request_status \<times> http_cache_entry \<times> manager) option" where
  "mgRequestL me tr aCacheMode ce m =
    (if mgEnabled m then
       (let mode = (if iOfflineMode m then ECacheModeOnlyCache else aCacheMode) in
        case CacheHandler me (trUrl tr) None m of
          None \<Rightarrow> Some (RsNotFound, ce, m)
        | Some c \<Rightarrow> do {
            ((status, p), m1) \<leftarrow> onCache c (\<lambda>w. map_option (\<lambda>(s, p, w'). ((s, p), w')) (RequestL (meEnv me c) tr mode (hceEntry ce) w)) m;
            if status = RsNotFound \<and> iVSSCacheEnabled m1 then do {
              ((status2, p2), m2) \<leftarrow> onCache EPhoneCache
                 (\<lambda>w. map_option (\<lambda>(s, p, w'). ((s, p), w')) (RequestL (meEnv me EPhoneCache) tr mode p w)) m1;
              Some (status2, \<lparr>hceHandler = Some (if status2 = RsNotReady \<or> status2 = RsNone then EPhoneCache else c), hceEntry = p2\<rparr>, m2) }
            else Some (status, \<lparr>hceHandler = Some c, hceEntry = p\<rparr>, m1) })
     else Some (RsNotFound, ce, m))"

text \<open>The calls that go to the handler the entry names.\<close>

definition mgRequestHeadersL :: "http_cache_entry \<Rightarrow> manager \<Rightarrow> request_status option" where
  "mgRequestHeadersL ce m =
    (case (mgEnabled m, hceHandler ce) of
       (True, Some c) \<Rightarrow> do { w \<leftarrow> cacheOf c m; RequestHeadersL (hceEntry ce) (w\<lparr>disk := mgDisk m\<rparr>) }
     | _ \<Rightarrow> Some RsNotFound)"

definition mgRequestNextChunkL :: "mgr_env \<Rightarrow> http_cache_entry \<Rightarrow> manager \<Rightarrow> tdes8 option option" where
  "mgRequestNextChunkL me ce m =
    (case (mgEnabled m, hceHandler ce) of
       (True, Some c) \<Rightarrow> do { w \<leftarrow> cacheOf c m; RequestNextChunkL (meEnv me c) (hceEntry ce) (w\<lparr>disk := mgDisk m\<rparr>) }
     | _ \<Rightarrow> Some None)"

definition mgOnEntry :: "(cache_id \<Rightarrow> nat option \<Rightarrow> index_world \<Rightarrow> (nat option \<times> index_world) option) \<Rightarrow> http_cache_entry \<Rightarrow> manager \<Rightarrow>
    (http_cache_entry \<times> manager) option" where
  "mgOnEntry f ce m =
    (case (mgEnabled m, hceHandler ce) of
       (True, Some c) \<Rightarrow> map_option (\<lambda>(p, m1). (ce\<lparr>hceEntry := p\<rparr>, m1)) (onCache c (f c (hceEntry ce)) m)
     | _ \<Rightarrow> Some (ce, m))"

definition mgRequestClosed :: "mgr_env \<Rightarrow> http_cache_entry \<Rightarrow> manager \<Rightarrow> (http_cache_entry \<times> manager) option" where
  "mgRequestClosed me = mgOnEntry (\<lambda>c p. RequestClosed (meEnv me c) p)"

definition mgReceivedResponseHeadersL :: "mgr_env \<Rightarrow> trans \<Rightarrow> hdrval option \<Rightarrow> http_cache_entry \<Rightarrow> manager \<Rightarrow>
    (http_cache_entry \<times> manager) option" where
  "mgReceivedResponseHeadersL me tr vssField ce m =
    (let ce1 = (if mgEnabled m \<and> iVSSCacheEnabled m \<and> VSSRequestCheckL me vssField (trUrl tr) m
                then ce\<lparr>hceHandler := (if iphoneSpecificCache m = None then None else Some EPhoneCache)\<rparr> else ce)
     in mgOnEntry (\<lambda>c p. ReceivedResponseHeadersL (meEnv me c) tr p) ce1 m)"

definition mgReceivedResponseBodyDataL :: "mgr_env \<Rightarrow> tdes8 \<Rightarrow> http_cache_entry \<Rightarrow> manager \<Rightarrow> (http_cache_entry \<times> manager) option" where
  "mgReceivedResponseBodyDataL me bodyStr = mgOnEntry (\<lambda>c p. ReceivedResponseBodyDataL (meEnv me c) bodyStr p)"

definition mgResponseComplete :: "mgr_env \<Rightarrow> http_cache_entry \<Rightarrow> manager \<Rightarrow> (http_cache_entry \<times> manager) option" where
  "mgResponseComplete me = mgOnEntry (\<lambda>c p. ResponseComplete (meEnv me c) p)"

definition mgRemoveL :: "mgr_env \<Rightarrow> tdes8 \<Rightarrow> manager \<Rightarrow> (symerr \<times> manager) option" where
  "mgRemoveL me aUrl m = (if iCacheEnabled m then onCache ECache (RemoveL (meEnv me ECache) aUrl) m else Some (KErrNotFound, m))"

definition mgFindIn :: "mgr_env \<Rightarrow> tdes8 \<Rightarrow> cache_id \<Rightarrow> manager \<Rightarrow> bool option" where
  "mgFindIn me aUrl c m = Option.bind (cacheOf c m) (\<lambda>w. chFind (meEnv me c) aUrl (w\<lparr>disk := mgDisk m\<rparr>))"

definition mgFind :: "mgr_env \<Rightarrow> tdes8 \<Rightarrow> manager \<Rightarrow> bool option" where
  "mgFind me aUrl m =
    (if mgEnabled m then do {
       found \<leftarrow> (case CacheHandler me aUrl None m of None \<Rightarrow> Some False | Some c \<Rightarrow> mgFindIn me aUrl c m);
       if \<not> found \<and> iVSSCacheEnabled m then mgFindIn me aUrl EPhoneCache m else Some found }
     else Some False)"

definition mgSaveL :: "mgr_env \<Rightarrow> tdes8 \<Rightarrow> tdes8 \<Rightarrow> tdes8 \<Rightarrow> tdes8 \<Rightarrow> manager \<Rightarrow> (bool \<times> manager) option" where
  "mgSaveL me aUrl aHeader aContent aHttpHeaderString m =
    (case (mgEnabled m, CacheHandler me aUrl (Some aHttpHeaderString) m) of
       (True, Some c) \<Rightarrow> onCache c (SaveL (meEnv me c) aUrl aHeader aContent) m
     | _ \<Rightarrow> Some (False, m))"

definition mgAddHeaderL :: "mgr_env \<Rightarrow> tdes8 \<Rightarrow> tdes8 \<Rightarrow> tdes8 \<Rightarrow> manager \<Rightarrow> (request_status \<times> manager) option" where
  "mgAddHeaderL me aUrl aName aValue m =
    (case (mgEnabled m, CacheHandler me aUrl None m) of
       (True, Some c) \<Rightarrow> onCache c (AddHeaderL (meEnv me c) aUrl aName aValue) m
     | _ \<Rightarrow> Some (RsNotFound, m))"

definition HandleNotifyString :: "bool \<Rightarrow> tdes16 \<Rightarrow> manager \<Rightarrow> manager" where
  "HandleNotifyString isNetworkKey aValue m = (if isNetworkKey then m\<lparr>iOfflineMode := (aValue \<noteq> lit16 ''1'')\<rparr> else m)"

subsection \<open>Files that belong to no cache\<close>

text \<open>The files in and below a folder; paths are written in one case throughout.\<close>

definition underFolder :: "tdes16 \<Rightarrow> tdes16 \<Rightarrow> bool" where
  "underFolder folder n \<longleftrightarrow> take (length folder) n = folder"

definition onFolder :: "tdes16 \<Rightarrow> (tdes16 \<Rightarrow> tdes8 option) \<Rightarrow> tdes16 \<Rightarrow> tdes8 option" where
  "onFolder folder d n = (if underFolder folder n then d n else None)"

text \<open>The comparison of the last four characters, which every path with a drive letter has.\<close>

definition hasExt :: "mgr_env \<Rightarrow> string \<Rightarrow> tdes16 \<Rightarrow> bool" where
  "hasExt me ext n \<longleftrightarrow> des_eqF (meFold16 me) (drop (length n - 4) n) (lit16 ext)"

definition validateCache :: "mgr_env \<Rightarrow> cache_id \<Rightarrow> file_hash \<times> manager \<Rightarrow> (file_hash \<times> manager) option" where
  "validateCache me c hm = (case hm of (hash, m) \<Rightarrow>
     (case cacheOf c m of None \<Rightarrow> Some (hash, m)
      | Some w \<Rightarrow> onCache c (ValidateCacheEntriesL (meEnv me c) (iIndexPath w) hash) m))"

definition MarkAllCacheContentAsNoDelete :: "mgr_env \<Rightarrow> file_hash \<times> manager \<Rightarrow> (file_hash \<times> manager) option" where
  "MarkAllCacheContentAsNoDelete me hm = foldOpt (validateCache me) [ECache, EOperatorCache, EPhoneCache] hm"

text \<open>An index without entries: the version and a directory of length 0.\<close>

definition GenerateEmptyIndexFileL :: tdes8 where
  "GenerateEmptyIndexFileL = le32 KCacheVersionNumber @ le32 0"

definition needsDelete :: "file_hash \<Rightarrow> tdes16 \<Rightarrow> bool" where
  "needsDelete hash n \<longleftrightarrow> map_option snd (hash n) = Some KCacheFileNeedsDelete"

text \<open>The loops over the map treat each file by itself, so their order does not matter.\<close>

definition WipeAllOtherIndexFilesL :: "mgr_env \<Rightarrow> file_hash \<Rightarrow> (tdes16 \<Rightarrow> tdes8 option) \<Rightarrow> tdes16 \<Rightarrow> tdes8 option" where
  "WipeAllOtherIndexFilesL me hash d n =
    (if needsDelete hash n \<and> hasExt me ''.dat'' n \<and> openTries 5 KErrNone (meTries me n) = KErrNone
     then Some GenerateEmptyIndexFileL else d n)"

definition DeleteMarkedFilesL :: "mgr_env \<Rightarrow> file_hash \<Rightarrow> (tdes16 \<Rightarrow> tdes8 option) \<Rightarrow> tdes16 \<Rightarrow> tdes8 option" where
  "DeleteMarkedFilesL me hash d n =
    (if needsDelete hash n \<and> \<not> hasExt me ''.dat'' n \<and> \<not> hasExt me ''.val'' n \<and> meDelete me n then None else d n)"

definition RemoveOrphanedFilesL :: "mgr_env \<Rightarrow> manager \<Rightarrow> (symerr \<times> manager) option" where
  "RemoveOrphanedFilesL me m =
    (if \<not> IsBrowser m then Some (KErrNone, m)
     else if meConnect me \<noteq> KErrNone then Some (meConnect me, m)
     else if meMapErr me \<noteq> KErrNone then Some (meMapErr me, m)
     else do {
       let hash = GenerateCacheContentHashMapL KCacheFileNeedsDelete (onFolder (iCacheFolder m) (mgDisk m));
       (hash1, m1) \<leftarrow> MarkAllCacheContentAsNoDelete me (hash, m);
       Some (KErrNone, m1\<lparr>mgDisk := DeleteMarkedFilesL me hash1 (WipeAllOtherIndexFilesL me hash1 (mgDisk m1))\<rparr>) })"

definition mgRemoveAllL :: "mgr_env \<Rightarrow> manager \<Rightarrow> (32 word \<times> manager) option" where
  "mgRemoveAllL me m = do {
     (numOfBytes, m1) \<leftarrow> (if iCacheEnabled m then onCache ECache (RemoveAllL (meEnv me ECache) (meIx me)) m else Some (0, m));
     (err, m2) \<leftarrow> RemoveOrphanedFilesL me m1;
     Some (numOfBytes, m2) }"

subsection \<open>Start and end of a session\<close>

definition KCrashCheck :: tdes16 where "KCrashCheck = lit16 ''browser.val''"

definition crashFile :: "manager \<Rightarrow> tdes16" where "crashFile m = iCacheFolder m @ KCrashCheck"

text \<open>The file \<open>browser.val\<close> is there while the browser runs; finding it means a crash.\<close>

definition CrashCheckL :: "mgr_env \<Rightarrow> manager \<Rightarrow> (symerr \<times> manager) option" where
  "CrashCheckL me m =
    (if \<not> IsBrowser m then Some (KErrNone, m)
     else if meConnect me \<noteq> KErrNone then Some (meConnect me, m)
     else if mgDisk m (crashFile m) \<noteq> None then RemoveOrphanedFilesL me m
     else Some (KErrNone, if meCreate me (crashFile m) then m\<lparr>mgDisk := (mgDisk m)(crashFile m \<mapsto> [])\<rparr> else m))"

definition destroyCache :: "mgr_env \<Rightarrow> cache_id \<Rightarrow> manager \<Rightarrow> manager option" where
  "destroyCache me c m =
    (case cacheOf c m of None \<Rightarrow> Some m
     | Some w \<Rightarrow> map_option snd (onCache c (\<lambda>w. map_option (Pair ())
         (chDestructor (envIo (meEnv me c)) (meIx me) (envDir (meEnv me c)) w)) m))"

definition mgDestructor :: "mgr_env \<Rightarrow> manager \<Rightarrow> manager option" where
  "mgDestructor me m =
    (let m1 = (if IsBrowser m \<and> meDelete me (crashFile m) then m\<lparr>mgDisk := (mgDisk m)(crashFile m := None)\<rparr> else m)
     in foldOpt (destroyCache me) [ECache, EOperatorCache, EPhoneCache] m1)"

end
