(* ===== verification/OverrideText.thy ===== *)
theory OverrideText
  imports StreamHandler
begin

text \<open>
  The override string of the cache configuration (\<open>ApplyCacheOverridesL\<close> in
  cache/src/HttpCacheManager.cpp): entries of a process id in eight hexadecimal digits, a flag, a
  size in KB and a drive, separated by semicolons. The operations of the platform's \<open>TLex\<close> that
  the loop uses are parsers: they return the value and the rest of the text, or an error.
  \<open>sp\<close> tells the white space of the platform's character set.
\<close>

subsection \<open>The lexer\<close>

definition asciiDigit :: "16 word \<Rightarrow> bool" where
  "asciiDigit c \<longleftrightarrow> 48 \<le> c \<and> c \<le> 57"

definition hexValue :: "16 word \<Rightarrow> nat option" where
  "hexValue c = (if asciiDigit c then Some (unat c - 48)
     else if 65 \<le> c \<and> c \<le> 70 then Some (unat c - 55)
     else if 97 \<le> c \<and> c \<le> 102 then Some (unat c - 87) else None)"

definition isHex :: "16 word \<Rightarrow> bool" where
  "isHex c \<longleftrightarrow> hexValue c \<noteq> None"

definition hexNum :: "tdes16 \<Rightarrow> nat" where
  "hexNum ds = foldl (\<lambda>a c. 16 * a + the (hexValue c)) 0 ds"

definition decNum :: "tdes16 \<Rightarrow> nat" where
  "decNum ds = foldl (\<lambda>a c. 10 * a + (unat c - 48)) 0 ds"

definition BoundedValHex :: "nat \<Rightarrow> tdes16 \<Rightarrow> symerr + (nat \<times> tdes16)" where
  "BoundedValHex aLimit s =
    (let ds = takeWhile isHex s in
     if ds = [] then Inl KErrGeneral
     else if hexNum ds > aLimit then Inl KErrOverflow
     else Inr (hexNum ds, dropWhile isHex s))"

definition BoundedVal :: "nat \<Rightarrow> tdes16 \<Rightarrow> symerr + (int \<times> tdes16)" where
  "BoundedVal aLimit s =
    (let neg = (s \<noteq> [] \<and> hd s = 45);
         s1 = (if s \<noteq> [] \<and> (hd s = 45 \<or> hd s = 43) then tl s else s);
         ds = takeWhile asciiDigit s1 in
     if ds = [] then Inl KErrGeneral
     else if decNum ds > aLimit then Inl KErrOverflow
     else Inr (if neg then - int (decNum ds) else int (decNum ds), dropWhile asciiDigit s1))"

text \<open>A drive is named by a letter; anything else is a panic.\<close>

definition TDriveUnit :: "tdes16 \<Rightarrow> int option" where
  "TDriveUnit aDrive =
    (case aDrive of [] \<Rightarrow> None
     | c # _ \<Rightarrow> if 65 \<le> c \<and> c \<le> 90 then Some (uint c - 65)
                else if 97 \<le> c \<and> c \<le> 122 then Some (uint c - 97) else None)"

lemma dropWhile_length_le: "length (dropWhile P xs) \<le> length xs"
  by (induction xs) auto

lemma BoundedValHex_consumes: "BoundedValHex l s = Inr (n, s') \<Longrightarrow> length s' < length s"
proof (cases s)
  case (Cons c cs)
  assume "BoundedValHex l s = Inr (n, s')"
  then show ?thesis using Cons dropWhile_length_le [of isHex cs]
    by (auto simp: BoundedValHex_def Let_def split: if_splits)
qed (simp add: BoundedValHex_def)

lemma BoundedVal_shrinks: "BoundedVal l s = Inr (n, s') \<Longrightarrow> length s' \<le> length s"
proof -
  assume b: "BoundedVal l s = Inr (n, s')"
  let ?s1 = "if s \<noteq> [] \<and> (hd s = 45 \<or> hd s = 43) then tl s else s"
  have "s' = dropWhile asciiDigit ?s1" using b by (auto simp: BoundedVal_def Let_def split: if_splits)
  then have "length s' \<le> length ?s1" using dropWhile_length_le by metis
  moreover have "length ?s1 \<le> length s" by simp
  ultimately show ?thesis by simp
qed

subsection \<open>The loop over the entries\<close>

text \<open>The part after the three numbers: the drive and the start of the next entry.\<close>

definition lexDrive :: "(16 word \<Rightarrow> bool) \<Rightarrow> tdes16 \<Rightarrow> int option \<times> tdes16" where
  "lexDrive sp s =
    (let s1 = dropWhile sp s
     in (TDriveUnit (takeWhile (\<lambda>c. \<not> sp c) s1), dropWhile sp (dropWhile (\<lambda>c. \<not> sp c) s1)))"

lemma lexDrive_shrinks: "length (snd (lexDrive sp s)) \<le> length s"
  using dropWhile_length_le [of sp s] dropWhile_length_le [of "\<lambda>c. \<not> sp c" "dropWhile sp s"]
    dropWhile_length_le [of sp "dropWhile (\<lambda>c. \<not> sp c) (dropWhile sp s)"]
  by (simp add: lexDrive_def Let_def)

text \<open>
  The entry of the process, if there is one: enabled, size in bytes, drive. The token length of the id
  is what the lexer consumed for it, since the mark is at the start of every entry.
\<close>

function findOverride :: "(16 word \<Rightarrow> bool) \<Rightarrow> 32 word \<Rightarrow> tdes16 \<Rightarrow> (symerr + (bool \<times> 32 word \<times> int) option) option" where
  "findOverride sp aSecIdInt s =
    (case BoundedValHex (2 ^ 32 - 1) s of
       Inl err \<Rightarrow> Some (Inl err)
     | Inr (tempId, s1) \<Rightarrow>
       if length s - length s1 \<noteq> 8 then Some (Inl KErrCorrupt)
       else (case BoundedVal (2 ^ 31 - 1) (dropWhile sp s1) of
           Inl err \<Rightarrow> Some (Inl err)
         | Inr (tempCacheEnabled, s2) \<Rightarrow>
           (case BoundedVal (2 ^ 31 - 1) (dropWhile sp s2) of
              Inl err \<Rightarrow> Some (Inl err)
            | Inr (tempCacheSize, s3) \<Rightarrow>
              (case fst (lexDrive sp s3) of
                 None \<Rightarrow> None
               | Some tempDrive \<Rightarrow>
                 if of_nat tempId = aSecIdInt
                 then Some (Inr (Some (tempCacheEnabled \<noteq> 0, word_of_int (tempCacheSize * 1024), tempDrive)))
                 else if snd (lexDrive sp s3) = [] then Some (Inr None)
                 else findOverride sp aSecIdInt (snd (lexDrive sp s3))))))"
  by pat_completeness auto
termination
proof (relation "measure (\<lambda>(sp, sid, s). length s)")
  fix sp :: "16 word \<Rightarrow> bool" and sid :: "32 word" and s x2 a s1 x2a en s2 x2b sz s3 x2c
  assume 1: "BoundedValHex (2 ^ 32 - 1) s = Inr x2" "(a, s1) = x2"
    and 2: "BoundedVal (2 ^ 31 - 1) (dropWhile sp s1) = Inr x2a" "(en, s2) = x2a"
    and 3: "BoundedVal (2 ^ 31 - 1) (dropWhile sp s2) = Inr x2b" "(sz, s3) = x2b"
  have "length s1 < length s" using BoundedValHex_consumes 1 by blast
  moreover have "length s2 \<le> length (dropWhile sp s1)" "length s3 \<le> length (dropWhile sp s2)"
    using BoundedVal_shrinks 2 3 by blast+
  ultimately have "length s3 < length s"
    using dropWhile_length_le [of sp s1] dropWhile_length_le [of sp s2] by linarith
  then show "((sp, sid, snd (lexDrive sp s3)), sp, sid, s) \<in> measure (\<lambda>(sp, sid, s). length s)"
    using lexDrive_shrinks [of sp s3] by simp
qed simp

declare findOverride.simps [simp del]

definition KDefaultOverrideString :: tdes16 where
  "KDefaultOverrideString = lit16 ''10008D39;1;2048;C;10282822;1;1024;C;102829A0;1;1024;C''"

text \<open>The separators are turned into spaces.\<close>

definition spaceOut :: "tdes16 \<Rightarrow> tdes16" where
  "spaceOut = map (\<lambda>c. if c = 59 then 32 else c)"

subsection \<open>Reading what was written\<close>

text \<open>A number in decimal, and an override string: the id as text, the flag, the size and the drive.\<close>

fun showDec :: "nat \<Rightarrow> tdes16" where
  "showDec n = (if n < 10 then [of_nat (48 + n)] else showDec (n div 10) @ [of_nat (48 + n mod 10)])"

declare showDec.simps [simp del]

definition showEntry :: "tdes16 \<times> nat \<times> nat \<times> 16 word \<Rightarrow> tdes16" where
  "showEntry x = (case x of (t, en, sz, d) \<Rightarrow> t @ [59] @ showDec en @ [59] @ showDec sz @ [59, d])"

fun showOverride :: "(tdes16 \<times> nat \<times> nat \<times> 16 word) list \<Rightarrow> tdes16" where
  "showOverride [] = []"
| "showOverride [x] = showEntry x"
| "showOverride (x # xs) = showEntry x @ [59] @ showOverride xs"

definition entryOk :: "tdes16 \<times> nat \<times> nat \<times> 16 word \<Rightarrow> bool" where
  "entryOk x \<longleftrightarrow> (case x of (t, en, sz, d) \<Rightarrow> length t = 8 \<and> list_all isHex t \<and> en < 2 ^ 31 \<and> sz < 2 ^ 31 \<and> 65 \<le> d \<and> d \<le> 90)"

lemma digit_word:
  assumes "k < 10"
  shows "asciiDigit (of_nat (48 + k))" "unat (of_nat (48 + k) :: 16 word) - 48 = k"
proof -
  have "unat (of_nat (48 + k) :: 16 word) = 48 + k" using assms by (simp add: unat_of_nat del: of_nat_add)
  then show "asciiDigit (of_nat (48 + k))" "unat (of_nat (48 + k) :: 16 word) - 48 = k"
    using assms by (simp_all add: asciiDigit_def word_le_nat_alt del: of_nat_add)
qed

lemma showDec_digits: "list_all asciiDigit (showDec n) \<and> showDec n \<noteq> [] \<and> decNum (showDec n) = n"
proof (induction n rule: showDec.induct)
  case (1 n)
  show ?case
  proof (cases "n < 10")
    case True
    then show ?thesis using digit_word [OF True] by (simp add: showDec.simps [of n] decNum_def del: of_nat_add)
  next
    case False
    have m: "n mod 10 < 10" by simp
    show ?thesis using 1 [OF False] False digit_word [OF m]
      by (simp add: showDec.simps [of n] decNum_def del: of_nat_add)
  qed
qed

lemma isHex_digit: "asciiDigit c \<Longrightarrow> isHex c" "isHex c \<Longrightarrow> c \<noteq> 45" "isHex c \<Longrightarrow> c \<noteq> 43" "isHex c \<Longrightarrow> c \<noteq> 32" "isHex c \<Longrightarrow> c \<noteq> 59"
  by (auto simp: isHex_def hexValue_def asciiDigit_def split: if_splits)

lemma takeWhile_all: "list_all P xs \<Longrightarrow> \<not> P c \<Longrightarrow> takeWhile P (xs @ c # ys) = xs \<and> dropWhile P (xs @ c # ys) = c # ys"
  by (induction xs) auto

lemma hexValue_le: "hexValue c = Some v \<Longrightarrow> v < 16"
  by (auto simp: hexValue_def asciiDigit_def word_le_nat_alt split: if_splits)

lemma hexNum_less: "list_all isHex t \<Longrightarrow> hexNum t < 16 ^ length t"
proof (induction t rule: rev_induct)
  case (snoc c t)
  then obtain v where "hexValue c = Some v" by (auto simp: isHex_def)
  then show ?case using snoc hexValue_le [of c v] by (simp add: hexNum_def)
qed (simp add: hexNum_def)

lemma BoundedValHex_text:
  assumes "list_all isHex t" "length t = 8"
  shows "BoundedValHex (2 ^ 32 - 1) (t @ 32 # ys) = Inr (hexNum t, 32 # ys)"
proof -
  have "\<not> isHex 32" using isHex_digit(4) by blast
  then have "takeWhile isHex (t @ 32 # ys) = t" "dropWhile isHex (t @ 32 # ys) = 32 # ys" using takeWhile_all assms(1) by metis+
  moreover have "hexNum t \<le> 2 ^ 32 - 1" using hexNum_less [OF assms(1)] assms(2) by simp
  moreover have "t \<noteq> []" using assms(2) by auto
  ultimately show ?thesis by (simp add: BoundedValHex_def Let_def)
qed

lemma BoundedVal_text:
  assumes "n < 2 ^ 31"
  shows "BoundedVal (2 ^ 31 - 1) (showDec n @ 32 # ys) = Inr (int n, 32 # ys)"
proof -
  note d = showDec_digits [of n]
  have "\<not> asciiDigit 32" by (simp add: asciiDigit_def)
  then have t: "takeWhile asciiDigit (showDec n @ 32 # ys) = showDec n" "dropWhile asciiDigit (showDec n @ 32 # ys) = 32 # ys"
    using takeWhile_all d by metis+
  obtain c cs where c: "showDec n = c # cs" using d by (cases "showDec n") auto
  then have "c \<noteq> 45" "c \<noteq> 43" using d isHex_digit by auto
  then show ?thesis using t d c assms by (simp add: BoundedVal_def Let_def)
qed

text \<open>What the lexer may rely on: a space separates, and a letter or digit does not.\<close>

definition plainSpace :: "(16 word \<Rightarrow> bool) \<Rightarrow> bool" where
  "plainSpace sp \<longleftrightarrow> sp 32 \<and> (\<forall>c. isHex c \<or> 65 \<le> c \<and> c \<le> 90 \<longrightarrow> \<not> sp c)"

lemma spaceOut_hex: "list_all isHex t \<Longrightarrow> spaceOut t = t"
  using isHex_digit(5) by (induction t) (auto simp: spaceOut_def)

lemma spaceOut_append: "spaceOut (xs @ ys) = spaceOut xs @ spaceOut ys"
  by (simp add: spaceOut_def)

lemma spaceOut_entry:
  assumes "entryOk (t, en, sz, d)"
  shows "spaceOut (showEntry (t, en, sz, d)) = t @ 32 # showDec en @ 32 # showDec sz @ [32, d]"
proof -
  have h: "list_all isHex t" "list_all isHex (showDec n)" for n
    using assms showDec_digits [of n] isHex_digit(1) by (auto simp: entryOk_def list_all_iff)
  have "d \<noteq> 59" using assms by (auto simp: entryOk_def)
  then have "spaceOut [59, d] = [32, d]" "spaceOut [59] = [32]" by (simp_all add: spaceOut_def)
  then show ?thesis unfolding showEntry_def prod.case spaceOut_append by (simp add: spaceOut_hex h)
qed

text \<open>One turn of the loop on one entry, followed by the end of the text or by the next entry.\<close>

lemma findOverride_entry:
  assumes e: "entryOk (t, en, sz, d)" and sp: "plainSpace sp" and rest: "rest = [] \<or> (\<exists>c ys. rest = 32 # c # ys \<and> isHex c)"
  shows "findOverride sp sid (t @ 32 # showDec en @ 32 # showDec sz @ 32 # d # rest) =
    (if of_nat (hexNum t) = sid then Some (Inr (Some (en \<noteq> 0, of_nat (sz * 1024), uint d - 65)))
     else if rest = [] then Some (Inr None) else findOverride sp sid (tl rest))"
proof -
  have t: "list_all isHex t" "length t = 8" "en < 2 ^ 31" "sz < 2 ^ 31" "65 \<le> d" "d \<le> 90" using e by (simp_all add: entryOk_def)
  have nsp: "sp 32" "\<not> sp d" "isHex c \<Longrightarrow> \<not> sp c" for c using sp t by (auto simp: plainSpace_def)
  have skip: "dropWhile sp (32 # showDec n @ ys) = showDec n @ ys" for n ys
  proof -
    obtain c cs where "showDec n = c # cs" "isHex c" using showDec_digits [of n] isHex_digit(1) by (cases "showDec n") auto
    then show ?thesis using nsp by simp
  qed
  have dr: "fst (lexDrive sp (32 # d # rest)) = Some (uint d - 65)"
    using nsp rest t(5,6) by (auto simp: lexDrive_def TDriveUnit_def)
  have nx: "snd (lexDrive sp (32 # d # rest)) = tl rest" "rest \<noteq> [] \<Longrightarrow> tl rest \<noteq> []"
    using nsp rest by (auto simp: lexDrive_def)
  have w: "word_of_int (int sz * 1024) = (of_nat (sz * 1024) :: 32 word)" by simp
  have len: "length (t @ ys) - length ys = 8" for ys using t(2) by simp
  have c: "(tl rest = []) = (rest = [])" using nx(2) by auto
  show ?thesis
    unfolding findOverride.simps [of sp sid "t @ 32 # showDec en @ 32 # showDec sz @ 32 # d # rest"]
      BoundedValHex_text [OF t(1,2)] sum.case prod.case len skip BoundedVal_text [OF t(3)] BoundedVal_text [OF t(4)] dr nx(1) option.case w c
    by simp
qed

text \<open>The result of the search over a list of entries.\<close>

definition chooseEntry :: "32 word \<Rightarrow> (tdes16 \<times> nat \<times> nat \<times> 16 word) list \<Rightarrow> (bool \<times> 32 word \<times> int) option" where
  "chooseEntry sid es = map_option (\<lambda>(t, en, sz, d). (en \<noteq> 0, of_nat (sz * 1024), uint d - 65))
     (find (\<lambda>(t, en, sz, d). of_nat (hexNum t) = sid) es)"

lemma override_text_gen:
  assumes sp: "plainSpace sp"
  shows "es \<noteq> [] \<Longrightarrow> list_all entryOk es \<Longrightarrow> findOverride sp sid (spaceOut (showOverride es)) = Some (Inr (chooseEntry sid es))"
proof (induction es rule: showOverride.induct)
  case (2 x)
  obtain t en sz d where x: "x = (t, en, sz, d)" by (cases x)
  have ok: "entryOk (t, en, sz, d)" using 2 x by simp
  show ?case
    using findOverride_entry [OF ok sp, of "[]" sid] unfolding x showOverride.simps spaceOut_entry [OF ok]
    by (simp add: chooseEntry_def)
next
  case (3 x y ys)
  obtain t en sz d where x: "x = (t, en, sz, d)" by (cases x)
  have ok: "entryOk (t, en, sz, d)" "entryOk y" using 3(3) x by simp_all
  let ?r = "spaceOut (showOverride (y # ys))"
  obtain t' en' sz' d' where y: "y = (t', en', sz', d')" by (cases y)
  obtain c cs where c: "t' = c # cs" "isHex c" using ok(2) y by (cases t') (auto simp: entryOk_def)
  have "\<exists>r. showOverride (y # ys) = t' @ r" by (cases ys) (auto simp: showEntry_def y)
  then obtain r where "showOverride (y # ys) = c # cs @ r" using c by auto
  then have r: "?r = c # spaceOut (cs @ r)" using isHex_digit(5) [OF c(2)] by (simp add: spaceOut_def)
  have s: "spaceOut (showOverride (x # y # ys)) = t @ 32 # showDec en @ 32 # showDec sz @ 32 # d # 32 # ?r"
    using spaceOut_entry [OF ok(1)] unfolding x showOverride.simps spaceOut_append by (simp add: spaceOut_def)
  show ?case
    using 3 findOverride_entry [OF ok(1) sp, of "32 # ?r" sid] c(2) unfolding s r by (simp add: x chooseEntry_def)
qed simp

end
