(* ===== verification/CacheConfig.thy ===== *)
theory CacheConfig
  imports CacheManager OverrideText
begin

text \<open>
  The construction of the manager (cache/src/HttpCacheManager.cpp): which caches there are, how big
  they may get and where they lie is read from the central repository, overridden for each process
  by the override string, and then the handlers are built. A leave in any step ends the
  construction with its error. A key of the repository is an error or its value.
\<close>

type_synonym 'v key = "symerr + 'v"

record repository =
  KCacheWritePostponeEnabled :: "int key"
  KCacheWritePostponeFreeRAMThreshold :: "int key"
  KCacheWritePostponeImmediateWriteThreshold :: "int key"
  KCacheWritePostponeWriteTimeout :: "int key"
  KCacheManagerHttpCacheEnabled :: "int key"
  KCacheManagerHttpCacheSize :: "int key"
  KCacheManagerHttpCacheFolder :: "tdes16 key"
  KOperatorCacheSize :: "int key"
  KOperatorCacheFolder :: "tdes16 key"
  KOperatorDomainUrl :: "tdes16 key"
  KPhoneSpecificCacheEnabled :: "int key"
  KPhoneSpecificCacheSize :: "int key"
  KPhoneSpecificCacheFolder :: "tdes16 key"
  KPhoneSpecificCacheDomainUrl :: "tdes16 key"

text \<open>
  The rest of the platform. \<open>csOverride n\<close> is what the repository puts into a buffer of \<open>n\<close> characters
  and the length it reports; \<open>csTail\<close> is the memory behind the white list; \<open>csVolume\<close> tells whether
  a drive is a RAM drive and \<open>csCritical\<close> the critical level for it.
\<close>

record config_env =
  csRepo :: repository
  csOverride :: "nat \<Rightarrow> tdes16 \<times> int"
  csAlloc :: "nat \<Rightarrow> bool"
  csSpace :: "16 word \<Rightarrow> bool"
  csOpFeature :: bool
  csVolume :: "int \<Rightarrow> bool key"
  csCritical :: "bool \<Rightarrow> int key"
  csConstruct :: "cache_id \<Rightarrow> construct_io"
  csTail :: "nat \<Rightarrow> byte"
  csOfflineFeature :: bool
  csOfflineRepo :: symerr
  csConnAllowed :: "int key"
  csNotify :: symerr

definition KDefaultCacheSize :: "32 word" where "KDefaultCacheSize = 1048576"
definition KDefaultOperatorCacheSize :: "32 word" where "KDefaultOperatorCacheSize = 300 * 1024"
definition KDefaultCacheDrive :: tdes16 where "KDefaultCacheDrive = lit16 ''c''"
definition KDefaultCacheDir :: tdes16 where "KDefaultCacheDir = lit16 ''c:'' @ [92] @ lit16 ''system'' @ [92] @ lit16 ''cache'' @ [92]"
definition KDefaultOperatorCacheDir :: tdes16 where "KDefaultOperatorCacheDir = KDefaultCacheDir"
definition KDefaultVssCacheDir :: tdes16 where "KDefaultVssCacheDir = KDefaultCacheDir @ lit16 ''vss'' @ [92]"
definition KDefaultIndexFile :: tdes16 where "KDefaultIndexFile = lit16 ''index.dat''"
definition KDefaultOpIndexFile :: tdes16 where "KDefaultOpIndexFile = lit16 ''index_op.dat''"
definition KDefaultVSSIndexFile :: tdes16 where "KDefaultVSSIndexFile = lit16 ''index_vss.dat''"

text \<open>An empty path stays empty: the position of a slash that is not there is -1.\<close>

definition EnsureTrailingSlash :: "tdes16 \<Rightarrow> tdes16" where
  "EnsureTrailingSlash aPath = (if aPath \<noteq> [] \<and> last aPath \<noteq> 92 then aPath @ [92] else aPath)"

text \<open>The drive and the path of a full name, without the name.\<close>

definition parseDrive :: "tdes16 \<Rightarrow> tdes16" where
  "parseDrive p = (if length p \<ge> 2 \<and> p ! 1 = 58 then take 2 p else [])"

definition parsePath :: "tdes16 \<Rightarrow> tdes16" where
  "parsePath p = rev (dropWhile (\<lambda>c. c \<noteq> 92) (rev (drop (length (parseDrive p)) p)))"

subsection \<open>The settings\<close>

record cache_config =
  ccCacheEnabled :: bool
  ccCacheSize :: "32 word"
  ccCacheFolder :: tdes16
  ccOpCacheEnabled :: bool
  ccOpCacheSize :: "32 word"
  ccOpCacheFolder :: tdes16
  ccVssCacheEnabled :: bool
  ccVssCacheSize :: "32 word"
  ccVssCacheFolder :: tdes16

definition keyOr :: "'v key \<Rightarrow> 'v \<Rightarrow> 'v" where
  "keyOr k v = (case k of Inl _ \<Rightarrow> v | Inr v' \<Rightarrow> v')"

text \<open>Whether the new repository file is there, and the parameters.\<close>

definition GetPostponeParamsL :: "repository \<Rightarrow> symerr + (bool \<times> postpone_params)" where
  "GetPostponeParamsL r =
    (case KCacheWritePostponeEnabled r of
       Inl _ \<Rightarrow> Inr (False, THttpCachePostponeParameters)
     | Inr en \<Rightarrow>
       (case (KCacheWritePostponeFreeRAMThreshold r, KCacheWritePostponeImmediateWriteThreshold r, KCacheWritePostponeWriteTimeout r) of
          (Inl err, _, _) \<Rightarrow> Inl err
        | (_, Inl err, _) \<Rightarrow> Inl err
        | (_, _, Inl err) \<Rightarrow> Inl err
        | (Inr ram, Inr imm, Inr tmo) \<Rightarrow> Inr (True, \<lparr>ppEnabled = (en \<noteq> 0), ppFreeRamThreshold = ram,
            ppImmediateWriteThreshold = word_of_int imm, ppWriteTimeout = tmo\<rparr>)))"

definition GetHttpCacheConfigL :: "repository \<Rightarrow> cache_config \<Rightarrow> cache_config" where
  "GetHttpCacheConfigL r c =
    (case KCacheManagerHttpCacheEnabled r of
       Inl _ \<Rightarrow> c\<lparr>ccCacheEnabled := False, ccCacheFolder := EnsureTrailingSlash KDefaultCacheDir\<rparr>
     | Inr en \<Rightarrow> c\<lparr>ccCacheEnabled := (en \<noteq> 0),
         ccCacheSize := (case KCacheManagerHttpCacheSize r of Inl _ \<Rightarrow> ccCacheSize c | Inr sz \<Rightarrow> word_of_int sz),
         ccCacheFolder := EnsureTrailingSlash (keyOr (KCacheManagerHttpCacheFolder r) KDefaultCacheDir)\<rparr>)"

definition GetOperatorCacheConfigL :: "bool \<Rightarrow> repository \<Rightarrow> cache_config \<Rightarrow> cache_config" where
  "GetOperatorCacheConfigL feature r c =
    (let c1 = c\<lparr>ccOpCacheEnabled := feature\<rparr>;
         c2 = (if feature then c1\<lparr>
             ccOpCacheSize := (case KOperatorCacheSize r of Inl _ \<Rightarrow> ccOpCacheSize c1 | Inr sz \<Rightarrow> word_of_int sz),
             ccOpCacheFolder := keyOr (KOperatorCacheFolder r) (ccOpCacheFolder c1)\<rparr> else c1)
     in c2\<lparr>ccOpCacheFolder := EnsureTrailingSlash (ccOpCacheFolder c2)\<rparr>)"

definition GetVSSCacheConfigL :: "repository \<Rightarrow> cache_config \<Rightarrow> cache_config" where
  "GetVSSCacheConfigL r c =
    (let c1 = c\<lparr>ccVssCacheEnabled := (keyOr (KPhoneSpecificCacheEnabled r) 0 \<noteq> 0)\<rparr>;
         c2 = (if ccVssCacheEnabled c1 then c1\<lparr>
             ccVssCacheSize := (case KPhoneSpecificCacheSize r of Inl _ \<Rightarrow> ccVssCacheSize c1 | Inr sz \<Rightarrow> word_of_int sz),
             ccVssCacheFolder := keyOr (KPhoneSpecificCacheFolder r) (ccVssCacheFolder c1)\<rparr> else c1)
     in c2\<lparr>ccVssCacheFolder := EnsureTrailingSlash (ccVssCacheFolder c2)\<rparr>)"

text \<open>The critical level of the drive of the folder; a folder without a drive panics.\<close>

definition GetCriticalDriveLevelsL :: "config_env \<Rightarrow> tdes16 \<Rightarrow> int key option" where
  "GetCriticalDriveLevelsL cs aCacheFolder =
    (case TDriveUnit (parseDrive aCacheFolder) of
       None \<Rightarrow> None
     | Some drive \<Rightarrow> Some (case csVolume cs drive of Inl err \<Rightarrow> Inl err | Inr ram \<Rightarrow> csCritical cs ram))"

text \<open>The override string: a longer one is read again into a bigger buffer, none is the default.\<close>

definition overrideStr :: "config_env \<Rightarrow> tdes16 key" where
  "overrideStr cs =
    (if \<not> csAlloc cs 64 then Inl KErrNoMemory
     else let (s, strLen) = csOverride cs 64 in
       if strLen > int (length s) \<and> \<not> csAlloc cs (nat strLen) then Inl KErrNoMemory
       else let s1 = (if strLen > int (length s) then fst (csOverride cs (nat strLen)) else s)
            in Inr (if s1 = [] then KDefaultOverrideString else s1))"

definition ApplyCacheOverridesL :: "config_env \<Rightarrow> 32 word \<Rightarrow> cache_config \<Rightarrow> (symerr \<times> cache_config) option" where
  "ApplyCacheOverridesL cs aSecIdInt c = do {
     drive0 \<leftarrow> TDriveUnit KDefaultCacheDrive;
     let c1 = (if aSecIdInt = KUIDBROWSERNG then c\<lparr>ccOpCacheEnabled := True, ccVssCacheEnabled := True\<rparr> else c);
     case overrideStr cs of
       Inl err \<Rightarrow> Some (err, c1)
     | Inr s \<Rightarrow> do {
         r \<leftarrow> findOverride (csSpace cs) aSecIdInt (spaceOut s);
         case r of
           Inl err \<Rightarrow> Some (err, c1)
         | Inr found \<Rightarrow>
           let c2 = (case found of Some (en, sz, _) \<Rightarrow> c1\<lparr>ccCacheEnabled := en, ccCacheSize := sz\<rparr> | None \<Rightarrow> c1);
               drive = (case found of Some (_, _, d) \<Rightarrow> d | None \<Rightarrow> drive0)
           in Some (KErrNone, c2\<lparr>ccCacheFolder := EnsureTrailingSlash ([word_of_int (drive + 65), 58] @ parsePath (ccCacheFolder c2))\<rparr>) } }"

definition defaultConfig :: cache_config where
  "defaultConfig = \<lparr>ccCacheEnabled = False, ccCacheSize = KDefaultCacheSize, ccCacheFolder = KDefaultCacheDir,
     ccOpCacheEnabled = False, ccOpCacheSize = KDefaultOperatorCacheSize, ccOpCacheFolder = KDefaultOperatorCacheDir,
     ccVssCacheEnabled = False, ccVssCacheSize = KDefaultOperatorCacheSize, ccVssCacheFolder = KDefaultVssCacheDir\<rparr>"

text \<open>The settings before the override: the new repository file is trusted when it is there.\<close>

definition repoConfig :: "config_env \<Rightarrow> bool \<Rightarrow> cache_config" where
  "repoConfig cs newCentrepPresent =
    (if newCentrepPresent then GetVSSCacheConfigL (csRepo cs) (GetOperatorCacheConfigL (csOpFeature cs) (csRepo cs)
        (GetHttpCacheConfigL (csRepo cs) defaultConfig)) else defaultConfig)"

subsection \<open>The caches\<close>

text \<open>A handler of its own for a folder and an index file, on the common disk.\<close>

definition createCache :: "mgr_env \<Rightarrow> config_env \<Rightarrow> cache_id \<Rightarrow> 32 word \<Rightarrow> tdes16 \<Rightarrow> tdes16 \<Rightarrow> int \<Rightarrow> postpone_params \<Rightarrow> manager \<Rightarrow>
    (symerr \<times> manager) option" where
  "createCache me cs c aSize folder indexFile aCriticalLevel aPostpone m = do {
     r \<leftarrow> chNewL (csConstruct cs c) (envIo (meEnv me c)) (meIx me) folder
            (newHandler aSize aCriticalLevel aPostpone (folder @ indexFile) (mgDisk m));
     case r of Inl err \<Rightarrow> Some (err, m)
     | Inr w \<Rightarrow> Some (KErrNone, (setCache c w m)\<lparr>mgDisk := disk w\<rparr>) }"

text \<open>The browser has the usual index, every other client one named by its id.\<close>

definition CreateHttpCacheL :: "mgr_env \<Rightarrow> config_env \<Rightarrow> 32 word \<Rightarrow> int \<Rightarrow> postpone_params \<Rightarrow> manager \<Rightarrow> (symerr \<times> manager) option" where
  "CreateHttpCacheL me cs aCacheSize aCriticalLevel aPostpone m =
    createCache me cs ECache aCacheSize (iCacheFolder m)
      (if mgSecureId m \<noteq> KUIDBROWSERNG then hex8 (mgSecureId m) @ lit16 ''.dat'' else KDefaultIndexFile) aCriticalLevel aPostpone m"

text \<open>16-bit text in an 8-bit descriptor: a character that does not fit becomes 1.\<close>

definition narrow :: "tdes16 \<Rightarrow> tdes8" where
  "narrow = map (\<lambda>c. if c < 256 then ucast c else 1)"

definition opDomainOf :: "tdes16 \<Rightarrow> tdes8" where
  "opDomainOf url = (let d = rev (dropWhile (\<lambda>c. c \<noteq> 47) (rev (narrow url))) in if d = [] then [] else butlast d)"

definition CreateOperatorCacheL :: "mgr_env \<Rightarrow> config_env \<Rightarrow> tdes16 \<Rightarrow> 32 word \<Rightarrow> int \<Rightarrow> postpone_params \<Rightarrow> manager \<Rightarrow> (symerr \<times> manager) option" where
  "CreateOperatorCacheL me cs aOpCacheFolder aOpCacheSize aCriticalLevel aPostpone m =
    (case KOperatorDomainUrl (csRepo cs) of
       Inl _ \<Rightarrow> Some (KErrNone, m)
     | Inr url \<Rightarrow> createCache me cs EOperatorCache aOpCacheSize aOpCacheFolder KDefaultOpIndexFile aCriticalLevel aPostpone
         (m\<lparr>iOpDomain := Some (opDomainOf url)\<rparr>))"

definition CreateVssCacheL :: "mgr_env \<Rightarrow> config_env \<Rightarrow> tdes16 \<Rightarrow> 32 word \<Rightarrow> int \<Rightarrow> postpone_params \<Rightarrow> manager \<Rightarrow> (symerr \<times> manager) option" where
  "CreateVssCacheL me cs aVssCacheFolder aVssCacheSize aCriticalLevel aPostpone m =
    createCache me cs EPhoneCache aVssCacheSize aVssCacheFolder KDefaultVSSIndexFile aCriticalLevel aPostpone
      (m\<lparr>iVSSWhiteList := (case KPhoneSpecificCacheDomainUrl (csRepo cs) of Inl _ \<Rightarrow> None
         | Inr l \<Rightarrow> Some (\<lambda>i. if i < length l then narrow l ! i else csTail cs i, length l))\<rparr>)"

text \<open>The next step runs when the one before did not leave.\<close>

definition thenL :: "(symerr \<times> manager) option \<Rightarrow> (manager \<Rightarrow> (symerr \<times> manager) option) \<Rightarrow> (symerr \<times> manager) option" where
  "thenL x f = Option.bind x (\<lambda>(err, m). if err = KErrNone then f m else Some (err, m))"

definition createAll :: "mgr_env \<Rightarrow> config_env \<Rightarrow> postpone_params \<Rightarrow> cache_config \<Rightarrow> int \<Rightarrow> manager \<Rightarrow> (symerr \<times> manager) option" where
  "createAll me cs postpone c criticalLevel m =
     thenL (thenL (if ccCacheEnabled c then CreateHttpCacheL me cs (ccCacheSize c) criticalLevel postpone m else Some (KErrNone, m))
        (\<lambda>m2. if ccCacheEnabled c \<and> ccOpCacheEnabled c
              then CreateOperatorCacheL me cs (ccOpCacheFolder c) (ccOpCacheSize c) criticalLevel postpone m2 else Some (KErrNone, m2)))
     (\<lambda>m3. if ccVssCacheEnabled c then CreateVssCacheL me cs (ccVssCacheFolder c) (ccVssCacheSize c) criticalLevel postpone m3
           else Some (KErrNone, m3))"

definition CreateCacheHandlersL :: "mgr_env \<Rightarrow> config_env \<Rightarrow> manager \<Rightarrow> (symerr \<times> manager) option" where
  "CreateCacheHandlersL me cs m =
    (case GetPostponeParamsL (csRepo cs) of
       Inl err \<Rightarrow> Some (err, m)
     | Inr (newCentrepPresent, postpone) \<Rightarrow> do {
         (err, c) \<leftarrow> ApplyCacheOverridesL cs (mgSecureId m) (repoConfig cs newCentrepPresent);
         let m1 = m\<lparr>iCacheEnabled := ccCacheEnabled c, iVSSCacheEnabled := ccVssCacheEnabled c, iCacheFolder := ccCacheFolder c\<rparr>;
         if err \<noteq> KErrNone then Some (err, m1)
         else do {
           lev \<leftarrow> GetCriticalDriveLevelsL cs (ccCacheFolder c);
           case lev of
             Inl err2 \<Rightarrow> Some (err2, m1)
           | Inr criticalLevel \<Rightarrow> thenL (createAll me cs postpone c criticalLevel m1) (CrashCheckL me) } })"

definition mgConstructL :: "mgr_env \<Rightarrow> config_env \<Rightarrow> manager \<Rightarrow> (symerr \<times> manager) option" where
  "mgConstructL me cs m = thenL (CreateCacheHandlersL me cs m) (\<lambda>m1.
     if \<not> csOfflineFeature cs then Some (KErrNone, m1)
     else if csOfflineRepo cs \<noteq> KErrNone then Some (csOfflineRepo cs, m1)
     else Some (csNotify cs, m1\<lparr>iOfflineMode := (keyOr (csConnAllowed cs) 1 = 0)\<rparr>))"

definition newManager :: "32 word \<Rightarrow> (tdes16 \<Rightarrow> tdes8 option) \<Rightarrow> manager" where
  "newManager sid d = \<lparr>iCache = None, iOperatorCache = None, iphoneSpecificCache = None, mgDisk = d, iCacheFolder = KDefaultCacheDir,
     iOpDomain = None, iVSSWhiteList = None, iOfflineMode = False, iCacheEnabled = False, iVSSCacheEnabled = False, mgSecureId = sid\<rparr>"

text \<open>\<open>NewL\<close>: a manager that could not be constructed is destroyed.\<close>

definition mgNewL :: "mgr_env \<Rightarrow> config_env \<Rightarrow> 32 word \<Rightarrow> (tdes16 \<Rightarrow> tdes8 option) \<Rightarrow> (symerr + manager) option" where
  "mgNewL me cs sid d = do {
     (err, m) \<leftarrow> mgConstructL me cs (newManager sid d);
     if err = KErrNone then Some (Inr m) else do { m1 \<leftarrow> mgDestructor me m; Some (Inl err) } }"

end
