(* ===== verification/ManagerSpec.thy ===== *)
theory ManagerSpec
  imports CacheManager
begin

text \<open>
  What the manager guarantees: a response saved through it is served through it; the clean-up of
  the cache directory keeps the files of the entries and leaves no orphans; and the behaviours
  that follow from the several caches sharing one directory and from the marker file.
\<close>

subsection \<open>One cache among several\<close>

lemma cacheOf_setCache [simp]: "cacheOf c' (setCache c w m) = (if c' = c then Some w else cacheOf c' m)"
  by (cases c; cases c') simp_all

lemma setCache_fields [simp]:
  "mgDisk (setCache c w m) = mgDisk m" "iCacheFolder (setCache c w m) = iCacheFolder m" "iOpDomain (setCache c w m) = iOpDomain m"
  "iVSSWhiteList (setCache c w m) = iVSSWhiteList m" "iOfflineMode (setCache c w m) = iOfflineMode m"
  "iCacheEnabled (setCache c w m) = iCacheEnabled m" "iVSSCacheEnabled (setCache c w m) = iVSSCacheEnabled m"
  "mgSecureId (setCache c w m) = mgSecureId m"
  by (cases c; simp)+

lemma cacheOf_disk [simp]: "cacheOf c (m\<lparr>mgDisk := d\<rparr>) = cacheOf c m"
  by (cases c) simp_all

lemma onCache_Some:
  "cacheOf c m = Some w \<Longrightarrow> f (w\<lparr>disk := mgDisk m\<rparr>) = Some (x, w') \<Longrightarrow>
   onCache c f m = Some (x, (setCache c w' m)\<lparr>mgDisk := disk w'\<rparr>)"
  by (simp add: onCache_def)

lemma CacheHandler_cong:
  "(\<And>c. (cacheOf c m' = None) = (cacheOf c m = None)) \<Longrightarrow> iVSSCacheEnabled m' = iVSSCacheEnabled m \<Longrightarrow> iOpDomain m' = iOpDomain m \<Longrightarrow>
   CacheHandler me u h m' = CacheHandler me u h m"
  unfolding CacheHandler_def Let_def by (simp only:)

subsection \<open>Saving and serving\<close>

text \<open>
  C1: what is saved through the manager is served through it. A response without the mark of the
  phone's provider goes to the operator's cache or the general one by its URL alone, and the next
  request for the URL is answered from the same cache with the saved body; the other caches
  are not touched.
\<close>

theorem manager_serves_saved:
  assumes m: "mgEnabled m" "CacheHandler me u (Some http) m = Some c" "CacheHandler me u None m = Some c" "\<not> iOfflineMode m"
    and w: "cacheOf c m = Some w0" "w = w0\<lparr>disk := mgDisk m\<rparr>" "env = meEnv me c"
    and ok: "lt_ok w" "heap w (envAddr env) = None" "growable (iEntries w)" "\<forall>p e. heap w p = Some e \<longrightarrow> \<not> des_eqF (envFold env) (iUrl e) u"
    and h: "hs \<noteq> []" "\<forall>h \<in> set hs. fieldOk h" "namesDistinct (envFold env) hs" "HeadersToBufferLC hs = Some hdr" "length hdr < 65536"
    and b: "body \<noteq> []" "length body < 2 ^ 32" "io_quiet (envIo env) w (int (length hdr + length body))"
    and fit: "sint (iContentSize w + of_nat (length hdr)) \<le> sint (iSize w)"
      "sint (iContentSize w + of_nat (length hdr) + of_nat (length body)) \<le> sint (iSize w)"
    and tr: "trUrl tr = u" "\<not> trPost tr"
  shows "\<exists>m1 m2 p. mgSaveL me u hdr body http m = Some (True, m1) \<and>
    mgRequestL me tr ECacheModeHistory \<lparr>hceHandler = None, hceEntry = None\<rparr> m1 =
      Some (RsNone, \<lparr>hceHandler = Some c, hceEntry = Some p\<rparr>, m2) \<and>
    mgRequestNextChunkL me \<lparr>hceHandler = Some c, hceEntry = Some p\<rparr> m2 = Some (Some body) \<and>
    (\<forall>c'. c' \<noteq> c \<longrightarrow> cacheOf c' m2 = cacheOf c' m)"
proof -
  obtain w1 w2 p where 1: "SaveL env u hdr body w = Some (True, w1)"
    "RequestL env tr ECacheModeHistory None w1 = Some (RsNone, Some p, w2)" "RequestNextChunkL env (Some p) w2 = Some (Some body)"
    using saved_served [OF ok h b fit tr] by blast
  let ?m1 = "(setCache c w1 m)\<lparr>mgDisk := disk w1\<rparr>" and ?m2 = "(setCache c w2 ((setCache c w1 m)\<lparr>mgDisk := disk w1\<rparr>))\<lparr>mgDisk := disk w2\<rparr>"
  have s: "mgSaveL me u hdr body http m = Some (True, ?m1)"
    using m(1,2) onCache_Some [OF w(1), of "SaveL env u hdr body" True w1] 1(1) w(2,3) by (simp add: mgSaveL_def)
  have "CacheHandler me u None ?m1 = CacheHandler me u None m"
    by (rule CacheHandler_cong) (use w(1) in auto)
  moreover have "onCache c (\<lambda>w. map_option (\<lambda>(s, p, w'). ((s, p), w')) (RequestL env tr ECacheModeHistory None w)) ?m1 = Some ((RsNone, Some p), ?m2)"
    by (rule onCache_Some [of c _ w1]) (use 1(2) in simp_all)
  moreover have "mgEnabled ?m1" using m(1) by (simp add: mgEnabled_def)
  ultimately have r: "mgRequestL me tr ECacheModeHistory \<lparr>hceHandler = None, hceEntry = None\<rparr> ?m1 =
      Some (RsNone, \<lparr>hceHandler = Some c, hceEntry = Some p\<rparr>, ?m2)"
    using m(3,4) tr(1) w(3) by (simp add: mgRequestL_def Let_def)
  have n: "mgRequestNextChunkL me \<lparr>hceHandler = Some c, hceEntry = Some p\<rparr> ?m2 = Some (Some body)"
    using 1(3) w(3) m(1) by (simp add: mgRequestNextChunkL_def mgEnabled_def)
  show ?thesis using s r n by (intro exI [of _ ?m1] exI [of _ ?m2] exI [of _ p]) simp
qed

subsection \<open>Validating all caches\<close>

definition namesIn :: "cache_id \<Rightarrow> manager \<Rightarrow> tdes16 set" where
  "namesIn c m = {n. \<exists>w p. cacheOf c m = Some w \<and> nameOf w p = Some n}"

definition indexOf :: "cache_id \<Rightarrow> manager \<Rightarrow> tdes16 option" where
  "indexOf c m = map_option iIndexPath (cacheOf c m)"

text \<open>The caches are consistent, and no two entries, nor an entry and an index, share a file.\<close>

definition caches_ok :: "mgr_env \<Rightarrow> cache_id set \<Rightarrow> manager \<Rightarrow> bool" where
  "caches_ok me cs m \<longleftrightarrow>
     (\<forall>c \<in> cs. \<forall>w. cacheOf c m = Some w \<longrightarrow> lt_ok w \<and> one_url_each (envFold (meEnv me c)) w \<and> inj_on (nameOf w) (dom (heap w))) \<and>
     (\<forall>c \<in> cs. \<forall>c' \<in> cs. c \<noteq> c' \<longrightarrow> namesIn c m \<inter> namesIn c' m = {}) \<and>
     (\<forall>c \<in> cs. \<forall>c' \<in> cs. \<forall>n. indexOf c m = Some n \<longrightarrow> n \<notin> namesIn c' m)"

text \<open>A validated cache: what it was, without the complete entries whose file was not in order.\<close>

definition validated :: "file_hash \<Rightarrow> file_hash \<Rightarrow> (tdes16 \<Rightarrow> tdes8 option) \<Rightarrow> (tdes16 \<Rightarrow> tdes8 option) \<Rightarrow> index_world \<Rightarrow> index_world \<Rightarrow> bool" where
  "validated h h' d d' w w' \<longleftrightarrow> lt_ok w' \<and> (\<forall>p. heap w' p = (if completeAt w p \<and> \<not> fileGood h w p then None else heap w p)) \<and>
     (\<forall>p e. heap w' p = Some e \<longrightarrow> iState e = ECacheComplete \<longrightarrow>
        (\<exists>n sz. iFileName e = Some n \<and> map_option fst (h n) = Some sz \<and> of_nat sz = iBodySize e \<and> h' n = Some (sz, KCacheFileNoDelete) \<and> d' n = d n))"

text \<open>What a validation of some caches does: to the map, to the disk, and to every cache.\<close>

definition validates :: "cache_id set \<Rightarrow> file_hash \<Rightarrow> manager \<Rightarrow> file_hash \<Rightarrow> manager \<Rightarrow> bool" where
  "validates cs h m h' m' \<longleftrightarrow> (\<forall>n. map_option fst (h' n) = map_option fst (h n)) \<and>
     (\<forall>n. (\<forall>c \<in> cs. n \<notin> namesIn c m \<and> Some n \<noteq> indexOf c m) \<longrightarrow> h' n = h n) \<and>
     (\<forall>n. (\<forall>c \<in> cs. n \<notin> namesIn c m) \<longrightarrow> mgDisk m' n = mgDisk m n) \<and>
     (\<forall>c. c \<notin> cs \<longrightarrow> cacheOf c m' = cacheOf c m) \<and> iCacheFolder m' = iCacheFolder m \<and>
     (\<forall>c \<in> cs. cacheOf c m = None \<longrightarrow> cacheOf c m' = None) \<and>
     (\<forall>c \<in> cs. \<forall>w. cacheOf c m = Some w \<longrightarrow> (\<exists>w'. cacheOf c m' = Some w' \<and> validated h h' (mgDisk m) (mgDisk m') w w'))"

lemma validatesD:
  assumes "validates cs h m h' m'"
  shows "map_option fst (h' n) = map_option fst (h n)"
    and "(\<And>c. c \<in> cs \<Longrightarrow> n \<notin> namesIn c m) \<Longrightarrow> (\<And>c. c \<in> cs \<Longrightarrow> Some n \<noteq> indexOf c m) \<Longrightarrow> h' n = h n"
    and "(\<And>c. c \<in> cs \<Longrightarrow> n \<notin> namesIn c m) \<Longrightarrow> mgDisk m' n = mgDisk m n"
    and "c \<notin> cs \<Longrightarrow> cacheOf c m' = cacheOf c m"
    and "iCacheFolder m' = iCacheFolder m"
    and "c \<in> cs \<Longrightarrow> cacheOf c m = None \<Longrightarrow> cacheOf c m' = None"
    and "c \<in> cs \<Longrightarrow> cacheOf c m = Some w \<Longrightarrow> \<exists>w'. cacheOf c m' = Some w' \<and> validated h h' (mgDisk m) (mgDisk m') w w'"
  using assms by (simp_all add: validates_def)

lemma validateCache_ok:
  assumes ok: "caches_ok me {c} m"
  shows "\<exists>h' m'. validateCache me c (h, m) = Some (h', m') \<and> validates {c} h m h' m'"
proof (cases "cacheOf c m")
  case None
  then show ?thesis by (intro exI [of _ h] exI [of _ m]) (simp add: validateCache_def validates_def)
next
  case (Some w)
  let ?w = "w\<lparr>disk := mgDisk m\<rparr>"
  have wf: "lt_ok w" "one_url_each (envFold (meEnv me c)) w" "inj_on (nameOf w) (dom (heap w))"
    using ok Some unfolding caches_ok_def by blast+
  have same: "nameOf ?w = nameOf w" "heap ?w = heap w" "completeAt ?w = completeAt w" "fileGood h ?w = fileGood h w" "urlOf ?w = urlOf w"
    by (simp_all add: nameOf_def completeAt_def fileGood_def urlOf_def fun_eq_iff)
  have "lt_ok ?w" by (rule lt_ok_cong [OF wf(1)]) simp_all
  moreover have "one_url_each (envFold (meEnv me c)) ?w" using wf(2) same(5) by (simp add: one_url_each_def)
  moreover have "inj_on (nameOf ?w) (dom (heap ?w))" using wf(3) same by simp
  ultimately obtain h' w' where v: "ValidateCacheEntriesL (meEnv me c) (iIndexPath w) h ?w = Some (h', w')" "lt_ok w'"
    "\<forall>p. heap w' p = (if completeAt w p \<and> \<not> fileGood h w p then None else heap w p)"
    "\<forall>p e. heap w' p = Some e \<longrightarrow> iState e = ECacheComplete \<longrightarrow>
       (\<exists>n sz v. iFileName e = Some n \<and> h n = Some (sz, v) \<and> of_nat sz = iBodySize e \<and> h' n = Some (sz, KCacheFileNoDelete))"
    "\<forall>n. map_option fst (h' n) = map_option fst (h n)"
    "\<forall>n. Some n \<notin> nameOf w ` dom (heap w) \<longrightarrow> n \<noteq> iIndexPath w \<longrightarrow> h' n = h n"
    "\<forall>n. (\<forall>p. nameOf w p = Some n \<longrightarrow> fileGood h w p) \<longrightarrow> disk w' n = mgDisk m n"
    using validated_gen [of ?w "meEnv me c" "iIndexPath w" h] unfolding same by auto
  let ?m' = "(setCache c w' m)\<lparr>mgDisk := disk w'\<rparr>"
  have run: "validateCache me c (h, m) = Some (h', ?m')"
    using onCache_Some [OF Some, of "ValidateCacheEntriesL (meEnv me c) (iIndexPath w) h" h' w'] v(1) Some by (simp add: validateCache_def)
  have nm: "n \<in> namesIn c m" if "nameOf w p = Some n" for p n using that Some by (auto simp: namesIn_def)
  have "validated h h' (mgDisk m) (disk w') w w'"
    unfolding validated_def
  proof (intro conjI allI impI)
    fix p e assume e: "heap w' p = Some e" "iState e = ECacheComplete"
    then obtain n sz v where n: "iFileName e = Some n" "h n = Some (sz, v)" "of_nat sz = iBodySize e" "h' n = Some (sz, KCacheFileNoDelete)"
      using v(4) by blast
    have hp: "heap w p = Some e" "fileGood h w p" using v(3) e by (auto simp: completeAt_def split: if_splits)
    have "q = p" if "nameOf w q = Some n" for q
      using inj_onD [OF wf(3), of q p] that hp(1) n(1) by (auto simp: nameOf_def split: bind_splits)
    then have "disk w' n = mgDisk m n" using v(7) hp(2) by blast
    then show "\<exists>n sz. iFileName e = Some n \<and> map_option fst (h n) = Some sz \<and> of_nat sz = iBodySize e \<and> h' n = Some (sz, KCacheFileNoDelete) \<and> disk w' n = mgDisk m n"
      using n by (intro exI [of _ n] exI [of _ sz]) simp
  qed (use v(2,3) in auto)
  moreover have "h' n = h n" if n: "n \<notin> namesIn c m" "Some n \<noteq> indexOf c m" for n
  proof -
    have "Some n \<notin> nameOf w ` dom (heap w)" using n(1) nm by (metis imageE)
    moreover have "n \<noteq> iIndexPath w" using n(2) Some by (simp add: indexOf_def)
    ultimately show ?thesis using v(6) by blast
  qed
  moreover have "disk w' n = mgDisk m n" if "n \<notin> namesIn c m" for n using v(7) nm that by blast
  ultimately show ?thesis using run v(5) Some by (intro exI [of _ h'] exI [of _ ?m']) (simp add: validates_def)
qed

lemma namesIn_cong: "cacheOf c m' = cacheOf c m \<Longrightarrow> namesIn c m' = namesIn c m"
  by (simp add: namesIn_def)

lemma indexOf_cong: "cacheOf c m' = cacheOf c m \<Longrightarrow> indexOf c m' = indexOf c m"
  by (simp add: indexOf_def)

lemma caches_ok_mono: "caches_ok me cs m \<Longrightarrow> cs' \<subseteq> cs \<Longrightarrow> caches_ok me cs' m"
  unfolding caches_ok_def by blast

lemma caches_ok_cong:
  assumes "caches_ok me cs m" "\<And>c. c \<in> cs \<Longrightarrow> cacheOf c m' = cacheOf c m"
  shows "caches_ok me cs m'"
  using assms(1) unfolding caches_ok_def by (simp add: assms(2) namesIn_cong [OF assms(2)] indexOf_cong [OF assms(2)])

text \<open>Validations of different caches compose: neither disturbs what the other found.\<close>

lemma validated_other:
  assumes v: "validated h h1 d d1 w w'" and same: "\<And>p n. nameOf w p = Some n \<Longrightarrow> h2 n = h1 n \<and> d2 n = d1 n"
  shows "validated h h2 d d2 w w'"
  unfolding validated_def
proof (intro conjI allI impI)
  fix p e assume e: "heap w' p = Some e" "iState e = ECacheComplete"
  then obtain n sz where n: "iFileName e = Some n" "map_option fst (h n) = Some sz" "of_nat sz = iBodySize e"
      "h1 n = Some (sz, KCacheFileNoDelete)" "d1 n = d n"
    using v unfolding validated_def by blast
  have "heap w p = Some e" using v e(1) unfolding validated_def by (metis option.distinct(1))
  then have "nameOf w p = Some n" using n(1) by (simp add: nameOf_def)
  then show "\<exists>n sz. iFileName e = Some n \<and> map_option fst (h n) = Some sz \<and> of_nat sz = iBodySize e \<and> h2 n = Some (sz, KCacheFileNoDelete) \<and> d2 n = d n"
    using same n by (intro exI [of _ n] exI [of _ sz]) simp
qed (use v in \<open>simp_all add: validated_def\<close>)

lemma validates_insert:
  assumes 1: "validates {c} h m h1 m1" and 2: "validates cs h1 m1 h2 m2" and c: "c \<notin> cs" and ok: "caches_ok me (insert c cs) m"
  shows "validates (insert c cs) h m h2 m2"
proof -
  note a = validatesD [OF 1] and b = validatesD [OF 2]
  have same: "cacheOf c' m1 = cacheOf c' m" if "c' \<in> cs" for c' using a(4) [of c'] that c by blast
  have nm: "namesIn c' m1 = namesIn c' m" "indexOf c' m1 = indexOf c' m" if "c' \<in> cs" for c'
    using namesIn_cong [OF same [OF that]] indexOf_cong [OF same [OF that]] .
  have own: "\<exists>w'. cacheOf c m2 = Some w' \<and> validated h h2 (mgDisk m) (mgDisk m2) w w'" if w: "cacheOf c m = Some w" for w
  proof -
    obtain w' where w': "cacheOf c m1 = Some w'" "validated h h1 (mgDisk m) (mgDisk m1) w w'" using a(7) w by blast
    have "h2 n = h1 n \<and> mgDisk m2 n = mgDisk m1 n" if "nameOf w p = Some n" for p n
    proof -
      have n: "n \<in> namesIn c m" using that w by (auto simp: namesIn_def)
      then have "n \<notin> namesIn c' m1" "Some n \<noteq> indexOf c' m1" if "c' \<in> cs" for c'
        using that ok c unfolding caches_ok_def nm [OF that] by (metis IntI empty_iff insertCI, metis insertCI)
      then show ?thesis using b(2,3) by blast
    qed
    then have "validated h h2 (mgDisk m) (mgDisk m2) w w'" by (rule validated_other [OF w'(2)])
    then show ?thesis using w'(1) b(4) c by simp
  qed
  have others: "\<exists>w'. cacheOf c' m2 = Some w' \<and> validated h h2 (mgDisk m) (mgDisk m2) w w'" if c': "c' \<in> cs" and w: "cacheOf c' m = Some w" for c' w
  proof -
    obtain w' where w': "cacheOf c' m2 = Some w'" "validated h1 h2 (mgDisk m1) (mgDisk m2) w w'" using b(7) c' w same by force
    have d: "mgDisk m1 n = mgDisk m n" if "nameOf w p = Some n" for p n
    proof -
      have "n \<in> namesIn c' m" using that w by (auto simp: namesIn_def)
      then have "n \<notin> namesIn c m" using ok c' c unfolding caches_ok_def by (metis IntI empty_iff insertCI)
      then show ?thesis using a(3) by blast
    qed
    have "validated h h2 (mgDisk m) (mgDisk m2) w w'"
      unfolding validated_def
    proof (intro conjI allI impI)
      show "heap w' p = (if completeAt w p \<and> \<not> fileGood h w p then None else heap w p)" for p
        using w'(2) fileGood_size [of h1 h w] a(1) unfolding validated_def by simp
      fix p e assume e: "heap w' p = Some e" "iState e = ECacheComplete"
      then obtain n sz where n: "iFileName e = Some n" "map_option fst (h1 n) = Some sz" "of_nat sz = iBodySize e"
          "h2 n = Some (sz, KCacheFileNoDelete)" "mgDisk m2 n = mgDisk m1 n"
        using w'(2) unfolding validated_def by blast
      have "heap w p = Some e" using w'(2) e(1) unfolding validated_def by (metis option.distinct(1))
      then have "mgDisk m1 n = mgDisk m n" using d [of p n] n(1) by (simp add: nameOf_def)
      then show "\<exists>n sz. iFileName e = Some n \<and> map_option fst (h n) = Some sz \<and> of_nat sz = iBodySize e \<and> h2 n = Some (sz, KCacheFileNoDelete) \<and> mgDisk m2 n = mgDisk m n"
        using n a(1) by (intro exI [of _ n] exI [of _ sz]) simp
    qed (use w'(2) in \<open>simp add: validated_def\<close>)
    then show ?thesis using w'(1) by blast
  qed
  show ?thesis
    unfolding validates_def
  proof (intro conjI allI ballI impI)
    fix n assume "\<forall>c \<in> insert c cs. n \<notin> namesIn c m \<and> Some n \<noteq> indexOf c m"
    then show "h2 n = h n" using a(2) [of n] b(2) [of n] nm by simp
  next
    fix n assume "\<forall>c \<in> insert c cs. n \<notin> namesIn c m"
    then show "mgDisk m2 n = mgDisk m n" using a(3) [of n] b(3) [of n] nm by simp
  next
    fix c' assume "c' \<in> insert c cs" "cacheOf c' m = None"
    then show "cacheOf c' m2 = None" using a(6) [of c'] b(4) [OF c] b(6) [of c'] same by auto
  qed (use a(1,4,5) b(1,4,5) own others in auto)
qed

lemma validateCaches_ok:
  "distinct cs \<Longrightarrow> caches_ok me (set cs) m \<Longrightarrow> \<exists>h' m'. foldOpt (validateCache me) cs (h, m) = Some (h', m') \<and> validates (set cs) h m h' m'"
proof (induction cs arbitrary: h m)
  case Nil
  show ?case by (simp add: validates_def)
next
  case (Cons c cs)
  obtain h1 m1 where 1: "validateCache me c (h, m) = Some (h1, m1)" "validates {c} h m h1 m1"
    using validateCache_ok [OF caches_ok_mono [OF Cons.prems(2), of "{c}"], of h] by auto
  have "cacheOf c' m1 = cacheOf c' m" if "c' \<in> set cs" for c'
    using validatesD(4) [OF 1(2), of c'] Cons.prems(1) that by auto
  then have "caches_ok me (set cs) m1"
    by (intro caches_ok_cong [OF caches_ok_mono [OF Cons.prems(2)]]) auto
  then obtain h' m' where 2: "foldOpt (validateCache me) cs (h1, m1) = Some (h', m')" "validates (set cs) h1 m1 h' m'"
    using Cons.IH [of m1 h1] Cons.prems(1) by auto
  then show ?case using 1 validates_insert [OF 1(2) 2(2)] Cons.prems by simp
qed

subsection \<open>The clean-up\<close>

lemma allCaches: "set [ECache, EOperatorCache, EPhoneCache] = UNIV"
  by (simp only: UNIV_enum enum_cache_id_def)

text \<open>The files that \<open>DeleteMarkedFilesL\<close> leaves.\<close>

lemma orphans_gen:
  assumes b: "IsBrowser m" "meConnect me = KErrNone" "meMapErr me = KErrNone" and ok: "caches_ok me UNIV m"
  defines "h \<equiv> GenerateCacheContentHashMapL KCacheFileNeedsDelete (onFolder (iCacheFolder m) (mgDisk m))"
  shows "\<exists>m'. RemoveOrphanedFilesL me m = Some (KErrNone, m') \<and>
    (\<forall>c. (cacheOf c m' = None) = (cacheOf c m = None)) \<and>
    (\<forall>c w. cacheOf c m = Some w \<longrightarrow> (\<exists>w'. cacheOf c m' = Some w' \<and> lt_ok w' \<and>
       (\<forall>p. heap w' p = (if completeAt w p \<and> \<not> fileGood h w p then None else heap w p)) \<and>
       (\<forall>p e. heap w' p = Some e \<longrightarrow> iState e = ECacheComplete \<longrightarrow>
          (\<exists>n f. iFileName e = Some n \<and> mgDisk m' n = Some f \<and> mgDisk m n = Some f \<and> of_nat (length f) = iBodySize e)))) \<and>
    (\<forall>n. underFolder (iCacheFolder m) n \<longrightarrow> meDelete me n \<longrightarrow> mgDisk m' n \<noteq> None \<longrightarrow>
       hasExt me ''.dat'' n \<or> hasExt me ''.val'' n \<or> (\<exists>c. n \<in> namesIn c m) \<or> (\<exists>c. indexOf c m = Some n)) \<and>
    (\<forall>n. hasExt me ''.val'' n \<longrightarrow> \<not> hasExt me ''.dat'' n \<longrightarrow> (\<forall>c. n \<notin> namesIn c m) \<longrightarrow> mgDisk m' n = mgDisk m n)"
proof -
  obtain h1 m1 where 1: "MarkAllCacheContentAsNoDelete me (h, m) = Some (h1, m1)" and v: "validates UNIV h m h1 m1"
    using validateCaches_ok [of "[ECache, EOperatorCache, EPhoneCache]" me m h] ok unfolding allCaches MarkAllCacheContentAsNoDelete_def by auto
  note D = validatesD [OF v]
  let ?d = "DeleteMarkedFilesL me h1 (WipeAllOtherIndexFilesL me h1 (mgDisk m1))"
  have run: "RemoveOrphanedFilesL me m = Some (KErrNone, m1\<lparr>mgDisk := ?d\<rparr>)"
    using b 1 by (simp add: RemoveOrphanedFilesL_def Let_def h_def)
  have keep: "?d n = mgDisk m1 n" if "\<not> needsDelete h1 n" for n
    using that by (simp add: DeleteMarkedFilesL_def WipeAllOtherIndexFilesL_def)
  have own: "\<exists>w'. cacheOf c m1 = Some w' \<and> lt_ok w' \<and>
       (\<forall>p. heap w' p = (if completeAt w p \<and> \<not> fileGood h w p then None else heap w p)) \<and>
       (\<forall>p e. heap w' p = Some e \<longrightarrow> iState e = ECacheComplete \<longrightarrow>
          (\<exists>n f. iFileName e = Some n \<and> ?d n = Some f \<and> mgDisk m n = Some f \<and> of_nat (length f) = iBodySize e))"
    if w: "cacheOf c m = Some w" for c w
  proof -
    obtain w' where w': "cacheOf c m1 = Some w'" "validated h h1 (mgDisk m) (mgDisk m1) w w'" using D(7) w by blast
    have "\<exists>n f. iFileName e = Some n \<and> ?d n = Some f \<and> mgDisk m n = Some f \<and> of_nat (length f) = iBodySize e"
      if e: "heap w' p = Some e" "iState e = ECacheComplete" for p e
    proof -
      obtain n sz where n: "iFileName e = Some n" "map_option fst (h n) = Some sz" "of_nat sz = iBodySize e"
          "h1 n = Some (sz, KCacheFileNoDelete)" "mgDisk m1 n = mgDisk m n"
        using w'(2) e unfolding validated_def by blast
      have "\<not> needsDelete h1 n" using n(4) by (simp add: needsDelete_def KCacheFileNoDelete_def KCacheFileNeedsDelete_def)
      moreover obtain f where "mgDisk m n = Some f" "length f = sz"
        using n(2) by (auto simp: h_def GenerateCacheContentHashMapL_def onFolder_def split: if_splits)
      ultimately show ?thesis using keep [of n] n(1,3,5) by auto
    qed
    then show ?thesis using w' unfolding validated_def by blast
  qed
  have orphan: "h1 n = h n \<and> mgDisk m1 n = mgDisk m n" if "\<forall>c. n \<notin> namesIn c m" "\<forall>c. indexOf c m \<noteq> Some n" for n
    using D(2) [of n] D(3) [of n] that by metis
  have gone: "?d n = None" if n: "underFolder (iCacheFolder m) n" "meDelete me n" "\<not> hasExt me ''.dat'' n" "\<not> hasExt me ''.val'' n"
      "\<forall>c. n \<notin> namesIn c m" "\<forall>c. indexOf c m \<noteq> Some n" for n
  proof (cases "mgDisk m n")
    case None
    then show ?thesis using orphan [OF n(5,6)] n(3) by (simp add: DeleteMarkedFilesL_def WipeAllOtherIndexFilesL_def)
  next
    case (Some f)
    then have "needsDelete h1 n" using orphan [OF n(5,6)] n(1)
      by (simp add: needsDelete_def h_def GenerateCacheContentHashMapL_def onFolder_def)
    then show ?thesis using n(2,3,4) by (simp add: DeleteMarkedFilesL_def)
  qed
  have val: "?d n = mgDisk m n" if "hasExt me ''.val'' n" "\<not> hasExt me ''.dat'' n" "\<forall>c. n \<notin> namesIn c m" for n
    using that D(3) [of n] by (simp add: DeleteMarkedFilesL_def WipeAllOtherIndexFilesL_def)
  have none: "(cacheOf c m1 = None) = (cacheOf c m = None)" for c
    using D(6) [of c] own [of c] by (cases "cacheOf c m") auto
  show ?thesis
  proof (intro exI [of _ "m1\<lparr>mgDisk := ?d\<rparr>"] conjI, goal_cases)
    case 1 show ?case by (rule run)
  next
    case 2 show ?case using none by simp
  next
    case 3 show ?case using own by simp
  next
    have d: "mgDisk (m1\<lparr>mgDisk := ?d\<rparr>) = ?d" by simp
    case 4 show ?case
      unfolding d
    proof (intro allI impI)
      fix n assume "underFolder (iCacheFolder m) n" "meDelete me n" "?d n \<noteq> None"
      then show "hasExt me ''.dat'' n \<or> hasExt me ''.val'' n \<or> (\<exists>c. n \<in> namesIn c m) \<or> (\<exists>c. indexOf c m = Some n)"
        using gone [of n] by metis
    qed
  next
    case 5 show ?case using val by simp
  qed
qed

text \<open>The body file of an entry is in the cache folder with the recorded size.\<close>

definition hasFile :: "manager \<Rightarrow> index_world \<Rightarrow> nat \<Rightarrow> bool" where
  "hasFile m w p \<longleftrightarrow> (\<exists>e n f. heap w p = Some e \<and> iFileName e = Some n \<and> underFolder (iCacheFolder m) n \<and>
     mgDisk m n = Some f \<and> of_nat (length f) = iBodySize e)"

lemma fileGood_hasFile:
  "fileGood (GenerateCacheContentHashMapL v (onFolder (iCacheFolder m) (mgDisk m))) w p = hasFile m w p"
  by (auto simp: fileGood_def hasFile_def GenerateCacheContentHashMapL_def onFolder_def split: if_splits)

text \<open>
  C5: the clean-up of the cache folder keeps every entry whose body file is in order, together with
  that file, drops every complete entry whose file is missing or has another size, and leaves no
  orphan: a file that can be deleted and is still there is an index, a marker or the body of an entry.
\<close>

theorem orphans_are_removed:
  assumes "IsBrowser m" "meConnect me = KErrNone" "meMapErr me = KErrNone" "caches_ok me UNIV m"
  shows "\<exists>m'. RemoveOrphanedFilesL me m = Some (KErrNone, m') \<and>
    (\<forall>c w. cacheOf c m = Some w \<longrightarrow> (\<exists>w'. cacheOf c m' = Some w' \<and> lt_ok w' \<and>
       (\<forall>p. heap w' p = (if completeAt w p \<and> \<not> hasFile m w p then None else heap w p)) \<and>
       (\<forall>p e. heap w' p = Some e \<longrightarrow> iState e = ECacheComplete \<longrightarrow>
          (\<exists>n f. iFileName e = Some n \<and> mgDisk m' n = Some f \<and> mgDisk m n = Some f \<and> of_nat (length f) = iBodySize e)))) \<and>
    (\<forall>n. underFolder (iCacheFolder m) n \<longrightarrow> meDelete me n \<longrightarrow> mgDisk m' n \<noteq> None \<longrightarrow>
       hasExt me ''.dat'' n \<or> hasExt me ''.val'' n \<or> (\<exists>c. n \<in> namesIn c m) \<or> (\<exists>c. indexOf c m = Some n))"
  using orphans_gen [OF assms] unfolding fileGood_hasFile by blast

definition calm_manager_env :: mgr_env where
  "calm_manager_env = \<lparr>meEnv = (\<lambda>_. calm_env), meIx = calm_index, meUriParse = (\<lambda>_. None), meFold = (\<lambda>c. c), meFold16 = (\<lambda>c. c),
     meConnect = KErrNone, meMapErr = KErrNone, meTries = (\<lambda>_. []), meDelete = (\<lambda>_. True), meCreate = (\<lambda>_. True)\<rparr>"

definition demo_manager :: "index_world option \<Rightarrow> index_world option \<Rightarrow> (tdes16 \<Rightarrow> tdes8 option) \<Rightarrow> manager" where
  "demo_manager w wop d = \<lparr>iCache = w, iOperatorCache = wop, iphoneSpecificCache = None, mgDisk = d, iCacheFolder = [], iOpDomain = None,
     iVSSWhiteList = None, iOfflineMode = False, iCacheEnabled = True, iVSSCacheEnabled = False, mgSecureId = KUIDBROWSERNG\<rparr>"

lemma demo_manager_fields [simp]:
  "cacheOf ECache (demo_manager w wop d) = w" "cacheOf EOperatorCache (demo_manager w wop d) = wop"
  "cacheOf EPhoneCache (demo_manager w wop d) = None" "mgDisk (demo_manager w wop d) = d" "iCacheFolder (demo_manager w wop d) = []"
  "IsBrowser (demo_manager w wop d)" "underFolder [] n" "mgEnabled (demo_manager w wop d)" "iOpDomain (demo_manager w wop d) = None"
  "iVSSCacheEnabled (demo_manager w wop d) = False" "iOfflineMode (demo_manager w wop d) = False"
  "iphoneSpecificCache (demo_manager w wop d) = None" "iCache (demo_manager w wop d) = w" "iOperatorCache (demo_manager w wop d) = wop"
  by (simp_all add: demo_manager_def IsBrowser_def underFolder_def mgEnabled_def)

lemma calm_manager_fields [simp]:
  "meConnect calm_manager_env = KErrNone" "meMapErr calm_manager_env = KErrNone" "meDelete calm_manager_env n" "meCreate calm_manager_env n"
  "meEnv calm_manager_env c = calm_env" "meFold16 calm_manager_env = (\<lambda>c. c)"
  by (simp_all add: calm_manager_env_def)

lemma demo_caches_ok:
  assumes "c = ECache \<and> m = demo_manager (Some w) None d \<or> c = EOperatorCache \<and> m = demo_manager None (Some w) d"
    and "lt_ok w" "heap w = [1 \<mapsto> e]" "iFileName e = Some n" "iIndexPath w \<noteq> n"
  shows "caches_ok me UNIV m \<and> (\<forall>c'. namesIn c' m \<subseteq> {n}) \<and> (\<forall>c'. indexOf c' m = (if c' = c then Some (iIndexPath w) else None))"
proof -
  have c: "cacheOf c' m = (if c' = c then Some w else None)" for c' using assms(1) by (cases c') auto
  have nm: "nameOf w p = Some n' \<longleftrightarrow> p = 1 \<and> n' = n" for p n' using assms(3,4) by (auto simp: nameOf_def)
  have "one_url_each (envFold (meEnv me c)) w" using assms(3) by (auto simp: one_url_each_def urlOf_def split: if_splits)
  moreover have "inj_on (nameOf w) (dom (heap w))" using assms(3) by (simp add: inj_on_def)
  ultimately show ?thesis
    using assms(2,5) nm by (auto simp: caches_ok_def namesIn_def indexOf_def c split: if_splits)
qed

lemma saved_at_index:
  "\<exists>(w :: index_world) e n. lt_ok w \<and> heap w = [1 \<mapsto> e] \<and> savedEntry e [104] n [65, 58] [1, 2, 3] \<and> disk w n = Some [1, 2, 3] \<and>
     iIndexPath w = [67] \<and> n \<noteq> [67]"
proof -
  obtain w :: index_world and e n where w: "lt_ok w" "heap w = [1 \<mapsto> e]" "savedEntry e [104] n [65, 58] [1, 2, 3]"
    "disk w n = Some [1, 2, 3]" "n \<noteq> [67]" using one_saved_in_index by blast
  have "lt_ok (w\<lparr>iIndexPath := [67]\<rparr>)" by (rule lt_ok_cong [OF w(1)]) simp_all
  then show ?thesis using w(2-5) by (intro exI [of _ "w\<lparr>iIndexPath := [67]\<rparr>"] exI [of _ e] exI [of _ n]) simp
qed

theorem orphans_are_removed_witness:
  "\<exists>m m' w' e orphan. mgDisk m orphan = Some [9] \<and> RemoveOrphanedFilesL calm_manager_env m = Some (KErrNone, m') \<and>
     mgDisk m' orphan = None \<and> cacheOf ECache m' = Some w' \<and> heap w' 1 = Some e \<and> iUrl e = [104]"
proof -
  obtain w :: index_world and e n where w: "lt_ok w" "heap w = [1 \<mapsto> e]" "savedEntry e [104] n [65, 58] [1, 2, 3]"
    "disk w n = Some [1, 2, 3]" "iIndexPath w = [67]" "n \<noteq> [67]" using saved_at_index by blast
  have "\<exists>k :: 16 word. [k] \<noteq> n \<and> [k] \<noteq> [67]" by (cases "n = [1]") (auto intro: exI [of _ 1] exI [of _ 2])
  then obtain k :: "16 word" where k: "[k] \<noteq> n" "[k] \<noteq> [67]" by blast
  let ?m = "demo_manager (Some w) None ((disk w)([k] \<mapsto> [9]))"
  have e: "iFileName e = Some n" "iUrl e = [104]" "iBodySize e = 3" using w(3) by (simp_all add: savedEntry_def)
  have "caches_ok calm_manager_env UNIV ?m \<and> (\<forall>c. namesIn c ?m \<subseteq> {n}) \<and> (\<forall>c. indexOf c ?m = (if c = ECache then Some (iIndexPath w) else None))"
    by (rule demo_caches_ok [OF _ w(1,2) e(1)]) (use w(5,6) in simp_all)
  then have *: "caches_ok calm_manager_env UNIV ?m" "namesIn c ?m \<subseteq> {n}" "indexOf c ?m \<noteq> Some [k]" for c
    using w(5) k by auto
  have ext: "\<not> hasExt calm_manager_env x [k]" if "length x = 4" for x
    using that by (auto simp: hasExt_def des_eqF_def lit16_def)
  have f: "hasFile ?m w 1" using w(2,4) e k(1) by (auto simp: hasFile_def)
  have "IsBrowser ?m" "meConnect calm_manager_env = KErrNone" "meMapErr calm_manager_env = KErrNone" by simp_all
  from orphans_are_removed [OF this *(1)] show ?thesis
  proof (elim exE conjE, goal_cases)
    case (1 m')
    obtain w' where "cacheOf ECache m' = Some w'" "heap w' 1 = Some e"
      using 1(2) [rule_format, of ECache w] f w(2) by auto
    moreover have "[k] \<notin> namesIn c ?m" for c using *(2) [of c] k(1) by auto
    then have "mgDisk m' [k] = None" using 1(3) [rule_format, of "[k]"] ext *(3) by (intro ccontr [of "mgDisk m' [k] = None"]) auto
    ultimately show ?case using 1(1) e(2)
      by (intro exI [of _ ?m] exI [of _ m'] exI [of _ w'] exI [of _ e] exI [of _ "[k]"]) simp
  qed
qed

text \<open>
  An entry whose body is complete but still waits in memory for its delayed write has no file
  yet, and the clean-up drops it like one whose file was lost. \<open>RemoveAllL\<close>, which means to leave the
  operator's cache alone, ends with the clean-up, so it takes from that cache, and from the
  phone's, all that they have not written yet.
\<close>

theorem unwritten_entry_is_dropped:
  assumes b: "IsBrowser m" "meConnect me = KErrNone" "meMapErr me = KErrNone" "caches_ok me UNIV m"
    and c: "cacheOf c m = Some w" "heap w p = Some e" "iState e = ECacheComplete" "BodyDataCached e"
    and f: "iFileName e = Some n" "mgDisk m n = None"
  shows "\<exists>m' w'. RemoveOrphanedFilesL me m = Some (KErrNone, m') \<and> cacheOf c m' = Some w' \<and> heap w' p = None"
proof -
  have n: "completeAt w p \<and> \<not> hasFile m w p" using c f by (simp add: completeAt_def hasFile_def)
  from orphans_gen [OF b] show ?thesis
  proof (elim exE conjE, goal_cases)
    case (1 m')
    then show ?case using 1(3) [rule_format, OF c(1)] n unfolding fileGood_hasFile by auto
  qed
qed

theorem unwritten_entry_is_dropped_witness:
  "\<exists>m m' w w' e. cacheOf EOperatorCache m = Some w \<and> heap w 1 = Some e \<and> BodyDataCached e \<and> iUrl e = [104] \<and>
     RemoveOrphanedFilesL calm_manager_env m = Some (KErrNone, m') \<and> cacheOf EOperatorCache m' = Some w' \<and> heap w' 1 = None"
proof -
  obtain w :: index_world and e n where w: "lt_ok w" "heap w = [1 \<mapsto> e]" "savedEntry e [104] n [65, 58] [1, 2, 3]"
    "iIndexPath w = [67]" "n \<noteq> [67]" using saved_at_index by blast
  let ?e = "SetBodyDataCached True e" and ?w = "w\<lparr>heap := [1 \<mapsto> SetBodyDataCached True e]\<rparr>"
  have e: "BodyDataCached ?e" "iFileName ?e = Some n" "iUrl ?e = [104]" "iState ?e = ECacheComplete" "entrySpaceOf ?e = entrySpaceOf e"
    "iEvictionCandidate ?e = iEvictionCandidate e" "iRef ?e = iRef e" "iBodySize ?e = iBodySize e"
    using w(3) by (simp_all add: savedEntry_def BodyDataCached_def SetBodyDataCached_def entrySpaceOf_def)
      (simp_all add: setWriteStateBit_def)
  have h: "heap w 1 = Some e" using w(2) by simp
  have ev: "ev_ok ?w" by (rule ev_ok_irrelevant [OF lt_okD(4) [OF w(1)] h, of "SetBodyDataCached True"]) (use e w(2) in simp_all)
  have u: "heap ?w = (heap w)(1 \<mapsto> ?e)" "iUrl ?e = iUrl e" using w(2,3) e(3) by (simp_all add: savedEntry_def)
  have "iContentSize ?w = iContentSize w + entrySpaceOf ?e - entrySpaceOf e" "iFileName ?e \<noteq> None" using e(2,5) by simp_all
  then have "lt_ok ?w" by (intro lt_ok_upd [OF w(1) h u(1) ev _ _ _ u(2)]) simp_all
  then have "caches_ok calm_manager_env UNIV (demo_manager None (Some ?w) Map.empty)"
    using demo_caches_ok [of EOperatorCache "demo_manager None (Some ?w) Map.empty" ?w Map.empty ?e n calm_manager_env] w(4,5) e(2) by simp
  moreover have "heap ?w 1 = Some ?e" "cacheOf EOperatorCache (demo_manager None (Some ?w) Map.empty) = Some ?w" by simp_all
  moreover obtain m0 where m0: "m0 = demo_manager None (Some ?w) Map.empty" by simp
  ultimately obtain m' w' where "RemoveOrphanedFilesL calm_manager_env m0 = Some (KErrNone, m')" "cacheOf EOperatorCache m' = Some w'" "heap w' 1 = None"
    using unwritten_entry_is_dropped [of m0 calm_manager_env EOperatorCache ?w 1 ?e n] e by auto
  then show ?thesis using e(1,3) m0
    by (intro exI [of _ m0] exI [of _ m'] exI [of _ ?w] exI [of _ w'] exI [of _ ?e]) simp
qed

text \<open>
  The marker. After the check at the start of the browser the marker is in the cache folder;
  it stays there through a clean-up, and a second start that finds it, the first not having ended
  properly, cleans up.
\<close>

theorem crash_is_noticed:
  assumes b: "IsBrowser m" "meConnect me = KErrNone" "meMapErr me = KErrNone" "caches_ok me UNIV m"
    and v: "hasExt me ''.val'' (crashFile m)" "\<not> hasExt me ''.dat'' (crashFile m)" "\<forall>c. crashFile m \<notin> namesIn c m" "meCreate me (crashFile m)"
    and f: "mgDisk m (crashFile m) = None"
  shows "\<exists>m1 m2. CrashCheckL me m = Some (KErrNone, m1) \<and> mgDisk m1 (crashFile m) = Some [] \<and> (\<forall>c. cacheOf c m1 = cacheOf c m) \<and>
    CrashCheckL me m1 = RemoveOrphanedFilesL me m1 \<and> RemoveOrphanedFilesL me m1 = Some (KErrNone, m2) \<and> mgDisk m2 (crashFile m) = Some []"
proof -
  let ?m1 = "m\<lparr>mgDisk := (mgDisk m)(crashFile m \<mapsto> [])\<rparr>"
  have c: "crashFile ?m1 = crashFile m" "IsBrowser ?m1" using b(1) by (simp_all add: crashFile_def IsBrowser_def)
  have n: "namesIn c ?m1 = namesIn c m" for c by (simp add: namesIn_def)
  have "caches_ok me UNIV ?m1" by (rule caches_ok_cong [OF b(4)]) simp
  from orphans_gen [OF c(2) b(2,3) this] obtain m2 where m2: "RemoveOrphanedFilesL me ?m1 = Some (KErrNone, m2)"
    "mgDisk m2 (crashFile m) = mgDisk ?m1 (crashFile m)"
    using v(1-3) n by auto
  have 1: "CrashCheckL me m = Some (KErrNone, ?m1)" using b(1,2) v(4) f by (simp add: CrashCheckL_def)
  have "CrashCheckL me ?m1 = RemoveOrphanedFilesL me ?m1" using b(2) c by (simp add: CrashCheckL_def)
  then show ?thesis using 1 m2 by (intro exI [of _ ?m1] exI [of _ m2]) simp
qed

theorem crash_is_noticed_witness:
  "\<exists>m1. CrashCheckL calm_manager_env (demo_manager None None Map.empty) = Some (KErrNone, m1) \<and> mgDisk m1 KCrashCheck = Some []"
proof -
  let ?m = "demo_manager None None Map.empty"
  have c: "cacheOf c ?m = None" for c by (cases c) simp_all
  have ok: "caches_ok calm_manager_env UNIV ?m" "\<forall>c. crashFile ?m \<notin> namesIn c ?m"
    by (simp_all add: caches_ok_def namesIn_def indexOf_def c)
  have e: "hasExt calm_manager_env ''.val'' (crashFile ?m)" "\<not> hasExt calm_manager_env ''.dat'' (crashFile ?m)" "crashFile ?m = KCrashCheck"
    by (simp_all add: hasExt_def crashFile_def KCrashCheck_def lit16_def des_eqF_def)
  show ?thesis using crash_is_noticed [OF _ _ _ ok(1) e(1,2) ok(2)] e(3) by fastforce
qed

subsection \<open>Two behaviours of the routing\<close>

text \<open>
  With the general cache switched off the phone-specific cache is never asked. \<open>RequestL\<close>
  takes the missing general handler for a reason not to look further, so a response that was
  saved there, and that \<open>Find\<close> reports, is never served.
\<close>

theorem phone_cache_is_not_asked:
  assumes m: "iCache m = None" "iOpDomain m = None" "iVSSCacheEnabled m" "iphoneSpecificCache m = Some w0" "w = w0\<lparr>disk := mgDisk m\<rparr>"
    and w: "lt_ok w" "one_url_each (envFold (meEnv me EPhoneCache)) w" "heap w p = Some e" "iState e = ECacheComplete" "iBodySize e \<noteq> 0"
  shows "mgRequestL me tr mode ce m = Some (RsNotFound, ce, m) \<and> mgFind me (iUrl e) m = Some True"
proof -
  let ?f = "envFold (meEnv me EPhoneCache)"
  have no: "\<forall>q e'. heap w q = Some e' \<longrightarrow> des_eqF ?f (iUrl e') (iUrl e) \<longrightarrow> q = p"
  proof (intro allI impI)
    fix q e' assume a: "heap w q = Some e'" "des_eqF ?f (iUrl e') (iUrl e)"
    have "urlOf w q = Some (iUrl e')" "urlOf w p = Some (iUrl e)" by (simp_all add: urlOf_def a(1) w(3))
    then show "q = p" using w(2) [unfolded one_url_each_def, rule_format, of q "iUrl e'" p "iUrl e"] a(2) by simp
  qed
  have "ltFind ?f (iUrl e) w = Some (Some p)" by (rule ltFind_the [OF w(1,3) _ no]) (simp add: usable_def w(5))
  then have "mgFindIn me (iUrl e) EPhoneCache m = Some True" using m(4,5) w(3,4) by (simp add: mgFindIn_def chFind_def)
  then show ?thesis using m(1-3) by (simp add: mgRequestL_def mgFind_def CacheHandler_def mgEnabled_def)
qed

theorem phone_cache_is_not_asked_witness:
  "\<exists>m. mgRequestL calm_manager_env (get_trans [104]) ECacheModeHistory \<lparr>hceHandler = None, hceEntry = None\<rparr> m =
       Some (RsNotFound, \<lparr>hceHandler = None, hceEntry = None\<rparr>, m) \<and> mgFind calm_manager_env [104] m = Some True"
proof -
  obtain w :: index_world and e n where w: "lt_ok w" "heap w = [1 \<mapsto> e]" "savedEntry e [104] n [65, 58] [1, 2, 3]"
    using saved_at_index by blast
  let ?m = "(demo_manager None None (disk w))\<lparr>iphoneSpecificCache := Some w, iVSSCacheEnabled := True\<rparr>"
  have m: "iCache ?m = None" "iOpDomain ?m = None" "iVSSCacheEnabled ?m" "iphoneSpecificCache ?m = Some w" "w = w\<lparr>disk := mgDisk ?m\<rparr>"
    by simp_all
  have e: "heap w 1 = Some e" "iState e = ECacheComplete" "iBodySize e \<noteq> 0" "iUrl e = [104]"
    using w(2,3) by (simp_all add: savedEntry_def)
  have "one_url_each (envFold (meEnv calm_manager_env EPhoneCache)) w" using w(2) by (auto simp: one_url_each_def urlOf_def split: if_splits)
  from phone_cache_is_not_asked [OF m w(1) this e(1-3)] show ?thesis unfolding e(4) by blast
qed

theorem manager_serves_saved_witness:
  "\<exists>m1 m2 p. mgSaveL calm_manager_env [104, 105] [65, 58, 32, 49, 13, 10] [1, 2, 3] [] (demo_manager (Some (newIndexWorld [68])) None Map.empty) = Some (True, m1) \<and>
    mgRequestL calm_manager_env (get_trans [104, 105]) ECacheModeHistory \<lparr>hceHandler = None, hceEntry = None\<rparr> m1 =
      Some (RsNone, \<lparr>hceHandler = Some ECache, hceEntry = Some p\<rparr>, m2) \<and>
    mgRequestNextChunkL calm_manager_env \<lparr>hceHandler = Some ECache, hceEntry = Some p\<rparr> m2 = Some (Some [1, 2, 3])"
proof -
  let ?w = "newIndexWorld [68]" and ?m = "demo_manager (Some (newIndexWorld [68])) None Map.empty"
  have hdr: "HeadersToBufferLC [([65], [49])] = Some [65, 58, 32, 49, 13, 10]"
    by (simp add: HeadersToBufferLC_text headerLine_def KHttpFieldSeparator_def KHttpNewLine_def)
  have c: "CacheHandler calm_manager_env u h ?m = Some ECache" for u h by (simp add: CacheHandler_def)
  have ok: "lt_ok (?w\<lparr>disk := mgDisk ?m\<rparr>)" by (rule new_world_ok) simp_all
  have e: "envFold (meEnv calm_manager_env ECache) = (\<lambda>c. c)" "envIo (meEnv calm_manager_env ECache) = calm"
    by (simp_all add: calm_env_def)
  have io: "io_quiet calm (?w\<lparr>disk := mgDisk ?m\<rparr>) 9" by (simp add: calm_def io_quiet_def IsDiskSpaceAvailable_def)
  have h: "[([65], [49])] \<noteq> ([] :: (tdes8 \<times> tdes8) list)" "\<forall>h \<in> set [([65], [49])]. fieldOk h" "namesDistinct (\<lambda>c. c) [([65], [49])]"
    by (simp_all add: fieldOk_def namesDistinct_def KHttpFieldSeparator_def KHttpNewLine_def)
  have t: "trUrl (get_trans [104, 105]) = [104, 105]" "\<not> trPost (get_trans [104, 105])" by (simp_all add: get_trans_def)
  show ?thesis
    using manager_serves_saved [of ?m calm_manager_env "[104, 105]" "[]" ECache ?w "?w\<lparr>disk := mgDisk ?m\<rparr>" _ "[([65], [49])]"
        "[65, 58, 32, 49, 13, 10]" "[1, 2, 3]" "get_trans [104, 105]", OF _ c c _ _ refl refl ok _ _ _ h(1)] h io hdr t e newTable_growable
    by auto
qed

end
