(* ===== verification/ConfigSpec.thy ===== *)
theory ConfigSpec
  imports CacheConfig ManagerSpec
begin

text \<open>
  What the configuration promises: an override string is read as it was written, the default string
  gives each client the size that is documented for it, and the manager that is constructed has
  exactly the caches its flags announce, which no operation changes.
\<close>

subsection \<open>The override string\<close>

text \<open>
  C20: an override string is read as it was written. For every list of well-formed entries the loop
  ends without an error and finds the first entry whose id is that of the process, with its flag,
  its drive and its size in KB times 1024, modulo the 32 bits of the size.
\<close>

theorem override_text_is_read:
  assumes "plainSpace sp" "es \<noteq> []" "list_all entryOk es"
  shows "findOverride sp sid (spaceOut (showOverride es)) = Some (Inr (chooseEntry sid es))"
  by (rule override_text_gen [OF assms])

definition asciiSpace :: "16 word \<Rightarrow> bool" where
  "asciiSpace c \<longleftrightarrow> c = 32 \<or> 9 \<le> c \<and> c \<le> 13"

lemma asciiSpace_plain: "plainSpace asciiSpace"
proof -
  have "c \<noteq> 32 \<and> \<not> (9 \<le> c \<and> c \<le> 13)" if "isHex c \<or> 65 \<le> c \<and> c \<le> 90" for c
    using that by (auto simp: isHex_def hexValue_def asciiDigit_def word_le_nat_alt split: if_splits)
  then show ?thesis by (auto simp: plainSpace_def asciiSpace_def)
qed

definition defaultEntries :: "(tdes16 \<times> nat \<times> nat \<times> 16 word) list" where
  "defaultEntries = [(lit16 ''10008D39'', 1, 2048, 67), (lit16 ''10282822'', 1, 1024, 67), (lit16 ''102829A0'', 1, 1024, 67)]"

lemma defaultEntries_text: "showOverride defaultEntries = KDefaultOverrideString"
  by (simp add: defaultEntries_def KDefaultOverrideString_def showEntry_def showDec.simps lit16_def)

lemma defaultEntries_ok: "list_all entryOk defaultEntries"
  by (simp add: defaultEntries_def entryOk_def lit16_def isHex_def hexValue_def asciiDigit_def)

lemma default_ids:
  "of_nat (hexNum (lit16 ''10008D39'')) = KUIDBROWSERNG" "of_nat (hexNum (lit16 ''10282822'')) = KUIDWIDGETUI"
  "of_nat (hexNum (lit16 ''102829A0'')) = KUIDOVISTORE"
  by (simp_all add: hexNum_def lit16_def hexValue_def asciiDigit_def KUIDBROWSERNG_def KUIDWIDGETUI_def KUIDOVISTORE_def)

text \<open>The size that the default string gives to a process, if any.\<close>

definition defaultSize :: "32 word \<Rightarrow> 32 word option" where
  "defaultSize sid = (if sid = KUIDBROWSERNG then Some (2048 * 1024)
     else if sid = KUIDWIDGETUI \<or> sid = KUIDOVISTORE then Some (1024 * 1024) else None)"

lemma chooseEntry_default: "chooseEntry sid defaultEntries = map_option (\<lambda>sz. (True, sz, 2)) (defaultSize sid)"
  using default_ids by (simp add: chooseEntry_def defaultEntries_def defaultSize_def)

lemma apply_default:
  assumes "csAlloc cs 64" "csOverride cs 64 = ([], 0)" "plainSpace (csSpace cs)"
  shows "ApplyCacheOverridesL cs sid c = Some (KErrNone, c\<lparr>ccCacheEnabled := (defaultSize sid \<noteq> None \<or> ccCacheEnabled c),
    ccCacheSize := (case defaultSize sid of Some sz \<Rightarrow> sz | None \<Rightarrow> ccCacheSize c),
    ccCacheFolder := EnsureTrailingSlash (lit16 ''C:'' @ parsePath (ccCacheFolder c)),
    ccOpCacheEnabled := (sid = KUIDBROWSERNG \<or> ccOpCacheEnabled c), ccVssCacheEnabled := (sid = KUIDBROWSERNG \<or> ccVssCacheEnabled c)\<rparr>)"
proof -
  have s: "overrideStr cs = Inr KDefaultOverrideString" using assms(1,2) by (simp add: overrideStr_def)
  have "defaultEntries \<noteq> []" by (simp add: defaultEntries_def)
  from override_text_gen [OF assms(3) this defaultEntries_ok, of sid]
  have f: "findOverride (csSpace cs) sid (spaceOut KDefaultOverrideString) = Some (Inr (map_option (\<lambda>sz. (True, sz, 2)) (defaultSize sid)))"
    unfolding defaultEntries_text chooseEntry_default .
  have d: "TDriveUnit KDefaultCacheDrive = Some 2" by (simp add: TDriveUnit_def KDefaultCacheDrive_def lit16_def)
  have c: "lit16 ''C:'' = [67, 58]" by (simp add: lit16_def)
  show ?thesis
    by (cases "defaultSize sid") (simp_all add: ApplyCacheOverridesL_def d s f c Let_def)
qed

text \<open>
  C21: without an override string in the repository the browser gets a cache of 2 MB, the widget
  interface and the store one of 1 MB each, and any other client what the repository says, which
  without the new repository file is no cache at all. The operator's and the phone's cache are
  forced on for the browser, whatever the repository says; and the folder is moved to drive C, also
  when the repository had put it on another drive and no override applies.
\<close>

theorem default_configuration:
  assumes "csAlloc cs 64" "csOverride cs 64 = ([], 0)" "plainSpace (csSpace cs)"
  shows "\<exists>c'. ApplyCacheOverridesL cs sid c = Some (KErrNone, c') \<and>
    ccCacheEnabled c' = (defaultSize sid \<noteq> None \<or> ccCacheEnabled c) \<and>
    ccCacheSize c' = (case defaultSize sid of Some sz \<Rightarrow> sz | None \<Rightarrow> ccCacheSize c) \<and>
    ccCacheFolder c' = EnsureTrailingSlash (lit16 ''C:'' @ parsePath (ccCacheFolder c)) \<and>
    ccOpCacheEnabled c' = (sid = KUIDBROWSERNG \<or> ccOpCacheEnabled c) \<and>
    ccVssCacheEnabled c' = (sid = KUIDBROWSERNG \<or> ccVssCacheEnabled c)"
  using apply_default [OF assms, of sid c] by simp

definition plain_config :: config_env where
  "plain_config = \<lparr>csRepo = \<lparr>KCacheWritePostponeEnabled = Inl KErrNotFound, KCacheWritePostponeFreeRAMThreshold = Inl KErrNotFound,
       KCacheWritePostponeImmediateWriteThreshold = Inl KErrNotFound, KCacheWritePostponeWriteTimeout = Inl KErrNotFound,
       KCacheManagerHttpCacheEnabled = Inl KErrNotFound, KCacheManagerHttpCacheSize = Inl KErrNotFound,
       KCacheManagerHttpCacheFolder = Inl KErrNotFound, KOperatorCacheSize = Inl KErrNotFound, KOperatorCacheFolder = Inl KErrNotFound,
       KOperatorDomainUrl = Inl KErrNotFound, KPhoneSpecificCacheEnabled = Inl KErrNotFound, KPhoneSpecificCacheSize = Inl KErrNotFound,
       KPhoneSpecificCacheFolder = Inl KErrNotFound, KPhoneSpecificCacheDomainUrl = Inl KErrNotFound\<rparr>,
     csOverride = (\<lambda>_. ([], 0)), csAlloc = (\<lambda>_. True), csSpace = asciiSpace, csOpFeature = False, csVolume = (\<lambda>_. Inr False),
     csCritical = (\<lambda>_. Inr 0), csConstruct = (\<lambda>_. calm_construct), csTail = (\<lambda>_. 0), csOfflineFeature = False, csOfflineRepo = KErrNone,
     csConnAllowed = Inl KErrNotFound, csNotify = KErrNone\<rparr>"

text \<open>A folder that was configured on drive E ends up on drive C.\<close>

theorem default_configuration_witness:
  "\<exists>c'. ApplyCacheOverridesL plain_config 0x12345678 (defaultConfig\<lparr>ccCacheFolder := [69, 58, 92, 99, 92]\<rparr>) = Some (KErrNone, c') \<and>
     ccCacheFolder c' = [67, 58, 92, 99, 92] \<and> \<not> ccCacheEnabled c'"
proof -
  have c: "csAlloc plain_config 64" "csOverride plain_config 64 = ([], 0)" "plainSpace (csSpace plain_config)"
    using asciiSpace_plain by (simp_all add: plain_config_def)
  have "EnsureTrailingSlash (lit16 ''C:'' @ parsePath [69, 58, 92, 99, 92]) = [67, 58, 92, 99, 92]"
    by (simp add: EnsureTrailingSlash_def parsePath_def parseDrive_def lit16_def)
  moreover have "defaultSize 0x12345678 = None" by (simp add: defaultSize_def KUIDBROWSERNG_def KUIDWIDGETUI_def KUIDOVISTORE_def)
  ultimately show ?thesis
    using default_configuration [OF c, of "0x12345678" "defaultConfig\<lparr>ccCacheFolder := [69, 58, 92, 99, 92]\<rparr>"]
    by (auto simp: defaultConfig_def)
qed

text \<open>A size of 4 GB in the override string is a cache of no bytes.\<close>

theorem override_text_is_read_witness:
  "findOverride asciiSpace KUIDWIDGETUI (spaceOut (showOverride [(lit16 ''10282822'', 1, 4194304, 69)])) = Some (Inr (Some (True, 0, 4)))"
proof -
  have ok: "list_all entryOk [(lit16 ''10282822'', 1, 4194304, 69)]"
    by (simp add: entryOk_def lit16_def isHex_def hexValue_def asciiDigit_def)
  have "chooseEntry KUIDWIDGETUI [(lit16 ''10282822'', 1, 4194304, 69)] = Some (True, 0, 4)"
    using default_ids(2) by (simp add: chooseEntry_def)
  then show ?thesis using override_text_is_read [OF asciiSpace_plain _ ok, of KUIDWIDGETUI] by simp
qed

subsection \<open>The manager and its caches\<close>

text \<open>The flags tell which handlers there are.\<close>

definition mgr_wf :: "manager \<Rightarrow> bool" where
  "mgr_wf m \<longleftrightarrow> (iCacheEnabled m \<longleftrightarrow> iCache m \<noteq> None) \<and> (iVSSCacheEnabled m \<longleftrightarrow> iphoneSpecificCache m \<noteq> None) \<and>
     (iOpDomain m \<noteq> None \<longleftrightarrow> iOperatorCache m \<noteq> None) \<and> (iOperatorCache m \<noteq> None \<longrightarrow> iCacheEnabled m)"

text \<open>Two managers of one shape: the same flags, and the same caches present.\<close>

definition same_shape :: "manager \<Rightarrow> manager \<Rightarrow> bool" where
  "same_shape m m' \<longleftrightarrow> (\<forall>c. (cacheOf c m' = None) = (cacheOf c m = None)) \<and> iCacheEnabled m' = iCacheEnabled m \<and>
     iVSSCacheEnabled m' = iVSSCacheEnabled m \<and> iOpDomain m' = iOpDomain m \<and> mgSecureId m' = mgSecureId m"

lemma same_shape_wf: "same_shape m m' \<Longrightarrow> mgr_wf m \<Longrightarrow> mgr_wf m'"
proof -
  assume s: "same_shape m m'" and w: "mgr_wf m"
  have "(cacheOf c m' = None) = (cacheOf c m = None)" for c using s by (simp add: same_shape_def)
  from this [of ECache] this [of EOperatorCache] this [of EPhoneCache] s w show "mgr_wf m'"
    unfolding same_shape_def mgr_wf_def by (cases "iCache m"; cases "iOperatorCache m") simp_all
qed

lemma same_shape_refl [intro, simp]: "same_shape m m"
  by (simp add: same_shape_def)

lemma same_shape_trans: "same_shape m m1 \<Longrightarrow> same_shape m1 m2 \<Longrightarrow> same_shape m m2"
  by (simp add: same_shape_def)

lemma same_shape_upd [simp]: "same_shape m (m'\<lparr>mgDisk := d\<rparr>) = same_shape m m'" "same_shape m (m'\<lparr>iOfflineMode := b\<rparr>) = same_shape m m'"
proof -
  have "cacheOf c (m'\<lparr>iOfflineMode := b\<rparr>) = cacheOf c m'" for c by (cases c) simp_all
  then show "same_shape m (m'\<lparr>mgDisk := d\<rparr>) = same_shape m m'" "same_shape m (m'\<lparr>iOfflineMode := b\<rparr>) = same_shape m m'"
    by (simp_all add: same_shape_def)
qed

lemma onCache_shape: "onCache c f m = Some (x, m') \<Longrightarrow> same_shape m m'"
  by (auto simp: onCache_def same_shape_def split: bind_splits if_splits)

lemma mgOnEntry_shape: "mgOnEntry f ce m = Some (ce', m') \<Longrightarrow> same_shape m m'"
  by (auto simp: mgOnEntry_def dest: onCache_shape split: option.splits bool.splits)

lemma validateCache_shape: "validateCache me c (h, m) = Some (h', m') \<Longrightarrow> same_shape m m'"
  by (auto simp: validateCache_def dest: onCache_shape split: option.splits)

lemma validateCaches_shape: "foldOpt (validateCache me) cs (h, m) = Some (h', m') \<Longrightarrow> same_shape m m'"
proof (induction cs arbitrary: h m)
  case (Cons c cs)
  then obtain h1 m1 where "validateCache me c (h, m) = Some (h1, m1)" "foldOpt (validateCache me) cs (h1, m1) = Some (h', m')"
    by (auto split: option.splits)
  then show ?case using Cons.IH validateCache_shape same_shape_trans by blast
qed simp

lemma RemoveOrphanedFilesL_shape: "RemoveOrphanedFilesL me m = Some (err, m') \<Longrightarrow> same_shape m m'"
  by (auto simp: RemoveOrphanedFilesL_def MarkAllCacheContentAsNoDelete_def Let_def simp del: foldOpt.simps
      dest: validateCaches_shape split: if_splits bind_splits)

lemma CrashCheckL_shape: "CrashCheckL me m = Some (err, m') \<Longrightarrow> same_shape m m'"
  by (auto simp: CrashCheckL_def dest: RemoveOrphanedFilesL_shape split: if_splits)

lemma mgRemoveAllL_shape: "mgRemoveAllL me m = Some (n, m') \<Longrightarrow> same_shape m m'"
  by (auto simp: mgRemoveAllL_def dest!: onCache_shape RemoveOrphanedFilesL_shape split: if_splits bind_splits intro: same_shape_trans)

lemma mgRequestL_shape: "mgRequestL me tr mode ce m = Some (s, ce', m') \<Longrightarrow> same_shape m m'"
  by (auto simp: mgRequestL_def Let_def dest!: onCache_shape split: if_splits option.splits bind_splits intro: same_shape_trans)

text \<open>One operation of the manager, in any order.\<close>

inductive mgr_step :: "mgr_env \<Rightarrow> manager \<Rightarrow> manager \<Rightarrow> bool" for me where
  requested: "mgRequestL me tr mode ce m = Some (s, ce', m') \<Longrightarrow> mgr_step me m m'"
| closed: "mgRequestClosed me ce m = Some (ce', m') \<Longrightarrow> mgr_step me m m'"
| headers: "mgReceivedResponseHeadersL me tr vssField ce m = Some (ce', m') \<Longrightarrow> mgr_step me m m'"
| body: "mgReceivedResponseBodyDataL me b ce m = Some (ce', m') \<Longrightarrow> mgr_step me m m'"
| completed: "mgResponseComplete me ce m = Some (ce', m') \<Longrightarrow> mgr_step me m m'"
| removed: "mgRemoveL me u m = Some (err, m') \<Longrightarrow> mgr_step me m m'"
| cleared: "mgRemoveAllL me m = Some (n, m') \<Longrightarrow> mgr_step me m m'"
| saved: "mgSaveL me u hdr content http m = Some (ok, m') \<Longrightarrow> mgr_step me m m'"
| header_added: "mgAddHeaderL me u name v m = Some (st, m') \<Longrightarrow> mgr_step me m m'"
| notified: "mgr_step me m (HandleNotifyString key v m)"

inductive_cases mgr_stepE: "mgr_step me m m'"

lemma mgr_step_shape: "mgr_step me m m' \<Longrightarrow> same_shape m m'"
proof (induction rule: mgr_step.induct)
  case (headers tr vssField ce m ce' m')
  then show ?case unfolding mgReceivedResponseHeadersL_def Let_def by (rule mgOnEntry_shape)
next
  case (notified m key v)
  show ?case by (simp add: HandleNotifyString_def)
qed (auto simp: mgRequestClosed_def mgReceivedResponseBodyDataL_def mgResponseComplete_def mgRemoveL_def mgSaveL_def mgAddHeaderL_def
    dest: mgRequestL_shape mgOnEntry_shape mgRemoveAllL_shape onCache_shape split: if_splits option.splits bool.splits)

inductive mgr_reachable :: "mgr_env \<Rightarrow> manager \<Rightarrow> manager \<Rightarrow> bool" for me m0 where
  start: "mgr_reachable me m0 m0"
| step: "mgr_reachable me m0 m \<Longrightarrow> mgr_step me m m' \<Longrightarrow> mgr_reachable me m0 m'"

lemma mgr_reachable_wf: "mgr_reachable me m0 m \<Longrightarrow> mgr_wf m0 \<Longrightarrow> mgr_wf m"
  by (induction rule: mgr_reachable.induct) (auto dest: mgr_step_shape same_shape_wf)

subsection \<open>Construction\<close>

lemma chNewL_Inl: "chNewL co io ix dir w = Some (Inl err) \<Longrightarrow> err \<noteq> KErrNone"
  by (auto simp: chNewL_def split: bind_splits if_splits)

lemma createCache_ok:
  "createCache me cs c sz folder ix lev pp m = Some (KErrNone, m') \<Longrightarrow> \<exists>w d. m' = (setCache c w m)\<lparr>mgDisk := d\<rparr>"
  by (auto simp: createCache_def dest: chNewL_Inl split: bind_splits sum.splits)

lemma thenL_ok: "thenL x f = Some (KErrNone, m') \<longleftrightarrow> (\<exists>m. x = Some (KErrNone, m) \<and> f m = Some (KErrNone, m'))"
  by (auto simp: thenL_def split: bind_splits if_splits)

text \<open>Each step adds its cache and the settings that go with it.\<close>

lemma CreateHttpCacheL_ok:
  assumes "CreateHttpCacheL me cs sz lev pp m = Some (KErrNone, m')"
  shows "\<exists>w d. m' = m\<lparr>iCache := Some w, mgDisk := d\<rparr>"
  using createCache_ok [OF assms [unfolded CreateHttpCacheL_def]] by auto

lemma CreateOperatorCacheL_ok:
  assumes "CreateOperatorCacheL me cs folder sz lev pp m = Some (KErrNone, m')"
  shows "m' = m \<or> (\<exists>w d u. m' = m\<lparr>iOpDomain := Some u, iOperatorCache := Some w, mgDisk := d\<rparr>)"
  using assms by (auto simp: CreateOperatorCacheL_def dest!: createCache_ok split: sum.splits) blast

lemma CreateVssCacheL_ok:
  assumes "CreateVssCacheL me cs folder sz lev pp m = Some (KErrNone, m')"
  shows "\<exists>w d l. m' = m\<lparr>iVSSWhiteList := l, iphoneSpecificCache := Some w, mgDisk := d\<rparr>"
  using createCache_ok [OF assms [unfolded CreateVssCacheL_def]] by auto

lemma createAll_wf:
  assumes run: "createAll me cs pp c lev m = Some (KErrNone, m')"
    and m: "iCache m = None" "iOperatorCache m = None" "iphoneSpecificCache m = None" "iOpDomain m = None"
      "iCacheEnabled m = ccCacheEnabled c" "iVSSCacheEnabled m = ccVssCacheEnabled c"
  shows "mgr_wf m'"
proof -
  obtain m1 m2 where 1: "(if ccCacheEnabled c then CreateHttpCacheL me cs (ccCacheSize c) lev pp m else Some (KErrNone, m)) = Some (KErrNone, m1)"
    and 2: "(if ccCacheEnabled c \<and> ccOpCacheEnabled c then CreateOperatorCacheL me cs (ccOpCacheFolder c) (ccOpCacheSize c) lev pp m1
         else Some (KErrNone, m1)) = Some (KErrNone, m2)"
    and 3: "(if ccVssCacheEnabled c then CreateVssCacheL me cs (ccVssCacheFolder c) (ccVssCacheSize c) lev pp m2 else Some (KErrNone, m2)) = Some (KErrNone, m')"
    using run unfolding createAll_def thenL_ok by blast
  have a: "(iCache m1 \<noteq> None) = ccCacheEnabled c" "iOperatorCache m1 = None" "iphoneSpecificCache m1 = None" "iOpDomain m1 = None"
    "iCacheEnabled m1 = ccCacheEnabled c" "iVSSCacheEnabled m1 = ccVssCacheEnabled c"
    using 1 m by (auto dest!: CreateHttpCacheL_ok split: if_splits)
  have b: "(iCache m2 \<noteq> None) = ccCacheEnabled c" "(iOperatorCache m2 \<noteq> None) = (iOpDomain m2 \<noteq> None)" "iphoneSpecificCache m2 = None"
    "iOperatorCache m2 \<noteq> None \<longrightarrow> ccCacheEnabled c" "iCacheEnabled m2 = ccCacheEnabled c" "iVSSCacheEnabled m2 = ccVssCacheEnabled c"
    using 2 a by (auto dest!: CreateOperatorCacheL_ok split: if_splits)
  show ?thesis using 3 b by (auto simp: mgr_wf_def dest!: CreateVssCacheL_ok split: if_splits)
qed

text \<open>The platform reports a failure with an error code.\<close>

definition errorsAreErrors :: "config_env \<Rightarrow> bool" where
  "errorsAreErrors cs \<longleftrightarrow> (\<forall>d. csVolume cs d \<noteq> Inl KErrNone) \<and> (\<forall>b. csCritical cs b \<noteq> Inl KErrNone)"

lemma GetCriticalDriveLevelsL_err: "errorsAreErrors cs \<Longrightarrow> GetCriticalDriveLevelsL cs f \<noteq> Some (Inl KErrNone)"
  by (auto simp: GetCriticalDriveLevelsL_def errorsAreErrors_def split: option.splits sum.splits)

lemma CreateCacheHandlersL_wf:
  assumes run: "CreateCacheHandlersL me cs (newManager sid d) = Some (KErrNone, m)" and ok: "errorsAreErrors cs"
  shows "mgr_wf m"
proof (cases "GetPostponeParamsL (csRepo cs)")
  case (Inl err)
  then show ?thesis using run by (auto simp: CreateCacheHandlersL_def newManager_def mgr_wf_def)
next
  case (Inr pp)
  obtain present postpone where p: "pp = (present, postpone)" by (cases pp)
  let ?m = "\<lambda>c. (newManager sid d)\<lparr>iCacheEnabled := ccCacheEnabled c, iVSSCacheEnabled := ccVssCacheEnabled c, iCacheFolder := ccCacheFolder c\<rparr>"
  obtain c lev where *: "GetCriticalDriveLevelsL cs (ccCacheFolder c) = Some lev"
    "(case lev of Inl err \<Rightarrow> Some (err, ?m c) | Inr l \<Rightarrow> thenL (createAll me cs postpone c l (?m c)) (CrashCheckL me)) = Some (KErrNone, m)"
    using run Inr p by (auto simp: CreateCacheHandlersL_def Let_def split: bind_splits if_splits)
  then obtain l where "thenL (createAll me cs postpone c l (?m c)) (CrashCheckL me) = Some (KErrNone, m)"
    using GetCriticalDriveLevelsL_err [OF ok] by (cases lev) auto
  then obtain m2 where m2: "createAll me cs postpone c l (?m c) = Some (KErrNone, m2)" "CrashCheckL me m2 = Some (KErrNone, m)"
    unfolding thenL_ok by blast
  have "mgr_wf m2" by (rule createAll_wf [OF m2(1)]) (simp_all add: newManager_def)
  then show ?thesis using CrashCheckL_shape [OF m2(2)] same_shape_wf by blast
qed

text \<open>
  C18: the flags of a manager always tell which caches it has. A manager that was constructed, and
  every one that any sequence of its operations makes of it, has the general cache exactly when that
  is enabled, the phone's exactly when that is enabled, and the operator's together with
  the operator's domain; so while caching is enabled every URL is routed to a handler that exists.
\<close>

theorem manager_type_invariant:
  assumes "CreateCacheHandlersL me cs (newManager sid d) = Some (KErrNone, m0)" "errorsAreErrors cs" "mgr_reachable me m0 m"
  shows "mgr_wf m \<and> (iCacheEnabled m \<longrightarrow> (\<exists>c w. CacheHandler me u h m = Some c \<and> cacheOf c m = Some w))"
proof -
  have w: "mgr_wf m" using mgr_reachable_wf [OF assms(3)] CreateCacheHandlersL_wf [OF assms(1,2)] by blast
  then have "iCacheEnabled m \<longrightarrow> (\<exists>c w. CacheHandler me u h m = Some c \<and> cacheOf c m = Some w)"
    by (auto simp: mgr_wf_def CacheHandler_def Let_def)
  with w show ?thesis by blast
qed

theorem manager_type_invariant_witness:
  "\<exists>m0 w. CreateCacheHandlersL calm_manager_env plain_config (newManager KUIDBROWSERNG Map.empty) = Some (KErrNone, m0) \<and> mgr_wf m0 \<and>
     CacheHandler calm_manager_env [104] None m0 = Some ECache \<and> cacheOf ECache m0 = Some w \<and> iSize w = 2097152 \<and>
     mgDisk m0 (KDefaultCacheDir @ KCrashCheck) = None \<and> mgDisk m0 (iCacheFolder m0 @ KCrashCheck) = Some []"
proof -
  have c: "csAlloc plain_config 64" "csOverride plain_config 64 = ([], 0)" "plainSpace (csSpace plain_config)"
    using asciiSpace_plain by (simp_all add: plain_config_def)
  have p: "GetPostponeParamsL (csRepo plain_config) = Inr (False, THttpCachePostponeParameters)"
    "KOperatorDomainUrl (csRepo plain_config) = Inl KErrNotFound" "csConstruct plain_config c = calm_construct"
    "csVolume plain_config d = Inr False" "csCritical plain_config b = Inr 0" "KPhoneSpecificCacheDomainUrl (csRepo plain_config) = Inl KErrNotFound" for c d b
    by (simp_all add: plain_config_def GetPostponeParamsL_def)
  let ?f = "[67, 58, 92, 115, 121, 115, 116, 101, 109, 92, 99, 97, 99, 104, 101, 92] :: tdes16"
  have f: "EnsureTrailingSlash (lit16 ''C:'' @ parsePath KDefaultCacheDir) = ?f"
    by (simp add: EnsureTrailingSlash_def parsePath_def parseDrive_def lit16_def KDefaultCacheDir_def)
  have d: "TDriveUnit (parseDrive ?f) = Some 2" by (simp add: parseDrive_def TDriveUnit_def)
  have n: "chNewL calm_construct io ix dir (newHandler sz lev pp path Map.empty) =
      Some (Inr ((newHandler sz lev pp path Map.empty)\<lparr>iHttpCacheObserver := Some (obStartObserver \<lparr>obActive = False, obStatus = None\<rparr>)\<rparr>))" for io ix dir sz lev pp path
    by (simp add: chNewL_def chConstructL_def calm_construct_def OpenLookupTableL_def newHandler_def)
  have k: "KDefaultCacheDir @ KCrashCheck \<noteq> ?f @ KCrashCheck" by (simp add: KDefaultCacheDir_def lit16_def)
  let ?m = "newManager KUIDBROWSERNG Map.empty" and ?pp = THttpCachePostponeParameters
  let ?c = "\<lparr>ccCacheEnabled = True, ccCacheSize = 2097152, ccCacheFolder = ?f, ccOpCacheEnabled = True, ccOpCacheSize = KDefaultOperatorCacheSize,
     ccOpCacheFolder = KDefaultOperatorCacheDir, ccVssCacheEnabled = True, ccVssCacheSize = KDefaultOperatorCacheSize, ccVssCacheFolder = KDefaultVssCacheDir\<rparr>"
  have s: "defaultSize KUIDBROWSERNG = Some 2097152" by (simp add: defaultSize_def)
  have cc: "ccCacheFolder defaultConfig = KDefaultCacheDir" "repoConfig plain_config False = defaultConfig" by (simp_all add: defaultConfig_def repoConfig_def)
  have a: "ApplyCacheOverridesL plain_config KUIDBROWSERNG defaultConfig = Some (KErrNone, ?c)"
    unfolding apply_default [OF c] s cc f by (simp add: defaultConfig_def)
  let ?h = "\<lambda>sz path. (newHandler sz 0 ?pp path Map.empty)\<lparr>iHttpCacheObserver := Some (obStartObserver \<lparr>obActive = False, obStatus = None\<rparr>)\<rparr>"
  have nd: "disk (newHandler sz lev pp path Map.empty) = Map.empty" "iSize (newHandler sz lev pp path Map.empty) = sz" for sz lev pp path
    by (simp_all add: newHandler_def)
  let ?m1 = "?m\<lparr>iCacheEnabled := True, iVSSCacheEnabled := True, iCacheFolder := ?f\<rparr>"
  let ?m2 = "?m1\<lparr>iCache := Some (?h 2097152 (?f @ KDefaultIndexFile))\<rparr>"
  let ?m3 = "?m2\<lparr>iVSSWhiteList := None, iphoneSpecificCache := Some (?h KDefaultOperatorCacheSize (KDefaultVssCacheDir @ KDefaultVSSIndexFile))\<rparr>"
  have x1: "CreateHttpCacheL calm_manager_env plain_config 2097152 0 ?pp ?m1 = Some (KErrNone, ?m2)"
    by (simp add: CreateHttpCacheL_def createCache_def p(3) n newManager_def nd)
  have x2: "CreateOperatorCacheL calm_manager_env plain_config KDefaultOperatorCacheDir KDefaultOperatorCacheSize 0 ?pp ?m2 = Some (KErrNone, ?m2)"
    by (simp add: CreateOperatorCacheL_def p(2))
  have x3: "CreateVssCacheL calm_manager_env plain_config KDefaultVssCacheDir KDefaultOperatorCacheSize 0 ?pp ?m2 = Some (KErrNone, ?m3)"
    by (simp add: CreateVssCacheL_def createCache_def p(3,6) n newManager_def nd)
  have x4: "createAll calm_manager_env plain_config ?pp ?c 0 ?m1 = Some (KErrNone, ?m3)"
    using x1 x2 x3 by (simp add: createAll_def thenL_def)
  let ?mz = "?m3\<lparr>mgDisk := [?f @ KCrashCheck \<mapsto> []]\<rparr>"
  have x5: "CrashCheckL calm_manager_env ?m3 = Some (KErrNone, ?mz)"
    by (simp add: CrashCheckL_def IsBrowser_def newManager_def crashFile_def)
  have sid: "mgSecureId ?m = KUIDBROWSERNG" by (simp add: newManager_def)
  obtain m0 where e: "m0 = ?mz" by simp
  have m0: "CreateCacheHandlersL calm_manager_env plain_config ?m = Some (KErrNone, m0)"
    unfolding e CreateCacheHandlersL_def p(1) sum.case prod.case using a d x4 x5 sid
    by (simp add: cc GetCriticalDriveLevelsL_def p(4,5) thenL_def Let_def)
  have m1: "iCache m0 \<noteq> None" "map_option iSize (iCache m0) = Some 2097152" "iOpDomain m0 = None" "mgDisk m0 = [?f @ KCrashCheck \<mapsto> []]" "iCacheFolder m0 = ?f"
    by (simp_all add: e newManager_def nd)
  have "errorsAreErrors plain_config" by (simp add: errorsAreErrors_def plain_config_def)
  from manager_type_invariant [OF m0 this mgr_reachable.start] have "mgr_wf m0" by blast
  then show ?thesis using m0 m1 k by (intro exI [of _ m0]) (auto simp: CacheHandler_def Let_def)
qed

end
