(* ===== verification/HistoryStack.thy ===== *)
theory HistoryStack
  imports CacheHandler
begin

text \<open>
  The browsing history (webkitutils/HistoryProvider): the entries of \<open>HistoryEntry\<close>, the stack and
  the current position of \<open>HistoryController\<close>. What the controller asks of its client is recorded in
  \<open>hCalls\<close>, in order: loads, which the page cache answers in the cache mode that is passed, the use
  counts of posted forms, and the notifications of the user interface. A null pointer or a pointer to
  a deleted entry that is used is a fault.
\<close>

record hist_entry =
  heId :: nat
  m_requestUrl :: tdes8
  m_responseUrl :: "tdes8 option"
  m_pageTitle :: tdes16
  m_position :: "int \<times> int"
  m_zoomLevel :: int
  m_minZoomLevel :: int
  m_activeBoxId :: int
  m_postContentType :: "tdes16 option"
  m_formData :: "nat option"
  m_ifWmlMode :: bool
  m_thumbnail :: bool
  m_thumbnailBuf :: bool
  m_creationTime :: int

datatype hist_timer = AnimRepaint | AnimPlaceHolder

datatype hist_key = EKeyRightArrow | EKeyLeftArrow | EKeyDevice3 | EKeyOther

datatype hist_edge = EStateHistoryBeginning | EStateHistoryEnd

datatype hist_call =
    DoHistoryGet tdes8 TBrCtlCacheMode
  | DoHistoryPost tdes8 TBrCtlCacheMode tdes16 nat
  | SetUse bool nat
  | StateChanged bool
  | DeferTimers bool
  | MakeVisible bool
  | DrawNow
  | NavigationStateChanged hist_edge bool
  | HandleWmlBackL
  | SimulateKeyEventL hist_key

datatype hist_component =
    EHistoryComponentNone | EHistoryComponentLeftArrow | EHistoryComponentRightArrow
  | EHistoryComponentLeftPlaceHolder | EHistoryComponentMiddlePlaceHolder | EHistoryComponentRightPlaceHolder

text \<open>A rectangle is its top left corner, which is inside, and its bottom right one, which is not.\<close>

record hist_rect =
  rcLeft :: int
  rcTop :: int
  rcRight :: int
  rcBottom :: int

record hist_layout =
  m_leftPlaceHolderRect :: hist_rect
  m_centerPlaceHolderRect :: hist_rect
  m_rightPlaceHolderRect :: hist_rect
  lyLeftArrow :: hist_rect
  lyRightArrow :: hist_rect

record hist_view =
  m_centerPageIndex :: int
  m_centerEntry :: "nat option"
  m_historyStackIndex :: int
  m_direction :: int
  m_resizeFactor :: int
  m_placeHolderResizeFactor :: int
  m_fastScroll :: bool
  m_repaintTimer :: "hist_timer option"
  m_historyViewComponent :: hist_component
  m_lastpointerposition :: "int \<times> int"
  m_pointerEvent :: "int \<times> int"
  m_autoScrollPeriodic :: bool
  m_layout :: hist_layout

record history =
  m_historyStack :: "hist_entry list"
  m_historyLoadOffset :: int
  m_currentIndex :: int
  m_tempCurrentIndex :: int
  m_historyViewEnabled :: bool
  m_backListAllowed :: bool
  m_possibleWmlOEB :: bool
  m_historyView :: "hist_view option"
  hCalls :: "hist_call list"

text \<open>What the platform and the client answer during one call: allocations, positions, dialogs.\<close>

record hist_io =
  hioNewEntry :: bool
  hioRequestUrl :: bool
  hioResponseUrl :: bool
  hioTitle :: bool
  hioPostType :: bool
  hioAppend :: bool
  hioId :: nat
  hioPosition :: "int \<times> int"
  hioZoom :: int
  hioMinZoom :: int
  hioWml :: bool
  hioNow :: int
  hioScaledPage :: bool
  hioThumbBuf :: bool
  hioThumbWrite :: bool
  hioThumbNew :: bool
  hioView :: symerr
  hioDialog :: "nat option"
  hioPost :: symerr
  hioSize :: "int \<times> int"

definition KHistoryStackSize :: nat where "KHistoryStackSize = 20"

definition histCall :: "hist_call list \<Rightarrow> history \<Rightarrow> history" where
  "histCall cs h = h\<lparr>hCalls := hCalls h @ cs\<rparr>"

subsection \<open>Entries\<close>

text \<open>The title starts as the URL without its scheme.\<close>

definition titleOffset :: "tdes8 \<Rightarrow> nat" where
  "titleOffset u = (if des_find u (lit8 ''http://'') = Some 0 then 7 else if des_find u (lit8 ''https://'') = Some 0 then 8 else 0)"

text \<open>Deleting an entry gives up its form.\<close>

definition deleteCalls :: "hist_entry \<Rightarrow> hist_call list" where
  "deleteCalls e = (case m_formData e of None \<Rightarrow> [] | Some fd \<Rightarrow> [SetUse False fd])"

definition initWithUrlAndFormData :: "hist_io \<Rightarrow> tdes8 \<Rightarrow> tdes8 \<Rightarrow> tdes16 \<Rightarrow> nat option \<Rightarrow> hist_entry option \<times> hist_call list" where
  "initWithUrlAndFormData io url requestUrl formContentType formData =
    (if \<not> hioNewEntry io then (None, [])
     else let post = (formData \<noteq> None \<and> formContentType \<noteq> []);
          e = \<lparr>heId = hioId io, m_requestUrl = requestUrl, m_responseUrl = (if hioResponseUrl io then Some url else None),
            m_pageTitle = map ucast (drop (titleOffset requestUrl) requestUrl), m_position = (0, 0), m_zoomLevel = 0, m_minZoomLevel = 0,
            m_activeBoxId = 0, m_postContentType = (if post \<and> hioPostType io then Some formContentType else None),
            m_formData = (if post then formData else None), m_ifWmlMode = hioWml io, m_thumbnail = False, m_thumbnailBuf = False,
            m_creationTime = hioNow io\<rparr>;
          use = (case m_formData e of None \<Rightarrow> [] | Some fd \<Rightarrow> [SetUse True fd])
      in if \<not> hioRequestUrl io \<or> \<not> hioTitle io \<or> post \<and> \<not> hioPostType io then (None, use @ deleteCalls e)
         else (Some e, use))"

definition setPosition :: "int \<times> int \<Rightarrow> hist_entry \<Rightarrow> hist_entry" where "setPosition p e = e\<lparr>m_position := p\<rparr>"
definition setZoomLevel :: "int \<Rightarrow> hist_entry \<Rightarrow> hist_entry" where "setZoomLevel z e = e\<lparr>m_zoomLevel := z\<rparr>"
definition setMinZoomLevel :: "int \<Rightarrow> hist_entry \<Rightarrow> hist_entry" where "setMinZoomLevel z e = e\<lparr>m_minZoomLevel := z\<rparr>"
definition setActiveBoxId :: "int \<Rightarrow> hist_entry \<Rightarrow> hist_entry" where "setActiveBoxId i e = e\<lparr>m_activeBoxId := i\<rparr>"
definition touch :: "int \<Rightarrow> hist_entry \<Rightarrow> hist_entry" where "touch now e = e\<lparr>m_creationTime := now\<rparr>"

text \<open>An empty title, or one there is no memory for, leaves the old one.\<close>

definition setPageTitle :: "bool \<Rightarrow> tdes16 \<Rightarrow> hist_entry \<Rightarrow> hist_entry" where
  "setPageTitle alloc t e = (if t \<noteq> [] \<and> alloc then e\<lparr>m_pageTitle := t\<rparr> else e)"

text \<open>The bitmap is kept compressed; writing it may fail.\<close>

definition storeThumbnail :: "hist_io \<Rightarrow> hist_entry \<Rightarrow> hist_entry" where
  "storeThumbnail io e =
    (let b = (m_thumbnailBuf e \<or> hioThumbBuf io) in e\<lparr>m_thumbnail := False, m_thumbnailBuf := b \<and> hioThumbWrite io\<rparr>)"

definition constructThumbnailL :: "hist_io \<Rightarrow> hist_entry \<Rightarrow> hist_entry" where
  "constructThumbnailL io e = (if \<not> m_thumbnail e \<and> m_thumbnailBuf e \<and> hioThumbNew io then e\<lparr>m_thumbnail := True\<rparr> else e)"

definition deleteThumbnail :: "hist_entry \<Rightarrow> hist_entry" where "deleteThumbnail e = e\<lparr>m_thumbnail := False\<rparr>"

definition postContentType :: "hist_entry \<Rightarrow> tdes16" where
  "postContentType e = (case m_postContentType e of None \<Rightarrow> [] | Some t \<Rightarrow> t)"

definition responseUrlOf :: "hist_entry \<Rightarrow> tdes8" where
  "responseUrlOf e = (case m_responseUrl e of None \<Rightarrow> [] | Some u \<Rightarrow> u)"

subsection \<open>The stack\<close>

definition initWithCallback :: "bool \<Rightarrow> bool \<Rightarrow> history" where
  "initWithCallback historyAllowed backListAllowed = \<lparr>m_historyStack = [], m_historyLoadOffset = 0, m_currentIndex = - 1, m_tempCurrentIndex = - 1,
     m_historyViewEnabled = historyAllowed, m_backListAllowed = backListAllowed, m_possibleWmlOEB = False, m_historyView = None, hCalls = []\<rparr>"

definition historyLength :: "history \<Rightarrow> int" where
  "historyLength h = int (length (m_historyStack h))"

definition entryByIndex :: "int \<Rightarrow> history \<Rightarrow> hist_entry option" where
  "entryByIndex i h = (if 0 \<le> i \<and> i < historyLength h then Some (m_historyStack h ! nat i) else None)"

text \<open>An entry is changed in place.\<close>

definition onEntry :: "int \<Rightarrow> (hist_entry \<Rightarrow> hist_entry) \<Rightarrow> history \<Rightarrow> history" where
  "onEntry i f h = (case entryByIndex i h of None \<Rightarrow> h | Some e \<Rightarrow> h\<lparr>m_historyStack := (m_historyStack h)[nat i := f e]\<rparr>)"

definition removeAt :: "nat \<Rightarrow> history \<Rightarrow> history" where
  "removeAt i h = histCall (deleteCalls (m_historyStack h ! i))
     (h\<lparr>m_historyStack := take i (m_historyStack h) @ drop (Suc i) (m_historyStack h)\<rparr>)"

definition updateCurrentEntryPositionIfNeeded :: "hist_io \<Rightarrow> history \<Rightarrow> history" where
  "updateCurrentEntryPositionIfNeeded io h = (if hioWml io then h else onEntry (m_tempCurrentIndex h) (setPosition (hioPosition io)) h)"

definition updateCurrentEntryZoomLevelIfNeeded :: "hist_io \<Rightarrow> history \<Rightarrow> history" where
  "updateCurrentEntryZoomLevelIfNeeded io h = (if hioWml io then h else onEntry (m_tempCurrentIndex h) (setZoomLevel (hioZoom io)) h)"

definition updateCurrentEntryMinZoomLevelIfNeeded :: "hist_io \<Rightarrow> history \<Rightarrow> history" where
  "updateCurrentEntryMinZoomLevelIfNeeded io h = (if hioWml io then h else onEntry (m_tempCurrentIndex h) (setMinZoomLevel (hioMinZoom io)) h)"

text \<open>The page that has loaded: a step in the history ends, or a new entry follows the current one.\<close>

definition histInsert :: "hist_io \<Rightarrow> tdes8 \<Rightarrow> tdes8 \<Rightarrow> tdes16 \<Rightarrow> nat option \<Rightarrow> history \<Rightarrow> history" where
  "histInsert io url requestUrl formContentType formData h =
    (let h1 = updateCurrentEntryPositionIfNeeded io h in
     if m_historyLoadOffset h1 \<noteq> 0 then h1\<lparr>m_historyLoadOffset := 0, m_tempCurrentIndex := m_currentIndex h1\<rparr>
     else case initWithUrlAndFormData io url requestUrl formContentType formData of
       (None, cs) \<Rightarrow> histCall cs h1
     | (Some e, cs) \<Rightarrow>
       let h2 = fold removeAt (rev [nat (m_currentIndex h1 + 1)..<length (m_historyStack h1)]) (histCall cs h1);
           h3 = (if length (m_historyStack h2) \<ge> KHistoryStackSize
                 then (removeAt 0 h2)\<lparr>m_currentIndex := m_currentIndex h2 - 1\<rparr> else h2);
           h4 = (if hioAppend io then h3\<lparr>m_historyStack := m_historyStack h3 @ [e], m_currentIndex := m_currentIndex h3 + 1\<rparr>
                 else histCall (deleteCalls e) h3)
       in h4\<lparr>m_tempCurrentIndex := m_currentIndex h4\<rparr>)"

definition containsItemForURL :: "bool \<Rightarrow> tdes16 \<Rightarrow> history \<Rightarrow> bool" where
  "containsItemForURL alloc url h = (alloc \<and> (\<exists>e \<in> set (m_historyStack h). m_requestUrl e = des_copy8 url))"

definition clearHistoryList :: "history \<Rightarrow> history" where
  "clearHistoryList h =
    (let h1 = fold removeAt (filter (\<lambda>i. int i \<noteq> m_currentIndex h) (rev [0..<length (m_historyStack h)])) h;
         c = (if m_currentIndex h1 \<noteq> - 1 then 0 else m_currentIndex h1)
     in h1\<lparr>m_currentIndex := c, m_tempCurrentIndex := c, m_historyLoadOffset := 0\<rparr>)"

text \<open>The sum is that of 32-bit integers.\<close>

definition add32 :: "int \<Rightarrow> int \<Rightarrow> int" where
  "add32 a b = sint (word_of_int (a + b) :: 32 word)"

definition canGoBackOrForward :: "int \<Rightarrow> history \<Rightarrow> bool" where
  "canGoBackOrForward distance h =
    (let newCurrent = add32 (m_currentIndex h) distance in 0 \<le> newCurrent \<and> newCurrent < historyLength h)"

definition goBackOrForward :: "int \<Rightarrow> history \<Rightarrow> history" where
  "goBackOrForward distance h =
    (case entryByIndex (add32 (m_currentIndex h) distance) h of
       None \<Rightarrow> h
     | Some e \<Rightarrow> histCall [DoHistoryGet (m_requestUrl e) ECacheModeHistory]
         (h\<lparr>m_tempCurrentIndex := m_currentIndex h, m_currentIndex := add32 (m_currentIndex h) distance, m_historyLoadOffset := distance\<rparr>))"

datatype THistoryStackDirection = EHistoryStackDirectionPrevious | EHistoryStackDirectionCurrent | EHistoryStackDirectionNext

primrec histIndex :: "THistoryStackDirection \<Rightarrow> history \<Rightarrow> int" where
  "histIndex EHistoryStackDirectionPrevious h = m_currentIndex h - 1"
| "histIndex EHistoryStackDirectionNext h = m_currentIndex h + 1"
| "histIndex EHistoryStackDirectionCurrent h = m_currentIndex h"

definition histEntry :: "THistoryStackDirection \<Rightarrow> history \<Rightarrow> hist_entry option" where
  "histEntry direction h = entryByIndex (histIndex direction h) h"

definition setCurrentIndex :: "int \<Rightarrow> history \<Rightarrow> history" where
  "setCurrentIndex i h = (if 0 \<le> i \<and> i < historyLength h then h\<lparr>m_currentIndex := i\<rparr> else h)"

definition setCurrentL :: "THistoryStackDirection \<Rightarrow> history \<Rightarrow> history" where
  "setCurrentL direction h = setCurrentIndex (histIndex direction h) h"

definition deleteEntry :: "int \<Rightarrow> history \<Rightarrow> history" where
  "deleteEntry index h =
    (if 0 \<le> index \<and> index < historyLength h then
       let h1 = removeAt (nat index) h
       in if index \<le> m_currentIndex h1 \<and> m_currentIndex h1 \<ge> 0 then h1\<lparr>m_currentIndex := m_currentIndex h1 - 1\<rparr> else h1
     else h)"

definition setCurrentEntryTitle :: "bool \<Rightarrow> tdes16 \<Rightarrow> history \<Rightarrow> history" where
  "setCurrentEntryTitle alloc t h = onEntry (m_currentIndex h) (setPageTitle alloc t) h"

definition updateGlobalHistoryForReload :: "hist_io \<Rightarrow> history \<Rightarrow> history" where
  "updateGlobalHistoryForReload io h =
    (case entryByIndex (m_currentIndex h) h of None \<Rightarrow> h
     | Some e \<Rightarrow> updateCurrentEntryPositionIfNeeded io (onEntry (m_currentIndex h) (touch (hioNow io)) h))"

definition updateHistoryEntryThumbnailL :: "hist_io \<Rightarrow> history \<Rightarrow> history" where
  "updateHistoryEntryThumbnailL io h = (if m_historyViewEnabled h then onEntry (m_currentIndex h) (storeThumbnail io) h else h)"

definition currentEntryPosition :: "history \<Rightarrow> int \<times> int" where
  "currentEntryPosition h = (case entryByIndex (m_currentIndex h) h of None \<Rightarrow> (0, 0) | Some e \<Rightarrow> m_position e)"

definition currentEntryZoomLevel :: "history \<Rightarrow> int" where
  "currentEntryZoomLevel h = (case entryByIndex (m_currentIndex h) h of None \<Rightarrow> 0 | Some e \<Rightarrow> m_zoomLevel e)"

definition currentEntryMinZoomLevel :: "history \<Rightarrow> int" where
  "currentEntryMinZoomLevel h = (case entryByIndex (m_currentIndex h) h of None \<Rightarrow> 0 | Some e \<Rightarrow> m_minZoomLevel e)"

text \<open>Without an entry the descriptor is made from a null pointer, whose length is then read.\<close>

definition histRequestUrl :: "history \<Rightarrow> tdes8 option" where
  "histRequestUrl h = map_option m_requestUrl (entryByIndex (m_currentIndex h) h)"

definition histResponseUrl :: "history \<Rightarrow> tdes8 option" where
  "histResponseUrl h = map_option responseUrlOf (entryByIndex (m_currentIndex h) h)"

subsection \<open>Loading from the history\<close>

text \<open>A page that came from a form is posted again. The error of the post is not looked at.\<close>

definition loadCalls :: "TBrCtlCacheMode \<Rightarrow> hist_entry \<Rightarrow> hist_call" where
  "loadCalls mode e =
    (case m_formData e of
       Some fd \<Rightarrow> if postContentType e \<noteq> [] then DoHistoryPost (m_requestUrl e) mode (postContentType e) fd else DoHistoryGet (m_requestUrl e) mode
     | None \<Rightarrow> DoHistoryGet (m_requestUrl e) mode)"

definition loadHistoryUrl :: "THistoryStackDirection \<Rightarrow> TBrCtlCacheMode \<Rightarrow> int \<Rightarrow> history \<Rightarrow> history" where
  "loadHistoryUrl direction cacheMode historyLoadOffset h =
    (case histEntry direction h of
       None \<Rightarrow> h
     | Some e \<Rightarrow>
       let h1 = h\<lparr>m_historyLoadOffset := historyLoadOffset\<rparr>;
           h2 = (if direction \<noteq> EHistoryStackDirectionCurrent then h1\<lparr>m_currentIndex := m_currentIndex h1 + historyLoadOffset\<rparr> else h1)
       in histCall [loadCalls cacheMode e] h2)"

text \<open>
  The list shows the newest entry first; \<open>hioDialog\<close> is the place of the selected one in it, or its
  length when none is.
\<close>

definition showHistoryListL :: "hist_io \<Rightarrow> history \<Rightarrow> history" where
  "showHistoryListL io h =
    (case hioDialog io of
       None \<Rightarrow> h
     | Some k \<Rightarrow>
       let index = min k (length (m_historyStack h));
           h1 = h\<lparr>m_tempCurrentIndex := m_currentIndex h, m_currentIndex := historyLength h - int index - 1, m_historyLoadOffset := int index\<rparr>
       in loadHistoryUrl EHistoryStackDirectionCurrent ECacheModeNoCache (m_historyLoadOffset h1) h1)"

end
