(* ===== verification/HistoryView.thy ===== *)
theory HistoryView
  imports HistoryStack "HOL-Library.Signed_Division"
begin

text \<open>
  The pictorial view of the history (webkitutils/HistoryProvider/HistoryView.cpp) and the commands of
  the controller that open, close and drive it. The view shows the entry in the centre and its
  neighbours, and slides one place per key; the sliding is driven by an idle timer, of which
  \<open>timerTick\<close> is one run. Drawing is not modelled, the thumbnails it makes are.
\<close>

subsection \<open>Layout\<close>

definition KHistoryViewOffsetX :: int where "KHistoryViewOffsetX = 2"
definition KDragDelta :: int where "KDragDelta = 7"
definition KMinimumScroll :: int where "KMinimumScroll = 20"
definition KResizeFactorIncr :: int where "KResizeFactorIncr = 20"
definition KAnimFactorInc :: int where "KAnimFactorInc = 25"
definition KFastScrollAnimFactorInc :: int where "KFastScrollAnimFactorInc = 40"
definition KMaxAnimFactor :: int where "KMaxAnimFactor = 100"

definition rectAt :: "int \<Rightarrow> int \<Rightarrow> int \<Rightarrow> int \<Rightarrow> hist_rect" where
  "rectAt x y w h = \<lparr>rcLeft = x, rcTop = y, rcRight = x + w, rcBottom = y + h\<rparr>"

definition rectContains :: "hist_rect \<Rightarrow> int \<times> int \<Rightarrow> bool" where
  "rectContains r p \<longleftrightarrow> rcLeft r \<le> fst p \<and> fst p < rcRight r \<and> rcTop r \<le> snd p \<and> snd p < rcBottom r"

text \<open>The divisions truncate; the view fills the control, so its bottom is the height of the screen.\<close>

definition calculateLayout :: "int \<times> int \<Rightarrow> hist_layout" where
  "calculateLayout scr =
    (let w = fst scr - 2 * KHistoryViewOffsetX; h = snd scr;
         cw = w * 50 sdiv 100; ch = h * 90 sdiv 100; sw = w * 25 sdiv 100; sh = h * 70 sdiv 100;
         cx = KHistoryViewOffsetX + sw; cy = h * (100 - 90) sdiv (2 * 100); sy = h * (100 - 70) sdiv (2 * 100);
         y = cy + ch; dH = h - y - 6; lx = KHistoryViewOffsetX + dH; rx = w - KHistoryViewOffsetX - dH
     in \<lparr>m_leftPlaceHolderRect = rectAt KHistoryViewOffsetX sy sw sh, m_centerPlaceHolderRect = rectAt cx cy cw ch,
         m_rightPlaceHolderRect = rectAt (KHistoryViewOffsetX + sw + cw) sy sw sh,
         lyLeftArrow = \<lparr>rcLeft = lx - ((y + dH) - (y + 3)), rcTop = y + 3, rcRight = lx, rcBottom = y + dH\<rparr>,
         lyRightArrow = \<lparr>rcLeft = rx, rcTop = y + 3, rcRight = rx + ((y + dH) - (y + 3)), rcBottom = y + dH\<rparr>\<rparr>)"

subsection \<open>The view\<close>

text \<open>The centre, its neighbours and their bitmaps.\<close>

definition viewDisplay :: "hist_io \<Rightarrow> hist_view \<Rightarrow> history \<Rightarrow> history" where
  "viewDisplay io v h =
    (let c = m_centerPageIndex v;
         h1 = onEntry c (constructThumbnailL io) (onEntry (c + 1) (constructThumbnailL io) (onEntry (c - 1) (constructThumbnailL io) h))
     in h1\<lparr>m_historyView := Some (v\<lparr>m_centerEntry := map_option heId (entryByIndex c h)\<rparr>)\<rparr>)"

definition viewUpdateState :: "int \<Rightarrow> hist_view \<Rightarrow> history \<Rightarrow> history" where
  "viewUpdateState dir v h =
    (let c = m_centerPageIndex v; n = historyLength h in
     histCall (if dir = 0 then [NavigationStateChanged EStateHistoryBeginning (c = 0), NavigationStateChanged EStateHistoryEnd (c \<ge> n - 1)]
       else [NavigationStateChanged EStateHistoryBeginning (dir = - 1 \<and> c \<le> 1), NavigationStateChanged EStateHistoryEnd (dir = 1 \<and> c \<ge> n - 2)]) h)"

text \<open>Starting to slide cuts the animation that is running short.\<close>

definition startTransition :: "int \<Rightarrow> hist_view \<Rightarrow> hist_view" where
  "startTransition dir v = v\<lparr>m_direction := dir, m_resizeFactor := (if m_repaintTimer v \<noteq> None then KMaxAnimFactor else m_resizeFactor v),
     m_repaintTimer := Some AnimPlaceHolder\<rparr>"

definition mayMove :: "int \<Rightarrow> hist_view \<Rightarrow> history \<Rightarrow> bool" where
  "mayMove dir v h \<longleftrightarrow> (dir = - 1 \<and> m_centerPageIndex v > 0) \<or> (dir = 1 \<and> m_centerPageIndex v < historyLength h - 1)"

definition viewTransition :: "int \<Rightarrow> hist_view \<Rightarrow> history \<Rightarrow> history" where
  "viewTransition dir v h =
    (let v1 = (if mayMove dir v h then startTransition dir v else v)
     in viewUpdateState dir v1 (h\<lparr>m_historyView := Some v1\<rparr>))"

definition performTransition :: "int \<Rightarrow> history \<Rightarrow> history option" where
  "performTransition dir h = map_option (\<lambda>v. viewTransition dir v h) (m_historyView h)"

text \<open>The growing of the view after it was opened.\<close>

definition calcRepaintRect :: "hist_view \<Rightarrow> bool \<times> hist_view" where
  "calcRepaintRect v =
    (if m_resizeFactor v = KMaxAnimFactor then (False, v) else (True, v\<lparr>m_resizeFactor := m_resizeFactor v + KResizeFactorIncr\<rparr>))"

text \<open>One step of the slide; at its end the centre moves and the bitmap that left is dropped.\<close>

definition animatePlaceHolderPosition :: "hist_io \<Rightarrow> hist_view \<Rightarrow> history \<Rightarrow> bool \<times> history" where
  "animatePlaceHolderPosition io v h =
    (if m_placeHolderResizeFactor v \<ge> KMaxAnimFactor then
       let c = (if m_direction v = 1 then m_centerPageIndex v + 1 else if m_direction v = - 1 then m_centerPageIndex v - 1 else m_centerPageIndex v);
           h1 = (if m_direction v = 1 then onEntry (c - 2) deleteThumbnail h else if m_direction v = - 1 then onEntry (c + 2) deleteThumbnail h else h)
       in (False, histCall [DrawNow] (viewDisplay io (v\<lparr>m_centerPageIndex := c, m_placeHolderResizeFactor := 0, m_direction := 0\<rparr>) h1))
     else
       let c = m_centerPageIndex v;
           h1 = (if m_direction v = 1 then fold (\<lambda>i. onEntry (c - 1 + i) (constructThumbnailL io)) [0, 1, 2, 3] h else h);
           inc = (if m_fastScroll v then KFastScrollAnimFactorInc else KAnimFactorInc)
       in (True, histCall [DrawNow] (h1\<lparr>m_historyView := Some (v\<lparr>m_placeHolderResizeFactor := m_placeHolderResizeFactor v + inc\<rparr>)\<rparr>)))"

definition stopTimer :: "history \<Rightarrow> history" where
  "stopTimer h = h\<lparr>m_historyView := map_option (\<lambda>v. v\<lparr>m_repaintTimer := None\<rparr>) (m_historyView h)\<rparr>"

text \<open>The idle timer runs its callback again as long as that says so.\<close>

definition timerTick :: "hist_io \<Rightarrow> history \<Rightarrow> history" where
  "timerTick io h =
    (case m_historyView h of None \<Rightarrow> h
     | Some v \<Rightarrow>
       (case m_repaintTimer v of None \<Rightarrow> h
        | Some AnimRepaint \<Rightarrow>
            let (again, v1) = calcRepaintRect v; h1 = histCall [DrawNow] (h\<lparr>m_historyView := Some v1\<rparr>) in if again then h1 else stopTimer h1
        | Some AnimPlaceHolder \<Rightarrow> let (again, h1) = animatePlaceHolderPosition io v h in if again then h1 else stopTimer h1))"

definition viewLoadUrl :: "hist_io \<Rightarrow> hist_view \<Rightarrow> history \<Rightarrow> history" where
  "viewLoadUrl io v h =
    (case entryByIndex (m_centerPageIndex v) h of
       None \<Rightarrow> h
     | Some e \<Rightarrow>
       (case loadCalls ECacheModeHistory e of
          DoHistoryPost u m t fd \<Rightarrow>
            let h1 = histCall [DoHistoryPost u m t fd] h in if hioPost io = KErrNone then setCurrentIndex (m_centerPageIndex v) h1 else h1
        | call \<Rightarrow> histCall [call] (setCurrentIndex (m_centerPageIndex v) h)))"

definition closeHistoryView :: "history \<Rightarrow> history option" where
  "closeHistoryView h = do {
     v \<leftarrow> m_historyView h;
     Some (histCall [MakeVisible True, DrawNow, StateChanged False, DeferTimers False]
       (h\<lparr>m_historyLoadOffset := m_centerPageIndex v - m_historyStackIndex v, m_historyView := None,
          m_historyStack := map deleteThumbnail (m_historyStack h)\<rparr>)) }"

text \<open>Entering the entry in the centre; the pages of the other markup language step back by themselves.\<close>

definition viewEnter :: "hist_io \<Rightarrow> hist_view \<Rightarrow> history \<Rightarrow> history option" where
  "viewEnter io v h =
    (let c = m_centerPageIndex v; index = m_currentIndex h;
         wml = (\<exists>e. entryByIndex c h = Some e \<and> m_ifWmlMode e);
         h1 = (if wml then
                 let h2 = h\<lparr>m_possibleWmlOEB := (c < index)\<rparr>
                 in if (\<exists>e. entryByIndex index h = Some e \<and> \<not> m_ifWmlMode e) \<or> (c \<noteq> index \<and> c - 1 \<noteq> index \<and> c + 1 \<noteq> index)
                    then viewLoadUrl io v h2 else histCall [HandleWmlBackL] h2
               else if c \<noteq> index then viewLoadUrl io v h else h)
     in closeHistoryView h1)"

definition OfferKeyEventL :: "hist_io \<Rightarrow> hist_key \<Rightarrow> bool \<Rightarrow> history \<Rightarrow> (bool \<times> history) option" where
  "OfferKeyEventL io key repeated h = do {
     v0 \<leftarrow> m_historyView h;
     let v = v0\<lparr>m_fastScroll := (repeated \<and> (key = EKeyRightArrow \<or> key = EKeyLeftArrow))\<rparr>;
     let h1 = h\<lparr>m_historyView := Some v\<rparr>;
     case key of
       EKeyRightArrow \<Rightarrow> Some (if mayMove 1 v h then (True, h1\<lparr>m_historyView := Some (startTransition 1 v)\<rparr>) else (False, h1))
     | EKeyLeftArrow \<Rightarrow> Some (if mayMove (- 1) v h then (True, h1\<lparr>m_historyView := Some (startTransition (- 1) v)\<rparr>) else (False, h1))
     | EKeyDevice3 \<Rightarrow> map_option (Pair True) (viewEnter io v h1)
     | EKeyOther \<Rightarrow> Some (False, h1) }"

text \<open>The title of the centre, or of the entry that is sliding there.\<close>

definition getCenterEntryTitle :: "history \<Rightarrow> tdes16 option" where
  "getCenterEntryTitle h = do {
     v \<leftarrow> m_historyView h;
     if m_direction v = 0 then
       (case m_centerEntry v of None \<Rightarrow> Some []
        | Some i \<Rightarrow> map_option m_pageTitle (find (\<lambda>e. heId e = i) (m_historyStack h)))
     else if m_repaintTimer v \<noteq> None then
       map_option m_pageTitle (entryByIndex (m_centerPageIndex v + (if m_direction v = 1 then 1 else - 1)) h)
     else Some [] }"

text \<open>The title or the URL, if there is one.\<close>

definition pageInfoLC :: "bool \<Rightarrow> history \<Rightarrow> tdes16 option option" where
  "pageInfoLC title h =
    (if title then map_option (\<lambda>t. if t = [] then None else Some t) (getCenterEntryTitle h)
     else Some (case entryByIndex (m_currentIndex h) h of None \<Rightarrow> None
       | Some e \<Rightarrow> if responseUrlOf e = [] then None else Some (map ucast (responseUrlOf e))))"

subsection \<open>The pointer\<close>

datatype pointer_type = EButton1Down | EDrag | EButton1Up

definition hitComponent :: "hist_layout \<Rightarrow> int \<times> int \<Rightarrow> hist_component \<Rightarrow> hist_component" where
  "hitComponent l p old =
    (if rectContains (m_leftPlaceHolderRect l) p then EHistoryComponentLeftPlaceHolder
     else if rectContains (m_rightPlaceHolderRect l) p then EHistoryComponentRightPlaceHolder
     else if rectContains (m_centerPlaceHolderRect l) p then EHistoryComponentMiddlePlaceHolder
     else if rectContains (lyLeftArrow l) p then EHistoryComponentLeftArrow
     else if rectContains (lyRightArrow l) p then EHistoryComponentRightArrow
     else old)"

text \<open>What lifting the pointer does to the centre, and the key it stands for.\<close>

definition pointerUp :: "hist_view \<Rightarrow> int \<times> int \<Rightarrow> history \<Rightarrow> hist_view \<times> hist_call list" where
  "pointerUp v p h =
    (case m_historyViewComponent v of
       EHistoryComponentNone \<Rightarrow> (v, [])
     | EHistoryComponentLeftPlaceHolder \<Rightarrow>
         if rectContains (m_leftPlaceHolderRect (m_layout v)) p \<and> m_centerPageIndex v > 0
         then (v\<lparr>m_centerPageIndex := m_centerPageIndex v - 1\<rparr>, [SimulateKeyEventL EKeyDevice3]) else (v, [])
     | EHistoryComponentMiddlePlaceHolder \<Rightarrow>
         if rectContains (m_centerPlaceHolderRect (m_layout v)) p then (v, [SimulateKeyEventL EKeyDevice3]) else (v, [])
     | EHistoryComponentRightPlaceHolder \<Rightarrow>
         if rectContains (m_rightPlaceHolderRect (m_layout v)) p \<and> m_centerPageIndex v < historyLength h - 1
         then (v\<lparr>m_centerPageIndex := m_centerPageIndex v + 1\<rparr>, [SimulateKeyEventL EKeyDevice3]) else (v, [])
     | EHistoryComponentLeftArrow \<Rightarrow> (v, if rectContains (lyLeftArrow (m_layout v)) p then [SimulateKeyEventL EKeyLeftArrow] else [])
     | EHistoryComponentRightArrow \<Rightarrow> (v, if rectContains (lyRightArrow (m_layout v)) p then [SimulateKeyEventL EKeyRightArrow] else []))"

definition HandlePointerEventL :: "pointer_type \<Rightarrow> int \<times> int \<Rightarrow> history \<Rightarrow> history option" where
  "HandlePointerEventL t p h = do {
     v \<leftarrow> m_historyView h;
     let dx = fst (m_lastpointerposition v) - fst p;
     Some (case t of
       EButton1Down \<Rightarrow>
         let c = hitComponent (m_layout v) p (m_historyViewComponent v)
         in h\<lparr>m_historyView := Some (v\<lparr>m_historyViewComponent := c, m_lastpointerposition := p, m_pointerEvent := p,
              m_autoScrollPeriodic := (m_autoScrollPeriodic v \<or> c = EHistoryComponentLeftArrow \<or> c = EHistoryComponentRightArrow)\<rparr>)\<rparr>
     | EDrag \<Rightarrow>
         if \<bar>dx\<bar> < KMinimumScroll then h
         else if fst (m_lastpointerposition v) + KDragDelta < fst p then viewTransition (- 1) v h
         else if fst (m_lastpointerposition v) > fst p + KDragDelta then viewTransition 1 v h else h
     | EButton1Up \<Rightarrow>
         let v1 = v\<lparr>m_autoScrollPeriodic := False\<rparr> in
         if \<bar>dx\<bar> > KDragDelta then h\<lparr>m_historyView := Some v1\<rparr>
         else let (v2, cs) = pointerUp v1 p h in histCall cs (h\<lparr>m_historyView := Some (v2\<lparr>m_pointerEvent := p\<rparr>)\<rparr>)) }"

definition autoScroll :: "history \<Rightarrow> history option" where
  "autoScroll h = do {
     v \<leftarrow> m_historyView h;
     Some (if m_historyViewComponent v = EHistoryComponentLeftArrow \<and> rectContains (lyLeftArrow (m_layout v)) (m_pointerEvent v) then viewTransition (- 1) v h
       else if m_historyViewComponent v = EHistoryComponentRightArrow \<and> rectContains (lyRightArrow (m_layout v)) (m_pointerEvent v) then viewTransition 1 v h
       else h) }"

subsection \<open>Commands\<close>

definition newHistoryView :: "hist_io \<Rightarrow> bool \<Rightarrow> history \<Rightarrow> hist_view" where
  "newHistoryView io previous h = \<lparr>m_centerPageIndex = m_currentIndex h - (if previous then 1 else 0), m_centerEntry = None,
     m_historyStackIndex = m_currentIndex h, m_direction = 0, m_resizeFactor = 0, m_placeHolderResizeFactor = 0, m_fastScroll = False,
     m_repaintTimer = Some AnimRepaint, m_historyViewComponent = EHistoryComponentNone, m_lastpointerposition = (0, 0),
     m_pointerEvent = (0, 0), m_autoScrollPeriodic = False, m_layout = calculateLayout (hioSize io)\<rparr>"

definition showHistoryViewL :: "hist_io \<Rightarrow> bool \<Rightarrow> history \<Rightarrow> symerr \<times> history" where
  "showHistoryViewL io previous h =
    (let h1 = (case entryByIndex (m_currentIndex h) h of
           Some e \<Rightarrow> if \<not> m_thumbnail e \<and> hioScaledPage io then updateHistoryEntryThumbnailL io h else h
         | None \<Rightarrow> h);
         h2 = histCall [DeferTimers True] h1;
         v = newHistoryView io previous h2
     in if hioView io \<noteq> KErrNone then (hioView io, h2)
        else (KErrNone, viewUpdateState 0 v (histCall [MakeVisible False, DrawNow, StateChanged True] (viewDisplay io v h2))))"

datatype hist_command =
    ECommandReload | ECommandBack | ECommandOneStepBack | ECommandForward | ECommandShowHistory | ECommandClearHistory | ECommandCancel
  | ECommandOther

definition handleHistoryCommandL :: "hist_io \<Rightarrow> hist_command \<Rightarrow> history \<Rightarrow> (symerr \<times> history) option" where
  "handleHistoryCommandL io command h0 =
    (let h = h0\<lparr>m_tempCurrentIndex := m_currentIndex h0\<rparr>; pictures = (m_historyViewEnabled h \<and> m_backListAllowed h);
         back = loadHistoryUrl EHistoryStackDirectionPrevious ECacheModeHistory (- 1) h
     in case command of
       ECommandReload \<Rightarrow> Some (KErrNone, loadHistoryUrl EHistoryStackDirectionCurrent ECacheModeNoCache (m_historyLoadOffset h) h)
     | ECommandBack \<Rightarrow> Some (if pictures then showHistoryViewL io True h else (KErrNone, back))
     | ECommandOneStepBack \<Rightarrow> Some (KErrNone, back)
     | ECommandForward \<Rightarrow> Some (KErrNone, loadHistoryUrl EHistoryStackDirectionNext ECacheModeHistory 1 h)
     | ECommandShowHistory \<Rightarrow> Some (if pictures then showHistoryViewL io False h else (KErrNone, showHistoryListL io h))
     | ECommandClearHistory \<Rightarrow> Some (KErrNone, clearHistoryList h)
     | ECommandCancel \<Rightarrow> if pictures then map_option (\<lambda>h1. (KErrNone, h1\<lparr>m_historyLoadOffset := 0\<rparr>)) (closeHistoryView h) else Some (KErrNone, h)
     | ECommandOther \<Rightarrow> Some (KErrNone, h))"

end
