(* ===== verification/HistorySpec.thy ===== *)
theory HistorySpec
  imports HistoryView
begin

text \<open>
  What the history promises: it is a bounded trail of pages, with a past, a present and a future; the
  forms of its entries are held exactly as long as the entries; and stepping through it, by distance
  or in the view, loads the page that is meant. A step whose page never loads spoils the next one.
\<close>

subsection \<open>Removing entries\<close>

lemma histCall_fields [simp]:
  "m_historyStack (histCall cs h) = m_historyStack h" "m_currentIndex (histCall cs h) = m_currentIndex h"
  "m_historyLoadOffset (histCall cs h) = m_historyLoadOffset h" "m_tempCurrentIndex (histCall cs h) = m_tempCurrentIndex h"
  "m_historyView (histCall cs h) = m_historyView h" "hCalls (histCall cs h) = hCalls h @ cs"
  "historyLength (histCall cs h) = historyLength h" "entryByIndex i (histCall cs h) = entryByIndex i h"
  by (simp_all add: histCall_def historyLength_def entryByIndex_def)

lemma fold_removeAt:
  "m_historyStack h = pre @ xs @ post \<Longrightarrow> k = length pre \<Longrightarrow>
   fold removeAt (rev [k..<k + length xs]) h =
     h\<lparr>m_historyStack := pre @ post, hCalls := hCalls h @ concat (map deleteCalls (rev xs))\<rparr>"
proof (induction xs arbitrary: h post rule: rev_induct)
  case (snoc x xs)
  have n: "m_historyStack h ! (k + length xs) = x" "take (k + length xs) (m_historyStack h) = pre @ xs"
    "drop (Suc (k + length xs)) (m_historyStack h) = post" using snoc.prems by (simp_all add: nth_append)
  let ?h = "removeAt (k + length xs) h"
  have h: "?h = h\<lparr>m_historyStack := pre @ xs @ post, hCalls := hCalls h @ deleteCalls x\<rparr>"
    by (simp add: removeAt_def n histCall_def)
  have "rev [k..<k + length (xs @ [x])] = (k + length xs) # rev [k..<k + length xs]" by simp
  moreover have "fold removeAt (rev [k..<k + length xs]) ?h =
      ?h\<lparr>m_historyStack := pre @ post, hCalls := hCalls ?h @ concat (map deleteCalls (rev xs))\<rparr>"
  proof (rule snoc.IH)
    show "m_historyStack ?h = pre @ xs @ post" unfolding h by simp
  qed (rule snoc.prems(2))
  ultimately show ?case by (simp add: h)
qed simp

subsection \<open>Forms\<close>

definition uses :: "nat \<Rightarrow> hist_call list \<Rightarrow> int" where
  "uses fd cs = int (length (filter (\<lambda>c. c = SetUse True fd) cs)) - int (length (filter (\<lambda>c. c = SetUse False fd) cs))"

definition forms :: "nat \<Rightarrow> hist_entry list \<Rightarrow> int" where
  "forms fd es = int (length (filter (\<lambda>x. x = Some fd) (map m_formData es)))"

lemma uses_append [simp]: "uses fd (cs @ ds) = uses fd cs + uses fd ds" "uses fd [] = 0"
  by (simp_all add: uses_def)

lemma forms_append [simp]: "forms fd (xs @ ys) = forms fd xs + forms fd ys" "forms fd [] = 0"
  by (simp_all add: forms_def)

definition noUse :: "hist_call list \<Rightarrow> bool" where
  "noUse cs \<longleftrightarrow> (\<forall>b fd. SetUse b fd \<notin> set cs)"

lemma uses_none: "noUse cs \<Longrightarrow> uses fd cs = 0"
  by (induction cs) (auto simp: uses_def noUse_def)

lemma noUse_simps [simp]:
  "noUse []" "noUse (c # cs) \<longleftrightarrow> (\<forall>b fd. c \<noteq> SetUse b fd) \<and> noUse cs" "noUse (xs @ ys) \<longleftrightarrow> noUse xs \<and> noUse ys"
  by (auto simp: noUse_def)

lemma loadCalls_noUse [simp]: "loadCalls m e \<noteq> SetUse b fd"
  by (simp add: loadCalls_def split: option.split)

lemma uses_delete: "uses fd (deleteCalls e) = - forms fd [e]"
  by (auto simp: deleteCalls_def uses_def forms_def split: option.splits)

lemma uses_deletes: "uses fd (concat (map deleteCalls (rev es))) = - forms fd es"
  by (induction es) (simp_all add: uses_delete forms_def)

lemma init_uses:
  assumes "initWithUrlAndFormData io url req ct fdata = (e, cs)"
  shows "uses fd cs = (case e of None \<Rightarrow> 0 | Some e \<Rightarrow> forms fd [e])"
  using assms by (auto simp: initWithUrlAndFormData_def Let_def uses_def forms_def deleteCalls_def split: if_splits option.splits)

subsection \<open>The invariant\<close>

text \<open>The stack is bounded, the current index is in it or before it, and every form is held once per entry that has it.\<close>

definition hist_ok :: "history \<Rightarrow> bool" where
  "hist_ok h \<longleftrightarrow> length (m_historyStack h) \<le> KHistoryStackSize \<and> - 1 \<le> m_currentIndex h \<and> m_currentIndex h < historyLength h \<and>
     (\<forall>fd. uses fd (hCalls h) = forms fd (m_historyStack h))"

lemma hist_okI:
  assumes "hist_ok h" "map m_formData (m_historyStack h') = map m_formData (m_historyStack h)"
    "- 1 \<le> m_currentIndex h'" "m_currentIndex h' < historyLength h'" "\<And>fd. uses fd (hCalls h') = uses fd (hCalls h)"
  shows "hist_ok h'"
proof -
  have "length (m_historyStack h') = length (m_historyStack h)" using assms(2) map_eq_imp_length_eq by blast
  moreover have "forms fd (m_historyStack h') = forms fd (m_historyStack h)" for fd using assms(2) by (simp add: forms_def)
  ultimately show ?thesis using assms(1,3-5) by (simp add: hist_ok_def)
qed

text \<open>A change of an entry that keeps its URL and its form.\<close>

definition gentle :: "(hist_entry \<Rightarrow> hist_entry) \<Rightarrow> bool" where
  "gentle f \<longleftrightarrow> (\<forall>e. m_requestUrl (f e) = m_requestUrl e \<and> m_formData (f e) = m_formData e \<and> m_postContentType (f e) = m_postContentType e \<and>
     heId (f e) = heId e)"

lemma gentle_ops [simp]:
  "gentle (setPosition p)" "gentle (setZoomLevel z)" "gentle (setMinZoomLevel z)" "gentle (touch t)" "gentle (setPageTitle b s)"
  "gentle (storeThumbnail io)" "gentle (constructThumbnailL io)" "gentle deleteThumbnail"
  by (simp_all add: gentle_def setPosition_def setZoomLevel_def setMinZoomLevel_def touch_def setPageTitle_def storeThumbnail_def
      constructThumbnailL_def deleteThumbnail_def Let_def)

lemma onEntry_fields [simp]:
  "m_currentIndex (onEntry i f h) = m_currentIndex h" "m_historyLoadOffset (onEntry i f h) = m_historyLoadOffset h"
  "m_tempCurrentIndex (onEntry i f h) = m_tempCurrentIndex h" "m_historyView (onEntry i f h) = m_historyView h" "hCalls (onEntry i f h) = hCalls h"
  "historyLength (onEntry i f h) = historyLength h" "length (m_historyStack (onEntry i f h)) = length (m_historyStack h)"
  by (simp_all add: onEntry_def historyLength_def split: option.splits)

lemma map_update_same: "g (f (xs ! i)) = g (xs ! i) \<Longrightarrow> i < length xs \<Longrightarrow> map g (xs[i := f (xs ! i)]) = map g xs"
  by (simp add: map_update list_update_same_conv)

lemma onEntry_maps [simp]:
  assumes "gentle f"
  shows "map m_requestUrl (m_historyStack (onEntry i f h)) = map m_requestUrl (m_historyStack h)"
    "map m_formData (m_historyStack (onEntry i f h)) = map m_formData (m_historyStack h)"
    "map heId (m_historyStack (onEntry i f h)) = map heId (m_historyStack h)"
  using assms by (auto simp: onEntry_def entryByIndex_def historyLength_def gentle_def intro!: map_update_same split: option.splits if_splits)

lemma onEntry_ok: "gentle f \<Longrightarrow> hist_ok h \<Longrightarrow> hist_ok (onEntry i f h)"
  by (rule hist_okI [of h]) (auto simp: hist_ok_def)

lemma removeAt_ok:
  assumes "hist_ok h" "i < length (m_historyStack h)" "- 1 \<le> c" "c < historyLength h - 1"
  shows "hist_ok ((removeAt i h)\<lparr>m_currentIndex := c\<rparr>)"
proof -
  have s: "m_historyStack h = take i (m_historyStack h) @ [m_historyStack h ! i] @ drop (Suc i) (m_historyStack h)"
    using id_take_nth_drop [OF assms(2)] by simp
  have "forms fd (m_historyStack h) = forms fd (take i (m_historyStack h)) + forms fd [m_historyStack h ! i] + forms fd (drop (Suc i) (m_historyStack h))" for fd
    by (subst s) (simp only: forms_append)
  then show ?thesis using assms by (auto simp: hist_ok_def removeAt_def historyLength_def uses_delete)
qed

subsection \<open>Inserting and clearing\<close>

lemma update_position_maps [simp]:
  "map m_requestUrl (m_historyStack (updateCurrentEntryPositionIfNeeded io h)) = map m_requestUrl (m_historyStack h)"
  "map m_formData (m_historyStack (updateCurrentEntryPositionIfNeeded io h)) = map m_formData (m_historyStack h)"
  "m_currentIndex (updateCurrentEntryPositionIfNeeded io h) = m_currentIndex h"
  "m_historyLoadOffset (updateCurrentEntryPositionIfNeeded io h) = m_historyLoadOffset h"
  "m_historyView (updateCurrentEntryPositionIfNeeded io h) = m_historyView h"
  "hCalls (updateCurrentEntryPositionIfNeeded io h) = hCalls h"
  "historyLength (updateCurrentEntryPositionIfNeeded io h) = historyLength h"
  by (simp_all add: updateCurrentEntryPositionIfNeeded_def)

lemma update_position_ok: "hist_ok h \<Longrightarrow> hist_ok (updateCurrentEntryPositionIfNeeded io h)"
  by (simp add: updateCurrentEntryPositionIfNeeded_def onEntry_ok)

text \<open>What stays of the stack when a page is added: up to the current entry, without the oldest when full.\<close>

definition keptBefore :: "history \<Rightarrow> hist_entry list" where
  "keptBefore h = (let kept = take (nat (m_currentIndex h + 1)) (m_historyStack h)
     in if length kept \<ge> KHistoryStackSize then tl kept else kept)"

lemma histInsert_new:
  assumes ok: "hist_ok h" and off: "m_historyLoadOffset h = 0"
    and e: "initWithUrlAndFormData io url req ct fdata = (Some e, cs)"
  defines "h1 \<equiv> updateCurrentEntryPositionIfNeeded io h"
  defines "s \<equiv> (if hioAppend io then keptBefore h1 @ [e] else keptBefore h1)"
  shows "m_historyStack (histInsert io url req ct fdata h) = s \<and> m_currentIndex (histInsert io url req ct fdata h) = int (length s) - 1 \<and>
    m_historyLoadOffset (histInsert io url req ct fdata h) = 0 \<and> m_historyView (histInsert io url req ct fdata h) = m_historyView h \<and>
    (\<forall>fd. uses fd (hCalls (histInsert io url req ct fdata h)) = forms fd s)"
proof -
  have ok1: "hist_ok h1" unfolding h1_def by (rule update_position_ok [OF ok])
  let ?k = "nat (m_currentIndex h1 + 1)" and ?st = "m_historyStack h1"
  have k: "?k \<le> length ?st" using ok1 by (auto simp: hist_ok_def historyLength_def nat_le_iff)
  let ?h = "histCall cs h1"
  have st: "m_historyStack ?h = take ?k ?st @ drop ?k ?st @ []" "?k = length (take ?k ?st)" "length ?st = ?k + length (drop ?k ?st)"
    using k by simp_all
  define h2 where "h2 = ?h\<lparr>m_historyStack := take ?k ?st, hCalls := hCalls ?h @ concat (map deleteCalls (rev (drop ?k ?st)))\<rparr>"
  have h2: "fold removeAt (rev [?k..<length ?st]) ?h = h2"
    using fold_removeAt [OF st(1,2)] unfolding st(3) [symmetric] h2_def by simp
  have u: "forms fd ?st = forms fd (take ?k ?st) + forms fd (drop ?k ?st)" for fd by (metis append_take_drop_id forms_append(1))
  have u2: "uses fd (hCalls h2) = forms fd (take ?k ?st) + forms fd [e]" for fd
    using ok1 u [of fd] init_uses [OF e, of fd] by (simp add: h2_def uses_deletes hist_ok_def)
  have c: "m_currentIndex h2 = int (length (take ?k ?st)) - 1" using ok1 k by (auto simp: h2_def hist_ok_def)
  define h3 where "h3 = (if length (m_historyStack h2) \<ge> KHistoryStackSize then (removeAt 0 h2)\<lparr>m_currentIndex := m_currentIndex h2 - 1\<rparr> else h2)"
  have s3: "m_historyStack h3 = keptBefore h1" "m_historyLoadOffset h3 = 0" "m_historyView h3 = m_historyView h" and u3: "uses fd (hCalls h3) = forms fd (keptBefore h1) + forms fd [e]"
    and c3: "m_currentIndex h3 = int (length (keptBefore h1)) - 1" for fd
  proof -
    have full: "\<exists>x xs. take ?k ?st = x # xs" if "KHistoryStackSize \<le> length (take ?k ?st)"
      using that by (cases "take ?k ?st") (auto simp: KHistoryStackSize_def)
    have st2: "m_historyStack h2 = take ?k ?st" "m_historyLoadOffset h2 = 0" "m_historyView h2 = m_historyView h" using off by (simp_all add: h2_def h1_def)
    show "m_historyStack h3 = keptBefore h1" "m_historyLoadOffset h3 = 0" "m_historyView h3 = m_historyView h"
      using st2 by (auto simp: h3_def keptBefore_def Let_def removeAt_def drop_Suc)
    show "uses fd (hCalls h3) = forms fd (keptBefore h1) + forms fd [e]"
    proof (cases "KHistoryStackSize \<le> length (take ?k ?st)")
      case True
      then obtain x xs where x: "take ?k ?st = x # xs" using full by blast
      have "forms fd (x # xs) = forms fd [x] + forms fd xs" using forms_append(1) [of fd "[x]" xs] by simp
      then show ?thesis using True u2 [of fd] st2 x by (simp add: h3_def keptBefore_def Let_def removeAt_def uses_delete)
    next
      case False
      then have "h3 = h2" "keptBefore h1 = take ?k ?st" using st2(1) unfolding h3_def keptBefore_def Let_def by (simp_all only: if_False)
      then show ?thesis using u2 [of fd] by simp
    qed
    show "m_currentIndex h3 = int (length (keptBefore h1)) - 1"
    proof -
      have "int (length (tl T)) = int (length T) - 1" if "KHistoryStackSize \<le> length T" for T :: "hist_entry list"
        using that by (cases T) (auto simp: KHistoryStackSize_def)
      then show ?thesis using c st2 unfolding h3_def keptBefore_def Let_def by (simp del: length_take length_tl)
    qed
  qed
  let ?h4 = "if hioAppend io then h3\<lparr>m_historyStack := m_historyStack h3 @ [e], m_currentIndex := m_currentIndex h3 + 1\<rparr>
                 else histCall (deleteCalls e) h3"
  have "m_historyLoadOffset h1 = 0" using off by (simp add: h1_def)
  then have r: "histInsert io url req ct fdata h = ?h4\<lparr>m_tempCurrentIndex := m_currentIndex ?h4\<rparr>"
    unfolding histInsert_def Let_def h1_def [symmetric] e prod.case option.case h2 h3_def [symmetric] by simp
  show ?thesis using s3 u3 c3 unfolding r by (simp add: s_def uses_delete)
qed

lemma keptBefore_length: "hist_ok h \<Longrightarrow> length (keptBefore h) < KHistoryStackSize"
  by (auto simp: keptBefore_def hist_ok_def Let_def KHistoryStackSize_def)

lemma histInsert_ok:
  assumes ok: "hist_ok h"
  shows "hist_ok (histInsert io url req ct fdata h)"
proof (cases "m_historyLoadOffset h = 0")
  case False
  let ?h1 = "updateCurrentEntryPositionIfNeeded io h"
  have "hist_ok (?h1\<lparr>m_historyLoadOffset := 0, m_tempCurrentIndex := m_currentIndex ?h1\<rparr>)"
    by (rule hist_okI [OF update_position_ok [OF ok, of io]]) (use ok in \<open>auto simp: hist_ok_def historyLength_def updateCurrentEntryPositionIfNeeded_def\<close>)
  then show ?thesis using False by (simp add: histInsert_def Let_def)
next
  case True
  obtain e cs where i: "initWithUrlAndFormData io url req ct fdata = (e, cs)" by fastforce
  show ?thesis
  proof (cases e)
    case None
    let ?h1 = "updateCurrentEntryPositionIfNeeded io h"
    have "hist_ok (histCall cs ?h1)"
      by (rule hist_okI [OF update_position_ok [OF ok, of io]])
        (use update_position_ok [OF ok, of io] init_uses [OF i] None in \<open>auto simp: hist_ok_def\<close>)
    then show ?thesis using True i None by (simp add: histInsert_def Let_def)
  next
    case (Some e')
    note n = histInsert_new [OF ok True i [unfolded Some]]
    have "length (keptBefore (updateCurrentEntryPositionIfNeeded io h)) < KHistoryStackSize"
      by (rule keptBefore_length [OF update_position_ok [OF ok]])
    then show ?thesis using n by (auto simp: hist_ok_def historyLength_def)
  qed
qed

lemma clearHistoryList_eq:
  assumes ok: "hist_ok h" and c: "m_currentIndex h = int i" "i < length (m_historyStack h)"
  shows "clearHistoryList h = h\<lparr>m_historyStack := [m_historyStack h ! i],
     hCalls := (hCalls h @ concat (map deleteCalls (rev (drop (Suc i) (m_historyStack h))))) @ concat (map deleteCalls (rev (take i (m_historyStack h)))),
     m_currentIndex := 0, m_tempCurrentIndex := 0, m_historyLoadOffset := 0\<rparr>"
proof -
  let ?s = "m_historyStack h"
  have s: "?s = take (Suc i) ?s @ drop (Suc i) ?s @ []" "Suc i = length (take (Suc i) ?s)" using c(2) by simp_all
  have s2: "?s = take i ?s @ [?s ! i] @ drop (Suc i) ?s" using id_take_nth_drop [OF c(2)] by simp
  have n: "length ?s = Suc i + length (drop (Suc i) ?s)" using c(2) by simp
  have "[0..<length ?s] = [0..<i] @ [i] @ [Suc i..<length ?s]"
    using c(2) upt_add_eq_append [of 0 i "length ?s - i"] by (simp add: upt_conv_Cons)
  then have f: "filter (\<lambda>j. int j \<noteq> m_currentIndex h) (rev [0..<length ?s]) = rev [Suc i..<length ?s] @ rev [0..<0 + length (take i ?s)]"
    using c by (auto simp: filter_id_conv)
  let ?h1 = "h\<lparr>m_historyStack := take (Suc i) ?s, hCalls := hCalls h @ concat (map deleteCalls (rev (drop (Suc i) ?s)))\<rparr>"
  have 1: "fold removeAt (rev [Suc i..<length ?s]) h = ?h1"
    using fold_removeAt [OF s] unfolding n [symmetric] by simp
  have s3: "m_historyStack ?h1 = [] @ take i ?s @ [?s ! i]" using c(2) by (simp add: take_Suc_conv_app_nth)
  have 2: "fold removeAt (rev [0..<0 + length (take i ?s)]) ?h1 =
      ?h1\<lparr>m_historyStack := [] @ [?s ! i], hCalls := hCalls ?h1 @ concat (map deleteCalls (rev (take i ?s)))\<rparr>"
    by (rule fold_removeAt [OF s3]) simp
  show ?thesis unfolding clearHistoryList_def f fold_append comp_apply 1 2 using c(1) by (simp add: Let_def)
qed

lemma clearHistoryList_none:
  assumes "m_currentIndex h = - 1"
  shows "clearHistoryList h = h\<lparr>m_historyStack := [], hCalls := hCalls h @ concat (map deleteCalls (rev (m_historyStack h))),
     m_currentIndex := - 1, m_tempCurrentIndex := - 1, m_historyLoadOffset := 0\<rparr>"
proof -
  have f: "filter (\<lambda>j. int j \<noteq> m_currentIndex h) (rev [0..<length (m_historyStack h)]) = rev [0..<0 + length (m_historyStack h)]"
    using assms by (simp add: filter_id_conv)
  have "fold removeAt (rev [0..<0 + length (m_historyStack h)]) h =
      h\<lparr>m_historyStack := [] @ [], hCalls := hCalls h @ concat (map deleteCalls (rev (m_historyStack h)))\<rparr>"
    by (rule fold_removeAt) simp_all
  then show ?thesis unfolding clearHistoryList_def f using assms by (simp add: Let_def)
qed

lemma clearHistoryList_ok:
  assumes ok: "hist_ok h"
  shows "hist_ok (clearHistoryList h)"
proof (cases "m_currentIndex h = - 1")
  case True
  then show ?thesis using ok by (auto simp: clearHistoryList_none hist_ok_def historyLength_def uses_deletes)
next
  case False
  define i where "i = nat (m_currentIndex h)"
  have i: "m_currentIndex h = int i" "i < length (m_historyStack h)" using ok False by (auto simp: i_def hist_ok_def historyLength_def)
  let ?s = "m_historyStack h"
  have "forms fd ?s = forms fd (take i ?s) + forms fd [?s ! i] + forms fd (drop (Suc i) ?s)" for fd
    by (subst id_take_nth_drop [OF i(2)]) (metis append_Cons append_Nil add.assoc forms_append(1))
  then show ?thesis using ok by (auto simp: clearHistoryList_eq [OF ok i] hist_ok_def historyLength_def uses_deletes KHistoryStackSize_def)
qed

subsection \<open>The trail\<close>

text \<open>
  The abstract history: the URLs behind, nearest first, the one here, and those ahead. A visit goes
  on from here, forgets what was ahead and, beyond the limit, what is farthest behind.
\<close>

datatype trail = Trail (behind: "tdes8 list") (here: "tdes8 option") (ahead: "tdes8 list")

definition trailAt :: "tdes8 list \<Rightarrow> int \<Rightarrow> trail" where
  "trailAt us c = Trail (rev (take (nat c) us)) (if 0 \<le> c \<and> c < int (length us) then Some (us ! nat c) else None) (drop (nat (c + 1)) us)"

definition trailOf :: "history \<Rightarrow> trail" where
  "trailOf h = trailAt (map m_requestUrl (m_historyStack h)) (m_currentIndex h)"

definition visit :: "tdes8 \<Rightarrow> trail \<Rightarrow> trail" where
  "visit u t = Trail (take (KHistoryStackSize - 1) (case here t of Some x \<Rightarrow> x # behind t | None \<Rightarrow> behind t)) (Some u) []"

fun goBack :: "trail \<Rightarrow> trail" where
  "goBack (Trail (x # b) (Some y) a) = Trail b (Some x) (y # a)"
| "goBack t = t"

fun goForward :: "trail \<Rightarrow> trail" where
  "goForward (Trail b (Some y) (x # a)) = Trail (y # b) (Some x) a"
| "goForward t = t"

definition go :: "int \<Rightarrow> trail \<Rightarrow> trail" where
  "go d t = (if d < 0 then (goBack ^^ nat (- d)) t else (goForward ^^ nat d) t)"

lemma trailAt_nth:
  assumes "c < length us"
  shows "trailAt us (int c) = Trail (rev (take c us)) (Some (us ! c)) (drop (Suc c) us)"
  using assms by (simp add: trailAt_def nat_add_distrib)

lemma goBack_trailAt:
  assumes "Suc c < length us"
  shows "goBack (trailAt us (int (Suc c))) = trailAt us (int c)"
proof -
  have "drop (Suc c) us = us ! Suc c # drop (Suc (Suc c)) us" using assms by (simp add: Cons_nth_drop_Suc)
  then show ?thesis using assms by (simp add: trailAt_nth take_Suc_conv_app_nth del: of_nat_Suc)
qed

lemma goForward_trailAt:
  assumes "Suc c < length us"
  shows "goForward (trailAt us (int c)) = trailAt us (int (Suc c))"
proof -
  have "drop (Suc c) us = us ! Suc c # drop (Suc (Suc c)) us" using assms by (simp add: Cons_nth_drop_Suc)
  then show ?thesis using assms by (simp add: trailAt_nth take_Suc_conv_app_nth del: of_nat_Suc)
qed

lemma goBack_steps: "c + n < length us \<Longrightarrow> (goBack ^^ n) (trailAt us (int (c + n))) = trailAt us (int c)"
proof (induction n)
  case (Suc n)
  have "(goBack ^^ Suc n) (trailAt us (int (c + Suc n))) = (goBack ^^ n) (goBack (trailAt us (int (Suc (c + n)))))"
    by (simp add: funpow_swap1)
  then show ?case using Suc goBack_trailAt [of "c + n" us] by simp
qed simp

lemma goForward_steps: "c + n < length us \<Longrightarrow> (goForward ^^ n) (trailAt us (int c)) = trailAt us (int (c + n))"
proof (induction n)
  case (Suc n)
  then show ?case using goForward_trailAt [of "c + n" us] by simp
qed simp

lemma go_trailAt:
  assumes "0 \<le> c" "c < int (length us)" "0 \<le> c + d" "c + d < int (length us)"
  shows "go d (trailAt us c) = trailAt us (c + d)"
proof (cases "d < 0")
  case True
  then have "c = int (nat (c + d) + nat (- d))" "nat (c + d) + nat (- d) < length us" using assms by auto
  then show ?thesis using True goBack_steps [of "nat (c + d)" "nat (- d)" us] assms(3) by (simp add: go_def)
next
  case False
  then have "c + d = int (nat c + nat d)" "nat c + nat d < length us" using assms by auto
  then show ?thesis using False goForward_steps [of "nat c" "nat d" us] assms(1) by (simp add: go_def)
qed

lemma trailAt_visit:
  assumes "- 1 \<le> c" "c < int (length us)" "length us \<le> KHistoryStackSize"
  defines "k \<equiv> (let k = take (nat (c + 1)) us in if length k \<ge> KHistoryStackSize then tl k else k)"
  shows "trailAt (k @ [u]) (int (length k)) = visit u (trailAt us c)"
proof (cases "c = - 1")
  case True
  then show ?thesis by (simp add: trailAt_def visit_def k_def KHistoryStackSize_def)
next
  case False
  define i where "i = nat c"
  have i: "c = int i" "i < length us" using assms(1,2) False by (auto simp: i_def)
  have t: "take (nat (c + 1)) us = take i us @ [us ! i]" using i by (simp add: nat_add_distrib take_Suc_conv_app_nth)
  have l: "length (take i us @ [us ! i]) = Suc i" using i(2) by simp
  have b: "us ! i # rev (take i us) = rev (take i us @ [us ! i])" by simp
  have r: "rev k = take (KHistoryStackSize - 1) (rev (take i us @ [us ! i]))"
  proof (cases "KHistoryStackSize \<le> Suc i")
    case True
    then have n: "Suc i = KHistoryStackSize" using i(2) assms(3) by simp
    obtain x xs where x: "take i us @ [us ! i] = x # xs" by (cases "take i us @ [us ! i]") auto
    then have "length xs = KHistoryStackSize - 1" using l n by (metis diff_Suc_1 length_Cons)
    then show ?thesis using True l x by (simp add: k_def t)
  next
    case False
    then show ?thesis using l by (simp add: k_def t)
  qed
  have "visit u (trailAt us c) = Trail (take (KHistoryStackSize - 1) (us ! i # rev (take i us))) (Some u) []"
    using i by (simp add: visit_def trailAt_nth)
  then show ?thesis unfolding b r [symmetric] using trailAt_nth [of "length k" "k @ [u]"] by simp
qed

lemma trailOf_insert:
  assumes ok: "hist_ok h" and off: "m_historyLoadOffset h = 0" and e: "initWithUrlAndFormData io url req ct fdata = (Some e, cs)"
    and a: "hioAppend io" and u: "m_requestUrl e = req"
  shows "trailOf (histInsert io url req ct fdata h) = visit req (trailOf h)"
proof -
  let ?h1 = "updateCurrentEntryPositionIfNeeded io h"
  let ?us = "map m_requestUrl (m_historyStack h)"
  note n = histInsert_new [OF ok off e]
  have m: "map m_requestUrl (m_historyStack ?h1) = ?us" "m_currentIndex ?h1 = m_currentIndex h" by simp_all
  have k: "map m_requestUrl (keptBefore ?h1) = (let k = take (nat (m_currentIndex h + 1)) ?us in if length k \<ge> KHistoryStackSize then tl k else k)"
    unfolding keptBefore_def Let_def m(1) [symmetric] m(2) take_map map_tl [symmetric] by (simp add: map_tl)
  have b: "- 1 \<le> m_currentIndex h" "m_currentIndex h < int (length ?us)" "length ?us \<le> KHistoryStackSize"
    using ok by (simp_all add: hist_ok_def historyLength_def)
  show ?thesis
    using n a u trailAt_visit [OF b, of req] unfolding k [symmetric] by (simp add: trailOf_def)
qed

lemma init_Some:
  assumes "hioNewEntry io" "hioRequestUrl io" "hioTitle io" "hioPostType io"
  shows "\<exists>e cs. initWithUrlAndFormData io url req ct fdata = (Some e, cs) \<and> m_requestUrl e = req"
  using assms by (auto simp: initWithUrlAndFormData_def Let_def)

text \<open>Nothing that the history asks the platform for fails.\<close>

definition quietHist :: "hist_io \<Rightarrow> bool" where
  "quietHist io \<longleftrightarrow> hioNewEntry io \<and> hioRequestUrl io \<and> hioTitle io \<and> hioPostType io \<and> hioAppend io"

lemma add32_mod: "add32 a b = (a + b + 2 ^ 31) mod 2 ^ 32 - 2 ^ 31"
  unfolding add32_def sint_sbintrunc' by (simp add: signed_take_bit_eq_take_bit_shift take_bit_eq_mod)

lemma add32_small: "- (2 ^ 31) \<le> a + b \<Longrightarrow> a + b < 2 ^ 31 \<Longrightarrow> add32 a b = a + b"
  by (simp add: add32_mod)

lemma add32_big: "2 ^ 31 \<le> a + b \<Longrightarrow> a + b < 2 ^ 31 + 2 ^ 31 \<Longrightarrow> add32 a b = a + b - 2 ^ 32"
  unfolding add32_mod by (subst mod_pos_neg_trivial minus_mod_self2 [symmetric], simp_all)

lemma add32_less: "- (2 ^ 31) - 2 ^ 31 \<le> a + b \<Longrightarrow> a + b < - (2 ^ 31) \<Longrightarrow> add32 a b = a + b + 2 ^ 32"
  unfolding add32_mod by (subst mod_add_self2 [symmetric], simp)

text \<open>For a distance that fits an integer the wrap-around cannot reach an entry.\<close>

lemma add32_in_stack:
  assumes ok: "hist_ok h" and d: "- (2 ^ 31) \<le> d" "d < 2 ^ 31"
  shows "(0 \<le> add32 (m_currentIndex h) d \<and> add32 (m_currentIndex h) d < historyLength h) \<longleftrightarrow>
    (0 \<le> m_currentIndex h + d \<and> m_currentIndex h + d < historyLength h)" and
    "0 \<le> m_currentIndex h + d \<Longrightarrow> m_currentIndex h + d < historyLength h \<Longrightarrow> add32 (m_currentIndex h) d = m_currentIndex h + d"
proof -
  have b: "- 1 \<le> m_currentIndex h" "m_currentIndex h < 20" "historyLength h \<le> 20" using ok by (auto simp: hist_ok_def historyLength_def KHistoryStackSize_def)
  show eq: "add32 (m_currentIndex h) d = m_currentIndex h + d" if "0 \<le> m_currentIndex h + d" "m_currentIndex h + d < historyLength h"
    by (rule add32_small) (use that b in auto)
  show "(0 \<le> add32 (m_currentIndex h) d \<and> add32 (m_currentIndex h) d < historyLength h) \<longleftrightarrow>
    (0 \<le> m_currentIndex h + d \<and> m_currentIndex h + d < historyLength h)"
  proof (cases "- (2 ^ 31) \<le> m_currentIndex h + d \<and> m_currentIndex h + d < 2 ^ 31")
    case True
    then show ?thesis using add32_small by simp
  next
    case False
    then consider "2 ^ 31 \<le> m_currentIndex h + d" | "m_currentIndex h + d < - (2 ^ 31)" by linarith
    then show ?thesis
    proof cases
      case 1
      then have "add32 (m_currentIndex h) d = m_currentIndex h + d - 2 ^ 32" by (rule add32_big) (use b d in simp)
      then show ?thesis using 1 b d by auto
    next
      case 2
      have "add32 (m_currentIndex h) d = m_currentIndex h + d + 2 ^ 32" by (rule add32_less [OF _ 2]) (use b d in simp)
      then show ?thesis using 2 b d by auto
    qed
  qed
qed

subsection \<open>Every operation keeps the invariant\<close>

lemma hist_ok_upd [simp]:
  "hist_ok (h\<lparr>m_historyView := v\<rparr>) = hist_ok h" "hist_ok (h\<lparr>m_historyLoadOffset := n\<rparr>) = hist_ok h"
  "hist_ok (h\<lparr>m_tempCurrentIndex := n\<rparr>) = hist_ok h" "hist_ok (h\<lparr>m_possibleWmlOEB := b\<rparr>) = hist_ok h"
  by (simp_all add: hist_ok_def historyLength_def)

lemma hist_ok_call: "noUse cs \<Longrightarrow> hist_ok (histCall cs h) = hist_ok h"
  by (simp add: hist_ok_def uses_none)

lemma hist_ok_current: "hist_ok h \<Longrightarrow> - 1 \<le> c \<Longrightarrow> c < historyLength h \<Longrightarrow> hist_ok (h\<lparr>m_currentIndex := c\<rparr>)"
  by (simp add: hist_ok_def historyLength_def)

lemma entryByIndex_range: "entryByIndex i h = Some e \<Longrightarrow> 0 \<le> i \<and> i < historyLength h"
  by (simp add: entryByIndex_def split: if_splits)

lemma setCurrentIndex_ok [inv_intros]: "hist_ok h \<Longrightarrow> hist_ok (setCurrentIndex i h)"
  by (simp add: setCurrentIndex_def hist_ok_current)

lemma goBackOrForward_ok [inv_intros]: "hist_ok h \<Longrightarrow> hist_ok (goBackOrForward d h)"
proof (cases "entryByIndex (add32 (m_currentIndex h) d) h")
  case (Some e)
  assume ok: "hist_ok h"
  have "hist_ok (h\<lparr>m_currentIndex := add32 (m_currentIndex h) d\<rparr>)"
    by (rule hist_ok_current [OF ok]) (use entryByIndex_range [OF Some] in simp_all)
  then have "hist_ok (h\<lparr>m_tempCurrentIndex := m_currentIndex h, m_currentIndex := add32 (m_currentIndex h) d, m_historyLoadOffset := d\<rparr>)"
    by (simp add: hist_ok_def historyLength_def)
  then show ?thesis using Some by (simp add: goBackOrForward_def hist_ok_call)
qed (simp add: goBackOrForward_def)

lemma loadHistoryUrl_ok [inv_intros]:
  assumes ok: "hist_ok h" and off: "direction = EHistoryStackDirectionPrevious \<and> n = - 1 \<or> direction = EHistoryStackDirectionNext \<and> n = 1 \<or>
    direction = EHistoryStackDirectionCurrent"
  shows "hist_ok (loadHistoryUrl direction mode n h)"
proof (cases "histEntry direction h")
  case (Some e)
  have r: "0 \<le> histIndex direction h \<and> histIndex direction h < historyLength h" using entryByIndex_range Some by (simp add: histEntry_def)
  have "hist_ok (h\<lparr>m_historyLoadOffset := n, m_currentIndex := m_currentIndex h + n\<rparr>)" if "direction \<noteq> EHistoryStackDirectionCurrent"
    using ok off r that by (auto simp: hist_ok_def historyLength_def)
  then show ?thesis using Some ok by (simp add: loadHistoryUrl_def Let_def hist_ok_call)
qed (use ok in \<open>simp add: loadHistoryUrl_def\<close>)

lemma showHistoryListL_ok [inv_intros]:
  assumes ok: "hist_ok h"
  shows "hist_ok (showHistoryListL io h)"
proof (cases "hioDialog io")
  case (Some k)
  let ?i = "min k (length (m_historyStack h))"
  have "hist_ok (h\<lparr>m_tempCurrentIndex := m_currentIndex h, m_currentIndex := historyLength h - int ?i - 1, m_historyLoadOffset := int ?i\<rparr>)"
    using ok by (auto simp: hist_ok_def historyLength_def)
  then show ?thesis using Some by (auto simp: showHistoryListL_def Let_def intro: loadHistoryUrl_ok)
qed (use ok in \<open>simp add: showHistoryListL_def\<close>)

lemma deleteEntry_ok [inv_intros]:
  assumes ok: "hist_ok h"
  shows "hist_ok (deleteEntry i h)"
proof (cases "0 \<le> i \<and> i < historyLength h")
  case True
  let ?c = "if i \<le> m_currentIndex h \<and> m_currentIndex h \<ge> 0 then m_currentIndex h - 1 else m_currentIndex h"
  have "hist_ok ((removeAt (nat i) h)\<lparr>m_currentIndex := ?c\<rparr>)"
    by (rule removeAt_ok [OF ok]) (use True ok in \<open>auto simp: hist_ok_def historyLength_def\<close>)
  moreover have "deleteEntry i h = (removeAt (nat i) h)\<lparr>m_currentIndex := ?c\<rparr>"
    by (rule history.equality) (use True in \<open>simp_all add: deleteEntry_def Let_def removeAt_def\<close>)
  ultimately show ?thesis by simp
qed (use ok in \<open>auto simp: deleteEntry_def\<close>)

lemma viewDisplay_ok [inv_intros]: "hist_ok h \<Longrightarrow> hist_ok (viewDisplay io v h)"
  by (simp add: viewDisplay_def Let_def onEntry_ok)

lemma viewUpdateState_ok [inv_intros]: "hist_ok h \<Longrightarrow> hist_ok (viewUpdateState dir v h)"
  by (simp add: viewUpdateState_def Let_def hist_ok_call)

lemma viewTransition_ok [inv_intros]: "hist_ok h \<Longrightarrow> hist_ok (viewTransition dir v h)"
  by (simp add: viewTransition_def Let_def viewUpdateState_ok)

lemma stopTimer_ok [simp]: "hist_ok (stopTimer h) = hist_ok h"
  by (simp add: stopTimer_def)

lemma animate_ok:
  assumes ok: "hist_ok h"
  shows "hist_ok (snd (animatePlaceHolderPosition io v h))"
  unfolding animatePlaceHolderPosition_def Let_def
  by (simp add: hist_ok_call viewDisplay_ok onEntry_ok ok)

lemma timerTick_ok [inv_intros]:
  assumes ok: "hist_ok h"
  shows "hist_ok (timerTick io h)"
proof -
  have "hist_ok (histCall [DrawNow] (h\<lparr>m_historyView := v\<rparr>))" for v using ok by (simp add: hist_ok_call)
  then show ?thesis using ok animate_ok [OF ok] by (simp add: timerTick_def split_def Let_def split: option.split hist_timer.split)
qed

lemma viewLoadUrl_ok [inv_intros]: "hist_ok h \<Longrightarrow> hist_ok (viewLoadUrl io v h)"
  by (auto simp: viewLoadUrl_def loadCalls_def Let_def hist_ok_call setCurrentIndex_ok split: option.split)

lemma closeHistoryView_ok [inv_intros]: "closeHistoryView h = Some h' \<Longrightarrow> hist_ok h \<Longrightarrow> hist_ok h'"
proof -
  assume c: "closeHistoryView h = Some h'" and ok: "hist_ok h"
  have m: "map m_formData (map deleteThumbnail es) = map m_formData es" for es by (simp add: deleteThumbnail_def)
  have "noUse [MakeVisible True, DrawNow, StateChanged False, DeferTimers False]" by simp
  note u = uses_none [OF this]
  show ?thesis
    by (rule hist_okI [OF ok]) (use c ok m u in \<open>auto simp: closeHistoryView_def hist_ok_def historyLength_def split: bind_splits\<close>)
qed

lemma viewEnter_ok [inv_intros]:
  assumes e: "viewEnter io v h = Some h'" and ok: "hist_ok h"
  shows "hist_ok h'"
proof -
  from e obtain h1 where h1: "closeHistoryView h1 = Some h'" "hist_ok h1"
    using ok by (auto simp: viewEnter_def Let_def hist_ok_call viewLoadUrl_ok split: if_splits)
  then show ?thesis by (rule closeHistoryView_ok)
qed

lemma OfferKeyEventL_ok [inv_intros]: "OfferKeyEventL io key r h = Some (b, h') \<Longrightarrow> hist_ok h \<Longrightarrow> hist_ok h'"
  by (cases key) (auto simp: OfferKeyEventL_def Let_def split: bind_splits if_splits dest: viewEnter_ok)

lemma performTransition_ok [inv_intros]: "performTransition dir h = Some h' \<Longrightarrow> hist_ok h \<Longrightarrow> hist_ok h'"
  by (auto simp: performTransition_def viewTransition_ok)

lemma autoScroll_ok [inv_intros]: "autoScroll h = Some h' \<Longrightarrow> hist_ok h \<Longrightarrow> hist_ok h'"
  by (auto simp: autoScroll_def viewTransition_ok split: bind_splits if_splits)

lemma pointerUp_noUse: "noUse (snd (pointerUp v p h))"
  by (simp add: pointerUp_def split: hist_component.split)

lemma HandlePointerEventL_ok [inv_intros]: "HandlePointerEventL t p h = Some h' \<Longrightarrow> hist_ok h \<Longrightarrow> hist_ok h'"
  by (cases t) (auto simp: HandlePointerEventL_def Let_def split_def hist_ok_call pointerUp_noUse viewTransition_ok split: bind_splits if_splits)

lemma showHistoryViewL_ok [inv_intros]:
  assumes ok: "hist_ok h"
  shows "hist_ok (snd (showHistoryViewL io previous h))"
proof -
  have "hist_ok (updateHistoryEntryThumbnailL io h)" using ok by (simp add: updateHistoryEntryThumbnailL_def onEntry_ok)
  then show ?thesis using ok
    by (simp add: showHistoryViewL_def Let_def hist_ok_call viewUpdateState_ok viewDisplay_ok split: option.split)
qed

lemma handleHistoryCommandL_ok [inv_intros]:
  assumes c: "handleHistoryCommandL io cmd h = Some (err, h')" and ok: "hist_ok h"
  shows "hist_ok h'"
proof -
  let ?h = "h\<lparr>m_tempCurrentIndex := m_currentIndex h\<rparr>"
  have ok1: "hist_ok ?h" using ok by simp
  show ?thesis
    using c ok1 showHistoryViewL_ok [OF ok1, of io True] showHistoryViewL_ok [OF ok1, of io False] clearHistoryList_ok [OF ok1]
    by (cases cmd) (auto simp: handleHistoryCommandL_def Let_def loadHistoryUrl_ok showHistoryListL_ok split: if_splits dest: closeHistoryView_ok)
qed

text \<open>One call of the history, by its client, by the view or by the timer.\<close>

inductive hist_step :: "history \<Rightarrow> history \<Rightarrow> bool" where
  inserted: "hist_step h (histInsert io url req ct fd h)"
| commanded: "handleHistoryCommandL io cmd h = Some (err, h') \<Longrightarrow> hist_step h h'"
| jumped: "hist_step h (goBackOrForward d h)"
| deleted: "hist_step h (deleteEntry i h)"
| cleared: "hist_step h (clearHistoryList h)"
| set_current: "hist_step h (setCurrentL dir h)"
| changed: "gentle f \<Longrightarrow> hist_step h (onEntry i f h)"
| closed: "closeHistoryView h = Some h' \<Longrightarrow> hist_step h h'"
| key: "OfferKeyEventL io k r h = Some (b, h') \<Longrightarrow> hist_step h h'"
| pointer: "HandlePointerEventL t p h = Some h' \<Longrightarrow> hist_step h h'"
| transition: "performTransition dir h = Some h' \<Longrightarrow> hist_step h h'"
| scroll: "autoScroll h = Some h' \<Longrightarrow> hist_step h h'"
| tick: "hist_step h (timerTick io h)"

inductive_cases hist_stepE: "hist_step h h'"

lemma hist_step_ok: "hist_step h h' \<Longrightarrow> hist_ok h \<Longrightarrow> hist_ok h'"
  by (induction rule: hist_step.induct)
    (auto intro: histInsert_ok inv_intros clearHistoryList_ok onEntry_ok simp: setCurrentL_def)

inductive hist_reachable :: "history \<Rightarrow> bool" where
  created: "hist_reachable (initWithCallback allowed backList)"
| more: "hist_reachable h \<Longrightarrow> hist_step h h' \<Longrightarrow> hist_reachable h'"

lemma hist_reachable_ok: "hist_reachable h \<Longrightarrow> hist_ok h"
proof (induction rule: hist_reachable.induct)
  case (created allowed backList)
  show ?case by (simp add: initWithCallback_def hist_ok_def historyLength_def)
qed (rule hist_step_ok)

text \<open>
  C25: In every state that the history can reach there are at most twenty entries, the current
  index is that of an entry or lies just before the first, and every posted form has been
  taken into use, and not given up again, exactly once for each entry that holds it.
\<close>

theorem history_invariant:
  assumes "hist_reachable h"
  shows "length (m_historyStack h) \<le> 20 \<and> - 1 \<le> m_currentIndex h \<and> m_currentIndex h < historyLength h \<and>
    (\<forall>fd. uses fd (hCalls h) = forms fd (m_historyStack h))"
  using hist_reachable_ok [OF assms] by (simp add: hist_ok_def KHistoryStackSize_def)

definition demo_io :: hist_io where
  "demo_io = \<lparr>hioNewEntry = True, hioRequestUrl = True, hioResponseUrl = True, hioTitle = True, hioPostType = True, hioAppend = True,
     hioId = 1, hioPosition = (0, 0), hioZoom = 0, hioMinZoom = 0, hioWml = False, hioNow = 0, hioScaledPage = False, hioThumbBuf = True,
     hioThumbWrite = True, hioThumbNew = True, hioView = KErrNone, hioDialog = None, hioPost = KErrNone, hioSize = (240, 320)\<rparr>"

theorem history_invariant_witness:
  "\<exists>h. hist_reachable h \<and> length (m_historyStack h) = 1 \<and> uses 7 (hCalls h) = 1 \<and> forms 7 (m_historyStack h) = 1"
proof -
  let ?h = "histInsert demo_io [1] [1] [65] (Some 7) (initWithCallback True True)"
  have r: "hist_reachable ?h" by (rule hist_reachable.more [OF hist_reachable.created hist_step.inserted])
  have "length (m_historyStack ?h) = 1" "forms 7 (m_historyStack ?h) = 1"
    by (simp_all add: histInsert_def initWithCallback_def updateCurrentEntryPositionIfNeeded_def demo_io_def onEntry_def entryByIndex_def
        historyLength_def initWithUrlAndFormData_def Let_def KHistoryStackSize_def forms_def titleOffset_def lit8_def)
  then show ?thesis using history_invariant [OF r] r by (intro exI [of _ ?h]) simp
qed

text \<open>
  C8: The history is a bounded trail of pages. A page that loads when no step is under way is a visit:
  it follows the page that was here, what was ahead is forgotten, and so is what lies more than
  nineteen pages behind. A step by a distance that \<open>canGoBackOrForward\<close> allows asks for the page that many
  places away, and when that has loaded the trail is the old one, seen from there; any other
  distance changes nothing.
\<close>

theorem history_refines_trail:
  assumes ok: "hist_ok h" and off: "m_historyLoadOffset h = 0" and c: "0 \<le> m_currentIndex h" and d: "- (2 ^ 31) \<le> d" "d < 2 ^ 31" "d \<noteq> 0"
    and io: "quietHist io"
  shows "trailOf (histInsert io url req ct fd h) = visit req (trailOf h) \<and>
    (if canGoBackOrForward d h
     then (\<exists>u. here (go d (trailOf h)) = Some u \<and> hCalls (goBackOrForward d h) = hCalls h @ [DoHistoryGet u ECacheModeHistory] \<and>
       trailOf (histInsert io url u ct fd (goBackOrForward d h)) = go d (trailOf h))
     else goBackOrForward d h = h) \<and>
    (canGoBackOrForward d h \<longleftrightarrow> 0 \<le> m_currentIndex h + d \<and> m_currentIndex h + d < historyLength h)"
proof (intro conjI)
  obtain e cs where e: "initWithUrlAndFormData io url req ct fd = (Some e, cs)" "m_requestUrl e = req"
    using init_Some [of io url req ct fd] io by (auto simp: quietHist_def)
  show "trailOf (histInsert io url req ct fd h) = visit req (trailOf h)"
    by (rule trailOf_insert [OF ok off e(1) _ e(2)]) (use io in \<open>simp add: quietHist_def\<close>)
  let ?us = "map m_requestUrl (m_historyStack h)" and ?x = "m_currentIndex h + d"
  show can: "canGoBackOrForward d h \<longleftrightarrow> 0 \<le> ?x \<and> ?x < historyLength h"
    using add32_in_stack(1) [OF ok d(1,2)] by (simp add: canGoBackOrForward_def Let_def)
  show "if canGoBackOrForward d h
     then (\<exists>u. here (go d (trailOf h)) = Some u \<and> hCalls (goBackOrForward d h) = hCalls h @ [DoHistoryGet u ECacheModeHistory] \<and>
       trailOf (histInsert io url u ct fd (goBackOrForward d h)) = go d (trailOf h))
     else goBackOrForward d h = h"
  proof (cases "canGoBackOrForward d h")
    case True
    then have x: "0 \<le> ?x" "?x < historyLength h" using can by simp_all
    have a: "add32 (m_currentIndex h) d = ?x" by (rule add32_in_stack(2) [OF ok d(1,2) x])
    let ?e = "m_historyStack h ! nat ?x"
    have g: "goBackOrForward d h = histCall [DoHistoryGet (m_requestUrl ?e) ECacheModeHistory]
        (h\<lparr>m_tempCurrentIndex := m_currentIndex h, m_currentIndex := ?x, m_historyLoadOffset := d\<rparr>)"
      using x by (simp add: goBackOrForward_def a entryByIndex_def)
    have t: "go d (trailOf h) = trailAt ?us ?x"
      unfolding trailOf_def by (rule go_trailAt) (use ok c x in \<open>simp_all add: hist_ok_def historyLength_def\<close>)
    have u: "here (trailAt ?us ?x) = Some (m_requestUrl ?e)" using x by (simp add: trailAt_def historyLength_def)
    have "trailOf (histInsert io url v ct fd (goBackOrForward d h)) = trailAt ?us ?x" for v
      using d(3) by (simp add: g histInsert_def Let_def trailOf_def updateCurrentEntryPositionIfNeeded_def)
    then show ?thesis using True t u g by simp
  next
    case False
    then have "entryByIndex (add32 (m_currentIndex h) d) h = None"
      by (auto simp: canGoBackOrForward_def Let_def entryByIndex_def)
    then show ?thesis using False by (simp add: goBackOrForward_def)
  qed
qed

definition demoPage :: "tdes8 \<Rightarrow> hist_entry" where
  "demoPage u = the (fst (initWithUrlAndFormData demo_io u u [] None))"

lemma demoPage_fields [simp]: "m_requestUrl (demoPage u) = u" "m_formData (demoPage u) = None" "\<not> m_ifWmlMode (demoPage u)"
  by (simp_all add: demoPage_def initWithUrlAndFormData_def demo_io_def Let_def)

definition demo_history :: history where
  "demo_history = (initWithCallback True True)\<lparr>m_historyStack := [demoPage [1], demoPage [2]], m_currentIndex := 1, m_tempCurrentIndex := 1\<rparr>"

lemma demo_history_ok:
  "hist_ok demo_history" "m_historyLoadOffset demo_history = 0" "m_currentIndex demo_history = 1" "historyLength demo_history = 2"
  "trailOf demo_history = Trail [[1]] (Some [2]) []" "entryByIndex 0 demo_history = Some (demoPage [1])"
  "m_historyViewEnabled demo_history" "m_backListAllowed demo_history" "hCalls demo_history = []"
  by (simp_all add: demo_history_def initWithCallback_def hist_ok_def historyLength_def KHistoryStackSize_def uses_def forms_def
      trailOf_def trailAt_def entryByIndex_def)

lemma demo_go: "go (- 1) (Trail [[1]] (Some [2]) []) = Trail [] (Some [1]) [[2]]"
  by (simp add: go_def)

theorem history_refines_trail_witness:
  "trailOf (histInsert demo_io [3] [3] [] None demo_history) = Trail [[2], [1]] (Some [3]) [] \<and> canGoBackOrForward (- 1) demo_history \<and>
     trailOf (histInsert demo_io [3] [1] [] None (goBackOrForward (- 1) demo_history)) = Trail [] (Some [1]) [[2]]"
proof -
  have q: "quietHist demo_io" by (simp add: quietHist_def demo_io_def)
  note d = demo_history_ok
  have v: "visit [3] (Trail [[1]] (Some [2]) []) = Trail [[2], [1]] (Some [3]) []" by (simp add: visit_def KHistoryStackSize_def)
  show ?thesis
    using history_refines_trail [OF d(1,2) _ _ _ _ q, of "- 1" "[3]" "[3]" "[]" None] d(3-5) v demo_go by auto
qed

text \<open>
  A step whose page never arrives spoils the next page. The step moves the current index at
  once and leaves its mark; when the load fails nothing takes the mark back, and the next page that
  loads, whatever it is, is taken for the one that was stepped to and is not recorded.
\<close>

theorem page_after_failed_step_is_lost:
  assumes "hist_ok h" "0 \<le> m_currentIndex h" "- (2 ^ 31) \<le> d" "d < 2 ^ 31" "d \<noteq> 0" "canGoBackOrForward d h"
  shows "trailOf (histInsert io url req ct fd (goBackOrForward d h)) = go d (trailOf h)"
proof -
  let ?us = "map m_requestUrl (m_historyStack h)" and ?x = "m_currentIndex h + d"
  have x: "0 \<le> ?x" "?x < historyLength h" using add32_in_stack(1) [OF assms(1,3,4)] assms(6) by (simp_all add: canGoBackOrForward_def Let_def)
  have a: "add32 (m_currentIndex h) d = ?x" by (rule add32_in_stack(2) [OF assms(1,3,4) x])
  have "go d (trailOf h) = trailAt ?us ?x"
    unfolding trailOf_def by (rule go_trailAt) (use assms(1,2) x in \<open>simp_all add: hist_ok_def historyLength_def\<close>)
  then show ?thesis using x assms(5)
    by (simp add: goBackOrForward_def a entryByIndex_def histInsert_def Let_def trailOf_def updateCurrentEntryPositionIfNeeded_def)
qed

theorem page_after_failed_step_is_lost_witness:
  "trailOf (histInsert demo_io [3] [3] [] None (goBackOrForward (- 1) demo_history)) = Trail [] (Some [1]) [[2]]"
proof -
  note d = demo_history_ok
  have "canGoBackOrForward (- 1) demo_history"
    using add32_small [of 1 "- 1"] d(3,4) by (simp add: canGoBackOrForward_def)
  then show ?thesis
    using page_after_failed_step_is_lost [OF d(1), of "- 1" demo_io "[3]" "[3]" "[]" None] d(3,5) demo_go by simp
qed

subsection \<open>Choosing a page in the view\<close>

text \<open>What sliding leaves alone: the pages, the current index and the loads that were asked for.\<close>

definition pageOf :: "hist_entry \<Rightarrow> tdes8 \<times> nat option \<times> tdes16 option \<times> bool" where
  "pageOf e = (m_requestUrl e, m_formData e, m_postContentType e, m_ifWmlMode e)"

definition same_pages :: "history \<Rightarrow> history \<Rightarrow> bool" where
  "same_pages h h' \<longleftrightarrow> map pageOf (m_historyStack h') = map pageOf (m_historyStack h) \<and> m_currentIndex h' = m_currentIndex h \<and>
     (\<exists>cs. hCalls h' = hCalls h @ cs)"

lemma same_pages_refl [simp]: "same_pages h h"
  by (simp add: same_pages_def)

lemma same_pages_trans: "same_pages h h1 \<Longrightarrow> same_pages h1 h2 \<Longrightarrow> same_pages h h2"
  by (auto simp: same_pages_def)

lemma same_pages_upd [simp]: "same_pages h (h'\<lparr>m_historyView := v\<rparr>) = same_pages h h'" "same_pages h (h'\<lparr>m_tempCurrentIndex := n\<rparr>) = same_pages h h'"
  by (simp_all add: same_pages_def)

lemma same_pages_call: "same_pages h h' \<Longrightarrow> same_pages h (histCall cs h')"
  by (auto simp: same_pages_def)

lemma same_pages_onEntry: "(\<And>e. pageOf (f e) = pageOf e) \<Longrightarrow> same_pages h h' \<Longrightarrow> same_pages h (onEntry i f h')"
proof -
  assume f: "\<And>e. pageOf (f e) = pageOf e" and s: "same_pages h h'"
  have "map pageOf (m_historyStack (onEntry i f h')) = map pageOf (m_historyStack h')"
    by (auto simp: onEntry_def entryByIndex_def historyLength_def f intro!: map_update_same split: option.splits if_splits)
  then show ?thesis using s by (simp add: same_pages_def)
qed

lemma pageOf_thumbs [simp]: "pageOf (constructThumbnailL io e) = pageOf e" "pageOf (deleteThumbnail e) = pageOf e" "pageOf (storeThumbnail io e) = pageOf e"
  by (simp_all add: pageOf_def constructThumbnailL_def deleteThumbnail_def storeThumbnail_def Let_def)

text \<open>The view rests with the centre at an entry.\<close>

definition viewAt :: "int \<Rightarrow> int \<Rightarrow> history \<Rightarrow> bool" where
  "viewAt k c h \<longleftrightarrow> (\<exists>v. m_historyView h = Some v \<and> m_historyStackIndex v = k \<and> m_centerPageIndex v = c \<and> m_placeHolderResizeFactor v = 0)"

text \<open>While the slide is under way every run of the timer moves it on.\<close>

lemma tick_slides:
  assumes v: "m_historyView h = Some v" "m_repaintTimer v = Some AnimPlaceHolder" "m_direction v = - 1" "\<not> m_fastScroll v" "m_placeHolderResizeFactor v < 100"
  shows "timerTick io h = histCall [DrawNow] (h\<lparr>m_historyView := Some (v\<lparr>m_placeHolderResizeFactor := m_placeHolderResizeFactor v + 25\<rparr>)\<rparr>)"
  using v by (simp add: timerTick_def animatePlaceHolderPosition_def KMaxAnimFactor_def KAnimFactorInc_def Let_def)

lemma tick_arrives:
  assumes v: "m_historyView h = Some v" "m_repaintTimer v = Some AnimPlaceHolder" "m_direction v = - 1" "m_placeHolderResizeFactor v \<ge> 100"
    "m_historyStackIndex v = k" "m_centerPageIndex v = c"
  shows "viewAt k (c - 1) (timerTick io h) \<and> same_pages h (timerTick io h)"
  using v by (auto simp: timerTick_def animatePlaceHolderPosition_def KMaxAnimFactor_def Let_def viewAt_def stopTimer_def viewDisplay_def
      intro!: same_pages_call same_pages_onEntry)

definition slideLeft :: "hist_io \<Rightarrow> history \<Rightarrow> history option" where
  "slideLeft io h = map_option (\<lambda>(b, h1). (timerTick io ^^ 5) h1) (OfferKeyEventL io EKeyLeftArrow False h)"

lemma slideLeft_moves:
  assumes at: "viewAt k c h" and c: "0 < c"
  shows "\<exists>h'. slideLeft io h = Some h' \<and> viewAt k (c - 1) h' \<and> same_pages h h'"
proof -
  obtain v where v: "m_historyView h = Some v" "m_historyStackIndex v = k" "m_centerPageIndex v = c" "m_placeHolderResizeFactor v = 0"
    using at by (auto simp: viewAt_def)
  let ?v = "startTransition (- 1) (v\<lparr>m_fastScroll := False\<rparr>)"
  let ?h = "h\<lparr>m_historyView := Some ?v\<rparr>"
  have o: "OfferKeyEventL io EKeyLeftArrow False h = Some (True, ?h)"
    using v(1,3) c by (simp add: OfferKeyEventL_def mayMove_def Let_def)
  have f: "m_repaintTimer ?v = Some AnimPlaceHolder" "m_direction ?v = - 1" "\<not> m_fastScroll ?v" "m_placeHolderResizeFactor ?v = 0"
    "m_historyStackIndex ?v = k" "m_centerPageIndex ?v = c" using v by (simp_all add: startTransition_def)
  let ?s = "\<lambda>n h. histCall (replicate n DrawNow) (h\<lparr>m_historyView := Some (?v\<lparr>m_placeHolderResizeFactor := 25 * int n\<rparr>)\<rparr>)"
  have t: "(timerTick io ^^ n) ?h = ?s n ?h" if "n \<le> 4" for n
    using that
  proof (induction n)
    case 0
    show ?case using f(4) by (simp add: histCall_def)
  next
    case (Suc n)
    have "timerTick io (?s n ?h) = ?s (Suc n) ?h"
      by (subst tick_slides [of _ "?v\<lparr>m_placeHolderResizeFactor := 25 * int n\<rparr>"])
        (use f Suc.prems in \<open>simp_all add: histCall_def replicate_append_same algebra_simps\<close>)
    then show ?case using Suc by simp
  qed
  have five: "(timerTick io ^^ 5) ?h = timerTick io ((timerTick io ^^ 4) ?h)" by (simp add: eval_nat_numeral)
  have "viewAt k (c - 1) (timerTick io (?s 4 ?h)) \<and> same_pages (?s 4 ?h) (timerTick io (?s 4 ?h))"
    by (rule tick_arrives [of _ "?v\<lparr>m_placeHolderResizeFactor := 25 * int 4\<rparr>"]) (use f in simp_all)
  moreover have "same_pages h (?s 4 ?h)" by (intro same_pages_call) simp
  ultimately show ?thesis using same_pages_trans o t [of 4] by (auto simp: slideLeft_def five)
qed

fun slides :: "hist_io \<Rightarrow> nat \<Rightarrow> history \<Rightarrow> history option" where
  "slides io 0 h = Some h"
| "slides io (Suc n) h = Option.bind (slideLeft io h) (slides io n)"

lemma slides_move: "viewAt k (c + int n) h \<Longrightarrow> 0 \<le> c \<Longrightarrow> \<exists>h'. slides io n h = Some h' \<and> viewAt k c h' \<and> same_pages h h'"
proof (induction n arbitrary: h)
  case (Suc n)
  obtain h1 where h1: "slideLeft io h = Some h1" "viewAt k (c + int n) h1" "same_pages h h1"
    using slideLeft_moves [OF Suc.prems(1), of io] Suc.prems(2) by (auto simp: algebra_simps)
  then show ?case using Suc.IH [OF h1(2) Suc.prems(2)] same_pages_trans by fastforce
qed auto

lemma same_pages_at:
  assumes "same_pages h h'" "entryByIndex i h = Some e"
  shows "\<exists>e'. entryByIndex i h' = Some e' \<and> pageOf e' = pageOf e"
proof -
  have m: "map pageOf (m_historyStack h') = map pageOf (m_historyStack h)" using assms(1) by (simp add: same_pages_def)
  then have l: "length (m_historyStack h') = length (m_historyStack h)" using map_eq_imp_length_eq by blast
  have i: "0 \<le> i" "nat i < length (m_historyStack h)" "e = m_historyStack h ! nat i"
    using assms(2) by (auto simp: entryByIndex_def historyLength_def split: if_splits)
  have "pageOf (m_historyStack h' ! nat i) = pageOf (m_historyStack h ! nat i)"
    using arg_cong [OF m, of "\<lambda>xs. xs ! nat i"] i(2) l by simp
  then show ?thesis using i l by (simp add: entryByIndex_def historyLength_def)
qed

lemma same_pages_trail: "same_pages h h' \<Longrightarrow> trailOf h' = trailOf h"
proof -
  assume s: "same_pages h h'"
  then have "map fst (map pageOf (m_historyStack h')) = map fst (map pageOf (m_historyStack h))" by (simp add: same_pages_def)
  then have "map m_requestUrl (m_historyStack h') = map m_requestUrl (m_historyStack h)" by (simp add: comp_def pageOf_def)
  then show ?thesis using s by (simp add: trailOf_def same_pages_def)
qed

lemma show_view:
  assumes "hioView io = KErrNone"
  shows "\<exists>h1. showHistoryViewL io False h = (KErrNone, h1) \<and> viewAt (m_currentIndex h) (m_currentIndex h) h1 \<and> same_pages h h1"
  using assms by (auto simp: showHistoryViewL_def Let_def viewAt_def viewUpdateState_def viewDisplay_def newHistoryView_def
      updateHistoryEntryThumbnailL_def split: option.split intro!: same_pages_call same_pages_onEntry)

text \<open>Entering a page that came without a form.\<close>

lemma enter_page:
  assumes at: "viewAt k c h" and e: "entryByIndex c h = Some e" "m_formData e = None" "\<not> m_ifWmlMode e" and c: "c \<noteq> m_currentIndex h"
  shows "\<exists>h' cs. OfferKeyEventL io EKeyDevice3 False h = Some (True, h') \<and> m_historyView h' = None \<and> m_currentIndex h' = c \<and>
    m_historyLoadOffset h' = c - k \<and> map m_requestUrl (m_historyStack h') = map m_requestUrl (m_historyStack h) \<and>
    hCalls h' = hCalls h @ [DoHistoryGet (m_requestUrl e) ECacheModeHistory] @ cs"
proof -
  obtain v where v: "m_historyView h = Some v" "m_historyStackIndex v = k" "m_centerPageIndex v = c" using at by (auto simp: viewAt_def)
  have r: "0 \<le> c \<and> c < historyLength h" using entryByIndex_range [OF e(1)] .
  have eb: "entryByIndex c (h\<lparr>m_historyView := x\<rparr>) = Some e" "historyLength (h\<lparr>m_historyView := x\<rparr>) = historyLength h" for x
    using e(1) by (auto simp: entryByIndex_def historyLength_def split: if_splits)
  show ?thesis
    using v r e(2,3) c by (simp add: OfferKeyEventL_def Let_def viewEnter_def eb viewLoadUrl_def loadCalls_def setCurrentIndex_def closeHistoryView_def
        deleteThumbnail_def comp_def)
qed

text \<open>
  C26: A page is chosen in the view. Opening the view shows the current page in the centre; each press
  of the left key slides one place, and the slide ends after five runs of the timer; entering closes
  the view, asks for the page in the centre and makes it the current one; and when it has loaded
  the trail is the old one, seen from there.
\<close>

theorem view_selects_page:
  assumes ok: "hist_ok h" and on: "m_historyViewEnabled h" "m_backListAllowed h" "hioView io = KErrNone"
    and n: "0 < n" "int n \<le> m_currentIndex h" and e: "entryByIndex (m_currentIndex h - int n) h = Some e" "m_formData e = None" "\<not> m_ifWmlMode e"
  shows "\<exists>h1 h2 h3 cs ds. handleHistoryCommandL io ECommandShowHistory h = Some (KErrNone, h1) \<and> slides io n h1 = Some h2 \<and>
    OfferKeyEventL io EKeyDevice3 False h2 = Some (True, h3) \<and> m_historyView h3 = None \<and>
    hCalls h3 = hCalls h @ cs @ [DoHistoryGet (m_requestUrl e) ECacheModeHistory] @ ds \<and>
    trailOf (histInsert io url req ct fd h3) = go (- int n) (trailOf h)"
proof -
  let ?h = "h\<lparr>m_tempCurrentIndex := m_currentIndex h\<rparr>" and ?c = "m_currentIndex h - int n"
  obtain h1 where h1: "showHistoryViewL io False ?h = (KErrNone, h1)" "viewAt (m_currentIndex h) (m_currentIndex h) h1" "same_pages ?h h1"
    using show_view [OF on(3), of ?h] by auto
  have cmd: "handleHistoryCommandL io ECommandShowHistory h = Some (KErrNone, h1)" using on h1(1) by (simp add: handleHistoryCommandL_def Let_def)
  have hh: "same_pages h h1" using h1(3) by (simp add: same_pages_def)
  obtain h2 where h2: "slides io n h1 = Some h2" "viewAt (m_currentIndex h) ?c h2" "same_pages h1 h2"
    using slides_move [of "m_currentIndex h" ?c n h1 io] h1(2) n(2) by auto
  have s: "same_pages h h2" by (rule same_pages_trans [OF hh h2(3)])
  obtain e' where e': "entryByIndex ?c h2 = Some e'" "pageOf e' = pageOf e" using same_pages_at [OF s e(1)] by blast
  have e2: "m_formData e' = None" "\<not> m_ifWmlMode e'" "m_requestUrl e' = m_requestUrl e" using e'(2) e(2,3) by (simp_all add: pageOf_def)
  have cur: "m_currentIndex h2 = m_currentIndex h" using s by (simp add: same_pages_def)
  then have ne: "?c \<noteq> m_currentIndex h2" using n(1) by simp
  obtain h3 ds where h3: "OfferKeyEventL io EKeyDevice3 False h2 = Some (True, h3)" "m_historyView h3 = None" "m_currentIndex h3 = ?c"
    "m_historyLoadOffset h3 = ?c - m_currentIndex h" "map m_requestUrl (m_historyStack h3) = map m_requestUrl (m_historyStack h2)"
    "hCalls h3 = hCalls h2 @ [DoHistoryGet (m_requestUrl e') ECacheModeHistory] @ ds"
    using enter_page [OF h2(2) e'(1) e2(1,2) ne, of io] by blast
  obtain cs where cs: "hCalls h2 = hCalls h @ cs" using s by (auto simp: same_pages_def)
  let ?us = "map m_requestUrl (m_historyStack h)"
  have us: "map m_requestUrl (m_historyStack h3) = ?us"
  proof -
    have "map fst (map pageOf (m_historyStack h2)) = map fst (map pageOf (m_historyStack h))" using s by (simp add: same_pages_def)
    then show ?thesis using h3(5) by (simp add: comp_def pageOf_def)
  qed
  have "trailOf (histInsert io url req ct fd h3) = trailAt ?us ?c"
    using h3(3,4) n(1) us by (simp add: histInsert_def Let_def trailOf_def updateCurrentEntryPositionIfNeeded_def)
  moreover have "go (- int n) (trailOf h) = trailAt ?us (m_currentIndex h + - int n)"
    unfolding trailOf_def by (rule go_trailAt) (use ok n in \<open>simp_all add: hist_ok_def historyLength_def\<close>)
  ultimately show ?thesis using cmd h2(1) h3(1,2,6) cs e2(3)
    by (intro exI [of _ h1] exI [of _ h2] exI [of _ h3] exI [of _ cs] exI [of _ ds]) simp
qed

theorem view_selects_page_witness:
  "\<exists>h1 h2 h3 cs ds. handleHistoryCommandL demo_io ECommandShowHistory demo_history = Some (KErrNone, h1) \<and> slides demo_io 1 h1 = Some h2 \<and>
    OfferKeyEventL demo_io EKeyDevice3 False h2 = Some (True, h3) \<and> hCalls h3 = cs @ [DoHistoryGet [1] ECacheModeHistory] @ ds \<and>
    trailOf (histInsert demo_io [1] [1] [] None h3) = Trail [] (Some [1]) [[2]]"
proof -
  note d = demo_history_ok
  have io: "hioView demo_io = KErrNone" by (simp add: demo_io_def)
  have e: "entryByIndex (m_currentIndex demo_history - int 1) demo_history = Some (demoPage [1])" using d(3,6) by simp
  have n: "0 < (1 :: nat)" "int 1 \<le> m_currentIndex demo_history" using d(3) by simp_all
  show ?thesis
    using view_selects_page [OF d(1,7,8) io n e demoPage_fields(2,3), of "[1]" "[1]" "[]" None] d(5,9) demo_go by auto blast
qed

end
