(* ===== verification/CodData.thy ===== *)
theory CodData
  imports OverrideText
begin

text \<open>
  The data of a download descriptor (codhandler/codeng): \<open>CMediaObjectData\<close>, the description of one
  object that can be downloaded, and \<open>CCodData\<close>, the descriptor with its objects. A setter answers
  whether it took the value, or leaves (\<open>Inl\<close>) when there is no memory; the outcomes of the allocations are
  the argument \<open>al\<close>. An object has an address, since \<open>AppendMediaObjectL\<close> compares pointers.
\<close>

definition COD_NAME_MAX_LEN :: nat where "COD_NAME_MAX_LEN = 40"
definition COD_VENDOR_MAX_LEN :: nat where "COD_VENDOR_MAX_LEN = 40"
definition COD_DESCRIPTION_MAX_LEN :: nat where "COD_DESCRIPTION_MAX_LEN = 160"
definition COD_URL_MAX_LEN :: nat where "COD_URL_MAX_LEN = 1024"
definition COD_TYPE_MAX_LEN :: nat where "COD_TYPE_MAX_LEN = 40"
definition COD_INSTALL_NOTIFY_MAX_LEN :: nat where "COD_INSTALL_NOTIFY_MAX_LEN = 1024"
definition COD_NEXT_URL_MAX_LEN :: nat where "COD_NEXT_URL_MAX_LEN = 1024"
definition COD_NEXT_URL_AT_ERROR_MAX_LEN :: nat where "COD_NEXT_URL_AT_ERROR_MAX_LEN = 1024"
definition COD_INFO_URL_MAX_LEN :: nat where "COD_INFO_URL_MAX_LEN = 1024"
definition COD_PRICE_MAX_LEN :: nat where "COD_PRICE_MAX_LEN = 32"
definition COD_ICON_MAX_LEN :: nat where "COD_ICON_MAX_LEN = 1024"
definition COD_VERSION_MAX_LEN :: nat where "COD_VERSION_MAX_LEN = 40"

lemmas cod_limits = COD_NAME_MAX_LEN_def COD_VENDOR_MAX_LEN_def COD_DESCRIPTION_MAX_LEN_def COD_URL_MAX_LEN_def COD_TYPE_MAX_LEN_def
  COD_INSTALL_NOTIFY_MAX_LEN_def COD_NEXT_URL_MAX_LEN_def COD_NEXT_URL_AT_ERROR_MAX_LEN_def COD_INFO_URL_MAX_LEN_def
  COD_PRICE_MAX_LEN_def COD_ICON_MAX_LEN_def COD_VERSION_MAX_LEN_def

datatype TMediaObjectState = EQueued | EInProgress | EFailed | ESucceeded | ETobeInstalled

record media_object =
  moAddr :: nat
  moName :: tdes16
  moDescription :: tdes16
  moUrl :: tdes8
  moSize :: "32 word"
  moTypes :: "tdes8 list"
  moInstallNotify :: tdes8
  moInfoUrl :: tdes8
  moPrice :: tdes16
  moIcon :: tdes8
  moSourceUri :: tdes8
  moProgressiveDl :: bool
  moIsPostOrder :: bool
  moDownloadedSize :: "32 word"
  moState :: TMediaObjectState
  moStatusCode :: "32 word"
  moResult :: "32 word"
  moFileName :: tdes16
  moFullName :: "tdes16 option"
  moTempPath :: tdes16
  moRootPath :: tdes16
  moPausable :: bool
  moUniqueFilenameSet :: bool

record cod_data =
  cdName :: tdes16
  cdVendor :: tdes16
  cdDescription :: tdes16
  cdSize :: "32 word"
  cdInstallNotify :: tdes8
  cdNextUrl :: tdes8
  cdNextUrlAtError :: tdes8
  cdInfoUrl :: tdes8
  cdPrice :: tdes16
  cdIcon :: tdes8
  cdVersion :: tdes16
  cdIsPostOrder :: bool
  cdSuppressConfirm :: int
  cdSourceUri :: tdes8
  cdUpdatedDDUri :: tdes8
  cdActiveDownload :: int
  cdMediaObjects :: "media_object list"

definition KHttp902UserCancelled :: "32 word" where "KHttp902UserCancelled = 902"
definition KErrGeneralCode :: "32 word" where "KErrGeneralCode = - 2"

text \<open>The state that \<open>ConstructL\<close> and \<open>Reset\<close> share; only the former has no full name yet.\<close>

definition moConstructL :: "nat \<Rightarrow> media_object" where
  "moConstructL addr = \<lparr>moAddr = addr, moName = [], moDescription = [], moUrl = [], moSize = 0, moTypes = [], moInstallNotify = [], moInfoUrl = [],
     moPrice = [], moIcon = [], moSourceUri = [], moProgressiveDl = False, moIsPostOrder = False, moDownloadedSize = 0, moState = EQueued,
     moStatusCode = KHttp902UserCancelled, moResult = KErrGeneralCode, moFileName = [], moFullName = None, moTempPath = [], moRootPath = [],
     moPausable = False, moUniqueFilenameSet = False\<rparr>"

definition moReset :: "media_object \<Rightarrow> media_object" where
  "moReset m = m\<lparr>moName := [], moDescription := [], moUrl := [], moSize := 0, moTypes := [], moInstallNotify := [], moInfoUrl := [],
     moPrice := [], moIcon := [], moSourceUri := [], moProgressiveDl := False, moIsPostOrder := False, moDownloadedSize := 0, moState := EQueued,
     moStatusCode := KHttp902UserCancelled, moResult := KErrGeneralCode, moFileName := [], moPausable := False, moUniqueFilenameSet := False\<rparr>"

definition moIsValid :: "media_object \<Rightarrow> bool" where
  "moIsValid m \<longleftrightarrow> moUrl m \<noteq> [] \<and> 0 < sint (moSize m) \<and> moTypes m \<noteq> []"

definition cdConstructL :: cod_data where
  "cdConstructL = \<lparr>cdName = [], cdVendor = [], cdDescription = [], cdSize = 0, cdInstallNotify = [], cdNextUrl = [], cdNextUrlAtError = [],
     cdInfoUrl = [], cdPrice = [], cdIcon = [], cdVersion = [], cdIsPostOrder = False, cdSuppressConfirm = 0, cdSourceUri = [],
     cdUpdatedDDUri = [], cdActiveDownload = 1, cdMediaObjects = []\<rparr>"

definition cdReset :: "cod_data \<Rightarrow> cod_data" where
  "cdReset d = d\<lparr>cdName := [], cdVendor := [], cdDescription := [], cdSize := 0, cdInstallNotify := [], cdNextUrl := [], cdNextUrlAtError := [],
     cdInfoUrl := [], cdPrice := [], cdIcon := [], cdVersion := [], cdIsPostOrder := False, cdSourceUri := [], cdUpdatedDDUri := [],
     cdActiveDownload := 1, cdMediaObjects := map moReset (cdMediaObjects d)\<rparr>"

text \<open>The total must be positive, and every object valid; a descriptor without objects is not.\<close>

definition cdIsValid :: "cod_data \<Rightarrow> bool" where
  "cdIsValid d \<longleftrightarrow> 0 < cdSize d \<and> cdMediaObjects d \<noteq> [] \<and> (\<forall>m \<in> set (cdMediaObjects d). moIsValid m)"

subsection \<open>Setters\<close>

text \<open>
  The descriptor refuses a text that is too long. The object cuts 16-bit text that is too long, and
  takes 8-bit text of any length.
\<close>

definition SetString16L :: "allocs \<Rightarrow> tdes16 \<Rightarrow> nat \<Rightarrow> (tdes16 \<Rightarrow> 'd \<Rightarrow> 'd) \<Rightarrow> 'd \<Rightarrow> (symerr + bool) \<times> 'd" where
  "SetString16L al s maxLen upd d =
    (if length s > maxLen then (Inr False, d) else if alloc_ok al then (Inr True, upd s d) else (Inl KErrNoMemory, d))"

definition SetString8L :: "allocs \<Rightarrow> tdes16 \<Rightarrow> nat \<Rightarrow> (tdes8 \<Rightarrow> 'd \<Rightarrow> 'd) \<Rightarrow> 'd \<Rightarrow> (symerr + bool) \<times> 'd" where
  "SetString8L al s maxLen upd d =
    (if length s > maxLen then (Inr False, d) else if alloc_ok al then (Inr True, upd (des_copy8 s) d) else (Inl KErrNoMemory, d))"

definition moSetString16L :: "allocs \<Rightarrow> tdes16 \<Rightarrow> nat \<Rightarrow> (tdes16 \<Rightarrow> 'd \<Rightarrow> 'd) \<Rightarrow> 'd \<Rightarrow> (symerr + bool) \<times> 'd" where
  "moSetString16L al s maxLen upd m =
    (if alloc_ok al then (Inr True, upd (if length s > maxLen then take maxLen s else s) m) else (Inl KErrNoMemory, m))"

definition moSetString8L :: "allocs \<Rightarrow> tdes16 \<Rightarrow> (tdes8 \<Rightarrow> 'd \<Rightarrow> 'd) \<Rightarrow> 'd \<Rightarrow> (symerr + bool) \<times> 'd" where
  "moSetString8L al s upd m = (if alloc_ok al then (Inr True, upd (des_copy8 s) m) else (Inl KErrNoMemory, m))"

definition SetVendorL :: "allocs \<Rightarrow> tdes16 \<Rightarrow> cod_data \<Rightarrow> (symerr + bool) \<times> cod_data" where
  "SetVendorL al s = SetString16L al s COD_VENDOR_MAX_LEN (\<lambda>v. cdVendor_update (\<lambda>_. v))"
definition cdSetNameL :: "allocs \<Rightarrow> tdes16 \<Rightarrow> cod_data \<Rightarrow> (symerr + bool) \<times> cod_data" where
  "cdSetNameL al s = SetString16L al s COD_NAME_MAX_LEN (\<lambda>v. cdName_update (\<lambda>_. v))"
definition cdSetDescriptionL :: "allocs \<Rightarrow> tdes16 \<Rightarrow> cod_data \<Rightarrow> (symerr + bool) \<times> cod_data" where
  "cdSetDescriptionL al s = SetString16L al s COD_DESCRIPTION_MAX_LEN (\<lambda>v. cdDescription_update (\<lambda>_. v))"
definition cdSetInstallNotifyL :: "allocs \<Rightarrow> tdes16 \<Rightarrow> cod_data \<Rightarrow> (symerr + bool) \<times> cod_data" where
  "cdSetInstallNotifyL al s = SetString8L al s COD_INSTALL_NOTIFY_MAX_LEN (\<lambda>v. cdInstallNotify_update (\<lambda>_. v))"
definition SetNextUrlL :: "allocs \<Rightarrow> tdes16 \<Rightarrow> cod_data \<Rightarrow> (symerr + bool) \<times> cod_data" where
  "SetNextUrlL al s = SetString8L al s COD_NEXT_URL_MAX_LEN (\<lambda>v. cdNextUrl_update (\<lambda>_. v))"
definition SetNextUrlAtErrorL :: "allocs \<Rightarrow> tdes16 \<Rightarrow> cod_data \<Rightarrow> (symerr + bool) \<times> cod_data" where
  "SetNextUrlAtErrorL al s = SetString8L al s COD_NEXT_URL_AT_ERROR_MAX_LEN (\<lambda>v. cdNextUrlAtError_update (\<lambda>_. v))"
definition cdSetInfoUrlL :: "allocs \<Rightarrow> tdes16 \<Rightarrow> cod_data \<Rightarrow> (symerr + bool) \<times> cod_data" where
  "cdSetInfoUrlL al s = SetString8L al s COD_INFO_URL_MAX_LEN (\<lambda>v. cdInfoUrl_update (\<lambda>_. v))"
definition cdSetPriceL :: "allocs \<Rightarrow> tdes16 \<Rightarrow> cod_data \<Rightarrow> (symerr + bool) \<times> cod_data" where
  "cdSetPriceL al s = SetString16L al s COD_PRICE_MAX_LEN (\<lambda>v. cdPrice_update (\<lambda>_. v))"
definition cdSetIconL :: "allocs \<Rightarrow> tdes16 \<Rightarrow> cod_data \<Rightarrow> (symerr + bool) \<times> cod_data" where
  "cdSetIconL al s = SetString8L al s COD_ICON_MAX_LEN (\<lambda>v. cdIcon_update (\<lambda>_. v))"
definition SetVersionL :: "allocs \<Rightarrow> tdes16 \<Rightarrow> cod_data \<Rightarrow> (symerr + bool) \<times> cod_data" where
  "SetVersionL al s = SetString16L al s COD_VERSION_MAX_LEN (\<lambda>v. cdVersion_update (\<lambda>_. v))"
definition SetUpdatedDDURI :: "allocs \<Rightarrow> tdes16 \<Rightarrow> cod_data \<Rightarrow> (symerr + bool) \<times> cod_data" where
  "SetUpdatedDDURI al s = SetString8L al s COD_URL_MAX_LEN (\<lambda>v. cdUpdatedDDUri_update (\<lambda>_. v))"
definition cdSetSourceUriL :: "allocs \<Rightarrow> tdes8 \<Rightarrow> cod_data \<Rightarrow> symerr \<times> cod_data" where
  "cdSetSourceUriL al s d = (if alloc_ok al then (KErrNone, d\<lparr>cdSourceUri := s\<rparr>) else (KErrNoMemory, d))"

definition cdSetSize :: "32 word \<Rightarrow> cod_data \<Rightarrow> bool \<times> cod_data" where
  "cdSetSize aSize d = (if aSize = 0 then (False, d) else (True, d\<lparr>cdSize := aSize\<rparr>))"

text \<open>\<open>ENever\<close>, \<open>EUserConfirmStepOnly\<close> and \<open>EAlways\<close> are 0, 1 and 2.\<close>

definition SetSuppressConfirm :: "int \<Rightarrow> cod_data \<Rightarrow> bool \<times> cod_data" where
  "SetSuppressConfirm a d = (if a < 0 \<or> a > 2 then (False, d) else (True, d\<lparr>cdSuppressConfirm := a\<rparr>))"

definition SetActiveDownload :: "int \<Rightarrow> cod_data \<Rightarrow> cod_data" where "SetActiveDownload i d = d\<lparr>cdActiveDownload := i\<rparr>"
definition cdSetOrderIsPost :: "bool \<Rightarrow> cod_data \<Rightarrow> cod_data" where "cdSetOrderIsPost b d = d\<lparr>cdIsPostOrder := b\<rparr>"

definition SetNameL :: "allocs \<Rightarrow> tdes16 \<Rightarrow> media_object \<Rightarrow> (symerr + bool) \<times> media_object" where
  "SetNameL al s = moSetString16L al s COD_NAME_MAX_LEN (\<lambda>v. moName_update (\<lambda>_. v))"
definition SetDescriptionL :: "allocs \<Rightarrow> tdes16 \<Rightarrow> media_object \<Rightarrow> (symerr + bool) \<times> media_object" where
  "SetDescriptionL al s = moSetString16L al s COD_DESCRIPTION_MAX_LEN (\<lambda>v. moDescription_update (\<lambda>_. v))"
definition SetUrlL :: "allocs \<Rightarrow> tdes16 \<Rightarrow> media_object \<Rightarrow> (symerr + bool) \<times> media_object" where
  "SetUrlL al s = moSetString8L al s (\<lambda>v. moUrl_update (\<lambda>_. v))"
definition SetInstallNotifyL :: "allocs \<Rightarrow> tdes16 \<Rightarrow> media_object \<Rightarrow> (symerr + bool) \<times> media_object" where
  "SetInstallNotifyL al s = moSetString8L al s (\<lambda>v. moInstallNotify_update (\<lambda>_. v))"
definition SetInfoUrlL :: "allocs \<Rightarrow> tdes16 \<Rightarrow> media_object \<Rightarrow> (symerr + bool) \<times> media_object" where
  "SetInfoUrlL al s = moSetString8L al s (\<lambda>v. moInfoUrl_update (\<lambda>_. v))"
definition SetPriceL :: "allocs \<Rightarrow> tdes16 \<Rightarrow> media_object \<Rightarrow> (symerr + bool) \<times> media_object" where
  "SetPriceL al s = moSetString16L al s COD_PRICE_MAX_LEN (\<lambda>v. moPrice_update (\<lambda>_. v))"
definition SetIconL :: "allocs \<Rightarrow> tdes16 \<Rightarrow> media_object \<Rightarrow> (symerr + bool) \<times> media_object" where
  "SetIconL al s = moSetString8L al s (\<lambda>v. moIcon_update (\<lambda>_. v))"
definition moSetSourceUriL :: "allocs \<Rightarrow> tdes8 \<Rightarrow> media_object \<Rightarrow> symerr \<times> media_object" where
  "moSetSourceUriL al s m = (if alloc_ok al then (KErrNone, m\<lparr>moSourceUri := s\<rparr>) else (KErrNoMemory, m))"

definition SetSize :: "32 word \<Rightarrow> media_object \<Rightarrow> bool \<times> media_object" where
  "SetSize aSize m = (if sint aSize \<le> 0 then (False, m) else (True, m\<lparr>moSize := aSize\<rparr>))"

definition SetDownloadedSize :: "32 word \<Rightarrow> media_object \<Rightarrow> bool \<times> media_object" where
  "SetDownloadedSize aSize m = (if sint aSize < 0 then (False, m) else (True, m\<lparr>moDownloadedSize := aSize\<rparr>))"

definition SetState :: "TMediaObjectState \<Rightarrow> media_object \<Rightarrow> media_object" where "SetState s m = m\<lparr>moState := s\<rparr>"
definition SetProgressiveDownload :: "bool \<Rightarrow> media_object \<Rightarrow> media_object" where "SetProgressiveDownload b m = m\<lparr>moProgressiveDl := b\<rparr>"
definition UniqueFilenameSet :: "bool \<Rightarrow> media_object \<Rightarrow> media_object" where "UniqueFilenameSet b m = m\<lparr>moUniqueFilenameSet := b\<rparr>"
definition SetOrderIsPost :: "bool \<Rightarrow> media_object \<Rightarrow> media_object" where "SetOrderIsPost b m = m\<lparr>moIsPostOrder := b\<rparr>"

text \<open>The conversion of the type allocates, and so does the array.\<close>

definition AddTypeL :: "allocs \<Rightarrow> tdes16 \<Rightarrow> media_object \<Rightarrow> (symerr + bool) \<times> media_object" where
  "AddTypeL al s m =
    (if length s > COD_TYPE_MAX_LEN \<or> s = [] then (Inr False, m)
     else if alloc_ok al \<and> alloc_ok (alloc_rest al) then (Inr True, m\<lparr>moTypes := moTypes m @ [des_copy8 s]\<rparr>)
     else (Inl KErrNoMemory, m))"

text \<open>The types are gone even when the new one is refused.\<close>

definition SetTypeL :: "allocs \<Rightarrow> tdes16 \<Rightarrow> media_object \<Rightarrow> (symerr + bool) \<times> media_object" where
  "SetTypeL al s m = AddTypeL al s (m\<lparr>moTypes := []\<rparr>)"

definition HasType :: "tdes8 \<Rightarrow> media_object \<Rightarrow> bool" where "HasType t m \<longleftrightarrow> t \<in> set (moTypes m)"

definition moType :: "media_object \<Rightarrow> tdes8" where "moType m = (case moTypes m of [] \<Rightarrow> [] | t # _ \<Rightarrow> t)"

text \<open>The type at the index moves to the front.\<close>

definition ReArrangeTypesL :: "nat \<Rightarrow> media_object \<Rightarrow> media_object option" where
  "ReArrangeTypesL i m =
    (if i < length (moTypes m) then Some (m\<lparr>moTypes := moTypes m ! i # (take i (moTypes m) @ drop (Suc i) (moTypes m))\<rparr>) else None)"

definition AppendMediaObjectL :: "allocs \<Rightarrow> media_object \<Rightarrow> cod_data \<Rightarrow> (symerr + int) \<times> cod_data" where
  "AppendMediaObjectL al m d =
    (case find (\<lambda>i. moAddr (cdMediaObjects d ! i) = moAddr m) [0..<length (cdMediaObjects d)] of
       Some i \<Rightarrow> (Inr (int i), d)
     | None \<Rightarrow> if alloc_ok al then (Inr (int (length (cdMediaObjects d)) + 1), d\<lparr>cdMediaObjects := cdMediaObjects d @ [m], cdSize := cdSize d + moSize m\<rparr>)
               else (Inl KErrNoMemory, d))"

text \<open>Objects are counted from 1.\<close>

definition cdIndex :: "int \<Rightarrow> cod_data \<Rightarrow> media_object option" where
  "cdIndex i d = (if 0 < i \<and> i \<le> int (length (cdMediaObjects d)) then Some (cdMediaObjects d ! nat (i - 1)) else None)"

end
