(* ===== verification/CodParser.thy ===== *)
theory CodParser
  imports CodData
begin

text \<open>
  The parser of download descriptors (\<open>TCodParser\<close>, codhandler/codeng/src/CodParser.cpp). The text is
  the rest that the pointer \<open>iCurP\<close> has before it. An error in the text is stored and the parsing goes
  on; a leave ends it. \<open>cpAllocs\<close> holds the outcomes of the allocations of each attribute in turn.
\<close>

definition KErrCodInvalidDescriptor :: symerr where "KErrCodInvalidDescriptor = KErrOther (- 1000)"

datatype TCodAttr =
    ECodUnknownAttr | ECodName | ECodVendor | ECodDescription | ECodUrl | ECodSize | ECodType | ECodInstallNotify
  | ECodNextUrl | ECodNextUrlAtError | ECodInfoUrl | ECodPrice | ECodIcon

record cod_parser =
  cpAllocs :: "allocs list"
  cpError :: symerr
  cpData :: cod_data
  cpObject :: media_object
  cpRest :: tdes16

definition KCodCarriageRet :: "16 word" where "KCodCarriageRet = 0x0d"
definition KCodLineFeed :: "16 word" where "KCodLineFeed = 0x0a"
definition KCodColon :: "16 word" where "KCodColon = 58"

definition IsControl :: "16 word \<Rightarrow> bool" where "IsControl c \<longleftrightarrow> c \<le> 0x1f \<or> c = 0x7f"
definition IsWhiteSpace :: "16 word \<Rightarrow> bool" where "IsWhiteSpace c \<longleftrightarrow> c = 0x20 \<or> c = 0x09"
definition IsValueChar :: "16 word \<Rightarrow> bool" where "IsValueChar c \<longleftrightarrow> \<not> (IsControl c \<or> IsWhiteSpace c)"

text \<open>The separators are white space and \<open>()<>@,;:'"/[]?={}\<close>.\<close>

definition IsSeparator :: "16 word \<Rightarrow> bool" where
  "IsSeparator c \<longleftrightarrow> IsWhiteSpace c \<or> c \<in> {40, 41, 60, 62, 64, 44, 59, 58, 39, 34, 47, 91, 93, 63, 61, 123, 125}"

definition IsEndOfLine :: "tdes16 \<Rightarrow> bool" where
  "IsEndOfLine r = (let r1 = (if r \<noteq> [] \<and> hd r = KCodCarriageRet then tl r else r) in r1 \<noteq> [] \<and> hd r1 = KCodLineFeed)"

definition SkipWhiteSpace :: "tdes16 \<Rightarrow> tdes16" where "SkipWhiteSpace = dropWhile IsWhiteSpace"

definition NextLine :: "tdes16 \<Rightarrow> tdes16" where "NextLine r = tl (dropWhile (\<lambda>c. c \<noteq> KCodLineFeed) r)"

text \<open>The first error is kept.\<close>

definition parserError :: "symerr \<Rightarrow> cod_parser \<Rightarrow> cod_parser" where
  "parserError e p = (if cpError p = KErrNone then p\<lparr>cpError := e\<rparr> else p)"

subsection \<open>Tokens\<close>

definition nameChar :: "16 word \<Rightarrow> bool" where
  "nameChar c \<longleftrightarrow> \<not> IsControl c \<and> \<not> IsSeparator c \<and> c \<noteq> KCodCarriageRet \<and> c \<noteq> KCodLineFeed"

definition attrOf :: "tdes16 \<Rightarrow> TCodAttr" where
  "attrOf token =
    (if token = lit16 ''COD-Name'' then ECodName
     else if token = lit16 ''COD-Vendor'' then ECodVendor
     else if token = lit16 ''COD-Description'' then ECodDescription
     else if token = lit16 ''COD-URL'' then ECodUrl
     else if token = lit16 ''COD-Size'' then ECodSize
     else if token = lit16 ''COD-Type'' then ECodType
     else if token = lit16 ''COD-Install-Notify'' then ECodInstallNotify
     else if token = lit16 ''COD-Next-URL'' then ECodNextUrl
     else if token = lit16 ''COD-Next-URLatError'' then ECodNextUrlAtError
     else if token = lit16 ''COD-Info-URL'' then ECodInfoUrl
     else if token = lit16 ''COD-Price'' then ECodPrice
     else if token = lit16 ''COD-Icon'' then ECodIcon
     else ECodUnknownAttr)"

definition AttrName :: "cod_parser \<Rightarrow> TCodAttr \<times> cod_parser" where
  "AttrName p =
    (let token = takeWhile nameChar (cpRest p); p1 = p\<lparr>cpRest := dropWhile nameChar (cpRest p)\<rparr>
     in if token = [] then (ECodUnknownAttr, parserError KErrCodInvalidDescriptor p1) else (attrOf token, p1))"

text \<open>
  The value up to the end of the line. \<open>trailing\<close> is what lies between \<open>trailingWs\<close> and the pointer; if
  the value ends in it, the pointer is set back.
\<close>

fun valueLoop :: "tdes16 \<Rightarrow> tdes16 \<Rightarrow> tdes16 \<Rightarrow> tdes16 \<times> tdes16 \<times> tdes16" where
  "valueLoop token trailing [] = (token, trailing, [])"
| "valueLoop token trailing (c # r) =
    (if IsWhiteSpace c then valueLoop token (trailing @ [c]) r
     else if IsValueChar c then valueLoop (token @ trailing @ [c]) [] r
     else (token, trailing, c # r))"

definition AttrValue :: "cod_parser \<Rightarrow> tdes16 \<times> cod_parser" where
  "AttrValue p = (let (token, trailing, r) = valueLoop [] [] (cpRest p) in (token, p\<lparr>cpRest := trailing @ r\<rparr>))"

definition Colon :: "cod_parser \<Rightarrow> bool \<times> cod_parser" where
  "Colon p =
    (let r = SkipWhiteSpace (cpRest p) in
     if r \<noteq> [] \<and> hd r = KCodColon then (True, p\<lparr>cpRest := SkipWhiteSpace (tl r)\<rparr>)
     else (False, (parserError KErrCodInvalidDescriptor p)\<lparr>cpRest := SkipWhiteSpace r\<rparr>))"

text \<open>The rest of the line: whether something unexpected is in it, and the text from its line feed on.\<close>

fun endOfLine :: "tdes16 \<Rightarrow> bool \<times> tdes16" where
  "endOfLine [] = (False, [])"
| "endOfLine (c # r) =
    (if c = KCodLineFeed then (False, c # r)
     else if c = KCodCarriageRet \<and> r \<noteq> [] \<and> hd r = KCodLineFeed then (False, r)
     else let (bad, r1) = endOfLine r in (c = KCodCarriageRet \<or> IsValueChar c \<or> IsControl c \<or> bad, r1))"

definition EndOfLine :: "cod_parser \<Rightarrow> cod_parser" where
  "EndOfLine p = (let (bad, r) = endOfLine (cpRest p) in
     (if bad then parserError KErrCodInvalidDescriptor p else p)\<lparr>cpRest := r\<rparr>)"

text \<open>\<open>TLex::Val\<close> of an unsigned number.\<close>

definition lexUint :: "tdes16 \<Rightarrow> symerr + nat" where
  "lexUint s = (let ds = takeWhile asciiDigit s in
     if ds = [] then Inl KErrGeneral else if decNum ds > 2 ^ 32 - 1 then Inl KErrOverflow else Inr (decNum ds))"

subsection \<open>Lines\<close>

definition onObject :: "(media_object \<Rightarrow> (symerr + bool) \<times> media_object) \<Rightarrow> cod_parser \<Rightarrow> (symerr + bool) \<times> cod_parser" where
  "onObject f p = (let (r, m) = f (cpObject p) in (r, p\<lparr>cpObject := m\<rparr>))"

definition onData :: "(cod_data \<Rightarrow> (symerr + bool) \<times> cod_data) \<Rightarrow> cod_parser \<Rightarrow> (symerr + bool) \<times> cod_parser" where
  "onData f p = (let (r, d) = f (cpData p) in (r, p\<lparr>cpData := d\<rparr>))"

text \<open>What \<open>SetSize\<close> answers is not looked at.\<close>

primrec setAttr :: "TCodAttr \<Rightarrow> allocs \<Rightarrow> tdes16 \<Rightarrow> cod_parser \<Rightarrow> (symerr + bool) \<times> cod_parser" where
  "setAttr ECodName al v = onObject (SetNameL al v)"
| "setAttr ECodVendor al v = onData (SetVendorL al v)"
| "setAttr ECodDescription al v = onObject (SetDescriptionL al v)"
| "setAttr ECodSize al v = (\<lambda>p. case lexUint v of
      Inl e \<Rightarrow> (Inr False, p)
    | Inr n \<Rightarrow> (Inr True, p\<lparr>cpObject := snd (SetSize (of_nat n) (cpObject p))\<rparr>))"
| "setAttr ECodInstallNotify al v = onObject (SetInstallNotifyL al v)"
| "setAttr ECodNextUrl al v = onData (SetNextUrlL al v)"
| "setAttr ECodNextUrlAtError al v = onData (SetNextUrlAtErrorL al v)"
| "setAttr ECodInfoUrl al v = onObject (SetInfoUrlL al v)"
| "setAttr ECodPrice al v = onObject (SetPriceL al v)"
| "setAttr ECodIcon al v = onObject (SetIconL al v)"
| "setAttr ECodType al v = onObject (SetTypeL al v)"
| "setAttr ECodUrl al v = onObject (SetUrlL al v)"
| "setAttr ECodUnknownAttr al v = Pair (Inr True)"

definition nextAllocs :: "cod_parser \<Rightarrow> allocs" where
  "nextAllocs p = (if cpAllocs p = [] then [] else hd (cpAllocs p))"

text \<open>Empty lines are skipped.\<close>

lemma NextLine_shrinks: "r \<noteq> [] \<Longrightarrow> length (NextLine r) < length r"
proof -
  assume "r \<noteq> []"
  then have "0 < length r" by simp
  with dropWhile_length_le [of "\<lambda>c. c \<noteq> KCodLineFeed" r] show ?thesis unfolding NextLine_def length_tl by linarith
qed

lemma IsEndOfLine_nonempty: "IsEndOfLine r \<Longrightarrow> r \<noteq> []"
  by (auto simp: IsEndOfLine_def Let_def)

function skipBlank :: "tdes16 \<Rightarrow> tdes16" where
  "skipBlank r = (let r1 = SkipWhiteSpace r in if IsEndOfLine r1 then skipBlank (NextLine r1) else r1)"
  by auto
termination
  by (relation "measure length")
    (auto simp: SkipWhiteSpace_def dest!: IsEndOfLine_nonempty NextLine_shrinks intro: less_le_trans [OF _ dropWhile_length_le])

declare skipBlank.simps [simp del]

definition attrSwitch :: "cod_parser \<Rightarrow> (symerr + bool) \<times> cod_parser" where
  "attrSwitch p =
    (let (attr, p1) = AttrName p; (colon, p2) = Colon p1 in
     if attr = ECodUnknownAttr then (Inr colon, p2)
     else if colon then
       let (v, pv) = AttrValue p2; (ok, ps) = setAttr attr (nextAllocs pv) v (pv\<lparr>cpAllocs := tl (cpAllocs pv)\<rparr>)
       in (ok, case ok of Inl e \<Rightarrow> ps | Inr b \<Rightarrow> EndOfLine ps)
     else (Inr True, p2))"

definition AttrLineL :: "cod_parser \<Rightarrow> (symerr + bool) \<times> cod_parser" where
  "AttrLineL p0 =
    (let p = p0\<lparr>cpRest := skipBlank (cpRest p0)\<rparr> in
     if cpRest p = [] then (Inr False, p)
     else case attrSwitch p of
       (Inl e, p1) \<Rightarrow> (Inl e, p1)
     | (Inr b, p1) \<Rightarrow> let p2 = (if b then p1 else parserError KErrCodInvalidDescriptor p1)
                     in (Inr True, p2\<lparr>cpRest := NextLine (cpRest p2)\<rparr>))"

subsection \<open>The pointer only moves forward\<close>

lemma parserError_fields [simp]:
  "cpRest (parserError e p) = cpRest p" "cpData (parserError e p) = cpData p" "cpObject (parserError e p) = cpObject p"
  "cpAllocs (parserError e p) = cpAllocs p"
  by (simp_all add: parserError_def)

lemma suffix_tl_dropWhile: "suffix (tl (dropWhile P r)) r"
  using suffix_tl suffix_dropWhile suffix_order.trans by blast

lemma NextLine_suffix: "suffix (NextLine r) r"
  by (simp add: NextLine_def suffix_tl_dropWhile)

lemma skipBlank_suffix: "suffix (skipBlank r) r"
proof (induction r rule: skipBlank.induct)
  case (1 r)
  have s: "suffix (SkipWhiteSpace r) r" by (simp add: SkipWhiteSpace_def suffix_dropWhile)
  then show ?case using 1 [OF refl] NextLine_suffix suffix_order.trans
    by (subst skipBlank.simps) (auto simp: Let_def, blast)
qed

lemma AttrName_rest [simp]: "cpRest (snd (AttrName p)) = dropWhile nameChar (cpRest p)"
  by (simp add: AttrName_def Let_def)

lemma Colon_suffix: "suffix (cpRest (snd (Colon p))) (cpRest p)"
proof -
  have "suffix (dropWhile P (tl (dropWhile Q r))) r" "suffix (dropWhile P (dropWhile Q r)) r" "suffix (dropWhile Q r) r" for P Q and r :: tdes16
    using suffix_order.trans [OF suffix_dropWhile suffix_tl_dropWhile] suffix_order.trans [OF suffix_dropWhile suffix_dropWhile]
    by (auto simp: suffix_dropWhile)
  then show ?thesis by (simp add: Colon_def Let_def SkipWhiteSpace_def)
qed

lemma valueLoop_all:
  "valueLoop token trailing r = (token', trailing', r') \<Longrightarrow> token' @ trailing' @ r' = token @ trailing @ r"
  by (induction token trailing r rule: valueLoop.induct) (auto split: if_splits)

lemma AttrValue_suffix: "suffix (cpRest (snd (AttrValue p))) (cpRest p)"
proof -
  obtain v w r where l: "valueLoop [] [] (cpRest p) = (v, w, r)" by (cases "valueLoop [] [] (cpRest p)")
  then have "cpRest p = v @ w @ r" using valueLoop_all by fastforce
  then show ?thesis using l by (simp add: AttrValue_def suffixI)
qed

lemma setAttr_rest [simp]: "cpRest (snd (setAttr a al v p)) = cpRest p"
  by (cases a) (simp_all add: onObject_def onData_def split: prod.splits sum.splits)

lemma endOfLine_suffix: "suffix (snd (endOfLine r)) r"
  by (induction r) (auto simp: Let_def suffix_ConsI split: prod.splits)

lemma EndOfLine_suffix: "suffix (cpRest (EndOfLine p)) (cpRest p)"
  using endOfLine_suffix [of "cpRest p"] by (auto simp: EndOfLine_def split: prod.splits)

lemma attrSwitch_suffix: "suffix (cpRest (snd (attrSwitch p))) (cpRest p)"
proof -
  obtain attr p1 where n: "AttrName p = (attr, p1)" by fastforce
  obtain colon p2 where c: "Colon p1 = (colon, p2)" by fastforce
  obtain v pv where v: "AttrValue p2 = (v, pv)" by fastforce
  obtain ok ps where s: "setAttr attr (nextAllocs pv) v (pv\<lparr>cpAllocs := tl (cpAllocs pv)\<rparr>) = (ok, ps)" by fastforce
  have 1: "suffix (cpRest p1) (cpRest p)" using AttrName_rest [of p] n suffix_dropWhile by (metis snd_conv)
  have 2: "suffix (cpRest p2) (cpRest p1)" using Colon_suffix [of p1] c by simp
  have 3: "suffix (cpRest pv) (cpRest p2)" using AttrValue_suffix [of p2] v by simp
  have 4: "cpRest ps = cpRest pv" using setAttr_rest [of attr "nextAllocs pv" v "pv\<lparr>cpAllocs := tl (cpAllocs pv)\<rparr>"] s by simp
  have 12: "suffix (cpRest p2) (cpRest p)" by (rule suffix_order.trans [OF 2 1])
  have 13: "suffix (cpRest ps) (cpRest p)" unfolding 4 by (rule suffix_order.trans [OF 3 12])
  have "cpRest (snd (attrSwitch p)) \<in> {cpRest p2, cpRest ps, cpRest (EndOfLine ps)}"
    using n c v s by (auto simp: attrSwitch_def split: sum.splits)
  then show ?thesis using 12 13 suffix_order.trans [OF EndOfLine_suffix 13] by auto
qed

lemma AttrLineL_shrinks:
  assumes "AttrLineL p0 = (Inr True, p')"
  shows "length (cpRest p') < length (cpRest p0)"
proof -
  let ?p = "p0\<lparr>cpRest := skipBlank (cpRest p0)\<rparr>"
  let ?r = "cpRest (snd (attrSwitch ?p))"
  have ne: "skipBlank (cpRest p0) \<noteq> []" and p': "cpRest p' = NextLine ?r"
    using assms by (auto simp: AttrLineL_def Let_def split: if_splits prod.splits sum.splits)
  have l: "length ?r \<le> length (skipBlank (cpRest p0))" "length (skipBlank (cpRest p0)) \<le> length (cpRest p0)"
    using suffix_length_le [OF attrSwitch_suffix [of ?p]] suffix_length_le [OF skipBlank_suffix [of "cpRest p0"]] by simp_all
  show ?thesis
  proof (cases "?r = []")
    case True
    then show ?thesis using ne l p' by (cases "cpRest p0") (auto simp: NextLine_def)
  qed (use NextLine_shrinks [of ?r] l p' in simp)
qed

text \<open>All the lines: the leave that ended the loop, if there was one.\<close>

function codLoop :: "cod_parser \<Rightarrow> symerr option \<times> cod_parser" where
  "codLoop p =
    (case AttrLineL p of
       (Inl e, p1) \<Rightarrow> (Some e, p1)
     | (Inr again, p1) \<Rightarrow> if again then codLoop p1 else (None, p1))"
  by auto
termination
  by (relation "measure (\<lambda>p. length (cpRest p))") (auto dest: AttrLineL_shrinks [OF sym])

declare codLoop.simps [simp del]

text \<open>
  The first allocations are those of the new object, the last one is that of the array. The object is
  appended also when the text has an error.
\<close>

definition ParseL :: "allocs \<Rightarrow> allocs list \<Rightarrow> allocs \<Rightarrow> nat \<Rightarrow> tdes16 \<Rightarrow> cod_data \<Rightarrow> symerr \<times> cod_data" where
  "ParseL alNew als alAppend addr aBuf aData =
    (if False \<in> set alNew then (KErrNoMemory, aData)
     else case codLoop \<lparr>cpAllocs = als, cpError = KErrNone, cpData = aData, cpObject = moConstructL addr, cpRest = aBuf\<rparr> of
       (Some e, p) \<Rightarrow> (e, cpData p)
     | (None, p) \<Rightarrow>
       (case AppendMediaObjectL alAppend (cpObject p) (cpData p) of
          (Inl e, d) \<Rightarrow> (e, d)
        | (Inr i, d) \<Rightarrow> (cpError p, d)))"

end
