(* ===== verification/CodSpec.thy ===== *)
theory CodSpec
  imports CodParser
begin

text \<open>
  What the descriptor parser keeps and promises: it works line by line, it reads back what was written,
  an error in one line leaves the others, and the texts it accepts are bounded.
\<close>

subsection \<open>Line by line\<close>

definition addRest :: "tdes16 \<Rightarrow> cod_parser \<Rightarrow> cod_parser" where
  "addRest t p = p\<lparr>cpRest := cpRest p @ t\<rparr>"

text \<open>A step inside a line does not look behind its end, and stays before it.\<close>

definition inLine :: "(cod_parser \<Rightarrow> 'r \<times> cod_parser) \<Rightarrow> bool" where
  "inLine f \<longleftrightarrow> (\<forall>p t r p'. KCodLineFeed \<in> set (cpRest p) \<longrightarrow> f p = (r, p') \<longrightarrow>
     f (addRest t p) = (r, addRest t p') \<and> KCodLineFeed \<in> set (cpRest p'))"

lemma inLineD:
  "inLine f \<Longrightarrow> KCodLineFeed \<in> set (cpRest p) \<Longrightarrow> f p = (r, p') \<Longrightarrow>
     f (addRest t p) = (r, addRest t p') \<and> KCodLineFeed \<in> set (cpRest p')"
  by (simp add: inLine_def)

lemma in_dropWhile: "x \<in> set xs \<Longrightarrow> \<not> P x \<Longrightarrow> x \<in> set (dropWhile P xs)"
  by (induction xs) auto

lemmas lf_append = dropWhile_append1 [of KCodLineFeed] takeWhile_append1 [of KCodLineFeed] in_dropWhile [of KCodLineFeed]

lemma lf_chars [simp]: "\<not> IsWhiteSpace KCodLineFeed" "\<not> nameChar KCodLineFeed" "\<not> IsValueChar KCodLineFeed" "IsControl KCodLineFeed"
  "KCodLineFeed \<noteq> KCodColon" "KCodLineFeed \<noteq> KCodCarriageRet"
  by (simp_all add: IsWhiteSpace_def nameChar_def IsValueChar_def IsControl_def KCodLineFeed_def KCodColon_def KCodCarriageRet_def)

lemma addRest_fields [simp]:
  "cpRest (addRest t p) = cpRest p @ t" "cpData (addRest t p) = cpData p" "cpObject (addRest t p) = cpObject p"
  "cpAllocs (addRest t p) = cpAllocs p" "cpError (addRest t p) = cpError p"
  by (simp_all add: addRest_def)

lemma addRest_update:
  "parserError e (addRest t p) = addRest t (parserError e p)"
  "(addRest t p)\<lparr>cpRest := r @ t\<rparr> = addRest t (p\<lparr>cpRest := r\<rparr>)"
  "(addRest t p)\<lparr>cpAllocs := a\<rparr> = addRest t (p\<lparr>cpAllocs := a\<rparr>)"
  "(addRest t p)\<lparr>cpData := d\<rparr> = addRest t (p\<lparr>cpData := d\<rparr>)"
  "(addRest t p)\<lparr>cpObject := m\<rparr> = addRest t (p\<lparr>cpObject := m\<rparr>)"
  by (simp_all add: addRest_def parserError_def)

lemma AttrName_inLine: "inLine AttrName"
  unfolding inLine_def AttrName_def Let_def by (auto simp: lf_append addRest_update)

lemma hd_append1: "x \<in> set xs \<Longrightarrow> hd (xs @ ys) = hd xs \<and> tl (xs @ ys) = tl xs @ ys \<and> xs \<noteq> []"
  by (cases xs) auto

lemma Colon_inLine: "inLine Colon"
proof -
  have "Colon (addRest t p) = (fst (Colon p), addRest t (snd (Colon p))) \<and> KCodLineFeed \<in> set (cpRest (snd (Colon p)))"
    if "KCodLineFeed \<in> set (cpRest p)" for p t
  proof -
    let ?r = "SkipWhiteSpace (cpRest p)"
    have r: "KCodLineFeed \<in> set ?r" "SkipWhiteSpace (cpRest p @ t) = ?r @ t" using that by (simp_all add: SkipWhiteSpace_def lf_append)
    note h = hd_append1 [OF r(1), of t]
    have "KCodLineFeed \<in> set (tl ?r)" if "hd ?r = KCodColon" using r(1) that by (cases ?r) auto
    then have tl: "KCodLineFeed \<in> set (SkipWhiteSpace (tl ?r))" "SkipWhiteSpace (tl ?r @ t) = SkipWhiteSpace (tl ?r) @ t" if "hd ?r = KCodColon"
      using that by (simp_all add: SkipWhiteSpace_def lf_append)
    have "KCodLineFeed \<in> set (SkipWhiteSpace ?r)" "SkipWhiteSpace (?r @ t) = SkipWhiteSpace ?r @ t"
      using r(1) by (simp_all add: SkipWhiteSpace_def lf_append)
    then show ?thesis using r h tl by (simp add: Colon_def Let_def addRest_update)
  qed
  then show ?thesis unfolding inLine_def by (metis prod.collapse prod.inject)
qed

lemma valueLoop_inLine:
  "KCodLineFeed \<in> set r \<Longrightarrow> valueLoop token trailing r = (token', trailing', r') \<Longrightarrow>
     valueLoop token trailing (r @ t) = (token', trailing', r' @ t) \<and> KCodLineFeed \<in> set r'"
  by (induction token trailing r rule: valueLoop.induct) (auto split: if_splits)

lemma AttrValue_inLine: "inLine AttrValue"
proof -
  have "AttrValue (addRest t p) = (v, addRest t p') \<and> KCodLineFeed \<in> set (cpRest p')"
    if lf: "KCodLineFeed \<in> set (cpRest p)" and a: "AttrValue p = (v, p')" for p t v p'
  proof -
    obtain tok tr r where l: "valueLoop [] [] (cpRest p) = (tok, tr, r)" by (cases "valueLoop [] [] (cpRest p)")
    then have "v = tok" "p' = p\<lparr>cpRest := tr @ r\<rparr>" using a by (simp_all add: AttrValue_def)
    then show ?thesis using valueLoop_inLine [OF lf l, of t] by (simp add: AttrValue_def addRest_def)
  qed
  then show ?thesis unfolding inLine_def by blast
qed

lemma endOfLine_inLine:
  "KCodLineFeed \<in> set r \<Longrightarrow> endOfLine (r @ t) = (fst (endOfLine r), snd (endOfLine r) @ t) \<and> KCodLineFeed \<in> set (snd (endOfLine r))"
proof (induction r)
  case (Cons c r)
  then show ?case using hd_append1 [of KCodLineFeed r t] by (cases r) (auto simp: Let_def split: prod.splits)
qed simp

lemma EndOfLine_inLine:
  "KCodLineFeed \<in> set (cpRest p) \<Longrightarrow> EndOfLine (addRest t p) = addRest t (EndOfLine p) \<and> KCodLineFeed \<in> set (cpRest (EndOfLine p))"
  using endOfLine_inLine [of "cpRest p" t] by (auto simp: EndOfLine_def addRest_update split: prod.splits)

lemma setAttr_inLine: "inLine (setAttr a al v)"
  unfolding inLine_def by (cases a) (auto simp: onObject_def onData_def addRest_update split: prod.splits sum.splits)

lemma attrSwitch_inLine: "inLine attrSwitch"
proof -
  have "attrSwitch (addRest t p) = (fst (attrSwitch p), addRest t (snd (attrSwitch p))) \<and> KCodLineFeed \<in> set (cpRest (snd (attrSwitch p)))"
    if lf: "KCodLineFeed \<in> set (cpRest p)" for p t
  proof -
    obtain attr p1 where n: "AttrName p = (attr, p1)" by fastforce
    obtain colon p2 where c: "Colon p1 = (colon, p2)" by fastforce
    obtain v pv where v: "AttrValue p2 = (v, pv)" by fastforce
    let ?pv = "pv\<lparr>cpAllocs := tl (cpAllocs pv)\<rparr>"
    obtain ok ps where s: "setAttr attr (nextAllocs pv) v ?pv = (ok, ps)" by fastforce
    have 1: "AttrName (addRest t p) = (attr, addRest t p1)" "KCodLineFeed \<in> set (cpRest p1)"
      using inLineD [OF AttrName_inLine lf n] by auto
    have 2: "Colon (addRest t p1) = (colon, addRest t p2)" "KCodLineFeed \<in> set (cpRest p2)"
      using inLineD [OF Colon_inLine 1(2) c] by auto
    have 3: "AttrValue (addRest t p2) = (v, addRest t pv)" "KCodLineFeed \<in> set (cpRest ?pv)"
      using inLineD [OF AttrValue_inLine 2(2) v] by auto
    have 4: "setAttr attr (nextAllocs pv) v (addRest t ?pv) = (ok, addRest t ps)" "KCodLineFeed \<in> set (cpRest ps)"
      using inLineD [OF setAttr_inLine 3(2) s] by auto
    have "nextAllocs (addRest t pv) = nextAllocs pv" by (simp add: nextAllocs_def)
    then show ?thesis using n c v s 1 2 3 4 EndOfLine_inLine [OF 4(2), of t]
      by (auto simp: attrSwitch_def addRest_update split: sum.splits)
  qed
  then show ?thesis unfolding inLine_def by (metis prod.collapse prod.inject)
qed

text \<open>A text of complete lines: each of them ends with its line feed.\<close>

definition complete :: "tdes16 \<Rightarrow> bool" where
  "complete s \<longleftrightarrow> s = [] \<or> last s = KCodLineFeed"

lemma complete_lf: "complete s \<Longrightarrow> s \<noteq> [] \<Longrightarrow> KCodLineFeed \<in> set s"
  unfolding complete_def by (metis last_in_set)

lemma complete_suffix: "complete s \<Longrightarrow> suffix r s \<Longrightarrow> complete r"
  by (auto simp: complete_def suffix_def last_append split: if_splits)

lemma NextLine_append: "KCodLineFeed \<in> set r \<Longrightarrow> NextLine (r @ t) = NextLine r @ t"
  using hd_append1 [of KCodLineFeed "dropWhile (\<lambda>c. c \<noteq> KCodLineFeed) r" t] by (simp add: NextLine_def lf_append)

lemma IsEndOfLine_append: "KCodLineFeed \<in> set r \<Longrightarrow> IsEndOfLine (r @ t) = IsEndOfLine r"
  by (cases r; cases "tl r") (auto simp: IsEndOfLine_def)

lemma skipBlank_append:
  "complete s \<Longrightarrow> skipBlank (s @ t) = (if skipBlank s = [] then skipBlank t else skipBlank s @ t)"
proof (induction s rule: skipBlank.induct)
  case (1 s)
  let ?r = "SkipWhiteSpace s"
  show ?case
  proof (cases "s = []")
    case False
    have lf: "KCodLineFeed \<in> set ?r" "SkipWhiteSpace (s @ t) = ?r @ t"
      using complete_lf [OF 1(2) False] by (simp_all add: SkipWhiteSpace_def lf_append)
    have c: "complete (NextLine ?r)"
      using complete_suffix [OF 1(2)] suffix_order.trans [OF NextLine_suffix suffix_dropWhile] by (simp add: SkipWhiteSpace_def)
    show ?thesis
    proof (cases "IsEndOfLine ?r")
      case True
      have "skipBlank s = skipBlank (NextLine ?r)" using True by (subst skipBlank.simps) (simp add: Let_def)
      moreover have "skipBlank (s @ t) = skipBlank (NextLine ?r @ t)"
        using True lf IsEndOfLine_append [OF lf(1)] NextLine_append [OF lf(1)] by (subst skipBlank.simps) (simp add: Let_def)
      ultimately show ?thesis using 1(1) [OF refl True c] by simp
    next
      case False
      have "skipBlank s = ?r" using False by (subst skipBlank.simps) (simp add: Let_def)
      moreover have "skipBlank (s @ t) = ?r @ t"
        using False lf IsEndOfLine_append [OF lf(1)] by (subst skipBlank.simps) (simp add: Let_def)
      ultimately show ?thesis using lf(1) by auto
    qed
  qed (simp add: skipBlank.simps [of "[]"] SkipWhiteSpace_def IsEndOfLine_def)
qed

lemma AttrLineL_append_blank:
  "complete (cpRest p) \<Longrightarrow> skipBlank (cpRest p) = [] \<Longrightarrow> AttrLineL (addRest t p) = AttrLineL (p\<lparr>cpRest := t\<rparr>)"
  by (simp add: AttrLineL_def Let_def skipBlank_append addRest_def)

lemma AttrLineL_append:
  assumes c: "complete (cpRest p)" and ne: "skipBlank (cpRest p) \<noteq> []"
  shows "AttrLineL (addRest t p) = (fst (AttrLineL p), addRest t (snd (AttrLineL p))) \<and>
    (\<forall>b. fst (AttrLineL p) = Inr b \<longrightarrow> b \<and> complete (cpRest (snd (AttrLineL p))))"
proof -
  let ?p = "p\<lparr>cpRest := skipBlank (cpRest p)\<rparr>"
  obtain r p1 where s: "attrSwitch ?p = (r, p1)" by fastforce
  have c1: "complete (cpRest ?p)" using complete_suffix [OF c skipBlank_suffix] by simp
  have lf: "KCodLineFeed \<in> set (cpRest ?p)" using complete_lf [OF c1] ne by simp
  have p: "(addRest t p)\<lparr>cpRest := skipBlank (cpRest (addRest t p))\<rparr> = addRest t ?p"
    using ne by (simp add: addRest_def skipBlank_append [OF c])
  have 1: "attrSwitch (addRest t ?p) = (r, addRest t p1)" "KCodLineFeed \<in> set (cpRest p1)"
    using inLineD [OF attrSwitch_inLine lf s] by auto
  have c2: "complete (cpRest p1)" using complete_suffix [OF c1] attrSwitch_suffix [of ?p] s by simp
  have c3: "complete (NextLine (cpRest p1))" by (rule complete_suffix [OF c2 NextLine_suffix])
  have e: "q\<lparr>cpRest := NextLine (cpRest p1 @ t)\<rparr> = addRest t (q'\<lparr>cpRest := NextLine (cpRest p1)\<rparr>)"
    if "q = addRest t q'" for q q' using that NextLine_append [OF 1(2)] by (simp add: addRest_def)
  show ?thesis
    unfolding AttrLineL_def Let_def p using ne s 1 c3 by (auto simp: addRest_update split: sum.splits intro!: e)
qed

text \<open>The loop over a text of complete lines and another text is the one after the other.\<close>

lemma codLoop_append:
  "complete (cpRest p) \<Longrightarrow>
     codLoop (addRest t p) = (case codLoop p of (Some e, p') \<Rightarrow> (Some e, addRest t p') | (None, p') \<Rightarrow> codLoop (p'\<lparr>cpRest := t\<rparr>))"
proof (induction p rule: codLoop.induct)
  case (1 p)
  show ?case
  proof (cases "skipBlank (cpRest p) = []")
    case True
    then have "AttrLineL p = (Inr False, p\<lparr>cpRest := []\<rparr>)" by (simp add: AttrLineL_def)
    moreover have "codLoop (addRest t p) = codLoop (p\<lparr>cpRest := t\<rparr>)"
      by (subst (1 2) codLoop.simps) (simp add: AttrLineL_append_blank [OF 1(2) True])
    ultimately show ?thesis by (subst (2) codLoop.simps) simp
  next
    case False
    note a = AttrLineL_append [OF 1(2) False, of t]
    obtain r p1 where r: "AttrLineL p = (r, p1)" by fastforce
    then have r': "AttrLineL (addRest t p) = (r, addRest t p1)" using a by simp
    show ?thesis
    proof (cases r)
      case (Inl e)
      then show ?thesis using r r' by (subst (1 2) codLoop.simps) simp
    next
      case (Inr b)
      then have b: "b" "complete (cpRest p1)" using a r by auto
      have "codLoop (addRest t p) = codLoop (addRest t p1)" "codLoop p = codLoop p1"
        using r r' Inr b(1) by (subst codLoop.simps; simp)+
      then show ?thesis using 1(1) [OF r [symmetric] Inr b(1) b(2)] r Inr by simp
    qed
  qed
qed

subsection \<open>Reading what was written\<close>

primrec attrText :: "TCodAttr \<Rightarrow> tdes16" where
  "attrText ECodName = lit16 ''COD-Name''"
| "attrText ECodVendor = lit16 ''COD-Vendor''"
| "attrText ECodDescription = lit16 ''COD-Description''"
| "attrText ECodUrl = lit16 ''COD-URL''"
| "attrText ECodSize = lit16 ''COD-Size''"
| "attrText ECodType = lit16 ''COD-Type''"
| "attrText ECodInstallNotify = lit16 ''COD-Install-Notify''"
| "attrText ECodNextUrl = lit16 ''COD-Next-URL''"
| "attrText ECodNextUrlAtError = lit16 ''COD-Next-URLatError''"
| "attrText ECodInfoUrl = lit16 ''COD-Info-URL''"
| "attrText ECodPrice = lit16 ''COD-Price''"
| "attrText ECodIcon = lit16 ''COD-Icon''"
| "attrText ECodUnknownAttr = lit16 ''X-Unknown''"

definition codLine :: "TCodAttr \<Rightarrow> tdes16 \<Rightarrow> tdes16" where
  "codLine a v = attrText a @ 58 # 32 # v @ [13, 10]"

text \<open>A value without control characters that neither starts nor ends with white space.\<close>

definition plainValue :: "tdes16 \<Rightarrow> bool" where
  "plainValue v \<longleftrightarrow> (\<forall>c \<in> set v. IsValueChar c \<or> IsWhiteSpace c) \<and> (v = [] \<or> IsValueChar (hd v) \<and> IsValueChar (last v))"

lemma attrText_name: "list_all nameChar (attrText a)" "attrText a \<noteq> []" "attrOf (attrText a) = a"
  by (cases a; simp add: lit16_def attrOf_def nameChar_def IsControl_def IsSeparator_def IsWhiteSpace_def KCodCarriageRet_def KCodLineFeed_def)+

lemma takeWhile_then: "list_all P xs \<Longrightarrow> \<not> P y \<Longrightarrow> takeWhile P (xs @ y # ys) = xs \<and> dropWhile P (xs @ y # ys) = y # ys"
  by (induction xs) auto

lemma ws_not_value: "IsWhiteSpace c \<Longrightarrow> \<not> IsValueChar c" "IsValueChar c \<Longrightarrow> \<not> IsWhiteSpace c"
  by (simp_all add: IsValueChar_def)

lemma ws_13 [simp]: "\<not> IsWhiteSpace 13" "\<not> IsValueChar 13"
  by (simp_all add: IsWhiteSpace_def IsValueChar_def IsControl_def)

lemma valueLoop_ws: "list_all IsWhiteSpace ws \<Longrightarrow> valueLoop token trailing (ws @ 13 # r) = (token, trailing @ ws, 13 # r)"
  by (induction ws arbitrary: trailing) auto

text \<open>White space at the end is left to the end of the line.\<close>

lemma valueLoop_plain:
  assumes w: "list_all IsWhiteSpace ws"
  shows "\<forall>c \<in> set v. IsValueChar c \<or> IsWhiteSpace c \<Longrightarrow> v \<noteq> [] \<Longrightarrow> IsValueChar (last v) \<Longrightarrow>
     valueLoop token trailing (v @ ws @ 13 # r) = (token @ trailing @ v, ws, 13 # r)"
proof (induction v arbitrary: token trailing)
  case (Cons c v)
  show ?case
  proof (cases "v = []")
    case True
    then show ?thesis using Cons.prems ws_not_value valueLoop_ws [OF w] by simp
  next
    case False
    then show ?thesis using Cons.prems ws_not_value by (auto simp: Cons.IH)
  qed
qed simp

lemma codLine_complete: "complete (codLine a v)"
  by (simp add: codLine_def complete_def KCodLineFeed_def)

lemma endOfLine_ws: "list_all IsWhiteSpace ws \<Longrightarrow> endOfLine (ws @ [13, 10]) = (\<exists>c \<in> set ws. IsControl c, [10])"
proof (induction ws)
  case (Cons c ws)
  then have ih: "endOfLine (ws @ [13, 10]) = (\<exists>c \<in> set ws. IsControl c, [10])" and c: "IsWhiteSpace c" by simp_all
  from c have "c \<noteq> KCodLineFeed" "c \<noteq> KCodCarriageRet" by (auto simp: KCodLineFeed_def KCodCarriageRet_def IsWhiteSpace_def)
  then show ?case using ws_not_value(1) [OF c] by (simp add: ih)
qed (simp add: KCodLineFeed_def KCodCarriageRet_def)

text \<open>The line of a known attribute sets it; white space after the value must not be a control character.\<close>

lemma codLoop_line_ws:
  assumes v: "plainValue v" "v = [] \<longrightarrow> ws = []" and w: "list_all IsWhiteSpace ws" and a: "a \<noteq> ECodUnknownAttr" and al: "cpAllocs p = []"
    and r: "cpRest p = codLine a (v @ ws)" and s: "setAttr a [] v (p\<lparr>cpRest := ws @ [13, 10]\<rparr>) = (Inr b, q)"
  shows "codLoop p = (None, (if b \<and> (\<forall>c \<in> set ws. \<not> IsControl c) then q else parserError KErrCodInvalidDescriptor q)\<lparr>cpRest := []\<rparr>)"
proof -
  note n = attrText_name [of a]
  obtain c cs where c: "attrText a = c # cs" "nameChar c" using n(1,2) by (cases "attrText a") auto
  have k: "\<not> nameChar 58" "\<not> IsWhiteSpace c" "c \<noteq> 13" "c \<noteq> 10"
    using c(2) by (auto simp: nameChar_def IsSeparator_def KCodCarriageRet_def KCodLineFeed_def)
  have 1: "skipBlank (cpRest p) = cpRest p"
    by (subst skipBlank.simps)
      (simp add: r codLine_def c(1) SkipWhiteSpace_def k IsEndOfLine_def KCodCarriageRet_def KCodLineFeed_def)
  have 2: "AttrName p = (a, p\<lparr>cpRest := 58 # 32 # v @ ws @ [13, 10]\<rparr>)"
    using takeWhile_then [OF n(1) k(1)] n(2,3) by (simp add: AttrName_def r codLine_def)
  have sp: "IsWhiteSpace 32" "\<not> IsWhiteSpace 58" by (simp_all add: IsWhiteSpace_def)
  have hd: "dropWhile IsWhiteSpace (v @ ws @ [13, 10]) = v @ ws @ [13, 10]"
    using v ws_not_value by (cases v) (auto simp: plainValue_def)
  have 3: "Colon (p\<lparr>cpRest := 58 # 32 # v @ ws @ [13, 10]\<rparr>) = (True, p\<lparr>cpRest := v @ ws @ [13, 10]\<rparr>)"
    by (simp add: Colon_def SkipWhiteSpace_def sp hd KCodColon_def)
  have "valueLoop [] [] (v @ ws @ [13, 10]) = (v, ws, [13, 10])"
  proof (cases "v = []")
    case False
    then show ?thesis using v valueLoop_plain [OF w, of v "[]" "[]" "[10]"] by (simp add: plainValue_def)
  qed (simp add: v(2))
  then have 4: "AttrValue (p\<lparr>cpRest := v @ ws @ [13, 10]\<rparr>) = (v, p\<lparr>cpRest := ws @ [13, 10]\<rparr>)" by (simp add: AttrValue_def)
  have q: "cpRest q = ws @ [13, 10]" using setAttr_rest [of a "[]" v "p\<lparr>cpRest := ws @ [13, 10]\<rparr>"] s by simp
  let ?q = "if \<exists>c \<in> set ws. IsControl c then parserError KErrCodInvalidDescriptor q else q"
  have 5: "EndOfLine q = ?q\<lparr>cpRest := [10]\<rparr>" by (simp add: EndOfLine_def q endOfLine_ws [OF w])
  have keep: "p\<lparr>cpRest := x, cpAllocs := []\<rparr> = p\<lparr>cpRest := x\<rparr>" for x using al by (cases p) simp
  have "attrSwitch p = (Inr b, ?q\<lparr>cpRest := [10]\<rparr>)"
    using a al s 5 by (simp add: attrSwitch_def 2 3 4 nextAllocs_def keep)
  moreover have same: "p\<lparr>cpRest := skipBlank (cpRest p)\<rparr> = p" by (simp add: 1)
  moreover have ne: "cpRest p \<noteq> []" by (simp add: r codLine_def)
  ultimately have 6: "AttrLineL p = (Inr True, (if b \<and> (\<forall>c \<in> set ws. \<not> IsControl c) then q else parserError KErrCodInvalidDescriptor q)\<lparr>cpRest := []\<rparr>)"
    unfolding AttrLineL_def same Let_def using ne
    by (auto simp: NextLine_def KCodLineFeed_def parserError_def KErrCodInvalidDescriptor_def)
  have "AttrLineL (q'\<lparr>cpRest := []\<rparr>) = (Inr False, q'\<lparr>cpRest := []\<rparr>)" for q'
    by (simp add: AttrLineL_def Let_def skipBlank.simps [of "[]"] SkipWhiteSpace_def IsEndOfLine_def)
  then show ?thesis by (subst codLoop.simps) (simp add: 6 codLoop.simps [of "_\<lparr>cpRest := []\<rparr>"])
qed

lemmas codLoop_line = codLoop_line_ws [where ws = "[]", simplified]

lemma codLoop_line_then:
  assumes "plainValue v" "a \<noteq> ECodUnknownAttr" "cpAllocs p = []"
    and "setAttr a [] v (p\<lparr>cpRest := [13, 10]\<rparr>) = (Inr b, q)"
  shows "codLoop (p\<lparr>cpRest := codLine a v @ t\<rparr>) = codLoop ((if b then q else parserError KErrCodInvalidDescriptor q)\<lparr>cpRest := t\<rparr>)"
  using codLoop_append [of "p\<lparr>cpRest := codLine a v\<rparr>" t] codLine_complete [of a v]
    codLoop_line [of v a "p\<lparr>cpRest := codLine a v\<rparr>" b q] assms by (simp add: addRest_def)

lemmas setter_defs = onObject_def onData_def SetNameL_def SetVendorL_def SetDescriptionL_def SetUrlL_def SetTypeL_def AddTypeL_def
  SetInstallNotifyL_def SetNextUrlL_def SetNextUrlAtErrorL_def SetInfoUrlL_def SetPriceL_def SetIconL_def SetString16L_def SetString8L_def
  moSetString16L_def moSetString8L_def

lemma setAttr_other_rest: "setAttr a al v (p\<lparr>cpRest := r\<rparr>) = (fst (setAttr a al v p), (snd (setAttr a al v p))\<lparr>cpRest := r\<rparr>)"
  by (cases a) (simp_all add: onObject_def onData_def split: prod.splits sum.splits)

lemma setAttr_allocs [simp]: "cpAllocs (snd (setAttr a al v p)) = cpAllocs p"
  by (cases a) (simp_all add: onObject_def onData_def split: prod.splits sum.splits)

lemma setAttr_error [simp]: "cpError (snd (setAttr a al v p)) = cpError p"
  by (cases a) (simp_all add: onObject_def onData_def split: prod.splits sum.splits)

text \<open>The values an attribute takes.\<close>

primrec fits :: "TCodAttr \<Rightarrow> tdes16 \<Rightarrow> bool" where
  "fits ECodVendor v = (length v \<le> COD_VENDOR_MAX_LEN)"
| "fits ECodNextUrl v = (length v \<le> COD_NEXT_URL_MAX_LEN)"
| "fits ECodNextUrlAtError v = (length v \<le> COD_NEXT_URL_AT_ERROR_MAX_LEN)"
| "fits ECodType v = (v \<noteq> [] \<and> length v \<le> COD_TYPE_MAX_LEN)"
| "fits ECodSize v = (\<exists>n. lexUint v = Inr n)"
| "fits ECodName v = True"
| "fits ECodDescription v = True"
| "fits ECodUrl v = True"
| "fits ECodInstallNotify v = True"
| "fits ECodInfoUrl v = True"
| "fits ECodPrice v = True"
| "fits ECodIcon v = True"
| "fits ECodUnknownAttr v = False"

lemma setAttr_fits: "fits a v \<Longrightarrow> fst (setAttr a [] v p) = Inr True"
  by (cases a) (auto simp: setter_defs)

lemma setAttr_no_leave: "\<exists>b. fst (setAttr a [] v p) = Inr b"
  by (cases a) (auto simp: setter_defs split: sum.splits)

definition setLine :: "TCodAttr \<times> tdes16 \<Rightarrow> cod_parser \<Rightarrow> cod_parser" where
  "setLine l = (\<lambda>p. snd (setAttr (fst l) [] (snd l) p))"

lemma codLoop_lines:
  assumes "\<forall>(a, v) \<in> set ls. plainValue v \<and> fits a v" "cpAllocs p = []"
  shows "codLoop (p\<lparr>cpRest := concat (map (case_prod codLine) ls) @ t\<rparr>) = codLoop ((fold setLine ls p)\<lparr>cpRest := t\<rparr>)"
  using assms
proof (induction ls arbitrary: p)
  case (Cons l ls)
  obtain a v where l: "l = (a, v)" by (cases l)
  then have v: "plainValue v" "fits a v" and a: "a \<noteq> ECodUnknownAttr" using Cons.prems by auto
  have s: "setAttr a [] v (p\<lparr>cpRest := [13, 10]\<rparr>) = (Inr True, (snd (setAttr a [] v p))\<lparr>cpRest := [13, 10]\<rparr>)"
    by (simp add: setAttr_other_rest setAttr_fits [OF v(2)])
  show ?case
    using codLoop_line_then [OF v(1) a Cons.prems(2) s] Cons.IH [of "snd (setAttr a [] v p)"] Cons.prems
    by (simp add: l setLine_def)
qed simp

lemma codLoop_done: "codLoop (p\<lparr>cpRest := []\<rparr>) = (None, p\<lparr>cpRest := []\<rparr>)"
  by (subst codLoop.simps) (simp add: AttrLineL_def Let_def skipBlank.simps [of "[]"] SkipWhiteSpace_def IsEndOfLine_def)

lemma digit_plain: "asciiDigit c \<Longrightarrow> IsValueChar c"
  unfolding asciiDigit_def IsValueChar_def IsControl_def IsWhiteSpace_def by (auto simp: word_le_nat_alt)

lemma showDec_plain: "plainValue (showDec n)"
  using showDec_digits [of n] digit_plain unfolding plainValue_def list_all_iff by (metis hd_in_set last_in_set)

lemma lexUint_showDec: "n < 2 ^ 32 \<Longrightarrow> lexUint (showDec n) = Inr n"
proof -
  assume n: "n < 2 ^ 32"
  note d = showDec_digits [of n]
  then have t: "takeWhile asciiDigit (showDec n) = showDec n" by (auto simp: list_all_iff)
  show ?thesis unfolding lexUint_def t using d n by simp
qed

text \<open>A whole descriptor.\<close>

definition showCod :: "tdes16 \<Rightarrow> tdes16 \<Rightarrow> tdes16 \<Rightarrow> tdes16 \<Rightarrow> nat \<Rightarrow> tdes16 \<Rightarrow> tdes16 \<Rightarrow> tdes16 \<Rightarrow> tdes16 \<Rightarrow> tdes16 \<Rightarrow> tdes16 \<Rightarrow> tdes16 \<Rightarrow> tdes16" where
  "showCod name vendor description url sz type notify next atError info price icon = concat (map (case_prod codLine)
     [(ECodName, name), (ECodVendor, vendor), (ECodDescription, description), (ECodUrl, url), (ECodSize, showDec sz), (ECodType, type),
      (ECodInstallNotify, notify), (ECodNextUrl, next), (ECodNextUrlAtError, atError), (ECodInfoUrl, info), (ECodPrice, price), (ECodIcon, icon)])"

text \<open>
  C10: A descriptor is read as it was written. From a text with all the attributes, with values without
  control characters or white space around them and within the limits, the parser makes the data that
  has them, with one object, and the data is valid when the URL is there. A name, description or price
  of the object that is too long is cut.
\<close>

theorem descriptor_is_read:
  assumes v: "\<forall>v \<in> {name, vendor, description, url, type, notify, next, atError, info, price, icon}. plainValue v"
    and len: "length vendor \<le> 40" "length next \<le> 1024" "length atError \<le> 1024" "type \<noteq> []" "length type \<le> 40"
    and sz: "0 < sz" "sz < 2 ^ 31" and url: "url \<noteq> []"
  shows "\<exists>d. ParseL [] [] [] addr (showCod name vendor description url sz type notify next atError info price icon) cdConstructL = (KErrNone, d) \<and>
    d = cdConstructL\<lparr>cdVendor := vendor, cdNextUrl := des_copy8 next, cdNextUrlAtError := des_copy8 atError, cdSize := of_nat sz,
      cdMediaObjects := [(moConstructL addr)\<lparr>moName := take 40 name, moDescription := take 160 description, moUrl := des_copy8 url,
        moSize := of_nat sz, moTypes := [des_copy8 type], moInstallNotify := des_copy8 notify, moInfoUrl := des_copy8 info,
        moPrice := take 32 price, moIcon := des_copy8 icon\<rparr>]\<rparr> \<and> cdIsValid d"
proof -
  let ?ls = "[(ECodName, name), (ECodVendor, vendor), (ECodDescription, description), (ECodUrl, url), (ECodSize, showDec sz), (ECodType, type),
      (ECodInstallNotify, notify), (ECodNextUrl, next), (ECodNextUrlAtError, atError), (ECodInfoUrl, info), (ECodPrice, price), (ECodIcon, icon)]"
  let ?p = "\<lparr>cpAllocs = [], cpError = KErrNone, cpData = cdConstructL, cpObject = moConstructL addr, cpRest = []\<rparr>"
  have s: "sint (word_of_nat sz :: 32 word) = int sz" using sz by (simp add: signed_of_nat signed_take_bit_int_eq_self)
  have pos: "0 < (word_of_nat sz :: 32 word)"
  proof -
    have "(word_of_nat sz :: 32 word) \<noteq> 0" using s sz(1) by (metis of_nat_0_less_iff order_less_irrefl sint_0)
    then show ?thesis by (simp add: word_gt_0)
  qed
  have ok: "\<forall>(a, v) \<in> set ?ls. plainValue v \<and> fits a v"
    using v len sz showDec_plain lexUint_showDec [of sz] by (simp add: cod_limits)
  have "codLoop (?p\<lparr>cpRest := concat (map (case_prod codLine) ?ls) @ []\<rparr>) = codLoop ((fold setLine ?ls ?p)\<lparr>cpRest := []\<rparr>)"
    by (rule codLoop_lines [OF ok]) simp
  moreover have "fold setLine ?ls ?p = ?p\<lparr>cpData := cdConstructL\<lparr>cdVendor := vendor, cdNextUrl := des_copy8 next, cdNextUrlAtError := des_copy8 atError\<rparr>,
    cpObject := (moConstructL addr)\<lparr>moName := take 40 name, moDescription := take 160 description, moUrl := des_copy8 url,
        moSize := of_nat sz, moTypes := [des_copy8 type], moInstallNotify := des_copy8 notify, moInfoUrl := des_copy8 info,
        moPrice := take 32 price, moIcon := des_copy8 icon\<rparr>\<rparr>"
    using len sz s lexUint_showDec [of sz] by (simp add: setLine_def setter_defs cod_limits SetSize_def)
  ultimately show ?thesis using url s sz pos
    by (simp add: ParseL_def showCod_def codLoop_done AppendMediaObjectL_def cdConstructL_def cdIsValid_def moIsValid_def des_copy8_def)
qed

theorem descriptor_is_read_witness:
  "\<exists>d. ParseL [] [] [] 7 (showCod [65] [66] [67] [104] 12 [116] [110] [] [] [] [] []) cdConstructL = (KErrNone, d) \<and> cdIsValid d \<and>
     cdVendor d = [66] \<and> map moUrl (cdMediaObjects d) = [[104]] \<and> map moSize (cdMediaObjects d) = [12]"
proof -
  have v: "\<forall>v \<in> {[65], [66], [67], [104], [116], [110], [], [], [], [], []}. plainValue v"
    by (simp add: plainValue_def IsValueChar_def IsControl_def IsWhiteSpace_def)
  show ?thesis
    using descriptor_is_read [OF v, of 12 7] by (auto simp: des_copy8_def)
qed

subsection \<open>What every line keeps\<close>

text \<open>A relation of the data and the object that every attribute keeps is kept by the loop.\<close>

definition kept :: "(cod_data \<Rightarrow> media_object \<Rightarrow> bool) \<Rightarrow> bool" where
  "kept P \<longleftrightarrow> (\<forall>a al v p. P (cpData p) (cpObject p) \<longrightarrow> P (cpData (snd (setAttr a al v p))) (cpObject (snd (setAttr a al v p))))"

lemma AttrLineL_kept:
  assumes k: "kept P" and p: "P (cpData p) (cpObject p)"
  shows "P (cpData (snd (AttrLineL p))) (cpObject (snd (AttrLineL p)))"
proof -
  let ?p = "p\<lparr>cpRest := skipBlank (cpRest p)\<rparr>"
  obtain attr p1 where n: "AttrName ?p = (attr, p1)" by fastforce
  obtain colon p2 where c: "Colon p1 = (colon, p2)" by fastforce
  obtain v pv where v: "AttrValue p2 = (v, pv)" by fastforce
  let ?pv = "pv\<lparr>cpAllocs := tl (cpAllocs pv)\<rparr>"
  obtain ok ps where s: "setAttr attr (nextAllocs pv) v ?pv = (ok, ps)" by fastforce
  have "P (cpData p1) (cpObject p1)" using n p by (auto simp: AttrName_def Let_def split: if_splits)
  then have p2: "P (cpData p2) (cpObject p2)" using c by (auto simp: Colon_def Let_def split: if_splits)
  then have "P (cpData ?pv) (cpObject ?pv)" using v by (auto simp: AttrValue_def split: prod.splits)
  then have ps: "P (cpData ps) (cpObject ps)" using k s unfolding kept_def by (metis snd_conv)
  have "P (cpData (snd (attrSwitch ?p))) (cpObject (snd (attrSwitch ?p)))"
    using n c v s p2 ps by (auto simp: attrSwitch_def EndOfLine_def split: prod.splits sum.splits)
  then show ?thesis using p by (auto simp: AttrLineL_def Let_def split: prod.splits sum.splits)
qed

lemma codLoop_kept: "kept P \<Longrightarrow> P (cpData p) (cpObject p) \<Longrightarrow> P (cpData (snd (codLoop p))) (cpObject (snd (codLoop p)))"
proof (induction p rule: codLoop.induct)
  case (1 p)
  obtain r p1 where r: "AttrLineL p = (r, p1)" by fastforce
  then have p1: "P (cpData p1) (cpObject p1)" using AttrLineL_kept [OF 1(2,3)] by simp
  show ?case
  proof (cases "r = Inr True")
    case True
    then have "codLoop p = codLoop p1" using r by (subst codLoop.simps) simp
    then show ?thesis using 1(1) [OF r [symmetric] True _ 1(2) p1] by simp
  next
    case False
    then have "snd (codLoop p) = p1" using r by (subst codLoop.simps) (auto split: sum.splits)
    then show ?thesis using p1 by simp
  qed
qed

lemma same_objects_kept: "kept (\<lambda>d m. cdMediaObjects d = ms \<and> moAddr m = addr)"
  unfolding kept_def
proof (intro allI impI)
  fix a al v p
  show "cdMediaObjects (cpData p) = ms \<and> moAddr (cpObject p) = addr \<Longrightarrow>
    cdMediaObjects (cpData (snd (setAttr a al v p))) = ms \<and> moAddr (cpObject (snd (setAttr a al v p))) = addr"
    by (cases a) (auto simp: setter_defs SetSize_def split: sum.splits)
qed

lemma no_total_kept: "kept (\<lambda>d m. cdSize d = 0)"
  unfolding kept_def
proof (intro allI impI)
  fix a al v p
  show "cdSize (cpData p) = 0 \<Longrightarrow> cdSize (cpData (snd (setAttr a al v p))) = 0"
    by (cases a) (auto simp: setter_defs split: sum.splits)
qed

definition inLimits :: "cod_data \<Rightarrow> media_object \<Rightarrow> bool" where
  "inLimits d m \<longleftrightarrow> length (cdVendor d) \<le> 40 \<and> length (cdNextUrl d) \<le> 1024 \<and> length (cdNextUrlAtError d) \<le> 1024 \<and>
     length (moName m) \<le> 40 \<and> length (moDescription m) \<le> 160 \<and> length (moPrice m) \<le> 32 \<and> 0 \<le> sint (moSize m) \<and>
     length (moTypes m) \<le> 1 \<and> (\<forall>t \<in> set (moTypes m). t \<noteq> [] \<and> length t \<le> 40)"

lemma inLimits_kept: "kept inLimits"
  unfolding kept_def
proof (intro allI impI)
  fix a al v p
  show "inLimits (cpData p) (cpObject p) \<Longrightarrow> inLimits (cpData (snd (setAttr a al v p))) (cpObject (snd (setAttr a al v p)))"
    by (cases a) (auto simp: setter_defs SetSize_def inLimits_def cod_limits des_copy8_def split: sum.splits)
qed

text \<open>
  C29: Whatever the text and the memory, the data that the parser leaves is within the limits of the
  attributes, except for the addresses of the object, which may have any length; there is at most one
  object, its size is not negative, it has at most one type, and the total is its size. A text with an
  error leaves an object all the same.
\<close>

theorem descriptor_is_bounded:
  assumes "ParseL alNew als alAppend addr buf cdConstructL = (e, d)"
  shows "length (cdVendor d) \<le> 40 \<and> length (cdNextUrl d) \<le> 1024 \<and> length (cdNextUrlAtError d) \<le> 1024 \<and> length (cdMediaObjects d) \<le> 1 \<and>
    (\<forall>m \<in> set (cdMediaObjects d). cdSize d = moSize m \<and> length (moName m) \<le> 40 \<and> length (moDescription m) \<le> 160 \<and>
       length (moPrice m) \<le> 32 \<and> 0 \<le> sint (moSize m) \<and> length (moTypes m) \<le> 1 \<and> (\<forall>t \<in> set (moTypes m). t \<noteq> [] \<and> length t \<le> 40))"
proof -
  let ?p = "\<lparr>cpAllocs = als, cpError = KErrNone, cpData = cdConstructL, cpObject = moConstructL addr, cpRest = buf\<rparr>"
  have w: "inLimits (cpData (snd (codLoop ?p))) (cpObject (snd (codLoop ?p)))"
    by (rule codLoop_kept [OF inLimits_kept]) (simp add: inLimits_def cdConstructL_def moConstructL_def)
  have z: "cdMediaObjects (cpData (snd (codLoop ?p))) = []" "cdSize (cpData (snd (codLoop ?p))) = 0"
    using codLoop_kept [OF same_objects_kept, of ?p "[]" addr] codLoop_kept [OF no_total_kept, of ?p]
    by (simp_all add: cdConstructL_def moConstructL_def)
  consider "d = cdConstructL" | q where "codLoop ?p = (Some e, q)" "d = cpData q"
    | q where "codLoop ?p = (None, q)" "d = snd (AppendMediaObjectL alAppend (cpObject q) (cpData q))"
    using assms by (auto simp: ParseL_def split: if_splits prod.splits option.splits sum.splits)
  then show ?thesis
  proof cases
    case 1
    then show ?thesis by (simp add: cdConstructL_def)
  next
    case 2
    then show ?thesis using w z by (simp add: inLimits_def)
  next
    case 3
    then show ?thesis using w z by (auto simp: inLimits_def AppendMediaObjectL_def)
  qed
qed

theorem descriptor_is_bounded_witness:
  "\<exists>d. ParseL [] [] [] 7 (codLine ECodSize (showDec 12)) cdConstructL = (KErrNone, d) \<and> map moSize (cdMediaObjects d) = [12] \<and>
     length (cdVendor d) \<le> 40"
proof -
  let ?p = "\<lparr>cpAllocs = [], cpError = KErrNone, cpData = cdConstructL, cpObject = moConstructL 7, cpRest = codLine ECodSize (showDec 12)\<rparr>"
  have "codLoop ?p = (None, ?p\<lparr>cpObject := (moConstructL 7)\<lparr>moSize := 12\<rparr>, cpRest := []\<rparr>)"
    using codLoop_line [OF showDec_plain, of ECodSize ?p 12 True] lexUint_showDec [of 12] by (simp add: SetSize_def)
  then have r: "ParseL [] [] [] 7 (codLine ECodSize (showDec 12)) cdConstructL =
      (KErrNone, cdConstructL\<lparr>cdSize := 12, cdMediaObjects := [(moConstructL 7)\<lparr>moSize := 12\<rparr>]\<rparr>)"
    by (simp add: ParseL_def AppendMediaObjectL_def cdConstructL_def)
  then show ?thesis using descriptor_is_bounded [OF r] by simp
qed

subsection \<open>Errors\<close>

lemma AttrLineL_no_leave:
  assumes "cpAllocs p = []"
  shows "\<exists>b. fst (AttrLineL p) = Inr b" "cpAllocs (snd (AttrLineL p)) = []"
proof -
  let ?p = "p\<lparr>cpRest := skipBlank (cpRest p)\<rparr>"
  obtain attr p1 where n: "AttrName ?p = (attr, p1)" by fastforce
  obtain colon p2 where c: "Colon p1 = (colon, p2)" by fastforce
  obtain v pv where v: "AttrValue p2 = (v, pv)" by fastforce
  let ?pv = "pv\<lparr>cpAllocs := tl (cpAllocs pv)\<rparr>"
  have "cpAllocs p1 = []" using n assms by (auto simp: AttrName_def Let_def split: if_splits)
  then have "cpAllocs p2 = []" using c by (auto simp: Colon_def Let_def split: if_splits)
  then have a: "cpAllocs pv = []" "cpAllocs p2 = []" using v by (auto simp: AttrValue_def split: prod.splits)
  obtain b where b: "fst (setAttr attr (nextAllocs pv) v ?pv) = Inr b" using setAttr_no_leave [of attr v ?pv] a by (auto simp: nextAllocs_def)
  then obtain ps where s: "setAttr attr (nextAllocs pv) v ?pv = (Inr b, ps)" by (cases "setAttr attr (nextAllocs pv) v ?pv") auto
  have "cpAllocs ps = cpAllocs ?pv" using setAttr_allocs [of attr "nextAllocs pv" v ?pv] unfolding s by (simp only: snd_conv)
  then have ps: "cpAllocs ps = []" using a(1) by simp
  have "\<exists>b' q. attrSwitch ?p = (Inr b', q) \<and> cpAllocs q = []"
    using n c v s a ps by (auto simp: attrSwitch_def EndOfLine_def split: prod.splits)
  then show "\<exists>b. fst (AttrLineL p) = Inr b" "cpAllocs (snd (AttrLineL p)) = []"
    using assms by (auto simp: AttrLineL_def Let_def)
qed

lemma codLoop_no_leave: "cpAllocs p = [] \<Longrightarrow> \<exists>q. codLoop p = (None, q) \<and> cpAllocs q = [] \<and> cpRest q = []"
proof (induction p rule: codLoop.induct)
  case (1 p)
  obtain r p1 where r: "AttrLineL p = (r, p1)" by fastforce
  then obtain b where b: "r = Inr b" "cpAllocs p1 = []" using AttrLineL_no_leave [OF 1(2)] by auto
  show ?case
  proof (cases b)
    case True
    have "codLoop p = codLoop p1" using r b True by (subst codLoop.simps) simp
    then show ?thesis using 1(1) [OF r [symmetric] b(1) True b(2)] by simp
  next
    case False
    then have "cpRest p1 = []" using r b by (auto simp: AttrLineL_def Let_def split: if_splits sum.splits prod.splits)
    then show ?thesis using r b False by (subst codLoop.simps) simp
  qed
qed

text \<open>
  An error does not hide the address that the error is to be reported to. Whatever lines come first, the
  install notification that a later line names is in the object that the parser leaves in the data, and
  the error it ends with is that of the lines before.
\<close>

theorem install_notify_survives:
  assumes s: "complete s" and u: "plainValue u" and a: "\<forall>m \<in> set (cdMediaObjects d0). moAddr m \<noteq> addr"
  shows "\<exists>e d d1. ParseL [] [] [] addr s d0 = (e, d1) \<and> ParseL [] [] [] addr (s @ codLine ECodInstallNotify u) d0 = (e, d) \<and>
    cdMediaObjects d \<noteq> [] \<and> moInstallNotify (last (cdMediaObjects d)) = des_copy8 u"
proof -
  let ?p = "\<lparr>cpAllocs = [], cpError = KErrNone, cpData = d0, cpObject = moConstructL addr, cpRest = s\<rparr>"
  obtain q where q: "codLoop ?p = (None, q)" "cpAllocs q = []" "cpRest q = []" using codLoop_no_leave [of ?p] by auto
  have same: "cdMediaObjects (cpData q) = cdMediaObjects d0 \<and> moAddr (cpObject q) = addr"
    using codLoop_kept [OF same_objects_kept, of ?p "cdMediaObjects d0" addr] q(1) by (simp add: moConstructL_def)
  have "setAttr ECodInstallNotify [] u (q\<lparr>cpRest := [13, 10]\<rparr>) = (Inr True, q\<lparr>cpRest := [13, 10], cpObject := (cpObject q)\<lparr>moInstallNotify := des_copy8 u\<rparr>\<rparr>)"
    by (simp add: setter_defs)
  then have "codLoop (q\<lparr>cpRest := codLine ECodInstallNotify u\<rparr>) = (None, q\<lparr>cpObject := (cpObject q)\<lparr>moInstallNotify := des_copy8 u\<rparr>\<rparr>)"
    using codLoop_line_then [OF u, of ECodInstallNotify q True _ "[]"] q by (simp add: codLoop_done)
  moreover have "codLoop (?p\<lparr>cpRest := s @ codLine ECodInstallNotify u\<rparr>) = codLoop (q\<lparr>cpRest := codLine ECodInstallNotify u\<rparr>)"
    using codLoop_append [of ?p "codLine ECodInstallNotify u"] s q(1) by (simp add: addRest_def)
  moreover have "find (\<lambda>i. moAddr (cdMediaObjects d0 ! i) = addr) [0..<length (cdMediaObjects d0)] = None"
    using a by (auto simp: find_None_iff)
  ultimately show ?thesis using q same by (simp add: ParseL_def AppendMediaObjectL_def)
qed

theorem install_notify_survives_witness:
  "\<exists>d. ParseL [] [] [] 7 ([58, 10] @ codLine ECodInstallNotify [110]) cdConstructL = (KErrCodInvalidDescriptor, d) \<and>
     moInstallNotify (last (cdMediaObjects d)) = [110]"
proof -
  let ?q = "\<lparr>cpAllocs = [], cpError = KErrCodInvalidDescriptor, cpData = cdConstructL, cpObject = moConstructL 7, cpRest = []\<rparr>"
  have w: "\<not> IsWhiteSpace 58" "\<not> IsEndOfLine [58, 10]" "skipBlank [58, 10] = [58, 10]" "\<not> nameChar 58" "\<not> IsWhiteSpace 10"
    by (simp_all add: skipBlank.simps [of "[58, 10]"] IsWhiteSpace_def IsEndOfLine_def SkipWhiteSpace_def KCodLineFeed_def KCodCarriageRet_def
        nameChar_def IsSeparator_def)
  have "AttrLineL \<lparr>cpAllocs = [], cpError = KErrNone, cpData = cdConstructL, cpObject = moConstructL 7, cpRest = [58, 10]\<rparr> = (Inr True, ?q)"
    by (simp add: AttrLineL_def Let_def w attrSwitch_def AttrName_def Colon_def SkipWhiteSpace_def KCodColon_def NextLine_def KCodLineFeed_def
        parserError_def)
  then have "fst (ParseL [] [] [] 7 [58, 10] cdConstructL) = KErrCodInvalidDescriptor"
    using codLoop_done [of ?q] by (simp add: ParseL_def codLoop.simps [of "\<lparr>cpAllocs = [], cpError = KErrNone, cpData = _, cpObject = _, cpRest = _\<rparr>"]
        AppendMediaObjectL_def cdConstructL_def)
  moreover have "complete [58, 10]" "plainValue [110]" "\<forall>m \<in> set (cdMediaObjects cdConstructL). moAddr m \<noteq> 7"
    by (simp_all add: complete_def KCodLineFeed_def plainValue_def IsValueChar_def IsControl_def IsWhiteSpace_def cdConstructL_def)
  ultimately show ?thesis
    using install_notify_survives [of "[58, 10]" "[110]" cdConstructL 7] by (auto simp: des_copy8_def)
qed

text \<open>
  White space may follow a value, but not a tab: the end of the line is checked for control characters
  before white space, and a tab is both. The line is reported as an error although its value is taken.
\<close>

theorem tab_after_value_is_error:
  assumes v: "plainValue v" "v \<noteq> []" "length v \<le> 40"
  shows "\<exists>d. ParseL [] [] [] addr (codLine ECodVendor (v @ [9])) cdConstructL = (KErrCodInvalidDescriptor, d) \<and>
    ParseL [] [] [] addr (codLine ECodVendor (v @ [32])) cdConstructL = (KErrNone, d) \<and> cdVendor d = v"
proof -
  let ?p = "\<lambda>ws. \<lparr>cpAllocs = [], cpError = KErrNone, cpData = cdConstructL, cpObject = moConstructL addr, cpRest = codLine ECodVendor (v @ ws)\<rparr>"
  let ?q = "\<lambda>ws. (?p ws)\<lparr>cpData := cdConstructL\<lparr>cdVendor := v\<rparr>, cpRest := []\<rparr>"
  have w: "list_all IsWhiteSpace [9]" "list_all IsWhiteSpace [32]" "IsControl 9" "\<not> IsControl 32"
    by (simp_all add: IsWhiteSpace_def IsControl_def)
  have s: "setAttr ECodVendor [] v ((?p ws)\<lparr>cpRest := ws @ [13, 10]\<rparr>) = (Inr True, (?q ws)\<lparr>cpRest := ws @ [13, 10]\<rparr>)" for ws
    using v(3) by (simp add: setter_defs cod_limits)
  have "codLoop (?p [9]) = (None, (?q [9])\<lparr>cpError := KErrCodInvalidDescriptor\<rparr>)" "codLoop (?p [32]) = (None, ?q [32])"
    using codLoop_line_ws [OF v(1) _ w(1) _ _ _ s] codLoop_line_ws [OF v(1) _ w(2) _ _ _ s] v(2) w(3,4)
    by (simp_all add: parserError_def)
  then show ?thesis by (simp add: ParseL_def AppendMediaObjectL_def cdConstructL_def)
qed

theorem tab_after_value_is_error_witness:
  "\<exists>d. ParseL [] [] [] 7 (codLine ECodVendor [65, 9]) cdConstructL = (KErrCodInvalidDescriptor, d) \<and> cdVendor d = [65]"
  using tab_after_value_is_error [of "[65]" 7] by (auto simp: plainValue_def IsValueChar_def IsControl_def IsWhiteSpace_def)

end
