(* ===== verification/CodBuffer.thy ===== *)
theory CodBuffer
  imports CodData "HOL-Library.Monad_Syntax"
begin

text \<open>
  The storage of a download (codhandler/codeng): \<open>CCodBuffStorage\<close> collects the data in two buffers, one
  filled while the other is written, and \<open>CFileSaver\<close> is the saver that owns the file. The write of a
  full buffer is asynchronous: it ends in \<open>RunL\<close>, which the code waits for where it needs the buffer
  again. A write takes its outcome from \<open>bsIo\<close>: all went well, or an error after some bytes. Using a
  buffer that was deleted is a fault. Other events while the code waits in its own scheduler loop are
  not modelled.
\<close>

record buff_storage =
  bsOpen :: bool
  bsFile :: tdes8
  bsPos :: nat
  bsDownloadedSize :: int
  bsBufferedSize :: int
  bsStorageBufferSize :: nat
  bsStorageLength :: int
  bsProgressive :: bool
  bsBuff1 :: "tdes8 option"
  bsBuff2 :: "tdes8 option"
  bsClient :: "bool option"
  bsWritePtr :: "(bool \<times> nat) option"
  bsBufferSize :: nat
  bsLastWriteErrorCode :: symerr
  bsActive :: bool
  bsIo :: "(symerr \<times> nat) list"

definition KDefaultContentLength :: int where "KDefaultContentLength = - 1"
definition KDefaultStorageBufferSize :: nat where "KDefaultStorageBufferSize = 128 * 1024"
definition KDefaultStorageBufferSizePD :: nat where "KDefaultStorageBufferSizePD = 16 * 1024"

definition buffOf :: "bool \<Rightarrow> buff_storage \<Rightarrow> tdes8 option" where
  "buffOf b s = (if b then bsBuff1 s else bsBuff2 s)"

definition setBuff :: "bool \<Rightarrow> tdes8 \<Rightarrow> buff_storage \<Rightarrow> buff_storage" where
  "setBuff b d s = (if b then s\<lparr>bsBuff1 := Some d\<rparr> else s\<lparr>bsBuff2 := Some d\<rparr>)"

text \<open>A write goes to the position of the file and moves it; one to a file that is not open is a panic.\<close>

definition bsWrite :: "tdes8 \<Rightarrow> buff_storage \<Rightarrow> (symerr \<times> buff_storage) option" where
  "bsWrite d s =
    (let (err, k) = (if bsIo s = [] then (KErrNone, 0) else hd (bsIo s));
         out = (if err = KErrNone then d else take k d)
     in if \<not> bsOpen s then None else Some (err, s\<lparr>bsFile := take (bsPos s) (bsFile s) @ out @ drop (bsPos s + length out) (bsFile s), bsPos := bsPos s + length out,
                bsIo := tl (bsIo s)\<rparr>))"

text \<open>The asynchronous write has come to its end.\<close>

definition bsRunL :: "buff_storage \<Rightarrow> buff_storage option" where
  "bsRunL s =
    (case bsWritePtr s of
       None \<Rightarrow> None
     | Some (b, n) \<Rightarrow> do {
         d \<leftarrow> buffOf b s;
         (err, s1) \<leftarrow> bsWrite (take n d) s;
         Some (s1\<lparr>bsActive := False, bsLastWriteErrorCode := err,
                  bsDownloadedSize := (if err = KErrNone then bsDownloadedSize s1 + int n else bsDownloadedSize s1)\<rparr>) })"

definition bsWait :: "buff_storage \<Rightarrow> buff_storage option" where
  "bsWait s = (if bsActive s then bsRunL s else Some s)"

definition ResetBuffers :: "buff_storage \<Rightarrow> buff_storage option" where
  "ResetBuffers s = do {
     s1 \<leftarrow> bsWait s;
     Some (s1\<lparr>bsBuff1 := None, bsBuff2 := None, bsClient := None, bsBufferSize := 0\<rparr>) }"

text \<open>A full buffer is handed over for writing, and the other one is emptied and filled next.\<close>

definition swapBuffers :: "bool \<Rightarrow> nat \<Rightarrow> buff_storage \<Rightarrow> buff_storage" where
  "swapBuffers b n s = setBuff (\<not> b) [] (s\<lparr>bsWritePtr := Some (b, n), bsActive := True, bsClient := Some (\<not> b)\<rparr>)"

partial_function (option) bsLoop :: "tdes8 \<Rightarrow> buff_storage \<Rightarrow> (symerr \<times> buff_storage) option" where
  "bsLoop src s =
    (if src = [] then Some (KErrNone, s)
     else do {
       b \<leftarrow> bsClient s;
       buff \<leftarrow> buffOf b s;
       let toFillUp = bsBufferSize s - length buff;
       if length src < toFillUp then
         Some (KErrNone, setBuff b (buff @ src) (s\<lparr>bsBufferedSize := bsBufferedSize s + int (length src)\<rparr>))
       else do {
         s2 \<leftarrow> bsWait (setBuff b (buff @ take toFillUp src) (s\<lparr>bsBufferedSize := bsBufferedSize s + int (length (take toFillUp src))\<rparr>));
         if bsLastWriteErrorCode s2 \<noteq> KErrNone then Some (bsLastWriteErrorCode s2, s2\<lparr>bsLastWriteErrorCode := KErrNone\<rparr>)
         else do {
           full \<leftarrow> buffOf b s2;
           if bsProgressive s2 then
             do {
               (err, s3) \<leftarrow> bsWrite full s2;
               if err \<noteq> KErrNone then Some (err, s3)
               else bsLoop (drop toFillUp src) (setBuff b [] (s3\<lparr>bsDownloadedSize := bsDownloadedSize s3 + int (length full)\<rparr>)) }
           else bsLoop (drop toFillUp src) (swapBuffers b (length full) s2) } } })"

definition DoBufferingWriteL :: "allocs \<Rightarrow> tdes8 \<Rightarrow> buff_storage \<Rightarrow> (symerr \<times> buff_storage) option" where
  "DoBufferingWriteL al aBuf s =
    (if bsBufferSize s \<noteq> bsStorageBufferSize s \<or> bsClient s = None then
       let s0 = s\<lparr>bsBuff1 := None, bsBuff2 := None, bsBufferSize := 0\<rparr> in
       if \<not> alloc_ok al then Some (KErrNoMemory, s0)
       else if \<not> alloc_ok (alloc_rest al) then Some (KErrNoMemory, s0\<lparr>bsBuff1 := Some []\<rparr>)
       else bsLoop aBuf (s0\<lparr>bsBuff1 := Some [], bsBuff2 := Some [], bsBufferSize := bsStorageBufferSize s, bsClient := Some True\<rparr>)
     else bsLoop aBuf s)"

text \<open>The first data goes to the file at once; the flush of the file is a write of nothing.\<close>

definition storeBodyL :: "allocs \<Rightarrow> tdes8 \<Rightarrow> buff_storage \<Rightarrow> (symerr \<times> buff_storage) option" where
  "storeBodyL al aBuf s =
    (if bsDownloadedSize s \<le> 0 then do {
       (err, s1) \<leftarrow> bsWrite aBuf s;
       if err \<noteq> KErrNone then Some (err, s1)
       else do {
         (err, s2) \<leftarrow> bsWrite [] s1;
         Some (err, if err \<noteq> KErrNone then s2 else s2\<lparr>bsDownloadedSize := bsDownloadedSize s2 + int (length aBuf)\<rparr>) } }
     else DoBufferingWriteL al aBuf s)"

definition WriteOutNextBodyDataL :: "allocs \<Rightarrow> tdes8 \<Rightarrow> buff_storage \<Rightarrow> (symerr \<times> bool \<times> buff_storage) option" where
  "WriteOutNextBodyDataL al aBuf s = do {
     (err, s1) \<leftarrow> storeBodyL al aBuf s;
     Some (if err \<noteq> KErrNone then (err, False, s1)
           else if bsStorageLength s1 \<noteq> KDefaultContentLength \<and> bsBufferedSize s1 > bsStorageLength s1
           then (KErrNone, False, s1\<lparr>bsStorageLength := KDefaultContentLength\<rparr>) else (KErrNone, True, s1)) }"

definition FlushBuffersL :: "buff_storage \<Rightarrow> (symerr \<times> buff_storage) option" where
  "FlushBuffersL s = do {
     s1 \<leftarrow> bsWait s;
     if bsLastWriteErrorCode s1 \<noteq> KErrNone then Some (bsLastWriteErrorCode s1, s1\<lparr>bsLastWriteErrorCode := KErrNone\<rparr>)
     else
       (case bsClient s1 of
          None \<Rightarrow> Some (KErrNone, s1)
        | Some b \<Rightarrow> do {
            d \<leftarrow> buffOf b s1;
            if d = [] then Some (KErrNone, s1)
            else do {
              (err, s2) \<leftarrow> bsWrite d s1;
              Some (err, if err \<noteq> KErrNone then s2
                else setBuff b [] (s2\<lparr>bsDownloadedSize := bsDownloadedSize s2 + int (length d)\<rparr>)) } }) }"

definition ClearErrors :: "buff_storage \<Rightarrow> buff_storage" where
  "ClearErrors s = s\<lparr>bsLastWriteErrorCode := KErrNone\<rparr>"

subsection \<open>The saver of files\<close>

datatype saver_state = EInit | EStoreOpen | EStoreClosed | ERespChecked | EInstalling | EInstalled

text \<open>\<open>iSize\<close> of the saver is the downloaded size of the storage, which has a reference to it.\<close>

record file_saver =
  fsStorage :: buff_storage
  fsDisk :: "tdes16 \<Rightarrow> tdes8 option"
  fsFname :: tdes16
  fsMaxSize :: int
  fsState :: saver_state

definition KErrCodAttributeMismatch :: symerr where "KErrCodAttributeMismatch = KErrOther (- 1004)"

definition CheckMaxSize :: "nat \<Rightarrow> file_saver \<Rightarrow> symerr" where
  "CheckMaxSize n v =
    (if fsMaxSize v \<noteq> 0 \<and> bsDownloadedSize (fsStorage v) + int n > fsMaxSize v then KErrCodAttributeMismatch else KErrNone)"

text \<open>At least 10 KB; \<open>oversize\<close> is the floating point product with 1.4, cut to an integer.\<close>

definition SetMaxSize :: "(int \<Rightarrow> int) \<Rightarrow> int \<Rightarrow> file_saver \<Rightarrow> file_saver" where
  "SetMaxSize oversize aSize v = v\<lparr>fsMaxSize := max (oversize aSize) 10240\<rparr>"

definition onStorage :: "(buff_storage \<Rightarrow> (symerr \<times> buff_storage) option) \<Rightarrow> file_saver \<Rightarrow> (symerr \<times> file_saver) option" where
  "onStorage f v = map_option (\<lambda>(err, s). (err, v\<lparr>fsStorage := s\<rparr>)) (f (fsStorage v))"

text \<open>The answer of the storage, which is 1 when all went well, is returned as the error code; only negative ones are errors.\<close>

definition AppendData :: "allocs \<Rightarrow> tdes8 \<Rightarrow> file_saver \<Rightarrow> (symerr \<times> file_saver) option" where
  "AppendData al aData v =
    (if CheckMaxSize (length aData) v \<noteq> KErrNone then Some (CheckMaxSize (length aData) v, v)
     else onStorage (\<lambda>s. map_option (\<lambda>(err, ok, s1). (err, s1)) (WriteOutNextBodyDataL al aData s)) v)"

definition fsFlushL :: "file_saver \<Rightarrow> (symerr \<times> file_saver) option" where
  "fsFlushL = onStorage (\<lambda>s. do {
     (err, s1) \<leftarrow> FlushBuffersL s;
     if err \<noteq> KErrNone then Some (err, s1) else map_option (Pair KErrNone) (ResetBuffers s1) })"

text \<open>The contents of the open file are those of the storage.\<close>

definition closeFile :: "file_saver \<Rightarrow> file_saver" where
  "closeFile v =
    (let s = fsStorage v in
     if bsOpen s then v\<lparr>fsDisk := (fsDisk v)(fsFname v \<mapsto> bsFile s), fsStorage := s\<lparr>bsOpen := False\<rparr>\<rparr> else v)"

definition CloseStore :: "file_saver \<Rightarrow> (symerr \<times> file_saver) option" where
  "CloseStore v = do {
     (err, v1) \<leftarrow> fsFlushL v;
     Some (if err \<noteq> KErrNone then (err, v1) else (KErrNone, (closeFile v1)\<lparr>fsState := EStoreClosed\<rparr>)) }"

definition OnComplete :: "file_saver \<Rightarrow> (symerr \<times> file_saver) option" where
  "OnComplete v = do {
     (err, v1) \<leftarrow> fsFlushL v;
     Some (if err \<noteq> KErrNone then (err, v1) else (KErrNone, closeFile (v1\<lparr>fsStorage := ClearErrors (fsStorage v1)\<rparr>))) }"

text \<open>An existing file is continued at its end; another error than a missing file is ignored.\<close>

definition OpenStoreL :: "symerr \<Rightarrow> file_saver \<Rightarrow> file_saver" where
  "OpenStoreL err v =
    (let v1 = v\<lparr>fsStorage := (fsStorage v)\<lparr>bsDownloadedSize := 0\<rparr>, fsState := EStoreOpen\<rparr> in
     if err \<noteq> KErrNone then v1
     else let d = (case fsDisk v (fsFname v) of None \<Rightarrow> [] | Some d \<Rightarrow> d)
       in v1\<lparr>fsDisk := (fsDisk v)(fsFname v \<mapsto> d), fsStorage := (fsStorage v1)\<lparr>bsOpen := True, bsFile := d, bsPos := length d\<rparr>\<rparr>)"

text \<open>\<open>SetSize\<close> cuts the file, or extends it by bytes that are not defined.\<close>

definition setFileSize :: "tdes8 \<Rightarrow> nat \<Rightarrow> buff_storage \<Rightarrow> buff_storage" where
  "setFileSize junk n s = s\<lparr>bsFile := take n (bsFile s @ junk)\<rparr>"

definition SetProgressiveMode :: "tdes8 \<Rightarrow> bool \<Rightarrow> file_saver \<Rightarrow> (symerr \<times> file_saver) option" where
  "SetProgressiveMode junk aValue v = do {
     let s = (fsStorage v)\<lparr>bsProgressive := aValue,
           bsStorageBufferSize := (if aValue then KDefaultStorageBufferSizePD else bsStorageBufferSize (fsStorage v))\<rparr>;
     let v1 = v\<lparr>fsStorage := s\<rparr>;
     (err, v2) \<leftarrow> (if bsStorageBufferSize s \<noteq> bsBufferSize s then fsFlushL v1 else Some (KErrNone, v1));
     let s2 = fsStorage v2;
     Some (if err \<noteq> KErrNone then (err, v2)
       else (KErrNone, if \<not> bsOpen s2 then v2
         else if aValue then (if bsStorageLength s2 \<noteq> KDefaultContentLength then v2\<lparr>fsStorage := setFileSize junk (nat (bsStorageLength s2)) s2\<rparr> else v2)
         else v2\<lparr>fsStorage := setFileSize junk (nat (bsDownloadedSize s2)) s2\<rparr>)) }"

definition Cleanup :: "bool \<Rightarrow> file_saver \<Rightarrow> (symerr \<times> file_saver) option" where
  "Cleanup aDeleteFile v = do {
     (err, v1) \<leftarrow> CloseStore v;
     Some (if err \<noteq> KErrNone then (err, v1)
       else (KErrNone, (if aDeleteFile then v1\<lparr>fsDisk := (fsDisk v1)(fsFname v1 := None)\<rparr> else v1)
         \<lparr>fsFname := [], fsStorage := (fsStorage v1)\<lparr>bsDownloadedSize := 0\<rparr>, fsState := EInit\<rparr>)) }"

definition ReleaseContent :: "file_saver \<Rightarrow> tdes16 \<times> file_saver" where
  "ReleaseContent v = (fsFname v, v\<lparr>fsFname := [], fsStorage := (fsStorage v)\<lparr>bsDownloadedSize := 0\<rparr>, fsState := EInit\<rparr>)"

text \<open>A write that is under way is carried out before the file is closed.\<close>

definition fsResetL :: "symerr \<Rightarrow> file_saver \<Rightarrow> (symerr \<times> file_saver) option" where
  "fsResetL err v = do {
     s \<leftarrow> bsWait (fsStorage v);
     let v1 = closeFile (v\<lparr>fsStorage := s\<rparr>);
     Some (if err \<noteq> KErrNone then (err, v1)
       else (KErrNone, v1\<lparr>fsDisk := (fsDisk v1)(fsFname v1 \<mapsto> []),
         fsStorage := (fsStorage v1)\<lparr>bsOpen := True, bsFile := [], bsPos := 0\<rparr>\<rparr>)) }"

definition DownloadedFileSize :: "file_saver \<Rightarrow> int option" where
  "DownloadedFileSize v = (if bsOpen (fsStorage v) then Some (int (length (bsFile (fsStorage v)))) else None)"

end
