(* ===== verification/CodBufferSpec.thy ===== *)
theory CodBufferSpec
  imports CodBuffer
begin

text \<open>
  The double buffering of downloads loses nothing without an error: what was received is what is in the
  file, in the buffer that is being written and in the one that is being filled, in this order.
\<close>

definition written :: "buff_storage \<Rightarrow> tdes8" where
  "written s = take (bsPos s) (bsFile s)"

definition inFlight :: "buff_storage \<Rightarrow> tdes8" where
  "inFlight s = (if bsActive s then case bsWritePtr s of Some (b, n) \<Rightarrow> take n (the (buffOf b s)) | None \<Rightarrow> [] else [])"

definition inClient :: "buff_storage \<Rightarrow> tdes8" where
  "inClient s = (case bsClient s of Some b \<Rightarrow> the (buffOf b s) | None \<Rightarrow> [])"

definition received :: "buff_storage \<Rightarrow> tdes8" where
  "received s = written s @ inFlight s @ inClient s"

definition bs_ok :: "buff_storage \<Rightarrow> bool" where
  "bs_ok s \<longleftrightarrow> bsOpen s \<and> bsPos s \<le> length (bsFile s) \<and> 0 < bsStorageBufferSize s \<and>
     (bsClient s = None \<longrightarrow> \<not> bsActive s) \<and> (bsActive s \<longrightarrow> bsLastWriteErrorCode s = KErrNone) \<and>
     (\<forall>b. bsClient s = Some b \<longrightarrow> 0 < bsDownloadedSize s \<and> bsBufferSize s = bsStorageBufferSize s \<and>
        (\<exists>c d. buffOf b s = Some c \<and> buffOf (\<not> b) s = Some d \<and> length c \<le> bsBufferSize s \<and> length d \<le> bsBufferSize s \<and>
           (bsActive s \<longrightarrow> bsWritePtr s = Some (\<not> b, length d))))"

text \<open>As long as no write has failed, what was received is \<open>r\<close>, and the count is right; \<open>k\<close> bytes were there before.\<close>

definition tracks :: "int \<Rightarrow> tdes8 \<Rightarrow> buff_storage \<Rightarrow> bool" where
  "tracks k r s \<longleftrightarrow> bs_ok s \<and> (bsLastWriteErrorCode s = KErrNone \<longrightarrow>
     received s = r \<and> bsDownloadedSize s = int (length (written s)) - k)"

lemma buffOf_setBuff [simp]:
  "buffOf b (setBuff b d s) = Some d" "buffOf (\<not> b) (setBuff b d s) = buffOf (\<not> b) s" "buffOf b (setBuff (\<not> b) d s) = buffOf b s"
  by (simp_all add: buffOf_def setBuff_def)

lemma setBuff_fields [simp]:
  "bsOpen (setBuff b d s) = bsOpen s" "bsFile (setBuff b d s) = bsFile s" "bsPos (setBuff b d s) = bsPos s"
  "bsDownloadedSize (setBuff b d s) = bsDownloadedSize s" "bsBufferedSize (setBuff b d s) = bsBufferedSize s"
  "bsStorageBufferSize (setBuff b d s) = bsStorageBufferSize s" "bsStorageLength (setBuff b d s) = bsStorageLength s"
  "bsProgressive (setBuff b d s) = bsProgressive s" "bsClient (setBuff b d s) = bsClient s" "bsWritePtr (setBuff b d s) = bsWritePtr s"
  "bsBufferSize (setBuff b d s) = bsBufferSize s" "bsLastWriteErrorCode (setBuff b d s) = bsLastWriteErrorCode s"
  "bsActive (setBuff b d s) = bsActive s" "bsIo (setBuff b d s) = bsIo s" "written (setBuff b d s) = written s"
  by (simp_all add: setBuff_def written_def)

lemma buffOf_update [simp]:
  "buffOf b (s\<lparr>bsBufferedSize := x\<rparr>) = buffOf b s" "buffOf b (s\<lparr>bsDownloadedSize := x\<rparr>) = buffOf b s"
  "buffOf b (s\<lparr>bsLastWriteErrorCode := e\<rparr>) = buffOf b s" "buffOf b (s\<lparr>bsActive := a\<rparr>) = buffOf b s"
  "buffOf b (s\<lparr>bsStorageLength := x\<rparr>) = buffOf b s" "buffOf b (s\<lparr>bsWritePtr := w\<rparr>) = buffOf b s" "buffOf b (s\<lparr>bsClient := c\<rparr>) = buffOf b s"
  by (simp_all add: buffOf_def)

text \<open>A write: all of it at the end of what is written, or an error.\<close>

lemma bsWrite_ok:
  assumes "bsOpen s" "bsPos s \<le> length (bsFile s)"
  shows "\<exists>err s'. bsWrite d s = Some (err, s') \<and> (err = KErrNone \<longrightarrow> written s' = written s @ d) \<and> (bsIo s = [] \<longrightarrow> err = KErrNone \<and> bsIo s' = []) \<and>
    bsPos s' \<le> length (bsFile s') \<and> (\<forall>b. buffOf b s' = buffOf b s) \<and>
    s'\<lparr>bsFile := bsFile s, bsPos := bsPos s, bsIo := bsIo s\<rparr> = s"
  using assms by (auto simp: bsWrite_def written_def buffOf_def Let_def split: prod.splits)

lemma same_but_file:
  assumes "s'\<lparr>bsFile := bsFile s, bsPos := bsPos s, bsIo := bsIo s\<rparr> = s"
  shows "bsOpen s' = bsOpen s" "bsDownloadedSize s' = bsDownloadedSize s" "bsStorageBufferSize s' = bsStorageBufferSize s"
    "bsStorageLength s' = bsStorageLength s" "bsProgressive s' = bsProgressive s" "bsClient s' = bsClient s" "bsWritePtr s' = bsWritePtr s"
    "bsBufferSize s' = bsBufferSize s" "bsLastWriteErrorCode s' = bsLastWriteErrorCode s" "bsActive s' = bsActive s"
    "bsBufferedSize s' = bsBufferedSize s"
  using arg_cong [OF assms, of bsOpen] arg_cong [OF assms, of bsDownloadedSize] arg_cong [OF assms, of bsStorageBufferSize]
    arg_cong [OF assms, of bsStorageLength] arg_cong [OF assms, of bsProgressive] arg_cong [OF assms, of bsClient]
    arg_cong [OF assms, of bsWritePtr] arg_cong [OF assms, of bsBufferSize] arg_cong [OF assms, of bsLastWriteErrorCode]
    arg_cong [OF assms, of bsActive] arg_cong [OF assms, of bsBufferedSize]
  by simp_all

text \<open>No failure is pending, and none will come.\<close>

definition smooth :: "buff_storage \<Rightarrow> bool" where
  "smooth s \<longleftrightarrow> bsIo s = [] \<and> bsLastWriteErrorCode s = KErrNone"

lemma smooth_update [simp]: "smooth (setBuff b d s) = smooth s" "smooth (s\<lparr>bsBufferedSize := n\<rparr>) = smooth s"
  by (simp_all add: smooth_def)

text \<open>Waiting for the write that is under way, if there is one.\<close>

lemma bsWait_ok:
  assumes t: "tracks k r s"
  shows "\<exists>s'. bsWait s = Some s' \<and> tracks k r s' \<and> \<not> bsActive s' \<and> bsClient s' = bsClient s \<and> (\<forall>b. buffOf b s' = buffOf b s) \<and>
    bsProgressive s' = bsProgressive s \<and> bsBufferSize s' = bsBufferSize s \<and> bsStorageBufferSize s' = bsStorageBufferSize s \<and>
    bsStorageLength s' = bsStorageLength s \<and> bsBufferedSize s' = bsBufferedSize s \<and> bsDownloadedSize s \<le> bsDownloadedSize s' \<and>
    (smooth s \<longrightarrow> smooth s')"
proof (cases "bsActive s")
  case False
  then show ?thesis using t by (auto simp: bsWait_def)
next
  case True
  have ok: "bs_ok s" using t by (simp add: tracks_def)
  then obtain b c d where b: "bsClient s = Some b" "0 < bsDownloadedSize s" "bsBufferSize s = bsStorageBufferSize s" "buffOf b s = Some c"
    "buffOf (\<not> b) s = Some d" "length c \<le> bsBufferSize s" "bsWritePtr s = Some (\<not> b, length d)"
    using True unfolding bs_ok_def by (cases "bsClient s") auto
  obtain err s1 where w: "bsWrite d s = Some (err, s1)" "err = KErrNone \<longrightarrow> written s1 = written s @ d"
    "bsIo s = [] \<longrightarrow> err = KErrNone \<and> bsIo s1 = []" "bsPos s1 \<le> length (bsFile s1)" "\<forall>b. buffOf b s1 = buffOf b s"
    "s1\<lparr>bsFile := bsFile s, bsPos := bsPos s, bsIo := bsIo s\<rparr> = s"
    using bsWrite_ok [of s d] ok by (auto simp: bs_ok_def)
  note f = same_but_file [OF w(6)]
  let ?s = "s1\<lparr>bsActive := False, bsLastWriteErrorCode := err,
    bsDownloadedSize := (if err = KErrNone then bsDownloadedSize s1 + int (length d) else bsDownloadedSize s1)\<rparr>"
  have r: "bsWait s = Some ?s" using True b w(1) by (simp add: bsWait_def bsRunL_def)
  have e: "received s = r" "bsDownloadedSize s = int (length (written s)) - k" using t True ok by (auto simp: tracks_def bs_ok_def)
  have in_s: "inFlight s = d" "inClient s = c" using True b by (simp_all add: inFlight_def inClient_def)
  have bo: "buffOf x ?s = buffOf x s" for x using w(5) [rule_format, of x] by (cases x) (simp_all add: buffOf_def)
  have in': "inFlight ?s = []" "inClient ?s = c" using bo b(1,4) f by (simp_all add: inFlight_def inClient_def)
  have wr: "written ?s = written s1" by (simp add: written_def)
  have "bs_ok ?s" using ok b w(4) f bo by (auto simp: bs_ok_def)
  moreover have "received ?s = r \<and> bsDownloadedSize ?s = int (length (written ?s)) - k" if "err = KErrNone"
    using that e in_s in' w(2) f wr by (simp add: received_def)
  ultimately have "tracks k r ?s" by (simp add: tracks_def)
  then show ?thesis using r f bo w(3) by (intro exI [of _ ?s]) (auto simp: smooth_def)
qed

text \<open>The fields that an operation of the storage leaves as they are.\<close>

definition same_mode :: "buff_storage \<Rightarrow> buff_storage \<Rightarrow> bool" where
  "same_mode s s' \<longleftrightarrow> bsProgressive s' = bsProgressive s \<and> bsStorageBufferSize s' = bsStorageBufferSize s \<and> bsDownloadedSize s \<le> bsDownloadedSize s'"

lemma swapBuffers_tracks:
  assumes t: "tracks k r s" and b: "bsClient s = Some b" "buffOf b s = Some d" and a: "\<not> bsActive s" "bsLastWriteErrorCode s = KErrNone"
  shows "tracks k r (swapBuffers b (length d) s)"
proof -
  let ?s = "swapBuffers b (length d) s"
  have bo: "buffOf (\<not> b) ?s = Some []" "buffOf b ?s = Some d" using b by (simp_all add: swapBuffers_def)
  have w: "written ?s = written s" by (simp add: swapBuffers_def written_def)
  have "inFlight ?s = d" "inClient ?s = []" using bo by (simp_all add: swapBuffers_def inFlight_def inClient_def)
  moreover have "inFlight s = []" "inClient s = d" using a b by (simp_all add: inFlight_def inClient_def)
  moreover have "bs_ok ?s" using t b a bo by (auto simp: tracks_def bs_ok_def swapBuffers_def)
  ultimately show ?thesis using t a w by (simp add: tracks_def received_def swapBuffers_def)
qed

text \<open>Data that is filled into the buffer of the client.\<close>

lemma fill_tracks:
  assumes t: "tracks k r s" and b: "bsClient s = Some b" "buffOf b s = Some d" and l: "length d + length x \<le> bsBufferSize s"
  shows "tracks k (r @ x) (setBuff b (d @ x) (s\<lparr>bsBufferedSize := n\<rparr>))"
proof -
  let ?s = "setBuff b (d @ x) (s\<lparr>bsBufferedSize := n\<rparr>)"
  have ok: "bs_ok s" using t by (simp add: tracks_def)
  obtain c where c: "buffOf (\<not> b) s = Some c" "bsActive s \<longrightarrow> bsWritePtr s = Some (\<not> b, length c)" using ok b by (auto simp: bs_ok_def)
  have bo: "buffOf b ?s = Some (d @ x)" "buffOf (\<not> b) ?s = Some c" using c(1) by simp_all
  have "bs_ok ?s" using ok b bo c l by (auto simp: bs_ok_def)
  moreover have "inClient ?s = inClient s @ x" using b bo by (simp add: inClient_def)
  moreover have "inFlight ?s = inFlight s" using c bo by (simp add: inFlight_def)
  moreover have "written ?s = written s" by (simp add: written_def)
  ultimately show ?thesis using t by (auto simp: tracks_def received_def)
qed

text \<open>The buffer of the client is written out at once.\<close>

lemma sync_write:
  assumes t: "tracks k r s" and b: "bsClient s = Some b" "buffOf b s = Some d" and a: "\<not> bsActive s" "bsLastWriteErrorCode s = KErrNone"
  shows "\<exists>err s'. bsWrite d s = Some (err, s') \<and> (bsIo s = [] \<longrightarrow> err = KErrNone \<and> bsIo s' = []) \<and> tracks k [] (s'\<lparr>bsLastWriteErrorCode := KErrOverflow\<rparr>) \<and>
    bsLastWriteErrorCode s' = KErrNone \<and> same_mode s s' \<and>
    (err = KErrNone \<longrightarrow> (let s2 = setBuff b [] (s'\<lparr>bsDownloadedSize := bsDownloadedSize s' + int (length d)\<rparr>) in
       tracks k r s2 \<and> written s2 = r \<and> bsClient s2 = Some b \<and> buffOf b s2 = Some [] \<and> bsBufferSize s2 = bsBufferSize s \<and>
       bsLastWriteErrorCode s2 = KErrNone \<and> same_mode s s2 \<and> \<not> bsActive s2))"
proof -
  have ok: "bs_ok s" using t by (simp add: tracks_def)
  obtain err s' where w: "bsWrite d s = Some (err, s')" "err = KErrNone \<longrightarrow> written s' = written s @ d"
    "bsIo s = [] \<longrightarrow> err = KErrNone \<and> bsIo s' = []" "bsPos s' \<le> length (bsFile s')" "\<forall>b. buffOf b s' = buffOf b s"
    "s'\<lparr>bsFile := bsFile s, bsPos := bsPos s, bsIo := bsIo s\<rparr> = s"
    using bsWrite_ok [of s d] ok by (auto simp: bs_ok_def)
  note f = same_but_file [OF w(6)]
  let ?e = "s'\<lparr>bsLastWriteErrorCode := KErrOverflow\<rparr>" and ?s2 = "setBuff b [] (s'\<lparr>bsDownloadedSize := bsDownloadedSize s' + int (length d)\<rparr>)"
  have bo: "buffOf x ?e = buffOf x s" for x using w(5) by simp
  have e: "tracks k [] ?e" using ok a f w(4) bo by (auto simp: tracks_def bs_ok_def)
  obtain c where c: "buffOf (\<not> b) s = Some c" "length c \<le> bsBufferSize s" using ok b by (auto simp: bs_ok_def)
  have bo2: "buffOf b ?s2 = Some []" "buffOf (\<not> b) ?s2 = Some c" using c(1) w(5) by simp_all
  have ok2: "bs_ok ?s2" using ok b a f w(4) bo2 c(2) by (auto simp: bs_ok_def)
  have wr: "written ?s2 = written s'" by (simp add: written_def)
  have r: "r = written s @ d" "bsDownloadedSize s = int (length (written s)) - k"
    using t a b by (auto simp: tracks_def received_def inFlight_def inClient_def)
  have "tracks k r ?s2 \<and> written ?s2 = r" if "err = KErrNone"
    using that ok2 w(2) wr r f a b bo2 by (simp add: tracks_def received_def inFlight_def inClient_def)
  then show ?thesis using w(1,3) f e a b bo2 by (auto simp: same_mode_def Let_def)
qed

text \<open>The answer of the loop from a later state is one from the first state.\<close>

lemma loop_goes_on:
  assumes "\<exists>err s'. f = Some (err, s') \<and> bs_ok s' \<and> same_mode s1 s' \<and> (err = KErrNone \<longrightarrow> tracks k r s') \<and> (smooth s1 \<longrightarrow> err = KErrNone \<and> smooth s')"
    and "same_mode s s1" and "smooth s \<longrightarrow> smooth s1"
  shows "\<exists>err s'. f = Some (err, s') \<and> bs_ok s' \<and> same_mode s s' \<and> (err = KErrNone \<longrightarrow> tracks k r s') \<and> (smooth s \<longrightarrow> err = KErrNone \<and> smooth s')"
proof -
  obtain err s' where "f = Some (err, s')" "bs_ok s'" "same_mode s1 s'" "err = KErrNone \<longrightarrow> tracks k r s'" "smooth s1 \<longrightarrow> err = KErrNone \<and> smooth s'"
    using assms(1) by blast
  moreover have "same_mode s s'" using assms(2) calculation(3) by (simp add: same_mode_def)
  ultimately show ?thesis using assms(3) by blast
qed

lemma bsLoop_ok:
  "tracks k r s \<Longrightarrow> bsClient s = Some b \<Longrightarrow> buffOf b s = Some d \<Longrightarrow>
     \<exists>err s'. bsLoop src s = Some (err, s') \<and> bs_ok s' \<and> same_mode s s' \<and> (err = KErrNone \<longrightarrow> tracks k (r @ src) s') \<and>
       (smooth s \<longrightarrow> err = KErrNone \<and> smooth s')"
proof (induction "2 * length src + (if length d = bsBufferSize s then 1 else 0)" arbitrary: src r s b d rule: less_induct)
  case less
  note t = less.prems(1) and b = less.prems(2,3)
  have ok: "bs_ok s" using t by (simp add: tracks_def)
  have l: "length d \<le> bsBufferSize s" "0 < bsBufferSize s" using ok b by (auto simp: bs_ok_def)
  let ?n = "bsBufferSize s - length d"
  show ?case
  proof (cases "src = []")
    case True
    then show ?thesis using t ok by (subst bsLoop.simps) (simp add: same_mode_def)
  next
    case ne: False
    show ?thesis
    proof (cases "length src < ?n")
      case True
      let ?s = "setBuff b (d @ src) (s\<lparr>bsBufferedSize := bsBufferedSize s + int (length src)\<rparr>)"
      have "tracks k (r @ src) ?s" using fill_tracks [OF t b, of src] True by simp
      then show ?thesis using ne b True by (subst bsLoop.simps) (auto simp: same_mode_def smooth_def tracks_def)
    next
      case False
      let ?x = "take ?n src"
      let ?s1 = "setBuff b (d @ ?x) (s\<lparr>bsBufferedSize := bsBufferedSize s + int (length ?x)\<rparr>)"
      have t1: "tracks k (r @ ?x) ?s1" using fill_tracks [OF t b, of ?x] l by simp
      obtain s2 where s2: "bsWait ?s1 = Some s2" "tracks k (r @ ?x) s2" "\<not> bsActive s2" "bsClient s2 = Some b" "buffOf b s2 = Some (d @ ?x)"
        "bsProgressive s2 = bsProgressive s" "bsBufferSize s2 = bsBufferSize s" "bsStorageBufferSize s2 = bsStorageBufferSize s"
        "bsDownloadedSize s \<le> bsDownloadedSize s2" "smooth s \<longrightarrow> smooth s2"
        using bsWait_ok [OF t1] b by auto
      have full: "length (d @ ?x) = bsBufferSize s" using False l by simp
      show ?thesis
      proof (cases "bsLastWriteErrorCode s2 = KErrNone")
        case err: False
        have "bs_ok (s2\<lparr>bsLastWriteErrorCode := KErrNone\<rparr>)" using s2(2) by (auto simp: tracks_def bs_ok_def)
        then show ?thesis using ne b False s2 err by (subst bsLoop.simps) (auto simp: same_mode_def smooth_def)
      next
        case noerr: True
        have next_buffer: "2 * length (drop ?n src) + (if length ([] :: tdes8) = bsBufferSize s then 1 else 0) <
            2 * length src + (if length d = bsBufferSize s then 1 else 0)"
        proof -
          have "0 < length src" using ne by simp
          moreover have "length src + length d - bsBufferSize s < length src" if "length d \<noteq> bsBufferSize s"
            using that l calculation by linarith
          ultimately show ?thesis using l by (cases "length d = bsBufferSize s") simp_all
        qed
        have rr: "(r @ ?x) @ drop ?n src = r @ src" by simp
        show ?thesis
        proof (cases "bsProgressive s2")
          case True
          obtain err s3 where w: "bsWrite (d @ ?x) s2 = Some (err, s3)" "bsIo s2 = [] \<longrightarrow> err = KErrNone \<and> bsIo s3 = []"
            "tracks k [] (s3\<lparr>bsLastWriteErrorCode := KErrOverflow\<rparr>)" "bsLastWriteErrorCode s3 = KErrNone" "same_mode s2 s3"
            "err = KErrNone \<longrightarrow> (let s4 = setBuff b [] (s3\<lparr>bsDownloadedSize := bsDownloadedSize s3 + int (length (d @ ?x))\<rparr>) in
               tracks k (r @ ?x) s4 \<and> written s4 = r @ ?x \<and> bsClient s4 = Some b \<and> buffOf b s4 = Some [] \<and> bsBufferSize s4 = bsBufferSize s2 \<and>
               bsLastWriteErrorCode s4 = KErrNone \<and> same_mode s2 s4 \<and> \<not> bsActive s4)"
            using sync_write [OF s2(2,4,5,3) noerr] by auto
          let ?s4 = "setBuff b [] (s3\<lparr>bsDownloadedSize := bsDownloadedSize s3 + int (length (d @ ?x))\<rparr>)"
          show ?thesis
          proof (cases "err = KErrNone")
            case good: True
            then have s4: "tracks k (r @ ?x) ?s4" "bsClient ?s4 = Some b" "buffOf b ?s4 = Some []" "bsBufferSize ?s4 = bsBufferSize s"
              "same_mode s2 ?s4" "bsLastWriteErrorCode ?s4 = KErrNone" using w(6) s2(7) by (simp_all add: Let_def)
            have sm: "smooth s \<longrightarrow> smooth ?s4" using w(2) s2(10) s4(6) by (auto simp: smooth_def)
            have step: "bsLoop src s = bsLoop (drop ?n src) ?s4"
              using ne b False s2 noerr True w(1) good by (subst bsLoop.simps) (simp add: Let_def)
            have mode: "same_mode s ?s4" using s4(5) s2(6-9) by (simp add: same_mode_def)
            have dec: "2 * length (drop ?n src) + (if length ([] :: tdes8) = bsBufferSize ?s4 then 1 else 0) <
              2 * length src + (if length d = bsBufferSize s then 1 else 0)" using next_buffer s4(4) by simp
            show ?thesis unfolding step by (rule loop_goes_on [OF less.hyps [OF dec s4(1-3), unfolded rr] mode sm])
          next
            case bad: False
            have "bs_ok s3" using w(3,4) by (auto simp: tracks_def bs_ok_def)
            then show ?thesis using ne b False s2 noerr True w bad by (subst bsLoop.simps) (auto simp: same_mode_def smooth_def)
          qed
        next
          case async: False
          let ?s4 = "swapBuffers b (length (d @ ?x)) s2"
          have s4: "tracks k (r @ ?x) ?s4" "bsClient ?s4 = Some (\<not> b)" "buffOf (\<not> b) ?s4 = Some []" "bsBufferSize ?s4 = bsBufferSize s"
            "same_mode s2 ?s4" "smooth s2 \<longrightarrow> smooth ?s4"
            using swapBuffers_tracks [OF s2(2,4,5,3) noerr] s2(7) by (simp_all add: swapBuffers_def same_mode_def smooth_def)
          have step: "bsLoop src s = bsLoop (drop ?n src) ?s4"
            using ne b False s2 noerr async by (subst bsLoop.simps) (simp add: Let_def)
          have mode: "same_mode s ?s4" using s4(5) s2(6-9) by (simp add: same_mode_def)
          have sm: "smooth s \<longrightarrow> smooth ?s4" using s2(10) s4(6) by blast
          have dec: "2 * length (drop ?n src) + (if length ([] :: tdes8) = bsBufferSize ?s4 then 1 else 0) <
            2 * length src + (if length d = bsBufferSize s then 1 else 0)" using next_buffer s4(4) by simp
          show ?thesis unfolding step by (rule loop_goes_on [OF less.hyps [OF dec s4(1-3), unfolded rr] mode sm])
        qed
      qed
    qed
  qed
qed

subsection \<open>The operations\<close>

lemma storeBodyL_ok:
  assumes t: "tracks k r s"
  shows "\<exists>err s'. storeBodyL al a s = Some (err, s') \<and> bs_ok s' \<and> (err = KErrNone \<longrightarrow> tracks k (r @ a) s') \<and>
    (smooth s \<and> al = [] \<longrightarrow> err = KErrNone \<and> smooth s') \<and> same_mode s s'"
proof (cases "bsDownloadedSize s \<le> 0")
  case True
  have ok: "bs_ok s" using t by (simp add: tracks_def)
  then have c: "bsClient s = None" "\<not> bsActive s" using True by (cases "bsClient s"; fastforce simp: bs_ok_def)+
  obtain err s1 where w: "bsWrite a s = Some (err, s1)" "err = KErrNone \<longrightarrow> written s1 = written s @ a"
    "bsIo s = [] \<longrightarrow> err = KErrNone \<and> bsIo s1 = []" "bsPos s1 \<le> length (bsFile s1)" "s1\<lparr>bsFile := bsFile s, bsPos := bsPos s, bsIo := bsIo s\<rparr> = s"
    using bsWrite_ok [of s a] ok by (auto simp: bs_ok_def)
  note f = same_but_file [OF w(5)]
  have ok1: "bs_ok s1" using ok c f w(4) by (simp add: bs_ok_def)
  obtain err2 s2 where w2: "bsWrite [] s1 = Some (err2, s2)" "err2 = KErrNone \<longrightarrow> written s2 = written s1"
    "bsIo s1 = [] \<longrightarrow> err2 = KErrNone \<and> bsIo s2 = []" "bsPos s2 \<le> length (bsFile s2)" "s2\<lparr>bsFile := bsFile s1, bsPos := bsPos s1, bsIo := bsIo s1\<rparr> = s1"
    using bsWrite_ok [of s1 "[]"] ok1 by (auto simp: bs_ok_def)
  note f2 = same_but_file [OF w2(5)]
  let ?s2 = "s2\<lparr>bsDownloadedSize := bsDownloadedSize s2 + int (length a)\<rparr>"
  have ok2: "bs_ok s2" "bs_ok ?s2" using ok c f f2 w2(4) by (simp_all add: bs_ok_def)
  have "tracks k (r @ a) ?s2" if "err = KErrNone" "err2 = KErrNone"
    using that t ok2 c f f2 w(2) w2(2) by (auto simp: tracks_def received_def inFlight_def inClient_def written_def)
  then show ?thesis
    using True w(1,3) w2(1,3) ok1 ok2 f f2 by (cases "err = KErrNone"; cases "err2 = KErrNone") (auto simp: storeBodyL_def smooth_def same_mode_def)
next
  case False
  have ok: "bs_ok s" using t by (simp add: tracks_def)
  show ?thesis
  proof (cases "bsClient s")
    case None
    let ?s0 = "s\<lparr>bsBuff1 := None, bsBuff2 := None, bsBufferSize := 0\<rparr>"
    let ?s1 = "?s0\<lparr>bsBuff1 := Some [], bsBuff2 := Some [], bsBufferSize := bsStorageBufferSize s, bsClient := Some True\<rparr>"
    have ok0: "bs_ok ?s0" "bs_ok (?s0\<lparr>bsBuff1 := Some []\<rparr>)" using ok None by (simp_all add: bs_ok_def)
    have t1: "tracks k r ?s1"
      using t None False by (auto simp: tracks_def bs_ok_def received_def written_def inFlight_def inClient_def buffOf_def)
    show ?thesis
      using bsLoop_ok [OF t1, of True "[]" a] None False ok0
      by (auto simp: storeBodyL_def DoBufferingWriteL_def Let_def buffOf_def same_mode_def smooth_def)
  next
    case (Some b)
    then obtain d where "buffOf b s = Some d" "bsBufferSize s = bsStorageBufferSize s" using ok by (auto simp: bs_ok_def)
    then show ?thesis using bsLoop_ok [OF t Some, of d a] Some False by (auto simp: storeBodyL_def DoBufferingWriteL_def)
  qed
qed

lemma WriteOut_ok:
  assumes t: "tracks k r s"
  shows "\<exists>err ok s'. WriteOutNextBodyDataL al a s = Some (err, ok, s') \<and> bs_ok s' \<and> (err = KErrNone \<longrightarrow> tracks k (r @ a) s') \<and>
    (smooth s \<and> al = [] \<longrightarrow> err = KErrNone \<and> smooth s') \<and> same_mode s s'"
proof -
  have len: "bs_ok (s1\<lparr>bsStorageLength := n\<rparr>) = bs_ok s1" "received (s1\<lparr>bsStorageLength := n\<rparr>) = received s1"
    "written (s1\<lparr>bsStorageLength := n\<rparr>) = written s1" "smooth (s1\<lparr>bsStorageLength := n\<rparr>) = smooth s1" for s1 n
    by (auto simp: bs_ok_def received_def written_def inFlight_def inClient_def smooth_def split: option.splits)
  obtain err s1 where st: "storeBodyL al a s = Some (err, s1)" "bs_ok s1" "err = KErrNone \<longrightarrow> tracks k (r @ a) s1"
    "smooth s \<and> al = [] \<longrightarrow> err = KErrNone \<and> smooth s1" "same_mode s s1" using storeBodyL_ok [OF t, of al a] by blast
  have t1: "tracks k (r @ a) (s1\<lparr>bsStorageLength := n\<rparr>)" if "err = KErrNone" for n
    using st(3) that by (simp add: tracks_def len)
  have m1: "same_mode s (s1\<lparr>bsStorageLength := n\<rparr>)" for n using st(5) by (simp add: same_mode_def)
  show ?thesis
  proof (cases "err = KErrNone")
    case True
    let ?s2 = "if bsStorageLength s1 \<noteq> KDefaultContentLength \<and> bsBufferedSize s1 > bsStorageLength s1
      then s1\<lparr>bsStorageLength := KDefaultContentLength\<rparr> else s1"
    have run: "\<exists>ok. WriteOutNextBodyDataL al a s = Some (KErrNone, ok, ?s2)"
      using st(1) True by (simp add: WriteOutNextBodyDataL_def ex_bool_eq)
    have "bs_ok ?s2 \<and> tracks k (r @ a) ?s2 \<and> (smooth s \<and> al = [] \<longrightarrow> smooth ?s2) \<and> same_mode s ?s2"
      using st t1 m1 True len by simp
    then show ?thesis using run by blast
  next
    case False
    then have "WriteOutNextBodyDataL al a s = Some (err, False, s1)" using st(1) by (simp add: WriteOutNextBodyDataL_def)
    then show ?thesis using st False by blast
  qed
qed

lemma Flush_ok:
  assumes t: "tracks k r s"
  shows "\<exists>err s'. FlushBuffersL s = Some (err, s') \<and> bs_ok s' \<and> same_mode s s' \<and> (smooth s \<longrightarrow> err = KErrNone \<and> smooth s') \<and>
    (err = KErrNone \<longrightarrow> tracks k r s' \<and> written s' = r \<and> bsDownloadedSize s' = int (length r) - k \<and> \<not> bsActive s' \<and> bsLastWriteErrorCode s' = KErrNone)"
proof -
  obtain s1 where s1: "bsWait s = Some s1" "tracks k r s1" "\<not> bsActive s1" "bsClient s1 = bsClient s" "same_mode s s1" "smooth s \<longrightarrow> smooth s1"
    using bsWait_ok [OF t] by (auto simp: same_mode_def)
  have ok: "bs_ok s1" using s1(2) by (simp add: tracks_def)
  show ?thesis
  proof (cases "bsLastWriteErrorCode s1 = KErrNone")
    case False
    have "bs_ok (s1\<lparr>bsLastWriteErrorCode := KErrNone\<rparr>)" using ok by (auto simp: bs_ok_def)
    then show ?thesis using s1 False by (auto simp: FlushBuffersL_def same_mode_def smooth_def)
  next
    case True
    have r: "received s1 = r" "bsDownloadedSize s1 = int (length (written s1)) - k" using s1(2) True by (simp_all add: tracks_def)
    show ?thesis
    proof (cases "inClient s1 = []")
      case e: True
      then have "written s1 = r" using r(1) s1(3) by (simp add: received_def inFlight_def)
      moreover have "FlushBuffersL s = Some (KErrNone, s1)"
        using s1(1) True e ok by (auto simp: FlushBuffersL_def inClient_def bs_ok_def split: option.splits)
      ultimately show ?thesis using s1 True ok r(2) by auto
    next
      case ne: False
      then obtain b where b: "bsClient s1 = Some b" by (cases "bsClient s1") (auto simp: inClient_def)
      then obtain d where d: "buffOf b s1 = Some d" "d \<noteq> []" using ok ne by (auto simp: bs_ok_def inClient_def)
      obtain err s2 where w: "bsWrite d s1 = Some (err, s2)" "bsIo s1 = [] \<longrightarrow> err = KErrNone \<and> bsIo s2 = []"
        "tracks k [] (s2\<lparr>bsLastWriteErrorCode := KErrOverflow\<rparr>)" "bsLastWriteErrorCode s2 = KErrNone" "same_mode s1 s2"
        "err = KErrNone \<longrightarrow> (let s4 = setBuff b [] (s2\<lparr>bsDownloadedSize := bsDownloadedSize s2 + int (length d)\<rparr>) in
           tracks k r s4 \<and> written s4 = r \<and> bsClient s4 = Some b \<and> buffOf b s4 = Some [] \<and> bsBufferSize s4 = bsBufferSize s1 \<and>
           bsLastWriteErrorCode s4 = KErrNone \<and> same_mode s1 s4 \<and> \<not> bsActive s4)"
        using sync_write [OF s1(2) b d(1) s1(3) True] by auto
      have ok2: "bs_ok s2" using w(3,4) by (auto simp: tracks_def bs_ok_def)
      have run: "FlushBuffersL s = Some (err, if err \<noteq> KErrNone then s2
          else setBuff b [] (s2\<lparr>bsDownloadedSize := bsDownloadedSize s2 + int (length d)\<rparr>))"
        using s1(1) True b d w(1) by (simp add: FlushBuffersL_def)
      show ?thesis
      proof (cases "err = KErrNone")
        case g: True
        let ?s4 = "setBuff b [] (s2\<lparr>bsDownloadedSize := bsDownloadedSize s2 + int (length d)\<rparr>)"
        have 4: "tracks k r ?s4" "written ?s4 = r" "bsLastWriteErrorCode ?s4 = KErrNone" "same_mode s1 ?s4" "\<not> bsActive ?s4"
          using w(6) g by (simp_all add: Let_def)
        then have "bs_ok ?s4" "bsDownloadedSize ?s4 = int (length r) - k" by (auto simp: tracks_def)
        then show ?thesis using run g 4 s1(5,6) w(2) by (auto simp: smooth_def same_mode_def)
      next
        case bad: False
        then show ?thesis using run ok2 s1(5,6) w by (auto simp: same_mode_def smooth_def)
      qed
    qed
  qed
qed

subsection \<open>A download\<close>

text \<open>Chunks of data with the allocations that their handling can make, and the writes that end between them.\<close>

datatype bs_event = BsData tdes8 allocs | BsWriteDone

primrec bsEvents :: "bs_event list \<Rightarrow> buff_storage \<Rightarrow> (symerr \<times> buff_storage) option" where
  "bsEvents [] s = FlushBuffersL s"
| "bsEvents (e # es) s =
    (case e of
       BsWriteDone \<Rightarrow> do { s1 \<leftarrow> bsWait s; bsEvents es s1 }
     | BsData c al \<Rightarrow> do {
         (err, ok, s1) \<leftarrow> WriteOutNextBodyDataL al c s;
         if err \<noteq> KErrNone then Some (err, s1) else bsEvents es s1 })"

definition chunkOf :: "bs_event \<Rightarrow> tdes8" where
  "chunkOf e = (case e of BsData c al \<Rightarrow> c | BsWriteDone \<Rightarrow> [])"

definition bsAllocs :: "bs_event \<Rightarrow> allocs" where
  "bsAllocs e = (case e of BsData c al \<Rightarrow> al | BsWriteDone \<Rightarrow> [])"

lemma bsEvents_ok:
  "tracks k r s \<Longrightarrow> \<exists>err s'. bsEvents es s = Some (err, s') \<and> bs_ok s' \<and>
     (err = KErrNone \<longrightarrow> written s' = r @ concat (map chunkOf es) \<and>
        bsDownloadedSize s' = int (length (r @ concat (map chunkOf es))) - k) \<and>
     (smooth s \<and> (\<forall>e \<in> set es. bsAllocs e = []) \<longrightarrow> err = KErrNone)"
proof (induction es arbitrary: r s)
  case Nil
  then show ?case using Flush_ok [OF Nil] by auto
next
  case (Cons e es)
  show ?case
  proof (cases e)
    case BsWriteDone
    obtain s1 where "bsWait s = Some s1" "tracks k r s1" "smooth s \<longrightarrow> smooth s1" using bsWait_ok [OF Cons.prems] by blast
    then show ?thesis using Cons.IH [of r s1] BsWriteDone by (auto simp: chunkOf_def)
  next
    case (BsData c al)
    obtain err ok s1 where w: "WriteOutNextBodyDataL al c s = Some (err, ok, s1)" "bs_ok s1" "err = KErrNone \<longrightarrow> tracks k (r @ c) s1"
      "smooth s \<and> al = [] \<longrightarrow> err = KErrNone \<and> smooth s1" using WriteOut_ok [OF Cons.prems, of al c] by blast
    show ?thesis
    proof (cases "err = KErrNone")
      case True
      then show ?thesis using Cons.IH [of "r @ c" s1] w BsData by (auto simp: chunkOf_def bsAllocs_def)
    next
      case False
      then show ?thesis using w BsData by (auto simp: chunkOf_def bsAllocs_def)
    qed
  qed
qed

text \<open>A storage without buffers, as it is when a file was just opened.\<close>

definition freshStorage :: "buff_storage \<Rightarrow> bool" where
  "freshStorage s \<longleftrightarrow> bsOpen s \<and> bsPos s = length (bsFile s) \<and> bsDownloadedSize s = 0 \<and> 0 < bsStorageBufferSize s \<and>
     bsClient s = None \<and> \<not> bsActive s \<and> bsLastWriteErrorCode s = KErrNone"

lemma freshStorage_tracks: "freshStorage s \<Longrightarrow> tracks (int (length (bsFile s))) (bsFile s) s"
  by (simp add: freshStorage_def tracks_def bs_ok_def received_def inFlight_def inClient_def written_def)

text \<open>
  C9: Whatever the writes and the allocations of a download do, it returns; and if no error is reported by
  a chunk or by the last flush, the file holds what it held and all chunks in their order, and the size
  is the number of bytes received. A download without failing writes and allocations reports no error.
\<close>

theorem no_silent_loss:
  assumes "freshStorage s"
  shows "\<exists>err s'. bsEvents es s = Some (err, s') \<and>
    (err = KErrNone \<longrightarrow> written s' = bsFile s @ concat (map chunkOf es) \<and>
       bsDownloadedSize s' = int (length (concat (map chunkOf es)))) \<and>
    (bsIo s = [] \<and> (\<forall>e \<in> set es. bsAllocs e = []) \<longrightarrow> err = KErrNone)"
proof -
  have "smooth s = (bsIo s = [])" using assms by (simp add: smooth_def freshStorage_def)
  then show ?thesis using bsEvents_ok [OF freshStorage_tracks [OF assms], of es] by auto
qed

definition storage0 :: "(symerr \<times> nat) list \<Rightarrow> buff_storage" where
  "storage0 io = \<lparr>bsOpen = True, bsFile = [1], bsPos = 1, bsDownloadedSize = 0, bsBufferedSize = 0, bsStorageBufferSize = 2,
     bsStorageLength = - 1, bsProgressive = False, bsBuff1 = None, bsBuff2 = None, bsClient = None, bsWritePtr = None,
     bsBufferSize = 0, bsLastWriteErrorCode = KErrNone, bsActive = False, bsIo = io\<rparr>"

theorem no_silent_loss_witness:
  "\<exists>err s'. bsEvents [BsData [2] [], BsData [3, 4, 5] [], BsWriteDone, BsData [6, 7] []] (storage0 []) = Some (err, s') \<and>
     written s' = [1, 2, 3, 4, 5, 6, 7] \<and> bsDownloadedSize s' = 6"
  using no_silent_loss [of "storage0 []" "[BsData [2] [], BsData [3, 4, 5] [], BsWriteDone, BsData [6, 7] []]"]
  by (auto simp: freshStorage_def storage0_def chunkOf_def bsAllocs_def)

lemma received_bound:
  assumes "tracks k r s" "bsLastWriteErrorCode s = KErrNone"
  shows "int (length r) - k \<le> bsDownloadedSize s + 2 * int (bsStorageBufferSize s)"
proof -
  have ok: "bs_ok s" and r: "received s = r" "bsDownloadedSize s = int (length (written s)) - k" using assms by (auto simp: tracks_def)
  have "length (inFlight s) \<le> bsStorageBufferSize s" "length (inClient s) \<le> bsStorageBufferSize s"
    using ok by (cases "bsClient s"; auto simp: bs_ok_def inFlight_def inClient_def)+
  moreover have "length r = length (written s) + length (inFlight s) + length (inClient s)"
    unfolding r(1) [symmetric] received_def by simp
  ultimately show ?thesis using r(2) by simp
qed

text \<open>
  The limit on the size of a download is applied to what is already in the file: what was
  received when a chunk has been accepted is at most two buffers more than the limit, and it can be more.
\<close>

theorem size_limit_bound:
  assumes t: "tracks k r (fsStorage v)" and e: "bsLastWriteErrorCode (fsStorage v) = KErrNone" and m: "fsMaxSize v \<noteq> 0"
    and a: "AppendData al c v = Some (KErrNone, v')"
  shows "tracks k (r @ c) (fsStorage v') \<and> int (length (r @ c)) - k \<le> fsMaxSize v + 2 * int (bsStorageBufferSize (fsStorage v))"
proof -
  have l: "bsDownloadedSize (fsStorage v) + int (length c) \<le> fsMaxSize v" and
    w: "\<exists>ok s1. WriteOutNextBodyDataL al c (fsStorage v) = Some (KErrNone, ok, s1) \<and> v' = v\<lparr>fsStorage := s1\<rparr>"
    using a m by (auto simp: AppendData_def CheckMaxSize_def onStorage_def KErrCodAttributeMismatch_def split: if_splits)
  from w obtain ok s1 where s1: "WriteOutNextBodyDataL al c (fsStorage v) = Some (KErrNone, ok, s1)" "v' = v\<lparr>fsStorage := s1\<rparr>" by blast
  then have "tracks k (r @ c) s1" using WriteOut_ok [OF t, of al c] by auto
  then show ?thesis using s1(2) l received_bound [OF t e] by simp
qed

definition saver0 :: file_saver where
  "saver0 = \<lparr>fsStorage = (storage0 [])\<lparr>bsDownloadedSize := 1, bsStorageBufferSize := 3, bsBufferSize := 3, bsBuff1 := Some [9],
     bsBuff2 := Some [], bsClient := Some True\<rparr>, fsDisk = Map.empty, fsFname = [], fsMaxSize = 2, fsState = EStoreOpen\<rparr>"

theorem size_limit_bound_witness:
  "\<exists>v'. AppendData [] [7] saver0 = Some (KErrNone, v') \<and> received (fsStorage v') = [1, 9, 7] \<and> int (length (received (fsStorage v'))) > fsMaxSize saver0"
proof -
  let ?v = "saver0\<lparr>fsStorage := (fsStorage saver0)\<lparr>bsBuff1 := Some [9, 7], bsBufferedSize := 1\<rparr>\<rparr>"
  have t: "tracks 0 [1, 9] (fsStorage saver0)"
    by (simp add: tracks_def bs_ok_def received_def written_def inFlight_def inClient_def buffOf_def saver0_def storage0_def)
  have e: "bsLastWriteErrorCode (fsStorage saver0) = KErrNone" and m: "fsMaxSize saver0 \<noteq> 0" by (simp_all add: saver0_def storage0_def)
  have a: "AppendData [] [7] saver0 = Some (KErrNone, ?v)"
    by (simp add: AppendData_def CheckMaxSize_def onStorage_def WriteOutNextBodyDataL_def storeBodyL_def DoBufferingWriteL_def bsLoop.simps
        buffOf_def setBuff_def saver0_def storage0_def KDefaultContentLength_def)
  have "tracks 0 ([1, 9] @ [7]) (fsStorage ?v)" using size_limit_bound [OF t e m a] by blast
  then have "received (fsStorage ?v) = [1, 9, 7]" by (simp add: tracks_def saver0_def storage0_def)
  then show ?thesis using a by (auto simp: saver0_def)
qed

end
