(* ===== verification/CodStore.thy ===== *)
theory CodStore
  imports CodData ByteStream
begin

text \<open>
  The info files that let a download go on after the browser was closed (codhandler/codeng): the data of
  the descriptor and the data of each object as bytes (\<open>AppendStorageInfoL\<close>, \<open>StoreMediaInfoL\<close> and their
  counterparts, with the buffer functions of FileExt), and the files of the engine that hold them.
  A string that a file gives as null leaves a null pointer in the object, which its first use dereferences;
  that is a fault here already, as is a value of the state that the enumeration does not have. What a field
  holds whose own reading left is not modelled.
\<close>

subsection \<open>The buffer that is written\<close>

record info_buf =
  ibData :: tdes8
  ibAllocs :: allocs

type_synonym info_step = "info_buf \<Rightarrow> (symerr \<times> info_buf) option"

definition KDownloadInfoIncrSize :: nat where "KDownloadInfoIncrSize = 2 * 4096"
definition KNullBuffer :: "32 word" where "KNullBuffer = - 1"

text \<open>Appending beyond the end of the buffer panics.\<close>

definition appendBytes :: "tdes8 \<Rightarrow> info_step" where
  "appendBytes b s =
    (if length (ibData s) + length b \<le> KDownloadInfoIncrSize then Some (KErrNone, s\<lparr>ibData := ibData s @ b\<rparr>) else None)"

definition AppendInt :: "32 word \<Rightarrow> info_step" where
  "AppendInt w = appendBytes (le32 w)"

definition AppendBufL16 :: "tdes16 option \<Rightarrow> info_step" where
  "AppendBufL16 aSrc = rdSteps
    [AppendInt (case aSrc of None \<Rightarrow> KNullBuffer | Some d \<Rightarrow> of_nat (length d * 2)),
     case aSrc of None \<Rightarrow> rdSteps [] | Some d \<Rightarrow> if d = [] then rdSteps [] else appendBytes (le16 d)]"

definition AppendBufL :: "tdes8 option \<Rightarrow> info_step" where
  "AppendBufL aSrc = rdSteps
    [AppendInt (case aSrc of None \<Rightarrow> KNullBuffer | Some d \<Rightarrow> of_nat (length d)),
     case aSrc of None \<Rightarrow> rdSteps [] | Some d \<Rightarrow> if d = [] then rdSteps [] else appendBytes d]"

definition allocStep :: info_step where
  "allocStep s = Some (if alloc_ok (ibAllocs s) then KErrNone else KErrNoMemory, s\<lparr>ibAllocs := alloc_rest (ibAllocs s)\<rparr>)"

definition boolInt :: "bool \<Rightarrow> 32 word" where
  "boolInt b = (if b then 1 else 0)"

primrec stateInt :: "TMediaObjectState \<Rightarrow> 32 word" where
  "stateInt EQueued = 0" | "stateInt EInProgress = 1" | "stateInt EFailed = 2" | "stateInt ESucceeded = 3" | "stateInt ETobeInstalled = 4"

definition intState :: "32 word \<Rightarrow> TMediaObjectState option" where
  "intState w = (if w = 0 then Some EQueued else if w = 1 then Some EInProgress else if w = 2 then Some EFailed
     else if w = 3 then Some ESucceeded else if w = 4 then Some ETobeInstalled else None)"

subsection \<open>Writing\<close>

definition AppendStorageInfoL :: "cod_data \<Rightarrow> info_step" where
  "AppendStorageInfoL d = rdSteps
    [AppendBufL16 (Some (cdName d)), AppendBufL16 (Some (cdVendor d)), AppendBufL (Some (cdNextUrl d)), AppendInt (cdSize d),
     AppendBufL16 (Some (cdPrice d)), AppendBufL (Some (cdSourceUri d)), AppendBufL (Some (cdInstallNotify d)),
     AppendBufL (Some (cdUpdatedDDUri d)), AppendInt (of_nat (length (cdMediaObjects d)))]"

text \<open>Each type is copied to a buffer of the greatest length first, which panics if it does not fit.\<close>

definition appendType :: "tdes8 \<Rightarrow> info_step" where
  "appendType t = rdSteps [allocStep, \<lambda>s. if length t \<le> COD_TYPE_MAX_LEN then Some (KErrNone, s) else None, AppendBufL (Some t)]"

definition AppendContentTypesL :: "tdes8 list \<Rightarrow> info_step" where
  "AppendContentTypesL aTypes = rdSteps (AppendInt (of_nat (length aTypes)) # map appendType aTypes)"

type_synonym header_field = "tdes8 option \<times> tdes8 option"

definition appendHeader :: "header_field \<Rightarrow> info_step" where
  "appendHeader f = rdSteps [AppendBufL (fst f), AppendBufL (snd f)]"

definition AppendHeadersL :: "header_field list option \<Rightarrow> info_step" where
  "AppendHeadersL aHeaders = (case aHeaders of
     None \<Rightarrow> AppendInt 0
   | Some hs \<Rightarrow> rdSteps (AppendInt (of_nat (length hs)) # map appendHeader hs))"

definition StoreMediaInfoL :: "header_field list option \<Rightarrow> media_object \<Rightarrow> info_step" where
  "StoreMediaInfoL aHeaders m = rdSteps
    [AppendBufL16 (Some (moName m)), AppendBufL (Some (moUrl m)), AppendInt (moSize m), AppendBufL16 (Some (moPrice m)),
     AppendInt (boolInt (moProgressiveDl m)), AppendBufL (Some (moSourceUri m)), AppendBufL (Some (moInstallNotify m)),
     AppendContentTypesL (moTypes m), AppendInt (stateInt (moState m)), AppendInt (moStatusCode m), AppendInt (moResult m),
     AppendInt (boolInt (moPausable m)), AppendInt (boolInt (moUniqueFilenameSet m)), AppendBufL16 (moFullName m),
     allocStep, AppendBufL16 (Some (moTempPath m)), allocStep, AppendBufL16 (Some (moRootPath m)), AppendHeadersL aHeaders]"

subsection \<open>Reading\<close>

record cod_file =
  cfRest :: tdes8
  cfAllocs :: allocs
  cfIo :: "symerr list"

type_synonym 'd load_step = "cod_file \<times> 'd \<Rightarrow> (symerr \<times> cod_file \<times> 'd) option"

text \<open>A read takes as many bytes as there are, up to the number asked for, unless it fails.\<close>

definition fileRead :: "nat \<Rightarrow> cod_file \<Rightarrow> symerr \<times> tdes8 \<times> cod_file" where
  "fileRead n f =
    (let err = (if cfIo f = [] then KErrNone else hd (cfIo f)); f1 = f\<lparr>cfIo := tl (cfIo f)\<rparr>
     in if err \<noteq> KErrNone then (err, [], f1) else (KErrNone, take n (cfRest f), f1\<lparr>cfRest := drop n (cfRest f)\<rparr>))"

text \<open>\<open>READ_INT_L\<close>.\<close>

definition readInt :: "(32 word \<Rightarrow> 'd \<Rightarrow> 'd option) \<Rightarrow> 'd load_step" where
  "readInt upd fd =
    (let (err, b, f1) = fileRead 4 (fst fd) in
     if err \<noteq> KErrNone then Some (err, f1, snd fd)
     else if length b \<noteq> 4 then Some (KErrEof, f1, snd fd)
     else map_option (\<lambda>d. (KErrNone, f1, d)) (upd (un32 b) (snd fd)))"

text \<open>
  \<open>ReadHBufCL\<close> for characters of \<open>w\<close> bytes. A negative length panics in the allocation; one that is not a
  multiple of the width reads past the end of the buffer.
\<close>

definition readBuf :: "nat \<Rightarrow> (tdes8 option \<Rightarrow> 'd \<Rightarrow> 'd option) \<Rightarrow> 'd load_step" where
  "readBuf w upd fd =
    (let (err, b, f1) = fileRead 4 (fst fd) in
     if err \<noteq> KErrNone then Some (err, f1, snd fd)
     else if length b \<noteq> 4 then Some (KErrEof, f1, snd fd)
     else let len = sint (un32 b) in
       if len > 10 * 1024 then Some (KErrCorrupt, f1, snd fd)
       else if un32 b = KNullBuffer then map_option (\<lambda>d. (KErrNone, f1, d)) (upd None (snd fd))
       else if len < 0 \<or> len mod int w \<noteq> 0 then None
       else if \<not> alloc_ok (cfAllocs f1) then Some (KErrNoMemory, f1\<lparr>cfAllocs := alloc_rest (cfAllocs f1)\<rparr>, snd fd)
       else let f2 = f1\<lparr>cfAllocs := alloc_rest (cfAllocs f1)\<rparr> in
         if len = 0 then map_option (\<lambda>d. (KErrNone, f2, d)) (upd (Some []) (snd fd))
         else let (err, s, f3) = fileRead (nat len) f2 in
           if err \<noteq> KErrNone then Some (err, f3, snd fd)
           else if length s \<noteq> nat len then Some (KErrEof, f3, snd fd)
           else map_option (\<lambda>d. (KErrNone, f3, d)) (upd (Some s) (snd fd)))"

definition readStr16 :: "(tdes16 \<Rightarrow> 'd \<Rightarrow> 'd) \<Rightarrow> 'd load_step" where
  "readStr16 upd = readBuf 2 (\<lambda>b d. map_option (\<lambda>s. upd (un16 s) d) b)"

definition readStr8 :: "(tdes8 \<Rightarrow> 'd \<Rightarrow> 'd) \<Rightarrow> 'd load_step" where
  "readStr8 upd = readBuf 1 (\<lambda>b d. map_option (\<lambda>s. upd s d) b)"

definition setInt :: "(32 word \<Rightarrow> 'd \<Rightarrow> 'd) \<Rightarrow> 'd load_step" where
  "setInt upd = readInt (\<lambda>w d. Some (upd w d))"

text \<open>A new object has an address that no other object has.\<close>

definition freshAddr :: "cod_data \<Rightarrow> nat" where
  "freshAddr d = Suc (foldr max (map moAddr (cdMediaObjects d)) 0)"

text \<open>The objects are made empty; the eleven allocations of an object and the one of the array can fail.\<close>

definition newObject :: "cod_data load_step" where
  "newObject fd =
    (let al = cfAllocs (fst fd); f1 = (fst fd)\<lparr>cfAllocs := drop 12 al\<rparr> in
     if False \<in> set (take 11 al) then Some (KErrNoMemory, f1, snd fd)
     else case AppendMediaObjectL (drop 11 al) (moConstructL (freshAddr (snd fd))) (snd fd) of
         (Inl e, d) \<Rightarrow> Some (e, f1, d)
       | (Inr i, d) \<Rightarrow> Some (KErrNone, f1, d))"

text \<open>A number of elements, and then a step for each.\<close>

definition readMany :: "'d load_step \<Rightarrow> 'd load_step" where
  "readMany f fd =
    (let (err, b, f1) = fileRead 4 (fst fd) in
     if err \<noteq> KErrNone then Some (err, f1, snd fd)
     else if length b \<noteq> 4 then Some (KErrEof, f1, snd fd)
     else rdSteps (replicate (nat (sint (un32 b))) f) (f1, snd fd))"

definition LoadStorageInfoL :: "cod_data load_step" where
  "LoadStorageInfoL = rdSteps
    [readStr16 (\<lambda>s. cdName_update (\<lambda>_. s)), readStr16 (\<lambda>s. cdVendor_update (\<lambda>_. s)), readStr8 (\<lambda>s. cdNextUrl_update (\<lambda>_. s)),
     setInt (\<lambda>w. cdSize_update (\<lambda>_. w)), readStr16 (\<lambda>s. cdPrice_update (\<lambda>_. s)), readStr8 (\<lambda>s. cdSourceUri_update (\<lambda>_. s)),
     readStr8 (\<lambda>s. cdInstallNotify_update (\<lambda>_. s)), readStr8 (\<lambda>s. cdUpdatedDDUri_update (\<lambda>_. s)), readMany newObject]"

text \<open>An object that is loaded, with the headers that are loaded along.\<close>

type_synonym loading = "media_object \<times> header_field list option"

definition onMedia :: "(media_object \<Rightarrow> media_object) \<Rightarrow> loading \<Rightarrow> loading" where
  "onMedia g = map_prod g id"

definition loadAlloc :: "'d load_step" where
  "loadAlloc fd = (let f = fst fd; f1 = f\<lparr>cfAllocs := alloc_rest (cfAllocs f)\<rparr>
     in Some (if alloc_ok (cfAllocs f) then KErrNone else KErrNoMemory, f1, snd fd))"

text \<open>An element is read by steps on a value of its own, and is added when all of them went well.\<close>

definition readElem :: "'e \<Rightarrow> 'e load_step list \<Rightarrow> ('e \<Rightarrow> 'd \<Rightarrow> 'd) \<Rightarrow> 'd load_step" where
  "readElem e0 steps add fd = map_option (\<lambda>(err, f1, e). (err, f1, if err = KErrNone then add e (snd fd) else snd fd)) (rdSteps steps (fst fd, e0))"

definition readType :: "loading load_step" where
  "readType = readElem [] [readStr8 (\<lambda>s _. s), loadAlloc] (\<lambda>s. onMedia (\<lambda>m. m\<lparr>moTypes := moTypes m @ [s]\<rparr>))"

definition LoadContentTypesL :: "loading load_step" where
  "LoadContentTypesL = readMany readType \<circ> map_prod id (onMedia (\<lambda>m. m\<lparr>moTypes := []\<rparr>))"

definition KMaxFileName :: nat where "KMaxFileName = 256"

text \<open>An empty path leaves the path as it is; one that is too long panics.\<close>

definition readPath :: "(tdes16 \<Rightarrow> media_object \<Rightarrow> media_object) \<Rightarrow> loading load_step" where
  "readPath upd = readBuf 2 (\<lambda>b d. case b of
     None \<Rightarrow> None
   | Some s \<Rightarrow> if s = [] then Some d else if length (un16 s) \<le> KMaxFileName then Some (onMedia (upd (un16 s)) d) else None)"

definition readHeader :: "loading load_step" where
  "readHeader = readElem (None, None)
    [loadAlloc, readBuf 1 (\<lambda>b h. Some (b, snd h)), readBuf 1 (\<lambda>b h. Some (fst h, b)), loadAlloc]
    (\<lambda>h. map_prod id (map_option (\<lambda>hs. hs @ [h])))"

definition LoadHeadersL :: "loading load_step" where
  "LoadHeadersL fd = (case snd (snd fd) of
     None \<Rightarrow> Some (KErrNone, fd)
   | Some hs \<Rightarrow> readMany readHeader (map_prod id (map_prod id (\<lambda>_. Some [])) fd))"

text \<open>\<open>fileSize\<close>: the size of the file of that name, if it can be opened, or the error that asking for it gives.\<close>

definition SetDownloadedFileSizeL :: "(tdes16 \<Rightarrow> (symerr + 32 word) option) \<Rightarrow> loading load_step" where
  "SetDownloadedFileSizeL fileSize fd =
    (case Option.bind (moFullName (fst (snd fd))) fileSize of
       None \<Rightarrow> Some (KErrNone, fd)
     | Some (Inl err) \<Rightarrow> Some (err, fd)
     | Some (Inr n) \<Rightarrow> Some (KErrNone, map_prod id (onMedia (\<lambda>m. m\<lparr>moDownloadedSize := n\<rparr>)) fd))"

definition LoadMediaInfoL :: "(tdes16 \<Rightarrow> (symerr + 32 word) option) \<Rightarrow> loading load_step" where
  "LoadMediaInfoL fileSize = rdSteps
    [readStr16 (\<lambda>s. onMedia (moName_update (\<lambda>_. s))), readStr8 (\<lambda>s. onMedia (moUrl_update (\<lambda>_. s))),
     setInt (\<lambda>w. onMedia (moSize_update (\<lambda>_. w))), readStr16 (\<lambda>s. onMedia (moPrice_update (\<lambda>_. s))),
     setInt (\<lambda>w. onMedia (moProgressiveDl_update (\<lambda>_. w \<noteq> 0))), readStr8 (\<lambda>s. onMedia (moSourceUri_update (\<lambda>_. s))),
     readStr8 (\<lambda>s. onMedia (moInstallNotify_update (\<lambda>_. s))), LoadContentTypesL,
     readInt (\<lambda>w d. map_option (\<lambda>st. onMedia (moState_update (\<lambda>_. st)) d) (intState w)),
     setInt (\<lambda>w. onMedia (moStatusCode_update (\<lambda>_. w))), setInt (\<lambda>w. onMedia (moResult_update (\<lambda>_. w))),
     setInt (\<lambda>w. onMedia (moPausable_update (\<lambda>_. w \<noteq> 0))), setInt (\<lambda>w. onMedia (moUniqueFilenameSet_update (\<lambda>_. w \<noteq> 0))),
     readBuf 2 (\<lambda>b d. Some (onMedia (moFullName_update (\<lambda>_. map_option un16 b)) d)),
     readPath (\<lambda>s. moTempPath_update (\<lambda>_. s)), readPath (\<lambda>s. moRootPath_update (\<lambda>_. s)), LoadHeadersL, SetDownloadedFileSizeL fileSize]"

end
