(* ===== verification/CodStoreSpec.thy ===== *)
theory CodStoreSpec
  imports CodStore CodSpec
begin

text \<open>
  What is written to the info files of a download is read back, and a file that was cut off is noticed.
  \<open>writes b f\<close>: when the step \<open>f\<close> of a writer ends well it has appended \<open>b\<close>. \<open>reads P b f u\<close>: from a file that
  starts with \<open>b\<close> the step \<open>f\<close> of a reader makes the change \<open>u\<close>, and from a part of \<open>b\<close> it leaves with \<open>KErrEof\<close>.
\<close>

definition memFile :: "tdes8 \<Rightarrow> cod_file" where
  "memFile b = \<lparr>cfRest = b, cfAllocs = [], cfIo = []\<rparr>"

definition writes :: "tdes8 \<Rightarrow> info_step \<Rightarrow> bool" where
  "writes b f \<longleftrightarrow> (\<forall>s s'. f s = Some (KErrNone, s') \<longrightarrow> ibData s' = ibData s @ b \<and>
     (length (ibData s) \<le> KDownloadInfoIncrSize \<longrightarrow> length (ibData s') \<le> KDownloadInfoIncrSize))"

definition reads :: "('d \<Rightarrow> bool) \<Rightarrow> tdes8 \<Rightarrow> 'd load_step \<Rightarrow> ('d \<Rightarrow> 'd) \<Rightarrow> bool" where
  "reads P b f u \<longleftrightarrow> (\<forall>d. P d \<longrightarrow> P (u d) \<and> (\<forall>r. f (memFile (b @ r), d) = Some (KErrNone, memFile r, u d)) \<and>
     (\<forall>n < length b. \<exists>s. f (memFile (take n b), d) = Some (KErrEof, s)))"

lemma readsD: "reads P b f u \<Longrightarrow> P d \<Longrightarrow> f (memFile (b @ r), d) = Some (KErrNone, memFile r, u d)"
  by (simp add: reads_def)

lemma reads_cut: "reads P b f u \<Longrightarrow> P d \<Longrightarrow> n < length b \<Longrightarrow> \<exists>s. f (memFile (take n b), d) = Some (KErrEof, s)"
  by (simp add: reads_def)

subsection \<open>Steps in sequence\<close>

lemma writes_Nil [intro]: "writes [] (rdSteps [])"
  by (simp add: writes_def)

lemma writes_Cons [intro]: "writes b f \<Longrightarrow> writes c (rdSteps fs) \<Longrightarrow> writes (b @ c) (rdSteps (f # fs))"
  unfolding writes_def
proof (intro allI impI)
  fix s s'
  assume f: "\<forall>s s'. f s = Some (KErrNone, s') \<longrightarrow> ibData s' = ibData s @ b \<and>
      (length (ibData s) \<le> KDownloadInfoIncrSize \<longrightarrow> length (ibData s') \<le> KDownloadInfoIncrSize)"
    and fs: "\<forall>s s'. rdSteps fs s = Some (KErrNone, s') \<longrightarrow> ibData s' = ibData s @ c \<and>
      (length (ibData s) \<le> KDownloadInfoIncrSize \<longrightarrow> length (ibData s') \<le> KDownloadInfoIncrSize)"
    and run: "rdSteps (f # fs) s = Some (KErrNone, s')"
  obtain s1 where s1: "f s = Some (KErrNone, s1)" "rdSteps fs s1 = Some (KErrNone, s')" using run by (auto split: option.splits if_splits)
  have 1: "ibData s1 = ibData s @ b \<and> (length (ibData s) \<le> KDownloadInfoIncrSize \<longrightarrow> length (ibData s1) \<le> KDownloadInfoIncrSize)"
    using f s1(1) by blast
  have 2: "ibData s' = ibData s1 @ c \<and> (length (ibData s1) \<le> KDownloadInfoIncrSize \<longrightarrow> length (ibData s') \<le> KDownloadInfoIncrSize)"
    using fs s1(2) by blast
  show "ibData s' = ibData s @ b @ c \<and> (length (ibData s) \<le> KDownloadInfoIncrSize \<longrightarrow> length (ibData s') \<le> KDownloadInfoIncrSize)"
    using 1 2 by (metis append.assoc)
qed

lemma reads_Nil [intro]: "reads P [] (rdSteps []) (\<lambda>d. d)"
  by (simp add: reads_def)

lemma reads_Cons [intro]:
  assumes "reads P b f u" and "reads P c (rdSteps fs) v"
  shows "reads P (b @ c) (rdSteps (f # fs)) (\<lambda>d. v (u d))"
  unfolding reads_def
proof (intro allI impI conjI)
  fix d r assume d: "P d"
  have u: "P (u d)" "f (memFile (b @ r), d) = Some (KErrNone, memFile r, u d)" for r using assms(1) d by (simp_all add: reads_def)
  then show "P (v (u d))" "rdSteps (f # fs) (memFile ((b @ c) @ r), d) = Some (KErrNone, memFile r, v (u d))"
    using assms(2) by (simp_all add: reads_def)
  fix n assume n: "n < length (b @ c)"
  show "\<exists>s. rdSteps (f # fs) (memFile (take n (b @ c)), d) = Some (KErrEof, s)"
  proof (cases "n < length b")
    case True
    then obtain s where "f (memFile (take n b), d) = Some (KErrEof, s)" using assms(1) d unfolding reads_def by blast
    then show ?thesis using True by simp
  next
    case False
    then have "n - length b < length c" using n by simp
    then obtain s where "rdSteps fs (memFile (take (n - length b) c), u d) = Some (KErrEof, s)" using assms(2) u(1) unfolding reads_def by blast
    then show ?thesis using False u(2) by simp
  qed
qed

lemma writes_map:
  assumes "\<forall>x \<in> set xs. writes (b x) (f x)"
  shows "writes (concat (map b xs)) (rdSteps (map f xs))"
  using assms by (induction xs) auto

lemma reads_fold:
  assumes "\<forall>x \<in> set xs. reads P (b x) f (add x)"
  shows "reads P (concat (map b xs)) (rdSteps (replicate (length xs) f)) (fold add xs)"
  using assms
proof (induction xs)
  case Nil
  then show ?case by (simp add: reads_def)
next
  case (Cons x xs)
  then have "reads P (b x @ concat (map b xs)) (rdSteps (f # replicate (length xs) f)) (\<lambda>d. fold add xs (add x d))" by (intro reads_Cons) auto
  moreover have "fold add (x # xs) = (\<lambda>d. fold add xs (add x d))" by auto
  ultimately show ?case by (simp only: list.map concat.simps length_Cons replicate_Suc)
qed

lemma reads_comp: "reads P b f u \<Longrightarrow> reads P c (rdSteps fs) v \<Longrightarrow> reads P (b @ c) (rdSteps (f # fs)) (v \<circ> u)"
  using reads_Cons [of P b f u c fs v] by (simp add: comp_def)

lemma reads_cong: "reads P b f u \<Longrightarrow> (\<And>d. u d = v d) \<Longrightarrow> reads P b f v"
  by (simp add: reads_def)

subsection \<open>Fields\<close>

lemma writes_bytes: "writes b (appendBytes b)"
  by (simp add: writes_def appendBytes_def)

lemma writes_Int [intro]: "writes (le32 w) (AppendInt w)"
  unfolding AppendInt_def by (rule writes_bytes)

definition bytes16 :: "tdes16 option \<Rightarrow> tdes8" where
  "bytes16 s = (case s of None \<Rightarrow> le32 KNullBuffer | Some d \<Rightarrow> le32 (of_nat (length d * 2)) @ le16 d)"

definition bytes8 :: "tdes8 option \<Rightarrow> tdes8" where
  "bytes8 s = (case s of None \<Rightarrow> le32 KNullBuffer | Some d \<Rightarrow> le32 (of_nat (length d)) @ d)"

lemma le16_Nil: "le16 [] = []"
  by (simp add: le16_def)

lemma writes_one: "writes b f \<Longrightarrow> writes b (rdSteps [f])"
  using writes_Cons [OF _ writes_Nil, of b f] by simp

lemma writes_Buf16 [intro]: "writes (bytes16 s) (AppendBufL16 s)"
proof -
  have "writes (case s of None \<Rightarrow> [] | Some d \<Rightarrow> le16 d)
      (rdSteps [case s of None \<Rightarrow> rdSteps [] | Some d \<Rightarrow> if d = [] then rdSteps [] else appendBytes (le16 d)])"
    by (rule writes_one) (auto simp: le16_Nil intro: writes_bytes split: option.splits)
  from writes_Cons [OF writes_Int this] show ?thesis
    unfolding AppendBufL16_def bytes16_def by (auto split: option.splits)
qed

lemma writes_Buf [intro]: "writes (bytes8 s) (AppendBufL s)"
proof -
  have "writes (case s of None \<Rightarrow> [] | Some d \<Rightarrow> d)
      (rdSteps [case s of None \<Rightarrow> rdSteps [] | Some d \<Rightarrow> if d = [] then rdSteps [] else appendBytes d])"
    by (rule writes_one) (auto intro: writes_bytes split: option.splits)
  from writes_Cons [OF writes_Int this] show ?thesis
    unfolding AppendBufL_def bytes8_def by (auto split: option.splits)
qed

lemma writes_alloc [intro]: "writes [] allocStep"
  by (simp add: writes_def allocStep_def)

lemma fileRead_app: "length b = n \<Longrightarrow> fileRead n (memFile (b @ r)) = (KErrNone, b, memFile r)"
  by (auto simp: fileRead_def memFile_def)

lemma fileRead_short: "length b < n \<Longrightarrow> fileRead n (memFile b) = (KErrNone, b, memFile [])"
  by (simp add: fileRead_def memFile_def)

lemma reads_readInt:
  assumes "\<And>d. P d \<Longrightarrow> P (u d) \<and> upd w d = Some (u d)"
  shows "reads P (le32 w) (readInt upd) u"
  unfolding reads_def
proof (intro allI impI conjI)
  fix d r assume d: "P d"
  show "P (u d)" "readInt upd (memFile (le32 w @ r), d) = Some (KErrNone, memFile r, u d)"
    using assms [OF d] by (simp_all add: readInt_def fileRead_app)
  fix n assume "n < length (le32 w)"
  then show "\<exists>s. readInt upd (memFile (take n (le32 w)), d) = Some (KErrEof, s)" by (simp add: readInt_def fileRead_short)
qed

lemma reads_setInt [intro]: "(\<And>d. P d \<Longrightarrow> P (upd w d)) \<Longrightarrow> reads P (le32 w) (setInt upd) (upd w)"
  unfolding setInt_def by (rule reads_readInt) simp

lemma reads_readBuf_Some:
  assumes len: "length b \<le> 8192" "length b mod w = 0" and upd: "\<And>d. P d \<Longrightarrow> P (u d) \<and> upd (Some b) d = Some (u d)"
  shows "reads P (le32 (of_nat (length b)) @ b) (readBuf w upd) u"
  unfolding reads_def
proof (intro allI impI conjI)
  fix d r assume d: "P d"
  let ?w = "of_nat (length b) :: 32 word"
  have s: "sint ?w = int (length b)" using len(1) by (intro sint_small) simp
  have nn: "?w \<noteq> KNullBuffer"
  proof
    assume "?w = KNullBuffer"
    then have "sint ?w = - 1" by (simp add: KNullBuffer_def)
    then show False using s by simp
  qed
  have m: "int (length b) mod int w = 0" by (simp only: of_nat_mod [symmetric] len(2) of_nat_0)
  have al: "(memFile x)\<lparr>cfAllocs := []\<rparr> = memFile x" "cfAllocs (memFile x) = []" for x by (simp_all add: memFile_def)
  have head: "readBuf w upd (memFile (le32 ?w @ x), d) =
      (if b = [] then Some (KErrNone, memFile x, u d)
       else let (err, t, f3) = fileRead (length b) (memFile x) in
         if err \<noteq> KErrNone then Some (err, f3, d)
         else if length t \<noteq> length b then Some (KErrEof, f3, d)
         else map_option (\<lambda>d. (KErrNone, f3, d)) (upd (Some t) d))" for x
  proof -
    have "fileRead 4 (memFile (le32 ?w @ x)) = (KErrNone, le32 ?w, memFile x)" by (rule fileRead_app) simp
    moreover have "\<not> sint ?w > 10 * 1024" "\<not> (sint ?w < 0 \<or> sint ?w mod int w \<noteq> 0)" "nat (sint ?w) = length b" "(sint ?w = 0) = (b = [])"
      using s m len(1) by simp_all
    ultimately show ?thesis using upd [OF d] nn
      by (cases "b = []") (simp_all only: readBuf_def fst_conv snd_conv Let_def prod.case un32_le32 length_le32 if_True if_False
        simp_thms al alloc_Nil map_option_case option.case)
  qed
  show "P (u d)" using upd [OF d] by simp
  show "readBuf w upd (memFile ((le32 ?w @ b) @ r), d) = Some (KErrNone, memFile r, u d)"
    using upd [OF d] by (simp add: head fileRead_app)
  fix n assume n: "n < length (le32 ?w @ b)"
  show "\<exists>s. readBuf w upd (memFile (take n (le32 ?w @ b)), d) = Some (KErrEof, s)"
  proof (cases "n < 4")
    case True
    then show ?thesis by (simp add: readBuf_def fileRead_short)
  next
    case False
    then have "length (take (n - 4) b) < length b" "b \<noteq> []" using n by auto
    then show ?thesis using False by (simp add: head fileRead_short)
  qed
qed

lemma reads_readBuf_None:
  assumes upd: "\<And>d. P d \<Longrightarrow> P (u d) \<and> upd None d = Some (u d)"
  shows "reads P (le32 KNullBuffer) (readBuf w upd) u"
  unfolding reads_def
proof (intro allI impI conjI)
  fix d r assume d: "P d"
  show "P (u d)" "readBuf w upd (memFile (le32 KNullBuffer @ r), d) = Some (KErrNone, memFile r, u d)"
    using upd [OF d] by (simp_all add: readBuf_def fileRead_app Let_def KNullBuffer_def)
  fix n assume "n < length (le32 KNullBuffer)"
  then show "\<exists>s. readBuf w upd (memFile (take n (le32 KNullBuffer)), d) = Some (KErrEof, s)" by (simp add: readBuf_def fileRead_short)
qed

lemma reads_bytes16:
  assumes "length (bytes16 s) \<le> 8192" and upd: "\<And>d. P d \<Longrightarrow> P (u d) \<and> upd (map_option le16 s) d = Some (u d)"
  shows "reads P (bytes16 s) (readBuf 2 upd) u"
proof (cases s)
  case None
  then show ?thesis using reads_readBuf_None [of P u upd 2] upd by (simp add: bytes16_def)
next
  case (Some x)
  then show ?thesis using reads_readBuf_Some [of "le16 x" 2 P u upd] assms by (simp add: bytes16_def mult.commute)
qed

lemma reads_bytes8:
  assumes "length (bytes8 s) \<le> 8192" and upd: "\<And>d. P d \<Longrightarrow> P (u d) \<and> upd s d = Some (u d)"
  shows "reads P (bytes8 s) (readBuf 1 upd) u"
proof (cases s)
  case None
  then show ?thesis using reads_readBuf_None [of P u upd 1] upd by (simp add: bytes8_def)
next
  case (Some x)
  then show ?thesis using reads_readBuf_Some [of x 1 P u upd] assms by (simp add: bytes8_def)
qed

lemma reads_readStr16 [intro]:
  "length (bytes16 (Some s)) \<le> 8192 \<Longrightarrow> (\<And>d. P d \<Longrightarrow> P (upd s d)) \<Longrightarrow> reads P (bytes16 (Some s)) (readStr16 upd) (upd s)"
  unfolding readStr16_def by (rule reads_bytes16) simp_all

lemma reads_readStr8 [intro]:
  "length (bytes8 (Some s)) \<le> 8192 \<Longrightarrow> (\<And>d. P d \<Longrightarrow> P (upd s d)) \<Longrightarrow> reads P (bytes8 (Some s)) (readStr8 upd) (upd s)"
  unfolding readStr8_def by (rule reads_bytes8) simp_all

lemma reads_many:
  assumes "\<forall>x \<in> set xs. reads P (b x) f (add x)" and n: "length xs < 2 ^ 31"
  shows "reads P (le32 (of_nat (length xs)) @ concat (map b xs)) (readMany f) (fold add xs)"
  unfolding reads_def
proof (intro allI impI conjI)
  fix d r assume d: "P d"
  let ?w = "of_nat (length xs) :: 32 word"
  note r = reads_fold [OF assms(1), unfolded reads_def, rule_format, OF d]
  have s: "nat (sint ?w) = length xs" using n by (simp add: sint_small)
  show "P (fold add xs d)" using r by blast
  show "readMany f (memFile ((le32 ?w @ concat (map b xs)) @ r), d) = Some (KErrNone, memFile r, fold add xs d)"
    using r s by (simp add: readMany_def fileRead_app)
  fix k assume k: "k < length (le32 ?w @ concat (map b xs))"
  show "\<exists>s. readMany f (memFile (take k (le32 ?w @ concat (map b xs))), d) = Some (KErrEof, s)"
  proof (cases "k < 4")
    case True
    then show ?thesis by (simp add: readMany_def fileRead_short)
  next
    case False
    then have "k - 4 < length (concat (map b xs))" using k by simp
    then show ?thesis using r False s by (simp add: readMany_def fileRead_app)
  qed
qed

lemma reads_after:
  assumes "reads P b f u" and "\<And>d. P d \<Longrightarrow> P (g d)"
  shows "reads P b (f \<circ> map_prod id g) (\<lambda>d. u (g d))"
  using assms unfolding reads_def by auto

lemma reads_elem:
  assumes r: "reads (\<lambda>_. True) b (rdSteps steps) u" and p: "\<And>d. P d \<Longrightarrow> P (add (u e0) d)"
  shows "reads P b (readElem e0 steps add) (add (u e0))"
  unfolding reads_def
proof (intro allI impI conjI)
  fix d rest assume "P d"
  then show "P (add (u e0) d)" by (rule p)
  show "readElem e0 steps add (memFile (b @ rest), d) = Some (KErrNone, memFile rest, add (u e0) d)"
    using r by (simp add: reads_def readElem_def)
  fix n assume "n < length b"
  then obtain s where "rdSteps steps (memFile (take n b), e0) = Some (KErrEof, s)" using r unfolding reads_def by blast
  then show "\<exists>s. readElem e0 steps add (memFile (take n b), d) = Some (KErrEof, s)" by (cases s) (simp add: readElem_def)
qed

lemma reads_alloc [intro]: "reads P [] loadAlloc (\<lambda>d. d)"
  by (simp add: reads_def loadAlloc_def memFile_def)

lemma reads_one: "reads P b f u \<Longrightarrow> reads P b (rdSteps [f]) u"
  using reads_Cons [OF _ reads_Nil, of P b f u] by simp

subsection \<open>An object\<close>

definition typesBytes :: "tdes8 list \<Rightarrow> tdes8" where
  "typesBytes ts = le32 (of_nat (length ts)) @ concat (map (\<lambda>t. bytes8 (Some t)) ts)"

definition headerBytes :: "header_field \<Rightarrow> tdes8" where
  "headerBytes h = bytes8 (fst h) @ bytes8 (snd h)"

definition headersBytes :: "header_field list \<Rightarrow> tdes8" where
  "headersBytes hs = le32 (of_nat (length hs)) @ concat (map headerBytes hs)"

definition mediaBytes :: "media_object \<Rightarrow> tdes8" where
  "mediaBytes m = concat
     [bytes16 (Some (moName m)), bytes8 (Some (moUrl m)), le32 (moSize m), bytes16 (Some (moPrice m)), le32 (boolInt (moProgressiveDl m)),
      bytes8 (Some (moSourceUri m)), bytes8 (Some (moInstallNotify m)), typesBytes (moTypes m), le32 (stateInt (moState m)),
      le32 (moStatusCode m), le32 (moResult m), le32 (boolInt (moPausable m)), le32 (boolInt (moUniqueFilenameSet m)),
      bytes16 (moFullName m), bytes16 (Some (moTempPath m)), bytes16 (Some (moRootPath m))]"

lemma writes_types: "writes (typesBytes ts) (AppendContentTypesL ts)"
proof -
  have "writes (bytes8 (Some t)) (appendType t)" for t
  proof -
    have "writes [] (\<lambda>s. if length t \<le> COD_TYPE_MAX_LEN then Some (KErrNone, s) else None)" by (simp add: writes_def)
    from writes_Cons [OF writes_alloc writes_Cons [OF this writes_one [OF writes_Buf]]] show ?thesis
      unfolding appendType_def by simp
  qed
  then show ?thesis unfolding AppendContentTypesL_def typesBytes_def by (intro writes_Cons writes_Int writes_map) blast
qed

lemma writes_headers: "writes (headersBytes (case hs of None \<Rightarrow> [] | Some l \<Rightarrow> l)) (AppendHeadersL hs)"
proof -
  have h: "writes (headerBytes h) (appendHeader h)" for h
    unfolding appendHeader_def headerBytes_def by (intro writes_Cons writes_Buf writes_one)
  show ?thesis
  proof (cases hs)
    case None
    then show ?thesis using writes_Int [of 0] by (simp add: AppendHeadersL_def headersBytes_def)
  next
    case (Some l)
    have "writes (le32 (of_nat (length l)) @ concat (map headerBytes l)) (rdSteps (AppendInt (of_nat (length l)) # map appendHeader l))"
      using h by (intro writes_Cons writes_Int writes_map) blast
    then show ?thesis using Some by (simp add: AppendHeadersL_def headersBytes_def)
  qed
qed

lemma writes_media: "writes (mediaBytes m @ headersBytes (case hs of None \<Rightarrow> [] | Some l \<Rightarrow> l)) (StoreMediaInfoL hs m)"
proof -
  have "writes (bytes16 (Some (moName m)) @ bytes8 (Some (moUrl m)) @ le32 (moSize m) @ bytes16 (Some (moPrice m)) @ le32 (boolInt (moProgressiveDl m)) @
      bytes8 (Some (moSourceUri m)) @ bytes8 (Some (moInstallNotify m)) @ typesBytes (moTypes m) @ le32 (stateInt (moState m)) @
      le32 (moStatusCode m) @ le32 (moResult m) @ le32 (boolInt (moPausable m)) @ le32 (boolInt (moUniqueFilenameSet m)) @
      bytes16 (moFullName m) @ [] @ bytes16 (Some (moTempPath m)) @ [] @ bytes16 (Some (moRootPath m)) @
      headersBytes (case hs of None \<Rightarrow> [] | Some l \<Rightarrow> l)) (StoreMediaInfoL hs m)"
    unfolding StoreMediaInfoL_def
    by (intro writes_Cons writes_Int writes_Buf16 writes_Buf writes_types writes_alloc writes_one writes_headers)
  then show ?thesis by (simp add: mediaBytes_def)
qed

text \<open>What an object is after it was loaded: the fields that are not stored are those of a new object.\<close>

definition sizeOnDisk :: "(tdes16 \<Rightarrow> (symerr + 32 word) option) \<Rightarrow> tdes16 option \<Rightarrow> 32 word" where
  "sizeOnDisk fileSize full = (case Option.bind full fileSize of Some (Inr n) \<Rightarrow> n | _ \<Rightarrow> 0)"

definition resumedObject :: "(tdes16 \<Rightarrow> (symerr + 32 word) option) \<Rightarrow> nat \<Rightarrow> media_object \<Rightarrow> media_object" where
  "resumedObject fileSize addr m = (moConstructL addr)
     \<lparr>moName := moName m, moUrl := moUrl m, moSize := moSize m, moTypes := moTypes m, moInstallNotify := moInstallNotify m, moPrice := moPrice m,
      moSourceUri := moSourceUri m, moProgressiveDl := moProgressiveDl m, moDownloadedSize := sizeOnDisk fileSize (moFullName m),
      moState := moState m, moStatusCode := moStatusCode m, moResult := moResult m, moFullName := moFullName m, moTempPath := moTempPath m,
      moRootPath := moRootPath m, moPausable := moPausable m, moUniqueFilenameSet := moUniqueFilenameSet m\<rparr>"

text \<open>Paths are file names of the platform, and asking for the size of a file that was opened does not fail.\<close>

definition storablePaths :: "media_object \<Rightarrow> bool" where
  "storablePaths m \<longleftrightarrow> length (moTempPath m) \<le> KMaxFileName \<and> length (moRootPath m) \<le> KMaxFileName"

definition sizesKnown :: "(tdes16 \<Rightarrow> (symerr + 32 word) option) \<Rightarrow> bool" where
  "sizesKnown fileSize \<longleftrightarrow> (\<forall>f e. fileSize f \<noteq> Some (Inl e))"

lemma concat_piece: "x \<in> set xs \<Longrightarrow> length (f x) \<le> length (concat (map f xs))"
  by (induction xs) auto

lemma many_small: "(\<And>x. x \<in> set xs \<Longrightarrow> 1 \<le> length (f x)) \<Longrightarrow> length xs \<le> length (concat (map f xs))"
proof (induction xs)
  case (Cons x xs)
  have "1 \<le> length (f x)" "length xs \<le> length (concat (map f xs))" using Cons.prems [of x] Cons.IH Cons.prems by simp_all
  then show ?case by simp
qed simp

lemma bytes8_long: "4 \<le> length (bytes8 s)"
  by (simp add: bytes8_def split: option.split)

lemma reads_types:
  assumes l: "length (typesBytes ts) \<le> 8192" and p: "\<And>d g. P d \<Longrightarrow> P (onMedia g d)"
  shows "reads P (typesBytes ts) LoadContentTypesL (onMedia (\<lambda>m. m\<lparr>moTypes := ts\<rparr>))"
proof -
  let ?add = "\<lambda>t. onMedia (\<lambda>m. m\<lparr>moTypes := moTypes m @ [t]\<rparr>)"
  have le: "length (bytes8 (Some t)) \<le> 8192" if "t \<in> set ts" for t
    using concat_piece [OF that, of "\<lambda>t. bytes8 (Some t)"] l by (simp add: typesBytes_def)
  have one: "reads P (bytes8 (Some t)) readType (?add t)" if "t \<in> set ts" for t
  proof -
    have "reads (\<lambda>_. True) (bytes8 (Some t) @ []) (rdSteps [readStr8 (\<lambda>s _. s), loadAlloc]) (\<lambda>d. t)"
      using le [OF that] by (intro reads_Cons [where v = "\<lambda>d. d"] reads_readStr8 reads_one reads_alloc) simp_all
    then have "reads P (bytes8 (Some t) @ []) (readElem [] [readStr8 (\<lambda>s _. s), loadAlloc] ?add) (?add t)"
      by (rule reads_elem [where u = "\<lambda>d. t"]) (rule p)
    then show ?thesis by (simp add: readType_def)
  qed
  have "length ts \<le> length (concat (map (\<lambda>t. bytes8 (Some t)) ts))"
    using bytes8_long by (intro many_small) (meson le_trans one_le_numeral)
  then have n: "length ts < 2 ^ 31" using l by (simp add: typesBytes_def)
  have "reads P (typesBytes ts) LoadContentTypesL (\<lambda>d. fold ?add ts (onMedia (\<lambda>m. m\<lparr>moTypes := []\<rparr>) d))"
    unfolding LoadContentTypesL_def typesBytes_def using one n p by (intro reads_after reads_many) auto
  moreover have "fold ?add ts (onMedia (\<lambda>m. m\<lparr>moTypes := xs\<rparr>) d) = onMedia (\<lambda>m. m\<lparr>moTypes := xs @ ts\<rparr>) d" for xs d
    by (induction ts arbitrary: xs d) (simp_all add: onMedia_def map_prod_def split_beta)
  ultimately show ?thesis by simp
qed

lemma reads_headers:
  assumes l: "length (headersBytes hs) \<le> 8192"
  shows "reads (\<lambda>d. snd d \<noteq> None) (headersBytes hs) LoadHeadersL (\<lambda>d. (fst d, Some hs))"
proof -
  let ?P = "\<lambda>d :: loading. snd d \<noteq> None" and ?add = "\<lambda>h. map_prod id (map_option (\<lambda>l. l @ [h])) :: loading \<Rightarrow> loading"
  have one: "reads ?P (headerBytes h) readHeader (?add h)" if "h \<in> set hs" for h
  proof -
    have "length (headerBytes h) \<le> 8192" using concat_piece [OF that, of headerBytes] l by (simp add: headersBytes_def)
    then have "length (bytes8 (fst h)) \<le> 8192" "length (bytes8 (snd h)) \<le> 8192" by (simp_all add: headerBytes_def)
    then have "reads (\<lambda>_. True) ([] @ bytes8 (fst h) @ bytes8 (snd h) @ [])
        (rdSteps [loadAlloc, readBuf 1 (\<lambda>b g. Some (b, snd g)), readBuf 1 (\<lambda>b g. Some (fst g, b)), loadAlloc])
        (\<lambda>g. (\<lambda>g. (\<lambda>g. g) (fst g, snd h)) ((\<lambda>g. (fst h, snd g)) g))"
      by (intro reads_Cons [where u = "\<lambda>d. d"] reads_Cons [where v = "\<lambda>g. (\<lambda>g. g) (fst g, snd h)"] reads_Cons [where v = "\<lambda>d. d"]
          reads_bytes8 reads_one reads_alloc) simp_all
    then have "reads (\<lambda>_. True) (headerBytes h)
        (rdSteps [loadAlloc, readBuf 1 (\<lambda>b g. Some (b, snd g)), readBuf 1 (\<lambda>b g. Some (fst g, b)), loadAlloc]) (\<lambda>g. h)"
      by (simp add: headerBytes_def)
    from reads_elem [OF this, of ?P "\<lambda>h. map_prod id (map_option (\<lambda>l. l @ [h]))" "(None, None)"] show ?thesis
      by (simp add: readHeader_def)
  qed
  have "length hs \<le> length (concat (map headerBytes hs))"
  proof (rule many_small)
    fix h show "1 \<le> length (headerBytes h)" using bytes8_long [of "fst h"] by (simp add: headerBytes_def)
  qed
  then have n: "length hs < 2 ^ 31" using l by (simp add: headersBytes_def)
  have many: "reads ?P (headersBytes hs) (readMany readHeader) (fold ?add hs)"
    unfolding headersBytes_def using one n by (intro reads_many) auto
  have f: "fold ?add hs (m, Some xs) = (m, Some (xs @ hs))" for xs and m :: media_object by (induction hs arbitrary: xs) simp_all
  show ?thesis unfolding reads_def
  proof (intro allI impI conjI)
    fix d :: loading and r assume d: "snd d \<noteq> None"
    obtain m hs0 where m: "d = (m, Some hs0)" using d by (cases d) auto
    note r = many [unfolded reads_def, rule_format, of "(m, Some [])"]
    show "snd (fst d, Some hs) \<noteq> None" by simp
    show "LoadHeadersL (memFile (headersBytes hs @ r), d) = Some (KErrNone, memFile r, fst d, Some hs)"
      using r f [of m "[]"] m by (simp add: LoadHeadersL_def)
    fix n assume "n < length (headersBytes hs)"
    then show "\<exists>s. LoadHeadersL (memFile (take n (headersBytes hs)), d) = Some (KErrEof, s)"
      using r m by (simp add: LoadHeadersL_def)
  qed
qed

lemma reads_path:
  assumes "length (bytes16 (Some s)) \<le> 8192" "length s \<le> KMaxFileName" and p: "\<And>d g. P d \<Longrightarrow> P (onMedia g d)"
  shows "reads P (bytes16 (Some s)) (readPath upd) (\<lambda>d. if s = [] then d else onMedia (upd s) d)"
proof -
  have "(le16 s = []) = (s = [])" by (cases s) (simp_all add: le16_def)
  then show ?thesis unfolding readPath_def by (intro reads_bytes16) (use assms in auto)
qed

lemma reads_fullName:
  assumes "length (bytes16 s) \<le> 8192" and p: "\<And>d g. P d \<Longrightarrow> P (onMedia g d)"
  shows "reads P (bytes16 s) (readBuf 2 (\<lambda>b d. Some (onMedia (moFullName_update (\<lambda>_. map_option un16 b)) d))) (onMedia (moFullName_update (\<lambda>_. s)))"
  using assms by (intro reads_bytes16) (auto simp: option.map_comp comp_def option.map_ident)

lemma intState_stateInt [simp]: "intState (stateInt st) = Some st"
  by (cases st) (simp_all add: intState_def)

lemma boolInt_neq [simp]: "(boolInt b \<noteq> 0) = b"
  by (simp add: boolInt_def)

lemma reads_size:
  assumes "sizesKnown fileSize" and p: "\<And>d g. P d \<Longrightarrow> P (onMedia g d)"
  shows "reads P [] (SetDownloadedFileSizeL fileSize)
    (\<lambda>d. case Option.bind (moFullName (fst d)) fileSize of Some (Inr n) \<Rightarrow> onMedia (\<lambda>m. m\<lparr>moDownloadedSize := n\<rparr>) d | _ \<Rightarrow> d)"
  unfolding reads_def
proof (intro allI impI conjI)
  fix d r assume d: "P d"
  have "Option.bind (moFullName (fst d)) fileSize \<noteq> Some (Inl e)" for e using assms(1) by (cases "moFullName (fst d)") (auto simp: sizesKnown_def)
  then show "P (case Option.bind (moFullName (fst d)) fileSize of Some (Inr n) \<Rightarrow> onMedia (\<lambda>m. m\<lparr>moDownloadedSize := n\<rparr>) d | _ \<Rightarrow> d)"
    "SetDownloadedFileSizeL fileSize (memFile ([] @ r), d) = Some (KErrNone, memFile r,
      (case Option.bind (moFullName (fst d)) fileSize of Some (Inr n) \<Rightarrow> onMedia (\<lambda>m. m\<lparr>moDownloadedSize := n\<rparr>) d | _ \<Rightarrow> d))"
    using d p by (auto simp: SetDownloadedFileSizeL_def split: option.split sum.split)
qed simp

definition loadChange :: "(tdes16 \<Rightarrow> (symerr + 32 word) option) \<Rightarrow> media_object \<Rightarrow> (loading \<Rightarrow> loading) \<Rightarrow> loading \<Rightarrow> loading" where
  "loadChange fileSize m g d =
    (let d1 = g (onMedia (\<lambda>x. (if moRootPath m = [] then id else moRootPath_update (\<lambda>_. moRootPath m))
           ((if moTempPath m = [] then id else moTempPath_update (\<lambda>_. moTempPath m))
           (x\<lparr>moName := moName m, moUrl := moUrl m, moSize := moSize m, moPrice := moPrice m, moProgressiveDl := moProgressiveDl m,
             moSourceUri := moSourceUri m, moInstallNotify := moInstallNotify m, moTypes := moTypes m, moState := moState m,
             moStatusCode := moStatusCode m, moResult := moResult m, moPausable := moPausable m,
             moUniqueFilenameSet := moUniqueFilenameSet m, moFullName := moFullName m\<rparr>))) d)
     in case Option.bind (moFullName (fst d1)) fileSize of Some (Inr n) \<Rightarrow> onMedia (\<lambda>m. m\<lparr>moDownloadedSize := n\<rparr>) d1 | _ \<Rightarrow> d1)"

lemma reads_media:
  assumes l: "length (mediaBytes m) \<le> 8192" and paths: "storablePaths m" and sz: "sizesKnown fileSize"
    and p: "\<And>d g. P d \<Longrightarrow> P (onMedia g d)" and h: "reads P hb LoadHeadersL g"
  shows "reads P (mediaBytes m @ hb) (LoadMediaInfoL fileSize) (loadChange fileSize m g)"
proof -
  have "length (bytes16 (Some (moName m))) \<le> 8192" "length (bytes8 (Some (moUrl m))) \<le> 8192" "length (bytes16 (Some (moPrice m))) \<le> 8192"
    "length (bytes8 (Some (moSourceUri m))) \<le> 8192" "length (bytes8 (Some (moInstallNotify m))) \<le> 8192" "length (typesBytes (moTypes m)) \<le> 8192"
    "length (bytes16 (moFullName m)) \<le> 8192" "length (bytes16 (Some (moTempPath m))) \<le> 8192" "length (bytes16 (Some (moRootPath m))) \<le> 8192"
    using l unfolding mediaBytes_def by simp_all
  note piece = this paths [unfolded storablePaths_def]
  have st: "reads P (le32 (stateInt (moState m))) (readInt (\<lambda>w d. map_option (\<lambda>st. onMedia (moState_update (\<lambda>_. st)) d) (intState w)))
      (onMedia (moState_update (\<lambda>_. moState m)))" by (rule reads_readInt) (simp add: p)
  have "reads P (bytes16 (Some (moName m)) @ bytes8 (Some (moUrl m)) @ le32 (moSize m) @ bytes16 (Some (moPrice m)) @ le32 (boolInt (moProgressiveDl m)) @
      bytes8 (Some (moSourceUri m)) @ bytes8 (Some (moInstallNotify m)) @ typesBytes (moTypes m) @ le32 (stateInt (moState m)) @
      le32 (moStatusCode m) @ le32 (moResult m) @ le32 (boolInt (moPausable m)) @ le32 (boolInt (moUniqueFilenameSet m)) @
      bytes16 (moFullName m) @ bytes16 (Some (moTempPath m)) @ bytes16 (Some (moRootPath m)) @ hb @ []) (LoadMediaInfoL fileSize) (loadChange fileSize m g)"
    unfolding LoadMediaInfoL_def
    apply (rule reads_cong)
     apply (rule reads_comp, (rule reads_readStr16 reads_readStr8 reads_setInt reads_types st reads_fullName reads_path h; simp add: piece p))+
     apply (rule reads_one, rule reads_size, rule sz, simp add: p)
    subgoal for d by (cases d, cases "fst d", cases "moTempPath m = []"; cases "moRootPath m = []") (simp_all add: loadChange_def onMedia_def Let_def)
    done
  then show ?thesis by (simp add: mediaBytes_def)
qed

lemma loadChange_fresh:
  "loadChange fileSize m (\<lambda>d. (fst d, k)) (moConstructL addr, hs) = (resumedObject fileSize addr m, k)"
  by (cases "Option.bind (moFullName m) fileSize"; cases "moTempPath m = []"; cases "moRootPath m = []")
    (auto simp: loadChange_def resumedObject_def onMedia_def sizeOnDisk_def moConstructL_def Let_def split: sum.split)

abbreviation headerList :: "header_field list option \<Rightarrow> header_field list" where
  "headerList hs \<equiv> (case hs of None \<Rightarrow> [] | Some l \<Rightarrow> l)"

lemma stored_media:
  assumes "StoreMediaInfoL hs m \<lparr>ibData = [], ibAllocs = al\<rparr> = Some (KErrNone, b)"
  shows "ibData b = mediaBytes m @ headersBytes (headerList hs)" "length (mediaBytes m) \<le> 8192" "length (headersBytes (headerList hs)) \<le> 8192"
proof -
  note r = writes_media [of m hs, unfolded writes_def, rule_format, OF assms]
  have w: "ibData b = mediaBytes m @ headersBytes (headerList hs)" using conjunct1 [OF r] by simp
  have l: "length (ibData b) \<le> KDownloadInfoIncrSize" using conjunct2 [OF r] by simp
  show "ibData b = mediaBytes m @ headersBytes (headerList hs)" by (rule w)
  from l show "length (mediaBytes m) \<le> 8192" "length (headersBytes (headerList hs)) \<le> 8192" by (simp_all add: w KDownloadInfoIncrSize_def)
qed

text \<open>
  C32: The info file of an object that was stored is read back by a new object: all stored fields and the
  headers of the response are as they were, and the size on disk is looked up. Of a file that was cut off
  nothing is taken for the whole: the load leaves with the end-of-file error.
\<close>

theorem info_file_read_or_refused:
  assumes st: "StoreMediaInfoL hs m \<lparr>ibData = [], ibAllocs = al\<rparr> = Some (KErrNone, b)"
    and "storablePaths m" "sizesKnown fileSize"
  shows "LoadMediaInfoL fileSize (memFile (ibData b), moConstructL addr, Some old) =
      Some (KErrNone, memFile [], resumedObject fileSize addr m, Some (headerList hs)) \<and>
    (\<forall>n < length (ibData b). \<exists>s. LoadMediaInfoL fileSize (memFile (take n (ibData b)), moConstructL addr, Some old) = Some (KErrEof, s))"
proof -
  let ?d = "(moConstructL addr, Some old)" and ?g = "\<lambda>d :: loading. (fst d, Some (headerList hs))"
  note b = stored_media [OF st]
  have "reads (\<lambda>d. snd d \<noteq> None) (mediaBytes m @ headersBytes (headerList hs)) (LoadMediaInfoL fileSize) (loadChange fileSize m ?g)"
    using b assms by (intro reads_media reads_headers) (simp_all add: onMedia_def)
  note r = this [folded b(1)]
  show ?thesis using readsD [OF r, of ?d "[]"] reads_cut [OF r, of ?d] unfolding loadChange_fresh by simp
qed

definition storedObject :: media_object where
  "storedObject = (moConstructL 40)\<lparr>moUrl := [104], moTypes := [[116]], moState := EInProgress\<rparr>"

theorem info_file_read_or_refused_witness:
  "\<exists>b. StoreMediaInfoL (Some [(Some [72], Some [])]) storedObject \<lparr>ibData = [], ibAllocs = []\<rparr> = Some (KErrNone, b) \<and>
     (\<exists>m. LoadMediaInfoL (\<lambda>_. None) (memFile (ibData b), moConstructL 7, Some []) = Some (KErrNone, memFile [], m, Some [(Some [72], Some [])]) \<and>
        moUrl m = [104] \<and> moState m = EInProgress) \<and>
     (\<exists>s. LoadMediaInfoL (\<lambda>_. None) (memFile (take 5 (ibData b)), moConstructL 7, Some []) = Some (KErrEof, s))"
proof -
  obtain b where st: "StoreMediaInfoL (Some [(Some [72], Some [])]) storedObject \<lparr>ibData = [], ibAllocs = []\<rparr> = Some (KErrNone, b)" "5 < length (ibData b)"
    by (simp add: StoreMediaInfoL_def AppendContentTypesL_def AppendHeadersL_def appendHeader_def appendType_def allocStep_def AppendBufL16_def
        AppendBufL_def AppendInt_def appendBytes_def KDownloadInfoIncrSize_def storedObject_def moConstructL_def COD_TYPE_MAX_LEN_def)
  have "storablePaths storedObject" "sizesKnown (\<lambda>_. None)" by (simp_all add: storablePaths_def sizesKnown_def storedObject_def moConstructL_def)
  from info_file_read_or_refused [OF st(1) this, of 7 "[]"] show ?thesis using st
    by (auto simp: resumedObject_def storedObject_def moConstructL_def simp del: split_paired_Ex)
qed

text \<open>The same without headers, as the engine loads it.\<close>

lemma info_file_without_headers:
  assumes st: "StoreMediaInfoL hs m \<lparr>ibData = [], ibAllocs = al\<rparr> = Some (KErrNone, b)" and "storablePaths m" "sizesKnown fileSize"
  shows "\<exists>r. LoadMediaInfoL fileSize (memFile (ibData b), moConstructL addr, None) = Some (KErrNone, r, resumedObject fileSize addr m, None)"
proof -
  note b = stored_media [OF st]
  have "reads (\<lambda>d. snd d = None) [] LoadHeadersL (\<lambda>d :: loading. (fst d, None))" by (auto simp: reads_def LoadHeadersL_def)
  then have "reads (\<lambda>d. snd d = None) (mediaBytes m @ []) (LoadMediaInfoL fileSize) (loadChange fileSize m (\<lambda>d. (fst d, None)))"
    using b assms by (intro reads_media) (simp_all add: onMedia_def)
  from readsD [OF this, of "(moConstructL addr, None)"] show ?thesis unfolding b(1) loadChange_fresh by auto
qed

subsection \<open>The data of the descriptor\<close>

definition storageBytes :: "cod_data \<Rightarrow> tdes8" where
  "storageBytes d = bytes16 (Some (cdName d)) @ bytes16 (Some (cdVendor d)) @ bytes8 (Some (cdNextUrl d)) @ le32 (cdSize d) @
     bytes16 (Some (cdPrice d)) @ bytes8 (Some (cdSourceUri d)) @ bytes8 (Some (cdInstallNotify d)) @ bytes8 (Some (cdUpdatedDDUri d)) @
     le32 (of_nat (length (cdMediaObjects d)))"

lemma writes_storage: "writes (storageBytes d) (AppendStorageInfoL d)"
  unfolding storageBytes_def AppendStorageInfoL_def by (intro writes_Cons writes_Int writes_Buf16 writes_Buf writes_one)

definition addObject :: "cod_data \<Rightarrow> cod_data" where
  "addObject d = d\<lparr>cdMediaObjects := cdMediaObjects d @ [moConstructL (freshAddr d)]\<rparr>"

lemma freshAddr_new: "m \<in> set (cdMediaObjects d) \<Longrightarrow> moAddr m \<noteq> freshAddr d"
proof -
  have "x \<in> set l \<Longrightarrow> moAddr x \<le> foldr max (map moAddr l) 0" for x l by (induction l) (auto simp: le_max_iff_disj)
  then show "m \<in> set (cdMediaObjects d) \<Longrightarrow> moAddr m \<noteq> freshAddr d" unfolding freshAddr_def by (metis Suc_n_not_le_n)
qed

lemma reads_newObject: "reads (\<lambda>_. True) [] newObject addObject"
proof -
  have "find (\<lambda>i. moAddr (cdMediaObjects d ! i) = moAddr (moConstructL (freshAddr d))) [0..<length (cdMediaObjects d)] = None" for d
    using freshAddr_new [of _ d] by (auto simp: find_None_iff moConstructL_def)
  then have "AppendMediaObjectL [] (moConstructL (freshAddr d)) d = (Inr (int (length (cdMediaObjects d)) + 1), addObject d)" for d
    by (simp add: AppendMediaObjectL_def addObject_def moConstructL_def)
  then show ?thesis by (simp add: reads_def newObject_def memFile_def)
qed

definition storageChange :: "cod_data \<Rightarrow> cod_data \<Rightarrow> cod_data" where
  "storageChange d x = (addObject ^^ length (cdMediaObjects d)) (x\<lparr>cdName := cdName d, cdVendor := cdVendor d, cdNextUrl := cdNextUrl d,
     cdSize := cdSize d, cdPrice := cdPrice d, cdSourceUri := cdSourceUri d, cdInstallNotify := cdInstallNotify d, cdUpdatedDDUri := cdUpdatedDDUri d\<rparr>)"

lemma reads_storage:
  assumes l: "length (storageBytes d) \<le> 8192" and n: "length (cdMediaObjects d) < 2 ^ 31"
  shows "reads (\<lambda>_. True) (storageBytes d) LoadStorageInfoL (storageChange d)"
proof -
  have piece: "length (bytes16 (Some (cdName d))) \<le> 8192" "length (bytes16 (Some (cdVendor d))) \<le> 8192" "length (bytes8 (Some (cdNextUrl d))) \<le> 8192"
    "length (bytes16 (Some (cdPrice d))) \<le> 8192" "length (bytes8 (Some (cdSourceUri d))) \<le> 8192" "length (bytes8 (Some (cdInstallNotify d))) \<le> 8192"
    "length (bytes8 (Some (cdUpdatedDDUri d))) \<le> 8192" using l unfolding storageBytes_def by simp_all
  let ?xs = "replicate (length (cdMediaObjects d)) ()"
  have "reads (\<lambda>_. True) (le32 (of_nat (length ?xs)) @ concat (map (\<lambda>_. []) ?xs)) (readMany newObject) (fold (\<lambda>_. addObject) ?xs)"
    using n by (intro reads_many) (simp_all add: reads_newObject)
  moreover have "concat (map (\<lambda>_. []) ?xs) = ([] :: tdes8)" by simp
  moreover have "fold (\<lambda>_. addObject) (replicate k ()) = addObject ^^ k" for k by (induction k) (simp_all add: funpow_swap1 fun_eq_iff)
  ultimately have many: "reads (\<lambda>_. True) (le32 (of_nat (length (cdMediaObjects d)))) (readMany newObject) (addObject ^^ length (cdMediaObjects d))"
    by simp
  show ?thesis unfolding LoadStorageInfoL_def storageBytes_def
    apply (rule reads_cong)
     apply (rule reads_comp, (rule reads_readStr16 reads_readStr8 reads_setInt; simp add: piece))+
     apply (rule reads_one, rule many)
    by (simp add: storageChange_def)
qed

end
