(* ===== verification/CodResume.thy ===== *)
theory CodResume
  imports CodStoreSpec
begin

text \<open>
  The files in which the engine of downloads (\<open>CCodEngBase\<close>, codhandler/codeng) keeps a download that may
  be resumed: one with the data of the descriptor, and one for each object, named after it. What the
  file server and the memory do is in \<open>info_io\<close> for the writing and in \<open>load_io\<close> for the reading of each
  file; the code does not look at the answer of the write itself.
\<close>

record info_io =
  ioAlloc :: bool
  ioAllocs :: allocs
  ioReplace :: symerr
  ioWritten :: "nat option"
  ioFlush :: symerr

record load_io =
  liOpen :: symerr
  liAllocs :: allocs
  liIo :: "symerr list"

type_synonym info_dir = "tdes16 \<Rightarrow> tdes8 option"

text \<open>The name of the file of an object; formatting it beyond the length of a file name panics.\<close>

definition infoPath :: "tdes16 \<Rightarrow> nat \<Rightarrow> tdes16 option" where
  "infoPath p i = (let q = p @ lit16 ''_'' @ showDec i in if length q \<le> KMaxFileName then Some q else None)"

definition writeInfo :: "info_io \<Rightarrow> tdes16 \<Rightarrow> tdes8 \<Rightarrow> info_dir \<Rightarrow> symerr \<times> info_dir" where
  "writeInfo io p b dir =
    (if ioReplace io \<noteq> KErrNone then (ioReplace io, dir)
     else (ioFlush io, dir(p \<mapsto> (case ioWritten io of None \<Rightarrow> b | Some n \<Rightarrow> take n b))))"

definition StoreMainInfoFileL :: "info_io \<Rightarrow> tdes16 \<Rightarrow> cod_data \<Rightarrow> info_dir \<Rightarrow> (symerr \<times> info_dir) option" where
  "StoreMainInfoFileL io p d dir =
    (if p = [] then Some (KErrNone, dir)
     else if \<not> ioAlloc io then Some (KErrNoMemory, dir)
     else map_option (\<lambda>(err, b). if err \<noteq> KErrNone then (err, dir) else writeInfo io p (ibData b) dir)
       (AppendStorageInfoL d \<lparr>ibData = [], ibAllocs = ioAllocs io\<rparr>))"

definition StoreSubInfoFileL :: "info_io \<Rightarrow> tdes16 \<Rightarrow> header_field list option \<Rightarrow> nat \<Rightarrow> cod_data \<Rightarrow> info_dir \<Rightarrow> (symerr \<times> info_dir) option" where
  "StoreSubInfoFileL io p aHeaders i d dir =
    (if p = [] then Some (KErrNone, dir)
     else if \<not> ioAlloc io then Some (KErrNoMemory, dir)
     else Option.bind (infoPath p i) (\<lambda>q. Option.bind (cdIndex (int i) d) (\<lambda>m.
       map_option (\<lambda>(err, b). if err \<noteq> KErrNone then (err, dir) else writeInfo io q (ibData b) dir)
         (StoreMediaInfoL aHeaders m \<lparr>ibData = [], ibAllocs = ioAllocs io\<rparr>))))"

definition StoreInfoFilesL :: "(nat \<Rightarrow> info_io) \<Rightarrow> tdes16 \<Rightarrow> cod_data \<Rightarrow> info_dir \<Rightarrow> (symerr \<times> info_dir) option" where
  "StoreInfoFilesL ios p d = rdSteps (StoreMainInfoFileL (ios 0) p d # map (\<lambda>i. StoreSubInfoFileL (ios i) p None i d) [1..<Suc (length (cdMediaObjects d))])"

definition openInfo :: "load_io \<Rightarrow> tdes16 \<Rightarrow> info_dir \<Rightarrow> cod_file option" where
  "openInfo io p dir = (if liOpen io \<noteq> KErrNone then None else map_option (\<lambda>b. \<lparr>cfRest = b, cfAllocs = liAllocs io, cfIo = liIo io\<rparr>) (dir p))"

text \<open>A file that cannot be opened is passed over.\<close>

definition LoadMainInfoFileL :: "load_io \<Rightarrow> tdes16 \<Rightarrow> info_dir \<Rightarrow> cod_data \<Rightarrow> (symerr \<times> cod_data) option" where
  "LoadMainInfoFileL io p dir d = (case openInfo io p dir of
     None \<Rightarrow> Some (KErrNone, d)
   | Some f \<Rightarrow> map_option (\<lambda>(err, f1, d1). (err, d1)) (LoadStorageInfoL (f, d)))"

definition LoadSubInfoFileL :: "load_io \<Rightarrow> (tdes16 \<Rightarrow> (symerr + 32 word) option) \<Rightarrow> tdes16 \<Rightarrow> info_dir \<Rightarrow> nat \<Rightarrow> header_field list option \<Rightarrow> cod_data \<Rightarrow>
    (symerr \<times> header_field list option \<times> cod_data) option" where
  "LoadSubInfoFileL io fileSize p dir i hs d =
    Option.bind (infoPath p i) (\<lambda>q. case openInfo io q dir of
       None \<Rightarrow> Some (KErrNone, hs, d)
     | Some f \<Rightarrow> Option.bind (cdIndex (int i) d) (\<lambda>m.
         map_option (\<lambda>(err, f1, m1, hs1). (err, hs1, d\<lparr>cdMediaObjects := (cdMediaObjects d)[i - 1 := m1]\<rparr>)) (LoadMediaInfoL fileSize (f, m, hs))))"

text \<open>The first object that is queued or in progress becomes the active one.\<close>

fun loadSubs :: "(nat \<Rightarrow> load_io) \<Rightarrow> (tdes16 \<Rightarrow> (symerr + 32 word) option) \<Rightarrow> tdes16 \<Rightarrow> info_dir \<Rightarrow> nat list \<Rightarrow> bool \<Rightarrow> cod_data \<Rightarrow> (symerr \<times> cod_data) option" where
  "loadSubs ios fileSize p dir [] activeDownloadSet d = Some (KErrNone, d)"
| "loadSubs ios fileSize p dir (i # is) activeDownloadSet d =
    (case LoadSubInfoFileL (ios i) fileSize p dir i None d of
       None \<Rightarrow> None
     | Some (err, hs, d1) \<Rightarrow>
       if err \<noteq> KErrNone then Some (err, d1)
       else (case cdIndex (int i) d1 of
           None \<Rightarrow> None
         | Some m \<Rightarrow>
           let found = (moState m = EInProgress \<or> moState m = EQueued) \<and> \<not> activeDownloadSet
           in loadSubs ios fileSize p dir is (activeDownloadSet \<or> found) (if found then SetActiveDownload (int i) d1 else d1)))"

definition LoadInfoFilesL :: "(nat \<Rightarrow> load_io) \<Rightarrow> (tdes16 \<Rightarrow> (symerr + 32 word) option) \<Rightarrow> tdes16 \<Rightarrow> info_dir \<Rightarrow> cod_data \<Rightarrow> (symerr \<times> cod_data) option" where
  "LoadInfoFilesL ios fileSize p dir d =
    (case LoadMainInfoFileL (ios 0) p dir d of
       None \<Rightarrow> None
     | Some (err, d1) \<Rightarrow>
       if err \<noteq> KErrNone then Some (err, d1)
       else (case loadSubs ios fileSize p dir [1..<Suc (length (cdMediaObjects d1))] False d1 of
           None \<Rightarrow> None
         | Some (err, d2) \<Rightarrow> Some (err, if err = KErrNone \<and> cdActiveDownload d2 = 0
             then SetActiveDownload (int (length (cdMediaObjects d2))) d2 else d2)))"

end
