(* ===== verification/ResumeSpec.thy ===== *)
theory ResumeSpec
  imports CodResume
begin

text \<open>A download that was stored is resumed as it was: the files of all its parts are found and read.\<close>

lemma infoPath_inj:
  assumes "infoPath p i = Some q" "infoPath p j = Some q"
  shows "i = j"
proof -
  have "showDec i = showDec j" using assms by (auto simp: infoPath_def Let_def split: if_splits)
  then show ?thesis using showDec_digits [of i] showDec_digits [of j] by metis
qed

lemma infoPath_neq: "infoPath p i \<noteq> Some p"
  by (auto simp: infoPath_def Let_def lit16_def)

definition storedSub :: "tdes16 \<Rightarrow> cod_data \<Rightarrow> info_dir \<Rightarrow> nat \<Rightarrow> bool" where
  "storedSub p d dir i \<longleftrightarrow> (\<exists>q m al b. infoPath p i = Some q \<and> cdIndex (int i) d = Some m \<and>
     StoreMediaInfoL None m \<lparr>ibData = [], ibAllocs = al\<rparr> = Some (KErrNone, b) \<and> dir q = Some (ibData b))"

definition allWritten :: "(nat \<Rightarrow> info_io) \<Rightarrow> bool" where
  "allWritten ios \<longleftrightarrow> (\<forall>i. ioWritten (ios i) = None)"

lemma store_sub:
  assumes "StoreSubInfoFileL io p None i d dir = Some (KErrNone, dir')" "p \<noteq> []" "ioWritten io = None"
  shows "storedSub p d dir' i" "infoPath p i \<noteq> Some q \<Longrightarrow> dir' q = dir q"
proof -
  obtain q0 m b where q: "infoPath p i = Some q0" "cdIndex (int i) d = Some m"
    "StoreMediaInfoL None m \<lparr>ibData = [], ibAllocs = ioAllocs io\<rparr> = Some (KErrNone, b)" "dir' = dir(q0 \<mapsto> ibData b)"
    using assms by (auto simp: StoreSubInfoFileL_def writeInfo_def split: if_splits bind_splits)
  then show "storedSub p d dir' i" unfolding storedSub_def by auto
  show "dir' q = dir q" if "infoPath p i \<noteq> Some q" using that q by auto
qed

lemma store_subs:
  assumes "p \<noteq> []" "allWritten ios"
  shows "distinct is \<Longrightarrow> rdSteps (map (\<lambda>i. StoreSubInfoFileL (ios i) p None i d) is) dir = Some (KErrNone, dir') \<Longrightarrow>
    (\<forall>i \<in> set is. storedSub p d dir' i) \<and> (\<forall>q. (\<forall>i \<in> set is. infoPath p i \<noteq> Some q) \<longrightarrow> dir' q = dir q)"
proof (induction "is" arbitrary: dir)
  case Nil
  then show ?case by simp
next
  case (Cons i "is")
  obtain dir1 where 1: "StoreSubInfoFileL (ios i) p None i d dir = Some (KErrNone, dir1)"
    "rdSteps (map (\<lambda>i. StoreSubInfoFileL (ios i) p None i d) is) dir1 = Some (KErrNone, dir')"
    using Cons.prems(2) by (auto split: option.splits if_splits)
  have w: "ioWritten (ios i) = None" using assms(2) by (simp add: allWritten_def)
  have IH: "\<forall>i \<in> set is. storedSub p d dir' i" "\<And>q. \<forall>i \<in> set is. infoPath p i \<noteq> Some q \<Longrightarrow> dir' q = dir1 q"
    using Cons.IH [OF _ 1(2)] Cons.prems(1) by simp_all
  note s = store_sub [OF 1(1) assms(1) w]
  obtain q m al b where q: "infoPath p i = Some q" "cdIndex (int i) d = Some m"
    "StoreMediaInfoL None m \<lparr>ibData = [], ibAllocs = al\<rparr> = Some (KErrNone, b)" "dir1 q = Some (ibData b)"
    using s(1) unfolding storedSub_def by blast
  have "infoPath p j \<noteq> Some q" if "j \<in> set is" for j
    using infoPath_inj [OF q(1), of j] that Cons.prems(1) by auto
  then have "dir' q = Some (ibData b)" using IH(2) q(4) by simp
  then have "storedSub p d dir' i" using q unfolding storedSub_def by blast
  then show ?case using IH s(2) by simp
qed

definition smoothLoad :: load_io where
  "smoothLoad = \<lparr>liOpen = KErrNone, liAllocs = [], liIo = []\<rparr>"

definition pending :: "media_object \<Rightarrow> bool" where
  "pending m \<longleftrightarrow> moState m = EInProgress \<or> moState m = EQueued"

definition activeFrom :: "nat \<Rightarrow> cod_data \<Rightarrow> int \<Rightarrow> int" where
  "activeFrom k d a = (case find (\<lambda>j. pending (cdMediaObjects d ! j)) [k..<length (cdMediaObjects d)] of None \<Rightarrow> a | Some j \<Rightarrow> int j + 1)"

lemma resumed_state [simp]: "moState (resumedObject fileSize a m) = moState m"
  by (simp add: resumedObject_def)

lemma load_sub:
  assumes st: "storedSub p d dir (Suc k)" and k: "k < length objs" "k < length (cdMediaObjects d)" and obj: "objs ! k = moConstructL a"
    and paths: "\<forall>m \<in> set (cdMediaObjects d). storablePaths m" and sz: "sizesKnown fileSize"
  shows "LoadSubInfoFileL smoothLoad fileSize p dir (Suc k) None (x\<lparr>cdMediaObjects := objs\<rparr>) =
    Some (KErrNone, None, x\<lparr>cdMediaObjects := objs[k := resumedObject fileSize a (cdMediaObjects d ! k)]\<rparr>)"
proof -
  obtain q m al b where q: "infoPath p (Suc k) = Some q" "cdIndex (int (Suc k)) d = Some m"
    "StoreMediaInfoL None m \<lparr>ibData = [], ibAllocs = al\<rparr> = Some (KErrNone, b)" "dir q = Some (ibData b)"
    using st unfolding storedSub_def by blast
  have m: "m = cdMediaObjects d ! k" using q(2) by (auto simp: cdIndex_def split: if_splits)
  then have "storablePaths m" using paths k(2) by simp
  from info_file_without_headers [OF q(3) this sz] obtain r where
    "LoadMediaInfoL fileSize (memFile (ibData b), moConstructL a, None) = Some (KErrNone, r, resumedObject fileSize a m, None)" by blast
  moreover have "openInfo smoothLoad q dir = Some (memFile (ibData b))" using q(4) by (simp add: openInfo_def smoothLoad_def memFile_def)
  moreover have "cdIndex (int (Suc k)) (x\<lparr>cdMediaObjects := objs\<rparr>) = Some (moConstructL a)" using k obj by (simp add: cdIndex_def)
  ultimately show ?thesis using q(1) m by (simp add: LoadSubInfoFileL_def)
qed

lemma loadSubs_ok:
  assumes st: "\<forall>i. 0 < i \<and> i \<le> length (cdMediaObjects d) \<longrightarrow> storedSub p d dir i" and ios: "\<forall>i. ios i = smoothLoad"
    and paths: "\<forall>m \<in> set (cdMediaObjects d). storablePaths m" and sz: "sizesKnown fileSize" and n: "n = length (cdMediaObjects d)"
  shows "k \<le> n \<Longrightarrow> length objs = n \<Longrightarrow> \<forall>j. k \<le> j \<and> j < n \<longrightarrow> objs ! j = moConstructL (Suc j) \<Longrightarrow>
    loadSubs ios fileSize p dir [Suc k..<Suc n] flag (x\<lparr>cdMediaObjects := objs\<rparr>) =
      Some (KErrNone, x\<lparr>cdMediaObjects := take k objs @ map (\<lambda>j. resumedObject fileSize (Suc j) (cdMediaObjects d ! j)) [k..<n],
        cdActiveDownload := if flag then cdActiveDownload x else activeFrom k d (cdActiveDownload x)\<rparr>)"
proof (induction "n - k" arbitrary: k objs flag x)
  case 0
  then show ?case by (simp add: activeFrom_def n)
next
  case (Suc l)
  then have k: "k < n" by simp
  let ?m = "resumedObject fileSize (Suc k) (cdMediaObjects d ! k)" and ?objs = "objs[k := resumedObject fileSize (Suc k) (cdMediaObjects d ! k)]"
  let ?found = "pending (cdMediaObjects d ! k) \<and> \<not> flag"
  let ?x = "if ?found then SetActiveDownload (int (Suc k)) x else x"
  have up: "[Suc k..<Suc n] = Suc k # [Suc (Suc k)..<Suc n]" "[k..<n] = k # [Suc k..<n]" using k by (simp_all add: upt_conv_Cons)
  have comm: "y\<lparr>cdMediaObjects := os, cdActiveDownload := a\<rparr> = y\<lparr>cdActiveDownload := a, cdMediaObjects := os\<rparr>" for y :: cod_data and os a
    by (cases y) simp
  have one: "LoadSubInfoFileL (ios (Suc k)) fileSize p dir (Suc k) None (x\<lparr>cdMediaObjects := objs\<rparr>) = Some (KErrNone, None, x\<lparr>cdMediaObjects := ?objs\<rparr>)"
    using load_sub [OF _ _ _ _ paths sz, of p dir k objs "Suc k" x] st ios k n Suc.prems by simp
  have idx: "cdIndex (int (Suc k)) (x\<lparr>cdMediaObjects := ?objs\<rparr>) = Some ?m" using k Suc.prems by (simp add: cdIndex_def)
  have "loadSubs ios fileSize p dir [Suc k..<Suc n] flag (x\<lparr>cdMediaObjects := objs\<rparr>) =
      loadSubs ios fileSize p dir [Suc (Suc k)..<Suc n] (flag \<or> ?found) (?x\<lparr>cdMediaObjects := ?objs\<rparr>)"
    unfolding up loadSubs.simps one option.case prod.case idx
    by (simp add: pending_def SetActiveDownload_def Let_def comm del: upt_Suc)
  moreover have "loadSubs ios fileSize p dir [Suc (Suc k)..<Suc n] (flag \<or> ?found) (?x\<lparr>cdMediaObjects := ?objs\<rparr>) =
      Some (KErrNone, ?x\<lparr>cdMediaObjects := take (Suc k) ?objs @ map (\<lambda>j. resumedObject fileSize (Suc j) (cdMediaObjects d ! j)) [Suc k..<n],
        cdActiveDownload := if flag \<or> ?found then cdActiveDownload ?x else activeFrom (Suc k) d (cdActiveDownload ?x)\<rparr>)"
    using Suc.hyps Suc.prems k by (intro Suc.hyps(1)) (auto simp: nth_list_update)
  moreover have "take (Suc k) ?objs @ map (\<lambda>j. resumedObject fileSize (Suc j) (cdMediaObjects d ! j)) [Suc k..<n] =
      take k objs @ map (\<lambda>j. resumedObject fileSize (Suc j) (cdMediaObjects d ! j)) [k..<n]"
    using k Suc.prems unfolding up by (simp add: take_Suc_conv_app_nth)
  moreover have "activeFrom k d a = (if pending (cdMediaObjects d ! k) then int k + 1 else activeFrom (Suc k) d a)" for a
    using up(2) unfolding activeFrom_def n by simp
  ultimately show ?case by (auto simp: SetActiveDownload_def)
qed

lemma addObjects:
  "cdMediaObjects x = [] \<Longrightarrow> (addObject ^^ n) x = x\<lparr>cdMediaObjects := map (\<lambda>j. moConstructL (Suc j)) [0..<n]\<rparr>"
proof (induction n)
  case 0
  then show ?case by simp
next
  case (Suc n)
  have "foldr max (map (moAddr \<circ> (\<lambda>j. moConstructL (Suc j))) [0..<k]) b = max b k" for k b
    by (induction k arbitrary: b) (auto simp: moConstructL_def)
  then show ?case using Suc by (simp add: addObject_def freshAddr_def)
qed

text \<open>The data of a download that was resumed.\<close>

definition resumedData :: "(tdes16 \<Rightarrow> (symerr + 32 word) option) \<Rightarrow> cod_data \<Rightarrow> cod_data" where
  "resumedData fileSize d = cdConstructL
     \<lparr>cdName := cdName d, cdVendor := cdVendor d, cdNextUrl := cdNextUrl d, cdSize := cdSize d, cdPrice := cdPrice d, cdSourceUri := cdSourceUri d,
      cdInstallNotify := cdInstallNotify d, cdUpdatedDDUri := cdUpdatedDDUri d,
      cdMediaObjects := map (\<lambda>j. resumedObject fileSize (Suc j) (cdMediaObjects d ! j)) [0..<length (cdMediaObjects d)],
      cdActiveDownload := activeFrom 0 d 1\<rparr>"

text \<open>
  C11: A download that was stored without an error is resumed as it was: the engine finds the data of the
  descriptor and of each object in their files, and goes on with the first object that is queued or in
  progress. The fields that are not stored are those of a new download.
\<close>

theorem download_is_resumed:
  assumes st: "StoreInfoFilesL ios p d dir = Some (KErrNone, dir')" and p: "p \<noteq> []" and w: "allWritten ios" and lios: "\<forall>i. lios i = smoothLoad"
    and paths: "\<forall>m \<in> set (cdMediaObjects d). storablePaths m" and sz: "sizesKnown fileSize" and n: "length (cdMediaObjects d) < 2 ^ 31"
  shows "LoadInfoFilesL lios fileSize p dir' cdConstructL = Some (KErrNone, resumedData fileSize d)"
proof -
  let ?n = "length (cdMediaObjects d)"
  have w0: "ioWritten (ios 0) = None" using w by (simp add: allWritten_def)
  from st obtain dir1 where main: "StoreMainInfoFileL (ios 0) p d dir = Some (KErrNone, dir1)"
    and subs: "rdSteps (map (\<lambda>i. StoreSubInfoFileL (ios i) p None i d) [1..<Suc ?n]) dir1 = Some (KErrNone, dir')"
    unfolding StoreInfoFilesL_def by (auto split: option.splits if_splits)
  from main obtain b where b: "AppendStorageInfoL d \<lparr>ibData = [], ibAllocs = ioAllocs (ios 0)\<rparr> = Some (KErrNone, b)" "dir1 = dir(p \<mapsto> ibData b)"
    using p w0 by (auto simp: StoreMainInfoFileL_def writeInfo_def split: if_splits)
  note wr = writes_storage [of d, unfolded writes_def, rule_format, OF b(1)]
  have bytes: "ibData b = storageBytes d" using conjunct1 [OF wr] by simp
  have l: "length (storageBytes d) \<le> 8192" using conjunct2 [OF wr] bytes by (simp add: KDownloadInfoIncrSize_def)
  note s = store_subs [OF p w distinct_upt subs]
  have "dir' p = Some (storageBytes d)" using s b(2) bytes infoPath_neq by (auto simp del: upt_Suc)
  then have "openInfo (lios 0) p dir' = Some (memFile (storageBytes d @ []))" using lios by (simp add: openInfo_def smoothLoad_def memFile_def)
  then have m: "LoadMainInfoFileL (lios 0) p dir' cdConstructL = Some (KErrNone, storageChange d cdConstructL)"
    using readsD [OF reads_storage [OF l n], where d = cdConstructL and r = "[]"] by (simp add: LoadMainInfoFileL_def)
  let ?x = "cdConstructL\<lparr>cdName := cdName d, cdVendor := cdVendor d, cdNextUrl := cdNextUrl d, cdSize := cdSize d, cdPrice := cdPrice d,
     cdSourceUri := cdSourceUri d, cdInstallNotify := cdInstallNotify d, cdUpdatedDDUri := cdUpdatedDDUri d\<rparr>"
  let ?objs = "map (\<lambda>j. moConstructL (Suc j)) [0..<?n]"
  have ch: "storageChange d cdConstructL = ?x\<lparr>cdMediaObjects := ?objs\<rparr>"
    unfolding storageChange_def by (rule addObjects) (simp add: cdConstructL_def)
  have "\<forall>i. 0 < i \<and> i \<le> ?n \<longrightarrow> storedSub p d dir' i" using conjunct1 [OF s] by (auto simp del: upt_Suc)
  from loadSubs_ok [OF this lios paths sz refl, of 0 ?objs False ?x]
  have ls: "loadSubs lios fileSize p dir' [Suc 0..<Suc ?n] False (?x\<lparr>cdMediaObjects := ?objs\<rparr>) = Some (KErrNone, resumedData fileSize d)"
    by (simp add: resumedData_def cdConstructL_def del: upt_Suc)
  have act: "cdActiveDownload (resumedData fileSize d) \<noteq> 0" by (auto simp: resumedData_def activeFrom_def split: option.split)
  have "length (cdMediaObjects (?x\<lparr>cdMediaObjects := ?objs\<rparr>)) = ?n" by simp
  then show ?thesis unfolding LoadInfoFilesL_def m ch option.case prod.case using ls act by (simp del: upt_Suc)
qed

definition goodIo :: info_io where
  "goodIo = \<lparr>ioAlloc = True, ioAllocs = [], ioReplace = KErrNone, ioWritten = None, ioFlush = KErrNone\<rparr>"

definition pausedDownload :: cod_data where
  "pausedDownload = cdConstructL\<lparr>cdName := [65], cdSize := 7,
     cdMediaObjects := [(moConstructL 40)\<lparr>moUrl := [104], moSize := 7, moTypes := [[116]], moState := EInProgress, moFullName := Some [99, 100]\<rparr>]\<rparr>"

lemma pausedDownload_stored:
  "\<exists>dir'. StoreInfoFilesL (\<lambda>_. goodIo) [99] pausedDownload Map.empty = Some (KErrNone, dir')"
proof -
  have main: "\<exists>b. AppendStorageInfoL pausedDownload \<lparr>ibData = [], ibAllocs = []\<rparr> = Some (KErrNone, b)"
    by (simp add: AppendStorageInfoL_def AppendBufL16_def AppendBufL_def AppendInt_def appendBytes_def KDownloadInfoIncrSize_def
        pausedDownload_def cdConstructL_def)
  have sub: "\<exists>b. StoreMediaInfoL None (hd (cdMediaObjects pausedDownload)) \<lparr>ibData = [], ibAllocs = []\<rparr> = Some (KErrNone, b)"
    by (simp add: StoreMediaInfoL_def AppendContentTypesL_def AppendHeadersL_def appendType_def allocStep_def AppendBufL16_def AppendBufL_def
        AppendInt_def appendBytes_def KDownloadInfoIncrSize_def pausedDownload_def cdConstructL_def moConstructL_def COD_TYPE_MAX_LEN_def)
  have idx: "cdIndex 1 pausedDownload = Some (hd (cdMediaObjects pausedDownload))" "length (cdMediaObjects pausedDownload) = 1"
    by (simp_all add: cdIndex_def pausedDownload_def)
  have "infoPath [99] (Suc 0) = Some [99, 95, 49]" by (simp add: infoPath_def lit16_def KMaxFileName_def Let_def showDec.simps)
  then show ?thesis using main sub idx
    by (auto simp: StoreInfoFilesL_def StoreMainInfoFileL_def StoreSubInfoFileL_def writeInfo_def goodIo_def)
qed

theorem download_is_resumed_witness:
  "\<exists>dir' d'. StoreInfoFilesL (\<lambda>_. goodIo) [99] pausedDownload Map.empty = Some (KErrNone, dir') \<and>
     LoadInfoFilesL (\<lambda>_. smoothLoad) (\<lambda>_. Some (Inr 3)) [99] dir' cdConstructL = Some (KErrNone, d') \<and>
     cdName d' = [65] \<and> map moUrl (cdMediaObjects d') = [[104]] \<and> map moDownloadedSize (cdMediaObjects d') = [3]"
proof -
  obtain dir' where st: "StoreInfoFilesL (\<lambda>_. goodIo) [99] pausedDownload Map.empty = Some (KErrNone, dir')" using pausedDownload_stored by blast
  have "LoadInfoFilesL (\<lambda>_. smoothLoad) (\<lambda>_. Some (Inr 3)) [99] dir' cdConstructL = Some (KErrNone, resumedData (\<lambda>_. Some (Inr 3)) pausedDownload)"
    by (rule download_is_resumed [OF st])
      (simp_all add: allWritten_def goodIo_def sizesKnown_def storablePaths_def pausedDownload_def moConstructL_def)
  then show ?thesis using st by (auto simp: resumedData_def pausedDownload_def resumedObject_def sizeOnDisk_def cdConstructL_def)
qed

end
