(* ===== verification/MultipartParser.thy ===== *)
theory MultipartParser
  imports OverrideText "HOL-Library.Monad_Syntax"
begin

text \<open>
  The parser of multipart documents (browserutilities/multipartparser): the search for
  the boundaries, the headers of a part, the decoding of its body and its address. Reading behind the end of
  the text, a negative length and an append that does not fit are faults. The decoders, the parser of
  addresses and the outcomes of allocations are parameters.
\<close>

subsection \<open>C strings\<close>

definition cLower :: "byte \<Rightarrow> byte" where
  "cLower c = (if 65 \<le> c \<and> c \<le> 90 then c + 32 else c)"

text \<open>\<open>strncmp\<close> and \<open>strncasecmp\<close> against a whole pattern, up to the first difference or zero byte.\<close>

fun strnEq :: "(byte \<Rightarrow> byte) \<Rightarrow> tdes8 \<Rightarrow> tdes8 \<Rightarrow> bool option" where
  "strnEq f s [] = Some True"
| "strnEq f [] (p # ps) = None"
| "strnEq f (a # s) (p # ps) = (if f a \<noteq> f p then Some False else if a = 0 \<and> p = 0 then Some True else strnEq f s ps)"

definition mpHyphens :: tdes8 where "mpHyphens = lit8 ''--''"
definition mpCR :: byte where "mpCR = 13"
definition mpLF :: byte where "mpLF = 10"
definition mpQuote :: tdes8 where "mpQuote = [34]"
definition mpSemicolon :: tdes8 where "mpSemicolon = lit8 '';''"

text \<open>The line end is CR LF, or LF alone.\<close>

definition mpEol :: "bool \<Rightarrow> tdes8" where
  "mpEol lf = (if lf then [mpLF] else [mpCR, mpLF])"

definition mpDoubleEol :: "bool \<Rightarrow> tdes8" where
  "mpDoubleEol lf = mpEol lf @ mpEol lf"

text \<open>Whether there is a boundary at \<open>i\<close>; None is the fault, and the inner None a text that is too short.\<close>

definition boundaryAt :: "tdes8 \<Rightarrow> tdes8 \<Rightarrow> nat \<Rightarrow> bool option option" where
  "boundaryAt mb bnd i =
    (if length mb \<ge> i + 2 + length bnd then map_option Some (strnEq cLower (drop (i + 2) mb) bnd) else Some None)"

definition hyphensAt :: "tdes8 \<Rightarrow> nat \<Rightarrow> bool" where
  "hyphensAt mb i \<longleftrightarrow> mb ! i = 45 \<and> mb ! (i + 1) = 45"

function eolScan :: "tdes8 \<Rightarrow> tdes8 \<Rightarrow> nat \<Rightarrow> bool option" where
  "eolScan mb bnd i =
    (if length mb \<le> i + 1 then Some False
     else if hyphensAt mb i then
       (case boundaryAt mb bnd i of
          None \<Rightarrow> None
        | Some (Some True) \<Rightarrow> Some (length mb \<ge> i + 2 + length bnd + 1 \<and> mb ! (i + 2 + length bnd) = mpLF)
        | _ \<Rightarrow> eolScan mb bnd (i + 1))
     else eolScan mb bnd (i + 1))"
  by pat_completeness auto
termination by (relation "measure (\<lambda>(mb, bnd, i). length mb - i)") auto

declare eolScan.simps [simp del]

definition SetEolCharacters :: "tdes8 \<Rightarrow> tdes8 \<Rightarrow> bool option" where
  "SetEolCharacters mb bnd = eolScan mb bnd 0"

text \<open>
  The search for the next part: the offset behind its boundary, and the offset of the boundary that ends
  it, or None for both when something else than a line end or two hyphens follows a boundary.
\<close>

function mpScan :: "tdes8 \<Rightarrow> tdes8 \<Rightarrow> tdes8 \<Rightarrow> nat \<Rightarrow> nat option \<Rightarrow> (nat option \<times> int) option option" where
  "mpScan mb bnd eol i start =
    (if length mb \<le> i + 1 then Some (Some (start, int i - 1))
     else if hyphensAt mb i then
       (case boundaryAt mb bnd i of
          None \<Rightarrow> None
        | Some None \<Rightarrow> Some (Some (start, int i))
        | Some (Some False) \<Rightarrow> mpScan mb bnd eol (i + 1) start
        | Some (Some True) \<Rightarrow>
          let offset = i + 2 + length bnd in
          if length mb < offset + 2 then Some (Some (start, int i))
          else (case strnEq id (drop offset mb) eol of
              None \<Rightarrow> None
            | Some e \<Rightarrow>
              if e \<or> mb ! offset = mpLF then
                (case start of None \<Rightarrow> mpScan mb bnd eol (offset + length eol + 1) (Some offset) | Some s \<Rightarrow> Some (Some (start, int i)))
              else if hyphensAt mb offset then Some (Some (start, int i))
              else Some None))
     else mpScan mb bnd eol (i + 1) start)"
  by pat_completeness auto
termination by (relation "measure (\<lambda>(mb, bnd, eol, i, start). length mb - i)") auto

declare mpScan.simps [simp del]

definition GetNextBodyPartBuffer :: "nat \<Rightarrow> tdes8 \<Rightarrow> tdes8 \<Rightarrow> tdes8 \<Rightarrow> (nat \<times> nat) option option" where
  "GetNextBodyPartBuffer aStartPosition mb bnd eol =
    map_option (\<lambda>r. case r of
        Some (Some s, e) \<Rightarrow> if e \<noteq> - 1 then Some (s, nat (e - int s)) else None
      | _ \<Rightarrow> None) (mpScan mb bnd eol aStartPosition None)"

subsection \<open>The headers of a part\<close>

record body_part =
  bpBody :: "tdes8 option"
  bpHeaders :: "tdes8 option"
  bpBoundary :: "tdes8 option"
  bpCharset :: "tdes8 option"
  bpContentBase :: "tdes8 option"
  bpContentLocation :: "tdes8 option"
  bpTransferEncoding :: "tdes8 option"
  bpContentType :: "tdes8 option"
  bpContentID :: "tdes8 option"
  bpIsDecodedBody :: bool
  bpUrl :: "tdes16 option"

definition newBodyPart :: body_part where
  "newBodyPart = \<lparr>bpBody = None, bpHeaders = None, bpBoundary = None, bpCharset = None, bpContentBase = None, bpContentLocation = None,
     bpTransferEncoding = None, bpContentType = None, bpContentID = None, bpIsDecodedBody = False, bpUrl = None\<rparr>"

datatype mp_header = MpContentBase | MpContentLocation | MpTransferEncoding | MpContentType | MpContentID

definition mpHeaderNames :: "(tdes8 \<times> mp_header) list" where
  "mpHeaderNames = [(lit8 ''Content-Base:'', MpContentBase), (lit8 ''Content-Location:'', MpContentLocation),
     (lit8 ''Content-Transfer-Encoding:'', MpTransferEncoding), (lit8 ''Content-Encoding:'', MpTransferEncoding),
     (lit8 ''Content-Type:'', MpContentType), (lit8 ''Content-ID:'', MpContentID)]"

fun findHeader :: "tdes8 \<Rightarrow> (tdes8 \<times> mp_header) list \<Rightarrow> (nat \<times> mp_header) option option" where
  "findHeader s [] = Some None"
| "findHeader s ((n, h) # hs) = (case strnEq cLower s n of
     None \<Rightarrow> None | Some True \<Rightarrow> Some (Some (length n, h)) | Some False \<Rightarrow> findHeader s hs)"

primrec setHeader :: "mp_header \<Rightarrow> tdes8 option \<Rightarrow> body_part \<Rightarrow> body_part" where
  "setHeader MpContentBase v p = p\<lparr>bpContentBase := v\<rparr>"
| "setHeader MpContentLocation v p = p\<lparr>bpContentLocation := v\<rparr>"
| "setHeader MpTransferEncoding v p = p\<lparr>bpTransferEncoding := v\<rparr>"
| "setHeader MpContentType v p = p\<lparr>bpContentType := v\<rparr>"
| "setHeader MpContentID v p = p\<lparr>bpContentID := v\<rparr>"

text \<open>The position of the end of the line, from \<open>j\<close> on.\<close>

function lineEnd :: "tdes8 \<Rightarrow> nat \<Rightarrow> tdes8 \<Rightarrow> nat \<Rightarrow> nat option option" where
  "lineEnd buf l eol j =
    (if l < j + length eol then Some None
     else (case strnEq id (drop j buf) eol of
         None \<Rightarrow> None
       | Some e \<Rightarrow> if e \<or> buf ! j = mpLF then Some (Some j) else if eol = [] then None else lineEnd buf l eol (j + 1)))"
  by pat_completeness auto
termination by (relation "measure (\<lambda>(buf, l, eol, j). l - j)") (auto simp: neq_Nil_conv)

declare lineEnd.simps [simp del]

text \<open>
  A header at \<open>i\<close>: where to go on, and the value. The value of a header without a line end, and that of a
  content identifier without a bracket, is the one of the header before.
\<close>

definition headerStep :: "tdes8 \<Rightarrow> nat \<Rightarrow> tdes8 \<Rightarrow> nat \<Rightarrow> nat \<times> mp_header \<Rightarrow> tdes8 option \<Rightarrow> (nat \<times> tdes8 option) option" where
  "headerStep buf l eol i h v =
    (let startPos = i + fst h + length (takeWhile (\<lambda>c. c = 32) (drop (i + fst h) buf)) in
     if length buf \<le> startPos then None
     else (case lineEnd buf l eol startPos of
         None \<Rightarrow> None
       | Some None \<Rightarrow> Some (i, v)
       | Some (Some j) \<Rightarrow>
         if snd h = MpContentID then
           if buf ! startPos = 60 then
             if j < startPos + 2 then None else Some (j - 1, Some (take (j - startPos - 2) (drop (startPos + 1) buf)))
           else Some (j - 1, v)
         else Some (j - 1, Some (take (j - startPos) (drop startPos buf)))))"

lemma lineEnd_ge: "lineEnd buf l eol j = Some (Some k) \<Longrightarrow> j \<le> k"
proof (induction buf l eol j rule: lineEnd.induct)
  case (1 buf l eol j)
  then show ?case by (subst (asm) (2) lineEnd.simps) (force split: if_splits option.splits)
qed

lemma headerStep_ge: "headerStep buf l eol i h v = Some (i', v') \<Longrightarrow> 0 < fst h \<Longrightarrow> i \<le> i'"
  by (auto simp: headerStep_def Let_def dest!: lineEnd_ge split: option.splits if_splits)

text \<open>At the empty line the body begins, and what lies before it are the headers.\<close>

definition takeBody :: "tdes8 \<Rightarrow> nat \<Rightarrow> bool \<Rightarrow> nat \<Rightarrow> nat \<Rightarrow> nat \<Rightarrow> body_part \<Rightarrow> body_part option" where
  "takeBody buf l lf i i' aEolLength p =
    (if l < i' + aEolLength then None
     else let lengthBody = l - (i' + aEolLength); p1 = p\<lparr>bpBody := Some (take lengthBody (drop (i + aEolLength) buf))\<rparr> in
       if i' = 0 then Some p1
       else if l < lengthBody + length (mpEol lf) + aEolLength then None
       else Some (p1\<lparr>bpHeaders := Some (take (l - lengthBody - length (mpEol lf) - aEolLength) (drop (length (mpEol lf)) buf))\<rparr>))"

lemma findHeader_pos: "findHeader s hs = Some (Some h) \<Longrightarrow> \<forall>x \<in> set hs. fst x \<noteq> [] \<Longrightarrow> 0 < fst h"
  by (induction s hs rule: findHeader.induct) (auto split: option.splits bool.splits)

lemma findHeader_names: "findHeader s mpHeaderNames = Some (Some h) \<Longrightarrow> 0 < fst h"
  by (drule findHeader_pos) (simp_all add: mpHeaderNames_def lit8_def)

function partLoop :: "tdes8 \<Rightarrow> nat \<Rightarrow> bool \<Rightarrow> nat \<Rightarrow> tdes8 option \<Rightarrow> body_part \<Rightarrow> body_part option" where
  "partLoop buf l lf i v p =
    (if l \<le> i then Some p
     else (case findHeader (drop i buf) mpHeaderNames of
         None \<Rightarrow> None
       | Some h \<Rightarrow>
         (case (case h of None \<Rightarrow> Some (i, v) | Some h \<Rightarrow> headerStep buf l (mpEol lf) i h v) of
            None \<Rightarrow> None
          | Some (i', v') \<Rightarrow>
            let p1 = (case h of None \<Rightarrow> p | Some h \<Rightarrow> setHeader (snd h) v' p) in
            (case strnEq id (drop i buf) (mpDoubleEol lf) of
               None \<Rightarrow> None
             | Some True \<Rightarrow> takeBody buf l lf i i' (length (mpDoubleEol lf)) p1
             | Some False \<Rightarrow>
               (case strnEq id (drop i buf) (mpDoubleEol True) of
                  None \<Rightarrow> None
                | Some True \<Rightarrow> takeBody buf l lf i i' 2 p1
                | Some False \<Rightarrow> partLoop buf l lf (i' + 1) v' p1)))))"
  by pat_completeness auto
termination
  by (relation "measure (\<lambda>(buf, l, lf, i, v, p). l - i)")
    (auto split: option.splits dest!: headerStep_ge dest: findHeader_names)

declare partLoop.simps [simp del]

subsection \<open>Decoding\<close>

text \<open>A pattern at the place a value points to. No pattern holds a line end or a semicolon, so what follows the value does not matter.\<close>

definition valueStarts :: "tdes8 \<Rightarrow> string \<Rightarrow> bool" where
  "valueStarts v pat = (strnEq cLower v (lit8 pat) = Some True)"

definition IsEncoded :: "tdes8 option \<Rightarrow> bool" where
  "IsEncoded v = (case v of None \<Rightarrow> False
     | Some e \<Rightarrow> \<not> valueStarts e ''7bit'' \<and> \<not> valueStarts e ''8bit'' \<and> \<not> valueStarts e ''binary'')"

definition IsZipped :: "tdes8 option \<Rightarrow> bool" where
  "IsZipped v = (case v of None \<Rightarrow> False | Some t \<Rightarrow> valueStarts t ''application/x-gzip'')"

datatype gz_result = GzNoMemory | GzFailed | GzOutput tdes8

record mp_uri =
  uScheme :: "tdes16 option"
  uUser :: "tdes16 option"
  uHost :: "tdes16 option"
  uPort :: "tdes16 option"
  uPath :: "tdes16 option"

text \<open>The platform: the decoders, the address parser, and which allocations succeed for the part at an offset.\<close>

record mp_env =
  meBase64 :: "tdes8 \<Rightarrow> tdes8"
  meQuotedPrintable :: "tdes8 \<Rightarrow> tdes8"
  meGunzip :: "tdes8 \<Rightarrow> gz_result"
  meUri8 :: "tdes8 \<Rightarrow> symerr + mp_uri"
  meUri16 :: "tdes16 \<Rightarrow> symerr + mp_uri"
  meAllocPart :: "nat \<Rightarrow> bool"
  meAllocBuffer :: "nat \<Rightarrow> allocs"
  meAllocUrl :: "nat \<Rightarrow> allocs"
  meAppendPart :: "nat \<Rightarrow> bool"

definition decodedBy :: "bool \<Rightarrow> tdes8 \<Rightarrow> symerr \<times> tdes8 option" where
  "decodedBy alloc out = (if \<not> alloc then (KErrNoMemory, None) else (if out = [] then KErrGeneral else KErrNone, Some out))"

definition gunzipped :: "bool \<Rightarrow> gz_result \<Rightarrow> symerr \<times> tdes8 option" where
  "gunzipped alloc r = (case r of
     GzNoMemory \<Rightarrow> (KErrNoMemory, None)
   | GzFailed \<Rightarrow> (KErrGeneral, None)
   | GzOutput out \<Rightarrow> if out = [] then (KErrGeneral, None) else if alloc then (KErrNone, Some out) else (KErrNoMemory, None))"

text \<open>An encoding that is not known gives no error and no data.\<close>

definition DecodeContentTransferEncoding :: "mp_env \<Rightarrow> bool \<Rightarrow> tdes8 \<Rightarrow> tdes8 \<Rightarrow> symerr \<times> tdes8 option" where
  "DecodeContentTransferEncoding me alloc e body =
    (if valueStarts e ''base64'' then decodedBy alloc (meBase64 me body)
     else if valueStarts e ''quoted-printable'' then decodedBy alloc (meQuotedPrintable me body)
     else if valueStarts e ''gzip'' then gunzipped alloc (meGunzip me body)
     else (KErrNone, None))"

definition Unzip :: "mp_env \<Rightarrow> bool \<Rightarrow> tdes8 \<Rightarrow> tdes8 \<Rightarrow> symerr \<times> tdes8 option" where
  "Unzip me alloc t body = (if valueStarts t ''application/x-gzip'' then gunzipped alloc (meGunzip me body) else (KErrNone, None))"

text \<open>
  The value of an attribute of the content type. After a quote was found the value starts with it, and so ends at once.
\<close>

definition contentTypeAttribute :: "tdes8 \<Rightarrow> tdes8 \<Rightarrow> tdes8 option" where
  "contentTypeAttribute unrelated name =
    (case des_find unrelated name of
       None \<Rightarrow> None
     | Some off \<Rightarrow>
       let v = drop (off + length name) unrelated;
           v1 = (case des_find v mpQuote of None \<Rightarrow> v | Some q \<Rightarrow> drop q v);
           e = (case des_find v1 mpQuote of None \<Rightarrow> des_find v1 mpSemicolon | Some q \<Rightarrow> Some q)
       in Some (case e of None \<Rightarrow> v1 | Some n \<Rightarrow> take n v1))"

definition CutOffContentTypeAttributes :: "tdes8 \<Rightarrow> body_part \<Rightarrow> body_part" where
  "CutOffContentTypeAttributes t p =
    (case des_find t mpSemicolon of
       None \<Rightarrow> p
     | Some off \<Rightarrow>
       let unrelated = drop off t;
           p1 = p\<lparr>bpContentType := Some (take off t)\<rparr>;
           p2 = (case contentTypeAttribute unrelated (lit8 ''boundary='') of None \<Rightarrow> p1 | Some b \<Rightarrow> p1\<lparr>bpBoundary := Some b\<rparr>)
       in case contentTypeAttribute unrelated (lit8 ''charset='') of None \<Rightarrow> p2 | Some c \<Rightarrow> p2\<lparr>bpCharset := Some c\<rparr>)"

subsection \<open>Addresses\<close>

definition IsUrlRelativeL :: "mp_env \<Rightarrow> tdes8 \<Rightarrow> symerr + bool" where
  "IsUrlRelativeL me aUrl = (case meUri8 me aUrl of Inl e \<Rightarrow> Inl e | Inr u \<Rightarrow> Inr (uScheme u = None))"

definition LocateReverse :: "tdes16 \<Rightarrow> 16 word \<Rightarrow> int" where
  "LocateReverse d c = (case des_locate (rev d) c of None \<Rightarrow> - 1 | Some k \<Rightarrow> int (length d) - 1 - int k)"

text \<open>The directory of a path. A position that was not found is -1, which the code takes for found.\<close>

definition basePath :: "tdes16 option \<Rightarrow> tdes16 option \<times> bool" where
  "basePath p =
    (case p of
       None \<Rightarrow> (None, False)
     | Some path \<Rightarrow>
       (case (if LocateReverse path 46 \<noteq> 0 then
                (let s = LocateReverse path 47 in if s \<noteq> 0 then Some (take (nat (s + 1)) path) else None)
              else Some path) of
          None \<Rightarrow> (None, True)
        | Some q \<Rightarrow> (Some q, LocateReverse q 47 \<noteq> int (length q) - 1)))"

definition orEmpty :: "tdes16 option \<Rightarrow> (tdes16 \<Rightarrow> tdes16) \<Rightarrow> tdes16" where
  "orEmpty x f = (case x of None \<Rightarrow> [] | Some d \<Rightarrow> f d)"

definition dropDotSlash :: "tdes8 \<Rightarrow> tdes8" where
  "dropDotSlash r = (if des_locate r 46 = Some 0 \<and> des_locate r 47 = Some 1 then drop 2 r else r)"

text \<open>
  The buffer is made for the length that was counted; ending it with a zero beyond it panics. The second
  allocation, for the wide copy of the relative address, is not checked.
\<close>

definition UrlRelToAbsL :: "mp_env \<Rightarrow> allocs \<Rightarrow> tdes16 \<Rightarrow> tdes8 \<Rightarrow> (symerr + tdes16) option" where
  "UrlRelToAbsL me alloc aBase aRelativeUrl =
    (case meUri16 me aBase of
       Inl e \<Rightarrow> Some (Inl e)
     | Inr u \<Rightarrow>
       (case (uScheme u, uHost u) of
          (Some scheme, Some host) \<Rightarrow>
            let rel = dropDotSlash aRelativeUrl;
                (path, appendSlash) = (if des_locate rel 47 \<noteq> Some 0 then basePath (uPath u) else (None, False));
                len = length scheme + 3 + length (orEmpty (uUser u) (\<lambda>d. d @ [64])) + length host + length (orEmpty (uPort u) id) +
                  length rel + length (orEmpty path id) + (if appendSlash then 1 else 0) + 2;
                url = scheme @ lit16 ''://'' @ orEmpty (uUser u) (\<lambda>d. d @ [64]) @ host @ orEmpty (uPort u) (\<lambda>d. 58 # d) @
                  orEmpty path id @ (if appendSlash then [47] else []) @ map ucast rel
            in if \<not> alloc_ok alloc then Some (Inl KErrNoMemory) else if alloc_ok (alloc_rest alloc) \<and> length url < len then Some (Inr url) else None
        | _ \<Rightarrow> Some (Inl KErrNoMemory)))"

text \<open>The base is the one of the part, if it has one that is absolute, and else the address of the response.\<close>

definition GetBodyPartUrlL :: "mp_env \<Rightarrow> allocs \<Rightarrow> tdes8 option \<Rightarrow> tdes8 option \<Rightarrow> tdes16 \<Rightarrow> (symerr + tdes16) option" where
  "GetBodyPartUrlL me alloc aContentBase aContentLocation aResponseUrl =
    (case (case aContentBase of None \<Rightarrow> Inr None | Some b \<Rightarrow> map_sum id (\<lambda>rel. if rel then None else Some b) (IsUrlRelativeL me b)) of
       Inl e \<Rightarrow> Some (Inl e)
     | Inr base \<Rightarrow>
       if \<not> alloc_ok alloc then Some (Inl KErrNoMemory)
       else let url = (case base of None \<Rightarrow> aResponseUrl | Some b \<Rightarrow> map ucast b) in
         (case aContentLocation of
            None \<Rightarrow> Some (Inr url)
          | Some loc \<Rightarrow>
            (case IsUrlRelativeL me loc of
               Inl e \<Rightarrow> Some (Inl e)
             | Inr False \<Rightarrow> Some (if alloc_ok (alloc_rest alloc) then Inr (map ucast loc) else Inl KErrNoMemory)
             | Inr True \<Rightarrow> UrlRelToAbsL me (alloc_rest alloc) url loc)))"

subsection \<open>A part, and all parts\<close>

definition decodePart :: "mp_env \<Rightarrow> bool \<Rightarrow> body_part \<Rightarrow> (symerr + body_part) option" where
  "decodePart me alloc p =
    (if IsEncoded (bpTransferEncoding p) then
       (case bpBody p of
          None \<Rightarrow> None
        | Some body \<Rightarrow> let (err, out) = DecodeContentTransferEncoding me alloc (the (bpTransferEncoding p)) body
            in Some (if err \<noteq> KErrNone then Inl err else Inr (p\<lparr>bpBody := out, bpIsDecodedBody := True\<rparr>)))
     else Some (Inr p))"

definition unzipPart :: "mp_env \<Rightarrow> bool \<Rightarrow> body_part \<Rightarrow> (symerr + body_part) option" where
  "unzipPart me alloc p =
    (let p1 = (case bpContentType p of None \<Rightarrow> p | Some t \<Rightarrow> CutOffContentTypeAttributes t p) in
     if IsZipped (bpContentType p1) then
       (case bpBody p1 of
          None \<Rightarrow> None
        | Some body \<Rightarrow> let (err, out) = Unzip me alloc (the (bpContentType p1)) body
            in Some (if err \<noteq> KErrNone then Inl err else Inr (p1\<lparr>bpIsDecodedBody := True, bpBody := out\<rparr>)))
     else Some (Inr p1))"

definition ParseBodyPartL :: "mp_env \<Rightarrow> nat \<Rightarrow> tdes8 \<Rightarrow> nat \<Rightarrow> bool \<Rightarrow> tdes16 \<Rightarrow> (symerr + body_part) option" where
  "ParseBodyPartL me off buf l lf aResponseUrl = do {
     p \<leftarrow> partLoop buf l lf 0 None newBodyPart;
     r1 \<leftarrow> decodePart me (alloc_ok (meAllocBuffer me off)) p;
     (case r1 of Inl e \<Rightarrow> Some (Inl e) | Inr p1 \<Rightarrow> do {
       r2 \<leftarrow> unzipPart me (alloc_ok (alloc_rest (meAllocBuffer me off))) p1;
       (case r2 of Inl e \<Rightarrow> Some (Inl e) | Inr p2 \<Rightarrow> do {
         r3 \<leftarrow> GetBodyPartUrlL me (meAllocUrl me off) (bpContentBase p2) (bpContentLocation p2) aResponseUrl;
         Some (case r3 of Inl e \<Rightarrow> Inl e | Inr url \<Rightarrow> Inr (p2\<lparr>bpUrl := Some url\<rparr>)) }) }) }"

text \<open>Where a part lies: behind the position where the search began, not empty, and within the text.\<close>

lemma mpScan_started:
  "mpScan mb bnd eol i (Some s0) = Some (Some (st, e)) \<Longrightarrow> i \<le> length mb + 1 \<Longrightarrow> st = Some s0 \<and> int i - 1 \<le> e \<and> e \<le> int (length mb)"
proof (induction "length mb - i" arbitrary: i rule: less_induct)
  case less
  have IH: "mpScan mb bnd eol (i + 1) (Some s0) = Some (Some (st, e)) \<Longrightarrow> i + 1 < length mb \<Longrightarrow>
      st = Some s0 \<and> int (i + 1) - 1 \<le> e \<and> e \<le> int (length mb)" using less.hyps [of "i + 1"] by simp
  show ?case using less.prems IH
    by (subst (asm) mpScan.simps) (force simp: Let_def split: if_splits option.splits bool.splits)
qed

lemma mpScan_found:
  assumes "length eol \<le> 2"
  shows "mpScan mb bnd eol i None = Some (Some (Some s, e)) \<Longrightarrow> i + 2 + length bnd \<le> s \<and> int s + int (length eol) \<le> e \<and> e \<le> int (length mb) \<and> s < length mb"
proof (induction "length mb - i" arbitrary: i rule: less_induct)
  case less
  have IH: "i + 2 + length bnd \<le> s \<and> int s + int (length eol) \<le> e \<and> e \<le> int (length mb) \<and> s < length mb"
    if "mpScan mb bnd eol (i + 1) None = Some (Some (Some s, e))" "i + 1 < length mb"
  proof -
    have "length mb - (i + 1) < length mb - i" using that(2) by simp
    from less.hyps [OF this that(1)] show ?thesis by linarith
  qed
  let ?o = "i + 2 + length bnd"
  have go: "mpScan mb bnd eol (?o + length eol + 1) (Some ?o) = Some (Some (Some s, e)) \<Longrightarrow> ?o + 2 \<le> length mb \<Longrightarrow>
      s = ?o \<and> int s + int (length eol) \<le> e \<and> e \<le> int (length mb) \<and> s < length mb"
    using mpScan_started [of mb bnd eol "?o + length eol + 1" ?o "Some s" e] assms by simp
  show ?case using less.prems IH go
    by (subst (asm) mpScan.simps) (force simp: Let_def split: if_splits option.splits bool.splits)
qed

lemma GetNext_scan:
  assumes "GetNextBodyPartBuffer n mb bnd eol = Some (Some (s, l))"
  shows "\<exists>e. mpScan mb bnd eol n None = Some (Some (Some s, e)) \<and> e \<noteq> - 1 \<and> l = nat (e - int s)"
proof (cases "mpScan mb bnd eol n None")
  case None
  then show ?thesis using assms by (simp add: GetNextBodyPartBuffer_def)
next
  case (Some r)
  show ?thesis
  proof (cases r)
    case None
    then show ?thesis using assms Some by (simp add: GetNextBodyPartBuffer_def)
  next
    case r: (Some x)
    obtain st e where "x = (st, e)" by (cases x)
    then show ?thesis using assms Some r by (cases st) (auto simp: GetNextBodyPartBuffer_def split: if_splits)
  qed
qed

lemma part_in_text:
  assumes "length eol \<le> 2" "eol \<noteq> []" "GetNextBodyPartBuffer n mb bnd eol = Some (Some (s, l))"
  shows "n + 2 + length bnd \<le> s \<and> 0 < l \<and> s + l \<le> length mb \<and> n < length mb"
proof -
  obtain e where "mpScan mb bnd eol n None = Some (Some (Some s, e))" "l = nat (e - int s)"
    using GetNext_scan [OF assms(3)] by blast
  with mpScan_found [OF assms(1) this(1)] assms(2) show ?thesis by (cases eol) auto
qed

lemma mpEol_length: "length (mpEol lf) \<le> 2" "mpEol lf \<noteq> []"
  by (simp_all add: mpEol_def)

text \<open>The search goes on from the sum of the lengths of the parts so far. A part that the array has no room for is dropped.\<close>

function parseParts :: "mp_env \<Rightarrow> tdes8 \<Rightarrow> tdes8 \<Rightarrow> bool \<Rightarrow> tdes16 \<Rightarrow> int \<Rightarrow> nat \<Rightarrow> nat \<Rightarrow> body_part list \<Rightarrow> (symerr \<times> body_part list) option" where
  "parseParts me mb bnd lf aUrl aMaxToParse counter startPosition parts =
    (if aMaxToParse \<noteq> - 1 \<and> int counter \<ge> aMaxToParse then Some (KErrNone, parts)
     else (case GetNextBodyPartBuffer startPosition mb bnd (mpEol lf) of
         None \<Rightarrow> None
       | Some None \<Rightarrow> Some (KErrNone, parts)
       | Some (Some (s, l)) \<Rightarrow>
         if \<not> meAllocPart me s then Some (KErrNoMemory, parts)
         else (case ParseBodyPartL me s (drop s mb) l lf aUrl of
             None \<Rightarrow> None
           | Some (Inl e) \<Rightarrow> Some (e, parts)
           | Some (Inr p) \<Rightarrow> parseParts me mb bnd lf aUrl aMaxToParse (counter + 1) (startPosition + l) (if meAppendPart me s then parts @ [p] else parts))))"
  by pat_completeness auto
termination
  by (relation "measure (\<lambda>(me, mb, bnd, lf, u, m, c, n, ps). length mb - n)") (auto dest!: part_in_text [OF mpEol_length])

declare parseParts.simps [simp del]

definition mpParseL :: "mp_env \<Rightarrow> tdes8 \<Rightarrow> tdes8 \<Rightarrow> tdes8 \<Rightarrow> tdes16 \<Rightarrow> int \<Rightarrow> (symerr \<times> body_part list) option" where
  "mpParseL me mb aContentType bnd aUrl aMaxToParse =
    (if mb = [] then None
     else do {
       mixed \<leftarrow> strnEq cLower aContentType (lit8 ''multipart/mixed'');
       supported \<leftarrow> (if mixed then Some True else strnEq cLower aContentType (lit8 ''multipart/related''));
       if \<not> supported then Some (KErrNotSupported, [])
       else do {
         lf \<leftarrow> SetEolCharacters mb bnd;
         parseParts me mb bnd lf aUrl aMaxToParse 0 0 [] } })"

end
