(* ===== verification/MultipartCompose.thy ===== *)
theory MultipartCompose
  imports MultipartParser
begin

text \<open>
  The composer of multipart documents: \<open>ComposeL\<close> and \<open>ComposeMixedL\<close> of MultipartParser.cpp. The document is
  written to a buffer whose size is counted before; an append that does not fit panics, and so does
  looking for the end of headers that are nothing but line ends. The date and the allocations are parameters.
\<close>

definition mpCRLF :: tdes8 where "mpCRLF = [mpCR, mpLF]"
definition mpDoubleCRLF :: tdes8 where "mpDoubleCRLF = [mpCR, mpLF, mpCR, mpLF]"

definition isEolChar :: "byte \<Rightarrow> bool" where
  "isEolChar c \<longleftrightarrow> c = mpCR \<or> c = mpLF"

definition headersOf :: "body_part \<Rightarrow> tdes8" where
  "headersOf p = (case bpHeaders p of None \<Rightarrow> [] | Some h \<Rightarrow> h)"

definition bodyOf :: "body_part \<Rightarrow> tdes8" where
  "bodyOf p = (case bpBody p of None \<Rightarrow> [] | Some b \<Rightarrow> b)"

text \<open>\<open>Right\<close> of a descriptor gives all of it when it is shorter.\<close>

definition desRight :: "nat \<Rightarrow> 'a list \<Rightarrow> 'a list" where
  "desRight n d = drop (length d - n) d"

definition needsEol :: "tdes8 \<Rightarrow> bool" where
  "needsEol b \<longleftrightarrow> b \<noteq> [] \<and> desRight 2 b \<noteq> mpCRLF"

subsection \<open>The size of the document\<close>

text \<open>The line ends at the end of the headers; when there is nothing before them the search leaves the text.\<close>

definition eolTail :: "tdes8 \<Rightarrow> nat option" where
  "eolTail h = (let n = length (takeWhile isEolChar (rev h)) in if n = length h then None else Some n)"

definition headerSize :: "tdes8 \<Rightarrow> int option" where
  "headerSize h = (if h = [] then Some 0 else map_option (\<lambda>n. int (length h) - int n + int (length mpCRLF)) (eolTail h))"

definition bodySizeOf :: "tdes8 \<Rightarrow> int" where
  "bodySizeOf b = int (length b) + (if needsEol b then int (length mpCRLF) else 0)"

fun partSizes :: "nat \<Rightarrow> body_part list \<Rightarrow> int \<Rightarrow> int option" where
  "partSizes boundaryLength [] bodySize = Some bodySize"
| "partSizes boundaryLength (p # ps) bodySize =
    (if length (headersOf p) + length (bodyOf p) = 0 then partSizes boundaryLength ps (bodySize - int (boundaryLength + length mpCRLF))
     else (case headerSize (headersOf p) of
         None \<Rightarrow> None
       | Some n \<Rightarrow> partSizes boundaryLength ps (bodySize + n + bodySizeOf (bodyOf p))))"

definition bodySizeL :: "nat \<Rightarrow> body_part list \<Rightarrow> int option" where
  "bodySizeL boundaryLength ps =
    map_option (\<lambda>n. n + int boundaryLength) (partSizes boundaryLength ps (int ((boundaryLength + length mpCRLF) * length ps)))"

definition showDec8 :: "int \<Rightarrow> tdes8" where
  "showDec8 n = (if n < 0 then 45 # map ucast (showDec (nat (- n))) else map ucast (showDec (nat n)))"

definition KContentType :: "tdes8 \<Rightarrow> tdes8" where
  "KContentType bnd = lit8 ''Content-Type: multipart/mixed; boundary='' @ mpQuote @ bnd @ mpQuote @ mpCRLF"

definition KContentTypeLength :: nat where
  "KContentTypeLength = length (lit8 ''Content-Type: multipart/mixed; boundary='' @ mpQuote @ lit8 ''%S'' @ mpQuote @ mpCRLF)"

definition KContentLength :: "int \<Rightarrow> tdes8" where
  "KContentLength n = lit8 ''Content-Length: '' @ showDec8 n @ mpCRLF"

definition KLastModified :: "tdes8 \<Rightarrow> tdes8" where
  "KLastModified d = lit8 ''Last-Modified: '' @ d @ mpCRLF"

definition docSizeOf :: "32 word \<Rightarrow> tdes8 \<Rightarrow> int \<Rightarrow> int" where
  "docSizeOf aMask bnd bodySize = bodySize +
    (if bit aMask 0 then 13 + 1 + int KContentTypeLength - 2 + int (length bnd) + int (length mpCRLF) else 0) +
    (if bit aMask 1 then 15 + 1 + int (length (showDec8 bodySize)) + int (length mpCRLF) else 0) +
    (if bit aMask 2 then 14 + 1 + 29 + int (length mpCRLF) else 0) + int (length mpCRLF)"

subsection \<open>The document\<close>

definition docAppend :: "int \<Rightarrow> tdes8 \<Rightarrow> tdes8 \<Rightarrow> tdes8 option" where
  "docAppend docSize x doc = (if int (length doc + length x) \<le> docSize then Some (doc @ x) else None)"

text \<open>The last character of the headers that is written: their first, when all others are line ends.\<close>

definition headerLength :: "tdes8 \<Rightarrow> int" where
  "headerLength h = (if h = [] then - 1 else int (length h) - 1 - int (length (takeWhile isEolChar (rev (tl h)))))"

definition appendPart :: "int \<Rightarrow> tdes8 \<Rightarrow> body_part \<Rightarrow> tdes8 \<Rightarrow> tdes8 option" where
  "appendPart docSize boundary p doc =
    (if length (headersOf p) + length (bodyOf p) = 0 then Some doc
     else do {
       d1 \<leftarrow> docAppend docSize boundary doc;
       d2 \<leftarrow> docAppend docSize (take (nat (headerLength (headersOf p) + 1)) (headersOf p)) d1;
       d3 \<leftarrow> docAppend docSize (if headerLength (headersOf p) > 0 then mpDoubleCRLF else mpCRLF) d2;
       d4 \<leftarrow> docAppend docSize (bodyOf p) d3;
       (if needsEol (bodyOf p) then docAppend docSize mpCRLF d4 else Some d4) })"

fun appendParts :: "int \<Rightarrow> tdes8 \<Rightarrow> body_part list \<Rightarrow> tdes8 \<Rightarrow> tdes8 option" where
  "appendParts docSize boundary [] doc = Some doc"
| "appendParts docSize boundary (p # ps) doc = do { d \<leftarrow> appendPart docSize boundary p doc; appendParts docSize boundary ps d }"

text \<open>Allocations: the boundary, the number, the date, the document.\<close>

record compose_env =
  ceBoundary :: bool
  ceNumber :: bool
  ceDate :: "symerr + tdes8"
  ceDocument :: bool

definition ComposeMixedL :: "compose_env \<Rightarrow> body_part list \<Rightarrow> tdes8 \<Rightarrow> 32 word \<Rightarrow> (symerr + tdes8) option" where
  "ComposeMixedL ce aBodyArray aBoundary aHeaderMask =
    (if \<not> ceBoundary ce then Some (Inl KErrNoMemory)
     else let boundary = mpHyphens @ aBoundary @ mpCRLF in
       case bodySizeL (length boundary) aBodyArray of
         None \<Rightarrow> None
       | Some bodySize \<Rightarrow>
         if bit aHeaderMask 1 \<and> \<not> ceNumber ce then Some (Inl KErrNoMemory)
         else if \<not> ceDocument ce then Some (Inl KErrNoMemory)
         else let docSize = docSizeOf aHeaderMask aBoundary bodySize in do {
           d1 \<leftarrow> (if bit aHeaderMask 0 then docAppend docSize (KContentType aBoundary) [] else Some []);
           d2 \<leftarrow> (if bit aHeaderMask 1 then docAppend docSize (KContentLength bodySize) d1 else Some d1);
           (case (if bit aHeaderMask 2 then ceDate ce else Inr []) of
              Inl err \<Rightarrow> Some (Inl err)
            | Inr date \<Rightarrow> do {
                d3 \<leftarrow> (if bit aHeaderMask 2 then docAppend docSize (KLastModified date) d2 else Some d2);
                d4 \<leftarrow> docAppend docSize mpCRLF d3;
                d5 \<leftarrow> appendParts docSize boundary aBodyArray d4;
                d6 \<leftarrow> docAppend docSize (mpHyphens @ aBoundary @ mpHyphens) d5;
                Some (Inr d6) }) })"

datatype mp_subtype = EMultipartSubtypeMixed | OtherSubtype int

definition ComposeL :: "compose_env \<Rightarrow> body_part list \<Rightarrow> tdes8 \<Rightarrow> mp_subtype \<Rightarrow> 32 word \<Rightarrow> (symerr + tdes8) option" where
  "ComposeL ce aBodyPartsArray aBoundary aSubtype aHeaderMask =
    (if aBoundary = [] then Some (Inl KErrArgument)
     else (case aSubtype of
         EMultipartSubtypeMixed \<Rightarrow> ComposeMixedL ce aBodyPartsArray aBoundary aHeaderMask
       | OtherSubtype n \<Rightarrow> Some (Inl KErrArgument)))"

end
