(* ===== verification/MultipartSpec.thy ===== *)
theory MultipartSpec
  imports MultipartParser
begin

text \<open>
  What the search for the parts of a multipart text finds: the parts of a well-formed text in their order,
  as long as none is shorter than the boundaries before it, and some parts twice when one is.
\<close>

subsection \<open>Where there is no boundary\<close>

text \<open>A boundary at \<open>i\<close>: two hyphens and the boundary itself, without regard to case.\<close>

definition isMarker :: "tdes8 \<Rightarrow> tdes8 \<Rightarrow> nat \<Rightarrow> bool" where
  "isMarker mb bnd i \<longleftrightarrow> hyphensAt mb i \<and> boundaryAt mb bnd i = Some (Some True)"

text \<open>Positions that the search passes: nothing that looks like a boundary, and room for one.\<close>

definition passes :: "tdes8 \<Rightarrow> tdes8 \<Rightarrow> nat \<Rightarrow> bool" where
  "passes mb bnd i \<longleftrightarrow> i + 1 < length mb \<and> (\<not> hyphensAt mb i \<or> boundaryAt mb bnd i = Some (Some False))"

lemma mpScan_pass: "passes mb bnd i \<Longrightarrow> mpScan mb bnd eol i st = mpScan mb bnd eol (i + 1) st"
  by (subst mpScan.simps) (auto simp: passes_def)

lemma mpScan_passes: "i \<le> p \<Longrightarrow> (\<And>k. i \<le> k \<Longrightarrow> k < p \<Longrightarrow> passes mb bnd k) \<Longrightarrow> mpScan mb bnd eol i st = mpScan mb bnd eol p st"
proof (induction "p - i" arbitrary: i)
  case (Suc n)
  then have "mpScan mb bnd eol i st = mpScan mb bnd eol (i + 1) st" by (intro mpScan_pass) simp
  then show ?case using Suc by simp
qed simp

text \<open>A line end behind a boundary, or two hyphens.\<close>

definition opens :: "tdes8 \<Rightarrow> tdes8 \<Rightarrow> tdes8 \<Rightarrow> nat \<Rightarrow> bool" where
  "opens mb bnd eol p \<longleftrightarrow> isMarker mb bnd p \<and> p + 1 < length mb \<and> p + length bnd + 4 \<le> length mb \<and>
     (\<exists>e. strnEq id (drop (p + 2 + length bnd) mb) eol = Some e \<and> (e \<or> mb ! (p + 2 + length bnd) = mpLF))"

definition closes :: "tdes8 \<Rightarrow> tdes8 \<Rightarrow> tdes8 \<Rightarrow> nat \<Rightarrow> bool" where
  "closes mb bnd eol p \<longleftrightarrow> isMarker mb bnd p \<and> p + 1 < length mb \<and> p + length bnd + 4 \<le> length mb \<and>
     strnEq id (drop (p + 2 + length bnd) mb) eol = Some False \<and> hyphensAt mb (p + 2 + length bnd)"

lemma hyphens_no_lf: "hyphensAt mb i \<Longrightarrow> mb ! i \<noteq> mpLF"
  by (simp add: hyphensAt_def mpLF_def)

lemma mpScan_opens_None: "opens mb bnd eol p \<Longrightarrow> mpScan mb bnd eol p None = mpScan mb bnd eol (p + 2 + length bnd + length eol + 1) (Some (p + 2 + length bnd))"
  by (subst mpScan.simps) (auto simp: opens_def isMarker_def Let_def)

lemma mpScan_ends_Some: "opens mb bnd eol p \<or> closes mb bnd eol p \<Longrightarrow> mpScan mb bnd eol p (Some s) = Some (Some (Some s, int p))"
  by (subst mpScan.simps) (auto simp: opens_def closes_def isMarker_def Let_def dest: hyphens_no_lf)

lemma mpScan_closes_None: "closes mb bnd eol p \<Longrightarrow> mpScan mb bnd eol p None = Some (Some (None, int p))"
  by (subst mpScan.simps) (auto simp: closes_def isMarker_def Let_def dest: hyphens_no_lf)

lemma GetNext_part:
  assumes "n \<le> p" "\<And>k. n \<le> k \<Longrightarrow> k < p \<Longrightarrow> passes mb bnd k" "opens mb bnd eol p" "opens mb bnd eol q \<or> closes mb bnd eol q"
    and "p + 2 + length bnd + length eol < q" "\<And>k. p + 2 + length bnd + length eol < k \<Longrightarrow> k < q \<Longrightarrow> passes mb bnd k"
  shows "GetNextBodyPartBuffer n mb bnd eol = Some (Some (p + 2 + length bnd, q - (p + 2 + length bnd)))"
proof -
  have "mpScan mb bnd eol n None = mpScan mb bnd eol p None" by (rule mpScan_passes) (use assms in auto)
  also have "\<dots> = mpScan mb bnd eol (p + 2 + length bnd + length eol + 1) (Some (p + 2 + length bnd))"
    by (rule mpScan_opens_None) (rule assms(3))
  also have "\<dots> = mpScan mb bnd eol q (Some (p + 2 + length bnd))" by (rule mpScan_passes) (use assms in auto)
  also have "\<dots> = Some (Some (Some (p + 2 + length bnd), int q))" by (rule mpScan_ends_Some) (rule assms(4))
  finally show ?thesis using assms(5) by (simp add: GetNextBodyPartBuffer_def nat_diff_distrib')
qed

lemma GetNext_end:
  assumes "n \<le> p" "\<And>k. n \<le> k \<Longrightarrow> k < p \<Longrightarrow> passes mb bnd k" "closes mb bnd eol p"
  shows "GetNextBodyPartBuffer n mb bnd eol = Some None"
proof -
  have "mpScan mb bnd eol n None = mpScan mb bnd eol p None" by (rule mpScan_passes) (use assms in auto)
  then show ?thesis using mpScan_closes_None [OF assms(3)] by (simp add: GetNextBodyPartBuffer_def)
qed

subsection \<open>A part that is found twice\<close>

text \<open>The search that finds a part passes all positions before its boundary.\<close>

lemma found_passes:
  "mpScan mb bnd eol i None = Some (Some (Some s, e)) \<Longrightarrow> length eol \<le> 2 \<Longrightarrow>
     \<exists>p. s = p + 2 + length bnd \<and> i \<le> p \<and> (\<forall>k. i \<le> k \<and> k < p \<longrightarrow> passes mb bnd k)"
proof (induction "length mb - i" arbitrary: i rule: less_induct)
  case less
  show ?case
  proof (cases "passes mb bnd i")
    case True
    then have d: "length mb - (i + 1) < length mb - i" unfolding passes_def by linarith
    have "mpScan mb bnd eol (i + 1) None = Some (Some (Some s, e))" using mpScan_pass [OF True] less.prems(1) by simp
    from less.hyps [OF d this less.prems(2)] obtain p where p: "s = p + 2 + length bnd" "i + 1 \<le> p" "\<forall>k. i + 1 \<le> k \<and> k < p \<longrightarrow> passes mb bnd k"
      by blast
    have "passes mb bnd k" if "i \<le> k" "k < p" for k using that p(3) True by (cases "k = i") auto
    then show ?thesis using p by (intro exI [of _ p]) auto
  next
    case False
    have "s = i + 2 + length bnd"
    proof -
      have go: "mpScan mb bnd eol (i + 2 + length bnd + length eol + 1) (Some (i + 2 + length bnd)) = Some (Some (Some s, e)) \<Longrightarrow>
          i + 2 + length bnd + 2 \<le> length mb \<Longrightarrow> s = i + 2 + length bnd"
        using mpScan_started [of mb bnd eol "i + 2 + length bnd + length eol + 1" "i + 2 + length bnd" "Some s" e] less.prems(2) by simp
      show ?thesis using less.prems(1) False go
        by (subst (asm) mpScan.simps) (auto simp: passes_def Let_def split: if_splits option.splits bool.splits)
    qed
    then show ?thesis by (intro exI [of _ i]) auto
  qed
qed

text \<open>
  C34: A part is found a second time when it is so short that the sum of the lengths of the parts has not
  passed its own boundary: the search goes on from that sum, which does not count the boundaries.
\<close>

theorem short_part_is_repeated:
  assumes "GetNextBodyPartBuffer n mb bnd (mpEol lf) = Some (Some (s, l))" and "n + l + 2 + length bnd \<le> s"
  shows "GetNextBodyPartBuffer (n + l) mb bnd (mpEol lf) = Some (Some (s, l))"
proof -
  obtain e where e: "mpScan mb bnd (mpEol lf) n None = Some (Some (Some s, e))" "e \<noteq> - 1" "l = nat (e - int s)" using GetNext_scan [OF assms(1)] by blast
  from found_passes [OF e(1) mpEol_length(1)] obtain p where p: "s = p + 2 + length bnd" "n \<le> p" "\<forall>k. n \<le> k \<and> k < p \<longrightarrow> passes mb bnd k" by blast
  have "mpScan mb bnd (mpEol lf) n None = mpScan mb bnd (mpEol lf) p None" using p by (intro mpScan_passes) auto
  moreover have "mpScan mb bnd (mpEol lf) (n + l) None = mpScan mb bnd (mpEol lf) p None" using p assms(2) by (intro mpScan_passes) auto
  ultimately show ?thesis using assms(1) by (simp add: GetNextBodyPartBuffer_def)
qed

definition shortText :: tdes8 where
  "shortText = lit8 ''12345678--b'' @ [10, 88, 10] @ lit8 ''--b'' @ [10, 89, 10] @ lit8 ''--b--''"

theorem short_part_is_repeated_witness:
  "GetNextBodyPartBuffer 0 shortText (lit8 ''b'') (mpEol True) = Some (Some (11, 3)) \<and>
   GetNextBodyPartBuffer 3 shortText (lit8 ''b'') (mpEol True) = Some (Some (11, 3))"
proof -
  have 1: "GetNextBodyPartBuffer 0 shortText (lit8 ''b'') (mpEol True) = Some (Some (11, 3))" by code_simp
  have 2: "0 + 3 + 2 + length (lit8 ''b'') \<le> 11" by (simp add: lit8_def)
  from short_part_is_repeated [OF 1 2] 1 show ?thesis by simp
qed

subsection \<open>A well-formed text\<close>

definition block :: "tdes8 \<Rightarrow> tdes8 \<Rightarrow> tdes8" where
  "block bnd x = mpHyphens @ bnd @ x"

definition blocks :: "tdes8 \<Rightarrow> tdes8 list \<Rightarrow> tdes8" where
  "blocks bnd xs = concat (map (block bnd) xs)"

text \<open>Parts that begin with the line end of their boundary, something before them, and something after the closing boundary.\<close>

definition mpText :: "tdes8 \<Rightarrow> tdes8 \<Rightarrow> tdes8 list \<Rightarrow> tdes8 \<Rightarrow> tdes8" where
  "mpText bnd pre xs epi = pre @ blocks bnd xs @ block bnd (mpHyphens @ epi)"

definition markerPos :: "tdes8 \<Rightarrow> tdes8 \<Rightarrow> tdes8 list \<Rightarrow> nat \<Rightarrow> nat" where
  "markerPos bnd pre xs j = length (pre @ blocks bnd (take j xs))"

text \<open>No other boundaries before the closing one.\<close>

definition noOtherMarker :: "tdes8 \<Rightarrow> tdes8 \<Rightarrow> tdes8 list \<Rightarrow> tdes8 \<Rightarrow> bool" where
  "noOtherMarker bnd pre xs epi \<longleftrightarrow> (\<forall>k < markerPos bnd pre xs (length xs). isMarker (mpText bnd pre xs epi) bnd k \<longrightarrow>
     (\<exists>j < length xs. k = markerPos bnd pre xs j))"

lemma length_mpHyphens [simp]: "length mpHyphens = 2"
  by (simp add: mpHyphens_def lit8_def)

lemma length_block [simp]: "length (block bnd x) = 2 + length bnd + length x"
  by (simp add: block_def)

lemma strnEq_prefix: "strnEq f (pat @ r) pat = Some True"
  by (induction pat) simp_all

lemma strnEq_long: "length pat \<le> length s \<Longrightarrow> strnEq f s pat \<noteq> None"
  by (induction f s pat rule: strnEq.induct) auto

lemma hyphensAt_append: "hyphensAt (a @ mpHyphens @ r) (length a)"
  by (simp add: hyphensAt_def mpHyphens_def lit8_def nth_append)

lemma marker_append: "isMarker (a @ block bnd r) bnd (length a)"
proof -
  have "drop (length a + 2) (a @ block bnd r) = bnd @ r" by (simp add: block_def mpHyphens_def lit8_def)
  then show ?thesis using hyphensAt_append [of a "bnd @ r"] by (simp add: isMarker_def boundaryAt_def strnEq_prefix) (simp add: block_def)
qed

lemma opens_append:
  assumes "r = mpEol lf @ t" "t \<noteq> []"
  shows "opens (a @ block bnd r) bnd (mpEol lf) (length a)"
proof -
  have "drop (length a + 2 + length bnd) (a @ block bnd r) = mpEol lf @ t" using assms by (simp add: block_def mpHyphens_def lit8_def)
  then have "strnEq id (drop (length a + 2 + length bnd) (a @ block bnd r)) (mpEol lf) = Some True" by (simp only: strnEq_prefix)
  moreover have "2 \<le> length r" using assms by (cases t) (auto simp: mpEol_def)
  moreover have "length a + length bnd + 4 \<le> length (a @ block bnd r)" using calculation(2) by simp
  ultimately show ?thesis using marker_append [of a bnd r] unfolding opens_def by (intro conjI exI [of _ True]) simp_all
qed

lemma closes_append: "closes (a @ block bnd (mpHyphens @ r)) bnd (mpEol lf) (length a)"
proof -
  let ?t = "a @ block bnd (mpHyphens @ r)"
  have d: "drop (length a + 2 + length bnd) ?t = mpHyphens @ r" by (simp add: block_def mpHyphens_def lit8_def)
  then have "strnEq id (drop (length a + 2 + length bnd) ?t) (mpEol lf) = Some False"
    by (simp add: mpHyphens_def lit8_def mpEol_def mpCR_def mpLF_def)
  moreover have "hyphensAt ?t (length a + 2 + length bnd)"
    using hyphensAt_append [of "a @ mpHyphens @ bnd" r] by (simp add: block_def add.commute add.left_commute)
  ultimately show ?thesis using marker_append [of a bnd "mpHyphens @ r"] by (simp add: closes_def)
qed

lemma markerPos_Suc: "j < length xs \<Longrightarrow> markerPos bnd pre xs (Suc j) = markerPos bnd pre xs j + 2 + length bnd + length (xs ! j)"
  by (simp add: markerPos_def blocks_def take_Suc_conv_app_nth)

lemma markerPos_mono: "i \<le> j \<Longrightarrow> markerPos bnd pre xs i \<le> markerPos bnd pre xs j"
proof (induction j)
  case (Suc j)
  have "markerPos bnd pre xs j \<le> markerPos bnd pre xs (Suc j)"
    by (cases "j < length xs") (simp_all add: markerPos_Suc, simp add: markerPos_def)
  then show ?case using Suc by (cases "i = Suc j") auto
qed simp

lemma markerPos_sum: "j \<le> length xs \<Longrightarrow> markerPos bnd pre xs j = length pre + j * (2 + length bnd) + sum_list (map length (take j xs))"
proof (induction j)
  case 0
  then show ?case by (simp add: markerPos_def blocks_def)
next
  case (Suc j)
  then show ?case by (simp add: markerPos_Suc take_Suc_conv_app_nth)
qed

lemma text_split:
  assumes "j < length xs"
  shows "\<exists>r. mpText bnd pre xs epi = (pre @ blocks bnd (take j xs)) @ block bnd (xs ! j @ r)"
proof -
  have "blocks bnd xs = blocks bnd (take j xs @ xs ! j # drop (Suc j) xs)" using id_take_nth_drop [OF assms] by simp
  also have "\<dots> = blocks bnd (take j xs) @ block bnd (xs ! j) @ blocks bnd (drop (Suc j) xs)" by (simp add: blocks_def)
  finally show ?thesis unfolding mpText_def by (simp add: block_def)
qed

lemma text_end: "mpText bnd pre xs epi = (pre @ blocks bnd (take (length xs) xs)) @ block bnd (mpHyphens @ epi)"
  by (simp add: mpText_def)

lemma markerPos_less: "markerPos bnd pre xs (length xs) + length bnd + 4 \<le> length (mpText bnd pre xs epi)"
  by (simp add: markerPos_def mpText_def)

lemma passes_between:
  assumes clean: "noOtherMarker bnd pre xs epi" and k: "k < markerPos bnd pre xs (length xs)" and no: "\<And>j. j < length xs \<Longrightarrow> k \<noteq> markerPos bnd pre xs j"
  shows "passes (mpText bnd pre xs epi) bnd k"
proof -
  let ?t = "mpText bnd pre xs epi"
  have l: "k + 2 + length bnd \<le> length ?t" using k markerPos_less [of bnd pre xs epi] by simp
  have "\<not> isMarker ?t bnd k" using clean k no unfolding noOtherMarker_def by blast
  moreover have "length bnd \<le> length (drop (k + 2) ?t)" unfolding length_drop using l by linarith
  then obtain b where "strnEq cLower (drop (k + 2) ?t) bnd = Some b" using strnEq_long by blast
  ultimately show ?thesis using l by (cases b) (auto simp: passes_def isMarker_def boundaryAt_def)
qed

text \<open>A list of parts each of which begins with the line end and goes on behind it.\<close>

definition partTexts :: "bool \<Rightarrow> tdes8 list \<Rightarrow> bool" where
  "partTexts lf xs \<longleftrightarrow> list_all (\<lambda>x. take (length (mpEol lf)) x = mpEol lf \<and> length (mpEol lf) < length x) xs"

text \<open>Each part is longer than the text before the first boundary and the boundaries before the part.\<close>

definition longParts :: "tdes8 \<Rightarrow> tdes8 \<Rightarrow> tdes8 list \<Rightarrow> bool" where
  "longParts bnd pre xs \<longleftrightarrow> (\<forall>j < length xs. length pre + j * (2 + length bnd) < length (xs ! j))"

lemma partTexts_nth:
  assumes "partTexts lf xs" "j < length xs"
  obtains t where "xs ! j = mpEol lf @ t" "t \<noteq> []"
proof -
  have "take (length (mpEol lf)) (xs ! j) = mpEol lf" "length (mpEol lf) < length (xs ! j)"
    using assms by (simp_all add: partTexts_def list_all_length)
  then show ?thesis using that [of "drop (length (mpEol lf)) (xs ! j)"] append_take_drop_id [of "length (mpEol lf)" "xs ! j"] by simp
qed

lemma opens_at:
  assumes "partTexts lf xs" "j < length xs"
  shows "opens (mpText bnd pre xs epi) bnd (mpEol lf) (markerPos bnd pre xs j)"
proof -
  obtain t where t: "xs ! j = mpEol lf @ t" "t \<noteq> []" using partTexts_nth [OF assms] by blast
  obtain r where "mpText bnd pre xs epi = (pre @ blocks bnd (take j xs)) @ block bnd (xs ! j @ r)" using text_split [OF assms(2)] by blast
  then show ?thesis using opens_append [of "xs ! j @ r" lf "t @ r" "pre @ blocks bnd (take j xs)" bnd] t by (simp add: markerPos_def)
qed

lemma closes_at: "closes (mpText bnd pre xs epi) bnd (mpEol lf) (markerPos bnd pre xs (length xs))"
  using closes_append [of "pre @ blocks bnd xs" bnd epi lf] by (simp add: markerPos_def mpText_def)

text \<open>The sum of the lengths of the parts so far lies between the boundary before and the next one.\<close>

definition searchPos :: "tdes8 list \<Rightarrow> nat \<Rightarrow> nat" where
  "searchPos xs j = sum_list (map length (take j xs))"

lemma searchPos_Suc: "j < length xs \<Longrightarrow> searchPos xs (Suc j) = searchPos xs j + length (xs ! j)"
  by (simp add: searchPos_def take_Suc_conv_app_nth)

lemma passes_to_marker:
  assumes clean: "noOtherMarker bnd pre xs epi" and long: "longParts bnd pre xs" and j: "j \<le> length xs"
    and k: "searchPos xs j \<le> k" "k < markerPos bnd pre xs j"
  shows "passes (mpText bnd pre xs epi) bnd k"
proof (rule passes_between [OF clean])
  show "k < markerPos bnd pre xs (length xs)" using k(2) markerPos_mono [OF j, of bnd pre xs] by simp
  show "k \<noteq> markerPos bnd pre xs i" if i: "i < length xs" for i
  proof (cases "j \<le> i")
    case True
    then show ?thesis using markerPos_mono [OF True, of bnd pre xs] k(2) by simp
  next
    case False
    then have 1: "Suc i \<le> j" by simp
    have m: "markerPos bnd pre xs i = length pre + i * (2 + length bnd) + searchPos xs i"
      using markerPos_sum [of i xs bnd pre] i by (simp add: searchPos_def)
    have "markerPos bnd pre xs i < searchPos xs (Suc i)"
      using m long i searchPos_Suc [OF i] unfolding longParts_def by simp
    also have "searchPos xs (Suc i) \<le> searchPos xs j"
    proof -
      have "take j xs = take (Suc i) xs @ drop (Suc i) (take j xs)" using append_take_drop_id [of "Suc i" "take j xs"] 1 by (simp add: min_def)
      then show ?thesis unfolding searchPos_def by (metis le_add1 map_append sum_list_append)
    qed
    finally show ?thesis using k(1) by simp
  qed
qed

lemma GetNext_nth:
  assumes clean: "noOtherMarker bnd pre xs epi" and long: "longParts bnd pre xs" and pt: "partTexts lf xs" and j: "j < length xs"
  shows "GetNextBodyPartBuffer (searchPos xs j) (mpText bnd pre xs epi) bnd (mpEol lf) =
    Some (Some (markerPos bnd pre xs j + 2 + length bnd, length (xs ! j)))"
proof -
  let ?p = "markerPos bnd pre xs j" and ?q = "markerPos bnd pre xs (Suc j)" and ?t = "mpText bnd pre xs epi"
  have q: "?q = ?p + 2 + length bnd + length (xs ! j)" using markerPos_Suc [OF j] .
  have lt: "length (mpEol lf) < length (xs ! j)" using pt j by (simp add: partTexts_def list_all_length)
  have "GetNextBodyPartBuffer (searchPos xs j) ?t bnd (mpEol lf) = Some (Some (?p + 2 + length bnd, ?q - (?p + 2 + length bnd)))"
  proof (rule GetNext_part)
    show "searchPos xs j \<le> ?p" using markerPos_sum [of j xs bnd pre] j by (simp add: searchPos_def)
    show "passes ?t bnd k" if "searchPos xs j \<le> k" "k < ?p" for k by (rule passes_to_marker [OF clean long]) (use j that in simp_all)
    show "opens ?t bnd (mpEol lf) ?p" by (rule opens_at [OF pt j])
    show "opens ?t bnd (mpEol lf) ?q \<or> closes ?t bnd (mpEol lf) ?q"
      using opens_at [OF pt, of "Suc j"] closes_at [of bnd pre xs epi lf] j by (cases "Suc j < length xs") (auto dest: less_antisym)
    show "?p + 2 + length bnd + length (mpEol lf) < ?q" using q lt by simp
    show "passes ?t bnd k" if k: "?p + 2 + length bnd + length (mpEol lf) < k" "k < ?q" for k
    proof (rule passes_between [OF clean])
      show "k < markerPos bnd pre xs (length xs)" using k(2) markerPos_mono [of "Suc j" "length xs" bnd pre xs] j by simp
      show "k \<noteq> markerPos bnd pre xs i" if "i < length xs" for i
        using markerPos_mono [of i j bnd pre xs] markerPos_mono [of "Suc j" i bnd pre xs] k by (cases "i \<le> j") auto
    qed
  qed
  then show ?thesis using q by simp
qed

lemma GetNext_last:
  assumes clean: "noOtherMarker bnd pre xs epi" and long: "longParts bnd pre xs"
  shows "GetNextBodyPartBuffer (searchPos xs (length xs)) (mpText bnd pre xs epi) bnd (mpEol lf) = Some None"
proof (rule GetNext_end)
  show "searchPos xs (length xs) \<le> markerPos bnd pre xs (length xs)" using markerPos_sum [of "length xs" xs bnd pre] by (simp add: searchPos_def)
  show "closes (mpText bnd pre xs epi) bnd (mpEol lf) (markerPos bnd pre xs (length xs))" by (rule closes_at)
qed (rule passes_to_marker [OF clean long], auto)

text \<open>The line end of the text is the one behind its first boundary.\<close>

lemma eolScan_pass: "passes mb bnd i \<Longrightarrow> eolScan mb bnd i = eolScan mb bnd (i + 1)"
  by (subst eolScan.simps) (auto simp: passes_def)

lemma eolScan_passes: "i \<le> p \<Longrightarrow> (\<And>k. i \<le> k \<Longrightarrow> k < p \<Longrightarrow> passes mb bnd k) \<Longrightarrow> eolScan mb bnd i = eolScan mb bnd p"
proof (induction "p - i" arbitrary: i)
  case (Suc n)
  then have "eolScan mb bnd i = eolScan mb bnd (i + 1)" by (intro eolScan_pass) simp
  then show ?case using Suc by simp
qed simp

lemma eolScan_opens: "opens mb bnd (mpEol lf) p \<Longrightarrow> mb ! (p + 2 + length bnd) = hd (mpEol lf) \<Longrightarrow> eolScan mb bnd p = Some lf"
  by (subst eolScan.simps) (auto simp: opens_def isMarker_def mpEol_def mpCR_def mpLF_def)

lemma SetEol_text:
  assumes clean: "noOtherMarker bnd pre xs epi" and pt: "partTexts lf xs" and ne: "xs \<noteq> []"
  shows "SetEolCharacters (mpText bnd pre xs epi) bnd = Some lf"
proof -
  let ?t = "mpText bnd pre xs epi" and ?p = "markerPos bnd pre xs 0"
  have 0: "0 < length xs" using ne by simp
  have "eolScan ?t bnd 0 = eolScan ?t bnd ?p"
  proof (rule eolScan_passes)
    show "passes ?t bnd k" if "k < ?p" for k
    proof (rule passes_between [OF clean])
      show "k < markerPos bnd pre xs (length xs)" using that markerPos_mono [of 0 "length xs" bnd pre xs] by simp
      show "k \<noteq> markerPos bnd pre xs i" if "i < length xs" for i using markerPos_mono [of 0 i bnd pre xs] \<open>k < ?p\<close> by simp
    qed
  qed simp
  moreover have "?t ! (?p + 2 + length bnd) = hd (mpEol lf)"
  proof -
    obtain t where t: "xs ! 0 = mpEol lf @ t" "t \<noteq> []" using partTexts_nth [OF pt 0] by blast
    obtain r where r: "?t = (pre @ blocks bnd (take 0 xs)) @ block bnd (xs ! 0 @ r)" using text_split [OF 0] by blast
    have "?t = (pre @ mpHyphens @ bnd) @ mpEol lf @ t @ r" using r t(1) by (simp add: blocks_def block_def)
    moreover have "?p + 2 + length bnd = length (pre @ mpHyphens @ bnd)" by (simp add: markerPos_def blocks_def)
    ultimately show ?thesis using mpEol_length [of lf] by (simp add: nth_append hd_conv_nth)
  qed
  ultimately show ?thesis unfolding SetEolCharacters_def using eolScan_opens [OF opens_at [OF pt 0]] by simp
qed

text \<open>The parts that are parsed, each with its result.\<close>

definition partParses :: "mp_env \<Rightarrow> tdes8 \<Rightarrow> tdes8 \<Rightarrow> tdes8 list \<Rightarrow> tdes8 \<Rightarrow> bool \<Rightarrow> tdes16 \<Rightarrow> nat \<Rightarrow> body_part \<Rightarrow> bool" where
  "partParses me bnd pre xs epi lf url j r \<longleftrightarrow> (let s = markerPos bnd pre xs j + 2 + length bnd in
     meAllocPart me s \<and> meAppendPart me s \<and> ParseBodyPartL me s (drop s (mpText bnd pre xs epi)) (length (xs ! j)) lf url = Some (Inr r))"

lemma parseParts_from:
  assumes clean: "noOtherMarker bnd pre xs epi" and long: "longParts bnd pre xs" and pt: "partTexts lf xs"
    and r: "\<And>j. j < length xs \<Longrightarrow> partParses me bnd pre xs epi lf url j (rs ! j)" and l: "length rs = length xs"
  shows "j \<le> length xs \<Longrightarrow> parseParts me (mpText bnd pre xs epi) bnd lf url (- 1) j (searchPos xs j) (take j rs) = Some (KErrNone, rs)"
proof (induction "length xs - j" arbitrary: j)
  case 0
  then have "j = length xs" by simp
  then show ?case using GetNext_last [OF clean long] l by (subst parseParts.simps) simp
next
  case (Suc n)
  then have j: "j < length xs" by simp
  have "parseParts me (mpText bnd pre xs epi) bnd lf url (- 1) (Suc j) (searchPos xs (Suc j)) (take (Suc j) rs) = Some (KErrNone, rs)"
    using Suc by simp
  then show ?case using GetNext_nth [OF clean long pt j] r [OF j] searchPos_Suc [OF j] j l
    by (subst parseParts.simps) (simp add: partParses_def Let_def take_Suc_conv_app_nth)
qed

lemma mpParseL_parts:
  assumes "noOtherMarker bnd pre xs epi" and "longParts bnd pre xs" and "partTexts lf xs" and "xs \<noteq> []"
    and "strnEq cLower ctype (lit8 ''multipart/mixed'') = Some True"
    and "length rs = length xs" and "\<And>j. j < length xs \<Longrightarrow> partParses me bnd pre xs epi lf url j (rs ! j)"
  shows "mpParseL me (mpText bnd pre xs epi) ctype bnd url (- 1) = Some (KErrNone, rs)"
proof -
  have "parseParts me (mpText bnd pre xs epi) bnd lf url (- 1) 0 0 [] = Some (KErrNone, rs)"
    using parseParts_from [OF assms(1-3,7,6), of 0] by (simp add: searchPos_def)
  moreover have "mpText bnd pre xs epi \<noteq> []" by (simp add: mpText_def block_def mpHyphens_def lit8_def)
  ultimately show ?thesis using SetEol_text [OF assms(1,3,4)] assms(5) by (simp add: mpParseL_def)
qed

text \<open>
  C13: A text whose parts are each longer than what lies before them in boundaries, and that has no boundary
  inside a part, is parsed into its parts, all of them and in their order, whatever its line end.
\<close>

theorem parts_in_order:
  assumes "noOtherMarker bnd pre xs epi" and "longParts bnd pre xs" and "partTexts lf xs" and "xs \<noteq> []"
    and "strnEq cLower ctype (lit8 ''multipart/mixed'') = Some True"
    and "length rs = length xs" and "\<And>j. j < length xs \<Longrightarrow> partParses me bnd pre xs epi lf url j (rs ! j)"
  shows "mpParseL me (mpText bnd pre xs epi) ctype bnd url (- 1) = Some (KErrNone, rs)"
  by (rule mpParseL_parts [OF assms])

definition plainEnv :: mp_env where
  "plainEnv = \<lparr>meBase64 = id, meQuotedPrintable = id, meGunzip = (\<lambda>_. GzFailed), meUri8 = (\<lambda>_. Inl KErrGeneral), meUri16 = (\<lambda>_. Inl KErrGeneral),
     meAllocPart = (\<lambda>_. True), meAllocBuffer = (\<lambda>_. []), meAllocUrl = (\<lambda>_. []), meAppendPart = (\<lambda>_. True)\<rparr>"

definition twoParts :: "tdes8 list" where
  "twoParts = [[10, 10, 72, 105], [10, 65, 58, 66, 10, 10, 72, 111]]"

definition twoResults :: "body_part list" where
  "twoResults = [newBodyPart\<lparr>bpBody := Some (lit8 ''Hi''), bpUrl := Some (lit16 ''u'')\<rparr>,
     newBodyPart\<lparr>bpBody := Some (lit8 ''Ho''), bpHeaders := Some (lit8 ''A:B''), bpUrl := Some (lit16 ''u'')\<rparr>]"

lemma twoParts_text: "mpText (lit8 ''b'') [] twoParts [] = [45, 45, 98, 10, 10, 72, 105, 45, 45, 98, 10, 65, 58, 66, 10, 10, 72, 111, 45, 45, 98, 45, 45]"
  by code_simp

lemma twoParts_clean: "noOtherMarker (lit8 ''b'') [] twoParts []"
proof -
  have m: "markerPos (lit8 ''b'') [] twoParts 0 = 0" "markerPos (lit8 ''b'') [] twoParts 1 = 7" "markerPos (lit8 ''b'') [] twoParts 2 = 18" "length twoParts = 2"
    by code_simp+
  have "k = 0 \<or> k = 7" if "k < 18" "hyphensAt (mpText (lit8 ''b'') [] twoParts []) k" for k
  proof -
    have "list_all (\<lambda>k. hyphensAt (mpText (lit8 ''b'') [] twoParts []) k \<longrightarrow> k = 0 \<or> k = 7) [0..<18]"
      unfolding twoParts_text by (simp add: hyphensAt_def upt_rec)
    then show ?thesis using that by (simp add: list_all_iff)
  qed
  then show ?thesis unfolding noOtherMarker_def isMarker_def m using m by (metis One_nat_def less_2_cases_iff)
qed

theorem parts_in_order_witness:
  "mpParseL plainEnv (mpText (lit8 ''b'') [] twoParts []) (lit8 ''Multipart/Mixed'') (lit8 ''b'') (lit16 ''u'') (- 1) = Some (KErrNone, twoResults)"
proof (rule parts_in_order)
  show "noOtherMarker (lit8 ''b'') [] twoParts []" by (rule twoParts_clean)
  show "longParts (lit8 ''b'') [] twoParts" by code_simp
  show "partTexts True twoParts" by code_simp
  show "twoParts \<noteq> []" by (simp add: twoParts_def)
  show "strnEq cLower (lit8 ''Multipart/Mixed'') (lit8 ''multipart/mixed'') = Some True" by code_simp
  show "length twoResults = length twoParts" by (simp add: twoResults_def twoParts_def)
  have "partParses plainEnv (lit8 ''b'') [] twoParts [] True (lit16 ''u'') 0 (twoResults ! 0)" by code_simp
  moreover have "partParses plainEnv (lit8 ''b'') [] twoParts [] True (lit16 ''u'') 1 (twoResults ! 1)" by code_simp
  ultimately show "partParses plainEnv (lit8 ''b'') [] twoParts [] True (lit16 ''u'') j (twoResults ! j)" if "j < length twoParts" for j
    using that by (auto simp: twoParts_def less_Suc_eq)
qed

end
