(* ===== verification/PartSpec.thy ===== *)
theory PartSpec
  imports MultipartSpec
begin

text \<open>
  How a part is divided: the headers end at its first empty line, whatever they are, and the rest is its body.
\<close>

subsection \<open>Comparing up to a line end\<close>

lemma strnEq_append: "strnEq f s pat = Some b \<Longrightarrow> strnEq f (s @ r) pat = Some b"
  by (induction f s pat rule: strnEq.induct) (auto split: if_splits)

text \<open>A comparison does not go beyond a character that the pattern does not have.\<close>

lemma strnEq_stop: "\<forall>x \<in> set pat. f x \<noteq> f c \<Longrightarrow> strnEq f (a @ c # b) pat \<noteq> None"
proof (induction a arbitrary: pat)
  case Nil
  then show ?case by (cases pat) auto
next
  case (Cons x a)
  then show ?case by (cases pat) auto
qed

lemma strnEq_within: "\<forall>x \<in> set pat. f x \<noteq> f c \<Longrightarrow> 0 \<notin> set pat \<Longrightarrow> strnEq f (a @ c # b) pat = Some True \<Longrightarrow> length pat \<le> length a"
proof (induction a arbitrary: pat)
  case Nil
  then show ?case by (cases pat) auto
next
  case (Cons x a)
  then show ?case by (cases pat) (auto split: if_splits)
qed

lemma names_plain: "\<forall>n \<in> set mpHeaderNames. fst n \<noteq> [] \<and> 0 \<notin> set (fst n) \<and> (\<forall>x \<in> set (fst n). cLower x \<noteq> cLower 10 \<and> cLower x \<noteq> cLower 13)"
  by (simp add: mpHeaderNames_def lit8_def cLower_def)

lemma findHeader_stop:
  assumes "\<forall>n \<in> set hs. 0 \<notin> set (fst n) \<and> (\<forall>x \<in> set (fst n). cLower x \<noteq> cLower c)"
  shows "\<exists>r. findHeader (a @ c # b) hs = Some r \<and> (\<forall>h. r = Some h \<longrightarrow> fst h \<le> length a)"
  using assms
proof (induction hs)
  case Nil
  then show ?case by simp
next
  case (Cons nh hs)
  obtain n h where nh: "nh = (n, h)" by (cases nh)
  have ok: "\<forall>x \<in> set n. cLower x \<noteq> cLower c" "0 \<notin> set n" using Cons.prems nh by auto
  obtain e where e: "strnEq cLower (a @ c # b) n = Some e" using strnEq_stop [OF ok(1), of a b] by blast
  show ?case
  proof (cases e)
    case True
    then show ?thesis using e nh strnEq_within [OF ok, of a b] by simp
  next
    case False
    then show ?thesis using e nh Cons by simp
  qed
qed

text \<open>The end of a line is found at the latest where one is known.\<close>

lemma lineEnd_upto:
  assumes "strnEq id (drop p buf) eol = Some True" "p + length eol \<le> l" "l \<le> length buf" "eol \<noteq> []"
  shows "j \<le> p \<Longrightarrow> \<exists>k. lineEnd buf l eol j = Some (Some k) \<and> j \<le> k \<and> k \<le> p"
proof (induction "p - j" arbitrary: j)
  case 0
  then have "j = p" by simp
  then show ?case using assms by (subst lineEnd.simps) simp
next
  case (Suc n)
  have lj: "length eol \<le> length (drop j buf)" unfolding length_drop using Suc assms by linarith
  obtain e where e: "strnEq id (drop j buf) eol = Some e" using strnEq_long [OF lj] by blast
  have "n = p - (j + 1)" "j + 1 \<le> p" using Suc.hyps(2) by linarith+
  then obtain k where "lineEnd buf l eol (j + 1) = Some (Some k)" "j + 1 \<le> k" "k \<le> p" using Suc.hyps(1) by blast
  then show ?case using e Suc assms by (subst lineEnd.simps) auto
qed

subsection \<open>A part with headers\<close>

text \<open>A part: the line end of its boundary, the headers, an empty line, the body; and what follows the part.\<close>

definition partText :: "bool \<Rightarrow> tdes8 \<Rightarrow> tdes8 \<Rightarrow> tdes8" where
  "partText lf H B = mpEol lf @ H @ mpDoubleEol lf @ B"

definition emptyLineAt :: "bool \<Rightarrow> tdes8 \<Rightarrow> nat \<Rightarrow> bool" where
  "emptyLineAt lf buf i \<longleftrightarrow> strnEq id (drop i buf) (mpDoubleEol lf) = Some True \<or> strnEq id (drop i buf) (mpDoubleEol True) = Some True"

text \<open>No empty line before the one that ends the headers.\<close>

definition oneBlock :: "bool \<Rightarrow> tdes8 \<Rightarrow> bool" where
  "oneBlock lf H \<longleftrightarrow> (\<forall>i < length (mpEol lf @ H). \<not> emptyLineAt lf (mpEol lf @ H @ mpDoubleEol lf) i)"

lemma length_double: "length (mpDoubleEol lf) = 2 * length (mpEol lf)"
  by (simp add: mpDoubleEol_def)

lemma no_empty_line:
  assumes "oneBlock lf H" "i < length (mpEol lf @ H)"
  shows "strnEq id (drop i (partText lf H B @ r)) (mpDoubleEol lf) = Some False"
    and "strnEq id (drop i (partText lf H B @ r)) (mpDoubleEol True) = Some False"
proof -
  let ?h = "mpEol lf @ H @ mpDoubleEol lf"
  have d: "drop i (partText lf H B @ r) = drop i ?h @ B @ r" using assms(2) by (simp add: partText_def)
  have no: "\<not> emptyLineAt lf ?h i" using assms by (simp add: oneBlock_def)
  have l: "length (mpDoubleEol lf) \<le> length (drop i ?h)" "length (mpDoubleEol True) \<le> length (drop i ?h)"
    using assms(2) by (auto simp: mpDoubleEol_def mpEol_def)
  have "strnEq id (drop i ?h) (mpDoubleEol lf) = Some False" "strnEq id (drop i ?h) (mpDoubleEol True) = Some False"
    using strnEq_long [OF l(1), of id] strnEq_long [OF l(2), of id] no by (auto simp: emptyLineAt_def)
  then show "strnEq id (drop i (partText lf H B @ r)) (mpDoubleEol lf) = Some False"
    and "strnEq id (drop i (partText lf H B @ r)) (mpDoubleEol True) = Some False"
    unfolding d by (simp_all only: strnEq_append)
qed

text \<open>Up to the empty line the text ends with a line end character.\<close>

lemma eol_at:
  obtains c b where "drop (length (mpEol lf @ H)) (partText lf H B @ r) = c # b" "c = 10 \<or> c = 13"
    "partText lf H B @ r = (mpEol lf @ H) @ c # b"
  by (cases lf) (auto simp: partText_def mpDoubleEol_def mpEol_def mpCR_def mpLF_def)

lemma partText_findHeader:
  assumes "i \<le> length (mpEol lf @ H)"
  shows "\<exists>x. findHeader (drop i (partText lf H B @ r)) mpHeaderNames = Some x \<and> (\<forall>h. x = Some h \<longrightarrow> i + fst h \<le> length (mpEol lf @ H) \<and> 0 < fst h)"
proof -
  obtain c b where c: "c = 10 \<or> c = 13" "partText lf H B @ r = (mpEol lf @ H) @ c # b" by (rule eol_at)
  then have d: "drop i (partText lf H B @ r) = drop i (mpEol lf @ H) @ c # b" using assms by simp
  have "\<forall>n \<in> set mpHeaderNames. 0 \<notin> set (fst n) \<and> (\<forall>x \<in> set (fst n). cLower x \<noteq> cLower c)" using names_plain c(1) by auto
  from findHeader_stop [OF this, of "drop i (mpEol lf @ H)" b] obtain x where
    x: "findHeader (drop i (partText lf H B @ r)) mpHeaderNames = Some x" "\<forall>h. x = Some h \<longrightarrow> fst h \<le> length (drop i (mpEol lf @ H))" using d by auto
  then have "\<forall>h. x = Some h \<longrightarrow> i + fst h \<le> length (mpEol lf @ H) \<and> 0 < fst h" using assms findHeader_names by fastforce
  then show ?thesis using x by blast
qed

lemma takeBody_at:
  assumes "l = length (partText lf H B)"
  shows "takeBody (partText lf H B @ r) l lf (length (mpEol lf @ H)) (length (mpEol lf @ H)) (length (mpDoubleEol lf)) p =
    Some (p\<lparr>bpBody := Some B, bpHeaders := Some H\<rparr>)"
  using assms mpEol_length(2) [of lf] by (simp add: takeBody_def partText_def length_double Let_def)

lemma partLoop_end:
  assumes "l = length (partText lf H B)"
  shows "partLoop (partText lf H B @ r) l lf (length (mpEol lf @ H)) v p = Some (p\<lparr>bpBody := Some B, bpHeaders := Some H\<rparr>)"
proof -
  let ?P = "length (mpEol lf @ H)" and ?t = "partText lf H B @ r"
  obtain x where x: "findHeader (drop ?P ?t) mpHeaderNames = Some x" "\<forall>h. x = Some h \<longrightarrow> ?P + fst h \<le> ?P \<and> 0 < fst h"
    using partText_findHeader [OF le_refl] by blast
  have "x = None" using x(2) by (cases x) auto
  then have "findHeader (drop ?P ?t) mpHeaderNames = Some None" using x(1) by (simp only:)
  moreover have "drop ?P ?t = mpDoubleEol lf @ B @ r" by (simp add: partText_def)
  then have "strnEq id (drop ?P ?t) (mpDoubleEol lf) = Some True" by (simp only: strnEq_prefix)
  moreover have "\<not> l \<le> ?P" using assms mpEol_length(2) [of lf] by (simp add: partText_def length_double)
  ultimately show ?thesis by (subst partLoop.simps) (simp add: takeBody_at [OF assms, unfolded length_append])
qed

lemma takeWhile_stop: "\<not> Q c \<Longrightarrow> length (takeWhile Q (a @ c # b)) \<le> length a"
  by (induction a) auto

lemma headerStep_within:
  assumes h: "i + fst h \<le> length (mpEol lf @ H)" "0 < fst h" and q: "60 \<notin> set H" and l: "l = length (partText lf H B)"
  shows "\<exists>j v'. headerStep (partText lf H B @ r) l (mpEol lf) i h v = Some (j - 1, v') \<and> i < j \<and> j \<le> length (mpEol lf @ H)"
proof -
  let ?P = "length (mpEol lf @ H)" and ?t = "partText lf H B @ r"
  obtain c b where c: "c = 10 \<or> c = 13" "?t = (mpEol lf @ H) @ c # b" by (rule eol_at)
  define s where "s = i + fst h + length (takeWhile (\<lambda>c. c = 32) (drop (i + fst h) ?t))"
  have "drop (i + fst h) ?t = drop (i + fst h) (mpEol lf @ H) @ c # b" using c h by simp
  then have "length (takeWhile (\<lambda>c. c = 32) (drop (i + fst h) ?t)) \<le> length (drop (i + fst h) (mpEol lf @ H))"
    using takeWhile_stop [of "\<lambda>c. c = 32" c "drop (i + fst h) (mpEol lf @ H)" b] c(1) by auto
  then have s: "i < s" "s \<le> ?P" using h unfolding s_def length_drop by linarith+
  have "drop ?P ?t = mpEol lf @ mpEol lf @ B @ r" by (simp add: partText_def mpDoubleEol_def)
  then have e: "strnEq id (drop ?P ?t) (mpEol lf) = Some True" by (simp only: strnEq_prefix)
  have pl: "?P + length (mpEol lf) \<le> l" "l \<le> length ?t" using l by (simp_all add: partText_def length_double)
  obtain j where j: "lineEnd ?t l (mpEol lf) s = Some (Some j)" "s \<le> j" "j \<le> ?P"
    using lineEnd_upto [OF e pl mpEol_length(2) s(2)] by blast
  have "?t ! s \<in> set (mpEol lf @ H @ [c])" using s(2) c(2) by (cases "s = ?P") (auto simp: nth_append)
  then have "?t ! s \<noteq> 60" using q c(1) by (auto simp: mpEol_def mpCR_def mpLF_def split: if_splits)
  moreover have "s < length ?t" using s(2) c(2) by simp
  ultimately show ?thesis using j s unfolding headerStep_def s_def [symmetric] Let_def
    by (cases "snd h = MpContentID") (auto intro: exI [of _ j])
qed

lemma setHeader_keeps [simp]: "bpBody (setHeader h v p) = bpBody p" "bpHeaders (setHeader h v p) = bpHeaders p"
  by (cases h; simp)+

text \<open>
  Whatever headers a part has, if none of them holds a bracket, its headers are all that lies before
  its first empty line, and its body all that lies behind it.
\<close>

theorem part_is_divided:
  assumes "oneBlock lf H" and "60 \<notin> set H" and "i \<le> length (mpEol lf @ H)"
  shows "\<exists>q. partLoop (partText lf H B @ r) (length (partText lf H B)) lf i v p = Some q \<and> bpBody q = Some B \<and> bpHeaders q = Some H"
  using assms(3)
proof (induction "length (mpEol lf @ H) - i" arbitrary: i v p rule: less_induct)
  case less
  let ?P = "length (mpEol lf @ H)" and ?t = "partText lf H B @ r" and ?l = "length (partText lf H B)"
  show ?case
  proof (cases "i = ?P")
    case True
    then show ?thesis using partLoop_end [of ?l lf H B r v p] by simp
  next
    case False
    then have i: "i < ?P" using less.prems by simp
    have il: "\<not> ?l \<le> i" using i by (simp add: partText_def)
    obtain x where x: "findHeader (drop i ?t) mpHeaderNames = Some x" "\<forall>h. x = Some h \<longrightarrow> i + fst h \<le> ?P \<and> 0 < fst h"
      using partText_findHeader [OF less.prems] by blast
    note no = no_empty_line [OF assms(1) i, of B r]
    have IH: "\<exists>q. partLoop ?t ?l lf j v p = Some q \<and> bpBody q = Some B \<and> bpHeaders q = Some H" if "i < j" "j \<le> ?P" for j v p
      using less.hyps [of j] that by simp
    show ?thesis
    proof (cases x)
      case None
      then show ?thesis using x(1) no il IH [of "i + 1"] i by (subst partLoop.simps) simp
    next
      case (Some h)
      then obtain j v' where j: "headerStep ?t ?l (mpEol lf) i h v = Some (j - 1, v')" "i < j" "j \<le> ?P"
        using headerStep_within [of i h lf H ?l B r v] x(2) assms(2) Some by auto
      then show ?thesis using Some x(1) no il IH [of j] by (subst partLoop.simps) simp
    qed
  qed
qed

subsection \<open>A part without headers that the parser knows\<close>

definition plainHeaders :: "bool \<Rightarrow> tdes8 \<Rightarrow> bool" where
  "plainHeaders lf H \<longleftrightarrow> (\<forall>i < length (mpEol lf @ H). findHeader (drop i (mpEol lf @ H) @ mpDoubleEol lf) mpHeaderNames = Some None)"

text \<open>All the names that the parser knows begin with the same letter.\<close>

lemma findHeader_other: "\<forall>n \<in> set hs. \<exists>t. fst n = 67 # t \<Longrightarrow> cLower x \<noteq> 99 \<Longrightarrow> findHeader (x # s) hs = Some None"
  by (induction "x # s" hs rule: findHeader.induct) (auto simp: cLower_def)

lemma plainHeaders_other:
  assumes "list_all (\<lambda>x. cLower x \<noteq> 99) H"
  shows "plainHeaders lf H"
proof -
  have names: "\<forall>n \<in> set mpHeaderNames. \<exists>t. fst n = 67 # t" by (simp add: mpHeaderNames_def lit8_def)
  have "findHeader (drop i (mpEol lf @ H) @ mpDoubleEol lf) mpHeaderNames = Some None" if i: "i < length (mpEol lf @ H)" for i
  proof -
    have "drop i (mpEol lf @ H) = ((mpEol lf @ H) ! i) # drop (Suc i) (mpEol lf @ H)" using Cons_nth_drop_Suc [OF i] by simp
    moreover have "cLower ((mpEol lf @ H) ! i) \<noteq> 99"
    proof -
      have "(mpEol lf @ H) ! i \<in> set (mpEol lf @ H)" using i by (rule nth_mem)
      then show ?thesis using assms by (auto simp: list_all_iff mpEol_def mpCR_def mpLF_def cLower_def split: if_splits)
    qed
    ultimately show ?thesis using findHeader_other [OF names] by simp
  qed
  then show ?thesis by (simp add: plainHeaders_def)
qed

lemma findHeader_append: "findHeader s hs = Some r \<Longrightarrow> findHeader (s @ t) hs = Some r"
  by (induction s hs rule: findHeader.induct) (auto simp: strnEq_append split: option.splits bool.splits)

lemma partLoop_plain:
  assumes one: "oneBlock lf H" and plain: "plainHeaders lf H"
  shows "i \<le> length (mpEol lf @ H) \<Longrightarrow>
    partLoop (partText lf H B @ r) (length (partText lf H B)) lf i v p = Some (p\<lparr>bpBody := Some B, bpHeaders := Some H\<rparr>)"
proof (induction "length (mpEol lf @ H) - i" arbitrary: i)
  case 0
  then have "i = length (mpEol lf @ H)" by simp
  then show ?case using partLoop_end [OF refl, of lf H B r v p] by simp
next
  case (Suc n)
  let ?t = "partText lf H B @ r"
  have i: "i < length (mpEol lf @ H)" using Suc.hyps(2) by simp
  have "drop i ?t = (drop i (mpEol lf @ H) @ mpDoubleEol lf) @ B @ r" using i by (simp add: partText_def)
  moreover have "findHeader (drop i (mpEol lf @ H) @ mpDoubleEol lf) mpHeaderNames = Some None" using plain i unfolding plainHeaders_def by blast
  ultimately have "findHeader (drop i ?t) mpHeaderNames = Some None" using findHeader_append by metis
  moreover have "\<not> length (partText lf H B) \<le> i" using i by (simp add: partText_def)
  moreover have "partLoop ?t (length (partText lf H B)) lf (i + 1) v p = Some (p\<lparr>bpBody := Some B, bpHeaders := Some H\<rparr>)"
    using Suc.hyps(1) [of "i + 1"] Suc.hyps(2) i by simp
  ultimately show ?case using no_empty_line [OF one i, of B r] by (subst partLoop.simps) simp
qed

text \<open>A part without any headers.\<close>

lemma partLoop_bare:
  "partLoop (mpDoubleEol lf @ B @ r) (length (mpDoubleEol lf @ B)) lf 0 v p = Some (p\<lparr>bpBody := Some B\<rparr>)"
proof -
  let ?t = "mpDoubleEol lf @ B @ r"
  obtain c b where c: "?t = [] @ c # b" "c = 10 \<or> c = 13" by (cases lf) (auto simp: mpDoubleEol_def mpEol_def mpCR_def mpLF_def)
  have "\<forall>n \<in> set mpHeaderNames. 0 \<notin> set (fst n) \<and> (\<forall>x \<in> set (fst n). cLower x \<noteq> cLower c)" using names_plain c(2) by auto
  from findHeader_stop [OF this, of "[]" b] c(1) obtain x where x: "findHeader ?t mpHeaderNames = Some x" "\<forall>h. x = Some h \<longrightarrow> fst h \<le> 0" by auto
  then have "x = None" using findHeader_names [of ?t] by (cases x) auto
  moreover have "strnEq id ?t (mpDoubleEol lf) = Some True" by (simp only: strnEq_prefix)
  moreover have "0 < length (mpDoubleEol lf)" using mpEol_length(2) [of lf] by (simp add: length_double)
  ultimately show ?thesis using x(1) by (subst partLoop.simps) (simp add: takeBody_def Let_def)
qed

text \<open>What such a part is parsed to.\<close>

lemma ParseBodyPartL_plain:
  assumes "partLoop buf l lf 0 None newBodyPart = Some (newBodyPart\<lparr>bpBody := B, bpHeaders := H\<rparr>)" and "alloc_ok (meAllocUrl me off)"
  shows "ParseBodyPartL me off buf l lf url = Some (Inr (newBodyPart\<lparr>bpBody := B, bpHeaders := H, bpUrl := Some url\<rparr>))"
  using assms by (simp add: ParseBodyPartL_def decodePart_def unzipPart_def IsEncoded_def IsZipped_def GetBodyPartUrlL_def newBodyPart_def)

theorem part_is_divided_witness:
  "\<exists>q. partLoop (partText True (lit8 ''Content-Type: x'') (lit8 ''Hi'') @ lit8 ''--b'') (length (partText True (lit8 ''Content-Type: x'') (lit8 ''Hi''))) True 0 None newBodyPart = Some q \<and>
     bpBody q = Some (lit8 ''Hi'') \<and> bpHeaders q = Some (lit8 ''Content-Type: x'')"
proof (rule part_is_divided)
  show "oneBlock True (lit8 ''Content-Type: x'')" by code_simp
  show "60 \<notin> set (lit8 ''Content-Type: x'')" by code_simp
qed simp

end
