(* ===== verification/ComposeSpec.thy ===== *)
theory ComposeSpec
  imports MultipartCompose PartSpec
begin

text \<open>
  What the composer writes: a well-formed multipart text with a header block before it, whose size is the
  one that was counted; and that the parser reads it back.
\<close>

definition trimEnd :: "tdes8 \<Rightarrow> tdes8" where
  "trimEnd h = rev (dropWhile isEolChar (rev h))"

definition isPart :: "body_part \<Rightarrow> bool" where
  "isPart p \<longleftrightarrow> length (headersOf p) + length (bodyOf p) \<noteq> 0"

text \<open>No headers, or headers of at least two characters that are not line ends.\<close>

definition goodHeaders :: "body_part \<Rightarrow> bool" where
  "goodHeaders p \<longleftrightarrow> headersOf p = [] \<or> 2 \<le> length (trimEnd (headersOf p))"

definition sentBody :: "body_part \<Rightarrow> tdes8" where
  "sentBody p = bodyOf p @ (if needsEol (bodyOf p) then mpCRLF else [])"

definition sentPart :: "body_part \<Rightarrow> tdes8" where
  "sentPart p = mpCRLF @ (if headersOf p = [] then mpCRLF else trimEnd (headersOf p) @ mpDoubleCRLF) @ sentBody p"

definition topHeaders :: "32 word \<Rightarrow> tdes8 \<Rightarrow> nat \<Rightarrow> tdes8 \<Rightarrow> tdes8" where
  "topHeaders m bnd n d = (if bit m 0 then KContentType bnd else []) @ (if bit m 1 then KContentLength (int n) else []) @
     (if bit m 2 then KLastModified d else [])"

lemma length_CRLF [simp]: "length mpCRLF = 2" "length mpDoubleCRLF = 4" "mpCRLF \<noteq> []" "mpDoubleCRLF \<noteq> []"
  by (simp_all add: mpCRLF_def mpDoubleCRLF_def)

lemma trimEnd_split: "h = trimEnd h @ rev (takeWhile isEolChar (rev h))"
  by (metis rev_append rev_rev_ident takeWhile_dropWhile_id trimEnd_def)

lemma trimEnd_length: "length h = length (trimEnd h) + length (takeWhile isEolChar (rev h))"
  using arg_cong [OF trimEnd_split [of h], of length] by simp

lemma eolTail_trim: "trimEnd h \<noteq> [] \<Longrightarrow> eolTail h = Some (length h - length (trimEnd h))"
  using trimEnd_length [of h] by (simp add: eolTail_def Let_def)

lemma headerLength_trim:
  assumes "trimEnd h \<noteq> []"
  shows "headerLength h + 1 = int (length (trimEnd h))"
proof -
  obtain x t where h: "h = x # t" using assms by (cases h) (auto simp: trimEnd_def)
  have "takeWhile isEolChar (rev h) = takeWhile isEolChar (rev t)"
  proof (cases "\<exists>c \<in> set t. \<not> isEolChar c")
    case True
    then show ?thesis by (auto simp: h takeWhile_append)
  next
    case False
    then have all: "\<forall>c \<in> set (rev t). isEolChar c" by simp
    have "\<not> isEolChar x" using assms False by (auto simp: trimEnd_def h)
    then show ?thesis using all unfolding h rev.simps by (subst takeWhile_append2) (auto simp: takeWhile_eq_all_conv [THEN iffD2])
  qed
  then show ?thesis using trimEnd_length [of h] h by (simp add: headerLength_def)
qed

lemma take_trim: "take (length (trimEnd h)) h = trimEnd h"
  by (subst (2) trimEnd_split) simp

subsection \<open>The size that is counted\<close>

definition sentParts :: "body_part list \<Rightarrow> tdes8 list" where
  "sentParts ps = map sentPart (filter isPart ps)"

lemma sentBody_size: "int (length (sentBody p)) = bodySizeOf (bodyOf p)"
  by (simp add: sentBody_def bodySizeOf_def)

lemma headerSize_good:
  assumes "goodHeaders p"
  shows "headerSize (headersOf p) = Some (if headersOf p = [] then 0 else int (length (trimEnd (headersOf p))) + 2)"
proof (cases "headersOf p = []")
  case False
  then have "trimEnd (headersOf p) \<noteq> []" using assms by (auto simp: goodHeaders_def)
  then show ?thesis using False eolTail_trim trimEnd_length [of "headersOf p"] by (simp add: headerSize_def)
qed (simp add: headerSize_def)

lemma partSizes_good:
  "\<forall>p \<in> set ps. goodHeaders p \<Longrightarrow> partSizes (length bnd + 4) ps n =
     Some (n - int ((length bnd + 6) * length ps) + int (length (blocks bnd (sentParts ps))))"
proof (induction ps arbitrary: n)
  case Nil
  then show ?case by (simp add: sentParts_def blocks_def)
next
  case (Cons p ps)
  have g: "goodHeaders p" using Cons.prems by simp
  show ?case
  proof (cases "isPart p")
    case True
    have "int (length (block bnd (sentPart p))) = int (length bnd + 6) + (if headersOf p = [] then 0 else int (length (trimEnd (headersOf p))) + 2) + bodySizeOf (bodyOf p)"
      using sentBody_size [of p] by (simp add: sentPart_def)
    moreover have "\<not> length (headersOf p) + length (bodyOf p) = 0" using True by (simp add: isPart_def)
    moreover have "blocks bnd (sentParts (p # ps)) = block bnd (sentPart p) @ blocks bnd (sentParts ps)" using True by (simp add: sentParts_def blocks_def)
    ultimately show ?thesis using Cons headerSize_good [OF g] by (simp only: partSizes.simps if_False option.case length_append) (simp add: algebra_simps)
  next
    case False
    then show ?thesis using Cons by (simp add: isPart_def sentParts_def algebra_simps)
  qed
qed

lemma bodySizeL_good:
  assumes "\<forall>p \<in> set ps. goodHeaders p"
  shows "bodySizeL (length (mpHyphens @ bnd @ mpCRLF)) ps = Some (int (length (mpText bnd [] (sentParts ps) [])))"
proof -
  have l: "length (mpHyphens @ bnd @ mpCRLF) = length bnd + 4" by simp
  show ?thesis unfolding bodySizeL_def l using partSizes_good [OF assms, of bnd] by (simp add: mpText_def algebra_simps)
qed

subsection \<open>The document that is written\<close>

lemma docAppend_ok: "int (length (doc @ x)) \<le> n \<Longrightarrow> docAppend n x doc = Some (doc @ x)"
  by (simp add: docAppend_def)

lemma appendPart_good:
  assumes "goodHeaders p" "isPart p" "int (length (doc @ block bnd (sentPart p))) \<le> n"
  shows "appendPart n (mpHyphens @ bnd @ mpCRLF) p doc = Some (doc @ block bnd (sentPart p))"
proof -
  let ?h = "headersOf p"
  have h: "take (nat (headerLength ?h + 1)) ?h = trimEnd ?h"
    "(if headerLength ?h > 0 then mpDoubleCRLF else mpCRLF) = (if ?h = [] then mpCRLF else mpDoubleCRLF)"
  proof -
    have "?h = [] \<or> nat (headerLength ?h + 1) = length (trimEnd ?h) \<and> headerLength ?h > 0"
      using assms(1) headerLength_trim [of ?h] unfolding goodHeaders_def by fastforce
    then show "take (nat (headerLength ?h + 1)) ?h = trimEnd ?h" "(if headerLength ?h > 0 then mpDoubleCRLF else mpCRLF) = (if ?h = [] then mpCRLF else mpDoubleCRLF)"
      using take_trim [of ?h] by (auto simp: headerLength_def trimEnd_def)
  qed
  have t: "?h = [] \<Longrightarrow> trimEnd ?h = []" by (simp add: trimEnd_def)
  show ?thesis
    using assms(2,3) t unfolding appendPart_def h isPart_def
    by (cases "?h = []"; cases "needsEol (bodyOf p)") (simp_all add: docAppend_def block_def sentPart_def sentBody_def)
qed

lemma appendParts_good:
  "\<forall>p \<in> set ps. goodHeaders p \<Longrightarrow> int (length (doc @ blocks bnd (sentParts ps))) \<le> n \<Longrightarrow>
     appendParts n (mpHyphens @ bnd @ mpCRLF) ps doc = Some (doc @ blocks bnd (sentParts ps))"
proof (induction ps arbitrary: doc)
  case Nil
  then show ?case by (simp add: sentParts_def blocks_def)
next
  case (Cons p ps)
  show ?case
  proof (cases "isPart p")
    case True
    then have s: "blocks bnd (sentParts (p # ps)) = block bnd (sentPart p) @ blocks bnd (sentParts ps)" by (simp add: sentParts_def blocks_def)
    have "appendPart n (mpHyphens @ bnd @ mpCRLF) p doc = Some (doc @ block bnd (sentPart p))"
      using Cons.prems True s by (intro appendPart_good) auto
    then show ?thesis using Cons.IH [of "doc @ block bnd (sentPart p)"] Cons.prems s by simp
  next
    case False
    then have "appendPart n (mpHyphens @ bnd @ mpCRLF) p doc = Some doc" "sentParts (p # ps) = sentParts ps"
      by (simp_all add: appendPart_def isPart_def sentParts_def)
    then show ?thesis using Cons by simp
  qed
qed

lemma KContentType_length: "length (KContentType bnd) + 2 = KContentTypeLength + length bnd"
  by (simp add: KContentType_def KContentTypeLength_def lit8_def)

lemma docSize_good:
  assumes "length d \<le> 29"
  shows "int (length (topHeaders m bnd n d)) + 2 + int n \<le> docSizeOf m bnd (int n)"
  using assms KContentType_length [of bnd]
  by (auto simp: topHeaders_def docSizeOf_def KContentLength_def KLastModified_def lit8_def)

lemma topHeaders_written:
  assumes "int (length (topHeaders m bnd n d)) \<le> ds"
  shows "do { d1 \<leftarrow> (if bit m 0 then docAppend ds (KContentType bnd) [] else Some []);
     d2 \<leftarrow> (if bit m 1 then docAppend ds (KContentLength (int n)) d1 else Some d1);
     (if bit m 2 then docAppend ds (KLastModified d) d2 else Some d2) } = Some (topHeaders m bnd n d)"
  using assms by (auto simp: docAppend_def topHeaders_def)

lemma ComposeL_good:
  assumes "bnd \<noteq> []" and "\<forall>p \<in> set ps. goodHeaders p"
    and "ceBoundary ce" "ceNumber ce" "ceDocument ce" and "ceDate ce = Inr d" and "length d \<le> 29"
  shows "ComposeL ce ps bnd EMultipartSubtypeMixed m = Some (Inr (mpText bnd
    (topHeaders m bnd (length (mpText bnd [] (sentParts ps) [])) d @ mpCRLF) (sentParts ps) []))"
proof -
  define n where "n = length (mpText bnd [] (sentParts ps) [])"
  define ds where "ds = docSizeOf m bnd (int n)"
  define top where "top = topHeaders m bnd n d"
  have size: "int (length top) + 2 + int n \<le> ds" using docSize_good [OF assms(7)] by (simp add: top_def ds_def)
  have nb: "n = length (blocks bnd (sentParts ps)) + (4 + length bnd)" by (simp add: n_def mpText_def)
  have parts: "appendParts ds (mpHyphens @ bnd @ mpCRLF) ps (top @ mpCRLF) = Some (top @ mpCRLF @ blocks bnd (sentParts ps))"
    using appendParts_good [OF assms(2), of "top @ mpCRLF" bnd ds] size nb by simp
  have last: "docAppend ds (mpHyphens @ bnd @ mpHyphens) (top @ mpCRLF @ blocks bnd (sentParts ps)) = Some (mpText bnd (top @ mpCRLF) (sentParts ps) [])"
    using size nb by (simp add: docAppend_def mpText_def block_def)
  have crlf: "docAppend ds mpCRLF top = Some (top @ mpCRLF)" using size by (simp add: docAppend_def)
  have tops: "int (length (topHeaders m bnd n d)) \<le> ds" using size by (simp add: top_def)
  have "ComposeMixedL ce ps bnd m = Some (Inr (mpText bnd (top @ mpCRLF) (sentParts ps) []))"
    using topHeaders_written [OF tops] parts last crlf assms(3-6) bodySizeL_good [OF assms(2), of bnd, folded n_def]
    unfolding ComposeMixedL_def Let_def ds_def [symmetric]
    by (cases "bit m 2") (auto simp: ds_def [symmetric] top_def [symmetric] bind_eq_Some_conv)
  then show ?thesis using assms(1) by (simp add: ComposeL_def top_def n_def)
qed

text \<open>
  C31: A document of parts that have no headers, or at least two characters of them, is composed without a
  panic: the header block that was asked for, an empty line, and the well-formed multipart text of the
  parts that are not empty, whose length is the one that the header block announces.
\<close>

theorem composed_document:
  assumes "bnd \<noteq> []" and "\<forall>p \<in> set ps. goodHeaders p"
    and "ceBoundary ce" "ceNumber ce" "ceDocument ce" and "ceDate ce = Inr d" and "length d \<le> 29"
  shows "ComposeL ce ps bnd EMultipartSubtypeMixed m = Some (Inr (mpText bnd
    (topHeaders m bnd (length (mpText bnd [] (sentParts ps) [])) d @ mpCRLF) (sentParts ps) []))"
  by (rule ComposeL_good [OF assms])

subsection \<open>The document that is read back\<close>

text \<open>Headers that the parser does not know, without an empty line among them.\<close>

definition readable :: "body_part \<Rightarrow> bool" where
  "readable p \<longleftrightarrow> headersOf p = [] \<or> (oneBlock False (trimEnd (headersOf p)) \<and> plainHeaders False (trimEnd (headersOf p)))"

definition receivedPart :: "tdes16 \<Rightarrow> body_part \<Rightarrow> body_part" where
  "receivedPart url p = newBodyPart\<lparr>bpBody := Some (sentBody p),
     bpHeaders := (if headersOf p = [] then None else Some (trimEnd (headersOf p))), bpUrl := Some url\<rparr>"

lemma CRLF_eol: "mpEol False = mpCRLF" "mpDoubleEol False = mpDoubleCRLF"
  by (simp_all add: mpEol_def mpDoubleEol_def mpCRLF_def mpDoubleCRLF_def)

lemma sentPart_parses:
  assumes "readable p" "alloc_ok (meAllocUrl me off)"
  shows "ParseBodyPartL me off (sentPart p @ r) (length (sentPart p)) False url = Some (Inr (receivedPart url p))"
proof (cases "headersOf p = []")
  case True
  then have "sentPart p = mpDoubleEol False @ sentBody p" by (simp add: sentPart_def CRLF_eol) (simp add: mpCRLF_def mpDoubleCRLF_def)
  then have "partLoop (sentPart p @ r) (length (sentPart p)) False 0 None newBodyPart = Some (newBodyPart\<lparr>bpBody := Some (sentBody p), bpHeaders := None\<rparr>)"
    using partLoop_bare [of False "sentBody p" r None newBodyPart] by (simp add: newBodyPart_def)
  from ParseBodyPartL_plain [where me = me and off = off and url = url, OF this assms(2)] show ?thesis using True by (simp add: receivedPart_def)
next
  case False
  then have s: "sentPart p = partText False (trimEnd (headersOf p)) (sentBody p)" by (simp add: sentPart_def partText_def CRLF_eol)
  have "oneBlock False (trimEnd (headersOf p))" "plainHeaders False (trimEnd (headersOf p))" using assms(1) False by (auto simp: readable_def)
  from partLoop_plain [OF this, of 0 "sentBody p" r None newBodyPart]
  have "partLoop (sentPart p @ r) (length (sentPart p)) False 0 None newBodyPart =
      Some (newBodyPart\<lparr>bpBody := Some (sentBody p), bpHeaders := Some (trimEnd (headersOf p))\<rparr>)" by (simp add: s)
  from ParseBodyPartL_plain [where me = me and off = off and url = url, OF this assms(2)] show ?thesis using False by (simp add: receivedPart_def)
qed

lemma sentParts_texts: "partTexts False (sentParts ps)"
  by (auto simp: partTexts_def sentParts_def list_all_iff sentPart_def CRLF_eol)

definition roomy :: "mp_env \<Rightarrow> bool" where
  "roomy me \<longleftrightarrow> meAllocPart me = (\<lambda>_. True) \<and> meAppendPart me = (\<lambda>_. True) \<and> meAllocUrl me = (\<lambda>_. [])"

lemma sentParts_parse:
  assumes j: "j < length (sentParts ps)" and r: "\<forall>p \<in> set ps. readable p" and me: "roomy me"
  shows "partParses me bnd pre (sentParts ps) epi False url j (receivedPart url (filter isPart ps ! j))"
proof -
  obtain r where t: "mpText bnd pre (sentParts ps) epi = (pre @ blocks bnd (take j (sentParts ps))) @ block bnd (sentParts ps ! j @ r)"
    using text_split [OF j] by blast
  have d: "drop (markerPos bnd pre (sentParts ps) j + 2 + length bnd) (mpText bnd pre (sentParts ps) epi) = sentParts ps ! j @ r"
    unfolding t markerPos_def by (simp add: block_def mpHyphens_def lit8_def)
  let ?p = "filter isPart ps ! j"
  have "?p \<in> set (filter isPart ps)" using j nth_mem [of j "filter isPart ps"] by (simp add: sentParts_def)
  then have "readable ?p" using r by simp
  then have "ParseBodyPartL me off (sentPart ?p @ r) (length (sentPart ?p)) False url = Some (Inr (receivedPart url ?p))" for off
    using sentPart_parses [of ?p me off] me by (simp add: roomy_def)
  moreover have "sentParts ps ! j = sentPart ?p" using j by (simp add: sentParts_def)
  ultimately show ?thesis using d me by (simp add: partParses_def Let_def roomy_def)
qed


subsection \<open>A document of two parts\<close>

definition letter :: "body_part list" where
  "letter = [newBodyPart\<lparr>bpHeaders := Some (lit8 ''A:B'' @ mpCRLF), bpBody := Some (lit8 ''Hi'')\<rparr>, newBodyPart\<lparr>bpBody := Some (lit8 ''Hello'')\<rparr>]"

definition calmCompose :: compose_env where
  "calmCompose = \<lparr>ceBoundary = True, ceNumber = True, ceDate = Inr [], ceDocument = True\<rparr>"

lemma letter_good: "\<forall>p \<in> set letter. goodHeaders p" "\<forall>p \<in> set letter. readable p" "\<exists>p \<in> set letter. isPart p"
proof -
  have h: "headersOf (letter ! 0) = [65, 58, 66, 13, 10]" "trimEnd [65, 58, 66, 13, 10] = [65, 58, 66]" "bodyOf (letter ! 0) = [72, 105]"
    "headersOf (letter ! 1) = []" by code_simp+
  have o: "oneBlock False [65, 58, 66]" by code_simp
  have q: "plainHeaders False [65, 58, 66]" by (rule plainHeaders_other) (simp add: cLower_def)
  have s: "set letter = {letter ! 0, letter ! 1}" by (simp add: letter_def)
  show "\<forall>p \<in> set letter. goodHeaders p" "\<forall>p \<in> set letter. readable p" "\<exists>p \<in> set letter. isPart p"
    unfolding s using h o q by (simp_all add: goodHeaders_def readable_def isPart_def)
qed

lemma letter_sent: "sentParts letter = [[13, 10, 65, 58, 66, 13, 10, 13, 10, 72, 105, 13, 10], [13, 10, 13, 10, 72, 101, 108, 108, 111, 13, 10]]"
  by code_simp

lemma letter_text: "mpText (lit8 ''b'') mpCRLF (sentParts letter) [] =
   [13, 10, 45, 45, 98, 13, 10, 65, 58, 66, 13, 10, 13, 10, 72, 105, 13, 10, 45, 45, 98, 13, 10, 13, 10, 72, 101, 108, 108, 111, 13, 10, 45, 45, 98, 45, 45]"
  unfolding letter_sent by (simp add: mpText_def blocks_def block_def mpHyphens_def mpCRLF_def lit8_def mpCR_def mpLF_def)

lemma letter_clean: "noOtherMarker (lit8 ''b'') mpCRLF (sentParts letter) []"
proof -
  have m: "markerPos (lit8 ''b'') mpCRLF (sentParts letter) 0 = 2" "markerPos (lit8 ''b'') mpCRLF (sentParts letter) 1 = 18"
    "markerPos (lit8 ''b'') mpCRLF (sentParts letter) 2 = 32" "length (sentParts letter) = 2"
    unfolding letter_sent by (simp_all add: markerPos_def blocks_def lit8_def)
  have "k = 2 \<or> k = 18" if "k < 32" "hyphensAt (mpText (lit8 ''b'') mpCRLF (sentParts letter) []) k" for k
  proof -
    have "list_all (\<lambda>k. hyphensAt (mpText (lit8 ''b'') mpCRLF (sentParts letter) []) k \<longrightarrow> k = 2 \<or> k = 18) [0..<32]"
      unfolding letter_text by (simp add: hyphensAt_def upt_rec)
    then show ?thesis using that by (simp add: list_all_iff)
  qed
  then show ?thesis unfolding noOtherMarker_def isMarker_def m using m by (metis One_nat_def less_2_cases_iff)
qed

lemma letter_long: "longParts (lit8 ''b'') mpCRLF (sentParts letter)"
  unfolding letter_sent by (auto simp: longParts_def less_2_cases_iff lit8_def numeral_2_eq_2 less_Suc_eq)

theorem composed_document_witness:
  "ComposeL calmCompose letter (lit8 ''b'') EMultipartSubtypeMixed 2 = Some (Inr (mpText (lit8 ''b'')
    (topHeaders 2 (lit8 ''b'') (length (mpText (lit8 ''b'') [] (sentParts letter) [])) [] @ mpCRLF) (sentParts letter) []))"
  by (rule composed_document) (use letter_good in \<open>simp_all add: calmCompose_def lit8_def\<close>)


end
