(* ===== verification/Gesture.thy ===== *)
theory Gesture
  imports Prelude Complex_Main
begin

text \<open>
  A gesture as a sequence of points (gesture.cpp, gesturerecogniser.cpp, pointarray.cpp, utils.cpp of
  webkitutils/rt_gesturehelper): the points, their times, and the code that they stand for. Coordinates and
  times are unbounded integers, as the screen and the clock do not reach the limits of their types; the
  time between two points is cut to 32 bits where the code does. Floating point numbers are taken to be exact.
  Using a point that is not there is a fault.
\<close>

subsection \<open>Points and codes\<close>

type_synonym gpoint = "int \<times> int"

record point_entry =
  peiPos :: gpoint
  peiTime :: int

datatype gesture_code =
    EGestureStart | EGestureDrag | EGestureReleased | EGestureUnknown | EGestureTap | EGestureDoubleTap
  | EGestureSwipeLeft | EGestureSwipeRight | EGestureSwipeUp | EGestureSwipeDown | EGestureFlick
  | EGestureLongTap | EGestureDrop | EFlagHold gesture_code

datatype holding_state = ENotHolding | EHoldStarting | EHolding
datatype completion_state = ENotComplete | ECancelled | EComplete | EReleased
datatype gaxis = EAxisBoth | EAxisHorizontal | EAxisVertical

record gesture =
  giPoints :: "point_entry list"
  giHoldingPointIndex :: int
  giHoldingState :: holding_state
  giIsDoubleTap :: bool
  giIsLongTap :: bool
  giState :: completion_state
  giCompletionTime :: int
  giPrevGestureCode :: "gesture_code option"

text \<open>A new object is filled with zeros; no code is zero.\<close>

definition newGesture :: gesture where
  "newGesture = \<lparr>giPoints = [], giHoldingPointIndex = 0, giHoldingState = ENotHolding, giIsDoubleTap = False, giIsLongTap = False,
     giState = ENotComplete, giCompletionTime = 0, giPrevGestureCode = None\<rparr>"

definition KSpeedStopTime :: int where "KSpeedStopTime = 150000"
definition KPreviousPointOffset :: int where "KPreviousPointOffset = 3"
definition KFlickSpeed :: real where "KFlickSpeed = 500"
definition KAngleTolerance :: real where "KAngleTolerance = 25"

subsection \<open>The operations of a gesture\<close>

text \<open>The code of the last gesture is kept.\<close>

definition gsReset :: "gesture \<Rightarrow> gesture" where
  "gsReset g = g\<lparr>giPoints := [], giHoldingState := ENotHolding, giState := ENotComplete, giHoldingPointIndex := 0,
     giIsDoubleTap := False, giIsLongTap := False\<rparr>"

definition IsEmpty :: "gesture \<Rightarrow> bool" where
  "IsEmpty g \<longleftrightarrow> giPoints g = []"

definition CurrentPos :: "gesture \<Rightarrow> gpoint" where
  "CurrentPos g = (if giPoints g = [] then (- 1, - 1) else peiPos (last (giPoints g)))"

definition IsLatestPoint :: "gpoint \<Rightarrow> gesture \<Rightarrow> bool" where
  "IsLatestPoint p g \<longleftrightarrow> giPoints g \<noteq> [] \<and> p = CurrentPos g"

definition AddPoint :: "bool \<Rightarrow> gpoint \<Rightarrow> int \<Rightarrow> gesture \<Rightarrow> symerr \<times> gesture" where
  "AddPoint ok p t g =
    (if IsLatestPoint p g then (KErrNone, g)
     else if \<not> ok then (KErrNoMemory, g)
     else (KErrNone, g\<lparr>giPoints := giPoints g @ [\<lparr>peiPos = p, peiTime = t\<rparr>]\<rparr>))"

text \<open>A rectangle around a point; its right and lower edges do not belong to it.\<close>

definition inTolerance :: "int \<Rightarrow> gpoint \<Rightarrow> gpoint \<Rightarrow> bool" where
  "inTolerance tol c p \<longleftrightarrow> fst c - tol \<le> fst p \<and> fst p < fst c + tol \<and> snd c - tol \<le> snd p \<and> snd p < snd c + tol"

definition IsNearHoldingPoint :: "int \<Rightarrow> gpoint \<Rightarrow> gesture \<Rightarrow> bool option" where
  "IsNearHoldingPoint tol p g =
    (if 0 \<le> giHoldingPointIndex g \<and> giHoldingPointIndex g < int (length (giPoints g))
     then Some (inTolerance tol (peiPos (giPoints g ! nat (giHoldingPointIndex g))) p) else None)"

definition gsStartHolding :: "gesture \<Rightarrow> gesture" where
  "gsStartHolding g = g\<lparr>giHoldingState := EHoldStarting, giPoints := take (nat (giHoldingPointIndex g + 1)) (giPoints g)\<rparr>"

definition SetHoldingPoint :: "gesture \<Rightarrow> gesture" where
  "SetHoldingPoint g = g\<lparr>giHoldingPointIndex := int (length (giPoints g)) - 1\<rparr>"

definition ContinueHolding :: "gesture \<Rightarrow> gesture" where
  "ContinueHolding g = g\<lparr>giHoldingState := EHolding\<rparr>"

definition SetReleased :: "gesture \<Rightarrow> gesture" where
  "SetReleased g = g\<lparr>giState := EReleased\<rparr>"

definition SetComplete :: "int \<Rightarrow> gesture \<Rightarrow> gesture" where
  "SetComplete now g = g\<lparr>giState := EComplete, giCompletionTime := now\<rparr>"

definition SetCancelled :: "gesture \<Rightarrow> gesture" where
  "SetCancelled g = g\<lparr>giState := ECancelled\<rparr>"

definition SetDoubleTap :: "gesture \<Rightarrow> gesture" where
  "SetDoubleTap g = g\<lparr>giIsDoubleTap := True\<rparr>"

definition SetLongTap :: "bool \<Rightarrow> gesture \<Rightarrow> gesture" where
  "SetLongTap b g = g\<lparr>giIsLongTap := b\<rparr>"

definition IsHolding :: "gesture \<Rightarrow> bool" where
  "IsHolding g \<longleftrightarrow> giHoldingState g \<noteq> ENotHolding"

definition StartPos :: "gesture \<Rightarrow> gpoint option" where
  "StartPos g = (if giPoints g = [] then None else Some (peiPos (hd (giPoints g))))"

definition gsDistance :: "gesture \<Rightarrow> gpoint option" where
  "gsDistance g = map_option (\<lambda>s. (fst (CurrentPos g) - fst s, snd (CurrentPos g) - snd s)) (StartPos g)"

subsection \<open>Speed\<close>

definition Elapsed :: "int \<Rightarrow> int \<Rightarrow> int" where
  "Elapsed aStartTime aEndTime = sint (word_of_int (aEndTime - aStartTime) :: 32 word)"

definition NthLastEntry :: "int \<Rightarrow> gesture \<Rightarrow> point_entry option" where
  "NthLastEntry n g = (if giPoints g = [] then None else Some (giPoints g ! nat (max (int (length (giPoints g)) - n) 0)))"

definition IsMovementStopped :: "gesture \<Rightarrow> bool option" where
  "IsMovementStopped g =
    (if giState g = EComplete \<or> giState g = EReleased
     then map_option (\<lambda>e. Elapsed (peiTime e) (giCompletionTime g) > KSpeedStopTime) (NthLastEntry 1 g) else Some False)"

definition gsSpeed :: "gesture \<Rightarrow> (real \<times> real) option" where
  "gsSpeed g =
    (case (NthLastEntry KPreviousPointOffset g, NthLastEntry 1 g, IsMovementStopped g) of
       (Some prev, Some latest, Some stopped) \<Rightarrow>
         let time = real_of_int (Elapsed (peiTime prev) (peiTime latest)) / 1000000
         in Some (if \<not> stopped \<and> time > 0
           then (real_of_int (fst (CurrentPos g) - fst (peiPos prev)) / time, real_of_int (snd (CurrentPos g) - snd (peiPos prev)) / time)
           else (0, 0))
     | _ \<Rightarrow> None)"

definition IsFlick :: "gesture \<Rightarrow> bool option" where
  "IsFlick g = map_option (\<lambda>v. \<bar>fst v\<bar> > KFlickSpeed \<or> \<bar>snd v\<bar> > KFlickSpeed) (gsSpeed g)"

subsection \<open>The recogniser\<close>

definition axisPoint :: "gaxis \<Rightarrow> gpoint \<Rightarrow> gpoint" where
  "axisPoint a p = (case a of EAxisHorizontal \<Rightarrow> (fst p, 0) | EAxisVertical \<Rightarrow> (0, snd p) | EAxisBoth \<Rightarrow> p)"

text \<open>The angle of a vector in degrees; the y axis of the screen points down.\<close>

definition vectorAngle :: "gpoint \<Rightarrow> gpoint \<Rightarrow> real" where
  "vectorAngle aFrom aTo =
    (let x = real_of_int (fst aTo - fst aFrom); y = real_of_int (snd aTo - snd aFrom); l = sqrt (x * x + y * y);
         a = (if l = 0 then 0 else if y < 0 then 2 * pi - arccos (x / l) else arccos (x / l))
     in a * 180 / pi)"

definition IsNear :: "real \<Rightarrow> real \<Rightarrow> bool" where
  "IsNear a b \<longleftrightarrow> b - KAngleTolerance \<le> a \<and> a \<le> b + KAngleTolerance"

definition angleDirection :: "real \<Rightarrow> gesture_code" where
  "angleDirection a =
    (if IsNear a 90 then EGestureSwipeDown
     else if IsNear a 180 then EGestureSwipeLeft
     else if IsNear a 270 then EGestureSwipeUp
     else if 360 - KAngleTolerance \<le> a \<or> a \<le> KAngleTolerance then EGestureSwipeRight
     else EGestureUnknown)"

definition GeneralDirection :: "int \<Rightarrow> gpoint list \<Rightarrow> gesture_code" where
  "GeneralDirection tol ps = (if inTolerance tol (hd ps) (last ps) then EGestureUnknown else angleDirection (vectorAngle (hd ps) (last ps)))"

text \<open>The latest point that is not near the last one, among the first \<open>n\<close>.\<close>

primrec latestOutside :: "int \<Rightarrow> gpoint \<Rightarrow> gpoint list \<Rightarrow> nat \<Rightarrow> nat option" where
  "latestOutside tol c ps 0 = None"
| "latestOutside tol c ps (Suc i) = (if \<not> inTolerance tol c (ps ! i) then Some i else latestOutside tol c ps i)"

definition LatestCertainPointIndex :: "int \<Rightarrow> gpoint list \<Rightarrow> nat option" where
  "LatestCertainPointIndex tol ps = latestOutside tol (last ps) ps (length ps)"

definition LastDirection :: "int \<Rightarrow> gpoint list \<Rightarrow> gesture_code" where
  "LastDirection tol ps = (case LatestCertainPointIndex tol ps of
     None \<Rightarrow> EGestureUnknown | Some i \<Rightarrow> angleDirection (vectorAngle (ps ! i) (last ps)))"

definition recIsTap :: "int \<Rightarrow> gpoint list \<Rightarrow> bool" where
  "recIsTap tol raw \<longleftrightarrow> LatestCertainPointIndex tol raw = None"

definition GestureCode :: "int \<Rightarrow> gaxis \<Rightarrow> gpoint list \<Rightarrow> gesture_code" where
  "GestureCode tol a raw =
    (if recIsTap tol raw then EGestureTap
     else let ps = map (axisPoint a) raw; direction = GeneralDirection tol ps
       in if direction \<noteq> LastDirection tol ps then EGestureUnknown else direction)"

definition CodeFromPoints :: "int \<Rightarrow> gaxis \<Rightarrow> gesture \<Rightarrow> gesture_code option" where
  "CodeFromPoints tol a g = (if giPoints g = [] then None else Some (GestureCode tol a (map peiPos (giPoints g))))"

definition gsIsTap :: "int \<Rightarrow> gesture \<Rightarrow> bool option" where
  "gsIsTap tol g = map_option (\<lambda>c. c = EGestureTap) (CodeFromPoints tol EAxisBoth g)"

definition Hold :: "gesture_code \<Rightarrow> gesture_code" where
  "Hold c = (if c \<notin> {EGestureStart, EGestureDrag, EGestureReleased, EGestureUnknown} then EFlagHold c else c)"

text \<open>The code, which the gesture remembers unless it was released or cancelled.\<close>

definition gsCode :: "int \<Rightarrow> gaxis \<Rightarrow> gesture \<Rightarrow> (gesture_code \<times> gesture) option" where
  "gsCode tol a g =
    (case giState g of
       ENotComplete \<Rightarrow>
         map_option (\<lambda>c. (c, g\<lparr>giPrevGestureCode := Some c\<rparr>))
          (if length (giPoints g) = 1 \<and> \<not> IsHolding g then Some EGestureStart
           else if giHoldingState g \<noteq> EHoldStarting then Some EGestureDrag
           else map_option Hold (CodeFromPoints tol a g))
     | EComplete \<Rightarrow>
         map_option (\<lambda>c. (c, g\<lparr>giPrevGestureCode := Some c\<rparr>))
          (if giIsDoubleTap g then Some EGestureDoubleTap
           else if giIsLongTap g then Some EGestureLongTap
           else if giPrevGestureCode g = Some EGestureDrag then
             (case IsFlick g of
                None \<Rightarrow> None
              | Some True \<Rightarrow> Some EGestureFlick
              | Some False \<Rightarrow> map_option (\<lambda>c. if c = EGestureUnknown then EGestureDrop else c) (CodeFromPoints tol a g))
           else CodeFromPoints tol a g)
     | EReleased \<Rightarrow> Some (EGestureReleased, g)
     | ECancelled \<Rightarrow> Some (EGestureUnknown, g))"

subsection \<open>Speed as a percentage\<close>

text \<open>
  The position of the last point in a scale from -1 to 1, whose zero moves whenever the direction changes.
  A division by zero, which gives no finite number, is None. The accuracy below which two edges are taken
  for equal is an integer constant, and so zero.
\<close>

definition fdiv :: "real \<Rightarrow> real \<Rightarrow> real option" where
  "fdiv a b = (if b = 0 then None else Some (a / b))"

definition KFloatingPointAccuracy :: int where "KFloatingPointAccuracy = 0"

definition Proportion :: "real \<Rightarrow> real \<Rightarrow> real \<Rightarrow> real" where
  "Proportion aPos aEdge1 aEdge2 = (if \<bar>aEdge2 - aEdge1\<bar> > real_of_int KFloatingPointAccuracy then (aPos - aEdge1) / (aEdge2 - aEdge1) else 0)"

record gscale =
  scMin :: real
  scZero :: real
  scMax :: real

definition scPercent :: "real \<Rightarrow> gscale \<Rightarrow> real" where
  "scPercent aPos sc = min (max (if aPos < scZero sc then - Proportion aPos (scZero sc) (scMin sc) else Proportion aPos (scZero sc) (scMax sc)) (- 1)) 1"

definition smallerDir :: "int \<Rightarrow> int \<Rightarrow> bool" where
  "smallerDir aPos aPreviousPos \<longleftrightarrow> aPos < aPreviousPos"

definition ProportionalLength :: "real \<Rightarrow> real \<Rightarrow> real \<Rightarrow> real option" where
  "ProportionalLength aLow aHigh aProportion = fdiv ((aHigh - aLow) * aProportion) (1 + aProportion)"

definition ScaledEdge :: "real \<Rightarrow> real \<Rightarrow> real \<Rightarrow> real \<Rightarrow> real option" where
  "ScaledEdge aOrigin aVariableEdge aOldEdge aNewEdge =
    (let p = Proportion aOrigin aVariableEdge aOldEdge in fdiv (p * aNewEdge - aOrigin) (p - 1))"

definition Rescale :: "real \<Rightarrow> bool \<Rightarrow> bool \<Rightarrow> gscale \<Rightarrow> real \<times> real \<Rightarrow> gscale option" where
  "Rescale aPos smaller prevSmaller sc edges =
    (if prevSmaller = smaller then Some sc
     else if smaller then
       (case (if scZero sc < aPos then map_option (\<lambda>l. aPos - l) (ProportionalLength (fst edges) aPos (Proportion aPos (scZero sc) (scMax sc)))
              else ScaledEdge aPos (scZero sc) (scMin sc) (fst edges)) of
          None \<Rightarrow> None
        | Some z \<Rightarrow> map_option (\<lambda>m. \<lparr>scMin = fst edges, scZero = z, scMax = m\<rparr>) (ScaledEdge aPos (scMax sc) (scZero sc) z))
     else
       (case (if aPos < scZero sc then map_option (\<lambda>l. aPos + l) (ProportionalLength aPos (snd edges) (Proportion aPos (scZero sc) (scMin sc)))
              else ScaledEdge aPos (scZero sc) (scMax sc) (snd edges)) of
          None \<Rightarrow> None
        | Some z \<Rightarrow> map_option (\<lambda>m. \<lparr>scMin = m, scZero = z, scMax = snd edges\<rparr>) (ScaledEdge aPos (scMin sc) (scZero sc) z)))"

text \<open>One axis: from the second point on, with the direction at the point before.\<close>

fun scaleLoop :: "real \<times> real \<Rightarrow> int list \<Rightarrow> bool \<Rightarrow> gscale \<Rightarrow> gscale option" where
  "scaleLoop edges (p # q # ps) dir sc =
    (case Rescale (real_of_int p) (smallerDir q p) dir sc edges of None \<Rightarrow> None | Some sc1 \<Rightarrow> scaleLoop edges (q # ps) (smallerDir q p) sc1)"
| "scaleLoop edges ps dir sc = Some sc"

definition scaleOf :: "real \<times> real \<Rightarrow> int list \<Rightarrow> gscale option" where
  "scaleOf edges ps = scaleLoop edges ps (smallerDir (ps ! 1) (ps ! 0)) \<lparr>scMin = fst edges, scZero = real_of_int (hd ps), scMax = snd edges\<rparr>"

definition SpeedPercent :: "gpoint \<Rightarrow> gpoint \<Rightarrow> gesture \<Rightarrow> (real \<times> real) option" where
  "SpeedPercent aTl aBr g =
    (if giPoints g = [] then None
     else let ps = map peiPos (giPoints g) in
       case (scaleOf (real_of_int (fst aTl), real_of_int (fst aBr)) (map fst ps), scaleOf (real_of_int (snd aTl), real_of_int (snd aBr)) (map snd ps)) of
         (Some sx, Some sy) \<Rightarrow> Some (scPercent (real_of_int (fst (CurrentPos g))) sx, scPercent (real_of_int (snd (CurrentPos g))) sy)
       | _ \<Rightarrow> None)"

end
