(* ===== verification/GestureHelper.thy ===== *)
theory GestureHelper
  imports Gesture "HOL-Library.Monad_Syntax"
begin

text \<open>
  From pointer events to gesture events (gesturehelperimpl.cpp, gestureeventfilter.cpp,
  gesturehelpereventsender.cpp of webkitutils/rt_gesturehelper): the filter of small and fast movements, the
  three timers, the pool of two gestures, and the queue of events for the observer. A null gesture that is
  used is a fault. The clock, the outcome of allocations and the size of a finger are in \<open>gest_env\<close>.
\<close>

record gest_env =
  geTol :: int
  geNow :: int
  geDone :: int
  gePoint :: bool

subsection \<open>The queue of events\<close>

record gevent =
  evCode :: gesture_code
  evCurrentPos :: gpoint
  evDistance :: gpoint
  evStartPos :: gpoint
  evIsHolding :: bool
  evSpeed :: "real \<times> real"

datatype sender_state = ENoEvents | EEventsReady | EBusy

record sender =
  seEvents :: "gevent list"
  seState :: sender_state
  seActive :: bool
  seRoom :: allocs

definition newSender :: sender where
  "newSender = \<lparr>seEvents = [], seState = ENoEvents, seActive = False, seRoom = []\<rparr>"

definition AddEvent :: "gevent \<Rightarrow> sender \<Rightarrow> sender" where
  "AddEvent ev s = s\<lparr>seEvents := (if alloc_ok (seRoom s) then seEvents s @ [ev] else seEvents s), seRoom := alloc_rest (seRoom s),
     seState := (if seState s \<noteq> EBusy then EEventsReady else EBusy), seActive := True\<rparr>"

text \<open>
  The events are handed to the observer in their order. If it leaves at one of them, what it left with
  goes to the scheduler after \<open>RunError\<close> has dropped the rest; the state stays busy.
\<close>

definition seRunL :: "(gevent \<Rightarrow> bool) \<Rightarrow> sender \<Rightarrow> gevent list \<times> sender" where
  "seRunL leaves s =
    (let s1 = s\<lparr>seActive := False\<rparr> in
     if seState s = EEventsReady then
       if \<exists>e \<in> set (seEvents s). leaves e
       then (takeWhile (\<lambda>e. \<not> leaves e) (seEvents s) @ take 1 (dropWhile (\<lambda>e. \<not> leaves e) (seEvents s)), s1\<lparr>seEvents := [], seState := EBusy\<rparr>)
       else (seEvents s, s1\<lparr>seEvents := [], seState := ENoEvents, seActive := True\<rparr>)
     else ([], s1))"

definition seDoCancel :: "sender \<Rightarrow> sender" where
  "seDoCancel s = s\<lparr>seEvents := [], seState := ENoEvents\<rparr>"

subsection \<open>The filter\<close>

datatype gpointer = GButton1Down | GDrag | GButton1Up | GOther

record gfilter =
  flTouchDownTime :: int
  flTouchDownPos :: gpoint
  flIsTouchDown :: bool
  flLastEventTime :: int

datatype filter_reason = EFilteredNoReason | EFilteredBySize | EFilteredByTime

definition KMinTimeBetweenDrags :: int where "KMinTimeBetweenDrags = 20000"

definition FilterDrag :: "int \<Rightarrow> gpointer \<Rightarrow> gpoint \<Rightarrow> int \<Rightarrow> gfilter \<Rightarrow> (bool \<times> filter_reason) \<times> gfilter" where
  "FilterDrag aTapSize t p now f =
    (case t of
       GButton1Down \<Rightarrow> ((False, EFilteredNoReason), f\<lparr>flIsTouchDown := True, flTouchDownTime := flLastEventTime f, flTouchDownPos := p\<rparr>)
     | GDrag \<Rightarrow>
         let bySize = flIsTouchDown f \<and> \<bar>fst p - fst (flTouchDownPos f)\<bar> \<le> aTapSize \<and> \<bar>snd p - snd (flTouchDownPos f)\<bar> \<le> aTapSize;
             byTime = \<not> bySize \<and> now - flLastEventTime f < KMinTimeBetweenDrags;
             filtered = bySize \<or> byTime
         in ((filtered, if bySize then EFilteredBySize else if byTime then EFilteredByTime else EFilteredNoReason),
             f\<lparr>flLastEventTime := (if filtered then flLastEventTime f else now), flIsTouchDown := filtered\<rparr>)
     | GButton1Up \<Rightarrow> ((False, EFilteredNoReason), f\<lparr>flIsTouchDown := False\<rparr>)
     | GOther \<Rightarrow> ((False, EFilteredNoReason), f))"

subsection \<open>The helper\<close>

record cb_timer =
  tmActive :: bool
  tmEnabled :: bool

definition tmSetEnabled :: "bool \<Rightarrow> cb_timer \<Rightarrow> cb_timer" where
  "tmSetEnabled b t = \<lparr>tmActive = False, tmEnabled = b\<rparr>"

definition tmStart :: "cb_timer \<Rightarrow> cb_timer" where
  "tmStart t = (if tmEnabled t then t\<lparr>tmActive := True\<rparr> else t)"

definition tmCancel :: "cb_timer \<Rightarrow> cb_timer" where
  "tmCancel t = t\<lparr>tmActive := False\<rparr>"

record helper =
  ghGesture :: gesture
  ghPreviousTap :: "gesture option"
  ghUnused :: "gesture option"
  ghDoubleTapTimer :: cb_timer
  ghHoldingTimer :: cb_timer
  ghLongTouchTimer :: cb_timer
  ghLastEventTime :: int
  ghLastTouchUpTime :: int
  ghLastDoubleTapTime :: int
  ghFilter :: gfilter
  ghSender :: sender

definition KDoubleTapMaxActivationInterval :: int where "KDoubleTapMaxActivationInterval = 500000"
definition KDoubleTapMinActivationInterval :: int where "KDoubleTapMinActivationInterval = 40000"
definition KDoubleTapIdleInterval :: int where "KDoubleTapIdleInterval = 700000"

definition ghNewL :: helper where
  "ghNewL = \<lparr>ghGesture = newGesture, ghPreviousTap = None, ghUnused = Some newGesture,
     ghDoubleTapTimer = \<lparr>tmActive = False, tmEnabled = False\<rparr>, ghHoldingTimer = \<lparr>tmActive = False, tmEnabled = False\<rparr>,
     ghLongTouchTimer = \<lparr>tmActive = False, tmEnabled = True\<rparr>, ghLastEventTime = 0, ghLastTouchUpTime = 0, ghLastDoubleTapTime = 0,
     ghFilter = \<lparr>flTouchDownTime = 0, flTouchDownPos = (0, 0), flIsTouchDown = False, flLastEventTime = 0\<rparr>, ghSender = newSender\<rparr>"

definition SetHoldingEnabled :: "bool \<Rightarrow> helper \<Rightarrow> helper" where
  "SetHoldingEnabled b h = h\<lparr>ghHoldingTimer := tmSetEnabled b (ghHoldingTimer h)\<rparr>"

definition SetDoubleTapEnabled :: "bool \<Rightarrow> helper \<Rightarrow> helper" where
  "SetDoubleTapEnabled b h = h\<lparr>ghDoubleTapTimer := tmSetEnabled b (ghDoubleTapTimer h)\<rparr>"

definition ghReset :: "helper \<Rightarrow> helper" where
  "ghReset h = h\<lparr>ghHoldingTimer := tmCancel (ghHoldingTimer h), ghLongTouchTimer := tmCancel (ghLongTouchTimer h), ghGesture := gsReset (ghGesture h)\<rparr>"

text \<open>The event takes the code of the gesture, which remembers it.\<close>

definition EmitEvent :: "gest_env \<Rightarrow> gesture \<Rightarrow> sender \<Rightarrow> (gesture \<times> sender) option" where
  "EmitEvent ge g s = do {
     (c, g1) \<leftarrow> gsCode (geTol ge) EAxisBoth g;
     d \<leftarrow> gsDistance g1;
     p \<leftarrow> StartPos g1;
     v \<leftarrow> gsSpeed g1;
     Some (g1, AddEvent \<lparr>evCode = c, evCurrentPos = CurrentPos g1, evDistance = d, evStartPos = p, evIsHolding = IsHolding g1, evSpeed = v\<rparr> s) }"

definition emitCurrent :: "gest_env \<Rightarrow> helper \<Rightarrow> helper option" where
  "emitCurrent ge h = map_option (\<lambda>(g, s). h\<lparr>ghGesture := g, ghSender := s\<rparr>) (EmitEvent ge (ghGesture h) (ghSender h))"

definition NewGesture :: "helper \<Rightarrow> (gesture \<times> helper) option" where
  "NewGesture h = map_option (\<lambda>g. (gsReset g, h\<lparr>ghUnused := None\<rparr>)) (ghUnused h)"

definition recyclePrevious :: "helper \<Rightarrow> helper" where
  "recyclePrevious h = (case ghPreviousTap h of None \<Rightarrow> h | Some g \<Rightarrow> h\<lparr>ghUnused := Some g, ghPreviousTap := None\<rparr>)"

definition CompleteAndEmit :: "gest_env \<Rightarrow> gesture \<Rightarrow> sender \<Rightarrow> (gesture \<times> sender) option" where
  "CompleteAndEmit ge g s = do {
     (g1, s1) \<leftarrow> (if IsHolding g then Some (SetComplete (geDone ge) g, s) else EmitEvent ge (SetComplete (geDone ge) g) s);
     EmitEvent ge (SetReleased g1) s1 }"

definition EmitFirstTapEvent :: "gest_env \<Rightarrow> helper \<Rightarrow> helper option" where
  "EmitFirstTapEvent ge h = do {
     g \<leftarrow> ghPreviousTap h;
     (g1, s) \<leftarrow> CompleteAndEmit ge g (ghSender h);
     Some (recyclePrevious (h\<lparr>ghDoubleTapTimer := tmCancel (ghDoubleTapTimer h), ghPreviousTap := Some g1, ghSender := s\<rparr>)) }"

definition EmitDoubleTapEvent :: "gest_env \<Rightarrow> helper \<Rightarrow> helper option" where
  "EmitDoubleTapEvent ge h = (case ghPreviousTap h of None \<Rightarrow> None | Some g \<Rightarrow> EmitFirstTapEvent ge (h\<lparr>ghPreviousTap := Some (SetDoubleTap g)\<rparr>))"

definition EmitReleasedEvent :: "gest_env \<Rightarrow> helper \<Rightarrow> helper option" where
  "EmitReleasedEvent ge h = emitCurrent ge (h\<lparr>ghGesture := SetReleased (SetComplete (geDone ge) (ghGesture h))\<rparr>)"

definition EmitCancelEvent :: "gest_env \<Rightarrow> helper \<Rightarrow> helper option" where
  "EmitCancelEvent ge h =
    (let h1 = h\<lparr>ghDoubleTapTimer := tmCancel (ghDoubleTapTimer h)\<rparr> in
     case ghPreviousTap h1 of
       None \<Rightarrow> emitCurrent ge (h1\<lparr>ghGesture := SetCancelled (ghGesture h1)\<rparr>)
     | Some g \<Rightarrow> map_option (\<lambda>(g1, s). recyclePrevious (h1\<lparr>ghPreviousTap := Some g1, ghSender := s\<rparr>)) (EmitEvent ge (SetCancelled g) (ghSender h1)))"

definition StartHoldingL :: "gest_env \<Rightarrow> helper \<Rightarrow> helper option" where
  "StartHoldingL ge h = map_option (\<lambda>h1. h1\<lparr>ghGesture := ContinueHolding (ghGesture h1)\<rparr>)
     (emitCurrent ge (h\<lparr>ghGesture := gsStartHolding (ghGesture h)\<rparr>))"

text \<open>Nothing calls this one.\<close>

definition StartHoldingTimer :: "gest_env \<Rightarrow> gpoint \<Rightarrow> helper \<Rightarrow> helper option" where
  "StartHoldingTimer ge p h =
    (if IsHolding (ghGesture h) then Some h
     else map_option (\<lambda>near. if near then h
       else h\<lparr>ghHoldingTimer := tmStart (ghHoldingTimer h), ghGesture := SetHoldingPoint (ghGesture h)\<rparr>) (IsNearHoldingPoint (geTol ge) p (ghGesture h)))"

definition IsMovementGesture :: "gesture_code option \<Rightarrow> bool" where
  "IsMovementGesture c \<longleftrightarrow> c \<in> Some ` {EGestureDrag, EGestureFlick, EGestureSwipeUp, EGestureSwipeDown, EGestureSwipeRight, EGestureSwipeLeft}"

text \<open>A point is added; only the handlers of a touch and of a movement leave when there is no memory.\<close>

definition ghAddPoint :: "gest_env \<Rightarrow> gpoint \<Rightarrow> helper \<Rightarrow> symerr \<times> helper" where
  "ghAddPoint ge p h = (let (err, g) = AddPoint (gePoint ge) p (ghLastEventTime h) (ghGesture h) in (err, h\<lparr>ghGesture := g\<rparr>))"

definition HandleLongTouch :: "gest_env \<Rightarrow> helper \<Rightarrow> helper option" where
  "HandleLongTouch ge h = do {
     let h1 = h\<lparr>ghDoubleTapTimer := tmCancel (ghDoubleTapTimer h), ghGesture := SetComplete (geDone ge) (SetLongTap True (ghGesture h))\<rparr>;
     startPos \<leftarrow> StartPos (ghGesture h1);
     h2 \<leftarrow> emitCurrent ge h1;
     Some (snd (ghAddPoint ge startPos (h2\<lparr>ghGesture := gsReset (ghGesture h2)\<rparr>))) }"

definition HandleTouchDownL :: "gest_env \<Rightarrow> gpoint \<Rightarrow> helper \<Rightarrow> (symerr \<times> helper) option" where
  "HandleTouchDownL ge p h =
    (if giPrevGestureCode (ghGesture h) = Some EGestureStart then Some (KErrNone, h)
     else let h1 = (if giPrevGestureCode (ghGesture h) = Some EGestureDrag then h\<lparr>ghGesture := gsReset (ghGesture h)\<rparr> else h);
              (err, h2) = ghAddPoint ge p h1
       in if err \<noteq> KErrNone then Some (err, h2)
          else let h3 = (if tmActive (ghLongTouchTimer h2) then h2 else h2\<lparr>ghLongTouchTimer := tmStart (ghLongTouchTimer h2)\<rparr>)
            in map_option (Pair KErrNone) (if tmActive (ghDoubleTapTimer h3) then Some h3 else emitCurrent ge h3))"

definition HandleMoveL :: "gest_env \<Rightarrow> gpoint \<Rightarrow> helper \<Rightarrow> (symerr \<times> helper) option" where
  "HandleMoveL ge p h =
    (if IsLatestPoint p (ghGesture h) then Some (KErrNone, h)
     else let isFirstPoint = IsEmpty (ghGesture h);
              (err, h1) = ghAddPoint ge p (h\<lparr>ghDoubleTapTimer := tmCancel (ghDoubleTapTimer h), ghLongTouchTimer := tmCancel (ghLongTouchTimer h)\<rparr>)
       in if err \<noteq> KErrNone then Some (err, h1)
          else map_option (Pair KErrNone) (if isFirstPoint then Some (recyclePrevious h1) else emitCurrent ge (recyclePrevious h1)))"

definition HandleTouchUp :: "gest_env \<Rightarrow> helper \<Rightarrow> helper option" where
  "HandleTouchUp ge h =
    (let prevCode = giPrevGestureCode (ghGesture h);
         h1 = h\<lparr>ghLongTouchTimer := tmCancel (ghLongTouchTimer h), ghDoubleTapTimer := tmCancel (ghDoubleTapTimer h)\<rparr>;
         now = ghLastEventTime h;
         fromLastTouchUp = now - ghLastTouchUpTime h; fromLastDoubleTap = now - ghLastDoubleTapTime h
     in if prevCode = Some EGestureLongTap then EmitReleasedEvent ge h1
        else if IsMovementGesture prevCode \<or> \<not> tmEnabled (ghDoubleTapTimer h1)
        then emitCurrent ge (h1\<lparr>ghGesture := SetComplete (geDone ge) (ghGesture h1)\<rparr>)
        else if ghPreviousTap h1 \<noteq> None \<and> fromLastTouchUp > KDoubleTapMinActivationInterval \<and> fromLastTouchUp < KDoubleTapMaxActivationInterval \<and>
          fromLastDoubleTap > KDoubleTapIdleInterval
        then EmitDoubleTapEvent ge (h1\<lparr>ghLastTouchUpTime := now, ghLastDoubleTapTime := now\<rparr>)
        else do {
          (g, h2) \<leftarrow> NewGesture ((recyclePrevious (h1\<lparr>ghLastTouchUpTime := now\<rparr>))\<lparr>ghPreviousTap := Some (ghGesture h1)\<rparr>);
          Some (h2\<lparr>ghGesture := g, ghDoubleTapTimer := tmStart (ghDoubleTapTimer h2)\<rparr>) })"

definition handleUnfiltered :: "gest_env \<Rightarrow> gpointer \<Rightarrow> gpoint \<Rightarrow> helper \<Rightarrow> (symerr \<times> helper) option" where
  "handleUnfiltered ge t p h =
    (case t of
       GButton1Down \<Rightarrow> HandleTouchDownL ge p h
     | GDrag \<Rightarrow> HandleMoveL ge p h
     | GButton1Up \<Rightarrow>
         let (err, h1) = ghAddPoint ge p h
         in map_option (\<lambda>h2. (KErrNone, ghReset h2)) (if err = KErrNone then HandleTouchUp ge h1 else EmitCancelEvent ge h1)
     | GOther \<Rightarrow> Some (KErrNone, h))"

text \<open>What a pointer event leaves with or KErrNone, whether it was taken, and the helper afterwards.\<close>

definition ghPointerEventL :: "gest_env \<Rightarrow> gpointer \<Rightarrow> gpoint \<Rightarrow> helper \<Rightarrow> (symerr \<times> bool \<times> helper) option" where
  "ghPointerEventL ge t p h =
    (let ((filtered, reason), f) = FilterDrag (geTol ge) t p (geNow ge) (ghFilter h);
         h1 = h\<lparr>ghLastEventTime := geNow ge, ghFilter := f\<rparr>
     in if filtered then Some (KErrNone, False, h1) else map_option (\<lambda>(err, h2). (err, True, h2)) (handleUnfiltered ge t p h1))"

subsection \<open>Timers, the queue and the client as steps\<close>

datatype gest_op =
    PointerEvent gest_env gpointer gpoint
  | DoubleTapTimeout gest_env | HoldingTimeout gest_env | LongTouchTimeout gest_env
  | SenderRun "gevent \<Rightarrow> bool" | EnableHolding bool | EnableDoubleTap bool | CancelGesture

text \<open>A timer that is not active does not run. A pointer event may leave; the next event is then taken as any.\<close>

primrec runGestOp :: "gest_op \<Rightarrow> helper \<Rightarrow> (gevent list \<times> helper) option" where
  "runGestOp (PointerEvent ge t p) h = map_option (\<lambda>(err, taken, h1). ([], h1)) (ghPointerEventL ge t p h)"
| "runGestOp (DoubleTapTimeout ge) h = (if tmActive (ghDoubleTapTimer h)
     then map_option (Pair []) (EmitFirstTapEvent ge (h\<lparr>ghDoubleTapTimer := tmCancel (ghDoubleTapTimer h)\<rparr>)) else Some ([], h))"
| "runGestOp (HoldingTimeout ge) h = (if tmActive (ghHoldingTimer h)
     then map_option (Pair []) (StartHoldingL ge (h\<lparr>ghHoldingTimer := tmCancel (ghHoldingTimer h)\<rparr>)) else Some ([], h))"
| "runGestOp (LongTouchTimeout ge) h = (if tmActive (ghLongTouchTimer h)
     then map_option (Pair []) (HandleLongTouch ge (h\<lparr>ghLongTouchTimer := tmCancel (ghLongTouchTimer h)\<rparr>)) else Some ([], h))"
| "runGestOp (SenderRun leaves) h = (if seActive (ghSender h)
     then (let (out, s) = seRunL leaves (ghSender h) in Some (out, h\<lparr>ghSender := s\<rparr>)) else Some ([], h))"
| "runGestOp (EnableHolding b) h = Some ([], SetHoldingEnabled b h)"
| "runGestOp (EnableDoubleTap b) h = Some ([], SetDoubleTapEnabled b h)"
| "runGestOp CancelGesture h = Some ([], ghReset h)"

fun runGestOps :: "gest_op list \<Rightarrow> helper \<Rightarrow> (gevent list \<times> helper) option" where
  "runGestOps [] h = Some ([], h)"
| "runGestOps (a # as) h = do { (out, h1) \<leftarrow> runGestOp a h; (outs, h2) \<leftarrow> runGestOps as h1; Some (out @ outs, h2) }"

end
