(* ===== verification/GestureSpec.thy ===== *)
theory GestureSpec
  imports GestureHelper
begin

text \<open>
  What the gesture helper keeps: the pool always has a gesture when one is needed, timers run only for gestures
  that have points, no handler uses a point or a gesture that is not there, and events reach the observer in
  the order of the gestures, until the observer leaves.
\<close>

subsection \<open>Emitting an event\<close>

text \<open>A gesture and what becomes of it when it is emitted: only the code that it remembers changes.\<close>

definition sameButCode :: "gesture \<Rightarrow> gesture \<Rightarrow> bool" where
  "sameButCode g g1 \<longleftrightarrow> g1 = g\<lparr>giPrevGestureCode := giPrevGestureCode g1\<rparr>"

lemma sameButCode_dest:
  "sameButCode g g1 \<Longrightarrow> giPoints g1 = giPoints g"
  "sameButCode g g1 \<Longrightarrow> giHoldingState g1 = giHoldingState g"
  by (auto simp: sameButCode_def dest: arg_cong [of _ _ giPoints] arg_cong [of _ _ giHoldingState])

lemma CodeFromPoints_ok: "giPoints g \<noteq> [] \<Longrightarrow> CodeFromPoints tol a g = Some (GestureCode tol a (map peiPos (giPoints g)))"
  by (simp add: CodeFromPoints_def)

lemma NthLastEntry_ok: "giPoints g \<noteq> [] \<Longrightarrow> \<exists>e. NthLastEntry n g = Some e"
  by (simp add: NthLastEntry_def)

lemma IsMovementStopped_ok: "giPoints g \<noteq> [] \<Longrightarrow> \<exists>b. IsMovementStopped g = Some b"
  using NthLastEntry_ok [of g 1] by (auto simp: IsMovementStopped_def)

lemma gsSpeed_ok: "giPoints g \<noteq> [] \<Longrightarrow> \<exists>v. gsSpeed g = Some v"
  using NthLastEntry_ok [of g 1] NthLastEntry_ok [of g KPreviousPointOffset] IsMovementStopped_ok [of g]
  by (auto simp: gsSpeed_def Let_def)

definition isHoldCode :: "gesture_code \<Rightarrow> bool" where
  "isHoldCode c \<longleftrightarrow> (\<exists>d. c = EFlagHold d)"

lemma angleDirection_plain: "\<not> isHoldCode (angleDirection a)"
  by (simp add: isHoldCode_def angleDirection_def)

lemma GestureCode_plain: "\<not> isHoldCode (GestureCode tol a ps)"
  using angleDirection_plain by (auto simp: GestureCode_def GeneralDirection_def Let_def isHoldCode_def)

lemma gsCode_ok:
  assumes "giPoints g \<noteq> []"
  shows "\<exists>c g1. gsCode tol a g = Some (c, g1) \<and> sameButCode g g1 \<and> (giHoldingState g = ENotHolding \<longrightarrow> \<not> isHoldCode c)"
proof -
  have same: "sameButCode g g" "\<And>c. sameButCode g (g\<lparr>giPrevGestureCode := c\<rparr>)" by (simp_all add: sameButCode_def)
  note pts = CodeFromPoints_ok [OF assms, of tol a]
  show ?thesis
  proof (cases "giState g")
    case ENotComplete
    define c where "c = (if length (giPoints g) = 1 \<and> \<not> IsHolding g then EGestureStart
      else if giHoldingState g \<noteq> EHoldStarting then EGestureDrag else Hold (GestureCode tol a (map peiPos (giPoints g))))"
    have "gsCode tol a g = Some (c, g\<lparr>giPrevGestureCode := Some c\<rparr>)" using ENotComplete pts by (simp add: gsCode_def c_def)
    moreover have "giHoldingState g = ENotHolding \<Longrightarrow> \<not> isHoldCode c" by (simp add: c_def isHoldCode_def)
    ultimately show ?thesis using same by blast
  next
    case EComplete
    obtain b where b: "IsFlick g = Some b" using gsSpeed_ok [OF assms] by (auto simp: IsFlick_def)
    define d where "d = GestureCode tol a (map peiPos (giPoints g))"
    define c where "c = (if giIsDoubleTap g then EGestureDoubleTap else if giIsLongTap g then EGestureLongTap
      else if giPrevGestureCode g = Some EGestureDrag then (if b then EGestureFlick else if d = EGestureUnknown then EGestureDrop else d) else d)"
    have "gsCode tol a g = Some (c, g\<lparr>giPrevGestureCode := Some c\<rparr>)" using EComplete pts b
      by (cases b) (simp_all add: gsCode_def c_def d_def)
    moreover have "\<not> isHoldCode c" using GestureCode_plain [of tol a "map peiPos (giPoints g)"] by (simp add: c_def d_def isHoldCode_def)
    ultimately show ?thesis using same by blast
  qed (use same in \<open>auto simp: gsCode_def isHoldCode_def\<close>)
qed

text \<open>An event of a gesture that is not held.\<close>

definition plainEvent :: "gevent \<Rightarrow> bool" where
  "plainEvent e \<longleftrightarrow> \<not> evIsHolding e \<and> \<not> isHoldCode (evCode e)"

definition plainSender :: "sender \<Rightarrow> bool" where
  "plainSender s \<longleftrightarrow> (\<forall>e \<in> set (seEvents s). plainEvent e)"

lemma plain_AddEvent: "plainSender s \<Longrightarrow> plainEvent e \<Longrightarrow> plainSender (AddEvent e s)"
  by (simp add: plainSender_def AddEvent_def)

lemma EmitEvent_ok:
  assumes "giPoints g \<noteq> []" "giHoldingState g = ENotHolding" "plainSender s"
  obtains g1 s1 where "EmitEvent ge g s = Some (g1, s1)" "sameButCode g g1" "plainSender s1"
proof -
  obtain c g1 where c: "gsCode (geTol ge) EAxisBoth g = Some (c, g1)" "sameButCode g g1" "\<not> isHoldCode c"
    using gsCode_ok [OF assms(1)] assms(2) by blast
  have p: "giPoints g1 \<noteq> []" using sameButCode_dest [OF c(2)] assms(1) by simp
  obtain q where q: "StartPos g1 = Some q" using p by (simp add: StartPos_def)
  obtain v where v: "gsSpeed g1 = Some v" using gsSpeed_ok [OF p] by blast
  define e where "e = \<lparr>evCode = c, evCurrentPos = CurrentPos g1, evDistance = (fst (CurrentPos g1) - fst q, snd (CurrentPos g1) - snd q),
    evStartPos = q, evIsHolding = IsHolding g1, evSpeed = v\<rparr>"
  have "EmitEvent ge g s = Some (g1, AddEvent e s)" using c(1) q v by (simp add: EmitEvent_def gsDistance_def e_def)
  moreover have "plainEvent e" using sameButCode_dest [OF c(2)] c(3) assms(2) by (simp add: plainEvent_def e_def IsHolding_def)
  ultimately show thesis using that c(2) plain_AddEvent [OF assms(3)] by blast
qed

subsection \<open>The invariant\<close>

definition unheld :: "gesture \<Rightarrow> bool" where
  "unheld g \<longleftrightarrow> giHoldingState g = ENotHolding"

definition gest_ok :: "helper \<Rightarrow> bool" where
  "gest_ok h \<longleftrightarrow> (ghPreviousTap h = None \<longleftrightarrow> ghUnused h \<noteq> None) \<and>
     (tmActive (ghDoubleTapTimer h) \<longrightarrow> ghPreviousTap h \<noteq> None) \<and>
     (tmActive (ghLongTouchTimer h) \<longrightarrow> giPoints (ghGesture h) \<noteq> []) \<and> \<not> tmActive (ghHoldingTimer h) \<and>
     pred_option (\<lambda>g. giPoints g \<noteq> [] \<and> unheld g) (ghPreviousTap h) \<and> pred_option unheld (ghUnused h) \<and>
     unheld (ghGesture h) \<and> plainSender (ghSender h)"

lemma unheld_simps [simp]:
  "unheld (gsReset g)" "unheld (SetReleased g) = unheld g" "unheld (SetComplete t g) = unheld g" "unheld (SetCancelled g) = unheld g"
  "unheld (SetDoubleTap g) = unheld g" "unheld (SetLongTap b g) = unheld g"
  by (simp_all add: unheld_def gsReset_def SetReleased_def SetComplete_def SetCancelled_def SetDoubleTap_def SetLongTap_def)

lemma points_simps [simp]:
  "giPoints (SetReleased g) = giPoints g" "giPoints (SetComplete t g) = giPoints g" "giPoints (SetCancelled g) = giPoints g"
  "giPoints (SetDoubleTap g) = giPoints g" "giPoints (SetLongTap b g) = giPoints g"
  by (simp_all add: SetReleased_def SetComplete_def SetCancelled_def SetDoubleTap_def SetLongTap_def)

lemma timer_simps [simp]:
  "\<not> tmActive (tmCancel t)" "\<not> tmActive (tmSetEnabled b t)" "tmEnabled (tmCancel t) = tmEnabled t"
  "tmActive (tmStart t) \<longleftrightarrow> tmActive t \<or> tmEnabled t"
  by (simp_all add: tmCancel_def tmSetEnabled_def tmStart_def)

lemma AddPoint_unheld: "AddPoint ok p t g = (err, g1) \<Longrightarrow> unheld g1 = unheld g"
  by (auto simp: AddPoint_def unheld_def split: if_splits)

lemma AddPoint_points: "AddPoint ok p t g = (KErrNone, g1) \<Longrightarrow> giPoints g1 \<noteq> []"
  by (auto simp: AddPoint_def IsLatestPoint_def split: if_splits)

lemma AddPoint_grows: "AddPoint ok p t g = (err, g1) \<Longrightarrow> giPoints g \<noteq> [] \<Longrightarrow> giPoints g1 \<noteq> []"
  by (auto simp: AddPoint_def split: if_splits)

lemma AddPoint_room: "AddPoint True p t g = (err, g1) \<Longrightarrow> err = KErrNone"
  by (auto simp: AddPoint_def split: if_splits)

text \<open>Emitting the current gesture keeps the invariant, when it has points.\<close>

lemma emitCurrent_ok:
  assumes "gest_ok h" "giPoints (ghGesture h) \<noteq> []"
  obtains h1 where "emitCurrent ge h = Some h1" "gest_ok h1" "giPoints (ghGesture h1) \<noteq> []"
proof -
  have "giHoldingState (ghGesture h) = ENotHolding" "plainSender (ghSender h)" using assms(1) by (simp_all add: gest_ok_def unheld_def)
  from EmitEvent_ok [OF assms(2) this, of ge] obtain g1 s1 where
    g: "EmitEvent ge (ghGesture h) (ghSender h) = Some (g1, s1)" "sameButCode (ghGesture h) g1" "plainSender s1" .
  then have "emitCurrent ge h = Some (h\<lparr>ghGesture := g1, ghSender := s1\<rparr>)" by (simp add: emitCurrent_def)
  moreover have "gest_ok (h\<lparr>ghGesture := g1, ghSender := s1\<rparr>)" using assms g sameButCode_dest [OF g(2)] by (auto simp: gest_ok_def unheld_def)
  ultimately show thesis using that assms(2) sameButCode_dest [OF g(2)] by simp
qed

lemma gest_ok_gesture: "gest_ok h \<Longrightarrow> unheld g \<Longrightarrow> giPoints g \<noteq> [] \<Longrightarrow> gest_ok (h\<lparr>ghGesture := g\<rparr>)"
  by (auto simp: gest_ok_def)

lemma CompleteAndEmit_ok:
  assumes "giPoints g \<noteq> []" "unheld g" "plainSender s"
  obtains g1 s1 where "CompleteAndEmit ge g s = Some (g1, s1)" "giPoints g1 \<noteq> []" "unheld g1" "plainSender s1"
proof -
  have u: "\<not> IsHolding g" using assms(2) by (simp add: IsHolding_def unheld_def)
  have 1: "giPoints (SetComplete (geDone ge) g) \<noteq> []" "giHoldingState (SetComplete (geDone ge) g) = ENotHolding"
    using assms(1,2) by (simp_all add: unheld_def SetComplete_def)
  from EmitEvent_ok [OF this assms(3), of ge] obtain g1 s1 where
    g1: "EmitEvent ge (SetComplete (geDone ge) g) s = Some (g1, s1)" "sameButCode (SetComplete (geDone ge) g) g1" "plainSender s1" .
  have 2: "giPoints (SetReleased g1) \<noteq> []" "giHoldingState (SetReleased g1) = ENotHolding"
    using 1 sameButCode_dest [OF g1(2)] by (simp_all add: SetReleased_def)
  from EmitEvent_ok [OF this g1(3), of ge] obtain g2 s2 where
    g2: "EmitEvent ge (SetReleased g1) s1 = Some (g2, s2)" "sameButCode (SetReleased g1) g2" "plainSender s2" .
  show thesis using that [of g2 s2] g1 g2 u 2 sameButCode_dest [OF g2(2)] by (simp add: CompleteAndEmit_def unheld_def)
qed

lemma recyclePrevious_ok: "gest_ok h \<Longrightarrow> \<not> tmActive (ghDoubleTapTimer h) \<Longrightarrow> gest_ok (recyclePrevious h)"
  by (auto simp: gest_ok_def recyclePrevious_def split: option.splits)

lemma recyclePrevious_simps [simp]:
  "ghGesture (recyclePrevious h) = ghGesture h" "ghSender (recyclePrevious h) = ghSender h"
  "ghDoubleTapTimer (recyclePrevious h) = ghDoubleTapTimer h" "ghLongTouchTimer (recyclePrevious h) = ghLongTouchTimer h"
  "ghHoldingTimer (recyclePrevious h) = ghHoldingTimer h"
  by (simp_all add: recyclePrevious_def split: option.split)

lemma EmitFirstTapEvent_ok:
  assumes "gest_ok h" "ghPreviousTap h \<noteq> None"
  obtains h1 where "EmitFirstTapEvent ge h = Some h1" "gest_ok h1" "ghGesture h1 = ghGesture h"
proof -
  obtain g where g: "ghPreviousTap h = Some g" "giPoints g \<noteq> []" "unheld g" using assms by (auto simp: gest_ok_def)
  have "plainSender (ghSender h)" using assms(1) by (simp add: gest_ok_def)
  from CompleteAndEmit_ok [OF g(2,3) this, of ge] obtain g1 s1 where
    e: "CompleteAndEmit ge g (ghSender h) = Some (g1, s1)" "giPoints g1 \<noteq> []" "unheld g1" "plainSender s1" .
  let ?h = "h\<lparr>ghDoubleTapTimer := tmCancel (ghDoubleTapTimer h), ghPreviousTap := Some g1, ghSender := s1\<rparr>"
  have "EmitFirstTapEvent ge h = Some (recyclePrevious ?h)" using g(1) e(1) by (simp add: EmitFirstTapEvent_def)
  moreover have "gest_ok ?h" using assms(1) g(1) e by (simp add: gest_ok_def)
  then have "gest_ok (recyclePrevious ?h)" by (rule recyclePrevious_ok) simp
  ultimately show thesis using that by simp
qed

subsection \<open>The handlers\<close>

lemma ghAddPoint_ok:
  assumes "gest_ok h" "ghAddPoint ge p h = (err, h1)"
  shows "gest_ok h1" "err = KErrNone \<Longrightarrow> giPoints (ghGesture h1) \<noteq> []" "gePoint ge \<Longrightarrow> err = KErrNone"
    "ghDoubleTapTimer h1 = ghDoubleTapTimer h" "ghPreviousTap h1 = ghPreviousTap h"
proof -
  obtain g where g: "AddPoint (gePoint ge) p (ghLastEventTime h) (ghGesture h) = (err, g)" "h1 = h\<lparr>ghGesture := g\<rparr>"
    using assms(2) by (auto simp: ghAddPoint_def split: prod.splits)
  show "gest_ok h1" using assms(1) AddPoint_unheld [OF g(1)] AddPoint_grows [OF g(1)] g(2) by (auto simp: gest_ok_def)
  show "err = KErrNone \<Longrightarrow> giPoints (ghGesture h1) \<noteq> []" using AddPoint_points g by auto
  show "gePoint ge \<Longrightarrow> err = KErrNone" using AddPoint_room g(1) by (cases "gePoint ge") auto
  show "ghDoubleTapTimer h1 = ghDoubleTapTimer h" "ghPreviousTap h1 = ghPreviousTap h" using g(2) by simp_all
qed

lemma EmitCancelEvent_ok:
  assumes "gest_ok h" "ghPreviousTap h \<noteq> None \<or> giPoints (ghGesture h) \<noteq> []"
  shows "\<exists>h1. EmitCancelEvent ge h = Some h1 \<and> gest_ok h1"
proof (cases "ghPreviousTap h")
  case None
  let ?h = "h\<lparr>ghDoubleTapTimer := tmCancel (ghDoubleTapTimer h), ghGesture := SetCancelled (ghGesture h)\<rparr>"
  have "gest_ok ?h" using assms(1) by (auto simp: gest_ok_def)
  moreover have "giPoints (ghGesture ?h) \<noteq> []" using assms(2) None by simp
  ultimately obtain h1 where "emitCurrent ge ?h = Some h1" "gest_ok h1" using emitCurrent_ok by blast
  then show ?thesis using None by (simp add: EmitCancelEvent_def Let_def)
next
  case (Some g)
  then have g: "giPoints (SetCancelled g) \<noteq> []" "giHoldingState (SetCancelled g) = ENotHolding" "plainSender (ghSender h)"
    using assms(1) by (auto simp: gest_ok_def unheld_def SetCancelled_def)
  obtain g1 s1 where e: "EmitEvent ge (SetCancelled g) (ghSender h) = Some (g1, s1)" "sameButCode (SetCancelled g) g1" "plainSender s1"
    using EmitEvent_ok [OF g] by blast
  let ?h = "h\<lparr>ghDoubleTapTimer := tmCancel (ghDoubleTapTimer h), ghPreviousTap := Some g1, ghSender := s1\<rparr>"
  have "gest_ok ?h" using assms(1) Some e(3) sameButCode_dest [OF e(2)] g by (auto simp: gest_ok_def unheld_def)
  then have "gest_ok (recyclePrevious ?h)" by (rule recyclePrevious_ok) simp
  then show ?thesis using Some e(1) by (simp add: EmitCancelEvent_def Let_def)
qed

lemma gest_ok_timers:
  "gest_ok h \<Longrightarrow> gest_ok (h\<lparr>ghDoubleTapTimer := tmCancel t, ghLongTouchTimer := tmCancel u\<rparr>)"
  "gest_ok h \<Longrightarrow> gest_ok (h\<lparr>ghLongTouchTimer := tmCancel u, ghDoubleTapTimer := tmCancel t\<rparr>)"
  by (auto simp: gest_ok_def)

lemma HandleMoveL_ok:
  assumes "gest_ok h"
  shows "\<exists>err h1. HandleMoveL ge p h = Some (err, h1) \<and> gest_ok h1"
proof (cases "IsLatestPoint p (ghGesture h)")
  case False
  let ?h = "h\<lparr>ghDoubleTapTimer := tmCancel (ghDoubleTapTimer h), ghLongTouchTimer := tmCancel (ghLongTouchTimer h)\<rparr>"
  obtain err h1 where a: "ghAddPoint ge p ?h = (err, h1)" by (cases "ghAddPoint ge p ?h")
  note ok = ghAddPoint_ok [OF gest_ok_timers(1) [OF assms] a]
  have r: "gest_ok (recyclePrevious h1)" by (rule recyclePrevious_ok [OF ok(1)]) (simp add: ok(4))
  show ?thesis
  proof (cases "err = KErrNone \<and> \<not> IsEmpty (ghGesture h)")
    case True
    then have "giPoints (ghGesture (recyclePrevious h1)) \<noteq> []" using ok(2) by simp
    then obtain h2 where "emitCurrent ge (recyclePrevious h1) = Some h2" "gest_ok h2" using emitCurrent_ok [OF r] by blast
    then show ?thesis using True False a by (simp add: HandleMoveL_def Let_def)
  next
    case n: False
    then show ?thesis using False a ok(1) r by (auto simp: HandleMoveL_def Let_def)
  qed
qed (use assms in \<open>simp add: HandleMoveL_def\<close>)

lemma HandleTouchDownL_ok:
  assumes "gest_ok h" "gePoint ge"
  shows "\<exists>err h1. HandleTouchDownL ge p h = Some (err, h1) \<and> gest_ok h1"
proof (cases "giPrevGestureCode (ghGesture h) = Some EGestureStart")
  case False
  define h0 where "h0 = (if giPrevGestureCode (ghGesture h) = Some EGestureDrag then h\<lparr>ghGesture := gsReset (ghGesture h)\<rparr> else h)"
  obtain g where g: "AddPoint True p (ghLastEventTime h0) (ghGesture h0) = (KErrNone, g)" using AddPoint_room by (metis surj_pair)
  define h1 where "h1 = h0\<lparr>ghGesture := g\<rparr>"
  have a: "ghAddPoint ge p h0 = (KErrNone, h1)" using g assms(2) by (simp add: ghAddPoint_def h1_def)
  have "unheld g" using AddPoint_unheld [OF g] assms(1) by (auto simp: gest_ok_def h0_def)
  then have h1: "gest_ok h1" "giPoints (ghGesture h1) \<noteq> []" using assms(1) AddPoint_points [OF g] by (auto simp: gest_ok_def h0_def h1_def)
  define h3 where "h3 = (if tmActive (ghLongTouchTimer h1) then h1 else h1\<lparr>ghLongTouchTimer := tmStart (ghLongTouchTimer h1)\<rparr>)"
  have p: "giPoints (ghGesture h3) \<noteq> []" using h1(2) by (simp add: h3_def)
  have h3: "gest_ok h3" using h1 by (auto simp: gest_ok_def h3_def)
  then obtain h4 where "emitCurrent ge h3 = Some h4" "gest_ok h4" using emitCurrent_ok p by blast
  then show ?thesis using False a h3
    unfolding HandleTouchDownL_def h0_def [symmetric] by (simp add: Let_def h3_def [symmetric])
qed (use assms in \<open>simp add: HandleTouchDownL_def\<close>)

lemma HandleTouchUp_ok:
  assumes "gest_ok h" "giPoints (ghGesture h) \<noteq> []"
  shows "\<exists>h1. HandleTouchUp ge h = Some h1 \<and> gest_ok h1"
proof -
  define h1 where "h1 = h\<lparr>ghLongTouchTimer := tmCancel (ghLongTouchTimer h), ghDoubleTapTimer := tmCancel (ghDoubleTapTimer h)\<rparr>"
  have h1: "gest_ok h1" "giPoints (ghGesture h1) \<noteq> []" "\<not> tmActive (ghDoubleTapTimer h1)" "\<not> tmActive (ghLongTouchTimer h1)"
    using gest_ok_timers(2) [OF assms(1)] assms(2) by (simp_all add: h1_def)
  let ?prev = "giPrevGestureCode (ghGesture h)" and ?now = "ghLastEventTime h"
  consider "?prev = Some EGestureLongTap"
    | "?prev \<noteq> Some EGestureLongTap" "IsMovementGesture ?prev \<or> \<not> tmEnabled (ghDoubleTapTimer h1)"
    | "?prev \<noteq> Some EGestureLongTap" "\<not> (IsMovementGesture ?prev \<or> \<not> tmEnabled (ghDoubleTapTimer h1))" by blast
  then show ?thesis
  proof cases
    case 1
    let ?h = "h1\<lparr>ghGesture := SetReleased (SetComplete (geDone ge) (ghGesture h1))\<rparr>"
    have "gest_ok ?h" using h1 by (intro gest_ok_gesture) (auto simp: gest_ok_def)
    then obtain h2 where "emitCurrent ge ?h = Some h2" "gest_ok h2" using emitCurrent_ok [of ?h] h1(2) by auto
    then show ?thesis using 1 unfolding HandleTouchUp_def h1_def [symmetric] by (simp add: Let_def EmitReleasedEvent_def)
  next
    case 2
    let ?h = "h1\<lparr>ghGesture := SetComplete (geDone ge) (ghGesture h1)\<rparr>"
    have "gest_ok ?h" using h1 by (intro gest_ok_gesture) (auto simp: gest_ok_def)
    then obtain h2 where "emitCurrent ge ?h = Some h2" "gest_ok h2" using emitCurrent_ok [of ?h] h1(2) by auto
    then show ?thesis using 2 unfolding HandleTouchUp_def h1_def [symmetric] by (simp add: Let_def)
  next
    case 3
    let ?double = "ghPreviousTap h1 \<noteq> None \<and> ?now - ghLastTouchUpTime h > KDoubleTapMinActivationInterval \<and>
      ?now - ghLastTouchUpTime h < KDoubleTapMaxActivationInterval \<and> ?now - ghLastDoubleTapTime h > KDoubleTapIdleInterval"
    show ?thesis
    proof (cases ?double)
      case True
      then obtain g where g: "ghPreviousTap h1 = Some g" by blast
      let ?h = "h1\<lparr>ghLastTouchUpTime := ?now, ghLastDoubleTapTime := ?now, ghPreviousTap := Some (SetDoubleTap g)\<rparr>"
      have "gest_ok ?h" using h1(1) g by (auto simp: gest_ok_def)
      then obtain h2 where "EmitFirstTapEvent ge ?h = Some h2" "gest_ok h2" using EmitFirstTapEvent_ok [of ?h] by auto
      then show ?thesis using 3 True g unfolding HandleTouchUp_def h1_def [symmetric] by (simp add: Let_def EmitDoubleTapEvent_def)
    next
      case False
      let ?r = "recyclePrevious (h1\<lparr>ghLastTouchUpTime := ?now\<rparr>)"
      have r: "gest_ok ?r" using h1 by (intro recyclePrevious_ok) (auto simp: gest_ok_def)
      have none: "ghPreviousTap ?r = None" by (simp add: recyclePrevious_def split: option.split)
      then obtain u where u: "ghUnused ?r = Some u" using r by (auto simp: gest_ok_def)
      let ?h = "?r\<lparr>ghPreviousTap := Some (ghGesture h1), ghUnused := None, ghGesture := gsReset u, ghDoubleTapTimer := tmStart (ghDoubleTapTimer ?r)\<rparr>"
      have "gest_ok ?h" using r h1 by (auto simp: gest_ok_def)
      then show ?thesis using 3 False u unfolding HandleTouchUp_def h1_def [symmetric] by (auto simp: Let_def NewGesture_def)
    qed
  qed
qed

lemma HandleLongTouch_ok:
  assumes "gest_ok h" "giPoints (ghGesture h) \<noteq> []" "\<not> tmActive (ghLongTouchTimer h)"
  shows "\<exists>h1. HandleLongTouch ge h = Some h1 \<and> gest_ok h1"
proof -
  let ?h = "h\<lparr>ghDoubleTapTimer := tmCancel (ghDoubleTapTimer h), ghGesture := SetComplete (geDone ge) (SetLongTap True (ghGesture h))\<rparr>"
  have h: "gest_ok ?h" using assms by (auto simp: gest_ok_def)
  have ne: "giPoints (ghGesture ?h) \<noteq> []" using assms(2) by simp
  obtain q where q: "StartPos (ghGesture ?h) = Some q" using ne unfolding StartPos_def by simp
  obtain h2 where h2: "emitCurrent ge ?h = Some h2" "gest_ok h2" using emitCurrent_ok [OF h ne] by blast
  have lt: "\<not> tmActive (ghLongTouchTimer h2)" using h2(1) assms(3) by (auto simp: emitCurrent_def)
  let ?r = "h2\<lparr>ghGesture := gsReset (ghGesture h2)\<rparr>"
  have "gest_ok ?r" using h2(2) lt by (auto simp: gest_ok_def)
  then have "gest_ok (snd (ghAddPoint ge q ?r))" using ghAddPoint_ok(1) by (metis surjective_pairing)
  then show ?thesis using q h2(1) by (simp add: HandleLongTouch_def Let_def)
qed

subsection \<open>Steps\<close>

lemma gest_ok_reset: "gest_ok h \<Longrightarrow> gest_ok (ghReset h)"
  by (auto simp: gest_ok_def ghReset_def)

lemma gest_ok_sender: "gest_ok h \<Longrightarrow> plainSender s \<Longrightarrow> gest_ok (h\<lparr>ghSender := s\<rparr>)"
  by (auto simp: gest_ok_def)

lemma seRunL_plain: "plainSender s \<Longrightarrow> seRunL leaves s = (out, s1) \<Longrightarrow> plainSender s1 \<and> (\<forall>e \<in> set out. plainEvent e)"
  by (auto simp: plainSender_def seRunL_def Let_def split: if_splits dest!: set_takeWhileD in_set_takeD set_dropWhileD)

lemma ghPointerEventL_ok:
  assumes "gest_ok h" "gePoint ge"
  shows "\<exists>err taken h1. ghPointerEventL ge t p h = Some (err, taken, h1) \<and> gest_ok h1"
proof -
  obtain b r f where f: "FilterDrag (geTol ge) t p (geNow ge) (ghFilter h) = ((b, r), f)" by (metis surj_pair)
  define h0 where "h0 = h\<lparr>ghLastEventTime := geNow ge, ghFilter := f\<rparr>"
  have h0: "gest_ok h0" using assms(1) by (auto simp: gest_ok_def h0_def)
  have "\<exists>err h1. handleUnfiltered ge t p h0 = Some (err, h1) \<and> gest_ok h1"
  proof (cases t)
    case GButton1Up
    obtain err h1 where a: "ghAddPoint ge p h0 = (err, h1)" by (cases "ghAddPoint ge p h0")
    note ok = ghAddPoint_ok [OF h0 a]
    have e: "err = KErrNone" using ok(3) assms(2) by simp
    obtain h2 where "HandleTouchUp ge h1 = Some h2" "gest_ok h2" using HandleTouchUp_ok [OF ok(1) ok(2) [OF e]] by blast
    then show ?thesis using GButton1Up a e gest_ok_reset by (simp add: handleUnfiltered_def Let_def)
  qed (use HandleTouchDownL_ok [OF h0 assms(2)] HandleMoveL_ok [OF h0] h0 in \<open>auto simp: handleUnfiltered_def\<close>)
  then show ?thesis using f h0 by (cases b) (auto simp: ghPointerEventL_def Let_def h0_def)
qed

text \<open>There is memory for the points.\<close>

definition roomyOp :: "gest_op \<Rightarrow> bool" where
  "roomyOp a \<longleftrightarrow> (case a of PointerEvent ge t p \<Rightarrow> gePoint ge | _ \<Rightarrow> True)"

lemma gest_step:
  assumes "gest_ok h" "roomyOp a"
  shows "\<exists>out h1. runGestOp a h = Some (out, h1) \<and> gest_ok h1 \<and> (\<forall>e \<in> set out. plainEvent e)"
proof (cases a)
  case (PointerEvent ge t p)
  then have "gePoint ge" using assms(2) by (simp add: roomyOp_def)
  from ghPointerEventL_ok [OF assms(1) this, of t p] show ?thesis using PointerEvent by auto
next
  case (DoubleTapTimeout ge)
  show ?thesis
  proof (cases "tmActive (ghDoubleTapTimer h)")
    case True
    let ?h = "h\<lparr>ghDoubleTapTimer := tmCancel (ghDoubleTapTimer h)\<rparr>"
    have "gest_ok ?h" "ghPreviousTap ?h \<noteq> None" using assms(1) True by (auto simp: gest_ok_def)
    then obtain h1 where "EmitFirstTapEvent ge ?h = Some h1" "gest_ok h1" using EmitFirstTapEvent_ok [of ?h ge] by blast
    then show ?thesis using DoubleTapTimeout True by simp
  qed (use assms DoubleTapTimeout in simp)
next
  case (LongTouchTimeout ge)
  show ?thesis
  proof (cases "tmActive (ghLongTouchTimer h)")
    case True
    let ?h = "h\<lparr>ghLongTouchTimer := tmCancel (ghLongTouchTimer h)\<rparr>"
    have "gest_ok ?h" "giPoints (ghGesture ?h) \<noteq> []" "\<not> tmActive (ghLongTouchTimer ?h)" using assms(1) True by (auto simp: gest_ok_def)
    then obtain h1 where "HandleLongTouch ge ?h = Some h1" "gest_ok h1" using HandleLongTouch_ok [of ?h ge] by blast
    then show ?thesis using LongTouchTimeout True by simp
  qed (use assms LongTouchTimeout in simp)
next
  case (SenderRun leaves)
  obtain out s where r: "seRunL leaves (ghSender h) = (out, s)" by (cases "seRunL leaves (ghSender h)")
  have "plainSender (ghSender h)" using assms(1) by (simp add: gest_ok_def)
  from seRunL_plain [OF this r] show ?thesis using SenderRun r gest_ok_sender [OF assms(1)] assms(1) by (auto simp: Let_def)
next
  case (EnableDoubleTap b)
  then show ?thesis using assms(1) by (auto simp: gest_ok_def SetDoubleTapEnabled_def)
next
  case (EnableHolding b)
  then show ?thesis using assms(1) by (auto simp: gest_ok_def SetHoldingEnabled_def)
qed (use assms gest_ok_reset in \<open>auto simp: gest_ok_def\<close>)

inductive gest_reachable :: "helper \<Rightarrow> bool" where
  gest_start: "gest_reachable ghNewL"
| gest_next: "gest_reachable h \<Longrightarrow> roomyOp a \<Longrightarrow> runGestOp a h = Some (out, h1) \<Longrightarrow> gest_reachable h1"

lemma gest_reachable_ok: "gest_reachable h \<Longrightarrow> gest_ok h"
proof (induction rule: gest_reachable.induct)
  case gest_start
  then show ?case by (simp add: gest_ok_def ghNewL_def unheld_def newGesture_def plainSender_def newSender_def)
next
  case (gest_next h a out h1)
  then show ?case using gest_step [OF gest_next.IH gest_next.hyps(2)] by auto
qed

text \<open>
  C15: As long as there is memory for the points, no sequence of pointer events, timeouts, settings and
  deliveries makes the helper use a gesture or a point that is not there; the pool holds a gesture exactly
  when no tap waits; and no event is ever one of holding, although holding can be enabled.
\<close>

theorem gestures_are_safe:
  assumes "gest_reachable h" and "roomyOp a"
  shows "\<exists>out h1. runGestOp a h = Some (out, h1) \<and> (ghPreviousTap h1 = None \<longleftrightarrow> ghUnused h1 \<noteq> None) \<and> (\<forall>e \<in> set out. plainEvent e)"
  using gest_step [OF gest_reachable_ok [OF assms(1)] assms(2)] by (auto simp: gest_ok_def)

subsection \<open>The queue\<close>

text \<open>Between two deliveries events are only added.\<close>

definition adds :: "sender \<Rightarrow> sender \<Rightarrow> bool" where
  "adds s s1 \<longleftrightarrow> (\<exists>es. s1 = fold AddEvent es s)"

lemma adds_refl [simp]: "adds s s"
  unfolding adds_def by (rule exI [of _ "[]"]) simp

lemma adds_trans: "adds s s1 \<Longrightarrow> adds s1 s2 \<Longrightarrow> adds s s2"
  unfolding adds_def by (metis fold_append comp_apply)

lemma EmitEvent_adds: "EmitEvent ge g s = Some (g1, s1) \<Longrightarrow> adds s s1"
  unfolding adds_def EmitEvent_def by (auto simp: bind_eq_Some_conv intro: exI [of _ "[_]"])

lemma emitCurrent_adds: "emitCurrent ge h = Some h1 \<Longrightarrow> adds (ghSender h) (ghSender h1)"
  by (auto simp: emitCurrent_def dest: EmitEvent_adds)

lemma CompleteAndEmit_adds: "CompleteAndEmit ge g s = Some (g1, s1) \<Longrightarrow> adds s s1"
  by (auto simp: CompleteAndEmit_def bind_eq_Some_conv split: if_splits dest!: EmitEvent_adds intro: adds_trans)

lemma EmitFirstTapEvent_adds: "EmitFirstTapEvent ge h = Some h1 \<Longrightarrow> adds (ghSender h) (ghSender h1)"
  by (auto simp: EmitFirstTapEvent_def bind_eq_Some_conv dest: CompleteAndEmit_adds)

lemma ghAddPoint_sender: "ghSender (snd (ghAddPoint ge p h)) = ghSender h"
  by (simp add: ghAddPoint_def split: prod.split)

lemma EmitCancelEvent_adds: "EmitCancelEvent ge h = Some h1 \<Longrightarrow> adds (ghSender h) (ghSender h1)"
  by (auto simp: EmitCancelEvent_def Let_def split: option.splits dest!: emitCurrent_adds EmitEvent_adds)

lemma HandleTouchUp_adds: "HandleTouchUp ge h = Some h1 \<Longrightarrow> adds (ghSender h) (ghSender h1)"
  by (auto simp: HandleTouchUp_def Let_def EmitReleasedEvent_def EmitDoubleTapEvent_def NewGesture_def bind_eq_Some_conv
    split: if_splits option.splits dest!: emitCurrent_adds EmitFirstTapEvent_adds)

lemma HandleTouchDownL_adds:
  assumes "HandleTouchDownL ge p h = Some (err, h1)"
  shows "adds (ghSender h) (ghSender h1)"
proof -
  define h0 where "h0 = (if giPrevGestureCode (ghGesture h) = Some EGestureDrag then h\<lparr>ghGesture := gsReset (ghGesture h)\<rparr> else h)"
  obtain e h2 where a: "ghAddPoint ge p h0 = (e, h2)" by (cases "ghAddPoint ge p h0")
  have s: "ghSender h2 = ghSender h" using ghAddPoint_sender [of ge p h0] a by (simp add: h0_def)
  show ?thesis using assms a s unfolding HandleTouchDownL_def h0_def [symmetric]
    by (auto simp: Let_def split: if_splits dest!: emitCurrent_adds)
qed

lemma HandleMoveL_adds:
  assumes "HandleMoveL ge p h = Some (err, h1)"
  shows "adds (ghSender h) (ghSender h1)"
proof -
  let ?h = "h\<lparr>ghDoubleTapTimer := tmCancel (ghDoubleTapTimer h), ghLongTouchTimer := tmCancel (ghLongTouchTimer h)\<rparr>"
  obtain e h2 where a: "ghAddPoint ge p ?h = (e, h2)" by (cases "ghAddPoint ge p ?h")
  have s: "ghSender h2 = ghSender h" using ghAddPoint_sender [of ge p ?h] a by simp
  show ?thesis using assms a s by (auto simp: HandleMoveL_def Let_def split: if_splits dest!: emitCurrent_adds)
qed

lemma ghPointerEventL_adds:
  assumes "ghPointerEventL ge t p h = Some (err, taken, h1)"
  shows "adds (ghSender h) (ghSender h1)"
proof -
  obtain b r f where f: "FilterDrag (geTol ge) t p (geNow ge) (ghFilter h) = ((b, r), f)" by (metis surj_pair)
  define h0 where "h0 = h\<lparr>ghLastEventTime := geNow ge, ghFilter := f\<rparr>"
  have s: "ghSender h0 = ghSender h" by (simp add: h0_def)
  obtain e h2 where a: "ghAddPoint ge p h0 = (e, h2)" by (cases "ghAddPoint ge p h0")
  have s2: "ghSender h2 = ghSender h" using ghAddPoint_sender [of ge p h0] a s by simp
  have r: "ghSender (ghReset x) = ghSender x" for x by (simp add: ghReset_def)
  have "handleUnfiltered ge t p h0 = Some (err, x) \<Longrightarrow> adds (ghSender h) (ghSender x)" for x err
    using s s2 r a
    by (cases t) (auto simp: handleUnfiltered_def Let_def split: if_splits dest!: HandleTouchDownL_adds HandleMoveL_adds HandleTouchUp_adds EmitCancelEvent_adds)
  then show ?thesis using assms f s unfolding ghPointerEventL_def by (auto simp: Let_def h0_def [symmetric] split: if_splits)
qed

lemma HandleLongTouch_adds: "HandleLongTouch ge h = Some h1 \<Longrightarrow> adds (ghSender h) (ghSender h1)"
  by (auto simp: HandleLongTouch_def Let_def bind_eq_Some_conv ghAddPoint_sender dest!: emitCurrent_adds)

lemma StartHoldingL_adds: "StartHoldingL ge h = Some h1 \<Longrightarrow> adds (ghSender h) (ghSender h1)"
  by (auto simp: StartHoldingL_def dest!: emitCurrent_adds)

lemma gest_op_adds:
  assumes "runGestOp a h = Some (out, h1)" "\<And>leaves. a \<noteq> SenderRun leaves"
  shows "out = [] \<and> adds (ghSender h) (ghSender h1)"
  using assms by (cases a) (auto simp: SetHoldingEnabled_def SetDoubleTapEnabled_def ghReset_def split: if_splits
    dest!: ghPointerEventL_adds EmitFirstTapEvent_adds StartHoldingL_adds HandleLongTouch_adds)

lemma fold_AddEvent_busy: "seState s = EBusy \<Longrightarrow> seState (fold AddEvent es s) = EBusy"
  by (induction es arbitrary: s) (simp_all add: AddEvent_def)

lemma busy_op:
  assumes "seState (ghSender h) = EBusy" "runGestOp a h = Some (out, h1)"
  shows "out = [] \<and> seState (ghSender h1) = EBusy"
proof (cases "\<exists>leaves. a = SenderRun leaves")
  case True
  then show ?thesis using assms by (auto simp: seRunL_def Let_def split: if_splits)
next
  case False
  then show ?thesis using gest_op_adds [OF assms(2)] fold_AddEvent_busy [OF assms(1)] by (auto simp: adds_def)
qed

lemma busy_ops: "seState (ghSender h) = EBusy \<Longrightarrow> runGestOps as h = Some (out, h1) \<Longrightarrow> out = []"
proof (induction as arbitrary: h out)
  case (Cons a as)
  then obtain o1 h2 o2 where r: "runGestOp a h = Some (o1, h2)" "runGestOps as h2 = Some (o2, h1)" "out = o1 @ o2"
    by (auto simp: bind_eq_Some_conv)
  then show ?case using busy_op [OF Cons.prems(1) r(1)] Cons.IH by auto
qed simp

text \<open>
  C37: After the observer has left once, in handling any gesture event, no gesture event is delivered to it any
  more, whatever the user does: the queue keeps the state it had while the observer was called.
\<close>

theorem gestures_stop_after_leave:
  assumes "seState (ghSender h) = EEventsReady" and "e \<in> set (seEvents (ghSender h))" and "leaves e"
    and "runGestOps (SenderRun leaves # as) h = Some (out, h1)" and "seActive (ghSender h)"
  shows "length out \<le> length (seEvents (ghSender h)) \<and> (\<forall>d \<in> set (butlast out). \<not> leaves d) \<and> leaves (last out)"
proof -
  let ?q = "seEvents (ghSender h)"
  have ex: "\<exists>e \<in> set ?q. leaves e" using assms(2,3) by blast
  obtain s where s: "seRunL leaves (ghSender h) = (takeWhile (\<lambda>e. \<not> leaves e) ?q @ take 1 (dropWhile (\<lambda>e. \<not> leaves e) ?q), s)" "seState s = EBusy"
    using assms(1) ex by (simp add: seRunL_def)
  have "runGestOp (SenderRun leaves) h = Some (takeWhile (\<lambda>e. \<not> leaves e) ?q @ take 1 (dropWhile (\<lambda>e. \<not> leaves e) ?q), h\<lparr>ghSender := s\<rparr>)"
    using assms(5) s(1) by simp
  then obtain o2 where o2: "out = (takeWhile (\<lambda>e. \<not> leaves e) ?q @ take 1 (dropWhile (\<lambda>e. \<not> leaves e) ?q)) @ o2" "runGestOps as (h\<lparr>ghSender := s\<rparr>) = Some (o2, h1)"
    using assms(4) by (auto simp: bind_eq_Some_conv)
  have "o2 = []" using busy_ops [OF _ o2(2)] s(2) by simp
  moreover obtain d ds where d: "dropWhile (\<lambda>e. \<not> leaves e) ?q = d # ds" using ex by (cases "dropWhile (\<lambda>e. \<not> leaves e) ?q") (auto simp: dropWhile_eq_Nil_conv)
  then have "leaves d" using hd_dropWhile [of "\<lambda>e. \<not> leaves e" ?q] by simp
  moreover have "length (takeWhile (\<lambda>e. \<not> leaves e) ?q) + length (dropWhile (\<lambda>e. \<not> leaves e) ?q) = length ?q"
    by (metis length_append takeWhile_dropWhile_id)
  ultimately show ?thesis using o2(1) d by (auto dest: set_takeWhileD)
qed

subsection \<open>Witnesses\<close>

definition roomyEnv :: gest_env where
  "roomyEnv = \<lparr>geTol = 10, geNow = 1000000, geDone = 1000000, gePoint = True\<rparr>"

theorem gestures_are_safe_witness:
  "\<exists>out h1. runGestOp (PointerEvent roomyEnv GButton1Down (5, 5)) ghNewL = Some (out, h1) \<and> (ghPreviousTap h1 = None \<longleftrightarrow> ghUnused h1 \<noteq> None) \<and> list_all plainEvent out"
  unfolding list_all_iff by (rule gestures_are_safe [OF gest_start]) (simp add: roomyOp_def roomyEnv_def)

definition oneEvent :: gevent where
  "oneEvent = \<lparr>evCode = EGestureTap, evCurrentPos = (5, 5), evDistance = (0, 0), evStartPos = (5, 5), evIsHolding = False, evSpeed = (0, 0)\<rparr>"

definition readyHelper :: helper where
  "readyHelper = ghNewL\<lparr>ghSender := AddEvent oneEvent newSender\<rparr>"

theorem gestures_stop_after_leave_witness:
  "\<exists>out h1. runGestOps [SenderRun (\<lambda>_. True), CancelGesture] readyHelper = Some (out, h1) \<and> length out \<le> length (seEvents (ghSender readyHelper)) \<and> out = [oneEvent]"
proof -
  have s: "ghSender readyHelper = \<lparr>seEvents = [oneEvent], seState = EEventsReady, seActive = True, seRoom = []\<rparr>"
    by (simp add: readyHelper_def AddEvent_def newSender_def)
  have run: "runGestOps [SenderRun (\<lambda>_. True), CancelGesture] readyHelper = Some ([oneEvent], ghReset (readyHelper\<lparr>ghSender := (ghSender readyHelper)\<lparr>seEvents := [], seState := EBusy, seActive := False\<rparr>\<rparr>))"
    by (simp add: s seRunL_def Let_def)
  have "length [oneEvent] \<le> length (seEvents (ghSender readyHelper)) \<and> (\<forall>d \<in> set (butlast [oneEvent]). \<not> (\<lambda>_. True) d) \<and> (\<lambda>_. True) (last [oneEvent])"
    by (rule gestures_stop_after_leave [where leaves = "\<lambda>_. True" and e = oneEvent, OF _ _ _ run]) (simp_all add: s)
  then show ?thesis using run by blast
qed

end
