(* ===== verification/GestureRun.thy ===== *)
theory GestureRun
  imports GestureSpec
begin

text \<open>
  Whole gestures: taps, double taps, the events that a touch loses after a tap was followed by a movement, and
  the directions of swipes.
\<close>

subsection \<open>Directions\<close>

primrec oppositeCode :: "gesture_code \<Rightarrow> gesture_code" where
  "oppositeCode EGestureStart = EGestureStart" | "oppositeCode EGestureDrag = EGestureDrag" | "oppositeCode EGestureReleased = EGestureReleased"
| "oppositeCode EGestureUnknown = EGestureUnknown" | "oppositeCode EGestureTap = EGestureTap" | "oppositeCode EGestureDoubleTap = EGestureDoubleTap"
| "oppositeCode EGestureSwipeLeft = EGestureSwipeRight" | "oppositeCode EGestureSwipeRight = EGestureSwipeLeft"
| "oppositeCode EGestureSwipeUp = EGestureSwipeDown" | "oppositeCode EGestureSwipeDown = EGestureSwipeUp"
| "oppositeCode EGestureFlick = EGestureFlick" | "oppositeCode EGestureLongTap = EGestureLongTap" | "oppositeCode EGestureDrop = EGestureDrop"
| "oppositeCode (EFlagHold c) = EFlagHold (oppositeCode c)"

text \<open>The angle of a vector, and that of the opposite one.\<close>

definition angleOf :: "real \<Rightarrow> real \<Rightarrow> real" where
  "angleOf x y = (let l = sqrt (x * x + y * y) in (if y < 0 then 2 * pi - arccos (x / l) else arccos (x / l)) * 180 / pi)"

lemma vectorAngle_angleOf:
  assumes "a \<noteq> b"
  shows "vectorAngle a b = angleOf (real_of_int (fst b - fst a)) (real_of_int (snd b - snd a))"
proof -
  let ?x = "real_of_int (fst b - fst a)" and ?y = "real_of_int (snd b - snd a)"
  have "?x * ?x + ?y * ?y \<noteq> 0" using assms by (cases a; cases b) (auto simp: sum_squares_eq_zero_iff)
  then show ?thesis by (simp add: vectorAngle_def angleOf_def Let_def)
qed

lemma unit_part:
  fixes x y :: real
  assumes "x \<noteq> 0 \<or> y \<noteq> 0"
  shows "0 < sqrt (x * x + y * y)" "\<bar>x / sqrt (x * x + y * y)\<bar> \<le> 1" "y \<noteq> 0 \<Longrightarrow> \<bar>x / sqrt (x * x + y * y)\<bar> < 1"
proof -
  let ?l = "sqrt (x * x + y * y)"
  show l: "0 < ?l" using assms by (simp add: sum_squares_gt_zero_iff)
  have "\<bar>x\<bar> \<le> ?l" using real_sqrt_le_mono [of "x * x" "x * x + y * y"] by simp
  then show "\<bar>x / ?l\<bar> \<le> 1" using l by simp
  assume "y \<noteq> 0"
  then have "0 < y * y" using not_real_square_gt_zero by blast
  then have "\<bar>x\<bar> < ?l" using real_sqrt_less_mono [of "x * x" "x * x + y * y"] by simp
  then show "\<bar>x / ?l\<bar> < 1" using l by simp
qed

lemma angleOf_opposite:
  assumes "x \<noteq> 0 \<or> y \<noteq> 0"
  shows "0 \<le> angleOf x y \<and> angleOf x y < 360 \<and>
    angleOf (- x) (- y) = (if angleOf x y < 180 then angleOf x y + 180 else angleOf x y - 180)"
proof -
  define c where "c = x / sqrt (x * x + y * y)"
  have c: "- 1 \<le> c" "c \<le> 1" "y \<noteq> 0 \<Longrightarrow> - 1 < c" "y \<noteq> 0 \<Longrightarrow> c < 1" using unit_part(2,3) [OF assms, folded c_def] by (auto simp: abs_le_iff abs_less_iff)
  define d where "d = arccos c * 180 / pi"
  have "angleOf x y = (if y < 0 then 2 * pi - arccos c else arccos c) * 180 / pi"
    "angleOf (- x) (- y) = (if y > 0 then 2 * pi - (pi - arccos c) else pi - arccos c) * 180 / pi"
    using arccos_minus [OF c(1,2)] by (simp_all add: angleOf_def c_def Let_def)
  then have a: "angleOf x y = (if y < 0 then 360 - d else d)" "angleOf (- x) (- y) = (if y > 0 then 180 + d else 180 - d)"
    by (simp_all add: d_def field_simps)
  have strict: "0 < d \<and> d < 180" if "y \<noteq> 0"
    using arccos_lt_bounded [of c] c that by (simp add: d_def field_simps)
  have "y = 0 \<Longrightarrow> \<bar>c\<bar> = 1" using assms by (simp add: c_def)
  then have "y = 0 \<Longrightarrow> c = 1 \<or> c = - 1" by linarith
  then have flat: "y = 0 \<Longrightarrow> d = 0 \<or> d = 180" by (auto simp: d_def)
  show ?thesis
  proof (cases "y = 0")
    case True
    then show ?thesis using flat a by auto
  next
    case False
    then show ?thesis using strict a by auto
  qed
qed

lemma direction_opposite:
  assumes "0 \<le> a" "a < 360"
  shows "angleDirection (if a < 180 then a + 180 else a - 180) = oppositeCode (angleDirection a)"
  using assms by (simp add: angleDirection_def IsNear_def KAngleTolerance_def)

text \<open>
  C39: The direction of a movement back is the opposite of the direction of the movement: up and down, left
  and right, and a movement that has no direction has none backwards either.
\<close>

theorem opposite_swipes:
  assumes "a \<noteq> b"
  shows "angleDirection (vectorAngle b a) = oppositeCode (angleDirection (vectorAngle a b))"
proof -
  define x y where "x = real_of_int (fst b - fst a)" and "y = real_of_int (snd b - snd a)"
  have "x \<noteq> 0 \<or> y \<noteq> 0" using assms by (cases a; cases b) (auto simp: x_def y_def)
  note o = angleOf_opposite [OF this]
  have v: "vectorAngle a b = angleOf x y" "vectorAngle b a = angleOf (- x) (- y)"
    using vectorAngle_angleOf [OF assms] vectorAngle_angleOf [OF assms [symmetric]] by (simp_all add: x_def y_def)
  show ?thesis using direction_opposite [of "angleOf x y"] o v by simp
qed

theorem opposite_swipes_witness:
  "angleDirection (vectorAngle (50, 0) (0, 0)) = oppositeCode (angleDirection (vectorAngle (0, 0) (50, 0)))"
  by (rule opposite_swipes) simp

subsection \<open>Taps\<close>

text \<open>The steps of a tap: a touch, lifting the finger in the same place, and the timeout.\<close>

definition pointAt :: "gpoint \<Rightarrow> int \<Rightarrow> point_entry" where
  "pointAt p t = \<lparr>peiPos = p, peiTime = t\<rparr>"

definition stillEvent :: "gesture_code \<Rightarrow> gpoint \<Rightarrow> gevent" where
  "stillEvent c p = \<lparr>evCode = c, evCurrentPos = p, evDistance = (0, 0), evStartPos = p, evIsHolding = False, evSpeed = (0, 0)\<rparr>"

text \<open>A gesture of one point.\<close>

definition onePoint :: "gpoint \<Rightarrow> gesture \<Rightarrow> bool" where
  "onePoint p g \<longleftrightarrow> map peiPos (giPoints g) = [p] \<and> giHoldingState g = ENotHolding"

lemma onePoint_speed: "onePoint p g \<Longrightarrow> gsSpeed g = Some (0, 0)"
  by (auto simp: onePoint_def gsSpeed_def NthLastEntry_def KPreviousPointOffset_def Elapsed_def Let_def IsMovementStopped_def)

lemma onePoint_emit:
  assumes "onePoint p g" "gsCode (geTol ge) EAxisBoth g = Some (c, g1)" "onePoint p g1"
  shows "EmitEvent ge g s = Some (g1, AddEvent (stillEvent c p) s)"
proof -
  obtain e where "giPoints g1 = [e]" "peiPos e = p" "giHoldingState g1 = ENotHolding" using assms(3) by (auto simp: onePoint_def)
  then show ?thesis using assms(2) onePoint_speed [OF assms(3)]
    by (simp add: EmitEvent_def gsDistance_def StartPos_def CurrentPos_def IsHolding_def stillEvent_def)
qed

lemma onePoint_updates [simp]:
  "onePoint p (g\<lparr>giPrevGestureCode := c\<rparr>) = onePoint p g" "onePoint p (SetComplete t g) = onePoint p g"
  "onePoint p (SetReleased g) = onePoint p g" "onePoint p (SetDoubleTap g) = onePoint p g"
  by (simp_all add: onePoint_def SetComplete_def SetReleased_def SetDoubleTap_def)

lemma onePoint_start: "onePoint p g \<Longrightarrow> giState g = ENotComplete \<Longrightarrow>
    gsCode tol a g = Some (EGestureStart, g\<lparr>giPrevGestureCode := Some EGestureStart\<rparr>)"
  by (auto simp: gsCode_def onePoint_def IsHolding_def)

lemma onePoint_tap: "onePoint p g \<Longrightarrow> 0 < tol \<Longrightarrow> CodeFromPoints tol a g = Some EGestureTap"
  by (auto simp: CodeFromPoints_def onePoint_def GestureCode_def recIsTap_def LatestCertainPointIndex_def inTolerance_def)

text \<open>A gesture that can begin: it has no points yet, and does not remember that it has begun.\<close>

definition restingGesture :: "gesture \<Rightarrow> bool" where
  "restingGesture g \<longleftrightarrow> giPoints g = [] \<and> giState g = ENotComplete \<and> giHoldingState g = ENotHolding \<and> \<not> giIsDoubleTap g \<and> \<not> giIsLongTap g \<and>
     giPrevGestureCode g \<notin> {Some EGestureStart, Some EGestureDrag}"

text \<open>The gesture before it was a tap, if there was any.\<close>

definition idleGesture :: "gesture \<Rightarrow> bool" where
  "idleGesture g \<longleftrightarrow> giPoints g = [] \<and> giState g = ENotComplete \<and> giHoldingState g = ENotHolding \<and> \<not> giIsDoubleTap g \<and> \<not> giIsLongTap g \<and>
     giPrevGestureCode g \<in> {None, Some EGestureTap, Some EGestureDoubleTap}"

lemma idle_resting: "idleGesture g \<Longrightarrow> restingGesture g"
  by (auto simp: idleGesture_def restingGesture_def)

lemma down_point:
  assumes "restingGesture (ghGesture h)" "gePoint ge"
  shows "\<exists>g h1. runGestOp (PointerEvent ge GButton1Down p) h = Some ([], h1) \<and> ghGesture h1 = g \<and> onePoint p g \<and>
    giPoints g = [pointAt p (geNow ge)] \<and> giState g = ENotComplete \<and> \<not> giIsDoubleTap g \<and> \<not> giIsLongTap g \<and>
    giPrevGestureCode g = (if tmActive (ghDoubleTapTimer h) then giPrevGestureCode (ghGesture h) else Some EGestureStart) \<and>
    ghPreviousTap h1 = ghPreviousTap h \<and> ghUnused h1 = ghUnused h \<and> ghDoubleTapTimer h1 = ghDoubleTapTimer h \<and>
    ghLastTouchUpTime h1 = ghLastTouchUpTime h \<and> ghLastDoubleTapTime h1 = ghLastDoubleTapTime h \<and>
    ghSender h1 = (if tmActive (ghDoubleTapTimer h) then ghSender h else AddEvent (stillEvent EGestureStart p) (ghSender h)) \<and>
    flTouchDownPos (ghFilter h1) = p \<and> flLastEventTime (ghFilter h1) = flLastEventTime (ghFilter h)"
proof -
  define g where "g = (ghGesture h)\<lparr>giPoints := [pointAt p (geNow ge)]\<rparr>"
  have one: "onePoint p g" "giState g = ENotComplete" using assms(1) by (simp_all add: g_def onePoint_def pointAt_def restingGesture_def)
  have add: "AddPoint True p (geNow ge) (ghGesture h) = (KErrNone, g)"
    using assms(1) by (simp add: AddPoint_def IsLatestPoint_def restingGesture_def g_def pointAt_def)
  note emit = onePoint_emit [OF one(1) onePoint_start [OF one], of ge, simplified, OF one(1)]
  have prev: "giPrevGestureCode (ghGesture h) \<noteq> Some EGestureStart" "giPrevGestureCode (ghGesture h) \<noteq> Some EGestureDrag"
    using assms(1) by (auto simp: restingGesture_def)
  show ?thesis
    using add emit one prev assms
    by (cases "tmActive (ghDoubleTapTimer h)"; cases "tmActive (ghLongTouchTimer h)")
      (simp_all add: ghPointerEventL_def FilterDrag_def handleUnfiltered_def HandleTouchDownL_def ghAddPoint_def emitCurrent_def Let_def restingGesture_def g_def onePoint_def)
qed

lemma up_same:
  assumes "onePoint p (ghGesture h)"
  shows "runGestOp (PointerEvent ge GButton1Up p) h = map_option (\<lambda>h1. ([], ghReset h1)) (HandleTouchUp ge
     (h\<lparr>ghLastEventTime := geNow ge, ghFilter := snd (FilterDrag (geTol ge) GButton1Up p (geNow ge) (ghFilter h))\<rparr>))"
proof -
  have "AddPoint (gePoint ge) p (geNow ge) (ghGesture h) = (KErrNone, ghGesture h)"
    using assms by (auto simp: AddPoint_def IsLatestPoint_def CurrentPos_def onePoint_def)
  then show ?thesis by (simp add: ghPointerEventL_def FilterDrag_def handleUnfiltered_def ghAddPoint_def Let_def option.map_comp comp_def)
qed

lemma up_first_tap:
  assumes "onePoint p (ghGesture h)" "giPrevGestureCode (ghGesture h) = Some EGestureStart" "tmEnabled (ghDoubleTapTimer h)"
    "ghPreviousTap h = None" "ghUnused h = Some u"
  shows "\<exists>h1. runGestOp (PointerEvent ge GButton1Up p) h = Some ([], h1) \<and> ghGesture h1 = gsReset u \<and> ghPreviousTap h1 = Some (ghGesture h) \<and>
    ghUnused h1 = None \<and> tmActive (ghDoubleTapTimer h1) \<and> tmEnabled (ghDoubleTapTimer h1) \<and> ghLastTouchUpTime h1 = geNow ge \<and>
    ghLastDoubleTapTime h1 = ghLastDoubleTapTime h \<and> ghSender h1 = ghSender h \<and> flLastEventTime (ghFilter h1) = flLastEventTime (ghFilter h)"
  unfolding up_same [OF assms(1)] using assms(2-5)
  by (simp add: HandleTouchUp_def Let_def IsMovementGesture_def recyclePrevious_def NewGesture_def ghReset_def gsReset_def tmStart_def tmCancel_def FilterDrag_def)

lemma complete_double:
  assumes "onePoint p g" "giIsDoubleTap g"
  shows "\<exists>g1. CompleteAndEmit ge g s = Some (g1, AddEvent (stillEvent EGestureReleased p) (AddEvent (stillEvent EGestureDoubleTap p) s))"
proof -
  define g1 where "g1 = (SetComplete (geDone ge) g)\<lparr>giPrevGestureCode := Some EGestureDoubleTap\<rparr>"
  have c: "gsCode (geTol ge) EAxisBoth (SetComplete (geDone ge) g) = Some (EGestureDoubleTap, g1)"
    using assms(2) by (simp add: gsCode_def SetComplete_def g1_def)
  have one: "onePoint p (SetComplete (geDone ge) g)" "onePoint p g1" "onePoint p (SetReleased g1)" using assms(1) by (simp_all add: g1_def)
  have r: "gsCode (geTol ge) EAxisBoth (SetReleased g1) = Some (EGestureReleased, SetReleased g1)" by (simp add: gsCode_def SetReleased_def)
  have "\<not> IsHolding g" using assms(1) by (simp add: onePoint_def IsHolding_def)
  then show ?thesis using onePoint_emit [OF one(1) c one(2)] onePoint_emit [OF one(3) r one(3)] by (simp add: CompleteAndEmit_def)
qed

lemma up_second_tap:
  assumes "onePoint q (ghGesture h)" "giPrevGestureCode (ghGesture h) \<in> {None, Some EGestureTap, Some EGestureDoubleTap}" "tmEnabled (ghDoubleTapTimer h)"
    "ghPreviousTap h = Some g" "onePoint p g"
    "KDoubleTapMinActivationInterval < geNow ge - ghLastTouchUpTime h" "geNow ge - ghLastTouchUpTime h < KDoubleTapMaxActivationInterval"
    "KDoubleTapIdleInterval < geNow ge - ghLastDoubleTapTime h"
  shows "\<exists>h1. runGestOp (PointerEvent ge GButton1Up q) h = Some ([], h1) \<and> ghPreviousTap h1 = None \<and> idleGesture (ghGesture h1) \<and>
    ghSender h1 = AddEvent (stillEvent EGestureReleased p) (AddEvent (stillEvent EGestureDoubleTap p) (ghSender h))"
proof -
  have "onePoint p (SetDoubleTap g)" "giIsDoubleTap (SetDoubleTap g)" using assms(5) by simp (simp add: SetDoubleTap_def)
  from complete_double [OF this, of ge "ghSender h"] obtain g1 where
    "CompleteAndEmit ge (SetDoubleTap g) (ghSender h) = Some (g1, AddEvent (stillEvent EGestureReleased p) (AddEvent (stillEvent EGestureDoubleTap p) (ghSender h)))"
    by blast
  then show ?thesis unfolding up_same [OF assms(1)] using assms(2-4,6-8)
    by (auto simp: HandleTouchUp_def Let_def IsMovementGesture_def EmitDoubleTapEvent_def EmitFirstTapEvent_def recyclePrevious_def ghReset_def gsReset_def idleGesture_def)
qed


subsection \<open>A touch that is lost\<close>

lemma complete_code:
  assumes "giState g = EComplete" "\<not> giIsDoubleTap g" "\<not> giIsLongTap g" "gsCode tol a g = Some (c, g1)"
  shows "giPrevGestureCode g1 = Some c \<and> c \<notin> {EGestureStart, EGestureDrag}"
proof -
  have "GestureCode tol a ps \<notin> {EGestureStart, EGestureDrag}" for ps
    by (auto simp: GestureCode_def GeneralDirection_def angleDirection_def Let_def)
  then show ?thesis using assms by (auto simp: gsCode_def CodeFromPoints_def split: if_splits option.splits bool.splits)
qed

lemma emit_prev:
  assumes "EmitEvent ge g s = Some (g1, s1)"
  shows "\<exists>c. gsCode (geTol ge) EAxisBoth g = Some (c, g1)"
  using assms by (auto simp: EmitEvent_def bind_eq_Some_conv)

text \<open>A tap, a touch right after it that becomes a movement, and another tap.\<close>

definition atTime :: "int \<Rightarrow> gest_env" where
  "atTime t = \<lparr>geTol = 10, geNow = t, geDone = t, gePoint = True\<rparr>"

definition tapThenStroke :: "gest_op list" where
  "tapThenStroke = [PointerEvent (atTime 100000) GButton1Down (50, 50), PointerEvent (atTime 150000) GButton1Up (50, 50),
     PointerEvent (atTime 300000) GButton1Down (50, 50), PointerEvent (atTime 350000) GDrag (50, 150), PointerEvent (atTime 400000) GButton1Up (50, 150),
     PointerEvent (atTime 600000) GButton1Down (50, 50), PointerEvent (atTime 650000) GButton1Up (50, 50)]"

text \<open>The movement: the tap that waited is put into the pool although it was never emitted.\<close>

lemma move_second:
  assumes "giPoints (ghGesture h) = [pointAt (50, 50) 300000]" "giState (ghGesture h) = ENotComplete" "\<not> giIsDoubleTap (ghGesture h)" "\<not> giIsLongTap (ghGesture h)"
    "giHoldingState (ghGesture h) = ENotHolding" "ghPreviousTap h = Some g" "flTouchDownPos (ghFilter h) = (50, 50)" "flLastEventTime (ghFilter h) = 0"
  shows "\<exists>h1. runGestOp (PointerEvent (atTime 350000) GDrag (50, 150)) h = Some ([], h1) \<and> ghPreviousTap h1 = None \<and> ghUnused h1 = Some g \<and>
    giPrevGestureCode (ghGesture h1) = Some EGestureDrag \<and> giPoints (ghGesture h1) = [pointAt (50, 50) 300000, pointAt (50, 150) 350000] \<and>
    giState (ghGesture h1) = ENotComplete \<and> \<not> giIsDoubleTap (ghGesture h1) \<and> \<not> giIsLongTap (ghGesture h1) \<and> giHoldingState (ghGesture h1) = ENotHolding \<and>
    tmEnabled (ghDoubleTapTimer h1) = tmEnabled (ghDoubleTapTimer h) \<and> \<not> tmActive (ghDoubleTapTimer h1)"
proof -
  define g1 where "g1 = (ghGesture h)\<lparr>giPoints := [pointAt (50, 50) 300000, pointAt (50, 150) 350000]\<rparr>"
  have add: "AddPoint True (50, 150) 350000 (ghGesture h) = (KErrNone, g1)" "\<not> IsLatestPoint (50, 150) (ghGesture h)"
    using assms(1) by (simp_all add: AddPoint_def IsLatestPoint_def CurrentPos_def g1_def pointAt_def)
  have c: "gsCode 10 EAxisBoth g1 = Some (EGestureDrag, g1\<lparr>giPrevGestureCode := Some EGestureDrag\<rparr>)"
    using assms(2,5) by (simp add: gsCode_def g1_def)
  obtain v where v: "gsSpeed (g1\<lparr>giPrevGestureCode := Some EGestureDrag\<rparr>) = Some v" using gsSpeed_ok [of "g1\<lparr>giPrevGestureCode := Some EGestureDrag\<rparr>"] by (auto simp: g1_def)
  obtain s where e: "EmitEvent (atTime 350000) g1 (ghSender h) = Some (g1\<lparr>giPrevGestureCode := Some EGestureDrag\<rparr>, s)"
    using c v by (simp add: EmitEvent_def atTime_def gsDistance_def StartPos_def g1_def)
  have "\<not> fst (fst (FilterDrag 10 GDrag (50, 150) 350000 (ghFilter h)))" using assms(7,8) by (simp add: FilterDrag_def KMinTimeBetweenDrags_def Let_def)
  then obtain r fl where f: "FilterDrag 10 GDrag (50, 150) 350000 (ghFilter h) = ((False, r), fl)" by (metis prod.collapse)
  show ?thesis
    using add e f assms
    by (simp add: ghPointerEventL_def handleUnfiltered_def HandleMoveL_def ghAddPoint_def emitCurrent_def recyclePrevious_def IsEmpty_def
      atTime_def Let_def g1_def tmCancel_def)
qed

lemma up_after_stroke:
  assumes "giPoints (ghGesture h) = [pointAt (50, 50) 300000, pointAt (50, 150) 350000]" "giPrevGestureCode (ghGesture h) = Some EGestureDrag"
    "\<not> giIsDoubleTap (ghGesture h)" "\<not> giIsLongTap (ghGesture h)" "giHoldingState (ghGesture h) = ENotHolding"
  shows "\<exists>h1. runGestOp (PointerEvent (atTime 400000) GButton1Up (50, 150)) h = Some ([], h1) \<and> restingGesture (ghGesture h1) \<and>
    ghPreviousTap h1 = ghPreviousTap h \<and> ghUnused h1 = ghUnused h \<and> tmEnabled (ghDoubleTapTimer h1) = tmEnabled (ghDoubleTapTimer h) \<and> \<not> tmActive (ghDoubleTapTimer h1)"
proof -
  define g where "g = SetComplete 400000 (ghGesture h)"
  have add: "AddPoint True (50, 150) 400000 (ghGesture h) = (KErrNone, ghGesture h)"
    using assms(1) by (simp add: AddPoint_def IsLatestPoint_def CurrentPos_def pointAt_def)
  have g: "giState g = EComplete" "\<not> giIsDoubleTap g" "\<not> giIsLongTap g" "giPoints g \<noteq> []" using assms by (simp_all add: g_def SetComplete_def)
  obtain c g1 where c: "gsCode 10 EAxisBoth g = Some (c, g1)" "sameButCode g g1" using gsCode_ok [OF g(4)] by blast
  have p: "giPoints g1 \<noteq> []" using sameButCode_dest [OF c(2)] g(4) by simp
  obtain v where v: "gsSpeed g1 = Some v" using gsSpeed_ok [OF p] by blast
  obtain s where e: "EmitEvent (atTime 400000) g (ghSender h) = Some (g1, s)"
    using c(1) v p by (simp add: EmitEvent_def atTime_def gsDistance_def StartPos_def)
  have prev: "giPrevGestureCode g1 \<notin> {Some EGestureStart, Some EGestureDrag}" using complete_code [OF g(1-3) c(1)] by auto
  have rest: "restingGesture (gsReset g1)" using prev by (simp add: restingGesture_def gsReset_def)
  show ?thesis
    using add e rest assms(2)
    by (simp add: ghPointerEventL_def FilterDrag_def handleUnfiltered_def ghAddPoint_def HandleTouchUp_def IsMovementGesture_def emitCurrent_def
      atTime_def Let_def g_def ghReset_def tmCancel_def)
qed



end
