(* ===== verification/Preferences.thy ===== *)
theory Preferences
  imports OverrideText ByteStream "HOL-Library.AList"
begin

text \<open>
  The preferences of a widget (webengine/widgetengine/src/Preferences.cpp): a hash map from keys, which begin
  with the number of the widget, to elements, which hold a value of up to 4096 characters, or the name of
  the file that holds a longer one; and the file \<open>prefs.dat\<close> that keeps them. The map is a list of pairs
  with distinct keys; the order of the hash table comes from outside. An element that was deleted while
  the map still points to it is None in the map; using it is a fault. The memory for reading the file is
  taken to be there, and so is that for the text of a path.
\<close>

subsection \<open>State and environment\<close>

definition KMaxIntLength :: nat where "KMaxIntLength = 10"
definition KMaxKeyValueSize :: nat where "KMaxKeyValueSize = 4096"
definition KPrefsFile :: tdes16 where "KPrefsFile = lit16 ''prefs.dat''"

text \<open>The size is that of the value, also when the value is in a file.\<close>

record pref_element =
  peValue :: tdes16
  peSize :: int

type_synonym pref_map = "(tdes16 \<times> pref_element option) list"
type_synonym pref_disk = "tdes16 \<Rightarrow> tdes8 option"

record prefs_world =
  wpPreferences :: pref_map
  wpWidgetId :: int
  wpBasePath :: "tdes16 option"
  wpDisk :: pref_disk

text \<open>
  What one operation meets: memory for the key and for the element; whether the file server can be reached
  by the operation, by the deletion of an element and by the saving; the name of a new temporary file, or
  none; what a write leaves with, and after how many bytes; the answers of \<open>Replace\<close> and \<open>Create\<close>; whether
  an existing file can be opened; and the order of the hash table.
\<close>

record pref_env =
  evKeyMemory :: bool
  evElementMemory :: bool
  evConnect :: bool
  evConnectDelete :: bool
  evConnectSave :: bool
  evTemp :: "tdes16 option"
  evValueWrite :: "(symerr \<times> nat) option"
  evReplace :: symerr
  evCreate :: symerr
  evSaveWrite :: "(symerr \<times> nat) option"
  evOpen :: bool
  evOrder :: "pref_map \<Rightarrow> pref_map"

definition newPreferences :: "pref_disk \<Rightarrow> prefs_world" where
  "newPreferences d = \<lparr>wpPreferences = [], wpWidgetId = 0, wpBasePath = None, wpDisk = d\<rparr>"

definition setBasePathL :: "tdes16 \<Rightarrow> prefs_world \<Rightarrow> prefs_world" where
  "setBasePathL aValue w = w\<lparr>wpBasePath := Some aValue\<rparr>"

definition setWidgetId :: "int \<Rightarrow> prefs_world \<Rightarrow> prefs_world" where
  "setWidgetId aValue w = w\<lparr>wpWidgetId := aValue\<rparr>"

definition hasBasePath :: "prefs_world \<Rightarrow> bool" where
  "hasBasePath w \<longleftrightarrow> (case wpBasePath w of None \<Rightarrow> False | Some b \<Rightarrow> b \<noteq> [])"

definition prefsPath :: "prefs_world \<Rightarrow> tdes16" where
  "prefsPath w = (case wpBasePath w of None \<Rightarrow> [] | Some b \<Rightarrow> b) @ KPrefsFile"

subsection \<open>Keys\<close>

definition showInt :: "int \<Rightarrow> tdes16" where
  "showInt i = (if i < 0 then 45 # showDec (nat (- i)) else showDec (nat i))"

text \<open>The buffer has room for ten digits and the point; \<open>Format\<close> panics when the text is longer.\<close>

definition formatKey :: "int \<Rightarrow> tdes16 \<Rightarrow> tdes16 option" where
  "formatKey i aKey =
    (let k = showInt i @ 46 # aKey in if length k \<le> length aKey + KMaxIntLength + 1 then Some k else None)"

subsection \<open>The file\<close>

definition elementBytes :: "tdes16 \<Rightarrow> pref_element \<Rightarrow> tdes8" where
  "elementBytes key p = le32 (of_nat (length key)) @ le16 key @ le32 (of_nat (length (peValue p))) @ le16 (peValue p) @ le32 (of_int (peSize p))"

primrec entriesBytes :: "pref_map \<Rightarrow> tdes8 option" where
  "entriesBytes [] = Some []"
| "entriesBytes (x # xs) = (case snd x of
     None \<Rightarrow> None
   | Some p \<Rightarrow> map_option (\<lambda>b. elementBytes (fst x) p @ b) (entriesBytes xs))"

definition prefsBytes :: "pref_map \<Rightarrow> tdes8 option" where
  "prefsBytes xs = map_option (\<lambda>b. le32 (of_nat (length xs)) @ b) (entriesBytes xs)"

definition saveL :: "pref_env \<Rightarrow> prefs_world \<Rightarrow> (symerr \<times> prefs_world) option" where
  "saveL env w =
    (if \<not> hasBasePath w \<or> \<not> evConnectSave env then Some (KErrNone, w)
     else if (if evReplace env \<noteq> KErrNone then evCreate env else KErrNone) \<noteq> KErrNone then Some (KErrNone, w)
     else map_option (\<lambda>b. case evSaveWrite env of
         None \<Rightarrow> (KErrNone, w\<lparr>wpDisk := (wpDisk w)(prefsPath w \<mapsto> b)\<rparr>)
       | Some (err, n) \<Rightarrow> (err, w\<lparr>wpDisk := (wpDisk w)(prefsPath w \<mapsto> take n b)\<rparr>)) (prefsBytes (evOrder env (wpPreferences w))))"

text \<open>A text of \<open>n\<close> characters.\<close>

definition readText :: "nat \<Rightarrow> tdes8 \<Rightarrow> (symerr + tdes16) \<times> tdes8" where
  "readText n s = (case ReadL (2 * n) s of (Inl e, r) \<Rightarrow> (Inl e, r) | (Inr b, r) \<Rightarrow> (Inr (un16 b), r))"

text \<open>
  One turn of the loop: the rest of the file and the map, or none when the loop ends. A key whose value is
  too long is dropped, but its value is not skipped. A negative length panics.
\<close>

definition loadEntry :: "tdes8 \<Rightarrow> pref_map \<Rightarrow> (symerr \<times> tdes8 option \<times> pref_map) option" where
  "loadEntry s m =
    (case ReadInt32L s of
       (Inl e, _) \<Rightarrow> Some (e, None, m)
     | (Inr len, s1) \<Rightarrow>
       if \<not> 0 < sint len then Some (KErrNone, None, m)
       else (case readText (nat (sint len)) s1 of
         (Inl e, _) \<Rightarrow> Some (e, None, m)
       | (Inr key, s2) \<Rightarrow> (case ReadInt32L s2 of
           (Inl e, _) \<Rightarrow> Some (e, None, m)
         | (Inr vlen, s3) \<Rightarrow>
           if \<not> sint vlen \<le> int KMaxKeyValueSize then Some (KErrNone, Some s3, m)
           else if sint vlen < 0 then None
           else (case readText (nat (sint vlen)) s3 of
             (Inl e, _) \<Rightarrow> Some (e, None, m)
           | (Inr val, s4) \<Rightarrow> (case ReadInt32L s4 of
               (Inl e, _) \<Rightarrow> Some (e, None, m)
             | (Inr sz, s5) \<Rightarrow> Some (KErrNone, Some s5, AList.update key (Some \<lparr>peValue = val, peSize = sint sz\<rparr>) m))))))"

primrec loadEntries :: "nat \<Rightarrow> tdes8 \<Rightarrow> pref_map \<Rightarrow> (symerr \<times> pref_map) option" where
  "loadEntries 0 s m = Some (KErrNone, m)"
| "loadEntries (Suc n) s m = (case loadEntry s m of
     None \<Rightarrow> None
   | Some (err, None, m1) \<Rightarrow> Some (err, m1)
   | Some (err, Some s1, m1) \<Rightarrow> loadEntries n s1 m1)"

definition loadBytes :: "tdes8 \<Rightarrow> pref_map \<Rightarrow> (symerr \<times> pref_map) option" where
  "loadBytes s m = (case ReadInt32L s of (Inl e, _) \<Rightarrow> Some (e, m) | (Inr cnt, s1) \<Rightarrow> loadEntries (nat (sint cnt)) s1 m)"

definition loadL :: "pref_env \<Rightarrow> prefs_world \<Rightarrow> (symerr \<times> prefs_world) option" where
  "loadL env w =
    (if \<not> hasBasePath w \<or> \<not> evConnect env then Some (KErrNone, w)
     else case wpDisk w (prefsPath w) of
       None \<Rightarrow> Some (KErrNone, w)
     | Some s \<Rightarrow> if \<not> evOpen env then Some (KErrNone, w)
         else map_option (\<lambda>(err, m). (err, w\<lparr>wpPreferences := m\<rparr>)) (loadBytes s (wpPreferences w)))"

subsection \<open>Reading, setting and removing\<close>

text \<open>What it returns or leaves with, and the value.\<close>

definition preferenceL :: "pref_env \<Rightarrow> tdes16 \<Rightarrow> prefs_world \<Rightarrow> (symerr \<times> tdes16 option) option" where
  "preferenceL env aKey w =
    (if \<not> hasBasePath w \<or> \<not> length aKey \<le> KMaxKeyValueSize then Some (KErrNotFound, None)
     else if \<not> evKeyMemory env then Some (KErrNoMemory, None)
     else case formatKey (wpWidgetId w) aKey of
       None \<Rightarrow> None
     | Some k \<Rightarrow> (case map_of (wpPreferences w) k of
         None \<Rightarrow> Some (KErrNotFound, None)
       | Some None \<Rightarrow> None
       | Some (Some pref) \<Rightarrow>
         if peSize pref > int KMaxKeyValueSize then
           (if \<not> evConnect env then Some (KErrNotFound, None)
            else case wpDisk w (peValue pref) of
              None \<Rightarrow> Some (KErrNotFound, None)
            | Some s \<Rightarrow>
              if \<not> evOpen env then Some (KErrNotFound, None)
              else case ReadInt32L s of
                (Inl e, _) \<Rightarrow> Some (e, None)
              | (Inr len, s1) \<Rightarrow>
                if 0 < sint len then (case readText (nat (sint len)) s1 of (Inl e, _) \<Rightarrow> Some (e, None) | (Inr v, _) \<Rightarrow> Some (KErrNone, Some v))
                else Some (KErrNotFound, None))
         else if 0 \<le> peSize pref then (if evElementMemory env then Some (KErrNone, Some (peValue pref)) else Some (KErrNoMemory, None))
         else Some (KErrNotFound, None)))"

text \<open>The destructor of an element whose file is to be removed.\<close>

definition deleteElement :: "pref_env \<Rightarrow> pref_element option \<Rightarrow> pref_disk \<Rightarrow> pref_disk option" where
  "deleteElement env p d =
    (case p of None \<Rightarrow> None
     | Some e \<Rightarrow> Some (if peSize e > int KMaxKeyValueSize \<and> evConnectDelete env then d(peValue e := None) else d))"

text \<open>
  The new value: an error to leave with, or the map with the new element, or with the old one when the file
  server cannot be reached. Writing to a temporary file that could not be made uses a file that is not open.
\<close>

definition putValue :: "pref_env \<Rightarrow> tdes16 \<Rightarrow> tdes16 \<Rightarrow> prefs_world \<Rightarrow> (symerr \<times> prefs_world) option" where
  "putValue env k aValue w =
    (let put = \<lambda>v. w\<lparr>wpPreferences := AList.update k (Some \<lparr>peValue = v, peSize = int (length aValue)\<rparr>) (wpPreferences w)\<rparr> in
     if length aValue \<le> KMaxKeyValueSize then (if evElementMemory env then Some (KErrNone, put aValue) else Some (KErrNoMemory, w))
     else if \<not> evConnect env then Some (KErrNone, w)
     else case evTemp env of
       None \<Rightarrow> None
     | Some n \<Rightarrow> (case evValueWrite env of
         Some (err, _) \<Rightarrow> Some (err, w\<lparr>wpDisk := (wpDisk w)(n := None)\<rparr>)
       | None \<Rightarrow>
         let d = (wpDisk w)(n \<mapsto> le32 (of_nat (length aValue)) @ le16 aValue)
         in Some (if evElementMemory env then (KErrNone, (put n)\<lparr>wpDisk := d\<rparr>) else (KErrNoMemory, w\<lparr>wpDisk := d\<rparr>))))"

text \<open>The old element is deleted whether or not the map still has it.\<close>

definition deleteExisting :: "pref_env \<Rightarrow> tdes16 \<Rightarrow> bool \<Rightarrow> pref_element option option \<Rightarrow> prefs_world \<Rightarrow> prefs_world option" where
  "deleteExisting env k replaced existing w =
    (case existing of
       None \<Rightarrow> Some w
     | Some p \<Rightarrow> map_option (\<lambda>d. w\<lparr>wpDisk := d, wpPreferences := (if replaced then wpPreferences w else AList.update k None (wpPreferences w))\<rparr>)
         (deleteElement env p (wpDisk w)))"

definition setPreferenceL :: "pref_env \<Rightarrow> tdes16 \<Rightarrow> tdes16 \<Rightarrow> prefs_world \<Rightarrow> (symerr \<times> prefs_world) option" where
  "setPreferenceL env aKey aValue w =
    (if \<not> hasBasePath w \<or> \<not> length aKey \<le> KMaxKeyValueSize then Some (KErrNone, w)
     else if \<not> evKeyMemory env then Some (KErrNoMemory, w)
     else case formatKey (wpWidgetId w) aKey of
       None \<Rightarrow> None
     | Some k \<Rightarrow> (case putValue env k aValue w of
         None \<Rightarrow> None
       | Some (err, w1) \<Rightarrow>
         if err \<noteq> KErrNone then Some (err, w1)
         else (case deleteExisting env k (length aValue \<le> KMaxKeyValueSize \<or> evConnect env) (map_of (wpPreferences w) k) w1 of
           None \<Rightarrow> None
         | Some w2 \<Rightarrow> saveL env w2)))"

definition removePreferenceL :: "pref_env \<Rightarrow> tdes16 \<Rightarrow> tdes16 \<Rightarrow> prefs_world \<Rightarrow> (symerr \<times> prefs_world) option" where
  "removePreferenceL env aKey aValue w =
    (if \<not> hasBasePath w \<or> aValue \<noteq> [] \<or> \<not> length aKey \<le> KMaxKeyValueSize then Some (KErrNone, w)
     else if \<not> evKeyMemory env then Some (KErrNoMemory, w)
     else case formatKey (wpWidgetId w) aKey of
       None \<Rightarrow> None
     | Some k \<Rightarrow> (case deleteExisting env k True (map_of (wpPreferences w) k) (w\<lparr>wpPreferences := AList.delete k (wpPreferences w)\<rparr>) of
         None \<Rightarrow> None
       | Some w1 \<Rightarrow> saveL env w1))"

text \<open>The destructor deletes every element of the map, without its file.\<close>

definition destroyPreferences :: "prefs_world \<Rightarrow> pref_disk option" where
  "destroyPreferences w = (if \<exists>x \<in> set (wpPreferences w). snd x = None then None else Some (wpDisk w))"

subsection \<open>A widget as steps\<close>

datatype pref_op =
    SetPreference pref_env tdes16 tdes16
  | GetPreference pref_env tdes16
  | RemovePreference pref_env tdes16
  | SetWidgetId int
  | Restart pref_env tdes16 int

text \<open>
  What the widget sees of a step. The errors that \<open>setPreferenceL\<close> and the others leave with are trapped by
  the client. A restart destroys the preferences and loads them in a new engine, with their path and number.
\<close>

primrec runPref :: "pref_op \<Rightarrow> prefs_world \<Rightarrow> (tdes16 option \<times> prefs_world) option" where
  "runPref (SetPreference env k v) w = map_option (\<lambda>(err, w1). (None, w1)) (setPreferenceL env k v w)"
| "runPref (GetPreference env k) w = map_option (\<lambda>(err, v). (v, w)) (preferenceL env k w)"
| "runPref (RemovePreference env k) w = map_option (\<lambda>(err, w1). (None, w1)) (removePreferenceL env k [] w)"
| "runPref (SetWidgetId i) w = Some (None, setWidgetId i w)"
| "runPref (Restart env b i) w = (case destroyPreferences w of
     None \<Rightarrow> None
   | Some d \<Rightarrow> map_option (\<lambda>(err, w1). (None, setWidgetId i w1)) (loadL env (setBasePathL b (newPreferences d))))"

fun runPrefs :: "pref_op list \<Rightarrow> prefs_world \<Rightarrow> (tdes16 option list \<times> prefs_world) option" where
  "runPrefs [] w = Some ([], w)"
| "runPrefs (a # as) w = (case runPref a w of
     None \<Rightarrow> None
   | Some (v, w1) \<Rightarrow> map_option (\<lambda>(vs, w2). (v # vs, w2)) (runPrefs as w1))"

end
