(* ===== verification/PreferencesSpec.thy ===== *)
theory PreferencesSpec
  imports Preferences
begin

text \<open>
  The preferences refine a map from the number of the widget and the key to the value: setting, getting,
  removing and restarting do to what is seen what they would do to the map. What a save that fails leaves
  behind, and what happens when the file server cannot be reached.
\<close>

subsection \<open>Keys\<close>

definition keyText :: "int \<Rightarrow> tdes16 \<Rightarrow> tdes16" where
  "keyText i k = showInt i @ 46 # k"

lemma showInt_chars: "46 \<notin> set (showInt i)"
proof -
  have "c \<noteq> 46" if "c \<in> set (showDec n)" for c n
    using that showDec_digits [of n] by (auto simp: list_all_iff asciiDigit_def)
  then show ?thesis by (auto simp: showInt_def)
qed

lemma showInt_inj: "showInt i = showInt j \<Longrightarrow> i = j"
proof -
  have d: "decNum (showDec n) = n" "45 \<notin> set (showDec n)" for n
    using showDec_digits [of n] by (auto simp: list_all_iff asciiDigit_def)
  have n: "showDec a = showDec b \<Longrightarrow> a = b" for a b using d(1) by metis
  have m: "showDec a \<noteq> 45 # showDec b" for a b using d(2) [of a] by (metis list.set_intros(1))
  show "showInt i = showInt j \<Longrightarrow> i = j"
    using m [of "nat i" "nat (- j)"] m [of "nat j" "nat (- i)"] by (auto simp: showInt_def dest!: n split: if_splits)
qed

lemma split_first: "c \<notin> set a \<Longrightarrow> c \<notin> set b \<Longrightarrow> a @ c # x = b @ c # y \<Longrightarrow> a = b \<and> x = y"
  by (induction a arbitrary: b) (auto simp: append_eq_Cons_conv Cons_eq_append_conv)

lemma keyText_inj [simp]: "keyText i k = keyText j l \<longleftrightarrow> i = j \<and> k = l"
  unfolding keyText_def using split_first [OF showInt_chars showInt_chars] showInt_inj by blast

definition shortId :: "int \<Rightarrow> bool" where
  "shortId i \<longleftrightarrow> length (showInt i) \<le> KMaxIntLength"

lemma formatKey_short: "shortId i \<Longrightarrow> formatKey i k = Some (keyText i k)"
  by (simp add: formatKey_def shortId_def keyText_def)

subsection \<open>What the file holds\<close>

definition elementOk :: "pref_element \<Rightarrow> bool" where
  "elementOk e \<longleftrightarrow> 0 \<le> peSize e \<and> peSize e < 2 ^ 31 \<and> length (peValue e) \<le> KMaxKeyValueSize"

definition storableEntry :: "tdes16 \<times> pref_element option \<Rightarrow> bool" where
  "storableEntry x \<longleftrightarrow> fst x \<noteq> [] \<and> length (fst x) < 2 ^ 31 \<and> pred_option elementOk (snd x) \<and> snd x \<noteq> None"

lemma readText_app [simp]: "length b = n \<Longrightarrow> readText n (le16 b @ r) = (Inr b, r)"
  by (simp add: readText_def)

lemma update_new: "k \<notin> fst ` set m \<Longrightarrow> AList.update k v m = m @ [(k, v)]"
  by (induction m) auto

lemma sint_of_int32: "0 \<le> i \<Longrightarrow> i < 2 ^ 31 \<Longrightarrow> sint (of_int i :: 32 word) = i"
  using signed_take_bit_int_eq_self [of 31 i] by (simp add: signed_of_int)

lemma loadEntry_element:
  assumes "storableEntry (k, Some e)" "k \<notin> fst ` set m"
  shows "loadEntry (elementBytes k e @ r) m = Some (KErrNone, Some r, m @ [(k, Some e)])"
proof -
  have len: "sint (of_nat (length k) :: 32 word) = int (length k)" "length k > 0"
    and vlen: "sint (of_nat (length (peValue e)) :: 32 word) = int (length (peValue e))" "length (peValue e) \<le> KMaxKeyValueSize"
    and sz: "sint (of_int (peSize e) :: 32 word) = peSize e"
    using assms(1) by (auto simp: storableEntry_def elementOk_def KMaxKeyValueSize_def sint_of_int32 intro!: sint_small)
  show ?thesis using len vlen sz update_new [OF assms(2), of "Some \<lparr>peValue = peValue e, peSize = peSize e\<rparr>"] by (simp add: loadEntry_def elementBytes_def)
qed

lemma loadEntries_all:
  assumes "list_all storableEntry ys" "distinct (map fst (m @ ys))" "entriesBytes ys = Some b"
  shows "loadEntries (length ys) (b @ r) m = Some (KErrNone, m @ ys)"
  using assms
proof (induction ys arbitrary: m b)
  case (Cons x ys)
  obtain k e where x: "x = (k, Some e)" using Cons.prems(1) by (cases x) (auto simp: storableEntry_def)
  obtain c where c: "entriesBytes ys = Some c" "b = elementBytes k e @ c" using Cons.prems(3) x by auto
  have "loadEntry (b @ r) m = Some (KErrNone, Some (c @ r), m @ [x])"
    using loadEntry_element [of k e m "c @ r"] Cons.prems x c by auto
  moreover have "loadEntries (length ys) (c @ r) (m @ [x]) = Some (KErrNone, (m @ [x]) @ ys)"
    by (rule Cons.IH) (use Cons.prems c in auto)
  ultimately show ?case by simp
qed simp

lemma loadBytes_all:
  assumes "list_all storableEntry ys" "distinct (map fst ys)" "prefsBytes ys = Some b" "length ys < 2 ^ 31"
  shows "loadBytes b [] = Some (KErrNone, ys)"
proof -
  obtain c where c: "entriesBytes ys = Some c" "b = le32 (of_nat (length ys)) @ c" using assms(3) by (auto simp: prefsBytes_def)
  show ?thesis using loadEntries_all [OF assms(1) _ c(1), of "[]" "[]"] assms(2) sint_small [OF assms(4)]
    by (simp add: loadBytes_def c(2))
qed

lemma entriesBytes_total: "list_all storableEntry ys \<Longrightarrow> \<exists>b. entriesBytes ys = Some b"
  by (induction ys) (auto simp: storableEntry_def split: option.splits)

lemma prefsBytes_total: "list_all storableEntry ys \<Longrightarrow> \<exists>b. prefsBytes ys = Some b"
  using entriesBytes_total by (fastforce simp: prefsBytes_def)


subsection \<open>A file that was cut\<close>

lemma ReadInt32L_take: "ReadInt32L (take n (le32 w @ r)) = (if n < 4 then (Inl KErrEof, []) else (Inr w, take (n - 4) r))"
  by (simp add: ReadInt32L_def ReadL_def)

lemma ReadInt32L_take_end: "n < 4 \<Longrightarrow> ReadInt32L (take n (le32 w)) = (Inl KErrEof, [])"
  using ReadInt32L_take [of n w "[]"] by simp

lemma readText_take:
  "length b = l \<Longrightarrow> readText l (take n (le16 b @ r)) = (if n < 2 * l then (Inl KErrEof, []) else (Inr b, take (n - 2 * l) r))"
  by (auto simp: readText_def ReadL_def)

lemma loadEntry_cut:
  assumes "storableEntry (k, Some e)" "n < length (elementBytes k e)"
  shows "loadEntry (take n (elementBytes k e)) m = Some (KErrEof, None, m)"
proof -
  have len: "sint (of_nat (length k) :: 32 word) = int (length k)" "length k > 0"
    and vlen: "sint (of_nat (length (peValue e)) :: 32 word) = int (length (peValue e))" "length (peValue e) \<le> KMaxKeyValueSize"
    using assms(1) by (auto simp: storableEntry_def elementOk_def KMaxKeyValueSize_def intro!: sint_small)
  have n: "n < 4 + 2 * length k + 4 + 2 * length (peValue e) + 4" using assms(2) by (simp add: elementBytes_def)
  then have end_cut: "ReadInt32L (take (n - (8 + 2 * length k + 2 * length (peValue e))) (le32 z)) = (Inl KErrEof, [])" for z
    by (intro ReadInt32L_take_end) arith
  have k: "k \<noteq> []" using len(2) by simp
  show ?thesis
    unfolding loadEntry_def elementBytes_def
    by (simp add: ReadInt32L_take readText_take len vlen end_cut k del: take_append)
qed

lemma loadEntries_cut:
  assumes "list_all storableEntry ys" "distinct (map fst (m @ ys))" "entriesBytes ys = Some b" "n < length b"
  shows "\<exists>j < length ys. loadEntries (length ys) (take n b) m = Some (KErrEof, m @ take j ys)"
  using assms
proof (induction ys arbitrary: m b n)
  case (Cons x ys)
  obtain k e where x: "x = (k, Some e)" using Cons.prems(1) by (cases x) (auto simp: storableEntry_def)
  obtain c where c: "entriesBytes ys = Some c" "b = elementBytes k e @ c" using Cons.prems(3) x by auto
  have st: "storableEntry (k, Some e)" using Cons.prems(1) x by simp
  show ?case
  proof (cases "n < length (elementBytes k e)")
    case True
    then have "take n b = take n (elementBytes k e)" using c by simp
    then have "loadEntries (length (x # ys)) (take n b) m = Some (KErrEof, m @ take 0 (x # ys))" using loadEntry_cut [OF st True] by simp
    then show ?thesis by (intro exI [of _ 0]) simp
  next
    case False
    define i where "i = n - length (elementBytes k e)"
    have t: "take n b = elementBytes k e @ take i c" "i < length c" using False c Cons.prems(4) by (auto simp: i_def)
    have "loadEntry (take n b) m = Some (KErrNone, Some (take i c), m @ [x])"
      using loadEntry_element [OF st, of m "take i c"] Cons.prems(2) x t by auto
    moreover obtain j where j: "j < length ys" "loadEntries (length ys) (take i c) (m @ [x]) = Some (KErrEof, (m @ [x]) @ take j ys)"
      using Cons.IH [of "m @ [x]" c i] Cons.prems c t by auto
    ultimately have "loadEntries (length (x # ys)) (take n b) m = Some (KErrEof, m @ take (Suc j) (x # ys))" by simp
    then show ?thesis using j(1) by (intro exI [of _ "Suc j"]) simp
  qed
qed simp

lemma loadBytes_cut:
  assumes "list_all storableEntry ys" "distinct (map fst ys)" "prefsBytes ys = Some b" "length ys < 2 ^ 31" "n < length b"
  shows "\<exists>j. loadBytes (take n b) [] = Some (KErrEof, take j ys) \<and> (ys \<noteq> [] \<longrightarrow> j < length ys)"
proof -
  obtain c where c: "entriesBytes ys = Some c" "b = le32 (of_nat (length ys)) @ c" using assms(3) by (auto simp: prefsBytes_def)
  show ?thesis
  proof (cases "n < 4")
    case True
    then have "loadBytes (take n b) [] = Some (KErrEof, take 0 ys)" by (simp add: loadBytes_def c(2) ReadInt32L_take del: take_append)
    then show ?thesis by (intro exI [of _ 0]) simp
  next
    case False
    then have "n - 4 < length c" using assms(5) c by simp
    then obtain j where "j < length ys" "loadEntries (length ys) (take (n - 4) c) [] = Some (KErrEof, take j ys)"
      using loadEntries_cut [OF assms(1) _ c(1), of "[]" "n - 4"] assms(2) by auto
    then show ?thesis using False sint_small [OF assms(4)]
      by (intro exI [of _ j]) (simp add: loadBytes_def c(2) ReadInt32L_take del: take_append)
  qed
qed

end
