(* ===== verification/PreferencesRun.thy ===== *)
theory PreferencesRun
  imports PreferencesSpec
begin

text \<open>
  The preferences of a widget refine a map, over any sequence of operations with restarts between them; and
  what goes wrong when a save fails or the file server is out of reach.
\<close>

subsection \<open>The files of long values\<close>

definition inFile :: "pref_element \<Rightarrow> bool" where
  "inFile e \<longleftrightarrow> peSize e > int KMaxKeyValueSize"

definition fileOf :: "tdes16 \<Rightarrow> tdes8" where
  "fileOf v = le32 (of_nat (length v)) @ le16 v"

definition valueOf :: "pref_disk \<Rightarrow> pref_element \<Rightarrow> tdes16 option" where
  "valueOf d e = (if inFile e then map_option (\<lambda>s. un16 (drop 4 s)) (d (peValue e)) else Some (peValue e))"

type_synonym pref_lookup = "tdes16 \<Rightarrow> pref_element option option"

definition filesOk :: "tdes16 \<Rightarrow> pref_lookup \<Rightarrow> pref_disk \<Rightarrow> bool" where
  "filesOk path M d \<longleftrightarrow>
    (\<forall>k e. M k = Some (Some e) \<longrightarrow> inFile e \<longrightarrow> peValue e \<noteq> path \<and> (\<exists>v. int (length v) = peSize e \<and> d (peValue e) = Some (fileOf v))) \<and>
    (\<forall>k l e f. M k = Some (Some e) \<longrightarrow> M l = Some (Some f) \<longrightarrow> inFile e \<longrightarrow> inFile f \<longrightarrow> peValue e = peValue f \<longrightarrow> k = l)"

definition seen :: "pref_lookup \<Rightarrow> pref_disk \<Rightarrow> tdes16 \<Rightarrow> tdes16 option" where
  "seen M d k = (case M k of Some (Some e) \<Rightarrow> valueOf d e | _ \<Rightarrow> None)"

lemma seen_cong:
  assumes "\<And>l e. M l = Some (Some e) \<Longrightarrow> inFile e \<Longrightarrow> d1 (peValue e) = d (peValue e)"
  shows "seen M d1 = seen M d"
  using assms by (fastforce simp: seen_def valueOf_def split: option.splits)

lemma filesOk_cong:
  assumes "filesOk path M d" "\<And>l e. M l = Some (Some e) \<Longrightarrow> inFile e \<Longrightarrow> d1 (peValue e) = d (peValue e)"
  shows "filesOk path M d1"
  using assms unfolding filesOk_def by metis

lemma filesOk_save: "filesOk path M d \<Longrightarrow> filesOk path M (d(path := x)) \<and> seen M (d(path := x)) = seen M d"
  by (intro conjI filesOk_cong [of path M d "d(path := x)"] seen_cong) (auto simp: filesOk_def)

lemma filesOk_forget: "filesOk path M d \<Longrightarrow> filesOk path (M(k := None)) d \<and> seen (M(k := None)) d = (seen M d)(k := None)"
  unfolding filesOk_def seen_def by (auto split: if_splits)

lemma filesOk_drop:
  assumes "filesOk path M d" "M k = Some (Some e)" "inFile e"
  shows "filesOk path (M(k := None)) (d(peValue e := None)) \<and> seen (M(k := None)) (d(peValue e := None)) = (seen M d)(k := None)"
proof -
  have same: "(d(peValue e := None)) (peValue f) = d (peValue f)" if "(M(k := None)) l = Some (Some f)" "inFile f" for l f
    using assms that unfolding filesOk_def by (metis fun_upd_apply option.distinct(1))
  have f: "filesOk path (M(k := None)) d" "seen (M(k := None)) d = (seen M d)(k := None)" using filesOk_forget [OF assms(1)] by blast+
  have "seen (M(k := None)) (d(peValue e := None)) = seen (M(k := None)) d" by (rule seen_cong) (rule same)
  moreover have "filesOk path (M(k := None)) (d(peValue e := None))" by (rule filesOk_cong [OF f(1)]) (rule same)
  ultimately show ?thesis using f(2) by simp
qed

lemma filesOk_small:
  "filesOk path M d \<Longrightarrow> \<not> inFile e \<Longrightarrow> filesOk path (M(k \<mapsto> Some e)) d \<and> seen (M(k \<mapsto> Some e)) d = (seen M d)(k \<mapsto> peValue e)"
  unfolding filesOk_def seen_def valueOf_def by auto

lemma un16_fileOf [simp]: "un16 (drop 4 (fileOf v)) = v"
  by (simp add: fileOf_def)

definition notFile :: "pref_lookup \<Rightarrow> tdes16 \<Rightarrow> bool" where
  "notFile M n \<longleftrightarrow> (\<forall>l f. M l = Some (Some f) \<longrightarrow> inFile f \<longrightarrow> peValue f \<noteq> n)"

lemma fresh_notFile: "filesOk path M d \<Longrightarrow> d n = None \<Longrightarrow> notFile M n"
  unfolding filesOk_def notFile_def by (metis option.distinct(1))

lemma filesOk_other: "filesOk path M d \<Longrightarrow> notFile M n \<Longrightarrow> filesOk path M (d(n := x)) \<and> seen M (d(n := x)) = seen M d"
  by (intro conjI filesOk_cong [of path M d "d(n := x)"] seen_cong) (auto simp: notFile_def)

lemma filesOk_large:
  assumes ok: "filesOk path M d" and n: "d n = Some (fileOf v)" "n \<noteq> path" "notFile M n"
    and e: "peValue e = n" "peSize e = int (length v)" "inFile e"
  shows "filesOk path (M(k \<mapsto> Some e)) d \<and> seen (M(k \<mapsto> Some e)) d = (seen M d)(k \<mapsto> v)"
proof
  have other: "M l = Some (Some f) \<Longrightarrow> inFile f \<Longrightarrow> peValue f \<noteq> peValue e \<and> peValue e \<noteq> peValue f" for l f
    using n(3) e(1) unfolding notFile_def by metis
  show "filesOk path (M(k \<mapsto> Some e)) d"
    using ok n e other unfolding filesOk_def by (auto split: if_splits)
  have "seen (M(k \<mapsto> Some e)) d l = ((seen M d)(k \<mapsto> v)) l" for l
    using e n(1) by (auto simp: seen_def valueOf_def split: option.splits)
  then show "seen (M(k \<mapsto> Some e)) d = (seen M d)(k \<mapsto> v)" by blast
qed

subsection \<open>The invariant\<close>

definition savedOk :: "prefs_world \<Rightarrow> bool" where
  "savedOk w \<longleftrightarrow> (case wpDisk w (prefsPath w) of
     None \<Rightarrow> wpPreferences w = []
   | Some b \<Rightarrow> \<exists>ys. mset ys = mset (wpPreferences w) \<and> prefsBytes ys = Some b)"

definition entriesOk :: "pref_map \<Rightarrow> bool" where
  "entriesOk m \<longleftrightarrow> distinct (map fst m) \<and> list_all storableEntry m \<and> length m < 2 ^ 31"

definition wp_ok :: "prefs_world \<Rightarrow> bool" where
  "wp_ok w \<longleftrightarrow> hasBasePath w \<and> shortId (wpWidgetId w) \<and> entriesOk (wpPreferences w) \<and>
     filesOk (prefsPath w) (map_of (wpPreferences w)) (wpDisk w) \<and> savedOk w"

definition absPrefs :: "prefs_world \<Rightarrow> int \<times> tdes16 \<Rightarrow> tdes16 option" where
  "absPrefs w ik = seen (map_of (wpPreferences w)) (wpDisk w) (keyText (fst ik) (snd ik))"

definition calmPref :: "pref_env \<Rightarrow> bool" where
  "calmPref env \<longleftrightarrow> evKeyMemory env \<and> evElementMemory env \<and> evConnect env \<and> evConnectDelete env \<and> evConnectSave env \<and>
     evValueWrite env = None \<and> evReplace env = KErrNone \<and> evSaveWrite env = None \<and> evOpen env \<and> (\<forall>xs. mset (evOrder env xs) = mset xs)"

lemma perm_entries: "mset ys = mset xs \<Longrightarrow> entriesOk xs \<Longrightarrow> entriesOk ys \<and> map_of ys = map_of xs"
proof -
  assume m: "mset ys = mset xs" and ok: "entriesOk xs"
  have k: "mset (map fst ys) = mset (map fst xs)" using m by simp
  have d: "distinct (map fst ys)" using mset_eq_imp_distinct_iff [OF k] ok by (simp add: entriesOk_def)
  have e: "set ys = set xs" "length ys = length xs" using mset_eq_setD [OF m] mset_eq_length [OF m] by simp_all
  have "map_of ys = map_of xs" using map_of_inject_set [of ys xs] d e ok by (simp add: entriesOk_def)
  then show "entriesOk ys \<and> map_of ys = map_of xs" using d e ok by (simp add: entriesOk_def list_all_iff)
qed

lemma set_update_sub: "set (AList.update k v m) \<subseteq> insert (k, v) (set m)"
  by (induction m) auto

lemma length_update: "length (AList.update k v m) \<le> Suc (length m)"
  by (induction m) auto

lemma entriesOk_update:
  "entriesOk m \<Longrightarrow> storableEntry (k, v) \<Longrightarrow> length m < 2 ^ 31 - 1 \<Longrightarrow> entriesOk (AList.update k v m)"
  using set_update_sub [of k v m] length_update [of k v m] distinct_update [of m k v] by (auto simp: entriesOk_def list_all_iff)

lemma entriesOk_delete: "entriesOk m \<Longrightarrow> entriesOk (AList.delete k m)"
proof -
  assume ok: "entriesOk m"
  have "set (AList.delete k m) \<subseteq> set m" by (auto simp: AList.delete_eq)
  moreover have "length (AList.delete k m) \<le> length m" by (simp add: AList.delete_eq)
  ultimately show ?thesis using ok distinct_delete [of m k] by (auto simp: entriesOk_def list_all_iff)
qed

lemma saveL_calm:
  assumes "hasBasePath w" "entriesOk (wpPreferences w)" "calmPref env"
  obtains b where "saveL env w = Some (KErrNone, w\<lparr>wpDisk := (wpDisk w)(prefsPath w \<mapsto> b)\<rparr>)" "savedOk (w\<lparr>wpDisk := (wpDisk w)(prefsPath w \<mapsto> b)\<rparr>)"
proof -
  let ?ys = "evOrder env (wpPreferences w)"
  have m: "mset ?ys = mset (wpPreferences w)" using assms(3) by (simp add: calmPref_def)
  have "entriesOk ?ys" using perm_entries [OF m assms(2)] by simp
  then obtain b where b: "prefsBytes ?ys = Some b" unfolding entriesOk_def using prefsBytes_total by blast
  show ?thesis
  proof (rule that)
    show "saveL env w = Some (KErrNone, w\<lparr>wpDisk := (wpDisk w)(prefsPath w \<mapsto> b)\<rparr>)"
      using assms b by (simp add: saveL_def calmPref_def)
    show "savedOk (w\<lparr>wpDisk := (wpDisk w)(prefsPath w \<mapsto> b)\<rparr>)" using b m by (auto simp: savedOk_def prefsPath_def)
  qed
qed

text \<open>Saving what is in order otherwise gives the invariant and changes nothing that is seen.\<close>

lemma saveL_ok:
  assumes "hasBasePath w" "shortId (wpWidgetId w)" "entriesOk (wpPreferences w)" "calmPref env"
    "filesOk (prefsPath w) (map_of (wpPreferences w)) (wpDisk w)"
  obtains w1 where "saveL env w = Some (KErrNone, w1)" "wp_ok w1" "absPrefs w1 = absPrefs w" "wpWidgetId w1 = wpWidgetId w" "wpBasePath w1 = wpBasePath w"
proof -
  obtain b where b: "saveL env w = Some (KErrNone, w\<lparr>wpDisk := (wpDisk w)(prefsPath w \<mapsto> b)\<rparr>)"
    "savedOk (w\<lparr>wpDisk := (wpDisk w)(prefsPath w \<mapsto> b)\<rparr>)" using saveL_calm [OF assms(1,3,4)] by blast
  show ?thesis
  proof (rule that [OF b(1)])
    show "wp_ok (w\<lparr>wpDisk := (wpDisk w)(prefsPath w \<mapsto> b)\<rparr>)"
      using assms b(2) filesOk_save [OF assms(5)] by (simp add: wp_ok_def hasBasePath_def prefsPath_def)
    show "absPrefs (w\<lparr>wpDisk := (wpDisk w)(prefsPath w \<mapsto> b)\<rparr>) = absPrefs w"
      using filesOk_save [OF assms(5)] by (simp add: absPrefs_def fun_eq_iff)
  qed simp_all
qed


subsection \<open>The operations\<close>

definition prefOpOk :: "pref_op \<Rightarrow> prefs_world \<Rightarrow> bool" where
  "prefOpOk a w = (case a of
     SetPreference env k v \<Rightarrow> calmPref env \<and> length v < 2 ^ 31 \<and> length (wpPreferences w) < 2 ^ 31 - 1 \<and>
       (length v > KMaxKeyValueSize \<longrightarrow> (case evTemp env of None \<Rightarrow> False | Some n \<Rightarrow> wpDisk w n = None \<and> n \<noteq> prefsPath w \<and> length n \<le> 256))
   | GetPreference env k \<Rightarrow> calmPref env
   | RemovePreference env k \<Rightarrow> calmPref env
   | SetWidgetId i \<Rightarrow> shortId i
   | Restart env b i \<Rightarrow> calmPref env \<and> wpBasePath w = Some b \<and> shortId i)"

text \<open>The map that is meant: the number of the widget, and the values by number and key.\<close>

type_synonym pref_spec = "int \<times> (int \<times> tdes16 \<Rightarrow> tdes16 option)"

fun prefSpec :: "pref_op \<Rightarrow> pref_spec \<Rightarrow> tdes16 option \<times> pref_spec" where
  "prefSpec (SetPreference env k v) (i, m) = (None, (i, if length k \<le> 4096 then m((i, k) \<mapsto> v) else m))"
| "prefSpec (GetPreference env k) (i, m) = (if length k \<le> 4096 then m (i, k) else None, (i, m))"
| "prefSpec (RemovePreference env k) (i, m) = (None, (i, if length k \<le> 4096 then m((i, k) := None) else m))"
| "prefSpec (SetWidgetId j) (i, m) = (None, (j, m))"
| "prefSpec (Restart env b j) (i, m) = (None, (j, m))"

definition specOf :: "prefs_world \<Rightarrow> pref_spec" where
  "specOf w = (wpWidgetId w, absPrefs w)"

lemma absPrefs_at: "absPrefs w (i, k) = seen (map_of (wpPreferences w)) (wpDisk w) (keyText i k)"
  by (simp add: absPrefs_def)

lemma abs_upd:
  assumes "seen M1 d1 = (seen M d)(keyText i k := x)"
  shows "(\<lambda>ik. seen M1 d1 (keyText (fst ik) (snd ik))) = (\<lambda>ik. seen M d (keyText (fst ik) (snd ik)))((i, k) := x)"
  using assms by (auto simp: fun_eq_iff)

lemma storable_key: "shortId i \<Longrightarrow> length k \<le> 4096 \<Longrightarrow> elementOk e \<Longrightarrow> storableEntry (keyText i k, Some e)"
  by (auto simp: storableEntry_def keyText_def shortId_def KMaxIntLength_def)

lemma sint_length: "n < 2 ^ 31 \<Longrightarrow> sint (of_nat n :: 32 word) = int n"
  by (rule sint_small)

text \<open>Deleting an element of the map, with its file.\<close>

lemma deleteExisting_ok:
  assumes ok: "filesOk path M (wpDisk w)" and st: "entriesOk m" "M = map_of m" and env: "calmPref env"
  obtains d1 where "deleteExisting env k True (M k) w = Some (w\<lparr>wpDisk := d1\<rparr>)" "filesOk path (M(k := None)) d1"
    "seen (M(k := None)) d1 = (seen M (wpDisk w))(k := None)" "\<And>n. notFile M n \<Longrightarrow> d1 n = wpDisk w n"
proof (cases "M k")
  case None
  have "M(k := None) = M" "(seen M (wpDisk w))(k := None) = seen M (wpDisk w)" using None by (auto simp: seen_def)
  then show ?thesis using that [of "wpDisk w"] ok None by (simp add: deleteExisting_def)
next
  case (Some p)
  then have "(k, p) \<in> set m" using st map_of_SomeD by fastforce
  then obtain e where e: "p = Some e" using st(1) by (fastforce simp: entriesOk_def list_all_iff storableEntry_def)
  show ?thesis
  proof (cases "inFile e")
    case True
    show ?thesis
      by (rule that [of "(wpDisk w)(peValue e := None)"])
        (use filesOk_drop [OF ok, of k e] Some e True env in \<open>auto simp: deleteExisting_def deleteElement_def inFile_def calmPref_def notFile_def split: if_splits\<close>)
  next
    case False
    show ?thesis
      by (rule that [of "wpDisk w"]) (use filesOk_forget [OF ok, of k] Some e False env in \<open>auto simp: deleteExisting_def deleteElement_def inFile_def calmPref_def\<close>)
  qed
qed

lemma wp_okD:
  "wp_ok w \<Longrightarrow> hasBasePath w" "wp_ok w \<Longrightarrow> shortId (wpWidgetId w)" "wp_ok w \<Longrightarrow> entriesOk (wpPreferences w)"
  "wp_ok w \<Longrightarrow> filesOk (prefsPath w) (map_of (wpPreferences w)) (wpDisk w)" "wp_ok w \<Longrightarrow> savedOk w"
  by (simp_all add: wp_ok_def)

text \<open>What setting and removing share: a map in order is saved, and what is seen changes at one key.\<close>

lemma change_ok:
  assumes w: "hasBasePath w" "shortId (wpWidgetId w)" and env: "calmPref env"
    and m: "entriesOk (wpPreferences w)" "filesOk (prefsPath w) (map_of (wpPreferences w)) (wpDisk w)"
    and seen: "seen (map_of (wpPreferences w)) (wpDisk w) = (seen (map_of (wpPreferences v)) (wpDisk v))(keyText (wpWidgetId w) k := x)"
  obtains w1 where "saveL env w = Some (KErrNone, w1)" "wp_ok w1" "specOf w1 = (wpWidgetId w, (absPrefs v)((wpWidgetId w, k) := x))" "wpBasePath w1 = wpBasePath w"
proof -
  obtain w1 where w1: "saveL env w = Some (KErrNone, w1)" "wp_ok w1" "absPrefs w1 = absPrefs w" "wpWidgetId w1 = wpWidgetId w" "wpBasePath w1 = wpBasePath w"
    using saveL_ok [OF w m(1) env m(2)] by blast
  have "absPrefs w = (absPrefs v)((wpWidgetId w, k) := x)" using seen by (auto simp: fun_eq_iff absPrefs_def)
  then show ?thesis using that [OF w1(1,2) _ w1(5)] w1(3,4) by (simp add: specOf_def)
qed

lemma setPreferenceL_ok:
  assumes ok: "wp_ok w" and op: "prefOpOk (SetPreference env k v) w" and k: "length k \<le> 4096"
  shows "\<exists>w1. setPreferenceL env k v w = Some (KErrNone, w1) \<and> wp_ok w1 \<and>
    specOf w1 = (wpWidgetId w, (absPrefs w)((wpWidgetId w, k) \<mapsto> v)) \<and> wpBasePath w1 = wpBasePath w"
proof -
  note w = wp_okD [OF ok]
  let ?M = "map_of (wpPreferences w)" and ?key = "keyText (wpWidgetId w) k"
  have env: "calmPref env" and v: "length v < 2 ^ 31" and room: "length (wpPreferences w) < 2 ^ 31 - 1" using op by (simp_all add: prefOpOk_def)
  have set: "setPreferenceL env k v w = (case putValue env ?key v w of None \<Rightarrow> None
      | Some (err, w1) \<Rightarrow> if err \<noteq> KErrNone then Some (err, w1)
        else (case deleteExisting env ?key True (?M ?key) w1 of None \<Rightarrow> None | Some w2 \<Rightarrow> saveL env w2))"
    using w(1,2) env k by (simp add: setPreferenceL_def formatKey_short calmPref_def KMaxKeyValueSize_def split: option.splits prod.splits)
  have finish: ?thesis
    if put: "putValue env ?key v w = Some (KErrNone, w\<lparr>wpPreferences := AList.update ?key (Some e) (wpPreferences w), wpDisk := d\<rparr>)"
      and files: "filesOk (prefsPath w) ?M d" "seen ?M d = seen ?M (wpDisk w)" and e: "elementOk e"
      and add: "\<And>d1. filesOk (prefsPath w) (?M(?key := None)) d1 \<Longrightarrow> (\<And>n. notFile ?M n \<Longrightarrow> d1 n = d n) \<Longrightarrow>
        filesOk (prefsPath w) (?M(?key \<mapsto> Some e)) d1 \<and> seen (?M(?key \<mapsto> Some e)) d1 = (seen (?M(?key := None)) d1)(?key \<mapsto> v)"
    for e d
  proof -
    let ?w1 = "w\<lparr>wpPreferences := AList.update ?key (Some e) (wpPreferences w), wpDisk := d\<rparr>"
    obtain d1 where d1: "deleteExisting env ?key True (?M ?key) ?w1 = Some (?w1\<lparr>wpDisk := d1\<rparr>)" "filesOk (prefsPath w) (?M(?key := None)) d1"
      "seen (?M(?key := None)) d1 = (seen ?M d)(?key := None)" "\<And>n. notFile ?M n \<Longrightarrow> d1 n = d n"
      using deleteExisting_ok [of "prefsPath w" ?M ?w1 "wpPreferences w" env ?key] files(1) w(3) env by auto
    note a = add [OF d1(2,4)]
    let ?w2 = "?w1\<lparr>wpDisk := d1\<rparr>"
    have m: "map_of (wpPreferences ?w2) = ?M(?key \<mapsto> Some e)" by (simp add: update_conv')
    have "entriesOk (wpPreferences ?w2)" using entriesOk_update [OF w(3) storable_key [OF w(2) k e] room] by simp
    moreover have "hasBasePath ?w2" "shortId (wpWidgetId ?w2)" using w by (simp_all add: hasBasePath_def)
    moreover have "filesOk (prefsPath ?w2) (map_of (wpPreferences ?w2)) (wpDisk ?w2)" unfolding m using a by (simp add: prefsPath_def)
    moreover have "seen (map_of (wpPreferences ?w2)) (wpDisk ?w2) = (seen ?M (wpDisk w))(keyText (wpWidgetId ?w2) k \<mapsto> v)"
      unfolding m using a d1(3) files(2) by simp
    ultimately obtain w1 where "saveL env ?w2 = Some (KErrNone, w1)" "wp_ok w1"
      "specOf w1 = (wpWidgetId ?w2, (absPrefs w)((wpWidgetId ?w2, k) \<mapsto> v))" "wpBasePath w1 = wpBasePath ?w2"
      using change_ok [of ?w2 env w k "Some v"] env by blast
    then show ?thesis unfolding set put using d1(1) by simp
  qed
  show ?thesis
  proof (cases "length v \<le> KMaxKeyValueSize")
    case True
    let ?e = "\<lparr>peValue = v, peSize = int (length v)\<rparr>"
    have "\<not> inFile ?e" "elementOk ?e" using True by (simp_all add: inFile_def elementOk_def KMaxKeyValueSize_def)
    then show ?thesis
      by (intro finish [where e = ?e and d = "wpDisk w"]) (use True env w(4) filesOk_small [of "prefsPath w" "?M(?key := None)" _ ?e ?key] in \<open>auto simp: putValue_def calmPref_def\<close>)
  next
    case False
    then obtain n where n: "evTemp env = Some n" "wpDisk w n = None" "n \<noteq> prefsPath w" "length n \<le> 256"
      using op by (auto simp: prefOpOk_def split: option.splits)
    let ?e = "\<lparr>peValue = n, peSize = int (length v)\<rparr>" and ?d = "(wpDisk w)(n \<mapsto> fileOf v)"
    have e: "inFile ?e" "elementOk ?e" using False n v by (simp_all add: inFile_def elementOk_def KMaxKeyValueSize_def)
    note nf = fresh_notFile [OF w(4) n(2)]
    have nf1: "notFile (?M(?key := None)) n" using nf by (auto simp: notFile_def)
    show ?thesis
    proof (rule finish [where e = ?e and d = ?d])
      show "putValue env ?key v w = Some (KErrNone, w\<lparr>wpPreferences := AList.update ?key (Some ?e) (wpPreferences w), wpDisk := ?d\<rparr>)"
        using False env n by (simp add: putValue_def calmPref_def fileOf_def Let_def)
      show "filesOk (prefsPath w) ?M ?d" "seen ?M ?d = seen ?M (wpDisk w)" using filesOk_other [OF w(4) nf] by blast+
      show "elementOk ?e" by (rule e)
      fix d1 assume d1: "filesOk (prefsPath w) (?M(?key := None)) d1" "\<And>n. notFile ?M n \<Longrightarrow> d1 n = ?d n"
      have "d1 n = Some (fileOf v)" using d1(2) [OF nf] by simp
      then show "filesOk (prefsPath w) (?M(?key \<mapsto> Some ?e)) d1 \<and> seen (?M(?key \<mapsto> Some ?e)) d1 = (seen (?M(?key := None)) d1)(?key \<mapsto> v)"
        using filesOk_large [OF d1(1) _ n(3) nf1, of v ?e ?key] e by simp
    qed
  qed
qed

lemma removePreferenceL_ok:
  assumes ok: "wp_ok w" and env: "calmPref env" and k: "length k \<le> 4096"
  shows "\<exists>w1. removePreferenceL env k [] w = Some (KErrNone, w1) \<and> wp_ok w1 \<and>
    specOf w1 = (wpWidgetId w, (absPrefs w)((wpWidgetId w, k) := None)) \<and> wpBasePath w1 = wpBasePath w"
proof -
  note w = wp_okD [OF ok]
  let ?M = "map_of (wpPreferences w)" and ?key = "keyText (wpWidgetId w) k"
  let ?w1 = "w\<lparr>wpPreferences := AList.delete ?key (wpPreferences w)\<rparr>"
  obtain d1 where d1: "deleteExisting env ?key True (?M ?key) ?w1 = Some (?w1\<lparr>wpDisk := d1\<rparr>)" "filesOk (prefsPath w) (?M(?key := None)) d1"
    "seen (?M(?key := None)) d1 = (seen ?M (wpDisk w))(?key := None)"
    using deleteExisting_ok [of "prefsPath w" ?M ?w1 "wpPreferences w" env ?key] w(3,4) env by auto
  let ?w2 = "?w1\<lparr>wpDisk := d1\<rparr>"
  have m: "map_of (wpPreferences ?w2) = ?M(?key := None)" by (simp add: delete_conv')
  have "entriesOk (wpPreferences ?w2)" using entriesOk_delete [OF w(3)] by simp
  moreover have "hasBasePath ?w2" "shortId (wpWidgetId ?w2)" using w by (simp_all add: hasBasePath_def)
  moreover have "filesOk (prefsPath ?w2) (map_of (wpPreferences ?w2)) (wpDisk ?w2)" unfolding m using d1(2) by (simp add: prefsPath_def)
  moreover have "seen (map_of (wpPreferences ?w2)) (wpDisk ?w2) = (seen ?M (wpDisk w))(keyText (wpWidgetId ?w2) k := None)"
    unfolding m using d1(3) by simp
  ultimately obtain w1 where "saveL env ?w2 = Some (KErrNone, w1)" "wp_ok w1"
    "specOf w1 = (wpWidgetId ?w2, (absPrefs w)((wpWidgetId ?w2, k) := None))" "wpBasePath w1 = wpBasePath ?w2"
    using change_ok [of ?w2 env w k None] env by blast
  then show ?thesis using d1(1) w(1,2) env k by (simp add: removePreferenceL_def formatKey_short calmPref_def KMaxKeyValueSize_def)
qed

lemma preferenceL_ok:
  assumes ok: "wp_ok w" and env: "calmPref env" and k: "length k \<le> 4096"
  shows "\<exists>err. preferenceL env k w = Some (err, absPrefs w (wpWidgetId w, k))"
proof -
  note w = wp_okD [OF ok]
  let ?M = "map_of (wpPreferences w)" and ?key = "keyText (wpWidgetId w) k"
  note start = preferenceL_def hasBasePath_def formatKey_short [OF w(2)] KMaxKeyValueSize_def calmPref_def absPrefs_def seen_def valueOf_def inFile_def
  show ?thesis
  proof (cases "?M ?key")
    case None
    then show ?thesis using w(1) env k by (simp add: start)
  next
    case (Some p)
    then have "(?key, p) \<in> set (wpPreferences w)" using map_of_SomeD by fastforce
    then obtain e where e: "p = Some e" "elementOk e" using w(3) by (fastforce simp: entriesOk_def list_all_iff storableEntry_def)
    show ?thesis
    proof (cases "inFile e")
      case True
      then obtain v where v: "int (length v) = peSize e" "wpDisk w (peValue e) = Some (fileOf v)"
        using w(4) Some e(1) unfolding filesOk_def by metis
      then have "length v < 2 ^ 31" "v \<noteq> []" using e(2) True by (auto simp: elementOk_def inFile_def)
      then have "sint (of_nat (length v) :: 32 word) = int (length v)" "v \<noteq> []" using sint_small by blast+
      moreover have "readText (length v) (le16 v) = (Inr v, [])" using readText_app [of v "length v" "[]"] by simp
      moreover have "nat (peSize e) = length v" using v(1) by simp
      ultimately show ?thesis using Some e v w(1) env k True by (simp add: start fileOf_def)
    next
      case False
      then show ?thesis using Some e w(1) env k by (simp add: start elementOk_def)
    qed
  qed
qed

lemma savedOk_cong: "wpDisk v = wpDisk w \<Longrightarrow> prefsPath v = prefsPath w \<Longrightarrow> wpPreferences v = m \<Longrightarrow> savedOk (w\<lparr>wpPreferences := m\<rparr>) \<Longrightarrow> savedOk v"
  by (auto simp: savedOk_def prefsPath_def split: option.splits)

lemma restart_ok:
  assumes ok: "wp_ok w" and op: "prefOpOk (Restart env b i) w"
  shows "\<exists>w1. runPref (Restart env b i) w = Some (None, w1) \<and> wp_ok w1 \<and> specOf w1 = (i, absPrefs w) \<and> wpBasePath w1 = wpBasePath w"
proof -
  note w = wp_okD [OF ok]
  have env: "calmPref env" and b: "wpBasePath w = Some b" and i: "shortId i" using op by (simp_all add: prefOpOk_def)
  have d: "destroyPreferences w = Some (wpDisk w)" using w(3) by (auto simp: destroyPreferences_def entriesOk_def list_all_iff storableEntry_def)
  let ?w0 = "setBasePathL b (newPreferences (wpDisk w))"
  have w0: "hasBasePath ?w0" "prefsPath ?w0 = prefsPath w" "wpDisk ?w0 = wpDisk w" "wpPreferences ?w0 = []"
    using w(1) b by (simp_all add: hasBasePath_def prefsPath_def setBasePathL_def newPreferences_def)
  obtain m where m: "loadL env ?w0 = Some (KErrNone, ?w0\<lparr>wpPreferences := m\<rparr>)" "mset m = mset (wpPreferences w)" "savedOk (w\<lparr>wpPreferences := m\<rparr>)"
  proof (cases "wpDisk w (prefsPath w)")
    case None
    then have "wpPreferences w = []" "savedOk (w\<lparr>wpPreferences := []\<rparr>)" using w(5) by (simp_all add: savedOk_def prefsPath_def)
    moreover have "loadL env ?w0 = Some (KErrNone, ?w0\<lparr>wpPreferences := []\<rparr>)"
      using None w0 env by (simp add: loadL_def setBasePathL_def newPreferences_def calmPref_def)
    ultimately show ?thesis using that [of "[]"] by simp
  next
    case (Some s)
    then obtain ys where ys: "mset ys = mset (wpPreferences w)" "prefsBytes ys = Some s" using w(5) by (auto simp: savedOk_def)
    have "entriesOk ys" using perm_entries [OF ys(1) w(3)] by simp
    then have "loadBytes s [] = Some (KErrNone, ys)" using loadBytes_all [OF _ _ ys(2)] by (simp add: entriesOk_def)
    moreover have "savedOk (w\<lparr>wpPreferences := ys\<rparr>)" using Some ys by (auto simp: savedOk_def prefsPath_def)
    ultimately show ?thesis using that [of ys] ys w0 env Some by (simp add: loadL_def calmPref_def)
  qed
  let ?w1 = "setWidgetId i (?w0\<lparr>wpPreferences := m\<rparr>)"
  have w1: "wpPreferences ?w1 = m" "wpDisk ?w1 = wpDisk w" "prefsPath ?w1 = prefsPath w" "wpWidgetId ?w1 = i" "wpBasePath ?w1 = Some b"
    using b by (simp_all add: setWidgetId_def setBasePathL_def newPreferences_def prefsPath_def)
  have p: "entriesOk m" "map_of m = map_of (wpPreferences w)" using perm_entries [OF m(2) w(3)] by auto
  have "savedOk ?w1" using savedOk_cong [OF w1(2,3,1) m(3)] .
  then have "wp_ok ?w1" using w(1,4) p i b w1 by (simp add: wp_ok_def hasBasePath_def)
  moreover have "specOf ?w1 = (i, absPrefs w)" unfolding specOf_def absPrefs_def w1 p ..
  moreover have "runPref (Restart env b i) w = Some (None, ?w1)" using d m(1) by simp
  ultimately show ?thesis using w1(5) b by auto
qed

lemma runPref_ok:
  assumes ok: "wp_ok w" and op: "prefOpOk a w"
  shows "\<exists>out w1. runPref a w = Some (out, w1) \<and> wp_ok w1 \<and> prefSpec a (specOf w) = (out, specOf w1)"
proof (cases a)
  case (SetPreference env k v)
  show ?thesis
  proof (cases "length k \<le> 4096")
    case True
    then show ?thesis using setPreferenceL_ok [OF ok, of env k v] op SetPreference by (fastforce simp: specOf_def)
  next
    case False
    then show ?thesis using ok SetPreference by (simp add: setPreferenceL_def KMaxKeyValueSize_def specOf_def)
  qed
next
  case (GetPreference env k)
  show ?thesis
  proof (cases "length k \<le> 4096")
    case True
    then show ?thesis using preferenceL_ok [OF ok, of env k] op GetPreference ok by (auto simp: prefOpOk_def specOf_def)
  next
    case False
    then show ?thesis using ok GetPreference by (simp add: preferenceL_def KMaxKeyValueSize_def specOf_def)
  qed
next
  case (RemovePreference env k)
  show ?thesis
  proof (cases "length k \<le> 4096")
    case True
    then show ?thesis using removePreferenceL_ok [OF ok, of env k] op RemovePreference by (fastforce simp: prefOpOk_def specOf_def)
  next
    case False
    then show ?thesis using ok RemovePreference by (simp add: removePreferenceL_def KMaxKeyValueSize_def specOf_def)
  qed
next
  case (SetWidgetId i)
  then have "wp_ok (setWidgetId i w)" using ok op
    by (auto simp: wp_ok_def prefOpOk_def setWidgetId_def hasBasePath_def prefsPath_def savedOk_def split: option.splits)
  then show ?thesis using SetWidgetId by (simp add: specOf_def setWidgetId_def absPrefs_def fun_eq_iff)
next
  case (Restart env b i)
  then show ?thesis using restart_ok [OF ok, of env b i] op by (auto simp: specOf_def)
qed


subsection \<open>Any sequence of operations\<close>

text \<open>Every operation meets a calm environment in the state that it starts in.\<close>

fun prefOpsOk :: "pref_op list \<Rightarrow> prefs_world \<Rightarrow> bool" where
  "prefOpsOk [] w \<longleftrightarrow> True"
| "prefOpsOk (a # as) w \<longleftrightarrow> prefOpOk a w \<and> (case runPref a w of None \<Rightarrow> True | Some (out, w1) \<Rightarrow> prefOpsOk as w1)"

fun prefSpecs :: "pref_op list \<Rightarrow> pref_spec \<Rightarrow> tdes16 option list" where
  "prefSpecs [] s = []"
| "prefSpecs (a # as) s = (let (out, s1) = prefSpec a s in out # prefSpecs as s1)"

definition startPrefs :: "tdes16 \<Rightarrow> int \<Rightarrow> pref_disk \<Rightarrow> prefs_world" where
  "startPrefs b i d = setWidgetId i (setBasePathL b (newPreferences d))"

lemma runPrefs_ok: "wp_ok w \<Longrightarrow> prefOpsOk as w \<Longrightarrow> \<exists>w1. runPrefs as w = Some (prefSpecs as (specOf w), w1)"
proof (induction as arbitrary: w)
  case (Cons a as)
  obtain out w1 where w1: "runPref a w = Some (out, w1)" "wp_ok w1" "prefSpec a (specOf w) = (out, specOf w1)"
    using runPref_ok [OF Cons.prems(1), of a] Cons.prems(2) by auto
  then obtain w2 where "runPrefs as w1 = Some (prefSpecs as (specOf w1), w2)" using Cons.IH [OF w1(2)] Cons.prems(2) by auto
  then show ?case using w1 by simp
qed simp

lemma startPrefs_ok:
  assumes "b \<noteq> []" "shortId i" "d (b @ KPrefsFile) = None"
  shows "wp_ok (startPrefs b i d)" "specOf (startPrefs b i d) = (i, \<lambda>_. None)"
  using assms by (simp_all add: startPrefs_def wp_ok_def specOf_def absPrefs_def seen_def setWidgetId_def setBasePathL_def newPreferences_def
      hasBasePath_def entriesOk_def filesOk_def savedOk_def prefsPath_def fun_eq_iff)

text \<open>
  C14: The preferences of a widget refine a map from the number of the widget and the key to the value: for
  every sequence of setting, reading and removing, with changes of the number and restarts of the browser
  in between, each reading gives the value that was set last, whether it is kept in the file of all
  preferences or, being longer than 4096 characters, in a file of its own.
\<close>

theorem preferences_refine_map:
  assumes "b \<noteq> []" and "shortId i" and "d (b @ KPrefsFile) = None" and "prefOpsOk as (startPrefs b i d)"
  shows "\<exists>w. runPrefs as (startPrefs b i d) = Some (prefSpecs as (i, \<lambda>_. None), w)"
  using runPrefs_ok [OF startPrefs_ok(1) assms(4)] startPrefs_ok [of b i d] assms by simp

subsection \<open>When saving fails\<close>

text \<open>
  C35: The file of the preferences is replaced in place. When writing it stops before its end, the next start
  leaves with KErrEof and has only the first of the preferences, in the order of the hash table.
\<close>

theorem failed_save_loses:
  assumes "wpBasePath w = Some base" and "base \<noteq> []" and "entriesOk (wpPreferences w)" and "mset (evOrder env (wpPreferences w)) = mset (wpPreferences w)"
    and "evConnectSave env" and "evReplace env = KErrNone" and "evSaveWrite env = Some (err, n)"
    and "prefsBytes (evOrder env (wpPreferences w)) = Some b" and "n < length b" and "evConnect env2" and "evOpen env2" and "wpPreferences w \<noteq> []"
  shows "\<exists>w1 w2 j. saveL env w = Some (err, w1) \<and> loadL env2 (setBasePathL base (newPreferences (wpDisk w1))) = Some (KErrEof, w2) \<and>
    wpPreferences w2 = take j (evOrder env (wpPreferences w)) \<and> length (wpPreferences w2) < length (wpPreferences w)"
proof -
  let ?ys = "evOrder env (wpPreferences w)"
  have ys: "list_all storableEntry ?ys" "distinct (map fst ?ys)" "length ?ys < 2 ^ 31"
    using perm_entries [OF assms(4,3)] by (simp_all add: entriesOk_def)
  have len: "length ?ys = length (wpPreferences w)" by (rule mset_eq_length [OF assms(4)])
  then have "?ys \<noteq> []" using assms(12) by auto
  then obtain j where j: "loadBytes (take n b) [] = Some (KErrEof, take j ?ys)" "j < length ?ys" using loadBytes_cut [OF ys(1,2) assms(8) ys(3) assms(9)] by blast
  let ?w1 = "w\<lparr>wpDisk := (wpDisk w)(prefsPath w \<mapsto> take n b)\<rparr>" and ?w0 = "\<lambda>d. setBasePathL base (newPreferences d)"
  have "saveL env w = Some (err, ?w1)" using assms by (simp add: saveL_def hasBasePath_def)
  moreover have "loadL env2 (?w0 (wpDisk ?w1)) = Some (KErrEof, (?w0 (wpDisk ?w1))\<lparr>wpPreferences := take j ?ys\<rparr>)"
    using j assms by (simp add: loadL_def hasBasePath_def prefsPath_def setBasePathL_def newPreferences_def)
  ultimately show ?thesis using j(2) len by (intro exI conjI) auto
qed

subsection \<open>When the file server is out of reach\<close>

text \<open>
  C36: Setting a long value for a key that has one, while the file server cannot be reached, deletes the old
  element and leaves the map pointing to it. No error is reported; the next use of the key, and the end of
  the preferences, use the deleted element.
\<close>

theorem unreachable_server_dangles:
  assumes "hasBasePath w" and "length k \<le> 4096" and "4096 < length v" and "evKeyMemory env" and "\<not> evConnect env" and "\<not> evConnectSave env"
    and "formatKey (wpWidgetId w) k = Some key" and "map_of (wpPreferences w) key = Some (Some e)" and "evKeyMemory env2"
  shows "\<exists>w1. setPreferenceL env k v w = Some (KErrNone, w1) \<and> preferenceL env2 k w1 = None \<and> destroyPreferences w1 = None"
proof -
  obtain d where d: "deleteExisting env key False (Some (Some e)) w = Some (w\<lparr>wpDisk := d, wpPreferences := AList.update key None (wpPreferences w)\<rparr>)"
    by (auto simp: deleteExisting_def deleteElement_def)
  let ?w1 = "w\<lparr>wpDisk := d, wpPreferences := AList.update key None (wpPreferences w)\<rparr>"
  have "setPreferenceL env k v w = Some (KErrNone, ?w1)"
    using assms d by (simp add: setPreferenceL_def putValue_def saveL_def KMaxKeyValueSize_def)
  moreover have m: "map_of (wpPreferences ?w1) key = Some None" by (simp add: update_conv')
  moreover have "preferenceL env2 k ?w1 = None" using assms m by (simp add: preferenceL_def hasBasePath_def KMaxKeyValueSize_def)
  moreover have "destroyPreferences ?w1 = None" using map_of_SomeD [OF m] by (force simp: destroyPreferences_def)
  ultimately show ?thesis by blast
qed


subsection \<open>Witnesses\<close>

definition calmDemo :: pref_env where
  "calmDemo = \<lparr>evKeyMemory = True, evElementMemory = True, evConnect = True, evConnectDelete = True, evConnectSave = True, evTemp = None,
     evValueWrite = None, evReplace = KErrNone, evCreate = KErrNone, evSaveWrite = None, evOpen = True, evOrder = rev\<rparr>"

definition onePreference :: prefs_world where
  "onePreference = \<lparr>wpPreferences = [([53, 46, 65], Some \<lparr>peValue = [66], peSize = 1\<rparr>)], wpWidgetId = 5, wpBasePath = Some [99], wpDisk = \<lambda>_. None\<rparr>"

lemma calm_demo: "calmPref calmDemo"
  by (simp add: calmPref_def calmDemo_def)

lemma short5: "showInt 5 = [53]" "shortId 5"
  by (simp_all add: showInt_def shortId_def showDec.simps KMaxIntLength_def)

lemma onePreference_ok: "entriesOk (wpPreferences onePreference)"
  by (simp add: entriesOk_def onePreference_def storableEntry_def elementOk_def KMaxKeyValueSize_def)

theorem preferences_refine_map_witness:
  "\<exists>w. runPrefs [SetPreference calmDemo [65] [66], Restart calmDemo [99] 5, GetPreference calmDemo [65]] (startPrefs [99] 5 (\<lambda>_. None)) =
    Some ([None, None, Some [66]], w)"
proof -
  let ?as = "[SetPreference calmDemo [65] [66], Restart calmDemo [99] 5, GetPreference calmDemo [65]]" and ?w = "startPrefs [99] 5 (\<lambda>_. None)"
  have op: "prefOpOk (SetPreference calmDemo [65] [66]) ?w"
    by (simp add: prefOpOk_def calm_demo startPrefs_def setWidgetId_def setBasePathL_def newPreferences_def KMaxKeyValueSize_def)
  have base: "wpBasePath ?w = Some [99]" by (simp add: startPrefs_def setWidgetId_def setBasePathL_def)
  have "wp_ok ?w" using short5 by (intro startPrefs_ok(1)) simp_all
  then obtain w1 where "setPreferenceL calmDemo [65] [66] ?w = Some (KErrNone, w1)" "wpBasePath w1 = Some [99]"
    using setPreferenceL_ok [OF _ op] base by auto
  then have ops: "prefOpsOk ?as ?w" using op short5 by (simp add: prefOpOk_def calm_demo split: option.split)
  have specs: "prefSpecs ?as (5, \<lambda>_. None) = [None, None, Some [66]]" by simp
  show ?thesis using preferences_refine_map [of "[99]" 5 "\<lambda>_. None" ?as, OF _ short5(2) _ ops] unfolding specs by simp
qed

theorem failed_save_loses_witness:
  "\<exists>w1 w2. saveL (calmDemo\<lparr>evSaveWrite := Some (KErrDiskFull, 3)\<rparr>) onePreference = Some (KErrDiskFull, w1) \<and>
    loadL calmDemo (setBasePathL [99] (newPreferences (wpDisk w1))) = Some (KErrEof, w2) \<and> wpPreferences w2 = []"
proof -
  let ?env = "calmDemo\<lparr>evSaveWrite := Some (KErrDiskFull, 3)\<rparr>"
  obtain b where b: "prefsBytes (evOrder ?env (wpPreferences onePreference)) = Some b" "3 < length b"
    by (simp add: prefsBytes_def onePreference_def calmDemo_def)
  obtain w1 w2 where "saveL ?env onePreference = Some (KErrDiskFull, w1)"
    "loadL calmDemo (setBasePathL [99] (newPreferences (wpDisk w1))) = Some (KErrEof, w2)" "length (wpPreferences w2) < length (wpPreferences onePreference)"
    using failed_save_loses [of onePreference "[99]" ?env KErrDiskFull 3 b calmDemo, OF _ _ onePreference_ok _ _ _ _ b]
    by (auto simp: onePreference_def calmDemo_def)
  then show ?thesis by (auto simp: onePreference_def)
qed

theorem unreachable_server_dangles_witness:
  "\<exists>w1. setPreferenceL (calmDemo\<lparr>evConnect := False, evConnectSave := False\<rparr>) [65] (replicate 5000 66) onePreference = Some (KErrNone, w1) \<and>
    preferenceL calmDemo [65] w1 = None \<and> destroyPreferences w1 = None"
proof (rule unreachable_server_dangles)
  show "formatKey (wpWidgetId onePreference) [65] = Some [53, 46, 65]"
    using short5 by (simp add: onePreference_def formatKey_short keyText_def)
qed (simp_all add: onePreference_def calmDemo_def hasBasePath_def)

end
